(* ===== verification/Prelude.thy ===== *)
theory Prelude
  imports Main "HOL-Library.Word" "HOL-Library.AList" "HOL-Library.Char_ord"
    "HOL-Library.List_Lexorder"
begin

text \<open>
  Shared vocabulary of the development: Rust's results (\<open>Inl\<close> the error), checked integer
  arithmetic on words, the two map containers of the standard library (\<open>HashMap\<close> as an
  association list with distinct keys in some iteration order, \<open>BTreeMap\<close> as one sorted by
  key), the byte-string operations of \<open>str\<close> that the sources call, and the locales that
  lift one-step facts to runs of a component.
\<close>

named_theorems map_simps \<open>look-ups and updates of the container models\<close>
named_theorems inv_defs \<open>invariants of the components\<close>

type_synonym u16 = "16 word"
type_synonym u32 = "32 word"
type_synonym u64 = "64 word"
type_synonym uuid = "128 word"
type_synonym instant = int \<comment> \<open>a point of time in nanoseconds (\<open>DateTime<Utc>\<close>, \<open>Instant\<close>)\<close>
type_synonym ('e, 'a) result = "'e + 'a"

section \<open>Results\<close>

text \<open>The question-mark operator: an error returns early, a value is passed on.\<close>

definition and_then :: "('e, 'a) result \<Rightarrow> ('a \<Rightarrow> ('e, 'b) result) \<Rightarrow> ('e, 'b) result" where
  "and_then r f = (case r of Inl e \<Rightarrow> Inl e | Inr x \<Rightarrow> f x)"

lemma and_then_simps [simp]:
  "and_then (Inl e) f = Inl e"
  "and_then (Inr x) f = f x"
  by (simp_all add: and_then_def)

lemma and_then_eq_Inr: "and_then r f = Inr y \<longleftrightarrow> (\<exists>x. r = Inr x \<and> f x = Inr y)"
  by (cases r) auto

definition map_err :: "('e \<Rightarrow> 'f) \<Rightarrow> ('e, 'a) result \<Rightarrow> ('f, 'a) result" where
  "map_err g r = (case r of Inl e \<Rightarrow> Inl (g e) | Inr x \<Rightarrow> Inr x)"

lemma map_err_simps [simp]:
  "map_err g (Inl e) = Inl (g e)"
  "map_err g (Inr x) = Inr x"
  by (simp_all add: map_err_def)

lemma map_err_eq_Inr [simp]: "map_err g r = Inr x \<longleftrightarrow> r = Inr x"
  by (cases r) auto

definition ok_or :: "'e \<Rightarrow> 'a option \<Rightarrow> ('e, 'a) result" where
  "ok_or e x = (case x of None \<Rightarrow> Inl e | Some v \<Rightarrow> Inr v)"

lemma ok_or_simps [simp]:
  "ok_or e None = Inl e"
  "ok_or e (Some v) = Inr v"
  by (simp_all add: ok_or_def)

lemma ok_or_eq_Inr [simp]: "ok_or e x = Inr v \<longleftrightarrow> x = Some v"
  by (cases x) auto

text \<open>\<open>if b { return Err(e); }\<close> before the rest.\<close>

lemma guard_ok: "(if b then Inl e else r) = Inr v \<longleftrightarrow> \<not> b \<and> r = Inr v"
  by simp

text \<open>\<open>iter().map(f).collect::<Result<Vec<_>, _>>()\<close>: the first error wins.\<close>

fun collect_results :: "('a \<Rightarrow> ('e, 'b) result) \<Rightarrow> 'a list \<Rightarrow> ('e, 'b list) result" where
  "collect_results f [] = Inr []"
| "collect_results f (x # xs) =
     and_then (f x) (\<lambda>y. and_then (collect_results f xs) (\<lambda>ys. Inr (y # ys)))"

lemma collect_results_Inr:
  "collect_results f xs = Inr ys \<longleftrightarrow> list_all2 (\<lambda>x y. f x = Inr y) xs ys"
  by (induction xs arbitrary: ys) (auto simp: and_then_eq_Inr list_all2_Cons1)

section \<open>Checked arithmetic\<close>

definition checked_add :: "'a::len word \<Rightarrow> 'a word \<Rightarrow> 'a word option" where
  "checked_add a b = (if unat a + unat b < 2 ^ LENGTH('a) then Some (a + b) else None)"

lemma checked_add_unat: "checked_add a b = Some c \<Longrightarrow> unat c = unat a + unat b"
  by (auto simp: checked_add_def unat_word_ariths split: if_splits)

lemma checked_add_le: "checked_add a b = Some c \<Longrightarrow> a \<le> c"
  by (simp add: checked_add_unat word_le_nat_alt)

lemma checked_add_less: "checked_add a b = Some c \<Longrightarrow> b \<noteq> 0 \<Longrightarrow> a < c"
  using checked_add_unat [of a b c] unat_gt_0 [of b] by (simp add: word_less_nat_alt)

lemma checked_add_zero [simp]: "checked_add a 0 = Some a"
  by (simp add: checked_add_def)

lemma checked_add_inj:
  "checked_add a b = Some c \<Longrightarrow> checked_add a b' = Some c \<Longrightarrow> b = b'"
  by (auto simp: checked_add_def split: if_splits)

section \<open>Maps\<close>

type_synonym ('k, 'v) hashmap = "('k \<times> 'v) list"
type_synonym ('k, 'v) btreemap = "('k \<times> 'v) list"

definition hm_insert :: "'k \<Rightarrow> 'v \<Rightarrow> ('k, 'v) hashmap \<Rightarrow> ('k, 'v) hashmap" where
  "hm_insert k v m = AList.update k v m"

definition hm_remove :: "'k \<Rightarrow> ('k, 'v) hashmap \<Rightarrow> ('k, 'v) hashmap" where
  "hm_remove k m = AList.delete k m"

definition hm_ok :: "('k, 'v) hashmap \<Rightarrow> bool" where
  "hm_ok m \<longleftrightarrow> distinct (map fst m)"

definition hm_contains :: "('k, 'v) hashmap \<Rightarrow> 'k \<Rightarrow> bool" where
  "hm_contains m k \<longleftrightarrow> map_of m k \<noteq> None"

fun bt_insert :: "'k::linorder \<Rightarrow> 'v \<Rightarrow> ('k, 'v) btreemap \<Rightarrow> ('k, 'v) btreemap" where
  "bt_insert k v [] = [(k, v)]"
| "bt_insert k v ((a, b) # m) =
     (if k < a then (k, v) # (a, b) # m
      else if k = a then (k, v) # m
      else (a, b) # bt_insert k v m)"

definition bt_ok :: "('k::linorder, 'v) btreemap \<Rightarrow> bool" where
  "bt_ok m \<longleftrightarrow> sorted_wrt (<) (map fst m)"

text \<open>
  What the components rely on, for either container: a look-up after an insert or a
  removal, distinct keys, and that the operations keep the container well formed.
\<close>

locale keyed_map =
  fixes ins :: "'k \<Rightarrow> 'v \<Rightarrow> ('k \<times> 'v) list \<Rightarrow> ('k \<times> 'v) list"
    and ok :: "('k \<times> 'v) list \<Rightarrow> bool"
  assumes get_ins: "map_of (ins k v m) = (map_of m)(k \<mapsto> v)"
    and ok_distinct: "ok m \<Longrightarrow> distinct (map fst m)"
    and ok_empty: "ok []"
    and ok_ins: "ok m \<Longrightarrow> ok (ins k v m)"
    and ok_del: "ok m \<Longrightarrow> ok (AList.delete k m)"
begin

lemma mem_iff: "ok m \<Longrightarrow> (k, v) \<in> set m \<longleftrightarrow> map_of m k = Some v"
  by (simp add: ok_distinct)

lemma mem_ins: "ok m \<Longrightarrow> (k', v') \<in> set (ins k v m) \<longleftrightarrow>
    (k' = k \<and> v' = v) \<or> (k' \<noteq> k \<and> (k', v') \<in> set m)"
  using mem_iff [of m] mem_iff [OF ok_ins [of m k v]] by (auto simp: get_ins)

lemma mem_del: "ok m \<Longrightarrow> (k', v') \<in> set (AList.delete k m) \<longleftrightarrow> k' \<noteq> k \<and> (k', v') \<in> set m"
  using mem_iff [of m] mem_iff [OF ok_del [of m k]] by (auto simp: delete_conv')

lemma distinct_entries: "ok m \<Longrightarrow> distinct m"
  using ok_distinct by (auto simp: distinct_map)

text \<open>
  The number of entries with a property, compared before and after an insert: the key's old
  entry is taken out and the new one added, whatever the iteration order.
\<close>

lemma count_card: "ok m \<Longrightarrow> length (filter P m) = card {kv \<in> set m. P kv}"
  by (metis distinct_card distinct_entries distinct_filter set_filter)

lemma set_ins: "ok m \<Longrightarrow> set (ins k v m) = insert (k, v) (set (AList.delete k m))"
  using mem_ins [of m] mem_del [of m] by (auto simp: set_eq_iff)

lemma count_ins:
  assumes ok: "ok m"
  shows "length (filter P (ins k v m)) = length (filter P (AList.delete k m)) + of_bool (P (k, v))"
proof -
  have fresh: "(k, v) \<notin> set (AList.delete k m)"
    using mem_del [OF ok] by simp
  have "{kv \<in> set (ins k v m). P kv} =
      (if P (k, v) then insert (k, v) else id) {kv \<in> set (AList.delete k m). P kv}"
    by (auto simp: set_ins [OF ok])
  then show ?thesis
    using fresh by (simp add: count_card ok ok_ins ok_del)
qed

lemma count_del:
  assumes ok: "ok m" and k: "map_of m k = Some w"
  shows "length (filter P m) = length (filter P (AList.delete k m)) + of_bool (P (k, w))"
proof -
  have entry: "(k, w') \<in> set m \<longleftrightarrow> w' = w" for w'
    using k mem_iff [OF ok, of k w'] by auto
  have fresh: "(k, w) \<notin> set (AList.delete k m)"
    using mem_del [OF ok] by simp
  have eq: "set m = insert (k, w) (set (AList.delete k m))"
  proof (rule set_eqI)
    fix kv
    show "kv \<in> set m \<longleftrightarrow> kv \<in> insert (k, w) (set (AList.delete k m))"
      by (cases kv; cases "fst kv = k") (simp_all add: mem_del [OF ok] entry)
  qed
  have "{kv \<in> insert (k, w) S. P kv} = (if P (k, w) then insert (k, w) else id) {kv \<in> S. P kv}"
    for S by auto
  then have "card {kv \<in> set m. P kv} =
      card ((if P (k, w) then insert (k, w) else id) {kv \<in> set (AList.delete k m). P kv})"
    by (subst eq) (rule arg_cong)
  then show ?thesis
    using fresh by (simp only: count_card ok ok_del) simp
qed

lemma count_del_fresh: "map_of m k = None \<Longrightarrow> AList.delete k m = m"
  by (simp add: delete_idem map_of_eq_None_iff)

end

lemma count_del_le: "length (filter P (AList.delete k m)) \<le> length (filter P m)"
  by (induction m) (auto simp: le_SucI)

lemma delete_update_same [simp]: "AList.delete k (AList.update k v m) = AList.delete k m"
  by (induction m) auto

lemma delete_keys_subset: "set (map fst (AList.delete k m)) \<subseteq> set (map fst m)"
  by (induction m) auto

lemma bt_insert_keys: "set (map fst (bt_insert k v m)) = insert k (set (map fst m))"
  by (induction k v m rule: bt_insert.induct) auto

lemma bt_insert_get: "map_of (bt_insert k v m) = (map_of m)(k \<mapsto> v)"
  by (induction k v m rule: bt_insert.induct) (auto simp: fun_eq_iff)

lemma bt_insert_ok: "bt_ok m \<Longrightarrow> bt_ok (bt_insert k v m)"
proof (induction k v m rule: bt_insert.induct)
  case (2 k v a b m)
  then show ?case
    using bt_insert_keys [of k v m] by (force simp: bt_ok_def)
qed (simp add: bt_ok_def)

lemma bt_delete_ok: "bt_ok m \<Longrightarrow> bt_ok (AList.delete k m)"
proof (induction m)
  case (Cons p m)
  then show ?case
    using delete_keys_subset [of k m] by (cases p) (force simp: bt_ok_def)
qed simp

interpretation hm: keyed_map hm_insert hm_ok
  by unfold_locales (auto simp: hm_insert_def hm_ok_def update_conv' distinct_update distinct_delete)

interpretation bt: keyed_map bt_insert bt_ok
proof (unfold_locales, goal_cases)
  case (2 m)
  then show ?case by (simp add: bt_ok_def strict_sorted_iff)
qed (simp_all add: bt_insert_get bt_insert_ok bt_delete_ok, simp add: bt_ok_def)

text \<open>A sorted map is determined by its look-ups; replacing values keeps its keys.\<close>

lemma bt_eqI:
  assumes "bt_ok m" "bt_ok m'" "map_of m = map_of m'"
  shows "m = m'"
proof -
  have d: "distinct (map fst m)" "distinct (map fst m')" "sorted (map fst m)" "sorted (map fst m')"
    using assms(1,2) by (auto simp: bt_ok_def strict_sorted_iff)
  have "set (map fst m) = dom (map_of m)" "set (map fst m') = dom (map_of m')"
    by (simp_all add: dom_map_of_conv_image_fst)
  then have keys: "map fst m = map fst m'"
    using d assms(3) by (metis sorted_distinct_set_unique)
  have expand: "x = map (\<lambda>k. (k, the (map_of x k))) (map fst x)" if "distinct (map fst x)" for x :: "('a \<times> 'b) list"
  proof -
    have "map_of x (fst kv) = Some (snd kv)" if "kv \<in> set x" for kv
      using that \<open>distinct (map fst x)\<close> by (intro map_of_is_SomeI) auto
    then have "(fst kv, the (map_of x (fst kv))) = kv" if "kv \<in> set x" for kv
      using that by simp
    then show ?thesis by (simp add: map_idI comp_def)
  qed
  show ?thesis
    using expand [OF d(1)] expand [OF d(2)] keys assms(3) by metis
qed

definition map_entries :: "('k \<Rightarrow> 'v \<Rightarrow> 'v) \<Rightarrow> ('k \<times> 'v) list \<Rightarrow> ('k \<times> 'v) list" where
  "map_entries f m = map (\<lambda>(k, v). (k, f k v)) m"

lemma map_entries_keys [simp]: "map fst (map_entries f m) = map fst m"
  by (simp add: map_entries_def comp_def case_prod_beta)

lemma map_entries_get: "map_of (map_entries f m) k = map_option (f k) (map_of m k)"
  by (induction m) (auto simp: map_entries_def)

lemma map_entries_ok [simp]: "bt_ok (map_entries f m) = bt_ok m"
  by (simp add: bt_ok_def)

lemma length_map_entries [simp]: "length (map_entries f m) = length m"
  by (simp add: map_entries_def)

lemma bt_insert_existing:
  assumes "bt_ok m" "map_of m k = Some v'"
  shows "bt_insert k v m = map_entries (\<lambda>k' x. if k' = k then v else x) m"
proof (rule bt_eqI)
  have "map_option (If False v) y = y" for y by (cases y) auto
  then show "map_of (bt_insert k v m) = map_of (map_entries (\<lambda>k' x. if k' = k then v else x) m)"
    using assms(2) by (auto simp: bt_insert_get map_entries_get fun_eq_iff)
qed (simp_all add: assms(1) bt_insert_ok)

section \<open>Runs of a component\<close>

text \<open>
  A component is a step relation on its states. The contracts below are proved for one
  step by each component and lifted to whole runs here, once: an invariant, a rank that
  never decreases, and a view that can only change together with the rank.
\<close>

locale invariant_system =
  fixes step :: "'s \<Rightarrow> 's \<Rightarrow> bool" and inv :: "'s \<Rightarrow> bool"
  assumes step_inv: "inv s \<Longrightarrow> step s t \<Longrightarrow> inv t"
begin

lemma run_inv: "step\<^sup>*\<^sup>* s t \<Longrightarrow> inv s \<Longrightarrow> inv t"
  by (induction rule: rtranclp_induct) (auto intro: step_inv)

end

locale ranked_system = invariant_system step inv
  for step :: "'s \<Rightarrow> 's \<Rightarrow> bool" and inv :: "'s \<Rightarrow> bool" +
  fixes rank :: "'s \<Rightarrow> 'r::order"
  assumes step_rank: "inv s \<Longrightarrow> step s t \<Longrightarrow> rank s \<le> rank t"
begin

lemma run_rank: "step\<^sup>*\<^sup>* s t \<Longrightarrow> inv s \<Longrightarrow> rank s \<le> rank t"
proof (induction rule: rtranclp_induct)
  case (step y z)
  then have "inv y" by (blast intro: run_inv)
  with step show ?case by (blast intro: order_trans step_rank)
qed simp

end

locale versioned_system = ranked_system step inv rank
  for step :: "'s \<Rightarrow> 's \<Rightarrow> bool" and inv :: "'s \<Rightarrow> bool" and rank :: "'s \<Rightarrow> 'r::order" +
  fixes view :: "'s \<Rightarrow> 'v"
  assumes step_view: "inv s \<Longrightarrow> step s t \<Longrightarrow> rank t = rank s \<Longrightarrow> view t = view s"
begin

lemma run_view: "step\<^sup>*\<^sup>* s t \<Longrightarrow> inv s \<Longrightarrow> rank t = rank s \<Longrightarrow> view t = view s"
proof (induction rule: rtranclp_induct)
  case (step y z)
  from step have y: "inv y" by (blast intro: run_inv)
  have "rank s \<le> rank y" "rank y \<le> rank z"
    using step y by (blast intro: run_rank step_rank)+
  with step.prems(2) have "rank y = rank s" by simp
  with step y show ?case by (metis step_view)
qed simp

end

section \<open>Components that announce their changes\<close>

text \<open>
  A component whose operations return events: a sequence of operations, and the contract that
  playing the events of an operation on the view a reader had gives the view afterwards.
\<close>

fun run_ops :: "('op \<Rightarrow> 's \<Rightarrow> 's \<times> 'e list) \<Rightarrow> 'op list \<Rightarrow> 's \<Rightarrow> 's \<times> 'e list" where
  "run_ops run [] s = (s, [])"
| "run_ops run (op # ops) s =
     (case run op s of (s1, es) \<Rightarrow> (case run_ops run ops s1 of (s2, fs) \<Rightarrow> (s2, es @ fs)))"

locale event_sourced =
  fixes run :: "'op \<Rightarrow> 's \<Rightarrow> 's \<times> 'e list" and inv :: "'s \<Rightarrow> bool"
    and view :: "'s \<Rightarrow> 'v" and play :: "'e list \<Rightarrow> 'v \<Rightarrow> 'v option"
  assumes run_inv: "inv s \<Longrightarrow> inv (fst (run op s))"
    and play_run: "inv s \<Longrightarrow> play (snd (run op s)) (view s) = Some (view (fst (run op s)))"
    and play_Nil: "play [] v = Some v"
    and play_append: "play (es @ fs) v = Option.bind (play es v) (play fs)"
begin

lemma run_ops_told:
  "inv s \<Longrightarrow> inv (fst (run_ops run ops s)) \<and>
    play (snd (run_ops run ops s)) (view s) = Some (view (fst (run_ops run ops s)))"
proof (induction ops arbitrary: s)
  case (Cons op ops)
  obtain s1 es where r: "run op s = (s1, es)" by fastforce
  obtain s2 fs where rs: "run_ops run ops s1 = (s2, fs)" by fastforce
  have "inv s1" "play es (view s) = Some (view s1)"
    using run_inv [OF Cons.prems, of op] play_run [OF Cons.prems, of op] r by simp_all
  with Cons.IH [of s1] show ?case by (simp add: r rs play_append)
qed (simp add: play_Nil)

end

end
