(* ===== verification/Rust_Str.thy ===== *)
theory Rust_Str
  imports Prelude
begin

text \<open>
  The operations of Rust's \<open>str\<close> and integer parsing that the sources use, on strings as
  lists of UTF-8 bytes (one \<open>char\<close> per byte, so \<open>length\<close> is \<open>str::len\<close>): splitting,
  trimming, ASCII classes and case, decimal numbers.
\<close>

section \<open>ASCII classes\<close>

abbreviation byte :: "char \<Rightarrow> nat" where
  "byte c \<equiv> of_char c"

definition is_ascii_upper :: "char \<Rightarrow> bool" where
  "is_ascii_upper c \<longleftrightarrow> 65 \<le> byte c \<and> byte c \<le> 90"

definition is_ascii_lower :: "char \<Rightarrow> bool" where
  "is_ascii_lower c \<longleftrightarrow> 97 \<le> byte c \<and> byte c \<le> 122"

definition is_ascii_digit :: "char \<Rightarrow> bool" where
  "is_ascii_digit c \<longleftrightarrow> 48 \<le> byte c \<and> byte c \<le> 57"

definition is_ascii_alphanumeric :: "char \<Rightarrow> bool" where
  "is_ascii_alphanumeric c \<longleftrightarrow> is_ascii_upper c \<or> is_ascii_lower c \<or> is_ascii_digit c"

text \<open>\<open>is_ascii_graphic\<close> and the range \<open>b'!'..=b'~'\<close> are the same bytes.\<close>

definition is_ascii_graphic :: "char \<Rightarrow> bool" where
  "is_ascii_graphic c \<longleftrightarrow> 33 \<le> byte c \<and> byte c \<le> 126"

definition ascii_lower :: "char \<Rightarrow> char" where
  "ascii_lower c = (if is_ascii_upper c then char_of (byte c + 32) else c)"

definition to_ascii_lowercase :: "string \<Rightarrow> string" where
  "to_ascii_lowercase s = map ascii_lower s"

lemmas ascii_defs = is_ascii_upper_def is_ascii_lower_def is_ascii_digit_def
  is_ascii_alphanumeric_def is_ascii_graphic_def

lemma byte_eq_iff: "byte c = byte d \<longleftrightarrow> c = d"
  by simp

lemma byte_ascii_lower: "byte (ascii_lower c) = (if is_ascii_upper c then byte c + 32 else byte c)"
  by (auto simp: ascii_lower_def is_ascii_upper_def)

lemma ascii_lower_not_upper [simp]: "\<not> is_ascii_upper (ascii_lower c)"
  using byte_ascii_lower [of c] by (auto simp: is_ascii_upper_def split: if_splits)

lemma ascii_lower_id [simp]: "\<not> is_ascii_upper c \<Longrightarrow> ascii_lower c = c"
  by (simp add: ascii_lower_def)

lemma ascii_lower_eq_low: "byte d < 65 \<Longrightarrow> ascii_lower c = d \<longleftrightarrow> c = d"
  using byte_ascii_lower [of c] byte_eq_iff [of "ascii_lower c" d] byte_eq_iff [of c d]
  by (auto simp: is_ascii_upper_def ascii_lower_def)

lemma to_ascii_lowercase_idem [simp]:
  "to_ascii_lowercase (to_ascii_lowercase s) = to_ascii_lowercase s"
  by (simp add: to_ascii_lowercase_def)

lemma length_to_ascii_lowercase [simp]: "length (to_ascii_lowercase s) = length s"
  by (simp add: to_ascii_lowercase_def)

lemma to_ascii_lowercase_mem_low:
  "byte d < 65 \<Longrightarrow> d \<in> set (to_ascii_lowercase s) \<longleftrightarrow> d \<in> set s"
  using ascii_lower_eq_low [of d] by (force simp: to_ascii_lowercase_def image_iff)

lemma to_ascii_lowercase_fix:
  "\<forall>c \<in> set s. \<not> is_ascii_upper c \<Longrightarrow> to_ascii_lowercase s = s"
  by (simp add: to_ascii_lowercase_def map_idI)

section \<open>Splitting and trimming\<close>

fun split_on :: "'a \<Rightarrow> 'a list \<Rightarrow> 'a list list" where
  "split_on c [] = [[]]"
| "split_on c (x # xs) =
     (if x = c then [] # split_on c xs
      else (case split_on c xs of [] \<Rightarrow> [[x]] | y # ys \<Rightarrow> (x # y) # ys))"

lemma split_on_nonempty [simp]: "split_on c s \<noteq> []"
  by (induction s) (auto split: list.splits)

lemma split_on_free [simp]: "c \<notin> set s \<Longrightarrow> split_on c s = [s]"
  by (induction s) auto

lemma split_on_append [simp]: "c \<notin> set s \<Longrightarrow> split_on c (s @ c # t) = s # split_on c t"
  by (induction s) auto

lemma split_on_parts_free: "p \<in> set (split_on c s) \<Longrightarrow> c \<notin> set p"
  by (induction s arbitrary: p) (fastforce split: if_splits list.splits)+

lemma set_split_on: "set s \<subseteq> insert c (\<Union>p \<in> set (split_on c s). set p)"
proof (induction s)
  case (Cons x xs)
  then show ?case
    by (cases "split_on c xs") auto
qed simp

text \<open>\<open>trim_end_matches\<close> drops every trailing occurrence, \<open>strip_suffix\<close> at most one.\<close>

definition trim_end_matches :: "'a \<Rightarrow> 'a list \<Rightarrow> 'a list" where
  "trim_end_matches c s = rev (dropWhile (\<lambda>x. x = c) (rev s))"

definition strip_suffix_char :: "'a \<Rightarrow> 'a list \<Rightarrow> 'a list" where
  "strip_suffix_char c s = (if s \<noteq> [] \<and> last s = c then butlast s else s)"

definition ends_with :: "'a list \<Rightarrow> 'a list \<Rightarrow> bool" where
  "ends_with s suffix \<longleftrightarrow>
     length suffix \<le> length s \<and> drop (length s - length suffix) s = suffix"

lemma trim_end_matches_last: "trim_end_matches c s \<noteq> [] \<Longrightarrow> last (trim_end_matches c s) \<noteq> c"
  unfolding trim_end_matches_def
  by (metis (mono_tags, lifting) hd_dropWhile last_rev rev_is_Nil_conv)

lemma trim_end_matches_fix: "s = [] \<or> last s \<noteq> c \<Longrightarrow> trim_end_matches c s = s"
proof (cases s rule: rev_cases)
  case (snoc ys y)
  assume "s = [] \<or> last s \<noteq> c"
  with snoc show ?thesis by (simp add: trim_end_matches_def)
qed (simp add: trim_end_matches_def)

lemma set_trim_end_matches: "set (trim_end_matches c s) \<subseteq> set s"
  by (auto simp: trim_end_matches_def dest: set_dropWhileD)

section \<open>Decimal numbers\<close>

definition digit_char :: "nat \<Rightarrow> char" where
  "digit_char d = char_of (48 + d)"

fun show_dec :: "nat \<Rightarrow> string" where
  "show_dec n = (if n < 10 then [digit_char n] else show_dec (n div 10) @ [digit_char (n mod 10)])"

declare show_dec.simps [simp del]

definition digit_val :: "char \<Rightarrow> nat" where
  "digit_val c = byte c - 48"

definition dec_val :: "string \<Rightarrow> nat" where
  "dec_val s = foldl (\<lambda>n c. 10 * n + digit_val c) 0 s"

text \<open>
  \<open>str::parse::<u16>\<close>: an optional plus sign, at least one digit, nothing else, and a value
  that fits. Leading zeros are accepted.
\<close>

definition parse_u16 :: "string \<Rightarrow> u16 option" where
  "parse_u16 s =
     (let ds = (case s of [] \<Rightarrow> [] | c # cs \<Rightarrow> if c = CHR ''+'' then cs else s)
      in if ds \<noteq> [] \<and> list_all is_ascii_digit ds \<and> dec_val ds < 2 ^ 16
         then Some (word_of_nat (dec_val ds)) else None)"

lemma byte_digit_char: "d < 10 \<Longrightarrow> byte (digit_char d) = 48 + d"
  by (simp add: digit_char_def)

lemma digit_char_props [simp]:
  "d < 10 \<Longrightarrow> is_ascii_digit (digit_char d)"
  "d < 10 \<Longrightarrow> digit_val (digit_char d) = d"
  by (simp_all add: is_ascii_digit_def digit_val_def byte_digit_char)

lemma show_dec_digits: "\<forall>c \<in> set (show_dec n). is_ascii_digit c"
proof (induction n rule: show_dec.induct)
  case (1 n)
  then show ?case by (subst show_dec.simps) auto
qed

lemma show_dec_nonempty [simp]: "show_dec n \<noteq> []"
  by (subst show_dec.simps) simp

lemma dec_val_show_dec [simp]: "dec_val (show_dec n) = n"
proof (induction n rule: show_dec.induct)
  case (1 n)
  then show ?case by (subst show_dec.simps) (auto simp: dec_val_def)
qed

lemma show_dec_free: "\<not> is_ascii_digit c \<Longrightarrow> c \<notin> set (show_dec n)"
  using show_dec_digits by blast

lemma parse_u16_show_dec [simp]: "parse_u16 (show_dec (unat w)) = Some (w :: u16)"
proof -
  have "hd (show_dec (unat w)) \<noteq> CHR ''+''"
    using show_dec_free [of "CHR ''+''" "unat w"] hd_in_set [of "show_dec (unat w)"]
    by (auto simp: is_ascii_digit_def simp del: hd_in_set)
  moreover have "unat w < 2 ^ 16"
    using unsigned_less [of w, where ?'a = nat] by simp
  ultimately show ?thesis
    using show_dec_digits [of "unat w"] dec_val_show_dec [of "unat w"]
    by (cases "show_dec (unat w)") (auto simp: parse_u16_def list_all_iff Let_def)
qed

text \<open>\<open>str::parse::<u64>\<close>, the same grammar at the wider type.\<close>

definition parse_u64 :: "string \<Rightarrow> u64 option" where
  "parse_u64 s =
     (let ds = (case s of [] \<Rightarrow> [] | c # cs \<Rightarrow> if c = CHR ''+'' then cs else s)
      in if ds \<noteq> [] \<and> list_all is_ascii_digit ds \<and> dec_val ds < 2 ^ 64
         then Some (word_of_nat (dec_val ds)) else None)"

section \<open>White space\<close>

text \<open>
  \<open>trim().is_empty()\<close>: every character has the Unicode property White\_Space. On UTF-8 bytes
  \<open>skip_space\<close> takes one such character off the front; the characters have one to three bytes.
\<close>

definition skip_space :: "string \<Rightarrow> string option" where
  "skip_space s =
     (case map byte (take 3 s) of
        [] \<Rightarrow> None
      | a # bs \<Rightarrow>
          if a = 32 \<or> 9 \<le> a \<and> a \<le> 13 then Some (drop 1 s)
          else if a = 0xC2 \<and> (\<exists>b \<in> set (take 1 bs). b = 0x85 \<or> b = 0xA0) then Some (drop 2 s)
          else if (a, bs) = (0xE1, [0x9A, 0x80]) \<or> (a, bs) = (0xE3, [0x80, 0x80]) \<or>
             (a, bs) = (0xE2, [0x81, 0x9F]) \<or>
             a = 0xE2 \<and> length bs = 2 \<and> bs ! 0 = 0x80 \<and>
               (0x80 \<le> bs ! 1 \<and> bs ! 1 \<le> 0x8A \<or> bs ! 1 \<in> {0xA8, 0xA9, 0xAF})
          then Some (drop 3 s)
          else None)"

lemma skip_space_shorter: "skip_space s = Some t \<Longrightarrow> length t < length s"
  by (cases s) (auto simp: skip_space_def split: if_splits)

function trims_to_empty :: "string \<Rightarrow> bool" where
  "trims_to_empty s = (s = [] \<or> (case skip_space s of None \<Rightarrow> False | Some t \<Rightarrow> trims_to_empty t))"
  by auto
termination
  by (relation "measure length") (auto dest: skip_space_shorter)

declare trims_to_empty.simps [simp del]

lemma trims_to_empty_Nil [simp]: "trims_to_empty []"
  by (simp add: trims_to_empty.simps)

lemma graphic_not_blank: "is_ascii_graphic c \<Longrightarrow> \<not> trims_to_empty (c # s)"
  by (subst trims_to_empty.simps) (auto simp: skip_space_def is_ascii_graphic_def split: if_splits)

text \<open>
  \<open>trim\<close>: the white space at both ends is dropped. A suffix of white space starts at a character
  boundary, since no continuation byte starts a white-space character.
\<close>

function trim_start :: "string \<Rightarrow> string" where
  "trim_start s = (case skip_space s of None \<Rightarrow> s | Some t \<Rightarrow> trim_start t)"
  by auto
termination
  by (relation "measure length") (auto dest: skip_space_shorter)

declare trim_start.simps [simp del]

definition trim_end :: "string \<Rightarrow> string" where
  "trim_end s = (case find (\<lambda>n. trims_to_empty (drop n s)) [0..<length s] of None \<Rightarrow> s | Some n \<Rightarrow> take n s)"

definition trim :: "string \<Rightarrow> string" where
  "trim s = trim_end (trim_start s)"

lemma skip_space_Nil [simp]: "skip_space [] = None"
  by (simp add: skip_space_def)

lemma skip_space_graphic: "is_ascii_graphic c \<Longrightarrow> skip_space (c # s) = None"
  by (auto simp: skip_space_def is_ascii_graphic_def)

lemma trim_start_graphic: "list_all is_ascii_graphic s \<Longrightarrow> trim_start s = s"
  by (cases s) (simp_all add: trim_start.simps skip_space_graphic)

lemma graphic_not_trimmed: "list_all is_ascii_graphic s \<Longrightarrow> n < length s \<Longrightarrow> \<not> trims_to_empty (drop n s)"
  by (metis Cons_nth_drop_Suc graphic_not_blank list_all_length)

lemma trim_end_graphic: "list_all is_ascii_graphic s \<Longrightarrow> trim_end s = s"
  by (auto simp: trim_end_def find_Some_iff graphic_not_trimmed split: option.splits)

lemma trim_graphic: "list_all is_ascii_graphic s \<Longrightarrow> trim s = s"
  by (simp add: trim_def trim_start_graphic trim_end_graphic)

section \<open>Evaluation on concrete text\<close>

lemmas char_eval = char_of_def bit_0
lemmas dec_eval = parse_u16_def parse_u64_def dec_val_def digit_val_def show_dec.simps digit_char_def
  ascii_defs char_eval

end
