(* ===== verification/Multiaddr.thy ===== *)
theory Multiaddr
  imports Rust_Str
begin

text \<open>
  Addresses. A libp2p \<open>Multiaddr\<close> is the sequence of its protocol components: the sources
  read it with \<open>iter\<close>, extend it with \<open>with\<close> and shorten it with \<open>pop\<close>. The component
  variants the sources match on are constructors, every other variant is \<open>OtherProtocol\<close>.
  How libp2p renders and parses a Peer ID or a multiaddr is not code of this repository: it
  is the parameter \<open>addr_codec\<close> of the definitions that use it, and \<open>codec_ok\<close> states the
  documented text grammar the sources rely on.
\<close>

section \<open>Peer IDs and multiaddrs\<close>

datatype peer_id = PeerId (peer_bytes: string)

datatype protocol =
    Ip4 u32
  | Ip6 "128 word"
  | Dns string
  | Dns4 string
  | Dns6 string
  | Tcp u16
  | P2p peer_id
  | P2pCircuit
  | Ws string
  | Wss string
  | OtherProtocol string

type_synonym multiaddr = "protocol list"

text \<open>\<open>Multiaddr::pop\<close>: the last component, if any, and what is left.\<close>

definition ma_pop :: "multiaddr \<Rightarrow> protocol option \<times> multiaddr" where
  "ma_pop a = (if a = [] then (None, []) else (Some (last a), butlast a))"

lemma ma_pop_snoc [simp]: "ma_pop (a @ [p]) = (Some p, a)"
  by (simp add: ma_pop_def)

lemma ma_pop_Nil [simp]: "ma_pop [] = (None, [])"
  by (simp add: ma_pop_def)

lemma ma_pop_Some: "ma_pop a = (Some p, b) \<longleftrightarrow> a = b @ [p]"
  by (cases a rule: rev_cases) auto

lemma ma_pop_None: "ma_pop a = (None, b) \<longleftrightarrow> a = [] \<and> b = []"
  by (cases a rule: rev_cases) auto

section \<open>The text codec of libp2p\<close>

record addr_codec =
  peer_to_string :: "peer_id \<Rightarrow> string"
  peer_from_str :: "string \<Rightarrow> peer_id option"
  ma_to_string :: "multiaddr \<Rightarrow> string"
  ma_from_str :: "string \<Rightarrow> multiaddr option"
  ma_encoded_len :: "multiaddr \<Rightarrow> nat"

text \<open>The text of a relay provider base and the components it stands for.\<close>

definition base_text :: "addr_codec \<Rightarrow> string \<Rightarrow> u16 \<Rightarrow> bool \<Rightarrow> peer_id \<Rightarrow> string" where
  "base_text C host port wss peer =
     ''/dns4/'' @ host @ ''/tcp/'' @ show_dec (unat port) @
     (if wss then ''/wss'' else '''') @ ''/p2p/'' @ peer_to_string C peer"

definition base_addr :: "string \<Rightarrow> u16 \<Rightarrow> bool \<Rightarrow> peer_id \<Rightarrow> multiaddr" where
  "base_addr host port wss peer =
     [Dns4 host, Tcp port] @ (if wss then [Wss ''/''] else []) @ [P2p peer]"

definition codec_ok :: "addr_codec \<Rightarrow> bool" where
  "codec_ok C \<longleftrightarrow>
     (\<forall>p. peer_from_str C (peer_to_string C p) = Some p) \<and>
     (\<forall>p. CHR ''/'' \<notin> set (peer_to_string C p)) \<and>
     (\<forall>h port wss p. ma_to_string C (base_addr h port wss p) = base_text C h port wss p) \<and>
     (\<forall>h port wss p. h \<noteq> [] \<longrightarrow> CHR ''/'' \<notin> set h \<longrightarrow>
        ma_from_str C (base_text C h port wss p) = Some (base_addr h port wss p))"

lemma codec_peer_roundtrip: "codec_ok C \<Longrightarrow> peer_from_str C (peer_to_string C p) = Some p"
  and codec_peer_no_slash: "codec_ok C \<Longrightarrow> CHR ''/'' \<notin> set (peer_to_string C p)"
  and codec_base_to_string:
    "codec_ok C \<Longrightarrow> ma_to_string C (base_addr h port wss p) = base_text C h port wss p"
  and codec_base_from_str:
    "codec_ok C \<Longrightarrow> h \<noteq> [] \<Longrightarrow> CHR ''/'' \<notin> set h \<Longrightarrow>
      ma_from_str C (base_text C h port wss p) = Some (base_addr h port wss p)"
  by (simp_all add: codec_ok_def)

lemmas codec_rules = codec_peer_roundtrip codec_peer_no_slash codec_base_to_string
  codec_base_from_str

lemma codec_peer_inject: "codec_ok C \<Longrightarrow> peer_to_string C p = peer_to_string C q \<longleftrightarrow> p = q"
  by (metis codec_peer_roundtrip option.inject)

lemma split_base_text:
  assumes "CHR ''/'' \<notin> set h" "CHR ''/'' \<notin> set (peer_to_string C p)"
  shows "split_on (CHR ''/'') (base_text C h port wss p) =
    [[], ''dns4'', h, ''tcp'', show_dec (unat port)] @
    (if wss then [''wss''] else []) @ [''p2p'', peer_to_string C p]"
proof -
  have port: "CHR ''/'' \<notin> set (show_dec (unat port))"
    by (rule show_dec_free) (simp add: is_ascii_digit_def)
  have tail: "split_on (CHR ''/'') (show_dec (unat port) @ CHR ''/'' # t) =
      show_dec (unat port) # split_on (CHR ''/'') t" for t
    using port by (rule split_on_append)
  have peer: "split_on (CHR ''/'') (''p2p/'' @ peer_to_string C p) = [''p2p'', peer_to_string C p]"
    using assms(2) by simp
  show ?thesis
    using assms(1) peer
      split_on_append [of "CHR ''/''" h "''tcp/'' @ show_dec (unat port) @ t" for t]
    by (auto simp: base_text_def tail)
qed

section \<open>A concrete codec\<close>

text \<open>
  A codec that satisfies \<open>codec_ok\<close>, so that the hypothesis can be discharged on concrete
  inputs: Peer IDs are rendered as three decimal digits per byte, and the text grammar
  covers the components of relay routes.
\<close>

definition byte_digits :: "char \<Rightarrow> string" where
  "byte_digits c =
     [digit_char (byte c div 100), digit_char (byte c div 10 mod 10), digit_char (byte c mod 10)]"

fun undigits :: "string \<Rightarrow> string option" where
  "undigits [] = Some []"
| "undigits (a # b # c # s) =
     map_option (Cons (char_of (100 * digit_val a + 10 * digit_val b + digit_val c))) (undigits s)"
| "undigits _ = None"

definition ref_peer_to_string :: "peer_id \<Rightarrow> string" where
  "ref_peer_to_string p = concat (map byte_digits (peer_bytes p))"

fun ref_component :: "protocol \<Rightarrow> string" where
  "ref_component (Dns4 h) = ''/dns4/'' @ h"
| "ref_component (Tcp n) = ''/tcp/'' @ show_dec (unat n)"
| "ref_component (P2p p) = ''/p2p/'' @ ref_peer_to_string p"
| "ref_component P2pCircuit = ''/p2p-circuit''"
| "ref_component (Wss path) = (if path = ''/'' then ''/wss'' else ''/x-parity-wss'' @ path)"
| "ref_component _ = ''/other''"

fun ref_parse :: "string list \<Rightarrow> multiaddr option" where
  "ref_parse [] = Some []"
| "ref_parse (name # rest) =
     (if name = ''wss'' then map_option (Cons (Wss ''/'')) (ref_parse rest)
      else if name = ''p2p-circuit'' then map_option (Cons P2pCircuit) (ref_parse rest)
      else (case rest of [] \<Rightarrow> None | v # vs \<Rightarrow>
        if name = ''dns4'' then map_option (Cons (Dns4 v)) (ref_parse vs)
        else if name = ''tcp'' then
          (case parse_u16 v of None \<Rightarrow> None | Some n \<Rightarrow> map_option (Cons (Tcp n)) (ref_parse vs))
        else if name = ''p2p'' then
          (case undigits v of None \<Rightarrow> None
           | Some b \<Rightarrow> map_option (Cons (P2p (PeerId b))) (ref_parse vs))
        else None))"

definition ref_codec :: addr_codec where
  "ref_codec = \<lparr>
     peer_to_string = ref_peer_to_string,
     peer_from_str = (\<lambda>s. map_option PeerId (undigits s)),
     ma_to_string = (\<lambda>a. concat (map ref_component a)),
     ma_from_str = (\<lambda>s. case split_on (CHR ''/'') s of [] \<Rightarrow> None
       | first # parts \<Rightarrow> if first = [] then ref_parse parts else None),
     ma_encoded_len = (\<lambda>a. length (concat (map ref_component a)))\<rparr>"

lemma hundreds_less: "(n::nat) < 256 \<Longrightarrow> n div 100 < 10"
  by (rule less_mult_imp_div_less) simp

lemma three_digits: "100 * (n div 100) + 10 * (n div 10 mod 10) + n mod 10 = (n::nat)"
proof -
  have "n div 100 = n div 10 div 10" by (simp add: div_mult2_eq [symmetric])
  then show ?thesis
    using mult_div_mod_eq [of 10 n] mult_div_mod_eq [of 10 "n div 10"] by linarith
qed

lemma byte_hundreds: "byte c div 100 < 10"
  by (rule hundreds_less) (rule nat_of_char_less_256)

lemma undigits_byte_digits:
  "undigits (byte_digits c @ s) = map_option (Cons c) (undigits s)"
  using byte_hundreds [of c] by (simp add: byte_digits_def three_digits)

lemma undigits_ref_peer: "undigits (ref_peer_to_string p) = Some (peer_bytes p)"
proof -
  have "undigits (concat (map byte_digits bs)) = Some bs" for bs
    by (induction bs) (simp_all add: undigits_byte_digits)
  then show ?thesis by (simp add: ref_peer_to_string_def)
qed

lemma ref_peer_no_slash: "CHR ''/'' \<notin> set (ref_peer_to_string p)"
proof
  assume "CHR ''/'' \<in> set (ref_peer_to_string p)"
  then obtain c where "CHR ''/'' \<in> set (byte_digits c)"
    by (auto simp: ref_peer_to_string_def)
  moreover note byte_hundreds [of c]
  ultimately have "is_ascii_digit (CHR ''/'')"
    by (auto simp: byte_digits_def dest: digit_char_props(1))
  then show False by (simp add: is_ascii_digit_def)
qed

lemma ref_codec_ok: "codec_ok ref_codec"
  unfolding codec_ok_def
proof (intro conjI allI impI)
  fix p show "peer_from_str ref_codec (peer_to_string ref_codec p) = Some p"
    by (simp add: ref_codec_def undigits_ref_peer)
next
  fix p show "CHR ''/'' \<notin> set (peer_to_string ref_codec p)"
    by (simp add: ref_codec_def ref_peer_no_slash)
next
  fix h port wss p
  show "ma_to_string ref_codec (base_addr h port wss p) = base_text ref_codec h port wss p"
    by (simp add: ref_codec_def base_addr_def base_text_def)
next
  fix h :: string and port wss p
  assume "CHR ''/'' \<notin> set h"
  then have "split_on (CHR ''/'') (base_text ref_codec h port wss p) =
      [[], ''dns4'', h, ''tcp'', show_dec (unat port)] @
      (if wss then [''wss''] else []) @ [''p2p'', ref_peer_to_string p]"
    using split_base_text [of h ref_codec p port wss]
    by (simp add: ref_codec_def ref_peer_no_slash)
  then show "ma_from_str ref_codec (base_text ref_codec h port wss p) = Some (base_addr h port wss p)"
    by (auto simp: ref_codec_def base_addr_def undigits_ref_peer)
qed

lemmas ref_codec_eval = ref_codec_def ref_peer_to_string_def byte_digits_def base_text_def dec_eval

end
