(* ===== verification/Relay_Provider.thy ===== *)
theory Relay_Provider
  imports Multiaddr "HOL-Library.Multiset"
begin

text \<open>
  The provider half of \<open>core/auki-p2p/src/relay.rs\<close>: finite relay limits, canonical
  provider bases (\<open>canonicalize_provider_base\<close>, \<open>canonicalize_fqdn\<close>) and the validated
  \<open>RelayProvider\<close> snapshot with the routes derived from it. An \<open>expect\<close> of the source is
  the error \<open>Panic\<close>; the lemmas show that a constructed provider never reaches it.
\<close>

section \<open>Errors\<close>

type_synonym listener_id = nat
type_synonym connection_id = nat

datatype relay_base_transport = TransportTcp | TransportWss

datatype relay_reservation_error =
    EmptyBases
  | InvalidBase string string
  | BasePeerMismatch peer_id string
  | DuplicateBase multiaddr
  | MissingTransportBase relay_base_transport
  | InvalidLimits string
  | ReservationAlreadyExists peer_id
  | ListenerAlreadyAssigned listener_id
  | GenerationExhausted
  | ForeignHandle
  | StaleHandle
  | UnknownHandle
  | ListenerMismatch listener_id listener_id
  | ConnectionMismatch connection_id connection_id
  | NoDirectConnection
  | ConnectionStillOpen connection_id
  | Panic string

type_synonym 'a relay_result = "(relay_reservation_error, 'a) result"

section \<open>Limits\<close>

record duration =
  as_secs :: u64
  subsec_nanos :: u32

definition duration_from_secs :: "u64 \<Rightarrow> duration" where
  "duration_from_secs s = \<lparr>as_secs = s, subsec_nanos = 0\<rparr>"

record expected_relay_limits =
  limit_duration_seconds :: u32
  limit_data_bytes :: u64

definition expected_relay_limits_new :: "duration \<Rightarrow> u64 \<Rightarrow> expected_relay_limits relay_result" where
  "expected_relay_limits_new d data_bytes =
     (if as_secs d = 0 \<and> subsec_nanos d = 0 then Inl (InvalidLimits ''duration must be positive'')
      else if subsec_nanos d \<noteq> 0 then
        Inl (InvalidLimits ''duration must be a whole number of seconds'')
      else if 2 ^ 32 \<le> unat (as_secs d) then
        Inl (InvalidLimits ''duration exceeds the Circuit Relay v2 uint32 wire limit'')
      else if (ucast (as_secs d) :: u32) = 0 then
        Inl (InvalidLimits ''duration must be positive'')
      else if 2 ^ 63 - 1 < unat data_bytes then
        Inl (InvalidLimits ''data limit exceeds the provider signed 64-bit range'')
      else if data_bytes = 0 then Inl (InvalidLimits ''data limit must be positive'')
      else Inr \<lparr>limit_duration_seconds = ucast (as_secs d), limit_data_bytes = data_bytes\<rparr>)"

definition limits_duration :: "expected_relay_limits \<Rightarrow> duration" where
  "limits_duration l = duration_from_secs (ucast (limit_duration_seconds l))"

record observed_relay_limits =
  observed_duration :: "duration option"
  observed_data_bytes :: "u64 option"

datatype relay_confirmation_rejection =
    MissingLimits
  | IncompleteLimits observed_relay_limits
  | LimitMismatch expected_relay_limits observed_relay_limits
  | DuplicateInitialAcceptance
  | RenewalBeforeInitialAcceptance

definition validate_observed ::
  "expected_relay_limits \<Rightarrow> observed_relay_limits option \<Rightarrow> (relay_confirmation_rejection, unit) result"
where
  "validate_observed l observed =
     (case observed of None \<Rightarrow> Inl MissingLimits
      | Some obs \<Rightarrow>
          (case (observed_duration obs, observed_data_bytes obs) of
             (Some d, Some b) \<Rightarrow>
               if d \<noteq> limits_duration l \<or> b \<noteq> limit_data_bytes l
               then Inl (LimitMismatch l obs) else Inr ()
           | _ \<Rightarrow> Inl (IncompleteLimits obs)))"

section \<open>Canonical provider bases\<close>

text \<open>
  \<open>str::parse::<IpAddr>\<close> succeeds on dotted-quad IPv4 text and on IPv6 text. Every IPv6
  text contains a colon, which no DNS label may contain, so for \<open>canonicalize_fqdn\<close> a colon
  anywhere has the effect of a successful IPv6 parse: the host is refused.
\<close>

definition is_ipv4_octet :: "string \<Rightarrow> bool" where
  "is_ipv4_octet s \<longleftrightarrow>
     s \<noteq> [] \<and> length s \<le> 3 \<and> list_all is_ascii_digit s \<and> dec_val s \<le> 255 \<and>
     (length s = 1 \<or> hd s \<noteq> CHR ''0'')"

definition parses_as_ip :: "string \<Rightarrow> bool" where
  "parses_as_ip s \<longleftrightarrow>
     (length (split_on (CHR ''.'') s) = 4 \<and> list_all is_ipv4_octet (split_on (CHR ''.'') s)) \<or>
     CHR '':'' \<in> set s"

definition forbidden_suffixes :: "string list" where
  "forbidden_suffixes = [''.localhost'', ''.local'', ''.internal'', ''.invalid'', ''.test'',
     ''.example'', ''.home.arpa'']"

definition bad_label :: "string \<Rightarrow> bool" where
  "bad_label l \<longleftrightarrow>
     l = [] \<or> 63 < length l \<or> hd l = CHR ''-'' \<or> last l = CHR ''-'' \<or>
     \<not> list_all (\<lambda>c. is_ascii_alphanumeric c \<or> c = CHR ''-'') l"

definition canonicalize_fqdn :: "string \<Rightarrow> string option" where
  "canonicalize_fqdn raw =
     (let host = to_ascii_lowercase (trim_end_matches (CHR ''.'') raw)
      in if host = [] \<or> 253 < length host \<or> CHR ''.'' \<notin> set host then None
         else if parses_as_ip host then None
         else if host = ''localhost'' \<or> list_ex (ends_with host) forbidden_suffixes then None
         else if list_ex bad_label (split_on (CHR ''.'') host) then None
         else Some host)"

text \<open>The pattern match on the components of the split text.\<close>

definition provider_base_parts ::
  "string list \<Rightarrow> (string \<times> string \<times> relay_base_transport \<times> string) option"
where
  "provider_base_parts parts =
     (case parts of
        [e, d, host, t, port, p, peer] \<Rightarrow>
          if e = [] \<and> d = ''dns4'' \<and> t = ''tcp'' \<and> p = ''p2p''
          then Some (host, port, TransportTcp, peer) else None
      | [e, d, host, t, port, w, p, peer] \<Rightarrow>
          if e = [] \<and> d = ''dns4'' \<and> t = ''tcp'' \<and> w = ''wss'' \<and> p = ''p2p''
          then Some (host, port, TransportWss, peer) else None
      | _ \<Rightarrow> None)"

definition canonicalize_provider_base ::
  "addr_codec \<Rightarrow> string \<Rightarrow> peer_id \<Rightarrow> multiaddr relay_result"
where
  "canonicalize_provider_base C raw expected_peer_id =
     (case provider_base_parts (split_on (CHR ''/'') raw) of
        None \<Rightarrow> Inl (InvalidBase raw ''expected exact dns4/tcp[/wss]/p2p grammar'')
      | Some (raw_host, raw_port, transport, raw_peer_id) \<Rightarrow>
          and_then (ok_or (InvalidBase raw ''host is not an allowed public FQDN'')
                      (canonicalize_fqdn raw_host)) (\<lambda>host.
          and_then (ok_or (InvalidBase raw ''TCP port must be in 1..=65535'')
                      (case parse_u16 raw_port of Some n \<Rightarrow> if n \<noteq> 0 then Some n else None
                       | None \<Rightarrow> None)) (\<lambda>port.
          and_then (ok_or (InvalidBase raw ''terminal p2p component is not a Peer ID'')
                      (peer_from_str C raw_peer_id)) (\<lambda>actual_peer_id.
          if actual_peer_id \<noteq> expected_peer_id \<or> raw_peer_id \<noteq> peer_to_string C expected_peer_id
          then Inl (BasePeerMismatch expected_peer_id raw_peer_id)
          else ok_or (InvalidBase raw ''invalid canonical multiaddr'')
                 (ma_from_str C
                    (base_text C host port (transport = TransportWss) expected_peer_id))))))"

definition provider_base_transport :: "multiaddr \<Rightarrow> relay_base_transport option" where
  "provider_base_transport base =
     (case base of
        [Dns4 _, Tcp _, P2p _] \<Rightarrow> Some TransportTcp
      | [Dns4 _, Tcp _, Wss path, P2p _] \<Rightarrow> if path = ''/'' then Some TransportWss else None
      | _ \<Rightarrow> None)"

lemma provider_base_transport_base_addr [simp]:
  "provider_base_transport (base_addr h port wss p) =
    Some (if wss then TransportWss else TransportTcp)"
  by (simp add: provider_base_transport_def base_addr_def)

section \<open>The provider snapshot\<close>

record relay_provider =
  rp_relay_peer_id :: peer_id
  rp_bases :: "multiaddr list"
  rp_selected_transport :: relay_base_transport
  rp_expected_limits :: expected_relay_limits

record relay_circuit_routes =
  route_tcp :: multiaddr
  route_wss :: multiaddr

text \<open>The loop of the constructor: \<open>canonical\<close> and \<open>unique\<close> are its two accumulators.\<close>

fun collect_bases ::
  "addr_codec \<Rightarrow> peer_id \<Rightarrow> string list \<Rightarrow> multiaddr list \<Rightarrow> string list \<Rightarrow> multiaddr list relay_result"
where
  "collect_bases C peer [] canonical unique = Inr canonical"
| "collect_bases C peer (raw # raws) canonical unique =
     and_then (canonicalize_provider_base C raw peer) (\<lambda>address.
       if ma_to_string C address \<in> set unique then Inl (DuplicateBase address)
       else collect_bases C peer raws (canonical @ [address]) (ma_to_string C address # unique))"

definition relay_provider_new_for_transport ::
  "addr_codec \<Rightarrow> peer_id \<Rightarrow> string list \<Rightarrow> relay_base_transport \<Rightarrow> expected_relay_limits \<Rightarrow>
   relay_provider relay_result"
where
  "relay_provider_new_for_transport C peer raw_bases transport limits =
     and_then (collect_bases C peer raw_bases [] []) (\<lambda>canonical.
       if canonical = [] then Inl EmptyBases
       else let sorted_bases = sort_key (ma_to_string C) canonical
            in if \<not> list_ex (\<lambda>b. provider_base_transport b = Some transport) sorted_bases
               then Inl (MissingTransportBase transport)
               else Inr \<lparr>rp_relay_peer_id = peer, rp_bases = sorted_bases,
                         rp_selected_transport = transport, rp_expected_limits = limits\<rparr>)"

definition relay_provider_new ::
  "addr_codec \<Rightarrow> peer_id \<Rightarrow> string list \<Rightarrow> expected_relay_limits \<Rightarrow> relay_provider relay_result"
where
  "relay_provider_new C peer raw_bases limits =
     relay_provider_new_for_transport C peer raw_bases TransportTcp limits"

definition base_for_transport :: "relay_provider \<Rightarrow> relay_base_transport \<Rightarrow> multiaddr option" where
  "base_for_transport p t = List.find (\<lambda>b. provider_base_transport b = Some t) (rp_bases p)"

definition relay_provider_new_dual_transport ::
  "addr_codec \<Rightarrow> peer_id \<Rightarrow> string list \<Rightarrow> relay_base_transport \<Rightarrow> expected_relay_limits \<Rightarrow>
   relay_provider relay_result"
where
  "relay_provider_new_dual_transport C peer raw_bases transport limits =
     and_then (relay_provider_new_for_transport C peer raw_bases transport limits) (\<lambda>p.
       if base_for_transport p TransportTcp = None then Inl (MissingTransportBase TransportTcp)
       else if base_for_transport p TransportWss = None then Inl (MissingTransportBase TransportWss)
       else Inr p)"

definition selected_base :: "relay_provider \<Rightarrow> multiaddr relay_result" where
  "selected_base p =
     ok_or (Panic ''RelayProvider construction requires a compatible base'')
       (base_for_transport p (rp_selected_transport p))"

definition circuit_route_for_transport ::
  "relay_provider \<Rightarrow> relay_base_transport \<Rightarrow> peer_id \<Rightarrow> multiaddr relay_result"
where
  "circuit_route_for_transport p t target =
     and_then (ok_or (MissingTransportBase t) (base_for_transport p t))
       (\<lambda>base. Inr (base @ [P2pCircuit] @ [P2p target]))"

definition circuit_routes :: "relay_provider \<Rightarrow> peer_id \<Rightarrow> relay_circuit_routes relay_result" where
  "circuit_routes p target =
     and_then (circuit_route_for_transport p TransportTcp target) (\<lambda>tcp.
     and_then (circuit_route_for_transport p TransportWss target) (\<lambda>wss.
       Inr \<lparr>route_tcp = tcp, route_wss = wss\<rparr>))"

definition reservation_listen_address :: "relay_provider \<Rightarrow> multiaddr relay_result" where
  "reservation_listen_address p = and_then (selected_base p) (\<lambda>b. Inr (b @ [P2pCircuit]))"

definition publishable_route :: "relay_provider \<Rightarrow> peer_id \<Rightarrow> multiaddr relay_result" where
  "publishable_route p local_peer =
     map_err (\<lambda>_. Panic ''RelayProvider construction requires a compatible base'')
       (circuit_route_for_transport p (rp_selected_transport p) local_peer)"

section \<open>Canonical bases: soundness, idempotence\<close>

text \<open>The hosts that \<open>canonicalize_fqdn\<close> leaves as they are.\<close>

definition canonical_host :: "string \<Rightarrow> bool" where
  "canonical_host h \<longleftrightarrow> canonicalize_fqdn h = Some h"

lemma bad_label_free: "\<not> bad_label l \<Longrightarrow> CHR ''/'' \<notin> set l"
  by (auto simp: bad_label_def list_all_iff ascii_defs)

lemma canonicalize_fqdn_Some:
  assumes "canonicalize_fqdn raw = Some h"
  shows "h \<noteq> []" "length h \<le> 253" "CHR ''.'' \<in> set h" "to_ascii_lowercase h = h"
    "last h \<noteq> CHR ''.''" "CHR ''/'' \<notin> set h" "\<not> parses_as_ip h" "h \<noteq> ''localhost''"
    "\<not> list_ex (ends_with h) forbidden_suffixes" "\<not> list_ex bad_label (split_on (CHR ''.'') h)"
proof -
  let ?t = "trim_end_matches (CHR ''.'') raw"
  have h: "h = to_ascii_lowercase ?t"
    using assms by (auto simp: canonicalize_fqdn_def Let_def split: if_splits)
  show ne: "h \<noteq> []" and "length h \<le> 253" and "CHR ''.'' \<in> set h" and "\<not> parses_as_ip h"
    and "h \<noteq> ''localhost''" and "\<not> list_ex (ends_with h) forbidden_suffixes"
    and labels: "\<not> list_ex bad_label (split_on (CHR ''.'') h)"
    using assms unfolding h canonicalize_fqdn_def Let_def by (simp_all split: if_splits)
  show "to_ascii_lowercase h = h"
    by (simp add: h)
  have "?t \<noteq> []" using ne by (auto simp: h to_ascii_lowercase_def)
  then show "last h \<noteq> CHR ''.''"
    using trim_end_matches_last [of "CHR ''.''" raw]
    by (simp add: h to_ascii_lowercase_def last_map ascii_lower_eq_low)
  show "CHR ''/'' \<notin> set h"
    using set_split_on [of h "CHR ''.''"] labels bad_label_free by (auto simp: list_ex_iff)
qed

lemma canonicalize_fqdn_idem:
  assumes "canonicalize_fqdn raw = Some h"
  shows "canonical_host h"
proof -
  note h = canonicalize_fqdn_Some [OF assms]
  have "trim_end_matches (CHR ''.'') h = h"
    using h(5) by (simp add: trim_end_matches_fix)
  with h show ?thesis
    by (simp add: canonical_host_def canonicalize_fqdn_def Let_def)
qed

lemma canonical_host_props:
  "canonical_host h \<Longrightarrow> h \<noteq> []" "canonical_host h \<Longrightarrow> CHR ''/'' \<notin> set h"
  by (auto simp: canonical_host_def dest: canonicalize_fqdn_Some)

text \<open>The accepted texts, and what they canonicalize to.\<close>

lemma provider_base_parts_Some:
  "provider_base_parts parts = Some (h, port, t, peer) \<Longrightarrow>
    parts = [[], ''dns4'', h, ''tcp'', port] @ (if t = TransportWss then [''wss''] else []) @
      [''p2p'', peer]"
  by (auto simp: provider_base_parts_def split: list.splits if_splits)

lemma provider_base_parts_wire [simp]:
  "provider_base_parts ([[], ''dns4'', h, ''tcp'', port] @ (if wss then [''wss''] else []) @
      [''p2p'', peer]) = Some (h, port, if wss then TransportWss else TransportTcp, peer)"
  by (simp add: provider_base_parts_def)

lemma canonicalize_provider_base_sound:
  assumes ok: "codec_ok C" and can: "canonicalize_provider_base C raw peer = Inr a"
  shows "\<exists>h port wss. canonical_host h \<and> port \<noteq> 0 \<and> a = base_addr h port wss peer"
proof -
  from can obtain rh rp t rpeer h port where
    h: "canonicalize_fqdn rh = Some h" and port: "port \<noteq> 0"
    and a: "ma_from_str C (base_text C h port (t = TransportWss) peer) = Some a"
    by (auto simp: canonicalize_provider_base_def and_then_eq_Inr
        split: option.splits prod.splits if_splits)
  have "canonical_host h" using h by (rule canonicalize_fqdn_idem)
  moreover from this have "a = base_addr h port (t = TransportWss) peer"
    using a codec_base_from_str [OF ok canonical_host_props] by simp
  ultimately show ?thesis using port by blast
qed

lemma canonicalize_base_text:
  assumes ok: "codec_ok C" and h: "canonical_host h" and port: "port \<noteq> 0"
  shows "canonicalize_provider_base C (base_text C h port wss peer) peer =
    Inr (base_addr h port wss peer)"
proof -
  have "split_on (CHR ''/'') (base_text C h port wss peer) =
      [[], ''dns4'', h, ''tcp'', show_dec (unat port)] @
      (if wss then [''wss''] else []) @ [''p2p'', peer_to_string C peer]"
    using canonical_host_props(2) [OF h] codec_peer_no_slash [OF ok] by (rule split_base_text)
  then have "provider_base_parts (split_on (CHR ''/'') (base_text C h port wss peer)) =
      Some (h, show_dec (unat port), if wss then TransportWss else TransportTcp, peer_to_string C peer)"
    by (simp only: provider_base_parts_wire)
  moreover have "canonicalize_fqdn h = Some h"
    using h by (simp add: canonical_host_def)
  ultimately show ?thesis
    using port canonical_host_props [OF h] ok
    by (simp add: canonicalize_provider_base_def codec_rules)
qed

lemma canonicalize_provider_base_idem:
  assumes "codec_ok C" and "canonicalize_provider_base C raw peer = Inr a"
  shows "canonicalize_provider_base C (ma_to_string C a) peer = Inr a"
  using canonicalize_provider_base_sound [OF assms] canonicalize_base_text [OF assms(1)]
  by (auto simp: codec_base_to_string [OF assms(1)])

section \<open>Providers: well-formedness, order independence, no panic\<close>

definition canonical_base :: "peer_id \<Rightarrow> multiaddr \<Rightarrow> bool" where
  "canonical_base peer a \<longleftrightarrow>
     (\<exists>h port wss. canonical_host h \<and> port \<noteq> 0 \<and> a = base_addr h port wss peer)"

definition provider_ok :: "addr_codec \<Rightarrow> relay_provider \<Rightarrow> bool" where
  "provider_ok C p \<longleftrightarrow>
     (\<forall>b \<in> set (rp_bases p). canonical_base (rp_relay_peer_id p) b) \<and>
     sorted (map (ma_to_string C) (rp_bases p)) \<and>
     distinct (map (ma_to_string C) (rp_bases p)) \<and>
     base_for_transport p (rp_selected_transport p) \<noteq> None"

lemma collect_bases_Inr:
  "collect_bases C peer raws canonical unique = Inr out \<longleftrightarrow>
    (\<exists>as. out = canonical @ as \<and>
      list_all2 (\<lambda>raw a. canonicalize_provider_base C raw peer = Inr a) raws as \<and>
      distinct (map (ma_to_string C) as) \<and> set (map (ma_to_string C) as) \<inter> set unique = {})"
proof (induction raws arbitrary: canonical unique)
  case (Cons raw raws)
  show ?case
  proof (cases "canonicalize_provider_base C raw peer")
    case (Inr a)
    then have "(\<exists>as. out = canonical @ as \<and>
        list_all2 (\<lambda>raw a. canonicalize_provider_base C raw peer = Inr a) (raw # raws) as \<and>
        distinct (map (ma_to_string C) as) \<and> set (map (ma_to_string C) as) \<inter> set unique = {}) \<longleftrightarrow>
      ma_to_string C a \<notin> set unique \<and> (\<exists>as. out = (canonical @ [a]) @ as \<and>
        list_all2 (\<lambda>raw a. canonicalize_provider_base C raw peer = Inr a) raws as \<and>
        distinct (map (ma_to_string C) as) \<and>
        set (map (ma_to_string C) as) \<inter> set (ma_to_string C a # unique) = {})"
      unfolding list_all2_Cons1 by fastforce
    with Inr show ?thesis
      by (simp add: Cons.IH del: append_assoc)
  qed (simp add: list_all2_Cons1)
qed auto

lemma find_eq_None: "List.find P xs = None \<longleftrightarrow> \<not> list_ex P xs"
  by (auto simp: find_None_iff list_ex_iff)

lemma relay_provider_new_Inr:
  "relay_provider_new_for_transport C peer raws t limits = Inr p \<longleftrightarrow>
    (\<exists>as. list_all2 (\<lambda>raw a. canonicalize_provider_base C raw peer = Inr a) raws as \<and>
      distinct (map (ma_to_string C) as) \<and> as \<noteq> [] \<and>
      list_ex (\<lambda>b. provider_base_transport b = Some t) as \<and>
      p = \<lparr>rp_relay_peer_id = peer, rp_bases = sort_key (ma_to_string C) as,
           rp_selected_transport = t, rp_expected_limits = limits\<rparr>)"
  unfolding relay_provider_new_for_transport_def
  by (auto simp: and_then_eq_Inr collect_bases_Inr Let_def list_ex_iff split: if_splits)

lemma distinct_map_sort_key: "distinct (map f (sort_key g xs)) \<longleftrightarrow> distinct (map f xs)"
  by (metis mset_map mset_sort mset_eq_imp_distinct_iff)

lemma relay_provider_new_ok:
  assumes ok: "codec_ok C" and new: "relay_provider_new_for_transport C peer raws t limits = Inr p"
  shows "provider_ok C p" "rp_relay_peer_id p = peer" "rp_selected_transport p = t"
    "rp_expected_limits p = limits"
proof -
  obtain as where as: "list_all2 (\<lambda>raw a. canonicalize_provider_base C raw peer = Inr a) raws as"
      "distinct (map (ma_to_string C) as)" "list_ex (\<lambda>b. provider_base_transport b = Some t) as"
    and p: "p = \<lparr>rp_relay_peer_id = peer, rp_bases = sort_key (ma_to_string C) as,
           rp_selected_transport = t, rp_expected_limits = limits\<rparr>"
    using new unfolding relay_provider_new_Inr by blast
  have "canonical_base peer b" if "b \<in> set as" for b
    using as(1) that canonicalize_provider_base_sound [OF ok]
    by (auto simp: canonical_base_def list_all2_conv_all_nth in_set_conv_nth)
  then show "provider_ok C p"
    using as(2,3)
    by (auto simp: provider_ok_def p base_for_transport_def find_eq_None distinct_map_sort_key
        list_ex_iff)
qed (use new in \<open>auto simp: relay_provider_new_Inr\<close>)

lemma selected_base_ok:
  assumes "provider_ok C p"
  obtains b where "selected_base p = Inr b" "b \<in> set (rp_bases p)"
    "provider_base_transport b = Some (rp_selected_transport p)"
    "base_for_transport p (rp_selected_transport p) = Some b"
  using assms
  by (auto simp: provider_ok_def selected_base_def base_for_transport_def find_Some_iff
      intro: nth_mem)

lemma publishable_route_ok:
  assumes "provider_ok C p"
  shows "\<exists>b \<in> set (rp_bases p). publishable_route p q = Inr (b @ [P2pCircuit, P2p q])"
  using selected_base_ok [OF assms]
  by (metis (no_types, lifting) publishable_route_def circuit_route_for_transport_def
      and_then_simps(2) append_Cons append_Nil map_err_simps(2) ok_or_simps(2))

section \<open>Concrete inputs\<close>

text \<open>Two bases of one relay: mixed case, a trailing root dot and a padded port; and a WSS base.\<close>

definition sample_relay :: peer_id where
  "sample_relay = PeerId ''R''"

definition sample_raw_tcp :: string where
  "sample_raw_tcp = ''/dns4/Relay.Auki.NET./tcp/0443/p2p/082''"

definition sample_raw_wss :: string where
  "sample_raw_wss = ''/dns4/r.io/tcp/443/wss/p2p/082''"

definition sample_tcp :: multiaddr where
  "sample_tcp = base_addr ''relay.auki.net'' 443 False sample_relay"

definition sample_wss :: multiaddr where
  "sample_wss = base_addr ''r.io'' 443 True sample_relay"

definition sample_limits :: expected_relay_limits where
  "sample_limits = \<lparr>limit_duration_seconds = 120, limit_data_bytes = 131072\<rparr>"

definition sample_provider :: relay_provider where
  "sample_provider = \<lparr>rp_relay_peer_id = sample_relay, rp_bases = [sample_wss, sample_tcp],
     rp_selected_transport = TransportTcp, rp_expected_limits = sample_limits\<rparr>"

lemmas fqdn_eval = canonicalize_fqdn_def to_ascii_lowercase_def ascii_lower_def ascii_defs
  trim_end_matches_def parses_as_ip_def forbidden_suffixes_def ends_with_def bad_label_def
  is_ipv4_octet_def char_eval

lemmas sample_base_defs = sample_raw_tcp_def sample_raw_wss_def sample_tcp_def sample_wss_def
  sample_relay_def base_addr_def

lemma sample_tcp_canonicalizes:
  "canonicalize_provider_base ref_codec sample_raw_tcp sample_relay = Inr sample_tcp"
  by (simp add: canonicalize_provider_base_def sample_base_defs provider_base_parts_def
      ref_codec_eval fqdn_eval)

lemma sample_wss_canonicalizes:
  "canonicalize_provider_base ref_codec sample_raw_wss sample_relay = Inr sample_wss"
  by (simp add: canonicalize_provider_base_def sample_base_defs provider_base_parts_def
      ref_codec_eval fqdn_eval)

lemma sample_base_texts:
  "ma_to_string ref_codec sample_tcp = ''/dns4/relay.auki.net/tcp/443/p2p/082''"
  "ma_to_string ref_codec sample_wss = ''/dns4/r.io/tcp/443/wss/p2p/082''"
  by (simp_all add: sample_base_defs ref_codec_eval)

lemma sample_provider_new:
  "relay_provider_new_dual_transport ref_codec sample_relay [sample_raw_tcp, sample_raw_wss]
     TransportTcp sample_limits = Inr sample_provider"
  "relay_provider_new_for_transport ref_codec sample_relay [sample_raw_tcp, sample_raw_wss]
     TransportTcp sample_limits = Inr sample_provider"
proof -
  have le: "ma_to_string ref_codec sample_wss \<le> ma_to_string ref_codec sample_tcp"
    "\<not> ma_to_string ref_codec sample_tcp \<le> ma_to_string ref_codec sample_wss"
    by (simp_all add: sample_base_texts less_char_def less_eq_char_def)
  have s: "sort_key (ma_to_string ref_codec) [sample_tcp, sample_wss] = [sample_wss, sample_tcp]"
    using le by simp
  show a: "relay_provider_new_for_transport ref_codec sample_relay [sample_raw_tcp, sample_raw_wss]
     TransportTcp sample_limits = Inr sample_provider"
   unfolding relay_provider_new_for_transport_def
    using s 
    by (simp add: sample_provider_def 
        sample_tcp_canonicalizes sample_wss_canonicalizes sample_base_texts)
       (simp add: sample_tcp_def sample_wss_def)
  show "relay_provider_new_dual_transport ref_codec sample_relay [sample_raw_tcp, sample_raw_wss]
     TransportTcp sample_limits = Inr sample_provider"
   unfolding relay_provider_new_dual_transport_def a
    by (simp add: base_for_transport_def sample_provider_def sample_tcp_def sample_wss_def)
qed

section \<open>Properties\<close>

text \<open>
  canonicalization of a relay provider base is a projection: whatever text is accepted,
  the canonical multiaddr rendered back to text is accepted again and canonicalizes to
  itself, and it has the exact shape \<open>/dns4/<host>/tcp/<port>[/wss]/p2p/<relay>\<close> with a
  canonical host and a non-zero port.
\<close>

theorem provider_base_canonical:
  assumes "codec_ok C" and "canonicalize_provider_base C raw peer = Inr a"
  shows "canonicalize_provider_base C (ma_to_string C a) peer = Inr a \<and>
    (\<exists>h port wss. canonicalize_fqdn h = Some h \<and> port \<noteq> 0 \<and> a = base_addr h port wss peer)"
  using canonicalize_provider_base_idem [OF assms] canonicalize_provider_base_sound [OF assms]
  by (auto simp: canonical_host_def)

theorem provider_base_canonical_witness:
  "canonicalize_provider_base ref_codec (ma_to_string ref_codec sample_tcp) sample_relay = Inr sample_tcp \<and>
    (\<exists>h port wss. canonicalize_fqdn h = Some h \<and> port \<noteq> 0 \<and> sample_tcp = base_addr h port wss sample_relay)"
  by (rule provider_base_canonical [OF ref_codec_ok sample_tcp_canonicalizes])

text \<open>
  the provider snapshot does not depend on the order in which the relay advertised its
  bases: every permutation of an accepted list of raw bases is accepted and constructs the
  same provider, with the same base order.
\<close>

theorem relay_provider_new_permute:
  assumes new: "relay_provider_new_for_transport C peer raws t limits = Inr p"
    and perm: "mset raws' = mset raws"
  shows "relay_provider_new_for_transport C peer raws' t limits = Inr p"
proof -
  let ?f = "\<lambda>raw. projr (canonicalize_provider_base C raw peer)"
  obtain as where as: "list_all2 (\<lambda>raw a. canonicalize_provider_base C raw peer = Inr a) raws as"
      "distinct (map (ma_to_string C) as)" "as \<noteq> []"
      "list_ex (\<lambda>b. provider_base_transport b = Some t) as"
    and p: "p = \<lparr>rp_relay_peer_id = peer, rp_bases = sort_key (ma_to_string C) as,
           rp_selected_transport = t, rp_expected_limits = limits\<rparr>"
    using new unfolding relay_provider_new_Inr by blast
  have "as = map ?f raws"
    using as(1) by (auto simp: list_all2_conv_all_nth intro!: nth_equalityI)
  then have mset: "mset (map ?f raws') = mset as"
    by (simp add: perm)
  have "set raws' = set raws"
    using perm by (rule mset_eq_setD)
  moreover have "canonicalize_provider_base C raw peer = Inr (?f raw)" if "raw \<in> set raws" for raw
    using as(1) that by (auto simp: list_all2_conv_all_nth in_set_conv_nth)
  ultimately have "list_all2 (\<lambda>raw a. canonicalize_provider_base C raw peer = Inr a) raws' (map ?f raws')"
    unfolding list_all2_map2 by (intro list.rel_refl_strong) blast
  moreover have "sort_key (ma_to_string C) (map ?f raws') = sort_key (ma_to_string C) as"
    using as(2) mset_eq_setD [OF mset] mset
    by (intro sort_key_inj_key_eq) (auto simp: distinct_map)
  moreover have "distinct (map (ma_to_string C) (map ?f raws'))"
    using as(2) mset by (metis mset_eq_imp_distinct_iff mset_map)
  moreover have "set (map ?f raws') = set as"
    using mset by (rule mset_eq_setD)
  then have "map ?f raws' \<noteq> []" "list_ex (\<lambda>b. provider_base_transport b = Some t) (map ?f raws')"
    using as(3,4) by (auto simp: list_ex_iff)
  ultimately show ?thesis
    unfolding relay_provider_new_Inr p
    by - (rule exI [of _ "map ?f raws'"], simp only: simp_thms)
qed

theorem relay_provider_new_permute_witness:
  "relay_provider_new_for_transport ref_codec sample_relay [sample_raw_wss, sample_raw_tcp]
     TransportTcp sample_limits = Inr sample_provider"
  by (rule relay_provider_new_permute [OF sample_provider_new(2)]) simp

text \<open>
  a dual-transport provider always yields both circuit routes to a target: the TCP route
  and the WSS route through the configured relay, each ending in
  \<open>/p2p-circuit/p2p/<target>\<close>; neither of the two can be missing.
\<close>

theorem dual_transport_routes:
  assumes ok: "codec_ok C"
    and new: "relay_provider_new_dual_transport C peer raws t limits = Inr p"
  shows "\<exists>h1 n1 h2 n2. circuit_routes p target =
    Inr \<lparr>route_tcp = base_addr h1 n1 False peer @ [P2pCircuit, P2p target],
         route_wss = base_addr h2 n2 True peer @ [P2pCircuit, P2p target]\<rparr>"
proof -
  have p: "relay_provider_new_for_transport C peer raws t limits = Inr p"
    and tcp: "base_for_transport p TransportTcp \<noteq> None"
    and wss: "base_for_transport p TransportWss \<noteq> None"
    using new by (auto simp: relay_provider_new_dual_transport_def and_then_eq_Inr split: if_splits)
  have can: "canonical_base peer b" if "b \<in> set (rp_bases p)" for b
    using relay_provider_new_ok [OF ok p] that by (simp add: provider_ok_def)
  have base: "\<exists>h n. b = base_addr h n (tr = TransportWss) peer" if "base_for_transport p tr = Some b" for tr b
  proof -
    have "b \<in> set (rp_bases p)" "provider_base_transport b = Some tr"
      using that by (auto simp: base_for_transport_def find_Some_iff)
    then show ?thesis
      using can [of b] by (fastforce simp: canonical_base_def)
  qed
  then show ?thesis
    using tcp wss by (fastforce simp: circuit_routes_def circuit_route_for_transport_def)
qed

theorem dual_transport_routes_witness:
  "\<exists>h1 n1 h2 n2. circuit_routes sample_provider (PeerId ''T'') =
    Inr \<lparr>route_tcp = base_addr h1 n1 False sample_relay @ [P2pCircuit, P2p (PeerId ''T'')],
         route_wss = base_addr h2 n2 True sample_relay @ [P2pCircuit, P2p (PeerId ''T'')]\<rparr>"
  by (rule dual_transport_routes [OF ref_codec_ok sample_provider_new(1)])

end
