(* ===== verification/Relay_Reservation.thy ===== *)
theory Relay_Reservation
  imports Relay_Provider
begin

text \<open>
  The reservation half of \<open>core/auki-p2p/src/relay.rs\<close>: the generation-fenced state machine
  \<open>RelayReservationNode\<close>. Every method is one definition that returns its result together
  with the node after the call; \<open>node_apply\<close> collects the mutating methods as one step
  function, and \<open>node_step\<close> is its step relation. The lemmas give the invariant of the node,
  the fencing of dead generations, and the conditions under which a route is published.
\<close>

section \<open>State\<close>

record relay_reservation_handle =
  h_node_instance_id :: uuid
  h_relay_peer_id :: peer_id
  h_generation :: u64
  h_listener_id :: listener_id

datatype relay_reservation_state = AwaitingConfirmation | Publishable | Canceling

record relay_reservation_snapshot =
  snap_handle :: relay_reservation_handle
  snap_state :: relay_reservation_state
  snap_selected_base :: multiaddr
  snap_expected_limits :: expected_relay_limits
  snap_direct_connection :: "connection_id option"
  snap_publishable_route :: "multiaddr option"

record relay_cancellation =
  c_handle :: relay_reservation_handle
  c_relay_peer_id :: peer_id
  c_listener_id :: listener_id
  c_direct_connection :: "connection_id option"

datatype relay_reservation_event =
    EvidenceRecorded relay_reservation_handle
  | PublishableEvent relay_reservation_handle multiaddr expected_relay_limits
  | Renewed relay_reservation_handle expected_relay_limits
  | ConfirmationRejected relay_reservation_handle relay_confirmation_rejection relay_cancellation
  | CancellationStarted relay_cancellation
  | CancellationPending relay_cancellation
  | CloseLateConnection relay_reservation_handle connection_id
  | Fenced relay_reservation_handle
  | Canceled relay_reservation_handle

record reservation_entry =
  e_handle :: relay_reservation_handle
  e_provider :: relay_provider
  e_state :: relay_reservation_state
  e_direct_connection :: "connection_id option"
  e_connection_terminal :: bool
  e_listener_observed :: bool
  e_listener_closed :: bool
  e_initial_acceptance_observed :: bool

record relay_reservation_node =
  node_instance_id :: uuid
  node_local_peer_id :: peer_id
  next_generation :: u64
  latest_generation :: "(peer_id, u64) hashmap"
  reservations :: "(peer_id, reservation_entry) hashmap"

section \<open>Entries\<close>

definition entry_new :: "relay_reservation_handle \<Rightarrow> relay_provider \<Rightarrow> reservation_entry" where
  "entry_new h p = \<lparr>e_handle = h, e_provider = p, e_state = AwaitingConfirmation,
     e_direct_connection = None, e_connection_terminal = False, e_listener_observed = False,
     e_listener_closed = False, e_initial_acceptance_observed = False\<rparr>"

definition entry_snapshot :: "reservation_entry \<Rightarrow> peer_id \<Rightarrow> relay_reservation_snapshot relay_result" where
  "entry_snapshot e local_peer =
     and_then (if e_state e = Publishable
               then and_then (publishable_route (e_provider e) local_peer) (\<lambda>r. Inr (Some r))
               else Inr None) (\<lambda>route.
     and_then (selected_base (e_provider e)) (\<lambda>base.
       Inr \<lparr>snap_handle = e_handle e, snap_state = e_state e, snap_selected_base = base,
            snap_expected_limits = rp_expected_limits (e_provider e),
            snap_direct_connection = e_direct_connection e, snap_publishable_route = route\<rparr>))"

definition ensure_listener :: "reservation_entry \<Rightarrow> listener_id \<Rightarrow> unit relay_result" where
  "ensure_listener e actual =
     (if h_listener_id (e_handle e) \<noteq> actual
      then Inl (ListenerMismatch (h_listener_id (e_handle e)) actual) else Inr ())"

definition maybe_publish ::
  "peer_id \<Rightarrow> reservation_entry \<Rightarrow> relay_reservation_event relay_result \<times> reservation_entry"
where
  "maybe_publish local_peer e =
     (if e_initial_acceptance_observed e \<and> e_listener_observed e \<and> e_state e = AwaitingConfirmation
      then (and_then (publishable_route (e_provider e) local_peer)
              (\<lambda>route. Inr (PublishableEvent (e_handle e) route (rp_expected_limits (e_provider e)))),
            e\<lparr>e_state := Publishable\<rparr>)
      else (Inr (EvidenceRecorded (e_handle e)), e))"

definition start_canceling :: "reservation_entry \<Rightarrow> reservation_entry" where
  "start_canceling e = e\<lparr>e_state := Canceling\<rparr>"

definition cancellation :: "reservation_entry \<Rightarrow> relay_cancellation" where
  "cancellation e = \<lparr>c_handle = e_handle e, c_relay_peer_id = rp_relay_peer_id (e_provider e),
     c_listener_id = h_listener_id (e_handle e), c_direct_connection = e_direct_connection e\<rparr>"

definition cancellation_complete :: "reservation_entry \<Rightarrow> bool" where
  "cancellation_complete e \<longleftrightarrow>
     e_state e = Canceling \<and> e_listener_closed e \<and> e_connection_terminal e"

section \<open>The node\<close>

definition relay_reservation_node_new :: "uuid \<Rightarrow> peer_id \<Rightarrow> relay_reservation_node" where
  "relay_reservation_node_new instance_id local_peer =
     \<lparr>node_instance_id = instance_id, node_local_peer_id = local_peer, next_generation = 1,
      latest_generation = [], reservations = []\<rparr>"

definition handle_for_relay ::
  "relay_reservation_node \<Rightarrow> peer_id \<Rightarrow> relay_reservation_handle option"
where
  "handle_for_relay n relay = map_option e_handle (map_of (reservations n) relay)"

definition source_circuit_allowed :: "relay_reservation_node \<Rightarrow> peer_id \<Rightarrow> bool" where
  "source_circuit_allowed n relay \<longleftrightarrow>
     \<not> hm_contains (latest_generation n) relay \<or>
     (case map_of (reservations n) relay of None \<Rightarrow> False | Some e \<Rightarrow> e_state e = Publishable)"

definition handle_for_listener ::
  "relay_reservation_node \<Rightarrow> listener_id \<Rightarrow> relay_reservation_handle option"
where
  "handle_for_listener n l =
     map_option e_handle
       (List.find (\<lambda>e. h_listener_id (e_handle e) = l) (map snd (reservations n)))"

definition node_begin ::
  "relay_provider \<Rightarrow> listener_id \<Rightarrow> relay_reservation_node \<Rightarrow>
   relay_reservation_handle relay_result \<times> relay_reservation_node"
where
  "node_begin provider l n =
     (let relay = rp_relay_peer_id provider in
      if hm_contains (reservations n) relay then (Inl (ReservationAlreadyExists relay), n)
      else if list_ex (\<lambda>e. h_listener_id (e_handle e) = l) (map snd (reservations n))
      then (Inl (ListenerAlreadyAssigned l), n)
      else (case checked_add (next_generation n) 1 of
              None \<Rightarrow> (Inl GenerationExhausted, n)
            | Some next \<Rightarrow>
                let generation = next_generation n;
                    handle = \<lparr>h_node_instance_id = node_instance_id n, h_relay_peer_id = relay,
                              h_generation = generation, h_listener_id = l\<rparr>
                in (Inr handle,
                    n\<lparr>next_generation := next,
                      latest_generation := hm_insert relay generation (latest_generation n),
                      reservations := hm_insert relay (entry_new handle provider) (reservations n)\<rparr>)))"

definition validate_handle ::
  "relay_reservation_node \<Rightarrow> relay_reservation_handle \<Rightarrow> unit relay_result"
where
  "validate_handle n h =
     (if h_node_instance_id h \<noteq> node_instance_id n then Inl ForeignHandle
      else case map_of (reservations n) (h_relay_peer_id h) of
        Some e \<Rightarrow> if h_generation (e_handle e) = h_generation h then Inr () else Inl StaleHandle
      | None \<Rightarrow>
          (case map_of (latest_generation n) (h_relay_peer_id h) of
             Some latest \<Rightarrow> if h_generation h \<le> latest then Inl StaleHandle else Inl UnknownHandle
           | None \<Rightarrow> Inl UnknownHandle))"

text \<open>\<open>entry\<close> and \<open>entry_mut\<close>: the entry of a valid handle. A call that mutates it stores
  it back with \<open>put_entry\<close>.\<close>

definition node_entry ::
  "relay_reservation_node \<Rightarrow> relay_reservation_handle \<Rightarrow> reservation_entry relay_result"
where
  "node_entry n h =
     and_then (validate_handle n h)
       (\<lambda>_. ok_or StaleHandle (map_of (reservations n) (h_relay_peer_id h)))"

definition put_entry ::
  "relay_reservation_handle \<Rightarrow> reservation_entry \<Rightarrow> relay_reservation_node \<Rightarrow> relay_reservation_node"
where
  "put_entry h e n = n\<lparr>reservations := hm_insert (h_relay_peer_id h) e (reservations n)\<rparr>"

definition finish_cancellation ::
  "relay_reservation_handle \<Rightarrow> relay_reservation_node \<Rightarrow> relay_reservation_node"
where
  "finish_cancellation h n = n\<lparr>reservations := hm_remove (h_relay_peer_id h) (reservations n)\<rparr>"

definition node_snapshot ::
  "relay_reservation_node \<Rightarrow> relay_reservation_handle \<Rightarrow> relay_reservation_snapshot relay_result"
where
  "node_snapshot n h = and_then (node_entry n h) (\<lambda>e. entry_snapshot e (node_local_peer_id n))"

definition observe_direct_connection ::
  "relay_reservation_handle \<Rightarrow> connection_id \<Rightarrow> relay_reservation_node \<Rightarrow>
   relay_reservation_event relay_result \<times> relay_reservation_node"
where
  "observe_direct_connection h conn n =
     (case node_entry n h of Inl err \<Rightarrow> (Inl err, n)
      | Inr e \<Rightarrow>
          if e_state e = Canceling then
            (Inr (CloseLateConnection h conn),
             if e_connection_terminal e \<or> e_direct_connection e = None
             then put_entry h (e\<lparr>e_direct_connection := Some conn, e_connection_terminal := False\<rparr>) n
             else n)
          else (case e_direct_connection e of
                  None \<Rightarrow> (Inr (EvidenceRecorded h), put_entry h (e\<lparr>e_direct_connection := Some conn\<rparr>) n)
                | Some expected \<Rightarrow>
                    if expected = conn then (Inr (EvidenceRecorded h), n)
                    else (Inl (ConnectionMismatch expected conn), n)))"

definition observe_listener_address ::
  "relay_reservation_handle \<Rightarrow> listener_id \<Rightarrow> multiaddr \<Rightarrow> relay_reservation_node \<Rightarrow>
   relay_reservation_event relay_result \<times> relay_reservation_node"
where
  "observe_listener_address h l response_address n =
     (case node_entry n h of Inl err \<Rightarrow> (Inl err, n)
      | Inr e \<Rightarrow>
          (case ensure_listener e l of Inl err \<Rightarrow> (Inl err, n)
           | Inr _ \<Rightarrow>
               if e_state e = Canceling then (Inr (Fenced h), n)
               else (case maybe_publish (node_local_peer_id n) (e\<lparr>e_listener_observed := True\<rparr>) of
                       (r, e') \<Rightarrow> (r, put_entry h e' n))))"

definition acceptance_order :: "bool \<Rightarrow> reservation_entry \<Rightarrow> (relay_confirmation_rejection, unit) result" where
  "acceptance_order renewal e =
     (if renewal \<and> \<not> e_initial_acceptance_observed e then Inl RenewalBeforeInitialAcceptance
      else if \<not> renewal \<and> e_initial_acceptance_observed e then Inl DuplicateInitialAcceptance
      else Inr ())"

definition observe_acceptance ::
  "relay_reservation_handle \<Rightarrow> bool \<Rightarrow> observed_relay_limits option \<Rightarrow> relay_reservation_node \<Rightarrow>
   relay_reservation_event relay_result \<times> relay_reservation_node"
where
  "observe_acceptance h renewal observed n =
     (case node_entry n h of Inl err \<Rightarrow> (Inl err, n)
      | Inr e \<Rightarrow>
          if e_state e = Canceling then (Inr (Fenced h), n)
          else (case and_then (validate_observed (rp_expected_limits (e_provider e)) observed)
                       (\<lambda>_. acceptance_order renewal e) of
                  Inl reason \<Rightarrow>
                    (let e' = start_canceling e
                     in (Inr (ConfirmationRejected h reason (cancellation e')), put_entry h e' n))
                | Inr _ \<Rightarrow>
                    if renewal then (Inr (Renewed h (rp_expected_limits (e_provider e))), n)
                    else (case maybe_publish (node_local_peer_id n)
                                 (e\<lparr>e_initial_acceptance_observed := True\<rparr>) of
                            (r, e') \<Rightarrow> (r, put_entry h e' n))))"

definition node_cancel ::
  "relay_reservation_handle \<Rightarrow> relay_reservation_node \<Rightarrow>
   relay_reservation_event relay_result \<times> relay_reservation_node"
where
  "node_cancel h n =
     (case node_entry n h of Inl err \<Rightarrow> (Inl err, n)
      | Inr e \<Rightarrow>
          if e_state e = Canceling then (Inr (CancellationPending (cancellation e)), n)
          else (let e' = start_canceling e
                in (Inr (CancellationStarted (cancellation e')), put_entry h e' n)))"

text \<open>The common tail of the three terminal observations: \<open>e\<close> is the entry before the call,
  \<open>e'\<close> the canceling entry with the new terminal evidence.\<close>

definition conclude_teardown ::
  "relay_reservation_handle \<Rightarrow> reservation_entry \<Rightarrow> reservation_entry \<Rightarrow> relay_reservation_node \<Rightarrow>
   relay_reservation_event relay_result \<times> relay_reservation_node"
where
  "conclude_teardown h e e' n =
     (if cancellation_complete e' then (Inr (Canceled h), finish_cancellation h (put_entry h e' n))
      else if e_state e = Canceling then (Inr (Fenced h), put_entry h e' n)
      else (Inr (CancellationStarted (cancellation e')), put_entry h e' n))"

definition observe_listener_closed ::
  "relay_reservation_handle \<Rightarrow> listener_id \<Rightarrow> relay_reservation_node \<Rightarrow>
   relay_reservation_event relay_result \<times> relay_reservation_node"
where
  "observe_listener_closed h l n =
     (case node_entry n h of Inl err \<Rightarrow> (Inl err, n)
      | Inr e \<Rightarrow>
          (case ensure_listener e l of Inl err \<Rightarrow> (Inl err, n)
           | Inr _ \<Rightarrow> conclude_teardown h e ((start_canceling e)\<lparr>e_listener_closed := True\<rparr>) n))"

definition observe_direct_connection_closed ::
  "relay_reservation_handle \<Rightarrow> connection_id \<Rightarrow> relay_reservation_node \<Rightarrow>
   relay_reservation_event relay_result \<times> relay_reservation_node"
where
  "observe_direct_connection_closed h conn n =
     (case node_entry n h of Inl err \<Rightarrow> (Inl err, n)
      | Inr e \<Rightarrow>
          (case e_direct_connection e of None \<Rightarrow> (Inl NoDirectConnection, n)
           | Some expected \<Rightarrow>
               if expected \<noteq> conn then (Inl (ConnectionMismatch expected conn), n)
               else conclude_teardown h e ((start_canceling e)\<lparr>e_connection_terminal := True\<rparr>) n))"

definition observe_no_direct_connection ::
  "relay_reservation_handle \<Rightarrow> relay_reservation_node \<Rightarrow>
   relay_reservation_event relay_result \<times> relay_reservation_node"
where
  "observe_no_direct_connection h n =
     (case node_entry n h of Inl err \<Rightarrow> (Inl err, n)
      | Inr e \<Rightarrow>
          (case e_direct_connection e of
             Some conn \<Rightarrow>
               if \<not> e_connection_terminal e then (Inl (ConnectionStillOpen conn), n)
               else conclude_teardown h e ((start_canceling e)\<lparr>e_connection_terminal := True\<rparr>) n
           | None \<Rightarrow>
               conclude_teardown h e ((start_canceling e)\<lparr>e_connection_terminal := True\<rparr>) n))"

section \<open>Steps\<close>

datatype node_op =
    Begin relay_provider listener_id
  | ObserveDirectConnection relay_reservation_handle connection_id
  | ObserveListenerAddress relay_reservation_handle listener_id multiaddr
  | ObserveAcceptance relay_reservation_handle bool "observed_relay_limits option"
  | Cancel relay_reservation_handle
  | ObserveListenerClosed relay_reservation_handle listener_id
  | ObserveDirectConnectionClosed relay_reservation_handle connection_id
  | ObserveNoDirectConnection relay_reservation_handle

datatype node_output = Began relay_reservation_handle | Observed relay_reservation_event

definition with_output ::
  "('a \<Rightarrow> node_output) \<Rightarrow> 'a relay_result \<times> relay_reservation_node \<Rightarrow>
   node_output relay_result \<times> relay_reservation_node"
where
  "with_output f rn = (and_then (fst rn) (\<lambda>x. Inr (f x)), snd rn)"

lemma with_output_eq:
  "with_output f rn = (r, n') \<longleftrightarrow> (\<exists>r'. rn = (r', n') \<and> r = and_then r' (\<lambda>x. Inr (f x)))"
  by (cases rn) (auto simp: with_output_def)

lemma with_output_Inr:
  "with_output f rn = (Inr y, n') \<longleftrightarrow> (\<exists>x. rn = (Inr x, n') \<and> y = f x)"
  by (cases rn) (auto simp: with_output_def and_then_eq_Inr)

fun node_apply ::
  "node_op \<Rightarrow> relay_reservation_node \<Rightarrow> node_output relay_result \<times> relay_reservation_node"
where
  "node_apply (Begin p l) n = with_output Began (node_begin p l n)"
| "node_apply (ObserveDirectConnection h c) n =
     with_output Observed (observe_direct_connection h c n)"
| "node_apply (ObserveListenerAddress h l a) n =
     with_output Observed (observe_listener_address h l a n)"
| "node_apply (ObserveAcceptance h b obs) n =
     with_output Observed (observe_acceptance h b obs n)"
| "node_apply (Cancel h) n = with_output Observed (node_cancel h n)"
| "node_apply (ObserveListenerClosed h l) n =
     with_output Observed (observe_listener_closed h l n)"
| "node_apply (ObserveDirectConnectionClosed h c) n =
     with_output Observed (observe_direct_connection_closed h c n)"
| "node_apply (ObserveNoDirectConnection h) n =
     with_output Observed (observe_no_direct_connection h n)"

text \<open>Providers reach the node only through the validating constructors.\<close>

fun op_ok :: "addr_codec \<Rightarrow> node_op \<Rightarrow> bool" where
  "op_ok C (Begin p l) = provider_ok C p"
| "op_ok C _ = True"

inductive node_step :: "addr_codec \<Rightarrow> relay_reservation_node \<Rightarrow> relay_reservation_node \<Rightarrow> bool"
  for C where
  call: "op_ok C op \<Longrightarrow> node_apply op n = (r, n') \<Longrightarrow> node_step C n n'"

section \<open>How a call changes the node\<close>

fun op_handle :: "node_op \<Rightarrow> relay_reservation_handle option" where
  "op_handle (Begin p l) = None"
| "op_handle (ObserveDirectConnection h c) = Some h"
| "op_handle (ObserveListenerAddress h l a) = Some h"
| "op_handle (ObserveAcceptance h b obs) = Some h"
| "op_handle (Cancel h) = Some h"
| "op_handle (ObserveListenerClosed h l) = Some h"
| "op_handle (ObserveDirectConnectionClosed h c) = Some h"
| "op_handle (ObserveNoDirectConnection h) = Some h"

text \<open>The evidence an entry has seen agrees with its state.\<close>

definition evidence_ok :: "reservation_entry \<Rightarrow> bool" where
  "evidence_ok e \<longleftrightarrow>
     (e_state e = Publishable \<longrightarrow> e_initial_acceptance_observed e \<and> e_listener_observed e) \<and>
     (e_state e = AwaitingConfirmation \<longrightarrow>
        \<not> (e_initial_acceptance_observed e \<and> e_listener_observed e)) \<and>
     (e_listener_closed e \<or> e_connection_terminal e \<longrightarrow> e_state e = Canceling) \<and>
     \<not> (e_listener_closed e \<and> e_connection_terminal e)"

text \<open>An entry only moves forward: its handle and provider are fixed, it never returns to
  \<open>AwaitingConfirmation\<close>, and \<open>Canceling\<close> is final.\<close>

definition evolves :: "reservation_entry \<Rightarrow> reservation_entry \<Rightarrow> bool" where
  "evolves e e' \<longleftrightarrow>
     e_handle e' = e_handle e \<and> e_provider e' = e_provider e \<and>
     (evidence_ok e \<longrightarrow> evidence_ok e') \<and>
     (e_state e' = AwaitingConfirmation \<longrightarrow> e_state e = AwaitingConfirmation) \<and>
     (e_state e = Canceling \<longrightarrow> e_state e' = Canceling)"

lemmas entry_defs = start_canceling_def maybe_publish_def cancellation_complete_def evolves_def
  evidence_ok_def

lemma finish_put [simp]: "finish_cancellation h (put_entry h e n) = finish_cancellation h n"
  by (simp add: finish_cancellation_def put_entry_def hm_remove_def hm_insert_def)

lemma node_entry_Inr:
  "node_entry n h = Inr e \<longleftrightarrow>
    h_node_instance_id h = node_instance_id n \<and>
    map_of (reservations n) (h_relay_peer_id h) = Some e \<and>
    h_generation (e_handle e) = h_generation h"
  by (auto simp: node_entry_def validate_handle_def and_then_eq_Inr split: option.splits if_splits)

text \<open>
  Every call through a handle either leaves the node as it is, or replaces the handle's own
  entry by one it evolves to, or removes that entry with the result \<open>Canceled\<close>.
\<close>

definition is_canceled :: "relay_reservation_event relay_result \<Rightarrow> bool" where
  "is_canceled r \<longleftrightarrow> (\<exists>h. r = Inr (Canceled h))"

lemma is_canceled_simps [simp]:
  "is_canceled (Inr (Canceled h))" "\<not> is_canceled (Inl err)" "\<not> is_canceled (Inr (Fenced h))"
  "\<not> is_canceled (Inr (EvidenceRecorded h))" "\<not> is_canceled (Inr (PublishableEvent h a l))"
  "\<not> is_canceled (Inr (Renewed h l))" "\<not> is_canceled (Inr (ConfirmationRejected h x c))"
  "\<not> is_canceled (Inr (CancellationStarted c))" "\<not> is_canceled (Inr (CancellationPending c))"
  "\<not> is_canceled (Inr (CloseLateConnection h i))"
  by (simp_all add: is_canceled_def)

definition entry_change ::
  "relay_reservation_node \<Rightarrow> relay_reservation_handle \<Rightarrow> relay_reservation_event relay_result \<Rightarrow>
   relay_reservation_node \<Rightarrow> bool"
where
  "entry_change n h r n' \<longleftrightarrow>
     n' = n \<and> \<not> is_canceled r \<or>
     (\<exists>e. node_entry n h = Inr e \<and>
       (n' = finish_cancellation h n \<and> r = Inr (Canceled h) \<or>
        (\<exists>e'. n' = put_entry h e' n \<and> evolves e e') \<and> \<not> is_canceled r))"

lemma entry_change_refl: "\<not> is_canceled r \<Longrightarrow> entry_change n h r n"
  by (simp add: entry_change_def)

lemma entry_change_put:
  "node_entry n h = Inr e \<Longrightarrow> evolves e e' \<Longrightarrow> \<not> is_canceled r \<Longrightarrow>
    entry_change n h r (put_entry h e' n)"
  by (auto simp: entry_change_def)

lemma conclude_teardown_change:
  assumes "conclude_teardown h e e' n = (r, n')" and "node_entry n h = Inr e"
    and "e_state e' = Canceling" "e_handle e' = e_handle e" "e_provider e' = e_provider e"
  shows "entry_change n h r n'"
proof (cases "cancellation_complete e'")
  case True
  with assms(1,2) show ?thesis
    by (auto simp: conclude_teardown_def entry_change_def)
next
  case False
  with assms(3-5) have "evolves e e'"
    by (simp add: evolves_def evidence_ok_def cancellation_complete_def)
  with assms(1,2) False show ?thesis
    by (auto simp: conclude_teardown_def intro!: entry_change_put split: if_splits)
qed

lemma maybe_publish_evolves:
  "maybe_publish q (e\<lparr>e_listener_observed := True\<rparr>) = (r, e') \<Longrightarrow> e_state e \<noteq> Canceling \<Longrightarrow>
    evolves e e' \<and> \<not> is_canceled r"
  "maybe_publish q (e\<lparr>e_initial_acceptance_observed := True\<rparr>) = (r, e') \<Longrightarrow> e_state e \<noteq> Canceling \<Longrightarrow>
    evolves e e' \<and> \<not> is_canceled r"
  by (auto simp: entry_defs and_then_def split: if_splits sum.splits)

lemma start_canceling_evolves: "e_state e \<noteq> Canceling \<Longrightarrow> evolves e (start_canceling e)"
  by (auto simp: entry_defs)

lemma observe_direct_connection_change:
  "observe_direct_connection h c n = (r, n') \<Longrightarrow> entry_change n h r n'"
  by (auto simp: observe_direct_connection_def evolves_def evidence_ok_def
      intro!: entry_change_put entry_change_refl split: sum.splits if_splits option.splits)

lemma observe_listener_address_change:
  "observe_listener_address h l a n = (r, n') \<Longrightarrow> entry_change n h r n'"
  by (auto simp: observe_listener_address_def
      intro!: entry_change_put entry_change_refl dest: maybe_publish_evolves
      split: sum.splits if_splits prod.splits)

lemma observe_acceptance_change:
  "observe_acceptance h b obs n = (r, n') \<Longrightarrow> entry_change n h r n'"
  by (auto simp: observe_acceptance_def Let_def start_canceling_evolves
      intro!: entry_change_put entry_change_refl dest: maybe_publish_evolves
      split: sum.splits if_splits prod.splits)

lemma node_cancel_change: "node_cancel h n = (r, n') \<Longrightarrow> entry_change n h r n'"
  by (auto simp: node_cancel_def Let_def start_canceling_evolves
      intro!: entry_change_put entry_change_refl split: sum.splits if_splits)

lemma observe_listener_closed_change:
  "observe_listener_closed h l n = (r, n') \<Longrightarrow> entry_change n h r n'"
  by (auto simp: observe_listener_closed_def start_canceling_def
      intro!: entry_change_refl elim!: conclude_teardown_change split: sum.splits)

lemma observe_direct_connection_closed_change:
  "observe_direct_connection_closed h c n = (r, n') \<Longrightarrow> entry_change n h r n'"
  by (auto simp: observe_direct_connection_closed_def start_canceling_def
      intro!: entry_change_refl elim!: conclude_teardown_change
      split: sum.splits option.splits if_splits)

lemma observe_no_direct_connection_change:
  "observe_no_direct_connection h n = (r, n') \<Longrightarrow> entry_change n h r n'"
  by (auto simp: observe_no_direct_connection_def start_canceling_def
      intro!: entry_change_refl elim!: conclude_teardown_change
      split: sum.splits option.splits if_splits)

lemmas method_changes = observe_direct_connection_change observe_listener_address_change
  observe_acceptance_change node_cancel_change observe_listener_closed_change
  observe_direct_connection_closed_change observe_no_direct_connection_change

lemma node_apply_handle:
  assumes "node_apply op n = (r, n')" and "op_handle op = Some h"
  obtains r' where "r = and_then r' (\<lambda>ev. Inr (Observed ev))" "entry_change n h r' n'"
  using assms by (cases op) (auto simp: with_output_eq dest!: method_changes)

section \<open>The invariant of the node\<close>

definition entry_inv :: "addr_codec \<Rightarrow> relay_reservation_node \<Rightarrow> peer_id \<Rightarrow> reservation_entry \<Rightarrow> bool" where
  "entry_inv C n p e \<longleftrightarrow>
     h_relay_peer_id (e_handle e) = p \<and> rp_relay_peer_id (e_provider e) = p \<and>
     h_node_instance_id (e_handle e) = node_instance_id n \<and>
     map_of (latest_generation n) p = Some (h_generation (e_handle e)) \<and>
     provider_ok C (e_provider e) \<and> evidence_ok e"

definition node_inv :: "addr_codec \<Rightarrow> relay_reservation_node \<Rightarrow> bool" where
  "node_inv C n \<longleftrightarrow>
     hm_ok (reservations n) \<and> hm_ok (latest_generation n) \<and>
     (\<forall>p g. map_of (latest_generation n) p = Some g \<longrightarrow> g < next_generation n) \<and>
     (\<forall>p e. map_of (reservations n) p = Some e \<longrightarrow> entry_inv C n p e) \<and>
     (\<forall>p e p' e'. map_of (reservations n) p = Some e \<longrightarrow> map_of (reservations n) p' = Some e' \<longrightarrow>
        h_listener_id (e_handle e) = h_listener_id (e_handle e') \<longrightarrow> p = p')"

lemma put_entry_simps [simp]:
  "map_of (reservations (put_entry h e n)) = (map_of (reservations n))(h_relay_peer_id h \<mapsto> e)"
  "latest_generation (put_entry h e n) = latest_generation n"
  "next_generation (put_entry h e n) = next_generation n"
  "node_instance_id (put_entry h e n) = node_instance_id n"
  "node_local_peer_id (put_entry h e n) = node_local_peer_id n"
  "hm_ok (reservations n) \<Longrightarrow> hm_ok (reservations (put_entry h e n))"
  by (simp_all add: put_entry_def hm.get_ins hm.ok_ins)

lemma finish_cancellation_simps [simp]:
  "map_of (reservations (finish_cancellation h n)) = (map_of (reservations n))(h_relay_peer_id h := None)"
  "latest_generation (finish_cancellation h n) = latest_generation n"
  "next_generation (finish_cancellation h n) = next_generation n"
  "node_instance_id (finish_cancellation h n) = node_instance_id n"
  "node_local_peer_id (finish_cancellation h n) = node_local_peer_id n"
  "hm_ok (reservations n) \<Longrightarrow> hm_ok (reservations (finish_cancellation h n))"
  by (simp_all add: finish_cancellation_def hm_remove_def delete_conv' hm.ok_del)

text \<open>A call through a handle, seen through the two maps of the node.\<close>

lemma entry_change_maps:
  assumes "entry_change n h r n'"
  shows "latest_generation n' = latest_generation n" "next_generation n' = next_generation n"
    "node_instance_id n' = node_instance_id n" "node_local_peer_id n' = node_local_peer_id n"
    "hm_ok (reservations n) \<Longrightarrow> hm_ok (reservations n')"
    "\<And>p. p \<noteq> h_relay_peer_id h \<Longrightarrow> map_of (reservations n') p = map_of (reservations n) p"
    "\<And>p e'. map_of (reservations n') p = Some e' \<Longrightarrow>
      \<exists>e. map_of (reservations n) p = Some e \<and> (e' = e \<or> evolves e e')"
  using assms by (auto simp: entry_change_def node_entry_Inr split: if_splits)

lemma evolves_same:
  "evolves e e' \<Longrightarrow> e_handle e' = e_handle e"
  "evolves e e' \<Longrightarrow> e_provider e' = e_provider e"
  "evolves e e' \<Longrightarrow> evidence_ok e \<Longrightarrow> evidence_ok e'"
  by (simp_all add: evolves_def)

lemma entry_change_inv:
  assumes "entry_change n h r n'" and inv: "node_inv C n"
  shows "node_inv C n'"
proof -
  note ch = entry_change_maps [OF assms(1)]
  have entries: "\<exists>e. map_of (reservations n) p = Some e \<and> e_handle e' = e_handle e \<and>
      e_provider e' = e_provider e \<and> (evidence_ok e \<longrightarrow> evidence_ok e')"
    if "map_of (reservations n') p = Some e'" for p e'
    using ch(7) [OF that] by (auto simp: evolves_def)
  have "entry_inv C n' p e'" if "map_of (reservations n') p = Some e'" for p e'
    using entries [OF that] inv by (auto simp: node_inv_def entry_inv_def ch)
  moreover have "p = p'" if "map_of (reservations n') p = Some e" "map_of (reservations n') p' = Some e'"
      "h_listener_id (e_handle e) = h_listener_id (e_handle e')" for p e p' e'
    using entries [OF that(1)] entries [OF that(2)] that(3) inv by (metis node_inv_def)
  ultimately show ?thesis
    using inv by (auto simp: node_inv_def ch)
qed

lemma node_begin_Inr:
  "node_begin p l n = (Inr h, n') \<longleftrightarrow>
    map_of (reservations n) (rp_relay_peer_id p) = None \<and>
    (\<forall>e \<in> set (map snd (reservations n)). h_listener_id (e_handle e) \<noteq> l) \<and>
    h = \<lparr>h_node_instance_id = node_instance_id n, h_relay_peer_id = rp_relay_peer_id p,
         h_generation = next_generation n, h_listener_id = l\<rparr> \<and>
    (\<exists>g. checked_add (next_generation n) 1 = Some g \<and>
      n' = n\<lparr>next_generation := g,
             latest_generation := hm_insert (rp_relay_peer_id p) (next_generation n) (latest_generation n),
             reservations := hm_insert (rp_relay_peer_id p) (entry_new h p) (reservations n)\<rparr>)"
  by (auto simp: node_begin_def Let_def hm_contains_def list_ex_iff split: option.splits)

lemma node_begin_Inl: "node_begin p l n = (Inl err, n') \<Longrightarrow> n' = n"
  by (auto simp: node_begin_def Let_def split: option.splits if_splits)

lemma node_begin_maps:
  assumes "node_begin p l n = (Inr h, n')"
  shows "map_of (reservations n') = (map_of (reservations n))(rp_relay_peer_id p \<mapsto> entry_new h p)"
    "map_of (latest_generation n') = (map_of (latest_generation n))(rp_relay_peer_id p \<mapsto> next_generation n)"
    "next_generation n < next_generation n'" "node_instance_id n' = node_instance_id n"
    "hm_ok (reservations n) \<Longrightarrow> hm_ok (reservations n')"
    "hm_ok (latest_generation n) \<Longrightarrow> hm_ok (latest_generation n')"
    "map_of (reservations n) (rp_relay_peer_id p) = None"
    "h_generation h = next_generation n" "h_relay_peer_id h = rp_relay_peer_id p"
    "h_node_instance_id h = node_instance_id n" "h_listener_id h = l"
    "\<And>q e. map_of (reservations n) q = Some e \<Longrightarrow> h_listener_id (e_handle e) \<noteq> l"
proof -
  obtain g where n': "n' = n\<lparr>next_generation := g,
      latest_generation := hm_insert (rp_relay_peer_id p) (next_generation n) (latest_generation n),
      reservations := hm_insert (rp_relay_peer_id p) (entry_new h p) (reservations n)\<rparr>"
    and g: "checked_add (next_generation n) 1 = Some g"
    using assms unfolding node_begin_Inr by blast
  show "map_of (reservations n') = (map_of (reservations n))(rp_relay_peer_id p \<mapsto> entry_new h p)"
    and "map_of (latest_generation n') =
      (map_of (latest_generation n))(rp_relay_peer_id p \<mapsto> next_generation n)"
    and "node_instance_id n' = node_instance_id n"
    and "hm_ok (reservations n) \<Longrightarrow> hm_ok (reservations n')"
    and "hm_ok (latest_generation n) \<Longrightarrow> hm_ok (latest_generation n')"
    and "next_generation n < next_generation n'"
    using checked_add_less [OF g] by (simp_all add: n' hm.get_ins hm.ok_ins)
  note parts = assms [unfolded node_begin_Inr]
  have h: "h = \<lparr>h_node_instance_id = node_instance_id n, h_relay_peer_id = rp_relay_peer_id p,
      h_generation = next_generation n, h_listener_id = l\<rparr>"
    using parts [THEN conjunct2, THEN conjunct2, THEN conjunct1] .
  show "h_generation h = next_generation n" and "h_relay_peer_id h = rp_relay_peer_id p"
    and "h_node_instance_id h = node_instance_id n" and "h_listener_id h = l"
    by (simp_all add: h)
  show "map_of (reservations n) (rp_relay_peer_id p) = None"
    using parts [THEN conjunct1] .
  have free: "\<forall>e \<in> set (map snd (reservations n)). h_listener_id (e_handle e) \<noteq> l"
    using parts [THEN conjunct2, THEN conjunct1] .
  show "h_listener_id (e_handle e) \<noteq> l" if "map_of (reservations n) q = Some e" for q e
    using free map_of_SomeD [OF that] by force
qed

lemma node_begin_inv:
  assumes beg: "node_begin p l n = (Inr h, n')" and inv: "node_inv C n" and p: "provider_ok C p"
  shows "node_inv C n'"
proof -
  note m = node_begin_maps [OF beg]
  have new: "entry_inv C n' (rp_relay_peer_id p) (entry_new h p)"
    using p by (simp add: entry_inv_def entry_new_def evidence_ok_def m)
  have old: "entry_inv C n' q e" if "map_of (reservations n) q = Some e" for q e
    using inv that m(7) by (auto simp: node_inv_def entry_inv_def m)
  have "g < next_generation n" if "map_of (latest_generation n) q = Some g" for q g
    using inv that by (simp add: node_inv_def)
  then have "g < next_generation n'" if "map_of (latest_generation n') q = Some g" for q g
    using that m(3) by (auto simp: m(2) split: if_splits intro: less_trans)
  moreover have "q = q'" if "map_of (reservations n') q = Some e" "map_of (reservations n') q' = Some e'"
      "h_listener_id (e_handle e) = h_listener_id (e_handle e')" for q e q' e'
    using that inv m(11)
    by (auto simp: node_inv_def entry_new_def m(1) split: if_splits dest: m(12))
  moreover have "entry_inv C n' q e" if "map_of (reservations n') q = Some e" for q e
    using that new old by (auto simp: m(1) split: if_splits)
  ultimately show ?thesis
    using inv m(5,6) unfolding node_inv_def by blast
qed

lemma node_apply_cases:
  assumes "node_apply op n = (r, n')"
  obtains (failed) err where "n' = n" "r = Inl err"
  | (began) p l h where "op = Begin p l" "node_begin p l n = (Inr h, n')" "r = Inr (Began h)"
  | (changed) h r' where "op_handle op = Some h" "r = and_then r' (\<lambda>ev. Inr (Observed ev))"
      "entry_change n h r' n'"
proof (cases "op_handle op")
  case None
  then obtain p l where op: "op = Begin p l" by (cases op) auto
  with assms obtain r' where r': "node_begin p l n = (r', n')" "r = and_then r' (\<lambda>x. Inr (Began x))"
    by (auto simp: with_output_eq)
  show ?thesis
  proof (cases r')
    case (Inl err)
    with r' show ?thesis using node_begin_Inl by (intro failed) auto
  next
    case (Inr h)
    with r' op show ?thesis by (intro began) auto
  qed
next
  case (Some h)
  with assms show ?thesis by (metis node_apply_handle changed)
qed

lemma node_apply_inv:
  assumes "node_apply op n = (r, n')" and "op_ok C op" and "node_inv C n"
  shows "node_inv C n'"
  using assms(1)
proof (cases rule: node_apply_cases)
  case (began p l h)
  with assms show ?thesis by (auto intro: node_begin_inv)
next
  case (changed h r')
  with assms show ?thesis by (auto intro: entry_change_inv)
qed (use assms in simp)

lemma node_new_inv: "node_inv C (relay_reservation_node_new i q)"
  by (simp add: node_inv_def relay_reservation_node_new_def hm_ok_def)

interpretation node_sys: ranked_system "node_step C" "node_inv C" next_generation
proof
  show "node_inv C n'" if "node_inv C n" "node_step C n n'" for n n'
    using that by (auto elim!: node_step.cases intro: node_apply_inv)
  show "next_generation n \<le> next_generation n'" if "node_inv C n" "node_step C n n'" for n n'
    using that(2)
  proof (cases rule: node_step.cases)
    case (call op r)
    from call(2) show ?thesis
      by (cases rule: node_apply_cases)
        (auto dest: node_begin_maps(3) entry_change_maps(2) intro: less_imp_le)
  qed
qed

section \<open>Dead generations stay fenced\<close>

text \<open>
  A handle of this node is dead when its generation has been issued and is no longer the
  generation of the reservation held for its relay.
\<close>

definition dead_handle :: "relay_reservation_node \<Rightarrow> relay_reservation_handle \<Rightarrow> bool" where
  "dead_handle n h \<longleftrightarrow>
     h_node_instance_id h = node_instance_id n \<and>
     (\<exists>g. map_of (latest_generation n) (h_relay_peer_id h) = Some g \<and> h_generation h \<le> g) \<and>
     (\<forall>e. map_of (reservations n) (h_relay_peer_id h) = Some e \<longrightarrow>
        h_generation (e_handle e) \<noteq> h_generation h)"

lemma dead_handle_entry: "dead_handle n h \<Longrightarrow> node_entry n h = Inl StaleHandle"
  by (auto simp: dead_handle_def node_entry_def validate_handle_def split: option.splits)

lemma node_entry_Inl_apply:
  assumes "op_handle op = Some h" and "node_entry n h = Inl err"
  shows "node_apply op n = (Inl err, n)"
  using assms
  by (cases op)
    (auto simp: with_output_def observe_direct_connection_def observe_listener_address_def
      observe_acceptance_def node_cancel_def observe_listener_closed_def
      observe_direct_connection_closed_def observe_no_direct_connection_def)

lemma node_apply_dead:
  assumes "node_apply op n = (r, n')" and inv: "node_inv C n" and dead: "dead_handle n h"
  shows "dead_handle n' h"
  using assms(1)
proof (cases rule: node_apply_cases)
  case (began p l h')
  note m = node_begin_maps [OF began(2)]
  have "g < next_generation n" if "map_of (latest_generation n) q = Some g" for q g
    using inv that by (simp add: node_inv_def)
  then have "h_generation h < next_generation n"
    using dead by (auto simp: dead_handle_def intro: order_le_less_trans)
  with dead show ?thesis
    by (auto simp: dead_handle_def m(1,2,4,8) entry_new_def)
next
  case (changed h' r')
  note ch = entry_change_maps [OF changed(3)]
  show ?thesis
    using dead ch(7) by (fastforce simp: dead_handle_def ch(1,3) evolves_def)
qed (use dead in simp)

interpretation dead_sys: invariant_system "node_step C" "\<lambda>n. node_inv C n \<and> dead_handle n h"
  by unfold_locales
    (auto elim!: node_step.cases intro: node_apply_inv node_apply_dead)

text \<open>A completed cancellation kills its handle.\<close>

lemma canceled_dead:
  assumes "node_apply op n = (Inr (Observed (Canceled h)), n')" and inv: "node_inv C n"
  shows "dead_handle n' h"
  using assms(1)
proof (cases rule: node_apply_cases)
  case (changed h' r')
  then have "r' = Inr (Canceled h)"
    by (auto simp: and_then_def split: sum.splits)
  with changed(3) obtain e where e: "node_entry n h = Inr e" and n': "n' = finish_cancellation h n"
    by (auto simp: entry_change_def)
  have "map_of (latest_generation n) (h_relay_peer_id h) = Some (h_generation h)"
    using e inv by (auto simp: node_entry_Inr node_inv_def entry_inv_def)
  with e show ?thesis
    by (auto simp: dead_handle_def n' node_entry_Inr)
qed simp_all

section \<open>Publication\<close>

text \<open>A relay holds a publishable reservation.\<close>

definition relay_publishable :: "relay_reservation_node \<Rightarrow> peer_id \<Rightarrow> bool" where
  "relay_publishable n p \<longleftrightarrow>
     (\<exists>e. map_of (reservations n) p = Some e \<and> e_state e = Publishable)"

lemma source_circuit_allowed_iff:
  "source_circuit_allowed n p \<longleftrightarrow>
    map_of (latest_generation n) p = None \<or> relay_publishable n p"
  by (auto simp: source_circuit_allowed_def hm_contains_def relay_publishable_def
      split: option.splits)

text \<open>What \<open>maybe_publish\<close> does on the entry it is called with.\<close>

definition publishes ::
  "relay_reservation_node \<Rightarrow> reservation_entry \<Rightarrow> relay_reservation_event relay_result \<Rightarrow> bool"
where
  "publishes n e r \<longleftrightarrow>
     r = and_then (publishable_route (e_provider e) (node_local_peer_id n))
           (\<lambda>route. Inr (PublishableEvent (e_handle e) route (rp_expected_limits (e_provider e))))"

lemma maybe_publish_Publishable:
  assumes "maybe_publish (node_local_peer_id n) e = (r, e')"
    and "e_state e' = Publishable" and "e_state e \<noteq> Publishable"
  shows "publishes n e r"
  using assms by (auto simp: maybe_publish_def publishes_def split: if_splits)

text \<open>A relay becomes publishable only by the call that emits its \<open>PublishableEvent\<close>.\<close>

lemma listener_address_publishes:
  assumes "observe_listener_address h l a n = (r, n')"
    and "relay_publishable n' p" and "\<not> relay_publishable n p"
  shows "\<exists>e. map_of (reservations n) p = Some e \<and> publishes n e r"
proof -
  have "map_of (reservations n) p = Some e \<Longrightarrow> e_state e \<noteq> Publishable" for e
    using assms(3) by (auto simp: relay_publishable_def)
  with assms(1,2) show ?thesis
    by (fastforce simp: observe_listener_address_def relay_publishable_def node_entry_Inr
        publishes_def maybe_publish_def split: sum.splits if_splits prod.splits)
qed

lemma acceptance_publishes:
  assumes "observe_acceptance h b obs n = (r, n')"
    and "relay_publishable n' p" and "\<not> relay_publishable n p"
  shows "\<exists>e. map_of (reservations n) p = Some e \<and> publishes n e r"
proof -
  have "map_of (reservations n) p = Some e \<Longrightarrow> e_state e \<noteq> Publishable" for e
    using assms(3) by (auto simp: relay_publishable_def)
  with assms(1,2) show ?thesis
    by (fastforce simp: observe_acceptance_def relay_publishable_def node_entry_Inr Let_def
        publishes_def maybe_publish_def start_canceling_def split: sum.splits if_splits prod.splits)
qed

lemma conclude_teardown_not_publishable:
  assumes "conclude_teardown h e e' n = (r, n')" and "e_state e' = Canceling"
    and "relay_publishable n' p"
  shows "relay_publishable n p"
  using assms
  by (auto simp: conclude_teardown_def relay_publishable_def split: if_splits)

lemma relay_becomes_publishable:
  assumes ap: "node_apply op n = (r, n')" and inv: "node_inv C n"
    and pub: "relay_publishable n' p" "\<not> relay_publishable n p"
  shows "\<exists>h route limits. r = Inr (Observed (PublishableEvent h route limits)) \<and> h_relay_peer_id h = p"
proof -
  have "\<exists>e r'. map_of (reservations n) p = Some e \<and> publishes n e r' \<and>
      r = and_then r' (\<lambda>ev. Inr (Observed ev))"
  proof (cases op)
    case (ObserveListenerAddress h l a)
    with ap obtain r' where "observe_listener_address h l a n = (r', n')"
      "r = and_then r' (\<lambda>ev. Inr (Observed ev))" by (auto simp: with_output_eq)
    with listener_address_publishes pub show ?thesis by blast
  next
    case (ObserveAcceptance h b obs)
    with ap obtain r' where "observe_acceptance h b obs n = (r', n')"
      "r = and_then r' (\<lambda>ev. Inr (Observed ev))" by (auto simp: with_output_eq)
    with acceptance_publishes pub show ?thesis by blast
  next
    case (Begin p' l)
    with ap pub show ?thesis
      by (auto simp: with_output_eq relay_publishable_def entry_new_def node_begin_def Let_def
          hm.get_ins split: if_splits option.splits)
  next
    case (ObserveDirectConnection h c)
    with ap pub show ?thesis
      by (auto simp: with_output_eq relay_publishable_def observe_direct_connection_def
          node_entry_Inr split: sum.splits if_splits option.splits)
  next
    case (Cancel h)
    with ap pub show ?thesis
      by (auto simp: with_output_eq relay_publishable_def node_cancel_def start_canceling_def
          Let_def split: sum.splits if_splits)
  next
    case (ObserveListenerClosed h l)
    with ap pub show ?thesis
      by (auto simp: with_output_eq observe_listener_closed_def start_canceling_def
          split: sum.splits dest: conclude_teardown_not_publishable)
  next
    case (ObserveDirectConnectionClosed h c)
    with ap pub show ?thesis
      by (auto simp: with_output_eq observe_direct_connection_closed_def start_canceling_def
          split: sum.splits option.splits if_splits dest: conclude_teardown_not_publishable)
  next
    case (ObserveNoDirectConnection h)
    with ap pub show ?thesis
      by (auto simp: with_output_eq observe_no_direct_connection_def start_canceling_def
          split: sum.splits option.splits if_splits dest: conclude_teardown_not_publishable)
  qed
  then obtain e where e: "map_of (reservations n) p = Some e"
    and r: "r = and_then (and_then (publishable_route (e_provider e) (node_local_peer_id n))
      (\<lambda>route. Inr (PublishableEvent (e_handle e) route (rp_expected_limits (e_provider e)))))
      (\<lambda>ev. Inr (Observed ev))"
    by (auto simp: publishes_def)
  from e inv have "provider_ok C (e_provider e)" "h_relay_peer_id (e_handle e) = p"
    by (auto simp: node_inv_def entry_inv_def)
  then show ?thesis
    using publishable_route_ok [of C "e_provider e" "node_local_peer_id n"] r by auto
qed

text \<open>
  The evidence behind a \<open>PublishableEvent\<close>: the entry was awaiting confirmation, after the
  call both signals are recorded, and when the call was the acceptance, the observed limits
  are the expected ones.
\<close>

definition exact_limits :: "expected_relay_limits \<Rightarrow> observed_relay_limits option \<Rightarrow> bool" where
  "exact_limits l obs \<longleftrightarrow>
     obs = Some \<lparr>observed_duration = Some (limits_duration l),
                 observed_data_bytes = Some (limit_data_bytes l)\<rparr>"

lemma validate_observed_Inr: "validate_observed l obs = Inr u \<longleftrightarrow> exact_limits l obs"
proof (cases obs)
  case (Some x)
  then show ?thesis
    by (cases x) (auto simp: validate_observed_def exact_limits_def split: option.splits)
qed (simp add: validate_observed_def exact_limits_def)

lemma maybe_publish_event:
  assumes "maybe_publish q e = (Inr (PublishableEvent h route l), e')" and "provider_ok C (e_provider e)"
  shows "e_state e = AwaitingConfirmation \<and> e_initial_acceptance_observed e \<and> e_listener_observed e \<and>
    e' = e\<lparr>e_state := Publishable\<rparr> \<and> h = e_handle e \<and> l = rp_expected_limits (e_provider e) \<and>
    (\<exists>b \<in> set (rp_bases (e_provider e)). route = b @ [P2pCircuit, P2p q])"
  using assms(1) publishable_route_ok [OF assms(2), of q]
  by (auto simp: maybe_publish_def split: if_splits)

definition publication_evidence ::
  "relay_reservation_node \<Rightarrow> relay_reservation_node \<Rightarrow> node_op \<Rightarrow> relay_reservation_handle \<Rightarrow>
   multiaddr \<Rightarrow> expected_relay_limits \<Rightarrow> bool"
where
  "publication_evidence n n' op h route l \<longleftrightarrow>
     (\<exists>e e'. map_of (reservations n) (h_relay_peer_id h) = Some e \<and>
       map_of (reservations n') (h_relay_peer_id h) = Some e' \<and>
       e_handle e = h \<and> e_handle e' = h \<and> e_provider e' = e_provider e \<and>
       e_state e = AwaitingConfirmation \<and> e_state e' = Publishable \<and>
       e_initial_acceptance_observed e' \<and> e_listener_observed e' \<and>
       l = rp_expected_limits (e_provider e) \<and>
       (\<exists>b \<in> set (rp_bases (e_provider e)). route = b @ [P2pCircuit, P2p (node_local_peer_id n)]) \<and>
       (e_initial_acceptance_observed e \<or>
        (\<exists>h' obs. op = ObserveAcceptance h' False obs \<and> exact_limits l obs)))"

lemma publishable_event_evidence:
  assumes ap: "node_apply op n = (Inr (Observed (PublishableEvent h route l)), n')"
    and inv: "node_inv C n"
  shows "publication_evidence n n' op h route l"
proof -
  have entry: "provider_ok C (e_provider e)" "h_relay_peer_id (e_handle e) = h_relay_peer_id h'"
    if "node_entry n h' = Inr e" for h' e
    using that inv by (auto simp: node_entry_Inr node_inv_def entry_inv_def)
  show ?thesis
  proof (cases op)
    case (ObserveListenerAddress h' l' a)
    with ap obtain e e' where e: "node_entry n h' = Inr e" and n': "n' = put_entry h' e' n"
      and mp: "maybe_publish (node_local_peer_id n) (e\<lparr>e_listener_observed := True\<rparr>) =
        (Inr (PublishableEvent h route l), e')"
      by (auto simp: with_output_Inr observe_listener_address_def
          split: sum.splits if_splits prod.splits)
    from maybe_publish_event [OF mp] entry [OF e] show ?thesis
      using e by (fastforce simp: publication_evidence_def n' node_entry_Inr)
  next
    case (ObserveAcceptance h' b obs)
    with ap obtain e e' where e: "node_entry n h' = Inr e" and n': "n' = put_entry h' e' n"
      and b: "\<not> b" and lim: "exact_limits (rp_expected_limits (e_provider e)) obs"
      and mp: "maybe_publish (node_local_peer_id n) (e\<lparr>e_initial_acceptance_observed := True\<rparr>) =
        (Inr (PublishableEvent h route l), e')"
      by (auto simp: with_output_Inr observe_acceptance_def and_then_eq_Inr Let_def
          validate_observed_Inr split: sum.splits if_splits prod.splits)
    from maybe_publish_event [OF mp] entry [OF e] show ?thesis
      using e b lim ObserveAcceptance by (fastforce simp: publication_evidence_def n' node_entry_Inr)
  qed (use ap in \<open>auto simp: with_output_Inr Let_def observe_direct_connection_def
      node_cancel_def observe_listener_closed_def observe_direct_connection_closed_def
      observe_no_direct_connection_def conclude_teardown_def
      split: sum.splits if_splits option.splits\<close>)
qed

text \<open>A generation that has left \<open>AwaitingConfirmation\<close> never comes back to it.\<close>

definition settled_handle :: "relay_reservation_node \<Rightarrow> relay_reservation_handle \<Rightarrow> bool" where
  "settled_handle n h \<longleftrightarrow>
     (\<exists>g. map_of (latest_generation n) (h_relay_peer_id h) = Some g \<and> h_generation h \<le> g) \<and>
     (\<forall>e. map_of (reservations n) (h_relay_peer_id h) = Some e \<longrightarrow>
        h_generation (e_handle e) = h_generation h \<longrightarrow> e_state e \<noteq> AwaitingConfirmation)"

lemma node_apply_settled:
  assumes "node_apply op n = (r, n')" and inv: "node_inv C n" and settled: "settled_handle n h"
  shows "settled_handle n' h"
  using assms(1)
proof (cases rule: node_apply_cases)
  case (began p l h')
  note m = node_begin_maps [OF began(2)]
  have "g < next_generation n" if "map_of (latest_generation n) q = Some g" for q g
    using inv that by (simp add: node_inv_def)
  then have "h_generation h < next_generation n"
    using settled by (auto simp: settled_handle_def intro: order_le_less_trans)
  with settled show ?thesis
    by (auto simp: settled_handle_def m(1,2,8) entry_new_def)
next
  case (changed h' r')
  note ch = entry_change_maps [OF changed(3)]
  show ?thesis
    using settled ch(7) by (fastforce simp: settled_handle_def ch(1) evolves_def)
qed (use settled in simp)

interpretation settled_sys: invariant_system "node_step C" "\<lambda>n. node_inv C n \<and> settled_handle n h"
  by unfold_locales
    (auto elim!: node_step.cases intro: node_apply_inv node_apply_settled)

lemma publication_settles:
  assumes "publication_evidence n n' op h route l" and "node_inv C n'"
  shows "settled_handle n' h"
  using assms by (fastforce simp: publication_evidence_def settled_handle_def node_inv_def entry_inv_def)

section \<open>Teardown and independence\<close>

text \<open>Calls through one relay's handle leave every other relay alone.\<close>

lemma other_relays_unchanged:
  assumes "node_apply op n = (r, n')" and "op_handle op = Some h" and "p \<noteq> h_relay_peer_id h"
  shows "map_of (reservations n') p = map_of (reservations n) p"
    "map_of (latest_generation n') p = map_of (latest_generation n) p"
proof -
  obtain r' where "entry_change n h r' n'"
    using node_apply_handle [OF assms(1,2)] by blast
  then show "map_of (reservations n') p = map_of (reservations n) p"
    "map_of (latest_generation n') p = map_of (latest_generation n) p"
    using assms(3) by (simp_all add: entry_change_maps)
qed

fun node_run :: "node_op list \<Rightarrow> relay_reservation_node \<Rightarrow> node_output relay_result list \<times> relay_reservation_node" where
  "node_run [] n = ([], n)"
| "node_run (op # ops) n =
     (case node_apply op n of (r, n') \<Rightarrow> case node_run ops n' of (rs, n'') \<Rightarrow> (r # rs, n''))"

section \<open>Histories\<close>

text \<open>Facts about whole call histories: the outputs \<open>rs\<close> of a run, in call order.\<close>

fun publication_of :: "node_output relay_result \<Rightarrow> relay_reservation_handle option" where
  "publication_of (Inr (Observed (PublishableEvent h route l))) = Some h"
| "publication_of _ = None"

fun begun_generation_of :: "node_output relay_result \<Rightarrow> u64 option" where
  "begun_generation_of (Inr (Began h)) = Some (h_generation h)"
| "begun_generation_of _ = None"

lemma publication_of_Some:
  "publication_of r = Some h \<longleftrightarrow> (\<exists>route l. r = Inr (Observed (PublishableEvent h route l)))"
  by (cases r rule: publication_of.cases) auto

lemma begun_generation_of_Some:
  "begun_generation_of r = Some g \<longleftrightarrow> (\<exists>h. r = Inr (Began h) \<and> g = h_generation h)"
  by (cases r rule: begun_generation_of.cases) auto

lemma node_run_steps:
  "list_all (op_ok C) ops \<Longrightarrow> node_run ops n = (rs, n') \<Longrightarrow> (node_step C)\<^sup>*\<^sup>* n n'"
proof (induction ops arbitrary: n rs)
  case (Cons op ops)
  then obtain r n1 rs1 where ap: "node_apply op n = (r, n1)" and "node_run ops n1 = (rs1, n')"
    by (auto split: prod.splits)
  with Cons have "node_step C n n1" "(node_step C)\<^sup>*\<^sup>* n1 n'"
    by (auto intro: node_step.call)
  then show ?case by simp
qed simp

lemma node_run_inv:
  "list_all (op_ok C) ops \<Longrightarrow> node_run ops (relay_reservation_node_new i q) = (rs, n) \<Longrightarrow>
    node_inv C n"
  using node_run_steps node_sys.run_inv node_new_inv by blast

lemma node_run_canceled:
  assumes "list_all (op_ok C) ops" "node_run ops n = (rs, n')" "node_inv C n"
    and "Inr (Observed (Canceled h)) \<in> set rs"
  shows "dead_handle n' h"
  using assms
proof (induction ops arbitrary: n rs)
  case (Cons op ops)
  then obtain r n1 rs1 where ap: "node_apply op n = (r, n1)" and run: "node_run ops n1 = (rs1, n')"
    and rs: "rs = r # rs1" by (auto split: prod.splits)
  have inv1: "node_inv C n1"
    using Cons.prems ap by (auto intro: node_apply_inv)
  show ?case
  proof (cases "r = Inr (Observed (Canceled h))")
    case True
    with ap Cons.prems have "dead_handle n1 h" by (auto intro: canceled_dead)
    with inv1 run Cons.prems show ?thesis
      using node_run_steps dead_sys.run_inv by fastforce
  next
    case False
    with Cons rs run inv1 show ?thesis by auto
  qed
qed simp

lemma settled_not_published:
  assumes "list_all (op_ok C) ops" "node_run ops n = (rs, n')" "node_inv C n" "settled_handle n h"
    and "r \<in> set rs"
  shows "publication_of r \<noteq> Some h"
  using assms
proof (induction ops arbitrary: n rs)
  case (Cons op ops)
  then obtain r1 n1 rs1 where ap: "node_apply op n = (r1, n1)" and run: "node_run ops n1 = (rs1, n')"
    and rs: "rs = r1 # rs1" by (auto split: prod.splits)
  have "node_inv C n1" "settled_handle n1 h"
    using Cons.prems ap by (auto intro: node_apply_inv node_apply_settled)
  moreover have "publication_of r1 \<noteq> Some h"
    using Cons.prems(3,4) ap publishable_event_evidence [of op n h]
    by (fastforce simp: publication_of_Some publication_evidence_def settled_handle_def)
  ultimately show ?case
    using Cons rs run by auto
qed simp

lemma node_run_published_distinct:
  assumes "list_all (op_ok C) ops" "node_run ops n = (rs, n')" "node_inv C n"
  shows "distinct (List.map_filter publication_of rs)"
  using assms
proof (induction ops arbitrary: n rs)
  case (Cons op ops)
  then obtain r n1 rs1 where ap: "node_apply op n = (r, n1)" and run: "node_run ops n1 = (rs1, n')"
    and rs: "rs = r # rs1" by (auto split: prod.splits)
  have inv1: "node_inv C n1"
    using Cons.prems ap by (auto intro: node_apply_inv)
  have "h \<notin> set (List.map_filter publication_of rs1)" if h: "publication_of r = Some h" for h
  proof -
    from h ap Cons.prems have "settled_handle n1 h"
      by (auto simp: publication_of_Some intro: publication_settles publishable_event_evidence inv1)
    with run inv1 Cons.prems show ?thesis
      using settled_not_published [of C ops n1 rs1 n' h] by (auto simp: List.map_filter_def)
  qed
  with Cons rs run inv1 show ?case
    by (auto simp: List.map_filter_simps split: option.splits)
qed (simp add: List.map_filter_simps)

lemma node_run_generations:
  assumes "list_all (op_ok C) ops" "node_run ops n = (rs, n')" "node_inv C n"
  shows "sorted_wrt (<) (List.map_filter begun_generation_of rs) \<and>
    (\<forall>g \<in> set (List.map_filter begun_generation_of rs). next_generation n \<le> g)"
  using assms
proof (induction ops arbitrary: n rs)
  case (Cons op ops)
  then obtain r n1 rs1 where ap: "node_apply op n = (r, n1)" and run: "node_run ops n1 = (rs1, n')"
    and rs: "rs = r # rs1" by (auto split: prod.splits)
  have inv1: "node_inv C n1"
    using Cons.prems ap by (auto intro: node_apply_inv)
  have mono: "next_generation n \<le> next_generation n1"
    using Cons.prems ap node_sys.step_rank by (auto intro: node_step.call)
  have "g = next_generation n \<and> g < next_generation n1" if "begun_generation_of r = Some g" for g
    using ap that
    by (cases rule: node_apply_cases)
      (auto simp: begun_generation_of_Some and_then_eq_Inr node_begin_maps(8) dest: node_begin_maps(3))
  with Cons rs run inv1 mono show ?case
    by (fastforce simp: List.map_filter_simps split: option.splits)
qed (simp add: List.map_filter_simps)

text \<open>Teardown: after \<open>cancel\<close>, the two terminal observations, in either order, free the slot.\<close>

definition connection_closure :: "relay_reservation_handle \<Rightarrow> reservation_entry \<Rightarrow> node_op" where
  "connection_closure h e =
     (case e_direct_connection e of None \<Rightarrow> ObserveNoDirectConnection h
      | Some c \<Rightarrow> ObserveDirectConnectionClosed h c)"

lemma put_entry_twice [simp]: "put_entry h e' (put_entry h e n) = put_entry h e' n"
  by (simp add: put_entry_def hm_insert_def)

lemma node_entry_put:
  "node_entry n h = Inr e \<Longrightarrow> e_handle e' = e_handle e \<Longrightarrow> node_entry (put_entry h e' n) h = Inr e'"
  by (simp add: node_entry_Inr)

lemma canceling_updates:
  assumes "e_state e = Canceling"
  shows "e\<lparr>e_state := Canceling, e_listener_closed := True\<rparr> = e\<lparr>e_listener_closed := True\<rparr>"
    "e\<lparr>e_state := Canceling, e_connection_terminal := True\<rparr> = e\<lparr>e_connection_terminal := True\<rparr>"
  using assms by (cases e; simp)+

lemma cancel_run:
  assumes "node_entry n h = Inr e"
  obtains e1 n1 ev where "node_apply (Cancel h) n = (Inr (Observed ev), n1)"
    "node_entry n1 h = Inr e1" "e_state e1 = Canceling" "e_handle e1 = e_handle e"
    "e_direct_connection e1 = e_direct_connection e" "e_listener_closed e1 = e_listener_closed e"
    "e_connection_terminal e1 = e_connection_terminal e"
    "finish_cancellation h n1 = finish_cancellation h n"
proof (cases "e_state e = Canceling")
  case True
  with assms show ?thesis
    by (intro that [of "CancellationPending (cancellation e)" n e])
      (simp_all add: with_output_def node_cancel_def)
next
  case False
  let ?e = "start_canceling e"
  from False assms show ?thesis
    by (intro that [of "CancellationStarted (cancellation ?e)" "put_entry h ?e n" ?e])
      (simp_all add: with_output_def node_cancel_def Let_def node_entry_put start_canceling_def)
qed

lemma listener_closed_canceling:
  assumes "node_entry n h = Inr e" "e_state e = Canceling" "l = h_listener_id (e_handle e)"
  shows "node_apply (ObserveListenerClosed h l) n =
    (if e_connection_terminal e then (Inr (Observed (Canceled h)), finish_cancellation h n)
     else (Inr (Observed (Fenced h)), put_entry h (e\<lparr>e_listener_closed := True\<rparr>) n))"
  using assms by (simp add: with_output_def observe_listener_closed_def ensure_listener_def
      conclude_teardown_def cancellation_complete_def start_canceling_def canceling_updates)

lemma connection_closed_canceling:
  assumes "node_entry n h = Inr e" "e_state e = Canceling"
  shows "node_apply (connection_closure h e) n =
    (if e_listener_closed e then (Inr (Observed (Canceled h)), finish_cancellation h n)
     else (Inr (Observed (Fenced h)), put_entry h (e\<lparr>e_connection_terminal := True\<rparr>) n))"
  using assms by (auto simp: with_output_def observe_direct_connection_closed_def
      observe_no_direct_connection_def connection_closure_def conclude_teardown_def
      cancellation_complete_def start_canceling_def canceling_updates split: option.splits)

lemma freed_slot_stale:
  assumes "node_inv C n" "node_entry n h = Inr e" "op_handle op = Some h"
  shows "node_apply op (finish_cancellation h n) = (Inl StaleHandle, finish_cancellation h n)"
proof -
  have "dead_handle (finish_cancellation h n) h"
    using assms by (auto simp: dead_handle_def node_entry_Inr node_inv_def entry_inv_def)
  then show ?thesis
    using assms(3) by (intro node_entry_Inl_apply dead_handle_entry)
qed

lemma teardown_run:
  assumes inv: "node_inv C n" and e: "node_entry n h = Inr e"
    and closures: "ops = [ObserveListenerClosed h (h_listener_id (e_handle e)), connection_closure h e] \<or>
      ops = [connection_closure h e, ObserveListenerClosed h (h_listener_id (e_handle e))]"
  shows "\<exists>rs. node_run (Cancel h # ops) n = (rs, finish_cancellation h n) \<and>
    Inr (Observed (Canceled h)) \<in> set rs"
proof -
  obtain e1 n1 ev where c: "node_apply (Cancel h) n = (Inr (Observed ev), n1)"
    and e1: "node_entry n1 h = Inr e1" "e_state e1 = Canceling" "e_handle e1 = e_handle e"
      "e_direct_connection e1 = e_direct_connection e" "e_listener_closed e1 = e_listener_closed e"
      "e_connection_terminal e1 = e_connection_terminal e"
    and fin: "finish_cancellation h n1 = finish_cancellation h n"
    using cancel_run [OF e] .
  have cl: "connection_closure h e = connection_closure h e1"
      "connection_closure h (e1\<lparr>e_listener_closed := True\<rparr>) = connection_closure h e1"
    using e1 by (simp_all add: connection_closure_def)
  have "op_handle (connection_closure h e1) = Some h"
    by (simp add: connection_closure_def split: option.splits)
  with freed_slot_stale [OF inv e]
  have stale: "node_apply (connection_closure h e1) (finish_cancellation h n) =
      (Inl StaleHandle, finish_cancellation h n)"
    "node_apply (ObserveListenerClosed h l) (finish_cancellation h n) =
      (Inl StaleHandle, finish_cancellation h n)" for l
    by (simp_all del: node_apply.simps)
  note closed = listener_closed_canceling [OF e1(1,2)] connection_closed_canceling [OF e1(1,2)]
    listener_closed_canceling [OF node_entry_put [OF e1(1)], of "e1\<lparr>e_connection_terminal := True\<rparr>"]
    connection_closed_canceling [OF node_entry_put [OF e1(1)], of "e1\<lparr>e_listener_closed := True\<rparr>"]
  show ?thesis
    using closures closed e1 stale by (auto simp: c cl fin simp del: node_apply.simps)
qed

section \<open>Rejection, panics\<close>

lemma acceptance_rejected:
  assumes inv: "node_inv C n" and e: "node_entry n h = Inr e" and st: "e_state e \<noteq> Canceling"
    and lim: "\<not> exact_limits (rp_expected_limits (e_provider e)) obs"
  shows "\<exists>reason. node_apply (ObserveAcceptance h renewal obs) n =
      (Inr (Observed (ConfirmationRejected h reason (cancellation (start_canceling e)))),
       put_entry h (start_canceling e) n)"
proof -
  obtain reason where "validate_observed (rp_expected_limits (e_provider e)) obs = Inl reason"
    using lim validate_observed_Inr by (metis sumE)
  then show ?thesis
    using e st by (simp add: with_output_def observe_acceptance_def Let_def)
qed

lemma canceling_settled:
  assumes "node_inv C n" "node_entry n h = Inr e"
  shows "settled_handle (put_entry h (start_canceling e) n) h"
    "\<not> source_circuit_allowed (put_entry h (start_canceling e) n) (h_relay_peer_id h)"
  using assms
  by (auto simp: settled_handle_def node_entry_Inr node_inv_def entry_inv_def start_canceling_def
      source_circuit_allowed_iff relay_publishable_def)

definition no_panic :: "'a relay_result \<Rightarrow> bool" where
  "no_panic r \<longleftrightarrow> (\<forall>s. r \<noteq> Inl (Panic s))"

lemma no_panic_simps [simp]: "no_panic (Inr x)" "no_panic (Inl err) \<longleftrightarrow> (\<forall>s. err \<noteq> Panic s)"
  by (auto simp: no_panic_def)

lemma node_entry_no_panic [simp]: "node_entry n h \<noteq> Inl (Panic s)"
  by (auto simp: node_entry_def validate_handle_def split: option.splits if_splits)

lemma maybe_publish_no_panic:
  assumes "maybe_publish q e' = (r, e'')" "e_provider e' = e_provider e" "provider_ok C (e_provider e)"
  shows "r \<noteq> Inl (Panic s)"
  using publishable_route_ok [OF assms(3), of q] assms by (auto simp: maybe_publish_def split: if_splits)

lemma conclude_teardown_no_panic [simp]: "conclude_teardown h e e' n \<noteq> (Inl (Panic s), n')"
  by (simp add: conclude_teardown_def)

lemma node_apply_no_panic:
  assumes inv: "node_inv C n"
  shows "no_panic (fst (node_apply op n))"
proof -
  have ok: "provider_ok C (e_provider e)" if "node_entry n h = Inr e" for h e
    using inv that by (auto simp: node_entry_Inr node_inv_def entry_inv_def)
  have addr: "fst (observe_listener_address h l a n) \<noteq> Inl (Panic s)" for h l a s
    by (auto simp: observe_listener_address_def ensure_listener_def split: sum.splits prod.splits
        dest!: ok maybe_publish_no_panic [rotated 2])
  have acc: "fst (observe_acceptance h b obs n) \<noteq> Inl (Panic s)" for h b obs s
    by (auto simp: observe_acceptance_def Let_def split: sum.splits prod.splits
        dest!: ok maybe_publish_no_panic [rotated 2])
  have rest: "fst (node_begin p l n) \<noteq> Inl (Panic s)" "fst (node_cancel h n) \<noteq> Inl (Panic s)"
    "fst (observe_direct_connection h c n) \<noteq> Inl (Panic s)"
    "fst (observe_listener_closed h l n) \<noteq> Inl (Panic s)"
    "fst (observe_direct_connection_closed h c n) \<noteq> Inl (Panic s)"
    "fst (observe_no_direct_connection h n) \<noteq> Inl (Panic s)" for p l h c s
    by (auto simp: node_begin_def node_cancel_def observe_direct_connection_def Let_def
        observe_listener_closed_def ensure_listener_def observe_direct_connection_closed_def
        observe_no_direct_connection_def conclude_teardown_def split: sum.splits option.splits)
  show ?thesis
    unfolding no_panic_def
    using addr acc rest by (cases op) (auto simp: with_output_def and_then_def split: sum.splits)
qed

lemma node_snapshot_no_panic:
  assumes inv: "node_inv C n"
  shows "no_panic (node_snapshot n h)"
proof (cases "node_entry n h")
  case (Inr e)
  with inv have ok: "provider_ok C (e_provider e)"
    by (auto simp: node_entry_Inr node_inv_def entry_inv_def)
  obtain b where b: "selected_base (e_provider e) = Inr b"
    using selected_base_ok [OF ok] by blast
  obtain r where r: "publishable_route (e_provider e) (node_local_peer_id n) = Inr r"
    using publishable_route_ok [OF ok] by blast
  show ?thesis
    by (simp add: node_snapshot_def Inr entry_snapshot_def b r)
next
  case (Inl err)
  then show ?thesis
    using node_entry_no_panic [of n h] by (auto simp: node_snapshot_def)
qed

section \<open>A concrete history\<close>

text \<open>One relay: the reservation is accepted, its listener appears, it is published, canceled
  and torn down.\<close>

definition sample_node :: relay_reservation_node where
  "sample_node = relay_reservation_node_new 7 (PeerId ''L'')"

definition sample_handle :: relay_reservation_handle where
  "sample_handle = \<lparr>h_node_instance_id = 7, h_relay_peer_id = sample_relay, h_generation = 1,
     h_listener_id = 3\<rparr>"

definition sample_observed :: "observed_relay_limits option" where
  "sample_observed = Some \<lparr>observed_duration = Some (limits_duration sample_limits),
     observed_data_bytes = Some (limit_data_bytes sample_limits)\<rparr>"

definition sample_accepted_ops :: "node_op list" where
  "sample_accepted_ops = [Begin sample_provider 3, ObserveAcceptance sample_handle False sample_observed]"

definition sample_publish_op :: node_op where
  "sample_publish_op = ObserveListenerAddress sample_handle 3 []"

definition sample_teardown_ops :: "node_op list" where
  "sample_teardown_ops = [ObserveListenerClosed sample_handle 3, ObserveNoDirectConnection sample_handle]"

definition sample_route :: multiaddr where
  "sample_route = sample_tcp @ [P2pCircuit, P2p (PeerId ''L'')]"

definition sample_entry :: "bool \<Rightarrow> relay_reservation_state \<Rightarrow> reservation_entry" where
  "sample_entry listener st = \<lparr>e_handle = sample_handle, e_provider = sample_provider, e_state = st,
     e_direct_connection = None, e_connection_terminal = False, e_listener_observed = listener,
     e_listener_closed = False, e_initial_acceptance_observed = True\<rparr>"

definition sample_accepted :: "relay_reservation_node" where
  "sample_accepted = \<lparr>node_instance_id = 7, node_local_peer_id = PeerId ''L'', next_generation = 2,
     latest_generation = [(sample_relay, 1)],
     reservations = [(sample_relay, sample_entry False AwaitingConfirmation)]\<rparr>"

definition sample_published :: "relay_reservation_node" where
  "sample_published = sample_accepted\<lparr>reservations := [(sample_relay, sample_entry True Publishable)]\<rparr>"

definition sample_freed :: "relay_reservation_node" where
  "sample_freed = sample_accepted\<lparr>reservations := []\<rparr>"

lemmas sample_run_defs = sample_node_def sample_handle_def sample_observed_def
  sample_accepted_ops_def sample_publish_op_def sample_teardown_ops_def sample_route_def
  sample_entry_def sample_accepted_def sample_published_def sample_freed_def
  relay_reservation_node_new_def

lemma sample_provider_fields [simp]:
  "rp_relay_peer_id sample_provider = sample_relay"
  "rp_expected_limits sample_provider = sample_limits"
  by (simp_all add: sample_provider_def)

lemma sample_provider_ok: "provider_ok ref_codec sample_provider"
  using relay_provider_new_ok(1) [OF ref_codec_ok sample_provider_new(2)] .

lemma sample_publishable_route: "publishable_route sample_provider (PeerId ''L'') = Inr sample_route"
  by (simp add: publishable_route_def circuit_route_for_transport_def base_for_transport_def
      sample_provider_def sample_tcp_def sample_wss_def sample_route_def)

lemma sample_ops_ok: "list_all (op_ok ref_codec) sample_accepted_ops"
  "list_all (op_ok ref_codec) [sample_publish_op]" "list_all (op_ok ref_codec) sample_teardown_ops"
  by (simp_all add: sample_run_defs sample_provider_ok)

lemmas node_eval = with_output_def node_begin_def observe_direct_connection_def
  observe_listener_address_def observe_acceptance_def node_cancel_def observe_listener_closed_def
  observe_direct_connection_closed_def observe_no_direct_connection_def conclude_teardown_def
  ensure_listener_def acceptance_order_def maybe_publish_def start_canceling_def
  cancellation_complete_def node_entry_def validate_handle_def put_entry_def
  finish_cancellation_def entry_new_def hm_contains_def hm_insert_def hm_remove_def
  checked_add_def cancellation_def Let_def

lemma sample_accepted_run:
  "node_run sample_accepted_ops sample_node =
    ([Inr (Began sample_handle), Inr (Observed (EvidenceRecorded sample_handle))], sample_accepted)"
  by (simp add: sample_run_defs node_eval validate_observed_def)

lemma sample_publish:
  "node_apply sample_publish_op sample_accepted =
    (Inr (Observed (PublishableEvent sample_handle sample_route sample_limits)), sample_published)"
  using sample_publishable_route by (simp add: sample_run_defs node_eval)

lemma sample_teardown_run:
  "node_run sample_teardown_ops sample_published =
    ([Inr (Observed (CancellationStarted (cancellation (sample_entry True Canceling)))),
      Inr (Observed (Canceled sample_handle))], sample_freed)"
  by (simp add: sample_run_defs node_eval)

lemma sample_full_run:
  "node_run (sample_accepted_ops @ sample_publish_op # sample_teardown_ops) sample_node =
    ([Inr (Began sample_handle), Inr (Observed (EvidenceRecorded sample_handle)),
      Inr (Observed (PublishableEvent sample_handle sample_route sample_limits)),
      Inr (Observed (CancellationStarted (cancellation (sample_entry True Canceling)))),
      Inr (Observed (Canceled sample_handle))], sample_freed)"
  using sample_accepted_run sample_publish sample_teardown_run
  by (auto simp: sample_accepted_ops_def split: prod.splits simp del: node_apply.simps)

lemma sample_full_ok:
  "list_all (op_ok ref_codec) (sample_accepted_ops @ sample_publish_op # sample_teardown_ops)"
  using sample_ops_ok by simp

section \<open>Properties\<close>

text \<open>
  C13: in every history of calls, whatever handles and evidence the calls carry, once a
  cancellation of a reservation has completed, every later call through its handle is
  refused as stale and changes nothing, also after the relay has been reserved again.
\<close>

theorem canceled_generation_fenced:
  assumes "list_all (op_ok C) ops"
    and "node_run ops (relay_reservation_node_new i q) = (rs, n)"
    and "Inr (Observed (Canceled h)) \<in> set rs" and "op_handle op = Some h"
  shows "node_apply op n = (Inl StaleHandle, n)"
  using node_run_canceled [OF assms(1,2) node_new_inv assms(3)] assms(4)
  by (intro node_entry_Inl_apply dead_handle_entry)

theorem canceled_generation_fenced_witness:
  "node_apply (ObserveAcceptance sample_handle False sample_observed) sample_freed =
    (Inl StaleHandle, sample_freed)"
  by (rule canceled_generation_fenced [OF sample_full_ok sample_full_run [unfolded sample_node_def]])
    simp_all

text \<open>
  C14: a route is announced as publishable only on full evidence: in every history, a call that
  emits a publishable event finds the reservation awaiting confirmation, leaves it publishable
  with both signals recorded, reports the expected limits and a route that is one of the
  provider's bases followed by \<open>/p2p-circuit/p2p/<local peer>\<close>; and the acceptance was either
  recorded before or is this call, with limits equal to the expected ones.
\<close>

theorem publication_needs_evidence:
  assumes "list_all (op_ok C) ops"
    and "node_run ops (relay_reservation_node_new i q) = (rs, n)"
    and "node_apply op n = (Inr (Observed (PublishableEvent h route l)), n')"
  shows "publication_evidence n n' op h route l"
  using publishable_event_evidence [OF assms(3) node_run_inv [OF assms(1,2)]] .

theorem publication_needs_evidence_witness:
  "publication_evidence sample_accepted sample_published sample_publish_op sample_handle
     sample_route sample_limits"
  by (rule publication_needs_evidence [OF sample_ops_ok(1)
        sample_accepted_run [unfolded sample_node_def] sample_publish])

text \<open>
  in every history, each reservation is announced as publishable at most once, and the
  generations of the successive reservations of the node strictly increase, so that no handle
  is ever issued twice.
\<close>

theorem published_once_per_generation:
  assumes "list_all (op_ok C) ops"
    and "node_run ops (relay_reservation_node_new i q) = (rs, n)"
  shows "distinct (List.map_filter publication_of rs) \<and>
    sorted_wrt (<) (List.map_filter begun_generation_of rs)"
  using node_run_published_distinct [OF assms node_new_inv]
    node_run_generations [OF assms node_new_inv] by blast

theorem published_once_per_generation_witness:
  "distinct (List.map_filter publication_of (fst (node_run sample_accepted_ops sample_node))) \<and>
    sorted_wrt (<) (List.map_filter begun_generation_of (fst (node_run sample_accepted_ops sample_node)))"
  unfolding sample_node_def
  by (rule published_once_per_generation [OF sample_ops_ok(1)]) (rule prod.collapse [symmetric])

text \<open>
  the gate for circuits through a relay that this node has reserved opens only with
  publication: in every history, when a call turns \<open>source_circuit_allowed\<close> from false to true
  for a relay, its result is the publishable event of a reservation of that relay.
\<close>

theorem circuit_gate_opens_on_publication:
  assumes "list_all (op_ok C) ops"
    and "node_run ops (relay_reservation_node_new i q) = (rs, n)"
    and "node_apply op n = (r, n')"
    and "\<not> source_circuit_allowed n p" and "source_circuit_allowed n' p"
  shows "\<exists>h route l. r = Inr (Observed (PublishableEvent h route l)) \<and> h_relay_peer_id h = p"
proof -
  have "map_of (latest_generation n') p \<noteq> None" if "map_of (latest_generation n) p \<noteq> None"
    using assms(3) that
    by (cases rule: node_apply_cases) (auto dest: node_begin_maps(2) entry_change_maps(1))
  then have "relay_publishable n' p" "\<not> relay_publishable n p"
    using assms(4,5) by (auto simp: source_circuit_allowed_iff)
  then show ?thesis
    using relay_becomes_publishable [OF assms(3) node_run_inv [OF assms(1,2)]] by blast
qed

theorem circuit_gate_opens_on_publication_witness:
  "\<exists>h route l. (Inr (Observed (PublishableEvent sample_handle sample_route sample_limits)) ::
      node_output relay_result) = Inr (Observed (PublishableEvent h route l)) \<and>
    h_relay_peer_id h = sample_relay"
  by (rule circuit_gate_opens_on_publication [OF sample_ops_ok(1)
        sample_accepted_run [unfolded sample_node_def] sample_publish])
    (simp_all add: source_circuit_allowed_def sample_run_defs hm_contains_def)

text \<open>
  C26: teardown completes: from every state of every history, canceling a live reservation and
  then observing the closure of its listener and of its direct connection (or that there is
  none), in either order, emits its \<open>Canceled\<close> event and frees the relay's slot; nothing else
  of the node changes.
\<close>

theorem teardown_completes:
  assumes "list_all (op_ok C) ops"
    and "node_run ops (relay_reservation_node_new i q) = (rs, n)"
    and "node_entry n h = Inr e"
    and "closures = [ObserveListenerClosed h (h_listener_id (e_handle e)), connection_closure h e] \<or>
      closures = [connection_closure h e, ObserveListenerClosed h (h_listener_id (e_handle e))]"
  shows "\<exists>rs'. node_run (Cancel h # closures) n = (rs', finish_cancellation h n) \<and>
    Inr (Observed (Canceled h)) \<in> set rs'"
  by (rule teardown_run [OF node_run_inv [OF assms(1,2)] assms(3,4)])

theorem teardown_completes_witness:
  "\<exists>rs'. node_run (Cancel sample_handle # [ObserveListenerClosed sample_handle 3,
        connection_closure sample_handle (sample_entry False AwaitingConfirmation)]) sample_accepted =
      (rs', finish_cancellation sample_handle sample_accepted) \<and>
    Inr (Observed (Canceled sample_handle)) \<in> set rs'"
proof (rule teardown_completes [OF sample_ops_ok(1) sample_accepted_run [unfolded sample_node_def]])
  show "node_entry sample_accepted sample_handle = Inr (sample_entry False AwaitingConfirmation)"
    by (simp add: sample_run_defs node_eval)
  have "h_listener_id (e_handle (sample_entry False AwaitingConfirmation)) = 3"
    by (simp add: sample_run_defs)
  then show "[ObserveListenerClosed sample_handle 3,
        connection_closure sample_handle (sample_entry False AwaitingConfirmation)] =
      [ObserveListenerClosed sample_handle (h_listener_id (e_handle (sample_entry False AwaitingConfirmation))),
        connection_closure sample_handle (sample_entry False AwaitingConfirmation)] \<or>
      [ObserveListenerClosed sample_handle 3,
        connection_closure sample_handle (sample_entry False AwaitingConfirmation)] =
      [connection_closure sample_handle (sample_entry False AwaitingConfirmation),
        ObserveListenerClosed sample_handle (h_listener_id (e_handle (sample_entry False AwaitingConfirmation)))]"
    by simp
qed

text \<open>
  a confirmation whose limits are absent, incomplete or different from the provider's
  expected limits cancels the reservation: the call reports the rejection, the circuit gate of
  the relay is closed, and in no continuation of the history is the reservation published.
\<close>

theorem wrong_limits_reject:
  assumes "list_all (op_ok C) ops"
    and "node_run ops (relay_reservation_node_new i q) = (rs, n)"
    and "node_entry n h = Inr e" and "e_state e \<noteq> Canceling"
    and "\<not> exact_limits (rp_expected_limits (e_provider e)) obs"
    and "list_all (op_ok C) later"
    and "node_run (ObserveAcceptance h renewal obs # later) n = (r # rs', n')"
  shows "\<exists>reason. r = Inr (Observed (ConfirmationRejected h reason (cancellation (start_canceling e)))) \<and>
    \<not> source_circuit_allowed (snd (node_apply (ObserveAcceptance h renewal obs) n)) (h_relay_peer_id h) \<and>
    (\<forall>r' \<in> set rs'. publication_of r' \<noteq> Some h)"
proof -
  have inv: "node_inv C n" by (rule node_run_inv [OF assms(1,2)])
  obtain reason where ap: "node_apply (ObserveAcceptance h renewal obs) n =
      (Inr (Observed (ConfirmationRejected h reason (cancellation (start_canceling e)))),
       put_entry h (start_canceling e) n)"
    using acceptance_rejected [OF inv assms(3-5)] by blast
  with assms(7) have run: "node_run later (put_entry h (start_canceling e) n) = (rs', n')"
    and r: "r = Inr (Observed (ConfirmationRejected h reason (cancellation (start_canceling e))))"
    by (auto split: prod.splits simp del: node_apply.simps)
  have "node_inv C (put_entry h (start_canceling e) n)"
    by (rule node_apply_inv [OF ap _ inv]) simp
  then show ?thesis
    using settled_not_published [OF assms(6) run] canceling_settled [OF inv assms(3)] r
    by (simp add: ap del: node_apply.simps)
qed

theorem wrong_limits_reject_witness:
  "\<exists>reason. fst (node_apply (ObserveAcceptance sample_handle True None) sample_accepted) =
      Inr (Observed (ConfirmationRejected sample_handle reason
        (cancellation (start_canceling (sample_entry False AwaitingConfirmation))))) \<and>
    \<not> source_circuit_allowed (snd (node_apply (ObserveAcceptance sample_handle True None) sample_accepted))
        (h_relay_peer_id sample_handle) \<and>
    (\<forall>r' \<in> set []. publication_of r' \<noteq> Some sample_handle)"
  by (rule wrong_limits_reject [OF sample_ops_ok(1) sample_accepted_run [unfolded sample_node_def],
        where later = "[]" and n' = "snd (node_apply (ObserveAcceptance sample_handle True None) sample_accepted)"])
    (simp_all add: sample_run_defs node_eval exact_limits_def)

text \<open>
  the \<open>expect\<close> calls of the reservation code cannot panic: for providers built by the
  validating constructors, no call and no snapshot in any state of any history panics, and the
  state satisfies the node's invariant (one live listener per relay, live generations the
  latest issued, evidence consistent with the published state).
\<close>

theorem reservation_never_panics:
  assumes "list_all (op_ok C) ops"
    and "node_run ops (relay_reservation_node_new i q) = (rs, n)"
  shows "node_inv C n \<and> no_panic (fst (node_apply op n)) \<and> no_panic (node_snapshot n h)"
  using node_run_inv [OF assms] node_apply_no_panic node_snapshot_no_panic by blast

theorem reservation_never_panics_witness:
  "node_inv ref_codec sample_accepted \<and> no_panic (fst (node_apply sample_publish_op sample_accepted)) \<and>
    no_panic (node_snapshot sample_accepted sample_handle)"
  by (rule reservation_never_panics [OF sample_ops_ok(1) sample_accepted_run [unfolded sample_node_def]])

text \<open>
  reservations are independent: a call through a handle of one relay leaves the entry and
  the generation of every other relay, and therefore their circuit gates, as they were.
\<close>

theorem reservations_independent:
  assumes "node_apply op n = (r, n')" and "op_handle op = Some h" and "p \<noteq> h_relay_peer_id h"
  shows "map_of (reservations n') p = map_of (reservations n) p \<and>
    source_circuit_allowed n' p = source_circuit_allowed n p"
  using other_relays_unchanged [OF assms]
  by (simp add: source_circuit_allowed_def hm_contains_def)

theorem reservations_independent_witness:
  "map_of (reservations sample_published) (PeerId ''O'') = map_of (reservations sample_accepted) (PeerId ''O'') \<and>
    source_circuit_allowed sample_published (PeerId ''O'') = source_circuit_allowed sample_accepted (PeerId ''O'')"
  by (rule reservations_independent [OF sample_publish, of sample_handle])
    (simp_all add: sample_run_defs sample_relay_def)

end
