(* ===== verification/P2p_Error.thy ===== *)
theory P2p_Error
  imports Relay_Provider
begin

text \<open>
  The error type of the P2P crate (\<open>core/auki-p2p/src/error.rs\<close>). A reason that the sources
  obtain by rendering another error with \<open>to_string\<close> keeps that error as a value; errors of
  third-party code (JWT library, transport, I/O) are carried as their rendered text.
\<close>

datatype reason = Msg string | Rendered relay_reservation_error

text \<open>Why a stream could not be opened on a chosen connection (\<open>core/auki-p2p/src/targeted_stream.rs\<close>).\<close>

datatype targeted_stream_error =
    SelectedConnectionClosed string nat
  | SelectedConnectionPeerMismatch string string nat
  | HandlerRouteMismatch string nat string nat
  | NegotiationTimeout string nat string
  | UnsupportedProtocol string nat string
  | TargetedIo string nat string string
  | BehaviourStopped
  | RequestIdsExhausted

datatype (plugins only: code size) p2p_error =
    InvalidIdentityPrivateKey
  | UnsupportedIdentityKeyType
  | IdentityFileNotRegular
  | IdentityFileSymlink
  | IdentityFileTooLarge u64 u64
  | InsecureIdentityFilePermissions u32
  | IdentitySigning string
  | InvalidVerificationKey string
  | InvalidVerificationKeySet string
  | StaleVerificationKeyGeneration u64 u64
  | VerificationKeyGenerationConflict u64
  | VerificationKeyRotationMissingPrevious
  | VerificationKeyOverlapActive
  | VerificationKeysStale
  | InvalidToken string
  | TokenVerification string
  | MissingToken
  | StaleCredential u64 u64
  | CredentialIssuedAtConflict u64
  | CredentialExpirationMismatch u64 u64
  | AuthorityDomainMismatch string string
  | AuthorityPeerMismatch string string
  | InvalidAuthorityExpiration
  | PeerIdMismatch string string
  | RemoteDomainMismatch string
  | LocalDomainMismatch string
  | UnexpectedRemotePeer string string
  | RemoteRejected
  | AuthenticationTimeout
  | TokenFrameTooLarge nat
  | InvalidTokenEncoding
  | InvalidProtocol string
  | ProtocolAlreadyRegistered
  | MissingRemoteAddress
  | InvalidRemoteAddress string string
  | TransportBuild string
  | RuntimeUnavailable
  | ProtocolTask string
  | ApplicationProtocolServerStopped
  | ListenFailed string string
  | OpenStream string
  | TargetedStream targeted_stream_error
  | DialFailed string
  | DnsFailed string
  | SwarmStopped
  | DisconnectFailed string
  | RelayAdmissionFrameTooLarge nat
  | RelayAdmissionMalformed
  | RelayAdmissionDenied
  | RelayAdmissionExpired
  | RelayAdmissionTimeout
  | RelayReservation relay_reservation_error
  | RelayConfirmationRejected relay_confirmation_rejection
  | RelayReservationClosed string
  | RelayDirectConnectionMismatch string string string
  | InvalidRelayRoute string reason
  | MissingExpectedRelayTarget
  | ForeignRelayRoute
  | IoError string
  | CratePanic string

type_synonym 'a p2p_result = "(p2p_error, 'a) result"

end
