(* ===== verification/Route_Validation.thy ===== *)
theory Route_Validation
  imports P2p_Error
begin

text \<open>
  Validation of routes: the circuit and direct route validators of
  \<open>core/auki-p2p/src/routing.rs\<close>, the untrusted dialing hints of \<open>candidate_route.rs\<close> and the
  browser's WSS relay routes of \<open>browser_route.rs\<close>. The lemmas characterise exactly which
  multiaddrs each validator accepts and show that canonical forms are fixed points.
\<close>

section \<open>Circuit and direct routes of the catalog\<close>

datatype route_catalog_error =
    RouteLimitExceeded nat
  | CircuitRouteLimitExceeded nat
  | InvalidDirectRoute string
  | InvalidCatalogRelayRoute reason
  | RelayAuthorizationExpired
  | RelaySlotOccupied
  | StaleRouteFence
  | RouteNotFound
  | DuplicateRelayRoute
  | RevisionExhausted

type_synonym 'a catalog_result = "(route_catalog_error, 'a) result"

record canonical_circuit_route =
  ccr_route :: multiaddr
  ccr_relay_peer_id :: peer_id
  ccr_endpoint_key :: string

text \<open>An error or a panic of the provider calls becomes the reason of the catalog error.\<close>

definition relay_err :: "'a relay_result \<Rightarrow> 'a catalog_result" where
  "relay_err r = map_err (\<lambda>e. InvalidCatalogRelayRoute (Rendered e)) r"

definition invalid_relay :: "string \<Rightarrow> 'a catalog_result" where
  "invalid_relay msg = Inl (InvalidCatalogRelayRoute (Msg msg))"

definition canonicalize_circuit_route ::
  "addr_codec \<Rightarrow> multiaddr \<Rightarrow> peer_id \<Rightarrow> canonical_circuit_route catalog_result"
where
  "canonicalize_circuit_route C route expected_target =
     (case route of
        [Dns4 host, Tcp port, P2p relay, P2pCircuit, P2p target] \<Rightarrow>
          if target \<noteq> expected_target then
            invalid_relay ''route target Peer ID does not match the expected node''
          else
            and_then (relay_err (expected_relay_limits_new (duration_from_secs 1) 1)) (\<lambda>limits.
            and_then (relay_err (relay_provider_new C relay [base_text C host port False relay] limits)) (\<lambda>provider.
            and_then (relay_err (selected_base provider)) (\<lambda>canonical_base.
              (case canonical_base of
                 [Dns4 host, Tcp port, P2p _] \<Rightarrow>
                   Inr \<lparr>ccr_route = canonical_base @ [P2pCircuit] @ [P2p target],
                        ccr_relay_peer_id = relay,
                        ccr_endpoint_key =
                          ''/dns4/'' @ host @ ''/tcp/'' @ show_dec (unat port)\<rparr>
               | _ \<Rightarrow> invalid_relay ''canonical relay provider base has unexpected grammar''))))
      | _ \<Rightarrow> invalid_relay ''expected exact dns4/tcp/p2p/p2p-circuit/p2p grammar'')"

definition validate_circuit_route ::
  "addr_codec \<Rightarrow> multiaddr \<Rightarrow> peer_id \<Rightarrow> peer_id \<Rightarrow> (peer_id \<times> string) catalog_result"
where
  "validate_circuit_route C route expected_relay expected_target =
     and_then (canonicalize_circuit_route C route expected_target) (\<lambda>canonical.
       if ccr_relay_peer_id canonical \<noteq> expected_relay then
         invalid_relay ''route relay Peer ID does not match the reservation''
       else if ccr_route canonical \<noteq> route then invalid_relay ''relay route is not canonical''
       else Inr (ccr_relay_peer_id canonical, ccr_endpoint_key canonical))"

definition validate_wss_circuit_route ::
  "addr_codec \<Rightarrow> multiaddr \<Rightarrow> peer_id \<Rightarrow> peer_id \<Rightarrow> string catalog_result"
where
  "validate_wss_circuit_route C route expected_relay expected_target =
     (case ma_pop route of
        (Some (P2p target), base1) \<Rightarrow>
          if target \<noteq> expected_target then
            invalid_relay ''WSS route target Peer ID does not match the expected node''
          else (case ma_pop base1 of
            (Some P2pCircuit, provider_base) \<Rightarrow>
              and_then (relay_err (expected_relay_limits_new (duration_from_secs 1) 1)) (\<lambda>limits.
              and_then (relay_err (relay_provider_new_for_transport C expected_relay
                 [ma_to_string C provider_base] TransportWss limits)) (\<lambda>provider.
              and_then (relay_err (circuit_route_for_transport provider TransportWss target)) (\<lambda>canonical.
                if canonical \<noteq> route then invalid_relay ''WSS relay route is not canonical''
                else and_then (relay_err (selected_base provider)) (\<lambda>base.
                  (case ma_pop base of
                     (Some (P2p _), endpoint) \<Rightarrow> Inr (ma_to_string C endpoint)
                   | _ \<Rightarrow> invalid_relay ''canonical WSS provider base omitted its Peer ID'')))))
          | _ \<Rightarrow> invalid_relay ''WSS route is missing p2p-circuit'')
      | _ \<Rightarrow> invalid_relay ''WSS route is missing its target Peer ID'')"

definition validate_relay_circuit_routes ::
  "addr_codec \<Rightarrow> multiaddr \<Rightarrow> multiaddr \<Rightarrow> peer_id \<Rightarrow> relay_circuit_routes catalog_result"
where
  "validate_relay_circuit_routes C tcp wss expected_target =
     and_then (canonicalize_circuit_route C tcp expected_target) (\<lambda>canonical_tcp.
       if ccr_route canonical_tcp \<noteq> tcp then invalid_relay ''TCP relay route is not canonical''
       else and_then (validate_wss_circuit_route C wss (ccr_relay_peer_id canonical_tcp) expected_target)
         (\<lambda>_. Inr \<lparr>route_tcp = tcp, route_wss = wss\<rparr>))"

fun is_network :: "protocol \<Rightarrow> bool" where
  "is_network (Ip4 _) = True"
| "is_network (Ip6 _) = True"
| "is_network (Dns _) = True"
| "is_network (Dns4 _) = True"
| "is_network (Dns6 _) = True"
| "is_network _ = False"

definition direct_parts :: "multiaddr \<Rightarrow> (protocol \<times> u16 \<times> peer_id option) option" where
  "direct_parts route =
     (case route of
        [network, Tcp port] \<Rightarrow> Some (network, port, None)
      | [network, Tcp port, P2p peer] \<Rightarrow> Some (network, port, Some peer)
      | _ \<Rightarrow> None)"

definition validate_direct_route :: "multiaddr \<Rightarrow> peer_id \<Rightarrow> multiaddr catalog_result" where
  "validate_direct_route route expected_peer =
     (case direct_parts route of
        None \<Rightarrow> Inl (InvalidDirectRoute ''expected exact address/tcp[/p2p] grammar'')
      | Some (network, port, suffix) \<Rightarrow>
          if \<not> is_network network then
            Inl (InvalidDirectRoute ''the address must be ip4, ip6, dns, dns4, or dns6'')
          else if port = 0 then Inl (InvalidDirectRoute ''TCP port must be non-zero'')
          else if suffix \<noteq> None \<and> suffix \<noteq> Some expected_peer then
            Inl (InvalidDirectRoute ''the terminal p2p component must match the expected Peer ID'')
          else Inr (if suffix \<noteq> None then snd (ma_pop route) else route))"

text \<open>\<open>Vec::dedup\<close> removes consecutive repetitions.\<close>

definition sorted_unique_routes :: "addr_codec \<Rightarrow> multiaddr list \<Rightarrow> multiaddr list" where
  "sorted_unique_routes C routes = remdups_adj (sort_key (ma_to_string C) routes)"

definition validate_and_sort_direct_routes ::
  "addr_codec \<Rightarrow> multiaddr list \<Rightarrow> peer_id \<Rightarrow> nat \<Rightarrow> multiaddr list catalog_result"
where
  "validate_and_sort_direct_routes C routes local_peer maximum =
     and_then (collect_results (\<lambda>route. validate_direct_route route local_peer) routes) (\<lambda>routes'.
       let routes'' = sorted_unique_routes C routes'
       in if maximum < length routes'' then Inl (RouteLimitExceeded maximum) else Inr routes'')"

section \<open>Candidate routes\<close>

datatype candidate_route_kind = DirectTcp | RelayTcp | RelayWss

record canonical_candidate_route =
  cand_route :: multiaddr
  cand_kind :: candidate_route_kind

datatype candidate_route_error = TooLong nat nat | InvalidGrammar | TargetPeerMismatch | Unreachable string

definition CANDIDATE_ROUTE_MAX_BYTES :: nat where
  "CANDIDATE_ROUTE_MAX_BYTES = 1024"

definition canonical_dns_host :: "string \<Rightarrow> (candidate_route_error, string) result" where
  "canonical_dns_host raw =
     (let host = strip_suffix_char (CHR ''.'') raw
      in if host = [] then Inl InvalidGrammar else Inr (to_ascii_lowercase host))"

fun canonical_network :: "protocol \<Rightarrow> (candidate_route_error, protocol) result" where
  "canonical_network (Ip4 a) = Inr (Ip4 a)"
| "canonical_network (Ip6 a) = Inr (Ip6 a)"
| "canonical_network (Dns h) = and_then (canonical_dns_host h) (\<lambda>h. Inr (Dns h))"
| "canonical_network (Dns4 h) = and_then (canonical_dns_host h) (\<lambda>h. Inr (Dns4 h))"
| "canonical_network (Dns6 h) = and_then (canonical_dns_host h) (\<lambda>h. Inr (Dns6 h))"
| "canonical_network _ = Inl InvalidGrammar"

definition canonicalize_direct_route ::
  "multiaddr \<Rightarrow> peer_id \<Rightarrow> (candidate_route_error, multiaddr) result"
where
  "canonicalize_direct_route route expected_target =
     (case direct_parts route of
        None \<Rightarrow> Inl InvalidGrammar
      | Some (network, port, target) \<Rightarrow>
          if port = 0 then Inl InvalidGrammar
          else if target \<noteq> None \<and> target \<noteq> Some expected_target then Inl TargetPeerMismatch
          else and_then (canonical_network network) (\<lambda>network. Inr [network, Tcp port]))"

definition relay_kind :: "multiaddr \<Rightarrow> candidate_route_kind option" where
  "relay_kind base =
     (case base of
        [Dns4 _, Tcp _, P2p _] \<Rightarrow> Some RelayTcp
      | [Dns4 _, Tcp _, Wss path, P2p _] \<Rightarrow> if path = ''/'' then Some RelayWss else None
      | _ \<Rightarrow> None)"

definition canonicalize_relay_route ::
  "addr_codec \<Rightarrow> multiaddr \<Rightarrow> peer_id \<Rightarrow> (candidate_route_error, canonical_candidate_route) result"
where
  "canonicalize_relay_route C route expected_target =
     (case ma_pop route of
        (Some (P2p target), base1) \<Rightarrow>
          if target \<noteq> expected_target then Inl TargetPeerMismatch
          else (case ma_pop base1 of
            (Some P2pCircuit, provider_base) \<Rightarrow>
              (case fst (ma_pop provider_base) of
                 Some (P2p relay) \<Rightarrow>
                   and_then (map_err (\<lambda>_. InvalidGrammar)
                     (canonicalize_provider_base C (ma_to_string C provider_base) relay)) (\<lambda>canonical_base.
                   and_then (ok_or InvalidGrammar (relay_kind canonical_base)) (\<lambda>kind.
                     Inr \<lparr>cand_route = canonical_base @ [P2pCircuit] @ [P2p target], cand_kind = kind\<rparr>))
               | _ \<Rightarrow> Inl InvalidGrammar)
          | _ \<Rightarrow> Inl InvalidGrammar)
      | _ \<Rightarrow> Inl InvalidGrammar)"

definition canonicalize_candidate_route ::
  "addr_codec \<Rightarrow> multiaddr \<Rightarrow> peer_id \<Rightarrow> (candidate_route_error, canonical_candidate_route) result"
where
  "canonicalize_candidate_route C route expected_target =
     (if CANDIDATE_ROUTE_MAX_BYTES < ma_encoded_len C route
      then Inl (TooLong (ma_encoded_len C route) CANDIDATE_ROUTE_MAX_BYTES)
      else case canonicalize_direct_route route expected_target of
        Inr r \<Rightarrow> Inr \<lparr>cand_route = r, cand_kind = DirectTcp\<rparr>
      | Inl TargetPeerMismatch \<Rightarrow> Inl TargetPeerMismatch
      | Inl InvalidGrammar \<Rightarrow> canonicalize_relay_route C route expected_target
      | Inl _ \<Rightarrow> Inl (Unreachable ''candidate size is checked before grammar validation''))"

section \<open>Browser relay routes\<close>

record parsed_browser_relay_route =
  br_relay_peer_id :: peer_id
  br_target_peer_id :: peer_id
  br_direct_relay_address :: multiaddr
  br_circuit_dial_address :: multiaddr

definition invalid_browser_route :: "addr_codec \<Rightarrow> multiaddr \<Rightarrow> string \<Rightarrow> 'a p2p_result" where
  "invalid_browser_route C route msg = Inl (InvalidRelayRoute (ma_to_string C route) (Msg msg))"

definition browser_direct_address :: "addr_codec \<Rightarrow> relay_provider \<Rightarrow> multiaddr p2p_result" where
  "browser_direct_address C p =
     and_then (map_err RelayReservation (selected_base p)) (\<lambda>base.
       if rp_selected_transport p \<noteq> TransportWss then
         invalid_browser_route C base ''browser relay reservations require a selected WSS base''
       else (case ma_pop base of
          (Some (P2p peer), direct) \<Rightarrow>
            if peer = rp_relay_peer_id p then Inr direct
            else invalid_browser_route C base ''selected relay base is missing its terminal Peer ID''
        | _ \<Rightarrow> invalid_browser_route C base ''selected relay base is missing its terminal Peer ID''))"

definition parse_browser_relay_route ::
  "addr_codec \<Rightarrow> multiaddr \<Rightarrow> parsed_browser_relay_route p2p_result"
where
  "parse_browser_relay_route C route =
     (case ma_pop route of
        (Some (P2p target), base1) \<Rightarrow>
          (case ma_pop base1 of
             (Some P2pCircuit, base) \<Rightarrow>
               (case fst (ma_pop base) of
                  Some (P2p relay) \<Rightarrow>
                    and_then (map_err (\<lambda>e. InvalidRelayRoute (ma_to_string C route) (Rendered e))
                      (canonicalize_provider_base C (ma_to_string C base) relay)) (\<lambda>canonical.
                    if canonical \<noteq> base \<or> Wss ''/'' \<notin> set canonical then
                      invalid_browser_route C route ''expected one exact canonical WSS relay route''
                    else if canonical @ [P2pCircuit] @ [P2p target] \<noteq> route then
                      invalid_browser_route C route ''route is not in canonical form''
                    else Inr \<lparr>br_relay_peer_id = relay, br_target_peer_id = target,
                      br_direct_relay_address = snd (ma_pop canonical),
                      br_circuit_dial_address = snd (ma_pop route)\<rparr>)
                | _ \<Rightarrow> invalid_browser_route C route ''relay base is missing its Peer ID'')
           | _ \<Rightarrow> invalid_browser_route C route ''route is missing p2p-circuit'')
      | _ \<Rightarrow> invalid_browser_route C route ''route is missing its target Peer ID'')"

definition parse_browser_relay_route_for_peer ::
  "addr_codec \<Rightarrow> multiaddr \<Rightarrow> peer_id \<Rightarrow> parsed_browser_relay_route p2p_result"
where
  "parse_browser_relay_route_for_peer C route expected =
     and_then (parse_browser_relay_route C route) (\<lambda>parsed.
       if br_target_peer_id parsed \<noteq> expected then
         Inl (UnexpectedRemotePeer (peer_to_string C expected) (peer_to_string C (br_target_peer_id parsed)))
       else Inr parsed)"

section \<open>Accepted circuit routes\<close>

definition validation_limits :: expected_relay_limits where
  "validation_limits = \<lparr>limit_duration_seconds = 1, limit_data_bytes = 1\<rparr>"

lemma validation_limits_new [simp]:
  "expected_relay_limits_new (duration_from_secs 1) 1 = Inr validation_limits"
  by (simp add: expected_relay_limits_new_def duration_from_secs_def validation_limits_def)

lemma relay_err_simps [simp]:
  "relay_err (Inr x) = Inr x" "relay_err r = Inr x \<longleftrightarrow> r = Inr x"
  by (cases r; simp add: relay_err_def)+

lemma invalid_relay_neq [simp]: "invalid_relay m \<noteq> Inr x"
  by (simp add: invalid_relay_def)

text \<open>A provider built from a single base holds exactly its canonical form.\<close>

lemma single_provider_Inr:
  "relay_provider_new_for_transport C peer [raw] t limits = Inr p \<longleftrightarrow>
    (\<exists>b. canonicalize_provider_base C raw peer = Inr b \<and> provider_base_transport b = Some t \<and>
      p = \<lparr>rp_relay_peer_id = peer, rp_bases = [b], rp_selected_transport = t,
           rp_expected_limits = limits\<rparr>)"
  by (auto simp: relay_provider_new_Inr list_all2_Cons1)

lemma single_provider_selected [simp]:
  assumes "provider_base_transport b = Some t"
  shows "selected_base \<lparr>rp_relay_peer_id = peer, rp_bases = [b], rp_selected_transport = t,
           rp_expected_limits = limits\<rparr> = Inr b"
    "circuit_route_for_transport \<lparr>rp_relay_peer_id = peer, rp_bases = [b], rp_selected_transport = t,
           rp_expected_limits = limits\<rparr> t target = Inr (b @ [P2pCircuit, P2p target])"
  using assms by (simp_all add: selected_base_def base_for_transport_def circuit_route_for_transport_def)

text \<open>The canonical base that a raw base of one transport stands for.\<close>

lemma canonicalize_typed:
  assumes "codec_ok C" and "canonicalize_provider_base C raw peer = Inr b"
    and "provider_base_transport b = Some t"
  obtains h port where "canonical_host h" "port \<noteq> 0" "b = base_addr h port (t = TransportWss) peer"
  using canonicalize_provider_base_sound [OF assms(1,2)] assms(3) by fastforce

lemma base_addr_shape [simp]:
  "base_addr h port False peer = [Dns4 h, Tcp port, P2p peer]"
  "base_addr h port True peer = [Dns4 h, Tcp port, Wss ''/'', P2p peer]"
  by (simp_all add: base_addr_def)

lemma circuit_route_grammar:
  assumes "canonicalize_circuit_route C route target = Inr c"
  obtains host port relay where "route = [Dns4 host, Tcp port, P2p relay, P2pCircuit, P2p target]"
  using assms unfolding canonicalize_circuit_route_def
  by (auto split: list.splits protocol.splits if_splits)

lemma canonicalize_circuit_route_sound:
  assumes ok: "codec_ok C" and can: "canonicalize_circuit_route C route target = Inr c"
  obtains h port where "canonical_host h" "port \<noteq> 0"
    "c = \<lparr>ccr_route = base_addr h port False (ccr_relay_peer_id c) @ [P2pCircuit, P2p target],
         ccr_relay_peer_id = ccr_relay_peer_id c,
         ccr_endpoint_key = ''/dns4/'' @ h @ ''/tcp/'' @ show_dec (unat port)\<rparr>"
proof -
  obtain host p relay where route: "route = [Dns4 host, Tcp p, P2p relay, P2pCircuit, P2p target]"
    using circuit_route_grammar [OF can] .
  from can obtain b where b: "canonicalize_provider_base C (base_text C host p False relay) relay = Inr b"
      "provider_base_transport b = Some TransportTcp"
    and rest: "(case b of [Dns4 host, Tcp port, P2p _] \<Rightarrow>
                   Inr \<lparr>ccr_route = b @ [P2pCircuit] @ [P2p target],
                        ccr_relay_peer_id = relay,
                        ccr_endpoint_key =
                          ''/dns4/'' @ host @ ''/tcp/'' @ show_dec (unat port)\<rparr>
               | _ \<Rightarrow> invalid_relay ''canonical relay provider base has unexpected grammar'') = Inr c"
    by (auto simp: route canonicalize_circuit_route_def relay_provider_new_def and_then_eq_Inr
        single_provider_Inr)
  obtain h port where h: "canonical_host h" "port \<noteq> 0" "b = base_addr h port False relay"
    using canonicalize_typed [OF ok b] by auto
  with rest that [of h port] show ?thesis by auto
qed

lemma canonicalize_circuit_route_canonical:
  assumes ok: "codec_ok C" and h: "canonical_host h" "port \<noteq> 0"
  shows "canonicalize_circuit_route C (base_addr h port False relay @ [P2pCircuit, P2p target]) target =
    Inr \<lparr>ccr_route = base_addr h port False relay @ [P2pCircuit, P2p target],
         ccr_relay_peer_id = relay,
         ccr_endpoint_key = ''/dns4/'' @ h @ ''/tcp/'' @ show_dec (unat port)\<rparr>"
proof -
  let ?b = "base_addr h port False relay"
  have "relay_provider_new C relay [base_text C h port False relay] validation_limits =
    Inr \<lparr>rp_relay_peer_id = relay, rp_bases = [?b], rp_selected_transport = TransportTcp,
           rp_expected_limits = validation_limits\<rparr>"
    unfolding relay_provider_new_def single_provider_Inr
    using canonicalize_base_text [OF ok h, of False relay] 
    by (simp add: provider_base_transport_base_addr [of h port False relay, simplified])
  then show ?thesis
    using provider_base_transport_base_addr [of h port False relay]
    by (simp add: canonicalize_circuit_route_def)
qed

lemma validate_circuit_route_Inr:
  assumes ok: "codec_ok C"
  shows "validate_circuit_route C route relay target = Inr (r, ep) \<longleftrightarrow>
    r = relay \<and> (\<exists>h port. canonical_host h \<and> port \<noteq> 0 \<and>
      route = base_addr h port False relay @ [P2pCircuit, P2p target] \<and>
      ep = ''/dns4/'' @ h @ ''/tcp/'' @ show_dec (unat port))" (is "?l \<longleftrightarrow> ?r")
proof
  assume ?l
  then obtain c where c: "canonicalize_circuit_route C route target = Inr c"
    "ccr_relay_peer_id c = relay" "ccr_route c = route" "r = relay" "ep = ccr_endpoint_key c"
    by (auto simp: validate_circuit_route_def and_then_eq_Inr split: if_splits)
  obtain h port where h: "canonical_host h" "port \<noteq> 0"
    "c = \<lparr>ccr_route = base_addr h port False (ccr_relay_peer_id c) @ [P2pCircuit, P2p target],
         ccr_relay_peer_id = ccr_relay_peer_id c,
         ccr_endpoint_key = ''/dns4/'' @ h @ ''/tcp/'' @ show_dec (unat port)\<rparr>"
    using canonicalize_circuit_route_sound [OF ok c(1)] .
  have "ccr_route c = base_addr h port False relay @ [P2pCircuit, P2p target]"
    "ccr_endpoint_key c = ''/dns4/'' @ h @ ''/tcp/'' @ show_dec (unat port)"
    using arg_cong [OF h(3), of ccr_route] arg_cong [OF h(3), of ccr_endpoint_key] c(2) by simp_all
  with c h(1,2) show ?r by auto
next
  assume ?r
  then show ?l
    using canonicalize_circuit_route_canonical [OF ok, of _ _ relay target]
    by (auto simp: validate_circuit_route_def simp del: base_addr_shape)
qed

lemma ma_pop_circuit [simp]:
  "ma_pop (b @ [P2pCircuit, P2p target]) = (Some (P2p target), b @ [P2pCircuit])"
  using ma_pop_snoc [of "b @ [P2pCircuit]" "P2p target"] by simp

text \<open>A validator that pops the destination and the circuit marker saw exactly them.\<close>

lemma pop_circuit:
  assumes "ma_pop route = (Some (P2p target), b1)" "ma_pop b1 = (Some P2pCircuit, b)"
  shows "route = b @ [P2pCircuit, P2p target]"
  using assms by (simp add: ma_pop_Some)

lemma base_addr_pop: "ma_pop (base_addr h port wss p) = (Some (P2p p), butlast (base_addr h port wss p))"
  by (simp add: ma_pop_def base_addr_def)

lemma validate_wss_circuit_route_Inr:
  assumes ok: "codec_ok C"
  shows "validate_wss_circuit_route C route relay target = Inr ep \<longleftrightarrow>
    (\<exists>h port. canonical_host h \<and> port \<noteq> 0 \<and>
      route = base_addr h port True relay @ [P2pCircuit, P2p target] \<and>
      ep = ma_to_string C [Dns4 h, Tcp port, Wss ''/''])" (is "?l \<longleftrightarrow> ?r")
proof
  assume l: ?l
  then obtain b1 b where pops: "ma_pop route = (Some (P2p target), b1)" "ma_pop b1 = (Some P2pCircuit, b)"
    unfolding validate_wss_circuit_route_def
    by (auto split: prod.splits option.splits protocol.splits if_splits)
  with l obtain c where c: "canonicalize_provider_base C (ma_to_string C b) relay = Inr c"
      "provider_base_transport c = Some TransportWss"
    and route: "route = c @ [P2pCircuit, P2p target]"
    and ep: "(case ma_pop c of
                     (Some (P2p _), endpoint) \<Rightarrow> Inr (ma_to_string C endpoint)
                   | _ \<Rightarrow> invalid_relay ''canonical WSS provider base omitted its Peer ID'') = Inr ep"
    by (auto simp: validate_wss_circuit_route_def and_then_eq_Inr single_provider_Inr split: if_splits)
  obtain h port where "canonical_host h" "port \<noteq> 0" "c = base_addr h port True relay"
    using canonicalize_typed [OF ok c] by auto
  with route ep show ?r by (auto simp: ma_pop_def)
next
  assume ?r
  then obtain h port where h: "canonical_host h" "port \<noteq> 0"
    and route: "route = base_addr h port True relay @ [P2pCircuit, P2p target]"
    and ep: "ep = ma_to_string C [Dns4 h, Tcp port, Wss ''/'']" by blast
  have "relay_provider_new_for_transport C relay [ma_to_string C (base_addr h port True relay)] TransportWss
      validation_limits = Inr \<lparr>rp_relay_peer_id = relay, rp_bases = [base_addr h port True relay],
        rp_selected_transport = TransportWss, rp_expected_limits = validation_limits\<rparr>"
    using canonicalize_base_text [OF ok h, of True relay] provider_base_transport_base_addr [of h port True relay]
    by (simp add: single_provider_Inr codec_base_to_string [OF ok] del: base_addr_shape)
  then show ?l
    using provider_base_transport_base_addr [of h port True relay]
    by (simp add: validate_wss_circuit_route_def route ep base_addr_pop del: base_addr_shape)
       (simp add: base_addr_def)
qed

lemma validate_relay_circuit_routes_Inr:
  assumes ok: "codec_ok C"
  shows "validate_relay_circuit_routes C tcp wss target = Inr r \<longleftrightarrow>
    (\<exists>relay h1 p1 h2 p2. canonical_host h1 \<and> p1 \<noteq> 0 \<and> canonical_host h2 \<and> p2 \<noteq> 0 \<and>
      tcp = base_addr h1 p1 False relay @ [P2pCircuit, P2p target] \<and>
      wss = base_addr h2 p2 True relay @ [P2pCircuit, P2p target] \<and>
      r = \<lparr>route_tcp = tcp, route_wss = wss\<rparr>)" (is "?l \<longleftrightarrow> ?r")
proof -
  have "?l \<longleftrightarrow> (\<exists>relay ep ep'. validate_circuit_route C tcp relay target = Inr (relay, ep) \<and>
      validate_wss_circuit_route C wss relay target = Inr ep' \<and> r = \<lparr>route_tcp = tcp, route_wss = wss\<rparr>)"
    by (auto simp: validate_relay_circuit_routes_def validate_circuit_route_def and_then_eq_Inr)
  also have "\<dots> \<longleftrightarrow> ?r"
    unfolding validate_circuit_route_Inr [OF ok] validate_wss_circuit_route_Inr [OF ok] by blast
  finally show ?thesis .
qed

section \<open>Accepted direct routes\<close>

lemma direct_parts_Some:
  "direct_parts route = Some (network, port, suffix) \<longleftrightarrow>
    route = [network, Tcp port] @ (case suffix of None \<Rightarrow> [] | Some p \<Rightarrow> [P2p p])"
  by (auto simp: direct_parts_def split: list.splits protocol.splits option.splits)

lemma validate_direct_route_Inr:
  "validate_direct_route route peer = Inr r \<longleftrightarrow>
    (\<exists>network port. is_network network \<and> port \<noteq> 0 \<and> r = [network, Tcp port] \<and>
      (route = r \<or> route = r @ [P2p peer]))" (is "?l \<longleftrightarrow> ?r")
proof
  assume ?l
  then show ?r
    by (auto simp: validate_direct_route_def direct_parts_Some ma_pop_def split: option.splits if_splits)
next
  assume ?r
  then obtain network port where n: "is_network network" "port \<noteq> 0" "r = [network, Tcp port]"
    and route: "route = r \<or> route = r @ [P2p peer]" by blast
  from route show ?l
  proof
    assume "route = r"
    then have "direct_parts route = Some (network, port, None)" by (simp add: direct_parts_Some n)
    with n \<open>route = r\<close> show ?l by (simp add: validate_direct_route_def)
  next
    assume "route = r @ [P2p peer]"
    then have "direct_parts route = Some (network, port, Some peer)" by (simp add: direct_parts_Some n)
    with n \<open>route = r @ [P2p peer]\<close> show ?l by (simp add: validate_direct_route_def ma_pop_def)
  qed
qed

lemma validate_and_sort_direct_routes_Inr:
  assumes "validate_and_sort_direct_routes C routes peer maximum = Inr rs"
  shows "length rs \<le> maximum"
    "set rs = {r. \<exists>route \<in> set routes. validate_direct_route route peer = Inr r}"
proof -
  obtain rs' where rs': "collect_results (\<lambda>route. validate_direct_route route peer) routes = Inr rs'"
    and rs: "rs = sorted_unique_routes C rs'" and len: "length rs \<le> maximum"
    using assms by (auto simp: validate_and_sort_direct_routes_def and_then_eq_Inr Let_def split: if_splits)
  show "length rs \<le> maximum" by fact
  have "list_all2 (\<lambda>route r. validate_direct_route route peer = Inr r) routes rs'"
    using rs' by (simp add: collect_results_Inr)
  then have "set rs' = {r. \<exists>route \<in> set routes. validate_direct_route route peer = Inr r}"
    by (induction rule: list_all2_induct) auto
  then show "set rs = {r. \<exists>route \<in> set routes. validate_direct_route route peer = Inr r}"
    by (simp add: rs sorted_unique_routes_def)
qed

section \<open>Accepted candidate routes\<close>

text \<open>The canonical direct and relay candidates for a destination.\<close>

definition canonical_candidate :: "peer_id \<Rightarrow> canonical_candidate_route \<Rightarrow> bool" where
  "canonical_candidate target c \<longleftrightarrow>
     (case cand_kind c of
        DirectTcp \<Rightarrow> (\<exists>n port. port \<noteq> 0 \<and> is_network n \<and> cand_route c = [n, Tcp port])
      | RelayTcp \<Rightarrow> (\<exists>h port relay. canonical_host h \<and> port \<noteq> 0 \<and>
          cand_route c = base_addr h port False relay @ [P2pCircuit, P2p target])
      | RelayWss \<Rightarrow> (\<exists>h port relay. canonical_host h \<and> port \<noteq> 0 \<and>
          cand_route c = base_addr h port True relay @ [P2pCircuit, P2p target]))"

lemma canonical_network_Inr:
  "canonical_network n = Inr n' \<Longrightarrow> is_network n'"
  by (cases n) (auto simp: and_then_eq_Inr)

lemma canonicalize_direct_route_Inr:
  "canonicalize_direct_route route target = Inr r \<longleftrightarrow>
    (\<exists>n n' port. (route = [n, Tcp port] \<or> route = [n, Tcp port, P2p target]) \<and> port \<noteq> 0 \<and>
      canonical_network n = Inr n' \<and> r = [n', Tcp port])" (is "?l \<longleftrightarrow> ?r")
proof
  assume ?l
  then show ?r
    by (auto simp: canonicalize_direct_route_def direct_parts_Some and_then_eq_Inr
        split: option.splits if_splits)
next
  assume ?r
  then obtain n n' port where "route = [n, Tcp port] \<or> route = [n, Tcp port, P2p target]"
    and n: "port \<noteq> 0" "canonical_network n = Inr n'" "r = [n', Tcp port]" by blast
  then have "direct_parts route = Some (n, port, None) \<or> direct_parts route = Some (n, port, Some target)"
    by (auto simp: direct_parts_Some)
  with n show ?l by (auto simp: canonicalize_direct_route_def)
qed

lemma canonicalize_direct_route_Inl:
  "canonicalize_direct_route route target = Inl e \<Longrightarrow> e = InvalidGrammar \<or> e = TargetPeerMismatch"
proof -
  have "canonical_network n = Inl e \<Longrightarrow> e = InvalidGrammar" for n
    by (cases n) (auto simp: canonical_dns_host_def Let_def and_then_def split: if_splits sum.splits)
  then show "canonicalize_direct_route route target = Inl e \<Longrightarrow> ?thesis"
    by (auto simp: canonicalize_direct_route_def and_then_def split: option.splits if_splits sum.splits)
qed

lemma relay_kind_base_addr [simp]:
  "relay_kind (base_addr h port wss p) = Some (if wss then RelayWss else RelayTcp)"
  by (simp add: relay_kind_def base_addr_def)

lemma canonicalize_relay_route_sound:
  assumes ok: "codec_ok C" and can: "canonicalize_relay_route C route target = Inr c"
  shows "\<exists>h port wss relay. canonical_host h \<and> port \<noteq> 0 \<and>
    c = \<lparr>cand_route = base_addr h port wss relay @ [P2pCircuit, P2p target],
         cand_kind = (if wss then RelayWss else RelayTcp)\<rparr>"
proof -
  from can obtain b relay k raw where b: "canonicalize_provider_base C raw relay = Inr b"
    and k: "relay_kind b = Some k"
    and c: "c = \<lparr>cand_route = b @ [P2pCircuit, P2p target], cand_kind = k\<rparr>"
    unfolding canonicalize_relay_route_def
    by (auto simp: and_then_eq_Inr split: prod.splits option.splits protocol.splits if_splits)
  obtain h port wss where "canonical_host h" "port \<noteq> 0" "b = base_addr h port wss relay"
    using canonicalize_provider_base_sound [OF ok b] by blast
  with k c show ?thesis
    by (intro exI [of _ h] exI [of _ port] exI [of _ wss] exI [of _ relay])
      (auto simp del: base_addr_shape)
qed

lemma canonicalize_relay_route_canonical:
  assumes ok: "codec_ok C" and h: "canonical_host h" "port \<noteq> 0"
  shows "canonicalize_relay_route C (base_addr h port wss relay @ [P2pCircuit, P2p target]) target =
    Inr \<lparr>cand_route = base_addr h port wss relay @ [P2pCircuit, P2p target],
         cand_kind = (if wss then RelayWss else RelayTcp)\<rparr>"
  using canonicalize_base_text [OF ok h, of wss relay]
  by (simp add: canonicalize_relay_route_def base_addr_pop codec_base_to_string [OF ok]
      del: base_addr_shape)

lemma relay_route_not_direct:
  "canonicalize_direct_route (base_addr h port wss relay @ [P2pCircuit, P2p target]) t = Inl InvalidGrammar"
  by (cases wss) (simp_all add: canonicalize_direct_route_def direct_parts_def)

lemma canonicalize_candidate_route_sound:
  assumes ok: "codec_ok C" and can: "canonicalize_candidate_route C route target = Inr c"
  shows "canonical_candidate target c"
proof (cases "canonicalize_direct_route route target")
  case (Inr r)
  with can have c: "c = \<lparr>cand_route = r, cand_kind = DirectTcp\<rparr>"
    by (auto simp: canonicalize_candidate_route_def split: if_splits)
  with Inr show ?thesis
    by (auto simp: canonical_candidate_def canonicalize_direct_route_Inr dest: canonical_network_Inr)
next
  case (Inl e)
  with can have "canonicalize_relay_route C route target = Inr c"
    by (auto simp: canonicalize_candidate_route_def split: if_splits candidate_route_error.splits)
  from canonicalize_relay_route_sound [OF ok this] obtain h port wss relay where
    "canonical_host h" "port \<noteq> 0"
    "c = \<lparr>cand_route = base_addr h port wss relay @ [P2pCircuit, P2p target],
         cand_kind = (if wss then RelayWss else RelayTcp)\<rparr>" by blast
  then show ?thesis
    by (cases wss) (auto simp: canonical_candidate_def)
qed

text \<open>A network component that is already canonical: lower case, no final dot.\<close>

fun settled_network :: "protocol \<Rightarrow> bool" where
  "settled_network (Dns h) = (h \<noteq> [] \<and> last h \<noteq> CHR ''.'' \<and> to_ascii_lowercase h = h)"
| "settled_network (Dns4 h) = (h \<noteq> [] \<and> last h \<noteq> CHR ''.'' \<and> to_ascii_lowercase h = h)"
| "settled_network (Dns6 h) = (h \<noteq> [] \<and> last h \<noteq> CHR ''.'' \<and> to_ascii_lowercase h = h)"
| "settled_network n = is_network n"

lemma canonical_dns_host_fixed:
  "h \<noteq> [] \<Longrightarrow> last h \<noteq> CHR ''.'' \<Longrightarrow> to_ascii_lowercase h = h \<Longrightarrow> canonical_dns_host h = Inr h"
  by (simp add: canonical_dns_host_def strip_suffix_char_def)

lemma canonical_network_fixed: "settled_network n \<Longrightarrow> canonical_network n = Inr n"
  by (cases n) (simp_all add: canonical_dns_host_fixed)

lemma canonical_candidate_fixed:
  assumes ok: "codec_ok C" and can: "canonical_candidate target c"
    and len: "ma_encoded_len C (cand_route c) \<le> CANDIDATE_ROUTE_MAX_BYTES"
    and net: "cand_kind c = DirectTcp \<Longrightarrow> settled_network (hd (cand_route c))"
  shows "canonicalize_candidate_route C (cand_route c) target = Inr c"
proof (cases "cand_kind c")
  case DirectTcp
  with can obtain n port where
    c: "cand_route c = [n, Tcp port]" "port \<noteq> 0" by (auto simp: canonical_candidate_def)
  with net DirectTcp have "canonicalize_direct_route (cand_route c) target = Inr (cand_route c)"
    by (auto simp: canonicalize_direct_route_Inr canonical_network_fixed)
  moreover have "c = \<lparr>cand_route = cand_route c, cand_kind = DirectTcp\<rparr>"
    using DirectTcp by simp
  ultimately show ?thesis
    using len by (simp add: canonicalize_candidate_route_def)
next
  case RelayTcp
  with can obtain h port relay where
    c: "cand_route c = base_addr h port False relay @ [P2pCircuit, P2p target]"
    and h: "canonical_host h" "port \<noteq> 0" by (auto simp: canonical_candidate_def)
  then show ?thesis
    using len canonicalize_relay_route_canonical [OF ok h, of False] relay_route_not_direct [of h port False]
      RelayTcp
    by (simp add: canonicalize_candidate_route_def del: base_addr_shape)
next
  case RelayWss
  with can obtain h port relay where
    c: "cand_route c = base_addr h port True relay @ [P2pCircuit, P2p target]"
    and h: "canonical_host h" "port \<noteq> 0" by (auto simp: canonical_candidate_def)
  then show ?thesis
    using len canonicalize_relay_route_canonical [OF ok h, of True] relay_route_not_direct [of h port True]
      RelayWss
    by (simp add: canonicalize_candidate_route_def del: base_addr_shape)
qed

lemma canonicalize_candidate_route_idem:
  assumes "codec_ok C" "canonicalize_candidate_route C route target = Inr c"
    and "ma_encoded_len C (cand_route c) \<le> CANDIDATE_ROUTE_MAX_BYTES"
    and "cand_kind c = DirectTcp \<Longrightarrow> settled_network (hd (cand_route c))"
  shows "canonicalize_candidate_route C (cand_route c) target = Inr c"
  using canonical_candidate_fixed [OF assms(1) canonicalize_candidate_route_sound [OF assms(1,2)] assms(3,4)] .

section \<open>Accepted browser routes\<close>

lemma parse_browser_relay_route_Inr:
  assumes ok: "codec_ok C"
  shows "parse_browser_relay_route C route = Inr p \<longleftrightarrow>
    (\<exists>h port. canonical_host h \<and> port \<noteq> 0 \<and>
      route = base_addr h port True (br_relay_peer_id p) @ [P2pCircuit, P2p (br_target_peer_id p)] \<and>
      br_direct_relay_address p = [Dns4 h, Tcp port, Wss ''/''] \<and>
      br_circuit_dial_address p = base_addr h port True (br_relay_peer_id p) @ [P2pCircuit])"
  (is "?l \<longleftrightarrow> ?r")
proof
  assume l: ?l
  then obtain target b1 b relay where pops: "ma_pop route = (Some (P2p target), b1)"
      "ma_pop b1 = (Some P2pCircuit, b)" "fst (ma_pop b) = Some (P2p relay)"
    unfolding parse_browser_relay_route_def
    by (auto simp: invalid_browser_route_def split: prod.splits option.splits protocol.splits)
  with l have b: "canonicalize_provider_base C (ma_to_string C b) relay = Inr b"
    and wss: "Wss ''/'' \<in> set b"
    and p: "p = \<lparr>br_relay_peer_id = relay, br_target_peer_id = target,
      br_direct_relay_address = snd (ma_pop b), br_circuit_dial_address = snd (ma_pop route)\<rparr>"
    by (auto simp: parse_browser_relay_route_def and_then_eq_Inr invalid_browser_route_def
        split: if_splits)
  have route: "route = b @ [P2pCircuit, P2p target]"
    using pop_circuit [OF pops(1,2)] .
  obtain h port w where h: "canonical_host h" "port \<noteq> 0" "b = base_addr h port w relay"
    using canonicalize_provider_base_sound [OF ok b] by blast
  with wss have "b = base_addr h port True relay" by (cases w) auto
  with h(1,2) p show ?r by (auto simp: route ma_pop_def)
next
  assume ?r
  then obtain h port where h: "canonical_host h" "port \<noteq> 0"
    and route: "route = base_addr h port True (br_relay_peer_id p) @ [P2pCircuit, P2p (br_target_peer_id p)]"
    and p: "br_direct_relay_address p = [Dns4 h, Tcp port, Wss ''/'']"
      "br_circuit_dial_address p = base_addr h port True (br_relay_peer_id p) @ [P2pCircuit]" by blast
  have "Wss ''/'' \<in> set (base_addr h port True (br_relay_peer_id p))" by simp
  moreover have "butlast (base_addr h port True (br_relay_peer_id p)) = [Dns4 h, Tcp port, Wss ''/'']" by simp
  ultimately show ?l
    using canonicalize_base_text [OF ok h, of True "br_relay_peer_id p"] p
    by (simp add: parse_browser_relay_route_def route base_addr_pop codec_base_to_string [OF ok]
        del: base_addr_shape)
qed

lemma browser_direct_address_ok:
  assumes "provider_ok C p" and "rp_selected_transport p = TransportWss"
  shows "\<exists>h port. canonical_host h \<and> port \<noteq> 0 \<and>
    browser_direct_address C p = Inr [Dns4 h, Tcp port, Wss ''/''] \<and>
    base_addr h port True (rp_relay_peer_id p) \<in> set (rp_bases p)"
proof -
  obtain b where b: "selected_base p = Inr b" "b \<in> set (rp_bases p)"
    "provider_base_transport b = Some TransportWss"
    using selected_base_ok [OF assms(1)] assms(2) by metis
  with assms(1) obtain h port w where "canonical_host h" "port \<noteq> 0"
    and w: "b = base_addr h port w (rp_relay_peer_id p)"
    by (auto simp: provider_ok_def canonical_base_def)
  moreover have "w" using b(3) w by (cases w) (simp_all del: base_addr_shape)
  ultimately show ?thesis
    using b assms(2) by (auto simp: browser_direct_address_def ma_pop_def)
qed

section \<open>Concrete routes\<close>

definition sample_target :: peer_id where
  "sample_target = PeerId ''T''"

definition sample_circuit_tcp :: multiaddr where
  "sample_circuit_tcp = sample_tcp @ [P2pCircuit, P2p sample_target]"

definition sample_circuit_wss :: multiaddr where
  "sample_circuit_wss = sample_wss @ [P2pCircuit, P2p sample_target]"

lemma sample_hosts_canonical: "canonical_host ''relay.auki.net''" "canonical_host ''r.io''"
  by (simp_all add: canonical_host_def fqdn_eval)

lemma sample_circuits:
  "sample_circuit_tcp = base_addr ''relay.auki.net'' 443 False sample_relay @ [P2pCircuit, P2p sample_target]"
  "sample_circuit_wss = base_addr ''r.io'' 443 True sample_relay @ [P2pCircuit, P2p sample_target]"
  by (simp_all add: sample_circuit_tcp_def sample_circuit_wss_def sample_tcp_def sample_wss_def)

lemma sample_pair_valid:
  "validate_relay_circuit_routes ref_codec sample_circuit_tcp sample_circuit_wss sample_target =
    Inr \<lparr>route_tcp = sample_circuit_tcp, route_wss = sample_circuit_wss\<rparr>"
  unfolding validate_relay_circuit_routes_Inr [OF ref_codec_ok] sample_circuits
  using sample_hosts_canonical by fastforce

lemma sample_provider_routes:
  "circuit_routes sample_provider sample_target =
    Inr \<lparr>route_tcp = sample_circuit_tcp, route_wss = sample_circuit_wss\<rparr>"
  by (simp add: circuit_routes_def circuit_route_for_transport_def base_for_transport_def
      sample_provider_def sample_circuit_tcp_def sample_circuit_wss_def
      provider_base_transport_def sample_tcp_def sample_wss_def)

lemma sample_circuit_len: "ma_encoded_len ref_codec sample_circuit_wss \<le> CANDIDATE_ROUTE_MAX_BYTES"
  by (simp add: sample_circuits ref_codec_eval CANDIDATE_ROUTE_MAX_BYTES_def sample_relay_def sample_target_def)

lemma sample_candidate:
  "canonicalize_candidate_route ref_codec sample_circuit_wss sample_target =
    Inr \<lparr>cand_route = sample_circuit_wss, cand_kind = RelayWss\<rparr>"
  using sample_circuit_len canonicalize_relay_route_canonical [OF ref_codec_ok sample_hosts_canonical(2), of 443 True]
    relay_route_not_direct [of "''r.io''" 443 True]
  by (simp add: canonicalize_candidate_route_def sample_circuits del: base_addr_shape)

section \<open>Properties\<close>

text \<open>
  the validator of relay circuit pairs accepts exactly the canonical pairs: a TCP route and
  a WSS route through the same relay, each a canonical provider base (public lower-case FQDN,
  non-zero port) followed by \<open>/p2p-circuit/p2p/<expected target>\<close>. Everything else is refused,
  and the accepted pair is returned unchanged.
\<close>

theorem circuit_pair_validation_exact:
  assumes "codec_ok C"
  shows "validate_relay_circuit_routes C tcp wss target = Inr r \<longleftrightarrow>
    r = \<lparr>route_tcp = tcp, route_wss = wss\<rparr> \<and>
    (\<exists>relay h1 p1 h2 p2. canonical_host h1 \<and> p1 \<noteq> 0 \<and> canonical_host h2 \<and> p2 \<noteq> 0 \<and>
      tcp = base_addr h1 p1 False relay @ [P2pCircuit, P2p target] \<and>
      wss = base_addr h2 p2 True relay @ [P2pCircuit, P2p target])"
  unfolding validate_relay_circuit_routes_Inr [OF assms] by blast

theorem circuit_pair_validation_exact_witness:
  "validate_relay_circuit_routes ref_codec sample_circuit_tcp sample_circuit_wss sample_target =
      Inr \<lparr>route_tcp = sample_circuit_tcp, route_wss = sample_circuit_wss\<rparr> \<longleftrightarrow>
    \<lparr>route_tcp = sample_circuit_tcp, route_wss = sample_circuit_wss\<rparr> =
      \<lparr>route_tcp = sample_circuit_tcp, route_wss = sample_circuit_wss\<rparr> \<and>
    (\<exists>relay h1 p1 h2 p2. canonical_host h1 \<and> p1 \<noteq> 0 \<and> canonical_host h2 \<and> p2 \<noteq> 0 \<and>
      sample_circuit_tcp = base_addr h1 p1 False relay @ [P2pCircuit, P2p sample_target] \<and>
      sample_circuit_wss = base_addr h2 p2 True relay @ [P2pCircuit, P2p sample_target])"
  by (rule circuit_pair_validation_exact [OF ref_codec_ok])

text \<open>
  the two halves of the crate agree on circuit routes: the pair that a dual-transport
  provider derives for a destination always passes the validator of circuit pairs for that
  destination.
\<close>

theorem provider_circuits_validate:
  assumes ok: "codec_ok C"
    and new: "relay_provider_new_dual_transport C peer raws t limits = Inr p"
    and routes: "circuit_routes p target = Inr r"
  shows "validate_relay_circuit_routes C (route_tcp r) (route_wss r) target = Inr r"
proof -
  have p: "relay_provider_new_for_transport C peer raws t limits = Inr p"
    using new by (auto simp: relay_provider_new_dual_transport_def and_then_eq_Inr split: if_splits)
  have can: "\<exists>h port. canonical_host h \<and> port \<noteq> 0 \<and> b = base_addr h port (tr = TransportWss) peer"
    if "base_for_transport p tr = Some b" for tr b
  proof -
    have "b \<in> set (rp_bases p)" "provider_base_transport b = Some tr"
      using that by (auto simp: base_for_transport_def find_Some_iff)
    then obtain h port w where "canonical_host h" "port \<noteq> 0" "b = base_addr h port w peer"
      "provider_base_transport b = Some tr"
      using relay_provider_new_ok(1,2) [OF ok p] by (auto simp: provider_ok_def canonical_base_def)
    then show ?thesis by (cases w) (auto simp: provider_base_transport_def)
  qed
  from routes obtain b1 b2 where "base_for_transport p TransportTcp = Some b1"
    "base_for_transport p TransportWss = Some b2"
    and r: "r = \<lparr>route_tcp = b1 @ [P2pCircuit, P2p target], route_wss = b2 @ [P2pCircuit, P2p target]\<rparr>"
    by (auto simp: circuit_routes_def circuit_route_for_transport_def and_then_eq_Inr)
  with can [of TransportTcp b1] can [of TransportWss b2] show ?thesis
    unfolding validate_relay_circuit_routes_Inr [OF ok] by auto
qed

theorem provider_circuits_validate_witness:
  "validate_relay_circuit_routes ref_codec
     (route_tcp \<lparr>route_tcp = sample_circuit_tcp, route_wss = sample_circuit_wss\<rparr>)
     (route_wss \<lparr>route_tcp = sample_circuit_tcp, route_wss = sample_circuit_wss\<rparr>) sample_target =
    Inr \<lparr>route_tcp = sample_circuit_tcp, route_wss = sample_circuit_wss\<rparr>"
  by (rule provider_circuits_validate [OF ref_codec_ok sample_provider_new(1) sample_provider_routes])

text \<open>
  C29: an untrusted dialing hint is accepted only in canonical form for the expected peer: a
  direct route is a network address with a non-zero TCP port and no Peer ID, a relay route is a
  canonical base followed by \<open>/p2p-circuit/p2p/<expected peer>\<close>; and when the canonical route
  is within the size limit and a direct route's host has no final dot and no upper case,
  canonicalizing it again returns it unchanged.
\<close>

theorem candidate_routes_canonical:
  assumes "codec_ok C" and "canonicalize_candidate_route C route target = Inr c"
  shows "canonical_candidate target c \<and>
    (ma_encoded_len C (cand_route c) \<le> CANDIDATE_ROUTE_MAX_BYTES \<longrightarrow>
     (cand_kind c = DirectTcp \<longrightarrow> settled_network (hd (cand_route c))) \<longrightarrow>
     canonicalize_candidate_route C (cand_route c) target = Inr c)"
  using canonicalize_candidate_route_sound [OF assms] canonicalize_candidate_route_idem [OF assms]
  by blast

theorem candidate_routes_canonical_witness:
  "canonical_candidate sample_target \<lparr>cand_route = sample_circuit_wss, cand_kind = RelayWss\<rparr> \<and>
    canonicalize_candidate_route ref_codec sample_circuit_wss sample_target =
      Inr \<lparr>cand_route = sample_circuit_wss, cand_kind = RelayWss\<rparr>"
  using candidate_routes_canonical [OF ref_codec_ok sample_candidate] sample_circuit_len by simp

text \<open>
  a direct candidate with several final dots is not canonical after one pass: only one dot
  is removed, so that the host \<open>..\<close> is accepted with canonical host \<open>.\<close>, which the same
  function refuses.
\<close>

theorem direct_candidate_final_dots:
  "canonicalize_direct_route [Dns ''..'', Tcp 443] target = Inr [Dns ''.'', Tcp 443] \<and>
    canonicalize_direct_route [Dns ''.'', Tcp 443] target = Inl InvalidGrammar"
  by (simp add: canonicalize_direct_route_def direct_parts_def canonical_dns_host_def
      strip_suffix_char_def to_ascii_lowercase_def ascii_lower_def ascii_defs Let_def)

text \<open>
  the browser runtime accepts exactly the canonical WSS relay routes, and splits an accepted
  route without loss: the direct relay address is the route's base without its Peer ID, the
  circuit address is the route without its destination.
\<close>

theorem browser_routes_exact:
  assumes "codec_ok C"
  shows "parse_browser_relay_route_for_peer C route target = Inr p \<longleftrightarrow>
    br_target_peer_id p = target \<and>
    (\<exists>h port. canonical_host h \<and> port \<noteq> 0 \<and>
      route = br_direct_relay_address p @ [P2p (br_relay_peer_id p), P2pCircuit, P2p target] \<and>
      br_direct_relay_address p = [Dns4 h, Tcp port, Wss ''/''] \<and>
      br_circuit_dial_address p = br_direct_relay_address p @ [P2p (br_relay_peer_id p), P2pCircuit])"
proof -
  have "parse_browser_relay_route_for_peer C route target = Inr p \<longleftrightarrow>
      parse_browser_relay_route C route = Inr p \<and> br_target_peer_id p = target"
    by (auto simp: parse_browser_relay_route_for_peer_def and_then_eq_Inr)
  then show ?thesis
    unfolding parse_browser_relay_route_Inr [OF assms] by auto
qed

theorem browser_routes_exact_witness:
  "parse_browser_relay_route_for_peer ref_codec sample_circuit_wss sample_target =
    Inr \<lparr>br_relay_peer_id = sample_relay, br_target_peer_id = sample_target,
         br_direct_relay_address = [Dns4 ''r.io'', Tcp 443, Wss ''/''],
         br_circuit_dial_address = [Dns4 ''r.io'', Tcp 443, Wss ''/'', P2p sample_relay, P2pCircuit]\<rparr>"
  using sample_hosts_canonical(2) by (simp add: browser_routes_exact [OF ref_codec_ok] sample_circuits)

text \<open>
  validation of a direct route is exact: accepted are the routes \<open><network>/tcp/<port>\<close>
  with a non-zero port, with or without the Peer ID of the expected peer at the end, and the
  result is the route without that Peer ID; in particular a result validates to itself for
  every peer.
\<close>

theorem direct_routes_exact:
  "(validate_direct_route route peer = Inr r \<longleftrightarrow>
    (\<exists>network port. is_network network \<and> port \<noteq> 0 \<and> r = [network, Tcp port] \<and>
      (route = r \<or> route = r @ [P2p peer])))"
  by (rule validate_direct_route_Inr)

end
