(* ===== verification/Route_Catalog.thy ===== *)
theory Route_Catalog
  imports Route_Validation
begin

text \<open>
  The route catalog (\<open>RouteCatalog\<close> in \<open>core/auki-p2p/src/routing.rs\<close>): the direct routes and
  the fenced relay routes a node publishes, under a revision number. The mutex makes every
  method atomic, so a method is a function from the locked state to its result and the state
  it leaves; a failing call may still have expired authorizations, hence the pair. The clock
  reading \<open>now\<close> of a call is an argument (it is taken before the lock, so successive calls
  need not see increasing times). The watch channel is the last status sent.
\<close>

section \<open>State\<close>

record route_fence =
  f_route_id :: uuid
  f_authority_id :: uuid
  f_authority_epoch :: uuid
  f_local_generation :: u64

record confirmed_route =
  cr_fence :: route_fence
  cr_relay_peer_id :: peer_id
  cr_routes :: relay_circuit_routes
  cr_limits :: expected_relay_limits
  cr_authorized_until :: instant

record published_route =
  pr_fence :: route_fence
  pr_relay_peer_id :: peer_id
  pr_routes :: relay_circuit_routes
  pr_limits :: expected_relay_limits
  pr_authorized_until :: instant

record route_snapshot =
  rs_revision :: u64
  rs_direct_routes :: "multiaddr list"
  rs_relay_routes :: "published_route list"

record route_catalog_status =
  st_revision :: u64
  st_direct_route_count :: nat
  st_confirmed_relay_count :: nat

record route_catalog_limits =
  maximum_routes :: nat
  maximum_relay_routes :: nat

record stored_relay_route =
  sr_fence :: route_fence
  sr_relay_peer_id :: peer_id
  sr_endpoints :: "string list"
  sr_routes :: relay_circuit_routes
  sr_limits :: expected_relay_limits
  sr_authorized_until :: instant
  sr_publishable :: bool

record route_state =
  direct_routes :: "multiaddr list"
  relay_routes :: "(uuid, stored_relay_route) btreemap"
  revision :: u64

record route_catalog =
  cat_local_peer_id :: peer_id
  cat_limits :: route_catalog_limits
  cat_state :: route_state
  cat_status :: route_catalog_status

type_synonym 'a catalog_call = "'a catalog_result \<times> route_catalog"

section \<open>Functions of the locked state\<close>

text \<open>The routes that are visible at \<open>now\<close>.\<close>

definition live_at :: "instant \<Rightarrow> stored_relay_route \<Rightarrow> bool" where
  "live_at now r \<longleftrightarrow> sr_publishable r \<and> now < sr_authorized_until r"

definition publishable_relay_count :: "route_state \<Rightarrow> instant \<Rightarrow> nat" where
  "publishable_relay_count s now = length (filter (live_at now) (map snd (relay_routes s)))"

definition route_snapshot_of :: "route_state \<Rightarrow> instant \<Rightarrow> route_snapshot" where
  "route_snapshot_of s now =
     \<lparr>rs_revision = revision s, rs_direct_routes = direct_routes s,
      rs_relay_routes = map (\<lambda>r. \<lparr>pr_fence = sr_fence r, pr_relay_peer_id = sr_relay_peer_id r,
          pr_routes = sr_routes r, pr_limits = sr_limits r,
          pr_authorized_until = sr_authorized_until r\<rparr>)
        (filter (live_at now) (map snd (relay_routes s)))\<rparr>"

definition route_status :: "route_state \<Rightarrow> instant \<Rightarrow> route_catalog_status" where
  "route_status s now =
     \<lparr>st_revision = revision s, st_direct_route_count = length (direct_routes s),
      st_confirmed_relay_count = publishable_relay_count s now\<rparr>"

definition advance_revision :: "nat \<Rightarrow> route_state \<Rightarrow> route_state catalog_result" where
  "advance_revision k s =
     (if 2 ^ 64 \<le> k then Inl RevisionExhausted
      else and_then (ok_or RevisionExhausted (checked_add (revision s) (of_nat k)))
        (\<lambda>rev. Inr (s\<lparr>revision := rev\<rparr>)))"

definition bump_revision :: "route_state \<Rightarrow> route_state catalog_result" where
  "bump_revision s = advance_revision 1 s"

definition expired_at :: "instant \<Rightarrow> stored_relay_route \<Rightarrow> bool" where
  "expired_at now r \<longleftrightarrow> sr_publishable r \<and> sr_authorized_until r \<le> now"

definition withdraw :: "(uuid, stored_relay_route) btreemap \<Rightarrow> uuid \<Rightarrow> (uuid, stored_relay_route) btreemap" where
  "withdraw m route_id =
     (case map_of m route_id of None \<Rightarrow> m
      | Some r \<Rightarrow> bt_insert route_id (r\<lparr>sr_publishable := False\<rparr>) m)"

definition expire_authorizations :: "instant \<Rightarrow> route_state \<Rightarrow> route_state catalog_result" where
  "expire_authorizations now s =
     (let expired = map (\<lambda>r. f_route_id (sr_fence r)) (filter (expired_at now) (map snd (relay_routes s)))
      in and_then (advance_revision (length expired) s) (\<lambda>s'.
           Inr (s'\<lparr>relay_routes := foldl withdraw (relay_routes s') expired\<rparr>)))"

section \<open>The catalog\<close>

definition catalog_from_routes ::
  "peer_id \<Rightarrow> multiaddr list \<Rightarrow> route_catalog_limits \<Rightarrow> instant \<Rightarrow> route_catalog"
where
  "catalog_from_routes local_peer direct limits now =
     (let s = \<lparr>direct_routes = direct, relay_routes = [], revision = (if direct = [] then 0 else 1)\<rparr>
      in \<lparr>cat_local_peer_id = local_peer, cat_limits = limits, cat_state = s,
          cat_status = route_status s now\<rparr>)"

definition catalog_new ::
  "addr_codec \<Rightarrow> peer_id \<Rightarrow> multiaddr list \<Rightarrow> route_catalog_limits \<Rightarrow> instant \<Rightarrow> route_catalog catalog_result"
where
  "catalog_new C local_peer direct limits now =
     and_then (validate_and_sort_direct_routes C direct local_peer (maximum_routes limits))
       (\<lambda>direct. Inr (catalog_from_routes local_peer direct limits now))"

definition catalog_from_unvalidated_routes ::
  "addr_codec \<Rightarrow> peer_id \<Rightarrow> multiaddr list \<Rightarrow> route_catalog_limits \<Rightarrow> instant \<Rightarrow> route_catalog"
where
  "catalog_from_unvalidated_routes C local_peer direct limits now =
     catalog_from_routes local_peer (sorted_unique_routes C direct) limits now"

text \<open>A method that fails after the expiry keeps the expired state; one that succeeds stores the
  new state and sends the status.\<close>

definition keep_state :: "route_state \<Rightarrow> route_catalog \<Rightarrow> route_catalog" where
  "keep_state s c = c\<lparr>cat_state := s\<rparr>"

definition send_status :: "instant \<Rightarrow> route_state \<Rightarrow> route_catalog \<Rightarrow> route_catalog" where
  "send_status now s c = c\<lparr>cat_state := s, cat_status := route_status s now\<rparr>"

definition replace_direct_routes ::
  "addr_codec \<Rightarrow> instant \<Rightarrow> multiaddr list \<Rightarrow> route_catalog \<Rightarrow> u64 catalog_call"
where
  "replace_direct_routes C now routes c =
     (case validate_and_sort_direct_routes C routes (cat_local_peer_id c) (maximum_routes (cat_limits c)) of
        Inl err \<Rightarrow> (Inl err, c)
      | Inr direct \<Rightarrow>
          (case expire_authorizations now (cat_state c) of
             Inl err \<Rightarrow> (Inl err, c)
           | Inr s \<Rightarrow>
               if direct_routes s = direct then (Inr (revision s), keep_state s c)
               else if maximum_routes (cat_limits c) < length direct + publishable_relay_count s now
               then (Inl (RouteLimitExceeded (maximum_routes (cat_limits c))), keep_state s c)
               else (case bump_revision s of
                  Inl err \<Rightarrow> (Inl err, keep_state s c)
                | Inr s' \<Rightarrow>
                    let s'' = s'\<lparr>direct_routes := direct\<rparr>
                    in (Inr (revision s''), send_status now s'' c))))"

text \<open>The check of a confirmed route against the slots in use.\<close>

definition slot_check ::
  "route_catalog_limits \<Rightarrow> route_state \<Rightarrow> confirmed_route \<Rightarrow> peer_id \<Rightarrow> string list \<Rightarrow> unit catalog_result"
where
  "slot_check limits s route relay endpoints =
     (case map_of (relay_routes s) (f_route_id (cr_fence route)) of
        Some existing \<Rightarrow>
          if sr_fence existing \<noteq> cr_fence route \<or> sr_relay_peer_id existing \<noteq> relay \<or>
             sr_endpoints existing \<noteq> endpoints \<or> sr_routes existing \<noteq> cr_routes route \<or>
             sr_limits existing \<noteq> cr_limits route
          then Inl RelaySlotOccupied else Inr ()
      | None \<Rightarrow>
          if maximum_relay_routes limits \<le> length (relay_routes s)
          then Inl (CircuitRouteLimitExceeded (maximum_relay_routes limits))
          else if list_ex (\<lambda>existing. sr_relay_peer_id existing = relay \<or>
                 list_ex (\<lambda>e. e \<in> set endpoints) (sr_endpoints existing)) (map snd (relay_routes s))
          then Inl DuplicateRelayRoute else Inr ())"

definition already_publishable :: "route_state \<Rightarrow> uuid \<Rightarrow> bool" where
  "already_publishable s route_id \<longleftrightarrow>
     (case map_of (relay_routes s) route_id of None \<Rightarrow> False | Some r \<Rightarrow> sr_publishable r)"

definition publish_confirmed ::
  "addr_codec \<Rightarrow> instant \<Rightarrow> confirmed_route \<Rightarrow> route_catalog \<Rightarrow> u64 catalog_call"
where
  "publish_confirmed C now route c =
     (if f_local_generation (cr_fence route) = 0 then
        (invalid_relay ''local generation must be positive'', c)
      else case validate_circuit_route C (route_tcp (cr_routes route)) (cr_relay_peer_id route)
                  (cat_local_peer_id c) of
        Inl err \<Rightarrow> (Inl err, c)
      | Inr (relay, tcp_endpoint) \<Rightarrow>
          (case validate_wss_circuit_route C (route_wss (cr_routes route)) (cr_relay_peer_id route)
                  (cat_local_peer_id c) of
             Inl err \<Rightarrow> (Inl err, c)
           | Inr wss_endpoint \<Rightarrow>
               let endpoints = [tcp_endpoint, wss_endpoint];
                   route_id = f_route_id (cr_fence route)
               in if cr_authorized_until route \<le> now then (Inl RelayAuthorizationExpired, c)
                  else (case expire_authorizations now (cat_state c) of
                     Inl err \<Rightarrow> (Inl err, c)
                   | Inr s \<Rightarrow>
                       (case slot_check (cat_limits c) s route relay endpoints of
                          Inl err \<Rightarrow> (Inl err, keep_state s c)
                        | Inr _ \<Rightarrow>
                            if \<not> already_publishable s route_id \<and>
                               maximum_routes (cat_limits c) <
                                 length (direct_routes s) + publishable_relay_count s now + 1
                            then (Inl (RouteLimitExceeded (maximum_routes (cat_limits c))), keep_state s c)
                            else (case (if \<not> already_publishable s route_id then bump_revision s else Inr s) of
                               Inl err \<Rightarrow> (Inl err, keep_state s c)
                             | Inr s' \<Rightarrow>
                                 let stored = \<lparr>sr_fence = cr_fence route, sr_relay_peer_id = relay,
                                       sr_endpoints = endpoints, sr_routes = cr_routes route,
                                       sr_limits = cr_limits route,
                                       sr_authorized_until = cr_authorized_until route,
                                       sr_publishable = True\<rparr>;
                                     s'' = s'\<lparr>relay_routes := bt_insert route_id stored (relay_routes s')\<rparr>
                                 in (Inr (revision s''), send_status now s'' c))))))"

definition refresh_authorization ::
  "instant \<Rightarrow> route_fence \<Rightarrow> instant \<Rightarrow> route_catalog \<Rightarrow> u64 catalog_call"
where
  "refresh_authorization now fence authorized_until c =
     (case expire_authorizations now (cat_state c) of
        Inl err \<Rightarrow> (Inl err, c)
      | Inr s \<Rightarrow>
          (case map_of (relay_routes s) (f_route_id fence) of
             None \<Rightarrow> (Inl RouteNotFound, keep_state s c)
           | Some entry \<Rightarrow>
               if sr_fence entry \<noteq> fence then (Inl StaleRouteFence, keep_state s c)
               else
                 let should_publish = (now < authorized_until);
                     changed = (sr_publishable entry \<noteq> should_publish)
                 in if should_publish \<and> changed \<and>
                       maximum_routes (cat_limits c) <
                         length (direct_routes s) + publishable_relay_count s now + 1
                    then (Inl (RouteLimitExceeded (maximum_routes (cat_limits c))), keep_state s c)
                    else (case (if changed then bump_revision s else Inr s) of
                       Inl err \<Rightarrow> (Inl err, keep_state s c)
                     | Inr s' \<Rightarrow>
                         let s'' = s'\<lparr>relay_routes := bt_insert (f_route_id fence)
                               (entry\<lparr>sr_authorized_until := authorized_until,
                                      sr_publishable := should_publish\<rparr>) (relay_routes s')\<rparr>
                         in (Inr (revision s''), send_status now s'' c))))"

definition tombstone :: "instant \<Rightarrow> route_fence \<Rightarrow> route_catalog \<Rightarrow> unit catalog_call" where
  "tombstone now fence c =
     (case expire_authorizations now (cat_state c) of
        Inl err \<Rightarrow> (Inl err, c)
      | Inr s \<Rightarrow>
          (case map_of (relay_routes s) (f_route_id fence) of
             None \<Rightarrow> (Inl RouteNotFound, keep_state s c)
           | Some existing \<Rightarrow>
               if sr_fence existing \<noteq> fence then (Inl StaleRouteFence, keep_state s c)
               else (case (if sr_publishable existing then bump_revision s else Inr s) of
                  Inl err \<Rightarrow> (Inl err, keep_state s c)
                | Inr s' \<Rightarrow>
                    let s'' = s'\<lparr>relay_routes := hm_remove (f_route_id fence) (relay_routes s')\<rparr>
                    in (Inr (), send_status now s'' c))))"

definition tombstone_all :: "instant \<Rightarrow> route_catalog \<Rightarrow> route_fence list catalog_call" where
  "tombstone_all now c =
     (case expire_authorizations now (cat_state c) of
        Inl err \<Rightarrow> (Inl err, c)
      | Inr s \<Rightarrow>
          (case advance_revision (length (filter sr_publishable (map snd (relay_routes s)))) s of
             Inl err \<Rightarrow> (Inl err, keep_state s c)
           | Inr s' \<Rightarrow>
               let s'' = s'\<lparr>relay_routes := []\<rparr>
               in (Inr (map sr_fence (map snd (relay_routes s'))), send_status now s'' c)))"

text \<open>\<open>send_if_modified\<close> stores the status when it differs, so the channel holds it afterwards.\<close>

definition catalog_snapshot :: "instant \<Rightarrow> route_catalog \<Rightarrow> route_snapshot catalog_call" where
  "catalog_snapshot now c =
     (case expire_authorizations now (cat_state c) of
        Inl err \<Rightarrow> (Inl err, c)
      | Inr s \<Rightarrow> (Inr (route_snapshot_of s now), send_status now s c))"

definition fence_current :: "route_state \<Rightarrow> instant \<Rightarrow> route_fence \<Rightarrow> bool" where
  "fence_current s now fence \<longleftrightarrow>
     (case map_of (relay_routes s) (f_route_id fence) of None \<Rightarrow> False
      | Some r \<Rightarrow> sr_fence r = fence \<and> sr_publishable r \<and> now < sr_authorized_until r)"

definition commit_if_current ::
  "instant \<Rightarrow> u64 \<Rightarrow> route_fence list \<Rightarrow> (route_snapshot \<Rightarrow> 't) \<Rightarrow> route_catalog \<Rightarrow> 't option catalog_call"
where
  "commit_if_current now expected_revision expected_fences commit c =
     (case expire_authorizations now (cat_state c) of
        Inl err \<Rightarrow> (Inl err, c)
      | Inr s \<Rightarrow>
          if revision s = expected_revision \<and> list_all (fence_current s now) expected_fences
          then (Inr (Some (commit (route_snapshot_of s now))), keep_state s c)
          else (Inr None, keep_state s c))"

definition catalog_status :: "instant \<Rightarrow> route_catalog \<Rightarrow> route_catalog_status catalog_call" where
  "catalog_status now c =
     (case catalog_snapshot now c of (Inl err, c') \<Rightarrow> (Inl err, c')
      | (Inr _, c') \<Rightarrow> (Inr (cat_status c'), c'))"

section \<open>Expiry\<close>

definition expire_entry :: "instant \<Rightarrow> stored_relay_route \<Rightarrow> stored_relay_route" where
  "expire_entry now r = (if expired_at now r then r\<lparr>sr_publishable := False\<rparr> else r)"

definition keyed_by_fence :: "(uuid, stored_relay_route) btreemap \<Rightarrow> bool" where
  "keyed_by_fence m \<longleftrightarrow> bt_ok m \<and> (\<forall>k r. map_of m k = Some r \<longrightarrow> f_route_id (sr_fence r) = k)"

lemma withdraw_get:
  "map_of (withdraw m i) k =
    (if k = i then map_option (\<lambda>r. r\<lparr>sr_publishable := False\<rparr>) (map_of m k) else map_of m k)"
  by (auto simp: withdraw_def bt_insert_get split: option.splits)

lemma withdraw_all_ok: "bt_ok m \<Longrightarrow> bt_ok (foldl withdraw m ids)"
  by (induction ids arbitrary: m) (auto simp: withdraw_def bt_insert_ok split: option.splits)

lemma withdraw_all_get:
  "map_of (foldl withdraw m ids) k =
    (if k \<in> set ids then map_option (\<lambda>r. r\<lparr>sr_publishable := False\<rparr>) (map_of m k) else map_of m k)"
  by (induction ids arbitrary: m) (auto simp: withdraw_get option.map_comp comp_def)

lemma withdraw_expired:
  assumes "keyed_by_fence m"
  shows "foldl withdraw m (map (\<lambda>r. f_route_id (sr_fence r)) (filter (expired_at now) (map snd m))) =
    map_entries (\<lambda>_. expire_entry now) m"
proof (rule bt_eqI)
  let ?ids = "map (\<lambda>r. f_route_id (sr_fence r)) (filter (expired_at now) (map snd m))"
  have ok: "bt_ok m" and key: "\<And>k r. map_of m k = Some r \<Longrightarrow> f_route_id (sr_fence r) = k"
    using assms by (auto simp: keyed_by_fence_def)
  have "k \<in> set ?ids \<longleftrightarrow> expired_at now r" if "map_of m k = Some r" for k r
  proof -
    have "k \<in> set ?ids \<longleftrightarrow> (\<exists>k' r'. map_of m k' = Some r' \<and> expired_at now r' \<and> f_route_id (sr_fence r') = k)"
      using bt.mem_iff [OF ok] by force
    also have "\<dots> \<longleftrightarrow> expired_at now r"
      using key that by (metis option.inject)
    finally show ?thesis .
  qed
  then have "map_of (foldl withdraw m ?ids) k = map_of (map_entries (\<lambda>_. expire_entry now) m) k" for k
    by (cases "map_of m k") (auto simp: withdraw_all_get map_entries_get expire_entry_def)
  then show "map_of (foldl withdraw m ?ids) = map_of (map_entries (\<lambda>_. expire_entry now) m)" ..
qed (use assms in \<open>simp_all add: withdraw_all_ok keyed_by_fence_def\<close>)

lemma advance_revision_Inr:
  assumes "advance_revision k s = Inr s'"
  shows "s' = s\<lparr>revision := revision s'\<rparr>" "unat (revision s') = unat (revision s) + k"
proof -
  from assms have k: "k < 2 ^ 64" and c: "checked_add (revision s) (of_nat k) = Some (revision s')"
    and s': "s' = s\<lparr>revision := revision s'\<rparr>"
    by (auto simp: advance_revision_def and_then_eq_Inr split: if_splits)
  have "unat (of_nat k :: u64) = k"
    using k by (simp add: unat_of_nat take_bit_nat_eq_self)
  with checked_add_unat [OF c] show "unat (revision s') = unat (revision s) + k" by simp
  show "s' = s\<lparr>revision := revision s'\<rparr>" by fact
qed

lemma expire_authorizations_Inr:
  assumes "expire_authorizations now s = Inr s'" and "keyed_by_fence (relay_routes s)"
  shows "direct_routes s' = direct_routes s"
    "relay_routes s' = map_entries (\<lambda>_. expire_entry now) (relay_routes s)"
    "unat (revision s') = unat (revision s) + length (filter (expired_at now) (map snd (relay_routes s)))"
proof -
  let ?ids = "map (\<lambda>r. f_route_id (sr_fence r)) (filter (expired_at now) (map snd (relay_routes s)))"
  from assms(1) obtain s1 where s1: "advance_revision (length ?ids) s = Inr s1"
    and s': "s' = s1\<lparr>relay_routes := foldl withdraw (relay_routes s1) ?ids\<rparr>"
    by (auto simp: expire_authorizations_def Let_def and_then_eq_Inr)
  obtain rev where "s1 = s\<lparr>revision := rev\<rparr>" "unat rev = unat (revision s) + length ?ids"
    using advance_revision_Inr [OF s1] by (metis route_state.select_convs(3) route_state.surjective route_state.update_convs(3))
  then show "direct_routes s' = direct_routes s"
    "relay_routes s' = map_entries (\<lambda>_. expire_entry now) (relay_routes s)"
    "unat (revision s') = unat (revision s) + length (filter (expired_at now) (map snd (relay_routes s)))"
    using withdraw_expired [OF assms(2)] by (simp_all add: s')
qed

section \<open>The invariant of the catalog\<close>

definition pub_count :: "(uuid, stored_relay_route) btreemap \<Rightarrow> nat" where
  "pub_count m = length (filter (\<lambda>kv. sr_publishable (snd kv)) m)"

definition slot_ok :: "addr_codec \<Rightarrow> peer_id \<Rightarrow> stored_relay_route \<Rightarrow> bool" where
  "slot_ok C local_peer r \<longleftrightarrow>
     f_local_generation (sr_fence r) \<noteq> 0 \<and>
     (\<exists>tcp wss. sr_endpoints r = [tcp, wss] \<and>
        validate_circuit_route C (route_tcp (sr_routes r)) (sr_relay_peer_id r) local_peer =
          Inr (sr_relay_peer_id r, tcp) \<and>
        validate_wss_circuit_route C (route_wss (sr_routes r)) (sr_relay_peer_id r) local_peer = Inr wss)"

definition disjoint_slots :: "stored_relay_route \<Rightarrow> stored_relay_route \<Rightarrow> bool" where
  "disjoint_slots r r' \<longleftrightarrow>
     sr_relay_peer_id r \<noteq> sr_relay_peer_id r' \<and> set (sr_endpoints r) \<inter> set (sr_endpoints r') = {}"

definition slots_inv :: "addr_codec \<Rightarrow> peer_id \<Rightarrow> (uuid, stored_relay_route) btreemap \<Rightarrow> bool" where
  "slots_inv C local_peer m \<longleftrightarrow>
     keyed_by_fence m \<and>
     (\<forall>k r. map_of m k = Some r \<longrightarrow> slot_ok C local_peer r) \<and>
     (\<forall>k r k' r'. map_of m k = Some r \<longrightarrow> map_of m k' = Some r' \<longrightarrow> k \<noteq> k' \<longrightarrow> disjoint_slots r r')"

definition state_inv :: "addr_codec \<Rightarrow> peer_id \<Rightarrow> route_catalog_limits \<Rightarrow> route_state \<Rightarrow> bool" where
  "state_inv C local_peer limits s \<longleftrightarrow>
     slots_inv C local_peer (relay_routes s) \<and>
     length (relay_routes s) \<le> maximum_relay_routes limits \<and>
     length (direct_routes s) + pub_count (relay_routes s) \<le> maximum_routes limits"

definition slot_view :: "stored_relay_route \<Rightarrow> route_fence \<times> peer_id \<times> relay_circuit_routes \<times> expected_relay_limits" where
  "slot_view r = (sr_fence r, sr_relay_peer_id r, sr_routes r, sr_limits r)"

definition relay_view :: "(uuid, stored_relay_route) btreemap \<Rightarrow>
    (route_fence \<times> peer_id \<times> relay_circuit_routes \<times> expected_relay_limits) list" where
  "relay_view m = map (slot_view \<circ> snd) (filter (\<lambda>kv. sr_publishable (snd kv)) m)"

text \<open>What the revision stands for: the direct routes and the published relay routes.\<close>

definition published_view :: "route_state \<Rightarrow> multiaddr list \<times>
    (route_fence \<times> peer_id \<times> relay_circuit_routes \<times> expected_relay_limits) list" where
  "published_view s = (direct_routes s, relay_view (relay_routes s))"

definition state_evolves :: "addr_codec \<Rightarrow> peer_id \<Rightarrow> route_catalog_limits \<Rightarrow> route_state \<Rightarrow> route_state \<Rightarrow> bool" where
  "state_evolves C local_peer limits s s' \<longleftrightarrow>
     (state_inv C local_peer limits s \<longrightarrow>
        state_inv C local_peer limits s' \<and> revision s \<le> revision s' \<and>
        (revision s' = revision s \<longrightarrow> published_view s' = published_view s))"

lemma state_evolves_refl [simp]: "state_evolves C p l s s"
  by (simp add: state_evolves_def)

lemma state_evolves_trans:
  assumes "state_evolves C p l s s1" "state_evolves C p l s1 s2"
  shows "state_evolves C p l s s2"
  using assms unfolding state_evolves_def by (metis order_antisym order_trans)

text \<open>A change that also raises the revision has to keep the invariant only.\<close>

lemma bumped_evolves:
  assumes "bump_revision s = Inr s1"
    and "state_inv C p l s \<Longrightarrow> state_inv C p l (f s1)" and "revision (f s1) = revision s1"
  shows "state_evolves C p l s (f s1)"
proof -
  have "unat (revision s1) = unat (revision s) + 1"
    using advance_revision_Inr(2) assms(1) unfolding bump_revision_def by blast
  then have "revision s < revision s1" by (simp add: word_less_nat_alt)
  with assms(2,3) show ?thesis by (auto simp: state_evolves_def)
qed

lemma slots_inv_key:
  "slots_inv C p m \<Longrightarrow> bt_ok m" "slots_inv C p m \<Longrightarrow> keyed_by_fence m"
  by (simp_all add: slots_inv_def keyed_by_fence_def)

text \<open>The entries of two slots that differ in nothing but the authorization.\<close>

definition same_slot :: "stored_relay_route \<Rightarrow> stored_relay_route \<Rightarrow> bool" where
  "same_slot r r' \<longleftrightarrow> slot_view r' = slot_view r \<and> sr_endpoints r' = sr_endpoints r"

lemma slots_inv_map_entries:
  assumes "slots_inv C p m" "\<And>k r. map_of m k = Some r \<Longrightarrow> same_slot r (f k r)"
  shows "slots_inv C p (map_entries f m)"
proof -
  have same: "slot_ok C p (f k r) = slot_ok C p r" "sr_fence (f k r) = sr_fence r"
    "disjoint_slots (f k r) r' = disjoint_slots r r'" "disjoint_slots r' (f k r) = disjoint_slots r' r"
    if "map_of m k = Some r" for k r r'
    using assms(2) [OF that]
    by (simp_all add: same_slot_def slot_view_def slot_ok_def disjoint_slots_def)
  show ?thesis
    using assms(1) unfolding slots_inv_def keyed_by_fence_def
    by (auto simp: map_entries_get same)
qed

lemma slots_inv_insert:
  assumes inv: "slots_inv C p m" and r: "slot_ok C p r" "f_route_id (sr_fence r) = k"
    and dis: "\<And>k' r'. map_of m k' = Some r' \<Longrightarrow> k' \<noteq> k \<Longrightarrow> disjoint_slots r r'"
  shows "slots_inv C p (bt_insert k r m)"
proof -
  have sym: "disjoint_slots a b \<Longrightarrow> disjoint_slots b a" for a b
    by (auto simp: disjoint_slots_def)
  show ?thesis
    using inv r dis sym unfolding slots_inv_def keyed_by_fence_def
    by (auto simp: bt_insert_ok bt_insert_get split: if_splits)
qed

lemma slots_inv_delete:
  "slots_inv C p m \<Longrightarrow> slots_inv C p (hm_remove k m)"
  unfolding slots_inv_def keyed_by_fence_def hm_remove_def
  by (auto simp: bt_delete_ok delete_conv' split: if_splits)

lemma pub_count_map_entries:
  assumes "bt_ok m" "\<And>k r. map_of m k = Some r \<Longrightarrow> sr_publishable (f k r) \<Longrightarrow> sr_publishable r"
  shows "pub_count (map_entries f m) \<le> pub_count m"
proof -
  have "length (filter (\<lambda>kv. sr_publishable (snd kv)) (map_entries f xs)) \<le>
      length (filter (\<lambda>kv. sr_publishable (snd kv)) xs)"
    if "\<And>k r. (k, r) \<in> set xs \<Longrightarrow> sr_publishable (f k r) \<Longrightarrow> sr_publishable r" for xs
    using that
  proof (induction xs)
    case (Cons kv xs)
    then show ?case by (cases kv) (force simp: map_entries_def le_SucI)
  qed (simp add: map_entries_def)
  from this [of m] show ?thesis
    using assms(2) unfolding pub_count_def bt.mem_iff [OF assms(1)] by blast
qed

lemma relay_view_map_entries:
  assumes "bt_ok m"
    "\<And>k r. map_of m k = Some r \<Longrightarrow> slot_view (f k r) = slot_view r \<and> sr_publishable (f k r) = sr_publishable r"
  shows "relay_view (map_entries f m) = relay_view m"
proof -
  have "map (slot_view \<circ> snd) (filter (\<lambda>kv. sr_publishable (snd kv)) (map_entries f xs)) =
      map (slot_view \<circ> snd) (filter (\<lambda>kv. sr_publishable (snd kv)) xs)"
    if "\<And>k r. (k, r) \<in> set xs \<Longrightarrow> slot_view (f k r) = slot_view r \<and> sr_publishable (f k r) = sr_publishable r" for xs
    using that by (induction xs) (auto simp: map_entries_def)
  from this [of m] show ?thesis
    using assms(2) unfolding relay_view_def bt.mem_iff [OF assms(1)] by blast
qed

lemma state_inv_revision [simp]: "state_inv C p l (s\<lparr>revision := v\<rparr>) = state_inv C p l s"
  by (simp add: state_inv_def)

lemma expire_entry_same: "same_slot r (expire_entry now r)"
  "sr_publishable (expire_entry now r) \<longleftrightarrow> live_at now r"
  by (auto simp: expire_entry_def same_slot_def slot_view_def live_at_def expired_at_def)

lemma expire_evolves:
  assumes ex: "expire_authorizations now s = Inr s'"
  shows "state_evolves C p l s s'"
proof -
  have "state_inv C p l s' \<and> revision s \<le> revision s' \<and>
      (revision s' = revision s \<longrightarrow> published_view s' = published_view s)" if inv: "state_inv C p l s"
  proof -
    have slots: "slots_inv C p (relay_routes s)" using inv by (simp add: state_inv_def)
    note ok = slots_inv_key [OF slots]
    note e = expire_authorizations_Inr [OF ex ok(2)]
    have "slots_inv C p (relay_routes s')"
      unfolding e(2) by (rule slots_inv_map_entries [OF slots expire_entry_same(1)])
    moreover have "pub_count (relay_routes s') \<le> pub_count (relay_routes s)"
      unfolding e(2) by (rule pub_count_map_entries [OF ok(1)]) (simp add: expire_entry_same live_at_def)
    moreover have "revision s \<le> revision s'"
      using e(3) by (simp add: word_le_nat_alt)
    moreover have "published_view s' = published_view s" if "revision s' = revision s"
    proof -
      have "length (filter (expired_at now) (map snd (relay_routes s))) = 0"
        using e(3) unfolding that by linarith
      then have "\<not> expired_at now r" if "map_of (relay_routes s) k = Some r" for k r
        using map_of_SomeD [OF that] by (force simp: filter_empty_conv simp del: filter_map)
      then have "relay_view (relay_routes s') = relay_view (relay_routes s)"
        unfolding e(2) by (intro relay_view_map_entries [OF ok(1)]) (auto simp: expire_entry_def)
      with e(1) show ?thesis by (simp add: published_view_def)
    qed
    ultimately show ?thesis
      using inv by (auto simp: state_inv_def e(1,2))
  qed
  then show ?thesis by (simp add: state_evolves_def)
qed

lemma expire_live:
  assumes ex: "expire_authorizations now s = Inr s'" and "keyed_by_fence (relay_routes s)"
    and "r \<in> set (map snd (relay_routes s'))"
  shows "live_at now r \<longleftrightarrow> sr_publishable r"
  using assms(3) unfolding expire_authorizations_Inr(2) [OF assms(1,2)]
  by (auto simp: map_entries_def expire_entry_def live_at_def expired_at_def)

lemma publishable_count_expired:
  assumes "expire_authorizations now s = Inr s'" and "keyed_by_fence (relay_routes s)"
  shows "publishable_relay_count s' now = pub_count (relay_routes s')"
proof -
  have "filter (live_at now) (map snd (relay_routes s')) = filter sr_publishable (map snd (relay_routes s'))"
    using expire_live [OF assms] by (intro filter_cong) auto
  then show ?thesis
    by (simp add: publishable_relay_count_def pub_count_def filter_map comp_def)
qed

section \<open>Every method keeps the invariant and the meaning of the revision\<close>

definition catalog_inv :: "addr_codec \<Rightarrow> route_catalog \<Rightarrow> bool" where
  "catalog_inv C c \<longleftrightarrow> state_inv C (cat_local_peer_id c) (cat_limits c) (cat_state c)"

definition catalog_evolves :: "addr_codec \<Rightarrow> route_catalog \<Rightarrow> route_catalog \<Rightarrow> bool" where
  "catalog_evolves C c c' \<longleftrightarrow>
     cat_local_peer_id c' = cat_local_peer_id c \<and> cat_limits c' = cat_limits c \<and>
     state_evolves C (cat_local_peer_id c) (cat_limits c) (cat_state c) (cat_state c')"

lemma keep_evolves:
  "state_evolves C (cat_local_peer_id c) (cat_limits c) (cat_state c) s \<Longrightarrow>
    catalog_evolves C c (keep_state s c)"
  "state_evolves C (cat_local_peer_id c) (cat_limits c) (cat_state c) s \<Longrightarrow>
    catalog_evolves C c (send_status now s c)"
  by (simp_all add: catalog_evolves_def keep_state_def send_status_def)

lemma catalog_evolves_refl: "catalog_evolves C c c"
  by (simp add: catalog_evolves_def)

text \<open>After a successful expiry, the counted routes are the flagged ones.\<close>

lemma after_expire:
  assumes "catalog_inv C c" and "expire_authorizations now (cat_state c) = Inr s"
  shows "state_evolves C (cat_local_peer_id c) (cat_limits c) (cat_state c) s"
    "state_inv C (cat_local_peer_id c) (cat_limits c) s"
    "publishable_relay_count s now = pub_count (relay_routes s)"
proof -
  show ev: "state_evolves C (cat_local_peer_id c) (cat_limits c) (cat_state c) s"
    by (rule expire_evolves [OF assms(2)])
  then show "state_inv C (cat_local_peer_id c) (cat_limits c) s"
    using assms(1) by (simp add: state_evolves_def catalog_inv_def)
  have "keyed_by_fence (relay_routes (cat_state c))"
    using assms(1) slots_inv_key(2) by (auto simp: catalog_inv_def state_inv_def)
  then show "publishable_relay_count s now = pub_count (relay_routes s)"
    by (rule publishable_count_expired [OF assms(2)])
qed

lemma bump_revision_fields:
  assumes "bump_revision s = Inr s'"
  shows "direct_routes s' = direct_routes s" "relay_routes s' = relay_routes s"
proof -
  have "s' = s\<lparr>revision := revision s'\<rparr>"
    using advance_revision_Inr(1) assms unfolding bump_revision_def by blast
  then show "direct_routes s' = direct_routes s" "relay_routes s' = relay_routes s"
    by (metis route_state.select_convs(1) route_state.surjective route_state.update_convs(3),
        metis route_state.select_convs(2) route_state.surjective route_state.update_convs(3))
qed

lemma direct_evolves:
  assumes "bump_revision s = Inr s1"
    and "length direct + pub_count (relay_routes s) \<le> maximum_routes l"
  shows "state_evolves C p l s (s1\<lparr>direct_routes := direct\<rparr>)"
  using assms
  by (intro bumped_evolves [where f = "\<lambda>s. s\<lparr>direct_routes := direct\<rparr>"])
    (auto simp: state_inv_def bump_revision_fields)

lemma pub_count_insert:
  assumes "bt_ok m"
  shows "pub_count (bt_insert k r m) \<le> pub_count m + of_bool (sr_publishable r)"
    "map_of m k = Some r0 \<Longrightarrow> sr_publishable r0 = sr_publishable r \<Longrightarrow> pub_count (bt_insert k r m) = pub_count m"
    "\<not> sr_publishable r \<Longrightarrow> pub_count (bt_insert k r m) \<le> pub_count m"
proof -
  let ?P = "\<lambda>kv. sr_publishable (snd kv)"
  have ins: "pub_count (bt_insert k r m) = length (filter ?P (AList.delete k m)) + of_bool (sr_publishable r)"
    using bt.count_ins [OF assms, of ?P k r] by (simp add: pub_count_def)
  have le: "length (filter ?P (AList.delete k m)) \<le> pub_count m"
    unfolding pub_count_def by (rule count_del_le)
  show "pub_count (bt_insert k r m) \<le> pub_count m + of_bool (sr_publishable r)"
    "\<not> sr_publishable r \<Longrightarrow> pub_count (bt_insert k r m) \<le> pub_count m"
    using ins le by simp_all
  show "pub_count (bt_insert k r m) = pub_count m"
    if "map_of m k = Some r0" "sr_publishable r0 = sr_publishable r"
    using ins bt.count_del [OF assms that(1), of ?P] that(2) by (simp add: pub_count_def)
qed

lemma length_bt_insert:
  assumes "bt_ok m"
  shows "length (bt_insert k r m) = length m + (if map_of m k = None then 1 else 0)"
  using bt.count_ins [OF assms, of "\<lambda>_. True" k r] bt.count_del [OF assms, of k _ "\<lambda>_. True"]
    bt.count_del_fresh [of m k]
  by (cases "map_of m k") auto

text \<open>Storing a slot: a fresh one, or one that replaces an entry of the same slot.\<close>

lemma insert_state_inv:
  assumes inv: "state_inv C p l s" and r: "slot_ok C p r" "f_route_id (sr_fence r) = k"
    and old: "\<And>r0. map_of (relay_routes s) k = Some r0 \<Longrightarrow> same_slot r0 r"
    and fresh: "map_of (relay_routes s) k = None \<Longrightarrow> length (relay_routes s) < maximum_relay_routes l \<and>
      (\<forall>k' r'. map_of (relay_routes s) k' = Some r' \<longrightarrow> disjoint_slots r r')"
    and count: "length (direct_routes s) + pub_count (bt_insert k r (relay_routes s)) \<le> maximum_routes l"
  shows "state_inv C p l (s\<lparr>relay_routes := bt_insert k r (relay_routes s)\<rparr>)"
proof -
  let ?m = "relay_routes s"
  have slots: "slots_inv C p ?m" using inv by (simp add: state_inv_def)
  have "disjoint_slots r r'" if "map_of ?m k' = Some r'" "k' \<noteq> k" for k' r'
  proof (cases "map_of ?m k")
    case (Some r0)
    then have "disjoint_slots r0 r'" using slots that by (auto simp: slots_inv_def)
    with old [OF Some] show ?thesis by (simp add: disjoint_slots_def same_slot_def slot_view_def)
  qed (use fresh that in auto)
  then have "slots_inv C p (bt_insert k r ?m)"
    by (rule slots_inv_insert [OF slots r])
  moreover have "length (bt_insert k r ?m) \<le> maximum_relay_routes l"
    using inv fresh length_bt_insert [OF slots_inv_key(1) [OF slots], of k r]
    by (cases "map_of ?m k") (auto simp: state_inv_def)
  ultimately show ?thesis using count by (simp add: state_inv_def)
qed

lemma replace_slot_evolves:
  assumes k: "map_of (relay_routes s) k = Some r0" and same: "same_slot r0 r"
    and pub: "sr_publishable r = sr_publishable r0"
  shows "state_evolves C p l s (s\<lparr>relay_routes := bt_insert k r (relay_routes s)\<rparr>)"
proof -
  have "state_inv C p l (s\<lparr>relay_routes := bt_insert k r (relay_routes s)\<rparr>) \<and>
      relay_view (bt_insert k r (relay_routes s)) = relay_view (relay_routes s)"
    if inv: "state_inv C p l s"
  proof
    have slots: "slots_inv C p (relay_routes s)" using inv by (simp add: state_inv_def)
    note ok = slots_inv_key(1) [OF slots]
    have r0: "slot_ok C p r0" "f_route_id (sr_fence r0) = k"
      using slots k by (auto simp: slots_inv_def keyed_by_fence_def)
    then have r: "slot_ok C p r" "f_route_id (sr_fence r) = k"
      using same by (auto simp: same_slot_def slot_view_def slot_ok_def)
    show "state_inv C p l (s\<lparr>relay_routes := bt_insert k r (relay_routes s)\<rparr>)"
      using pub_count_insert(2) [OF ok k, of r] pub inv k same
      by (intro insert_state_inv [OF inv r]) (auto simp: state_inv_def)
    show "relay_view (bt_insert k r (relay_routes s)) = relay_view (relay_routes s)"
      unfolding bt_insert_existing [OF ok k]
      using k same pub by (intro relay_view_map_entries [OF ok]) (auto simp: same_slot_def)
  qed
  then show ?thesis by (simp add: state_evolves_def published_view_def)
qed

lemma publish_slot_evolves:
  assumes bump: "bump_revision s = Inr s1" and r: "slot_ok C p r" "f_route_id (sr_fence r) = k"
    and old: "\<And>r0. map_of (relay_routes s) k = Some r0 \<Longrightarrow> same_slot r0 r"
    and fresh: "map_of (relay_routes s) k = None \<Longrightarrow> length (relay_routes s) < maximum_relay_routes l \<and>
      (\<forall>k' r'. map_of (relay_routes s) k' = Some r' \<longrightarrow> disjoint_slots r r')"
    and count: "sr_publishable r \<Longrightarrow> length (direct_routes s) + pub_count (relay_routes s) + 1 \<le> maximum_routes l"
  shows "state_evolves C p l s (s1\<lparr>relay_routes := bt_insert k r (relay_routes s1)\<rparr>)"
proof (rule bumped_evolves [OF bump, where f = "\<lambda>s. s\<lparr>relay_routes := bt_insert k r (relay_routes s)\<rparr>"])
  assume inv: "state_inv C p l s"
  then have ok: "bt_ok (relay_routes s)" using slots_inv_key(1) by (auto simp: state_inv_def)
  note f = bump_revision_fields [OF bump]
  have "length (direct_routes s) + pub_count (bt_insert k r (relay_routes s)) \<le> maximum_routes l"
    using pub_count_insert(1,3) [OF ok, where k = k and r = r] count inv
    by (cases "sr_publishable r") (auto simp: state_inv_def)
  then have "state_inv C p l (s\<lparr>relay_routes := bt_insert k r (relay_routes s)\<rparr>)"
    using inv r old fresh by (intro insert_state_inv)
  then show "state_inv C p l (s1\<lparr>relay_routes := bt_insert k r (relay_routes s1)\<rparr>)"
    by (simp add: state_inv_def f)
qed simp

lemma evolves_after_expire:
  assumes "catalog_inv C c" "expire_authorizations now (cat_state c) = Inr s"
    "state_evolves C (cat_local_peer_id c) (cat_limits c) s s'"
  shows "catalog_evolves C c (keep_state s' c)" "catalog_evolves C c (send_status t s' c)"
  using state_evolves_trans [OF after_expire(1) [OF assms(1,2)] assms(3)] keep_evolves by blast+

lemma replace_direct_routes_evolves:
  assumes inv: "catalog_inv C c" and call: "replace_direct_routes C now routes c = (res, c')"
  shows "catalog_evolves C c c'"
proof (cases "validate_and_sort_direct_routes C routes (cat_local_peer_id c) (maximum_routes (cat_limits c))")
  case (Inl err)
  with call show ?thesis by (simp add: replace_direct_routes_def catalog_evolves_refl)
next
  case (Inr direct)
  show ?thesis
  proof (cases "expire_authorizations now (cat_state c)")
    case (Inl err)
    with Inr call show ?thesis by (simp add: replace_direct_routes_def catalog_evolves_refl)
  next
    case ex: (Inr s)
    note e = after_expire [OF inv ex]
    note ev = evolves_after_expire [OF inv ex]
    show ?thesis
      using Inr ex call e(3) direct_evolves [of s _ direct "cat_limits c" C "cat_local_peer_id c"]
      by (auto simp: replace_direct_routes_def Let_def intro!: ev split: if_splits sum.splits)
  qed
qed

lemma slot_check_Inr:
  assumes "slot_check l s route relay endpoints = Inr u"
  shows "map_of (relay_routes s) (f_route_id (cr_fence route)) = Some r0 \<Longrightarrow>
      slot_view r0 = (cr_fence route, relay, cr_routes route, cr_limits route) \<and> sr_endpoints r0 = endpoints"
    "map_of (relay_routes s) (f_route_id (cr_fence route)) = None \<Longrightarrow>
      length (relay_routes s) < maximum_relay_routes l"
    "map_of (relay_routes s) (f_route_id (cr_fence route)) = None \<Longrightarrow>
      map_of (relay_routes s) k' = Some r' \<Longrightarrow>
      sr_relay_peer_id r' \<noteq> relay \<and> set (sr_endpoints r') \<inter> set endpoints = {}"
  using assms map_of_SomeD [of "relay_routes s" k' r']
  by (auto simp: slot_check_def slot_view_def list_ex_iff split: if_splits)

lemma publish_confirmed_evolves:
  assumes inv: "catalog_inv C c" and call: "publish_confirmed C now route c = (res, c')"
  shows "catalog_evolves C c c'"
proof (cases "c' = c")
  case False
  let ?id = "f_route_id (cr_fence route)"
  from False call obtain tcp relay wss s where gen: "f_local_generation (cr_fence route) \<noteq> 0"
    and tcp: "validate_circuit_route C (route_tcp (cr_routes route)) (cr_relay_peer_id route) (cat_local_peer_id c) =
      Inr (relay, tcp)"
    and wss: "validate_wss_circuit_route C (route_wss (cr_routes route)) (cr_relay_peer_id route) (cat_local_peer_id c) =
      Inr wss"
    and ex: "expire_authorizations now (cat_state c) = Inr s"
    by (auto simp: publish_confirmed_def Let_def split: if_splits sum.splits)
  note e = after_expire [OF inv ex]
  note ev = evolves_after_expire [OF inv ex]
  have relay: "cr_relay_peer_id route = relay"
    using tcp by (auto simp: validate_circuit_route_def and_then_eq_Inr split: if_splits)
  define stored where "stored = \<lparr>sr_fence = cr_fence route, sr_relay_peer_id = relay,
    sr_endpoints = [tcp, wss], sr_routes = cr_routes route, sr_limits = cr_limits route,
    sr_authorized_until = cr_authorized_until route, sr_publishable = True\<rparr>"
  have ok: "slot_ok C (cat_local_peer_id c) stored" "f_route_id (sr_fence stored) = ?id"
    using gen tcp wss relay by (auto simp: slot_ok_def stored_def)
  show ?thesis
  proof (cases "slot_check (cat_limits c) s route relay [tcp, wss]")
    case (Inl err)
    with call gen tcp wss ex show ?thesis
      by (auto simp: publish_confirmed_def Let_def intro!: ev catalog_evolves_refl split: if_splits)
  next
    case (Inr u)
    note sc = slot_check_Inr [OF Inr]
    have same: "same_slot r0 stored" if "map_of (relay_routes s) ?id = Some r0" for r0
      using sc(1) [OF that] by (simp add: same_slot_def slot_view_def stored_def)
    have fresh: "length (relay_routes s) < maximum_relay_routes (cat_limits c) \<and>
        (\<forall>k' r'. map_of (relay_routes s) k' = Some r' \<longrightarrow> disjoint_slots stored r')"
      if "map_of (relay_routes s) ?id = None"
      using sc(2,3) [OF that] by (auto simp: disjoint_slots_def stored_def)
    show ?thesis
    proof (cases "already_publishable s ?id")
      case True
      then obtain r0 where r0: "map_of (relay_routes s) ?id = Some r0" "sr_publishable r0"
        by (auto simp: already_publishable_def split: option.splits)
      from call gen tcp wss ex Inr True show ?thesis
        by (auto simp: publish_confirmed_def Let_def stored_def [symmetric] r0 same
            intro!: ev catalog_evolves_refl replace_slot_evolves [OF r0(1)] split: if_splits)
          (simp_all add: stored_def r0)
    next
      case False
      have "catalog_evolves C c (send_status now (s1\<lparr>relay_routes := bt_insert ?id stored (relay_routes s1)\<rparr>) c)"
        if "bump_revision s = Inr s1"
          "length (direct_routes s) + publishable_relay_count s now + 1 \<le> maximum_routes (cat_limits c)" for s1
        using that e(3) by (intro ev publish_slot_evolves [OF that(1) ok same fresh]) auto
      with call gen tcp wss ex Inr False show ?thesis
        by (auto simp: publish_confirmed_def Let_def stored_def [symmetric]
            intro!: ev catalog_evolves_refl split: if_splits sum.splits)
    qed
  qed
qed (simp add: catalog_evolves_refl)

lemma refresh_authorization_evolves:
  assumes inv: "catalog_inv C c" and call: "refresh_authorization now fence until c = (res, c')"
  shows "catalog_evolves C c c'"
proof (cases "expire_authorizations now (cat_state c)")
  case (Inl err)
  with call show ?thesis by (simp add: refresh_authorization_def catalog_evolves_refl)
next
  case ex: (Inr s)
  note e = after_expire [OF inv ex]
  note ev = evolves_after_expire [OF inv ex]
  let ?p = "cat_local_peer_id c" and ?l = "cat_limits c" and ?k = "f_route_id fence"
  show ?thesis
  proof (cases "map_of (relay_routes s) ?k")
    case None
    with ex call show ?thesis by (auto simp: refresh_authorization_def intro!: ev)
  next
    case (Some r0)
    let ?r = "r0\<lparr>sr_authorized_until := until, sr_publishable := (now < until)\<rparr>"
    have same: "same_slot r0 ?r" by (simp add: same_slot_def slot_view_def)
    have r0: "slot_ok C ?p r0" "f_route_id (sr_fence r0) = ?k"
      using e(2) Some by (auto simp: state_inv_def slots_inv_def keyed_by_fence_def)
    then have r: "slot_ok C ?p ?r" "f_route_id (sr_fence ?r) = ?k"
      by (simp_all add: slot_ok_def)
    have changed: "state_evolves C ?p ?l s (s1\<lparr>relay_routes := bt_insert ?k ?r (relay_routes s1)\<rparr>)"
      if "bump_revision s = Inr s1" "now < until \<Longrightarrow>
        length (direct_routes s) + publishable_relay_count s now + 1 \<le> maximum_routes ?l" for s1
      using that e(3) Some same by (intro publish_slot_evolves [OF that(1) r]) auto
    have kept: "state_evolves C ?p ?l s (s\<lparr>relay_routes := bt_insert ?k ?r (relay_routes s)\<rparr>)"
      if "sr_publishable r0 = (now < until)"
      using that by (intro replace_slot_evolves [OF Some same]) simp
    show ?thesis
    proof (cases "sr_publishable r0 = (now < until)")
      case True
      with ex call Some kept show ?thesis
        by (auto simp: refresh_authorization_def Let_def intro!: ev split: if_splits)
    next
      case False
      with ex call Some changed show ?thesis
        by (auto simp: refresh_authorization_def Let_def intro!: ev split: if_splits sum.splits)
    qed
  qed
qed

lemma removed_counts:
  "pub_count (hm_remove k m) \<le> pub_count m" "length (hm_remove k m) \<le> length m"
  using count_del_le [of "\<lambda>_. True" k m] by (simp_all add: pub_count_def hm_remove_def count_del_le)

lemma remove_slot_inv:
  "state_inv C p l s \<Longrightarrow> state_inv C p l (s\<lparr>relay_routes := hm_remove k (relay_routes s)\<rparr>)"
  using removed_counts [of k "relay_routes s"] by (simp add: state_inv_def slots_inv_delete)

lemma remove_slot_evolves:
  assumes "bump_revision s = Inr s1"
  shows "state_evolves C p l s (s1\<lparr>relay_routes := hm_remove k (relay_routes s1)\<rparr>)"
proof (rule bumped_evolves [OF assms, where f = "\<lambda>s. s\<lparr>relay_routes := hm_remove k (relay_routes s)\<rparr>"])
  show "state_inv C p l s \<Longrightarrow> state_inv C p l (s1\<lparr>relay_routes := hm_remove k (relay_routes s1)\<rparr>)"
    using remove_slot_inv [of C p l s k] by (simp add: state_inv_def bump_revision_fields [OF assms])
qed simp

lemma remove_hidden_evolves:
  assumes k: "map_of (relay_routes s) k = Some r" and hidden: "\<not> sr_publishable r"
  shows "state_evolves C p l s (s\<lparr>relay_routes := hm_remove k (relay_routes s)\<rparr>)"
proof -
  have "state_inv C p l (s\<lparr>relay_routes := hm_remove k (relay_routes s)\<rparr>) \<and>
      relay_view (hm_remove k (relay_routes s)) = relay_view (relay_routes s)"
    if inv: "state_inv C p l s"
  proof
    have slots: "slots_inv C p (relay_routes s)" using inv by (simp add: state_inv_def)
    note ok = slots_inv_key(1) [OF slots]
    show "state_inv C p l (s\<lparr>relay_routes := hm_remove k (relay_routes s)\<rparr>)"
      using inv by (rule remove_slot_inv)
    have "\<not> sr_publishable (snd kv)" if "kv \<in> set (relay_routes s)" "fst kv = k" for kv
    proof -
      have "(k, snd kv) \<in> set (relay_routes s)" using that by auto
      then have "snd kv = r" using k bt.mem_iff [OF ok] by simp
      with hidden show ?thesis by simp
    qed
    then have "filter (\<lambda>kv. sr_publishable (snd kv)) (hm_remove k (relay_routes s)) =
        filter (\<lambda>kv. sr_publishable (snd kv)) (relay_routes s)"
      by (auto simp: hm_remove_def AList.delete_eq filter_filter case_prod_beta intro!: filter_cong)
    then show "relay_view (hm_remove k (relay_routes s)) = relay_view (relay_routes s)"
      by (simp add: relay_view_def)
  qed
  then show ?thesis by (simp add: state_evolves_def published_view_def)
qed

lemma tombstone_evolves:
  assumes inv: "catalog_inv C c" and call: "tombstone now fence c = (res, c')"
  shows "catalog_evolves C c c'"
proof (cases "expire_authorizations now (cat_state c)")
  case (Inl err)
  with call show ?thesis by (simp add: tombstone_def catalog_evolves_refl)
next
  case ex: (Inr s)
  note ev = evolves_after_expire [OF inv ex]
  show ?thesis
  proof (cases "map_of (relay_routes s) (f_route_id fence)")
    case None
    with ex call show ?thesis by (auto simp: tombstone_def intro!: ev)
  next
    case (Some r)
    from ex call Some remove_slot_evolves [of s] remove_hidden_evolves [OF Some] show ?thesis
      by (cases "sr_publishable r")
        (auto simp: tombstone_def Let_def intro!: ev split: if_splits sum.splits)
  qed
qed

lemma clear_evolves:
  assumes adv: "advance_revision (length (filter sr_publishable (map snd (relay_routes s)))) s = Inr s1"
  shows "state_evolves C p l s (s1\<lparr>relay_routes := []\<rparr>)"
proof -
  let ?n = "length (filter sr_publishable (map snd (relay_routes s)))"
  have n: "?n = pub_count (relay_routes s)"
    by (simp add: pub_count_def filter_map comp_def)
  have rev: "unat (revision s1) = unat (revision s) + ?n"
    by (rule advance_revision_Inr(2) [OF adv])
  obtain v where s1: "s1 = s\<lparr>revision := v\<rparr>" using advance_revision_Inr(1) [OF adv] by blast
  have "relay_view (relay_routes s) = []" if "revision s1 = revision s"
    using rev n that by (simp add: relay_view_def pub_count_def)
  moreover have "revision s \<le> revision s1" using rev by (simp add: word_le_nat_alt)
  ultimately show ?thesis
    by (auto simp: state_evolves_def state_inv_def slots_inv_def keyed_by_fence_def bt.ok_empty pub_count_def
        published_view_def relay_view_def s1)
qed

lemma tombstone_all_evolves:
  assumes inv: "catalog_inv C c" and call: "tombstone_all now c = (res, c')"
  shows "catalog_evolves C c c'"
proof (cases "expire_authorizations now (cat_state c)")
  case (Inl err)
  with call show ?thesis by (simp add: tombstone_all_def catalog_evolves_refl)
next
  case ex: (Inr s)
  note ev = evolves_after_expire [OF inv ex]
  show ?thesis
  proof (cases "advance_revision (length (filter sr_publishable (map snd (relay_routes s)))) s")
    case (Inl err)
    with ex call show ?thesis by (auto simp: tombstone_all_def intro!: ev)
  next
    case (Inr s1)
    with ex call show ?thesis
      using clear_evolves [OF Inr] by (auto simp: tombstone_all_def Let_def intro!: ev)
  qed
qed

lemma catalog_snapshot_evolves:
  assumes inv: "catalog_inv C c" and call: "catalog_snapshot now c = (res, c')"
  shows "catalog_evolves C c c'"
  using call evolves_after_expire [OF inv]
  by (auto simp: catalog_snapshot_def intro!: catalog_evolves_refl split: sum.splits)

lemma commit_if_current_evolves:
  assumes inv: "catalog_inv C c" and call: "commit_if_current now rv fences f c = (res, c')"
  shows "catalog_evolves C c c'"
  using call evolves_after_expire [OF inv]
  by (auto simp: commit_if_current_def intro!: catalog_evolves_refl split: sum.splits if_splits)

lemma catalog_status_evolves:
  assumes inv: "catalog_inv C c" and call: "catalog_status now c = (res, c')"
  shows "catalog_evolves C c c'"
  using call catalog_snapshot_evolves [OF inv]
  by (auto simp: catalog_status_def split: prod.splits sum.splits)

lemmas catalog_evolutions = replace_direct_routes_evolves publish_confirmed_evolves
  refresh_authorization_evolves tombstone_evolves tombstone_all_evolves catalog_snapshot_evolves
  commit_if_current_evolves catalog_status_evolves

section \<open>Runs\<close>

text \<open>A step is one method call on the shared catalog, by any of its holders.\<close>

inductive catalog_step :: "addr_codec \<Rightarrow> route_catalog \<Rightarrow> route_catalog \<Rightarrow> bool" for C where
  replace: "replace_direct_routes C now routes c = (r1, c') \<Longrightarrow> catalog_step C c c'"
| publish: "publish_confirmed C now route c = (r2, c') \<Longrightarrow> catalog_step C c c'"
| refresh: "refresh_authorization now fence until c = (r3, c') \<Longrightarrow> catalog_step C c c'"
| bury: "tombstone now fence c = (r4, c') \<Longrightarrow> catalog_step C c c'"
| bury_all: "tombstone_all now c = (r5, c') \<Longrightarrow> catalog_step C c c'"
| snapshot: "catalog_snapshot now c = (r6, c') \<Longrightarrow> catalog_step C c c'"
| commit: "commit_if_current now rv fences (\<lambda>_. ()) c = (r7, c') \<Longrightarrow> catalog_step C c c'"
| status: "catalog_status now c = (r8, c') \<Longrightarrow> catalog_step C c c'"

lemma catalog_step_evolves: "catalog_step C c c' \<Longrightarrow> catalog_inv C c \<Longrightarrow> catalog_evolves C c c'"
  by (induction rule: catalog_step.induct) (auto dest: catalog_evolutions)

lemma catalog_evolves_props:
  assumes "catalog_evolves C c c'" "catalog_inv C c"
  shows "catalog_inv C c'" "revision (cat_state c) \<le> revision (cat_state c')"
    "revision (cat_state c') = revision (cat_state c) \<Longrightarrow>
      published_view (cat_state c') = published_view (cat_state c)"
  using assms by (simp_all add: catalog_evolves_def catalog_inv_def state_evolves_def)

interpretation catalog_sys: versioned_system "catalog_step C" "catalog_inv C"
  "\<lambda>c. revision (cat_state c)" "\<lambda>c. published_view (cat_state c)"
  by unfold_locales (blast dest: catalog_step_evolves catalog_evolves_props)+

lemma catalog_new_inv:
  assumes "catalog_new C p direct limits now = Inr c"
  shows "catalog_inv C c" "cat_local_peer_id c = p" "cat_limits c = limits"
  using assms validate_and_sort_direct_routes_Inr(1)
  by (auto simp: catalog_new_def catalog_from_routes_def and_then_eq_Inr Let_def catalog_inv_def
      state_inv_def slots_inv_def keyed_by_fence_def bt.ok_empty pub_count_def)

interpretation catalog_id_sys: invariant_system "catalog_step C"
  "\<lambda>c. catalog_inv C c \<and> cat_local_peer_id c = p \<and> cat_limits c = l"
  by unfold_locales
    (auto dest: catalog_step_evolves catalog_evolves_props(1) simp: catalog_evolves_def)

section \<open>Snapshots\<close>

definition published_route_view :: "published_route \<Rightarrow> route_fence \<times> peer_id \<times> relay_circuit_routes \<times> expected_relay_limits" where
  "published_route_view p = (pr_fence p, pr_relay_peer_id p, pr_routes p, pr_limits p)"

definition snapshot_view :: "route_snapshot \<Rightarrow> multiaddr list \<times>
    (route_fence \<times> peer_id \<times> relay_circuit_routes \<times> expected_relay_limits) list" where
  "snapshot_view snap = (rs_direct_routes snap, map published_route_view (rs_relay_routes snap))"

lemma snapshot_of_view:
  assumes "\<And>r. r \<in> set (map snd (relay_routes s)) \<Longrightarrow> live_at now r \<longleftrightarrow> sr_publishable r"
  shows "snapshot_view (route_snapshot_of s now) = published_view s"
    "p \<in> set (rs_relay_routes (route_snapshot_of s now)) \<Longrightarrow> now < pr_authorized_until p"
proof -
  have "filter (live_at now) (map snd (relay_routes s)) = filter sr_publishable (map snd (relay_routes s))"
    using assms by (intro filter_cong) auto
  then show "snapshot_view (route_snapshot_of s now) = published_view s"
    by (simp add: snapshot_view_def published_view_def relay_view_def route_snapshot_of_def
        published_route_view_def slot_view_def filter_map comp_def)
  show "p \<in> set (rs_relay_routes (route_snapshot_of s now)) \<Longrightarrow> now < pr_authorized_until p"
    by (auto simp: route_snapshot_of_def live_at_def)
qed

lemma catalog_inv_keyed: "catalog_inv C c \<Longrightarrow> keyed_by_fence (relay_routes (cat_state c))"
  using slots_inv_key(2) by (auto simp: catalog_inv_def state_inv_def)

lemma catalog_snapshot_Inr:
  assumes inv: "catalog_inv C c" and snap: "catalog_snapshot now c = (Inr snap, c')"
  shows "snapshot_view snap = published_view (cat_state c')" "rs_revision snap = revision (cat_state c')"
    "p \<in> set (rs_relay_routes snap) \<Longrightarrow> now < pr_authorized_until p"
    "catalog_step C c c'" "catalog_inv C c'"
proof -
  from snap obtain s where ex: "expire_authorizations now (cat_state c) = Inr s"
    and s: "snap = route_snapshot_of s now" "cat_state c' = s"
    by (auto simp: catalog_snapshot_def send_status_def split: sum.splits)
  note live = expire_live [OF ex catalog_inv_keyed [OF inv]]
  show "snapshot_view snap = published_view (cat_state c')"
    "p \<in> set (rs_relay_routes snap) \<Longrightarrow> now < pr_authorized_until p"
    using snapshot_of_view [OF live] by (auto simp: s)
  show "rs_revision snap = revision (cat_state c')"
    by (simp add: s route_snapshot_of_def)
  show st: "catalog_step C c c'" using snap by (rule catalog_step.snapshot)
  then show "catalog_inv C c'" using inv by (rule catalog_sys.step_inv [rotated])
qed

lemma commit_if_current_Some:
  assumes inv: "catalog_inv C c" and com: "commit_if_current now rv fences f c = (Inr (Some x), c')"
  shows "\<exists>snap. x = f snap \<and> snapshot_view snap = published_view (cat_state c') \<and>
    rs_revision snap = rv \<and> revision (cat_state c') = rv \<and>
    (\<forall>p \<in> set (rs_relay_routes snap). now < pr_authorized_until p) \<and>
    set fences \<subseteq> pr_fence ` set (rs_relay_routes snap)"
proof -
  from com obtain s where ex: "expire_authorizations now (cat_state c) = Inr s"
    and s: "x = f (route_snapshot_of s now)" "cat_state c' = s" "revision s = rv"
    and fences: "list_all (fence_current s now) fences"
    by (auto simp: commit_if_current_def keep_state_def split: sum.splits if_splits)
  note live = expire_live [OF ex catalog_inv_keyed [OF inv]]
  have "fence \<in> pr_fence ` set (rs_relay_routes (route_snapshot_of s now))" if fence: "fence \<in> set fences" for fence
  proof -
    from fences fence obtain r where r: "map_of (relay_routes s) (f_route_id fence) = Some r"
      "sr_fence r = fence" "live_at now r"
      by (auto simp: list_all_iff fence_current_def live_at_def split: option.splits)
    have "r \<in> set (map snd (relay_routes s))" using map_of_SomeD [OF r(1)] by force
    with r show ?thesis by (force simp: route_snapshot_of_def)
  qed
  moreover have "snapshot_view (route_snapshot_of s now) = published_view s"
    "\<forall>p \<in> set (rs_relay_routes (route_snapshot_of s now)). now < pr_authorized_until p"
    using snapshot_of_view [OF live] by auto
  ultimately show ?thesis
    using s by (intro exI [of _ "route_snapshot_of s now"]) (auto simp: route_snapshot_of_def)
qed

text \<open>The published routes of a catalog that satisfies the invariant.\<close>

lemma view_member:
  assumes inv: "catalog_inv C c" and v: "v \<in> set (snd (published_view (cat_state c)))"
  obtains k r where "map_of (relay_routes (cat_state c)) k = Some r" "v = slot_view r" "sr_publishable r"
    "slot_ok C (cat_local_peer_id c) r"
proof -
  have slots: "slots_inv C (cat_local_peer_id c) (relay_routes (cat_state c))"
    using inv by (simp add: catalog_inv_def state_inv_def)
  from v obtain kv where "kv \<in> set (relay_routes (cat_state c))" "v = slot_view (snd kv)" "sr_publishable (snd kv)"
    by (auto simp: published_view_def relay_view_def)
  moreover then have "map_of (relay_routes (cat_state c)) (fst kv) = Some (snd kv)"
    using bt.mem_iff [OF slots_inv_key(1) [OF slots]] by (metis prod.collapse)
  ultimately show ?thesis
    using slots by (intro that [of "fst kv" "snd kv"]) (auto simp: slots_inv_def)
qed

lemma view_relays_distinct:
  assumes inv: "catalog_inv C c"
  shows "distinct (map (\<lambda>v. fst (snd v)) (snd (published_view (cat_state c))))"
proof -
  let ?m = "relay_routes (cat_state c)"
  have slots: "slots_inv C (cat_local_peer_id c) ?m"
    using inv by (simp add: catalog_inv_def state_inv_def)
  note ok = slots_inv_key(1) [OF slots]
  have "inj_on (\<lambda>kv. sr_relay_peer_id (snd kv)) (set ?m)"
  proof (rule inj_onI)
    fix x y assume "x \<in> set ?m" "y \<in> set ?m" and eq: "sr_relay_peer_id (snd x) = sr_relay_peer_id (snd y)"
    then have xy: "map_of ?m (fst x) = Some (snd x)" "map_of ?m (fst y) = Some (snd y)"
      using bt.mem_iff [OF ok] by (metis prod.collapse)+
    then have "fst x = fst y"
      using slots eq unfolding slots_inv_def disjoint_slots_def by blast
    with xy show "x = y" by (simp add: prod_eq_iff)
  qed
  then have "inj_on (\<lambda>kv. sr_relay_peer_id (snd kv)) (set (filter (\<lambda>kv. sr_publishable (snd kv)) ?m))"
    by (rule inj_on_subset) auto
  moreover have "distinct (filter (\<lambda>kv. sr_publishable (snd kv)) ?m)"
    using bt.distinct_entries [OF ok] by simp
  ultimately show ?thesis
    by (simp add: published_view_def relay_view_def distinct_map slot_view_def comp_def)
qed

lemma slot_ok_validates:
  assumes "slot_ok C p r"
  shows "validate_relay_circuit_routes C (route_tcp (sr_routes r)) (route_wss (sr_routes r)) p =
    Inr (sr_routes r)"
  using assms
  by (auto simp: slot_ok_def validate_circuit_route_def validate_relay_circuit_routes_def and_then_eq_Inr
      split: if_splits)

text \<open>A state with no expired route is left alone by the expiry.\<close>

lemma expire_nothing:
  assumes "\<And>r. r \<in> set (map snd (relay_routes s)) \<Longrightarrow> \<not> expired_at now r"
  shows "expire_authorizations now s = Inr s"
proof -
  have "filter (expired_at now) (map snd (relay_routes s)) = []"
    using assms by (simp add: filter_empty_conv)
  then show ?thesis
    by (simp add: expire_authorizations_def advance_revision_def del: filter_map)
qed

lemma publish_confirmed_Inr:
  assumes inv: "catalog_inv C c" and call: "publish_confirmed C now route c = (Inr rv, c')"
  shows "\<exists>stored. map_of (relay_routes (cat_state c')) (f_route_id (cr_fence route)) = Some stored \<and>
      sr_fence stored = cr_fence route \<and> sr_relay_peer_id stored = cr_relay_peer_id route \<and>
      sr_routes stored = cr_routes route \<and> sr_limits stored = cr_limits route \<and>
      sr_authorized_until stored = cr_authorized_until route \<and> live_at now stored"
    "rv = revision (cat_state c')"
    "\<And>r. r \<in> set (map snd (relay_routes (cat_state c'))) \<Longrightarrow> \<not> expired_at now r"
proof -
  let ?id = "f_route_id (cr_fence route)"
  from call obtain tcp relay wss s where
    tcp: "validate_circuit_route C (route_tcp (cr_routes route)) (cr_relay_peer_id route) (cat_local_peer_id c) =
      Inr (relay, tcp)"
    and until: "now < cr_authorized_until route"
    and ex: "expire_authorizations now (cat_state c) = Inr s"
    and c': "relay_routes (cat_state c') = bt_insert ?id \<lparr>sr_fence = cr_fence route, sr_relay_peer_id = relay,
       sr_endpoints = [tcp, wss], sr_routes = cr_routes route, sr_limits = cr_limits route,
       sr_authorized_until = cr_authorized_until route, sr_publishable = True\<rparr> (relay_routes s)"
    and rv: "rv = revision (cat_state c')"
    by (auto simp: publish_confirmed_def Let_def send_status_def invalid_relay_def bump_revision_fields(2)
        split: if_splits sum.splits)
  note live = expire_live [OF ex catalog_inv_keyed [OF inv]]
  have relay: "cr_relay_peer_id route = relay"
    using tcp by (auto simp: validate_circuit_route_def and_then_eq_Inr split: if_splits)
  show "\<exists>stored. map_of (relay_routes (cat_state c')) ?id = Some stored \<and>
      sr_fence stored = cr_fence route \<and> sr_relay_peer_id stored = cr_relay_peer_id route \<and>
      sr_routes stored = cr_routes route \<and> sr_limits stored = cr_limits route \<and>
      sr_authorized_until stored = cr_authorized_until route \<and> live_at now stored"
    using until by (simp add: c' bt_insert_get relay live_at_def)
  show "rv = revision (cat_state c')" by (rule rv)
  have ok: "bt_ok (relay_routes s)"
    using after_expire(2) [OF inv ex] slots_inv_key(1) by (auto simp: state_inv_def)
  show "\<not> expired_at now r" if "r \<in> set (map snd (relay_routes (cat_state c')))" for r
  proof -
    from that obtain k where k: "(k, r) \<in> set (relay_routes (cat_state c'))" by auto
    show ?thesis
    proof (cases "(k, r) \<in> set (relay_routes s)")
      case True
      then have "r \<in> set (map snd (relay_routes s))" by force
      from live [OF this] show ?thesis by (auto simp: expired_at_def live_at_def)
    next
      case False
      then show ?thesis
        using k until bt.mem_ins [OF ok] by (auto simp: c' expired_at_def)
    qed
  qed
qed

section \<open>A concrete catalog\<close>

definition sample_catalog_limits :: route_catalog_limits where
  "sample_catalog_limits = \<lparr>maximum_routes = 3, maximum_relay_routes = 2\<rparr>"

definition sample_direct :: multiaddr where
  "sample_direct = [Ip4 1, Tcp 4001]"

definition sample_fence :: route_fence where
  "sample_fence = \<lparr>f_route_id = 5, f_authority_id = 6, f_authority_epoch = 7, f_local_generation = 1\<rparr>"

definition sample_routes :: relay_circuit_routes where
  "sample_routes = \<lparr>route_tcp = sample_circuit_tcp, route_wss = sample_circuit_wss\<rparr>"

definition sample_confirmed :: confirmed_route where
  "sample_confirmed = \<lparr>cr_fence = sample_fence, cr_relay_peer_id = sample_relay,
     cr_routes = sample_routes, cr_limits = sample_limits, cr_authorized_until = 100\<rparr>"

definition sample_catalog :: route_catalog where
  "sample_catalog = catalog_from_routes sample_target [sample_direct] sample_catalog_limits 0"

definition sample_slot :: stored_relay_route where
  "sample_slot = \<lparr>sr_fence = sample_fence, sr_relay_peer_id = sample_relay,
     sr_endpoints = [''/dns4/relay.auki.net/tcp/443'', ''/dns4/r.io/tcp/443/wss''],
     sr_routes = sample_routes, sr_limits = sample_limits, sr_authorized_until = 100,
     sr_publishable = True\<rparr>"

definition sample_filled :: route_catalog where
  "sample_filled = send_status 10 \<lparr>direct_routes = [sample_direct], relay_routes = [(5, sample_slot)],
     revision = 2\<rparr> sample_catalog"

definition sample_snapshot :: route_snapshot where
  "sample_snapshot = \<lparr>rs_revision = 2, rs_direct_routes = [sample_direct],
     rs_relay_routes = [\<lparr>pr_fence = sample_fence, pr_relay_peer_id = sample_relay,
       pr_routes = sample_routes, pr_limits = sample_limits, pr_authorized_until = 100\<rparr>]\<rparr>"

lemmas sample_catalog_defs = sample_catalog_limits_def sample_direct_def sample_fence_def
  sample_confirmed_def sample_catalog_def sample_slot_def sample_filled_def
  sample_snapshot_def catalog_from_routes_def send_status_def

lemma sample_catalog_new:
  "catalog_new ref_codec sample_target [sample_direct] sample_catalog_limits 0 = Inr sample_catalog"
  by (simp add: catalog_new_def validate_and_sort_direct_routes_def validate_direct_route_def direct_parts_def
      sorted_unique_routes_def sample_catalog_defs)

lemma sample_endpoints:
  "validate_circuit_route ref_codec sample_circuit_tcp sample_relay sample_target =
    Inr (sample_relay, ''/dns4/relay.auki.net/tcp/443'')"
  "validate_wss_circuit_route ref_codec sample_circuit_wss sample_relay sample_target =
    Inr ''/dns4/r.io/tcp/443/wss''"
proof -
  show "validate_circuit_route ref_codec sample_circuit_tcp sample_relay sample_target =
    Inr (sample_relay, ''/dns4/relay.auki.net/tcp/443'')"
    unfolding validate_circuit_route_Inr [OF ref_codec_ok] sample_circuits
    using sample_hosts_canonical(1)
    by (intro conjI refl exI [of _ "''relay.auki.net''"] exI [of _ 443]) (simp_all add: dec_eval)
  show "validate_wss_circuit_route ref_codec sample_circuit_wss sample_relay sample_target =
    Inr ''/dns4/r.io/tcp/443/wss''"
    unfolding validate_wss_circuit_route_Inr [OF ref_codec_ok] sample_circuits
    using sample_hosts_canonical(2)
    by (intro conjI refl exI [of _ "''r.io''"] exI [of _ 443]) (simp_all add: ref_codec_eval)
qed

lemmas catalog_eval = expire_authorizations_def advance_revision_def bump_revision_def checked_add_def
  expired_at_def live_at_def publishable_relay_count_def route_status_def withdraw_def
  already_publishable_def slot_check_def keep_state_def Let_def

lemma sample_publish_route:
  "publish_confirmed ref_codec 10 sample_confirmed sample_catalog = (Inr 2, sample_filled)"
  using sample_endpoints
  by (simp add: publish_confirmed_def sample_catalog_defs sample_routes_def catalog_eval)

lemma sample_snapshot_of:
  "catalog_snapshot 10 sample_filled = (Inr sample_snapshot, sample_filled)"
  by (simp add: catalog_snapshot_def route_snapshot_of_def sample_catalog_defs catalog_eval)

lemma sample_run: "(catalog_step ref_codec)\<^sup>*\<^sup>* sample_catalog sample_filled"
  using catalog_step.publish [OF sample_publish_route] by simp

section \<open>Properties\<close>

text \<open>
  C15: the revision identifies the published routes. In every interleaving of calls on a catalog
  built by the validating constructor, with arbitrary clock readings, revisions never decrease
  and two snapshots with the same revision list the same direct routes and the same relay routes
  (fence, relay, circuit pair, limits) in the same order.
\<close>

theorem revision_identifies_routes:
  assumes "catalog_new C p direct limits t0 = Inr c0"
    and "(catalog_step C)\<^sup>*\<^sup>* c0 c1" and "catalog_snapshot now1 c1 = (Inr snap1, c1')"
    and "(catalog_step C)\<^sup>*\<^sup>* c1' c2" and "catalog_snapshot now2 c2 = (Inr snap2, c2')"
  shows "rs_revision snap1 \<le> rs_revision snap2 \<and>
    (rs_revision snap2 = rs_revision snap1 \<longrightarrow> snapshot_view snap2 = snapshot_view snap1)"
proof -
  have "catalog_inv C c1"
    using catalog_new_inv(1) [OF assms(1)] assms(2) by (rule catalog_sys.run_inv [rotated])
  note s1 = catalog_snapshot_Inr [OF this assms(3)]
  have "catalog_inv C c2"
    using s1(5) assms(4) by (rule catalog_sys.run_inv [rotated])
  note s2 = catalog_snapshot_Inr [OF this assms(5)]
  have run: "(catalog_step C)\<^sup>*\<^sup>* c1' c2'"
    using assms(4) s2(4) by (rule rtranclp.rtrancl_into_rtrancl)
  show ?thesis
    unfolding s1(1,2) s2(1,2)
    using catalog_sys.run_rank [OF run s1(5)] catalog_sys.run_view [OF run s1(5)] by blast
qed

text \<open>A refreshed authorization changes the deadline in the snapshot and keeps the revision.\<close>

definition sample_refreshed :: route_catalog where
  "sample_refreshed = send_status 20 \<lparr>direct_routes = [sample_direct],
     relay_routes = [(5, sample_slot\<lparr>sr_authorized_until := 200\<rparr>)], revision = 2\<rparr> sample_catalog"

definition sample_later_snapshot :: route_snapshot where
  "sample_later_snapshot = sample_snapshot\<lparr>rs_relay_routes :=
     [\<lparr>pr_fence = sample_fence, pr_relay_peer_id = sample_relay, pr_routes = sample_routes,
       pr_limits = sample_limits, pr_authorized_until = 200\<rparr>]\<rparr>"

lemma sample_refresh:
  "refresh_authorization 20 sample_fence 200 sample_filled = (Inr 2, sample_refreshed)"
  by (simp add: refresh_authorization_def sample_refreshed_def sample_catalog_defs catalog_eval)

lemma sample_later_snapshot_of:
  "catalog_snapshot 150 sample_refreshed =
    (Inr sample_later_snapshot, send_status 150 (cat_state sample_refreshed) sample_refreshed)"
  by (simp add: catalog_snapshot_def route_snapshot_of_def sample_refreshed_def
      sample_later_snapshot_def sample_catalog_defs catalog_eval)

theorem revision_identifies_routes_witness:
  "rs_revision sample_snapshot \<le> rs_revision sample_later_snapshot \<and>
    snapshot_view sample_later_snapshot = snapshot_view sample_snapshot"
proof -
  have run: "(catalog_step ref_codec)\<^sup>*\<^sup>* sample_filled sample_refreshed"
    using catalog_step.refresh [OF sample_refresh, of ref_codec] by simp
  note T = revision_identifies_routes [OF sample_catalog_new sample_run sample_snapshot_of
      run sample_later_snapshot_of]
  have "rs_revision sample_later_snapshot = rs_revision sample_snapshot"
    by (simp add: sample_later_snapshot_def)
  with T show ?thesis by blast
qed

text \<open>
  C19: a commit is never stale. If a caller takes a snapshot and later, after any calls by others,
  \<open>commit_if_current\<close> runs its commit for that snapshot's revision, then the snapshot handed to
  the commit lists exactly the routes of the caller's snapshot, all of them authorized at the
  time of the commit, and every expected fence is among them.
\<close>

theorem commit_is_current:
  assumes "catalog_new C p direct limits t0 = Inr c0"
    and "(catalog_step C)\<^sup>*\<^sup>* c0 c1" and "catalog_snapshot now1 c1 = (Inr snap1, c1')"
    and "(catalog_step C)\<^sup>*\<^sup>* c1' c2"
    and "commit_if_current now2 (rs_revision snap1) fences (\<lambda>snap. snap) c2 = (Inr (Some snap2), c2')"
  shows "snapshot_view snap2 = snapshot_view snap1 \<and>
    (\<forall>r \<in> set (rs_relay_routes snap2). now2 < pr_authorized_until r) \<and>
    set fences \<subseteq> pr_fence ` set (rs_relay_routes snap2)"
proof -
  have "catalog_inv C c1"
    using catalog_new_inv(1) [OF assms(1)] assms(2) by (rule catalog_sys.run_inv [rotated])
  note s1 = catalog_snapshot_Inr [OF this assms(3)]
  have inv2: "catalog_inv C c2"
    using s1(5) assms(4) by (rule catalog_sys.run_inv [rotated])
  obtain snap where snap: "snap2 = snap" "snapshot_view snap = published_view (cat_state c2')"
      "revision (cat_state c2') = rs_revision snap1"
      "\<forall>r \<in> set (rs_relay_routes snap). now2 < pr_authorized_until r"
      "set fences \<subseteq> pr_fence ` set (rs_relay_routes snap)"
    using commit_if_current_Some [OF inv2 assms(5)] by blast
  have "catalog_evolves C c2 c2'"
    by (rule commit_if_current_evolves [OF inv2 assms(5)])
  note e = catalog_evolves_props [OF this inv2]
  have rev: "revision (cat_state c1') \<le> revision (cat_state c2)"
    by (rule catalog_sys.run_rank [OF assms(4) s1(5)])
  have "revision (cat_state c2) = revision (cat_state c1')" "revision (cat_state c2') = revision (cat_state c2)"
    using rev e(2) snap(3) s1(2) by auto
  then have "published_view (cat_state c2') = published_view (cat_state c1')"
    using e(3) catalog_sys.run_view [OF assms(4) s1(5)] by simp
  with snap s1(1) show ?thesis by simp
qed

lemma sample_commit:
  "commit_if_current 20 (rs_revision sample_snapshot) [sample_fence] (\<lambda>snap. snap) sample_filled =
    (Inr (Some sample_snapshot), sample_filled)"
  by (simp add: commit_if_current_def fence_current_def route_snapshot_of_def sample_catalog_defs catalog_eval)

theorem commit_is_current_witness:
  "snapshot_view sample_snapshot = snapshot_view sample_snapshot \<and>
    20 < pr_authorized_until (hd (rs_relay_routes sample_snapshot)) \<and>
    set [sample_fence] \<subseteq> pr_fence ` set (rs_relay_routes sample_snapshot)"
proof -
  note T = commit_is_current [OF sample_catalog_new sample_run sample_snapshot_of
      rtranclp.rtrancl_refl sample_commit]
  have "hd (rs_relay_routes sample_snapshot) \<in> set (rs_relay_routes sample_snapshot)"
    by (simp add: sample_snapshot_def)
  with T show ?thesis by blast
qed

text \<open>
  C27: what a catalog publishes is bounded and well formed. In every reachable state, a snapshot
  holds at most the configured number of routes and of relay routes, no two relay routes share
  a relay, every relay route is an authorized, validated circuit pair to the local peer, with a
  fence whose local generation is not zero.
\<close>

theorem snapshots_well_formed:
  assumes new: "catalog_new C p direct limits t0 = Inr c0"
    and run: "(catalog_step C)\<^sup>*\<^sup>* c0 c" and snap: "catalog_snapshot now c = (Inr s, c')"
  shows "length (rs_direct_routes s) + length (rs_relay_routes s) \<le> maximum_routes limits \<and>
    length (rs_relay_routes s) \<le> maximum_relay_routes limits \<and>
    distinct (map pr_relay_peer_id (rs_relay_routes s)) \<and>
    (\<forall>r \<in> set (rs_relay_routes s). now < pr_authorized_until r \<and>
      f_local_generation (pr_fence r) \<noteq> 0 \<and>
      validate_relay_circuit_routes C (route_tcp (pr_routes r)) (route_wss (pr_routes r)) p = Inr (pr_routes r))"
proof -
  have inv: "catalog_inv C c" and cp: "cat_local_peer_id c = p" "cat_limits c = limits"
    using catalog_id_sys.run_inv [OF run] catalog_new_inv [OF new] by blast+
  note s = catalog_snapshot_Inr [OF inv snap]
  have cp': "cat_local_peer_id c' = p" "cat_limits c' = limits"
    using catalog_step_evolves [OF s(4) inv] cp by (simp_all add: catalog_evolves_def)
  have view: "rs_direct_routes s = direct_routes (cat_state c')"
    "map published_route_view (rs_relay_routes s) = relay_view (relay_routes (cat_state c'))"
    using s(1) by (simp_all add: snapshot_view_def published_view_def)
  have "length (rs_relay_routes s) = pub_count (relay_routes (cat_state c'))"
    using arg_cong [OF view(2), of length] by (simp add: relay_view_def pub_count_def)
  moreover have "pub_count m \<le> length m" for m
    by (simp add: pub_count_def)
  moreover have "state_inv C p limits (cat_state c')"
    using s(5) by (simp add: catalog_inv_def cp')
  moreover have "distinct (map pr_relay_peer_id (rs_relay_routes s))"
  proof -
    have "map (\<lambda>v. fst (snd v)) (map published_route_view (rs_relay_routes s)) = map pr_relay_peer_id (rs_relay_routes s)"
      by (simp add: published_route_view_def)
    then show ?thesis
      using view_relays_distinct [OF s(5)] view(2) by (simp add: published_view_def)
  qed
  moreover have "f_local_generation (pr_fence r) \<noteq> 0 \<and>
      validate_relay_circuit_routes C (route_tcp (pr_routes r)) (route_wss (pr_routes r)) p = Inr (pr_routes r)"
    if "r \<in> set (rs_relay_routes s)" for r
  proof -
    have "published_route_view r \<in> set (snd (published_view (cat_state c')))"
      using that view(2) [symmetric] by (simp add: published_view_def)
    then obtain k x where "published_route_view r = slot_view x" "slot_ok C p x"
      using view_member [OF s(5)] cp' by metis
    then show ?thesis
      using slot_ok_validates [of C p x]
      by (auto simp: published_route_view_def slot_view_def slot_ok_def)
  qed
  ultimately show ?thesis
    using s(3) view(1) by (auto simp: state_inv_def intro: le_trans)
qed

theorem snapshots_well_formed_witness:
  "length (rs_direct_routes sample_snapshot) + length (rs_relay_routes sample_snapshot)
      \<le> maximum_routes sample_catalog_limits \<and>
    length (rs_relay_routes sample_snapshot) \<le> maximum_relay_routes sample_catalog_limits \<and>
    distinct (map pr_relay_peer_id (rs_relay_routes sample_snapshot)) \<and>
    (let r = hd (rs_relay_routes sample_snapshot)
     in 10 < pr_authorized_until r \<and>
        validate_relay_circuit_routes ref_codec (route_tcp (pr_routes r)) (route_wss (pr_routes r))
          sample_target = Inr (pr_routes r))"
proof -
  note T = snapshots_well_formed [OF sample_catalog_new sample_run sample_snapshot_of]
  have "hd (rs_relay_routes sample_snapshot) \<in> set (rs_relay_routes sample_snapshot)"
    by (simp add: sample_snapshot_def)
  with T show ?thesis unfolding Let_def by blast
qed

text \<open>
  a published route is visible at once: after a successful publication a snapshot at the
  same time succeeds, carries the returned revision and lists the route with its fence, relay,
  circuit pair, limits and deadline.
\<close>

theorem published_route_visible:
  assumes inv: "catalog_new C p direct limits t0 = Inr c0" "(catalog_step C)\<^sup>*\<^sup>* c0 c"
    and call: "publish_confirmed C now route c = (Inr rv, c')"
  shows "\<exists>snap c''. catalog_snapshot now c' = (Inr snap, c'') \<and> rs_revision snap = rv \<and>
    \<lparr>pr_fence = cr_fence route, pr_relay_peer_id = cr_relay_peer_id route, pr_routes = cr_routes route,
     pr_limits = cr_limits route, pr_authorized_until = cr_authorized_until route\<rparr> \<in> set (rs_relay_routes snap)"
proof -
  have "catalog_inv C c"
    using catalog_new_inv(1) [OF inv(1)] inv(2) by (rule catalog_sys.run_inv [rotated])
  note pub = publish_confirmed_Inr [OF this call]
  obtain stored where st: "map_of (relay_routes (cat_state c')) (f_route_id (cr_fence route)) = Some stored"
    "sr_fence stored = cr_fence route" "sr_relay_peer_id stored = cr_relay_peer_id route"
    "sr_routes stored = cr_routes route" "sr_limits stored = cr_limits route"
    "sr_authorized_until stored = cr_authorized_until route" "live_at now stored"
    using pub(1) by blast
  have "stored \<in> set (map snd (relay_routes (cat_state c')))"
    using map_of_SomeD [OF st(1)] by force
  then show ?thesis
    using expire_nothing [of "cat_state c'" now, OF pub(3)] st(2-7) pub(2)
    by (auto simp: catalog_snapshot_def route_snapshot_of_def intro!: image_eqI [of _ _ stored])
qed

theorem published_route_visible_witness:
  "\<exists>snap c''. catalog_snapshot 10 sample_filled = (Inr snap, c'') \<and> rs_revision snap = 2 \<and>
    \<lparr>pr_fence = cr_fence sample_confirmed, pr_relay_peer_id = cr_relay_peer_id sample_confirmed,
     pr_routes = cr_routes sample_confirmed, pr_limits = cr_limits sample_confirmed,
     pr_authorized_until = cr_authorized_until sample_confirmed\<rparr> \<in> set (rs_relay_routes snap)"
  by (rule published_route_visible [OF sample_catalog_new rtranclp.rtrancl_refl sample_publish_route])

text \<open>
  a route slot obeys its current fence only: while the slot holds another fence, refreshing
  or tombstoning with a superseded fence is refused as stale and changes nothing beyond the
  expiry of overdue authorizations, and no commit that expects the superseded fence runs.
\<close>

theorem superseded_fence_refused:
  assumes ex: "expire_authorizations now (cat_state c) = Inr s"
    and slot: "map_of (relay_routes s) (f_route_id fence) = Some r" and other: "sr_fence r \<noteq> fence"
    and exp: "fence \<in> set fences"
  shows "refresh_authorization now fence until c = (Inl StaleRouteFence, keep_state s c) \<and>
    tombstone now fence c = (Inl StaleRouteFence, keep_state s c) \<and>
    commit_if_current now rv fences f c = (Inr None, keep_state s c)"
proof -
  have "\<not> fence_current s now fence"
    using slot other by (simp add: fence_current_def)
  with exp have "\<not> list_all (fence_current s now) fences" by (auto simp: list_all_iff)
  then show ?thesis
    using ex slot other by (auto simp: refresh_authorization_def tombstone_def commit_if_current_def)
qed

theorem superseded_fence_refused_witness:
  "refresh_authorization 10 (sample_fence\<lparr>f_local_generation := 9\<rparr>) 50 sample_filled =
      (Inl StaleRouteFence, keep_state (cat_state sample_filled) sample_filled) \<and>
    tombstone 10 (sample_fence\<lparr>f_local_generation := 9\<rparr>) sample_filled =
      (Inl StaleRouteFence, keep_state (cat_state sample_filled) sample_filled) \<and>
    commit_if_current 10 2 [sample_fence\<lparr>f_local_generation := 9\<rparr>] (\<lambda>snap. snap) sample_filled =
      (Inr None, keep_state (cat_state sample_filled) sample_filled)"
  by (rule superseded_fence_refused [where r = sample_slot])
    (simp_all add: sample_catalog_defs catalog_eval)

end
