(* ===== verification/Circuit_Hop.thy ===== *)
theory Circuit_Hop
  imports Relay_Provider
begin

text \<open>
  Live circuit hops (\<open>CircuitHopTable\<close> in \<open>core/auki-p2p/src/circuit_hop.rs\<close>) and the request
  handler that the native and the browser event loop run on it
  (\<open>transport.rs\<close>, \<open>browser_transport.rs\<close>). The iteration order of the connection map is the
  order of its association list, of which nothing is assumed; the lemmas show that the
  restored selection does not depend on it.
\<close>

section \<open>The table\<close>

record circuit_hop_key =
  target_peer_id :: peer_id
  circuit_address :: multiaddr

type_synonym circuit_hop_owner = u64

datatype circuit_acquire = Live connection_id circuit_hop_owner | Pending | Vacant

record circuit_hop_entry =
  hop_key :: circuit_hop_key
  hop_owners :: "circuit_hop_owner set"

record circuit_hop_table =
  by_key :: "(circuit_hop_key, connection_id) hashmap"
  by_connection :: "(connection_id, circuit_hop_entry) hashmap"
  pending :: "circuit_hop_key set"
  next_owner_id :: u64

definition circuit_hop_table_default :: circuit_hop_table where
  "circuit_hop_table_default = \<lparr>by_key = [], by_connection = [], pending = {}, next_owner_id = 0\<rparr>"

definition next_owner :: "circuit_hop_table \<Rightarrow> circuit_hop_owner \<times> circuit_hop_table" where
  "next_owner t =
     (let n = next_owner_id t + 1; n' = (if n = 0 then 1 else n)
      in (n', t\<lparr>next_owner_id := n'\<rparr>))"

definition add_owner :: "connection_id \<Rightarrow> circuit_hop_owner \<Rightarrow> circuit_hop_table \<Rightarrow> circuit_hop_table" where
  "add_owner conn o' t =
     (case map_of (by_connection t) conn of None \<Rightarrow> t
      | Some e \<Rightarrow> t\<lparr>by_connection :=
          hm_insert conn (e\<lparr>hop_owners := insert o' (hop_owners e)\<rparr>) (by_connection t)\<rparr>)"

definition hop_vacancy :: "circuit_hop_key \<Rightarrow> circuit_hop_table \<Rightarrow> circuit_acquire" where
  "hop_vacancy key t = (if key \<in> pending t then Pending else Vacant)"

definition acquire :: "circuit_hop_key \<Rightarrow> circuit_hop_table \<Rightarrow> circuit_acquire \<times> circuit_hop_table" where
  "acquire key t =
     (case map_of (by_key t) key of
        Some conn \<Rightarrow>
          if hm_contains (by_connection t) conn
          then (case next_owner t of (o', t') \<Rightarrow> (Live conn o', add_owner conn o' t'))
          else (let t' = t\<lparr>by_key := hm_remove key (by_key t)\<rparr> in (hop_vacancy key t', t'))
      | None \<Rightarrow> (hop_vacancy key t, t))"

definition mark_pending :: "circuit_hop_key \<Rightarrow> circuit_hop_table \<Rightarrow> circuit_hop_table" where
  "mark_pending key t = t\<lparr>pending := insert key (pending t)\<rparr>"

definition restore_previous :: "circuit_hop_key \<Rightarrow> circuit_hop_table \<Rightarrow> circuit_hop_table" where
  "restore_previous key t =
     (if \<not> hm_contains (by_key t) key \<and> key \<notin> pending t then
        (case List.find (\<lambda>(_, e). hop_key e = key) (by_connection t) of
           Some (conn, _) \<Rightarrow> t\<lparr>by_key := hm_insert key conn (by_key t)\<rparr>
         | None \<Rightarrow> t)
      else t)"

definition established ::
  "circuit_hop_key \<Rightarrow> connection_id \<Rightarrow> circuit_hop_owner list \<Rightarrow> circuit_hop_table \<Rightarrow> circuit_hop_table"
where
  "established key conn owners t =
     (let t' = t\<lparr>pending := pending t - {key}\<rparr>
      in if set owners = {} then restore_previous key t'
         else t'\<lparr>by_key := hm_insert key conn (by_key t'),
                 by_connection := hm_insert conn \<lparr>hop_key = key, hop_owners = set owners\<rparr> (by_connection t')\<rparr>)"

definition fail_pending :: "circuit_hop_key \<Rightarrow> circuit_hop_table \<Rightarrow> circuit_hop_table" where
  "fail_pending key t = restore_previous key (t\<lparr>pending := pending t - {key}\<rparr>)"

text \<open>Taking a hop out of both maps, and selecting the previous generation again.\<close>

definition drop_hop :: "connection_id \<Rightarrow> circuit_hop_entry \<Rightarrow> circuit_hop_table \<Rightarrow> circuit_hop_table" where
  "drop_hop conn e t =
     (let t' = (if map_of (by_key t) (hop_key e) = Some conn
                then t\<lparr>by_key := hm_remove (hop_key e) (by_key t)\<rparr> else t)
      in restore_previous (hop_key e) (t'\<lparr>by_connection := hm_remove conn (by_connection t')\<rparr>))"

definition release :: "connection_id \<Rightarrow> circuit_hop_owner \<Rightarrow> circuit_hop_table \<Rightarrow> bool \<times> circuit_hop_table" where
  "release conn o' t =
     (case map_of (by_connection t) conn of
        None \<Rightarrow> (True, t)
      | Some e \<Rightarrow>
          if o' \<notin> hop_owners e then (False, t)
          else let e' = e\<lparr>hop_owners := hop_owners e - {o'}\<rparr>;
                   t' = t\<lparr>by_connection := hm_insert conn e' (by_connection t)\<rparr>
               in if hop_owners e' \<noteq> {} then (False, t') else (True, drop_hop conn e' t'))"

definition invalidate :: "connection_id \<Rightarrow> circuit_hop_table \<Rightarrow> circuit_hop_table" where
  "invalidate conn t =
     (case map_of (by_connection t) conn of None \<Rightarrow> t | Some e \<Rightarrow> drop_hop conn e t)"

definition generations :: "circuit_hop_key \<Rightarrow> circuit_hop_table \<Rightarrow> nat" where
  "generations key t = length (filter (\<lambda>(_, e). hop_key e = key) (by_connection t))"

definition prepare_replacement ::
  "circuit_hop_key \<Rightarrow> connection_id \<Rightarrow> circuit_hop_table \<Rightarrow> (string, unit) result \<times> circuit_hop_table"
where
  "prepare_replacement key old t =
     (if (case map_of (by_connection t) old of None \<Rightarrow> False | Some e \<Rightarrow> hop_key e \<noteq> key)
      then (Inl ''replacement route does not match the old circuit'', t)
      else if map_of (by_key t) key \<noteq> Some old then (Inr (), t)
      else if 2 \<le> generations key t
      then (Inl ''close the previous circuit generation before replacing again'', t)
      else (Inr (), t\<lparr>by_key := hm_remove key (by_key t)\<rparr>))"

section \<open>The request handler of the event loops\<close>

text \<open>
  One exact-circuit request: an explicit replacement is prepared first, then the hop is
  acquired; a vacant hop is dialed. \<open>joined\<close> says whether the event loop finds the dial of a
  pending hop, \<open>dialed\<close> whether the transport accepts the new dial.
\<close>

datatype hop_reply =
    ReplacementRefused string
  | Acquired connection_id circuit_hop_owner
  | JoinedPendingDial
  | PendingDialMissing
  | Dialing
  | DialRefused

definition request_circuit ::
  "circuit_hop_key \<Rightarrow> connection_id option \<Rightarrow> bool \<Rightarrow> bool \<Rightarrow> circuit_hop_table \<Rightarrow> hop_reply \<times> circuit_hop_table"
where
  "request_circuit key replacement_of joined dialed t =
     (case (case replacement_of of None \<Rightarrow> (Inr (), t) | Some old \<Rightarrow> prepare_replacement key old t) of
        (Inl why, t1) \<Rightarrow> (ReplacementRefused why, t1)
      | (Inr _, t1) \<Rightarrow>
          (case acquire key t1 of
             (Live conn o', t2) \<Rightarrow> (Acquired conn o', t2)
           | (Pending, t2) \<Rightarrow>
               if joined then (JoinedPendingDial, t2) else (PendingDialMissing, fail_pending key t2)
           | (Vacant, t2) \<Rightarrow>
               if dialed then (Dialing, mark_pending key t2) else (DialRefused, fail_pending key t2)))"

section \<open>The invariant of the table\<close>

text \<open>
  \<open>hop_core\<close> holds between any two calls; \<open>selected_or_pending\<close> holds for every route at the
  boundaries of the event loop's handlers (a prepared replacement is between the two).
\<close>

definition hop_core :: "circuit_hop_table \<Rightarrow> bool" where
  "hop_core t \<longleftrightarrow>
     hm_ok (by_key t) \<and> hm_ok (by_connection t) \<and>
     (\<forall>k c. map_of (by_key t) k = Some c \<longrightarrow>
        (\<exists>e. map_of (by_connection t) c = Some e \<and> hop_key e = k)) \<and>
     (\<forall>c e. map_of (by_connection t) c = Some e \<longrightarrow> hop_owners e \<noteq> {}) \<and>
     (\<forall>k \<in> pending t. map_of (by_key t) k = None) \<and>
     (\<forall>k. generations k t \<le> (if map_of (by_key t) k = None then 1 else 2))"

definition selected_or_pending :: "circuit_hop_key \<Rightarrow> circuit_hop_table \<Rightarrow> bool" where
  "selected_or_pending k t \<longleftrightarrow>
     (generations k t \<noteq> 0 \<longrightarrow> map_of (by_key t) k \<noteq> None \<or> k \<in> pending t)"

definition hop_inv :: "circuit_hop_table \<Rightarrow> bool" where
  "hop_inv t \<longleftrightarrow> hop_core t \<and> (\<forall>k. selected_or_pending k t)"

definition hop_inv_but :: "circuit_hop_key \<Rightarrow> circuit_hop_table \<Rightarrow> bool" where
  "hop_inv_but key t \<longleftrightarrow> hop_core t \<and> (\<forall>k. k \<noteq> key \<longrightarrow> selected_or_pending k t)"

lemma hop_inv_but_iff: "hop_inv t \<longleftrightarrow> hop_inv_but key t \<and> selected_or_pending key t"
  by (auto simp: hop_inv_def hop_inv_but_def)

lemma generations_fields [simp]:
  "generations k (t\<lparr>by_key := m\<rparr>) = generations k t"
  "generations k (t\<lparr>pending := P\<rparr>) = generations k t"
  "generations k (t\<lparr>next_owner_id := n\<rparr>) = generations k t"
  by (simp_all add: generations_def)

lemma generations_insert:
  assumes "hm_ok (by_connection t)"
  shows "generations k (t\<lparr>by_connection := hm_insert c e (by_connection t)\<rparr>) =
    generations k (t\<lparr>by_connection := hm_remove c (by_connection t)\<rparr>) + of_bool (hop_key e = k)"
  using hm.count_ins [OF assms, of "\<lambda>(_, e). hop_key e = k" c e] by (simp add: generations_def hm_remove_def)

lemma generations_remove:
  assumes "hm_ok (by_connection t)" "map_of (by_connection t) c = Some e"
  shows "generations k t =
    generations k (t\<lparr>by_connection := hm_remove c (by_connection t)\<rparr>) + of_bool (hop_key e = k)"
  using hm.count_del [OF assms, of "\<lambda>(_, e). hop_key e = k"] by (simp add: generations_def hm_remove_def)

lemma hop_remove_fresh: "map_of m c = None \<Longrightarrow> hm_remove c m = m"
  by (simp add: hm_remove_def hm.count_del_fresh)

lemma find_generation:
  assumes "hm_ok (by_connection t)"
  shows "List.find (\<lambda>(_, e). hop_key e = k) (by_connection t) = None \<longleftrightarrow> generations k t = 0"
    "List.find (\<lambda>(_, e). hop_key e = k) (by_connection t) = Some (c, e) \<Longrightarrow>
      map_of (by_connection t) c = Some e \<and> hop_key e = k"
proof -
  show "List.find (\<lambda>(_, e). hop_key e = k) (by_connection t) = None \<longleftrightarrow> generations k t = 0"
    by (auto simp: find_None_iff generations_def filter_empty_conv)
  show "List.find (\<lambda>(_, e). hop_key e = k) (by_connection t) = Some (c, e) \<Longrightarrow>
      map_of (by_connection t) c = Some e \<and> hop_key e = k"
    using hm.mem_iff [OF assms] by (auto simp: find_Some_iff) (metis nth_mem)
qed

lemma hop_core_generations:
  assumes "hop_core t"
  shows "generations k t \<le> 2" "map_of (by_key t) k = None \<Longrightarrow> generations k t \<le> 1"
proof -
  have "generations k t \<le> (if map_of (by_key t) k = None then 1 else 2)"
    using assms unfolding hop_core_def by blast
  then show "generations k t \<le> 2" "map_of (by_key t) k = None \<Longrightarrow> generations k t \<le> 1"
    by (auto split: if_splits)
qed

lemma hop_core_selected:
  "hop_core t \<Longrightarrow> map_of (by_key t) k = Some c \<Longrightarrow>
    \<exists>e. map_of (by_connection t) c = Some e \<and> hop_key e = k"
  by (simp add: hop_core_def)

lemma restore_previous_inv:
  assumes inv: "hop_inv_but key t"
  shows "hop_inv (restore_previous key t)"
proof (cases "map_of (by_key t) key = None \<and> key \<notin> pending t \<and> generations key t \<noteq> 0")
  case True
  have ok: "hm_ok (by_connection t)" using inv by (simp add: hop_inv_but_def hop_core_def)
  obtain c e where f: "List.find (\<lambda>(_, e). hop_key e = key) (by_connection t) = Some (c, e)"
    using True find_generation(1) [OF ok, of key] by (metis not_None_eq surj_pair)
  then have e: "map_of (by_connection t) c = Some e" "hop_key e = key"
    using find_generation(2) [OF ok] by blast+
  have r: "restore_previous key t = t\<lparr>by_key := hm_insert key c (by_key t)\<rparr>"
    using True f by (simp add: restore_previous_def hm_contains_def)
  have core: "hop_core t" using inv by (simp add: hop_inv_but_def)
  have "hop_core (t\<lparr>by_key := hm_insert key c (by_key t)\<rparr>)"
    using core e True hop_core_generations [OF core] unfolding hop_core_def
    by (auto simp: hm.get_ins hm.ok_ins)
  moreover have "selected_or_pending k (t\<lparr>by_key := hm_insert key c (by_key t)\<rparr>)" for k
    using inv by (cases "k = key") (auto simp: hop_inv_but_def selected_or_pending_def hm.get_ins)
  ultimately show ?thesis by (simp add: r hop_inv_def)
next
  case False
  have ok: "hm_ok (by_connection t)" using inv by (simp add: hop_inv_but_def hop_core_def)
  have "restore_previous key t = t"
    using False find_generation(1) [OF ok, of key]
    by (auto simp: restore_previous_def hm_contains_def)
  moreover have "selected_or_pending key t"
    using False by (auto simp: selected_or_pending_def)
  ultimately show ?thesis using inv hop_inv_but_iff [of t key] by simp
qed

text \<open>Replacing the owners of a hop.\<close>

lemma set_owners_inv:
  assumes inv: "hop_core t" and e: "map_of (by_connection t) c = Some e" and ne: "hop_owners e' \<noteq> {}"
    and k: "hop_key e' = hop_key e"
  shows "hop_core (t\<lparr>by_connection := hm_insert c e' (by_connection t)\<rparr>)"
    "selected_or_pending k (t\<lparr>by_connection := hm_insert c e' (by_connection t)\<rparr>) = selected_or_pending k t"
proof -
  have ok: "hm_ok (by_connection t)" using inv by (simp add: hop_core_def)
  have g: "generations k' (t\<lparr>by_connection := hm_insert c e' (by_connection t)\<rparr>) = generations k' t" for k'
    using generations_insert [OF ok, of k' c e'] generations_remove [OF ok e, of k'] k by simp
  show "selected_or_pending k (t\<lparr>by_connection := hm_insert c e' (by_connection t)\<rparr>) = selected_or_pending k t"
    by (simp add: selected_or_pending_def g)
  have sel: "\<exists>e''. map_of (hm_insert c e' (by_connection t)) c' = Some e'' \<and> hop_key e'' = k'"
    if "map_of (by_key t) k' = Some c'" for k' c'
    using inv e k that by (fastforce simp: hop_core_def hm.get_ins)
  show "hop_core (t\<lparr>by_connection := hm_insert c e' (by_connection t)\<rparr>)"
    using inv ne sel unfolding hop_core_def g by (auto simp: hm.get_ins hm.ok_ins)
qed

text \<open>The table after a hop has been taken out, before the restoration.\<close>

definition without_hop :: "connection_id \<Rightarrow> circuit_hop_entry \<Rightarrow> circuit_hop_table \<Rightarrow> circuit_hop_table" where
  "without_hop c e t =
     (let t' = (if map_of (by_key t) (hop_key e) = Some c
                then t\<lparr>by_key := hm_remove (hop_key e) (by_key t)\<rparr> else t)
      in t'\<lparr>by_connection := hm_remove c (by_connection t')\<rparr>)"

lemma drop_hop_without: "drop_hop c e t = restore_previous (hop_key e) (without_hop c e t)"
  by (simp add: drop_hop_def without_hop_def Let_def)

lemma without_hop_inv:
  assumes inv: "hop_inv t" and e: "map_of (by_connection t) c = Some e"
  shows "hop_inv_but (hop_key e) (without_hop c e t)"
proof -
  let ?k = "hop_key e" and ?t = "without_hop c e t"
  have core: "hop_core t" using inv by (simp add: hop_inv_def)
  have ok: "hm_ok (by_connection t)" using core by (simp add: hop_core_def)
  have f: "by_connection ?t = hm_remove c (by_connection t)" "pending ?t = pending t"
    by (simp_all add: without_hop_def Let_def)
  have key: "map_of (by_key ?t) k = (if k = ?k \<and> map_of (by_key t) ?k = Some c then None else map_of (by_key t) k)" for k
    by (simp add: without_hop_def hm_remove_def delete_conv' Let_def)
  have g: "generations k ?t + of_bool (?k = k) = generations k t" for k
    using generations_remove [OF ok e, of k] by (simp add: f generations_def)
  have "c' \<noteq> c" if "map_of (by_key ?t) k = Some c'" for k c'
    using that hop_core_selected [OF core, of k c'] e by (auto simp: key split: if_splits)
  then have sel: "\<exists>e'. map_of (by_connection ?t) c' = Some e' \<and> hop_key e' = k"
    if "map_of (by_key ?t) k = Some c'" for k c'
    using that hop_core_selected [OF core, of k c']
    by (auto simp: f key hm_remove_def delete_conv' split: if_splits)
  have gens: "generations k ?t \<le> (if map_of (by_key ?t) k = None then 1 else 2)" for k
    using g [of k] hop_core_generations [OF core, of k] by (auto simp: key split: if_splits)
  have "hm_ok (by_key ?t)"
    using core by (auto simp: without_hop_def Let_def hop_core_def hm_remove_def intro: hm.ok_del)
  then have "hop_core ?t"
    using core sel gens unfolding hop_core_def
    by (auto simp: f key hm_remove_def delete_conv' intro: hm.ok_del split: if_splits)
  moreover have "selected_or_pending k ?t" if "k \<noteq> ?k" for k
    using inv that g [of k] by (auto simp: hop_inv_def selected_or_pending_def f key)
  ultimately show ?thesis by (simp add: hop_inv_but_def)
qed

lemma drop_hop_inv: "hop_inv t \<Longrightarrow> map_of (by_connection t) c = Some e \<Longrightarrow> hop_inv (drop_hop c e t)"
  by (simp add: drop_hop_without restore_previous_inv without_hop_inv)

lemma release_inv:
  assumes inv: "hop_inv t" shows "hop_inv (snd (release c o' t))"
proof (cases "map_of (by_connection t) c")
  case (Some e)
  have core: "hop_core t" using inv by (simp add: hop_inv_def)
  let ?e = "e\<lparr>hop_owners := hop_owners e - {o'}\<rparr>"
  let ?t = "t\<lparr>by_connection := hm_insert c ?e (by_connection t)\<rparr>"
  show ?thesis
  proof (cases "o' \<in> hop_owners e \<and> hop_owners e = {o'}")
    case True
    have "drop_hop c ?e ?t = drop_hop c e t"
      by (simp add: drop_hop_def Let_def hm_remove_def hm_insert_def)
    with True Some inv drop_hop_inv show ?thesis by (simp add: release_def Let_def)
  next
    case False
    then have "hop_owners ?e \<noteq> {}" if "o' \<in> hop_owners e" using that by auto
    with Some inv set_owners_inv [OF core Some, of ?e] show ?thesis
      by (auto simp: release_def Let_def hop_inv_def)
  qed
qed (use inv in \<open>simp add: release_def\<close>)

lemma invalidate_inv: "hop_inv t \<Longrightarrow> hop_inv (invalidate c t)"
  by (auto simp: invalidate_def drop_hop_inv split: option.splits)

lemma unpend_inv:
  assumes "hop_inv_but key t" shows "hop_inv_but key (t\<lparr>pending := pending t - {key}\<rparr>)"
  using assms by (auto simp: hop_inv_but_def hop_core_def selected_or_pending_def)

lemma fail_pending_inv: "hop_inv_but key t \<Longrightarrow> hop_inv (fail_pending key t)"
  by (simp add: fail_pending_def restore_previous_inv unpend_inv)

lemma established_inv:
  assumes inv: "hop_inv t" and pend: "key \<in> pending t" and fresh: "map_of (by_connection t) c = None"
  shows "hop_inv (established key c owners t)"
proof (cases "owners = []")
  case True
  with inv show ?thesis
    using restore_previous_inv [OF unpend_inv] hop_inv_but_iff [of t key]
    by (simp add: established_def)
next
  case False
  have core: "hop_core t" using inv by (simp add: hop_inv_def)
  have ok: "hm_ok (by_connection t)" using core by (simp add: hop_core_def)
  have none: "map_of (by_key t) key = None" using core pend by (auto simp: hop_core_def)
  let ?e = "\<lparr>hop_key = key, hop_owners = set owners\<rparr>"
  let ?t = "established key c owners t"
  have t: "?t = t\<lparr>pending := pending t - {key}, by_key := hm_insert key c (by_key t),
      by_connection := hm_insert c ?e (by_connection t)\<rparr>"
    using False by (simp add: established_def Let_def)
  have g: "generations k ?t = generations k t + of_bool (key = k)" for k
    using generations_insert [OF ok, of k c ?e] hop_remove_fresh [OF fresh]
    by (simp add: t generations_def)
  have "map_of (by_key t) k = Some c' \<Longrightarrow> c' \<noteq> c" for k c'
    using core fresh by (fastforce simp: hop_core_def)
  moreover have "generations k ?t \<le> (if map_of (by_key ?t) k = None then 1 else 2)" for k
    using g [of k] hop_core_generations [OF core, of k] none by (auto simp: t hm.get_ins)
  ultimately have "hop_core ?t"
    using core False unfolding hop_core_def
    by (auto simp: t hm.get_ins hm.ok_ins)
  moreover have "selected_or_pending k ?t" for k
    using inv g [of k] by (auto simp: hop_inv_def selected_or_pending_def t hm.get_ins)
  ultimately show ?thesis by (simp add: hop_inv_def)
qed

text \<open>The request handler.\<close>

lemma prepare_replacement_inv:
  assumes inv: "hop_inv t" and p: "prepare_replacement key old t = (r, t')"
  shows "hop_inv_but key t'" "\<And>why. r = Inl why \<Longrightarrow> t' = t"
proof -
  have core: "hop_core t" using inv by (simp add: hop_inv_def)
  show "\<And>why. r = Inl why \<Longrightarrow> t' = t"
    using p by (auto simp: prepare_replacement_def split: if_splits)
  show "hop_inv_but key t'"
  proof (cases "t' = t")
    case True
    with inv hop_inv_but_iff [of t key] show ?thesis by simp
  next
    case False
    with p have t': "t' = t\<lparr>by_key := hm_remove key (by_key t)\<rparr>" and few: "generations key t < 2"
      by (auto simp: prepare_replacement_def split: if_splits option.splits)
    have key: "map_of (by_key t') k = (if k = key then None else map_of (by_key t) k)" for k
      by (simp add: t' hm_remove_def delete_conv')
    have "generations k t' \<le> (if map_of (by_key t') k = None then 1 else 2)" for k
      unfolding key using few hop_core_generations [OF core, of k] by (auto simp: t')
    then have "hop_core t'"
      using core unfolding hop_core_def
      by (auto simp: t' hm_remove_def delete_conv' intro: hm.ok_del)
    then show ?thesis
      using inv by (auto simp: hop_inv_but_def hop_inv_def selected_or_pending_def key) (auto simp: t')
  qed
qed

lemma acquire_inv:
  assumes inv: "hop_inv_but key t" and a: "acquire key t = (r, t')"
  shows "r = Live c o' \<Longrightarrow> hop_inv t'"
    "r = Pending \<or> r = Vacant \<Longrightarrow> t' = t \<and> map_of (by_key t) key = None"
    "r = Pending \<Longrightarrow> hop_inv t'"
proof -
  have core: "hop_core t" using inv by (simp add: hop_inv_but_def)
  show "r = Pending \<or> r = Vacant \<Longrightarrow> t' = t \<and> map_of (by_key t) key = None"
    using a hop_core_selected [OF core, of key]
    by (auto simp: acquire_def hm_contains_def Let_def hop_vacancy_def split: option.splits if_splits prod.splits)
  show "r = Pending \<Longrightarrow> hop_inv t'"
    using a inv hop_core_selected [OF core, of key] hop_inv_but_iff [of t key]
    by (auto simp: acquire_def hm_contains_def Let_def hop_vacancy_def selected_or_pending_def
        split: option.splits if_splits prod.splits)
  assume "r = Live c o'"
  with a have sel: "map_of (by_key t) key = Some c" and o': "next_owner t = (o', t\<lparr>next_owner_id := o'\<rparr>)"
    and t': "t' = add_owner c o' (t\<lparr>next_owner_id := o'\<rparr>)"
    by (auto simp: acquire_def next_owner_def Let_def hop_vacancy_def split: option.splits if_splits)
  obtain e where e: "map_of (by_connection t) c = Some e"
    using hop_core_selected [OF core sel] by blast
  have core': "hop_core (t\<lparr>next_owner_id := o'\<rparr>)"
    using core by (simp add: hop_core_def)
  have "selected_or_pending k (t\<lparr>next_owner_id := o'\<rparr>)" for k
    using inv sel by (cases "k = key") (auto simp: hop_inv_but_def selected_or_pending_def)
  then show "hop_inv t'"
    using set_owners_inv [OF core', of c e "e\<lparr>hop_owners := insert o' (hop_owners e)\<rparr>"] e
    by (simp add: t' add_owner_def hop_inv_def)
qed

lemma mark_pending_inv:
  assumes "hop_inv_but key t" "map_of (by_key t) key = None"
  shows "hop_inv (mark_pending key t)"
  using assms by (auto simp: hop_inv_but_def hop_inv_def hop_core_def selected_or_pending_def mark_pending_def)

lemma request_circuit_inv:
  assumes inv: "hop_inv t"
  shows "hop_inv (snd (request_circuit key rep joined dialed t))"
proof -
  obtain r t1 where p: "(case rep of None \<Rightarrow> (Inr (), t) | Some old \<Rightarrow> prepare_replacement key old t) = (r, t1)"
    by fastforce
  have "hop_inv_but key t1 \<and> (\<forall>why. r = Inl why \<longrightarrow> hop_inv t1)"
  proof (cases rep)
    case None
    with p inv hop_inv_but_iff [of t key] show ?thesis by auto
  next
    case (Some old)
    with p have "prepare_replacement key old t = (r, t1)" by simp
    from prepare_replacement_inv [OF inv this] inv show ?thesis by blast
  qed
  then have t1: "hop_inv_but key t1" and refused: "\<And>why. r = Inl why \<Longrightarrow> hop_inv t1" by auto
  obtain a t2 where a: "acquire key t1 = (a, t2)" by fastforce
  note acq = acquire_inv [OF t1 a]
  show ?thesis
    using refused acq fail_pending_inv [of key t1] mark_pending_inv [of key t1] t1
    by (cases r; cases a) (auto simp: request_circuit_def p a)
qed

section \<open>Runs\<close>

text \<open>
  A step is one handler of the event loop. A dial is established only for a pending route and
  with a connection id that the transport has not given out before.
\<close>

inductive hop_step :: "circuit_hop_table \<Rightarrow> circuit_hop_table \<Rightarrow> bool" where
  request: "hop_step t (snd (request_circuit key rep joined dialed t))"
| establish: "key \<in> pending t \<Longrightarrow> map_of (by_connection t) c = None \<Longrightarrow>
    hop_step t (established key c owners t)"
| dial_failed: "hop_step t (fail_pending key t)"
| released: "hop_step t (snd (release c o' t))"
| closed: "hop_step t (invalidate c t)"
| owner: "hop_step t (snd (next_owner t))"

interpretation hop_sys: invariant_system hop_step hop_inv
proof
  fix t t' assume inv: "hop_inv t" and st: "hop_step t t'"
  have but: "hop_inv_but key t" for key using inv hop_inv_but_iff by blast
  from st show "hop_inv t'"
    by cases (use inv in \<open>simp_all add: request_circuit_inv established_inv fail_pending_inv but
        release_inv invalidate_inv next_owner_def Let_def, simp_all add: hop_inv_def hop_core_def
        selected_or_pending_def\<close>)
qed

lemma hop_default_inv: "hop_inv circuit_hop_table_default"
  by (simp add: circuit_hop_table_default_def hop_inv_def hop_core_def selected_or_pending_def
      generations_def hm_ok_def)

section \<open>Iteration order\<close>

text \<open>Two tables with the same maps: they may differ in the iteration order of the hash maps.\<close>

definition same_maps :: "circuit_hop_table \<Rightarrow> circuit_hop_table \<Rightarrow> bool" where
  "same_maps t t' \<longleftrightarrow>
     map_of (by_key t) = map_of (by_key t') \<and> map_of (by_connection t) = map_of (by_connection t') \<and>
     pending t = pending t' \<and> next_owner_id t = next_owner_id t' \<and>
     hm_ok (by_key t') \<and> hm_ok (by_connection t')"

lemma same_maps_generations:
  assumes "same_maps t t'" "hm_ok (by_connection t)"
  shows "generations k t' = generations k t"
proof -
  have "set (by_connection t') = set (by_connection t)"
    using assms hm.mem_iff [of "by_connection t"] hm.mem_iff [of "by_connection t'"]
    by (auto simp: same_maps_def set_eq_iff)
  then show ?thesis
    using assms hm.count_card [of "by_connection t"] hm.count_card [of "by_connection t'"]
    by (simp add: generations_def same_maps_def)
qed

text \<open>With at most one candidate, the restored selection is determined by the maps.\<close>

lemma one_generation:
  assumes "generations k t \<le> 1" "hm_ok (by_connection t)"
    and "map_of (by_connection t) c = Some e" "hop_key e = k"
    and "map_of (by_connection t) c' = Some e'" "hop_key e' = k"
  shows "c' = c"
proof (rule ccontr)
  assume ne: "c' \<noteq> c"
  let ?P = "\<lambda>(_, e). hop_key e = k"
  have "{(c, e), (c', e')} \<subseteq> {kv \<in> set (by_connection t). ?P kv}"
    using assms(3-6) map_of_SomeD by fastforce
  then have "card {(c, e), (c', e')} \<le> card {kv \<in> set (by_connection t). ?P kv}"
    by (intro card_mono) auto
  with ne assms(1) show False
    using hm.count_card [OF assms(2), of ?P] by (simp add: generations_def)
qed

lemma restore_previous_same:
  assumes same: "same_maps t t'" and core: "hop_core t"
  shows "same_maps (restore_previous key t) (restore_previous key t')"
proof (cases "map_of (by_key t) key = None \<and> key \<notin> pending t \<and> generations key t \<noteq> 0")
  case True
  have ok: "hm_ok (by_connection t)" "hm_ok (by_connection t')"
    using core same by (simp_all add: hop_core_def same_maps_def)
  have g: "generations key t' \<noteq> 0" "generations key t \<le> 1"
    using True same_maps_generations [OF same ok(1)] hop_core_generations [OF core] by auto
  obtain c e c' e' where f: "List.find (\<lambda>(_, e). hop_key e = key) (by_connection t) = Some (c, e)"
    "List.find (\<lambda>(_, e). hop_key e = key) (by_connection t') = Some (c', e')"
    using True g find_generation(1) [OF ok(1), of key] find_generation(1) [OF ok(2), of key]
    by (metis not_None_eq surj_pair)
  have "c' = c"
    using one_generation [OF g(2) ok(1)] find_generation(2) [OF ok(1) f(1)] find_generation(2) [OF ok(2) f(2)]
      same by (auto simp: same_maps_def)
  then show ?thesis
    using same True f by (auto simp: restore_previous_def hm_contains_def same_maps_def hm.get_ins hm.ok_ins)
next
  case False
  have ok: "hm_ok (by_connection t)" "hm_ok (by_connection t')"
    using core same by (simp_all add: hop_core_def same_maps_def)
  have g: "generations key t' = generations key t"
    by (rule same_maps_generations [OF same ok(1)])
  have m: "map_of (by_key t') key = map_of (by_key t) key" "pending t' = pending t"
    using same by (simp_all add: same_maps_def)
  have "restore_previous key t = t"
    using False find_generation(1) [OF ok(1), of key]
    by (cases "generations key t = 0") (auto simp: restore_previous_def hm_contains_def)
  moreover have "restore_previous key t' = t'"
    using False find_generation(1) [OF ok(2), of key] unfolding m [symmetric] g [symmetric]
    by (cases "generations key t' = 0") (auto simp: restore_previous_def hm_contains_def)
  ultimately show ?thesis using same by simp
qed

lemma drop_hop_same:
  assumes same: "same_maps t t'" and inv: "hop_inv t" and e: "map_of (by_connection t) c = Some e"
  shows "same_maps (drop_hop c e t) (drop_hop c e t')"
proof -
  have "hop_core (without_hop c e t)"
    using without_hop_inv [OF inv e] by (simp add: hop_inv_but_def)
  moreover have "same_maps (without_hop c e t) (without_hop c e t')"
    using same by (auto simp: without_hop_def same_maps_def Let_def hm_remove_def delete_conv' intro: hm.ok_del)
  ultimately show ?thesis
    by (simp add: drop_hop_without restore_previous_same)
qed

lemma drop_hop_owners: "drop_hop c (e\<lparr>hop_owners := S\<rparr>) (t\<lparr>by_connection := hm_insert c e' (by_connection t)\<rparr>) =
    drop_hop c e t"
  by (simp add: drop_hop_def Let_def hm_remove_def hm_insert_def)

lemma release_same:
  assumes same: "same_maps t t'" and inv: "hop_inv t"
  shows "fst (release c o' t') = fst (release c o' t)" "same_maps (snd (release c o' t)) (snd (release c o' t'))"
proof -
  have m: "map_of (by_connection t') c = map_of (by_connection t) c" using same by (simp add: same_maps_def)
  show "fst (release c o' t') = fst (release c o' t)"
    by (simp add: release_def m Let_def split: option.splits)
  show "same_maps (snd (release c o' t)) (snd (release c o' t'))"
  proof (cases "map_of (by_connection t) c")
    case None
    with same m show ?thesis by (simp add: release_def)
  next
    case (Some e)
    with same m drop_hop_same [OF same inv Some] show ?thesis
      by (auto simp: release_def Let_def drop_hop_owners)
        (auto simp: same_maps_def hm.get_ins hm.ok_ins)
  qed
qed

lemma invalidate_same:
  assumes same: "same_maps t t'" and inv: "hop_inv t"
  shows "same_maps (invalidate c t) (invalidate c t')"
proof -
  have "map_of (by_connection t') c = map_of (by_connection t) c" using same by (simp add: same_maps_def)
  then show ?thesis
    using same drop_hop_same [OF same inv] by (auto simp: invalidate_def split: option.splits)
qed

lemma fail_pending_same:
  assumes same: "same_maps t t'" and inv: "hop_inv t"
  shows "same_maps (fail_pending key t) (fail_pending key t')"
proof -
  have "hop_core (t\<lparr>pending := pending t - {key}\<rparr>)"
    using inv by (auto simp: hop_inv_def hop_core_def)
  moreover have "same_maps (t\<lparr>pending := pending t - {key}\<rparr>) (t'\<lparr>pending := pending t' - {key}\<rparr>)"
    using same by (auto simp: same_maps_def)
  ultimately show ?thesis by (simp add: fail_pending_def restore_previous_same)
qed

section \<open>A concrete table\<close>

text \<open>One route with an old generation (connection 1) and its replacement (connection 2).\<close>

definition sample_hop_key :: circuit_hop_key where
  "sample_hop_key = \<lparr>target_peer_id = PeerId ''T'', circuit_address = []\<rparr>"

definition sample_hops :: circuit_hop_table where
  "sample_hops = \<lparr>by_key = [(sample_hop_key, 2)],
     by_connection = [(1, \<lparr>hop_key = sample_hop_key, hop_owners = {1}\<rparr>),
                      (2, \<lparr>hop_key = sample_hop_key, hop_owners = {2, 3}\<rparr>)],
     pending = {}, next_owner_id = 3\<rparr>"

definition sample_hop_dialing :: circuit_hop_table where
  "sample_hop_dialing = \<lparr>by_key = [], by_connection = [], pending = {sample_hop_key}, next_owner_id = 3\<rparr>"

definition sample_hop_first :: circuit_hop_table where
  "sample_hop_first = \<lparr>by_key = [(sample_hop_key, 1)],
     by_connection = [(1, \<lparr>hop_key = sample_hop_key, hop_owners = {1}\<rparr>)], pending = {}, next_owner_id = 3\<rparr>"

definition sample_hop_replacing :: circuit_hop_table where
  "sample_hop_replacing = \<lparr>by_key = [],
     by_connection = [(1, \<lparr>hop_key = sample_hop_key, hop_owners = {1}\<rparr>)],
     pending = {sample_hop_key}, next_owner_id = 3\<rparr>"

lemmas hop_eval = request_circuit_def acquire_def hop_vacancy_def mark_pending_def next_owner_def
  add_owner_def established_def prepare_replacement_def generations_def release_def drop_hop_def
  restore_previous_def fail_pending_def invalidate_def hm_insert_def hm_remove_def hm_contains_def Let_def

lemmas sample_hop_defs = sample_hops_def sample_hop_dialing_def sample_hop_first_def
  sample_hop_replacing_def circuit_hop_table_default_def

lemma sample_hop_steps:
  "snd (next_owner (snd (next_owner (snd (next_owner circuit_hop_table_default))))) =
    circuit_hop_table_default\<lparr>next_owner_id := 3\<rparr>"
  "snd (request_circuit sample_hop_key None False True (circuit_hop_table_default\<lparr>next_owner_id := 3\<rparr>)) =
    sample_hop_dialing"
  "established sample_hop_key 1 [1] sample_hop_dialing = sample_hop_first"
  "snd (request_circuit sample_hop_key (Some 1) False True sample_hop_first) = sample_hop_replacing"
  "established sample_hop_key 2 [2, 3] sample_hop_replacing = sample_hops"
  by (simp_all add: hop_eval sample_hop_defs)

lemma sample_hops_reachable: "hop_step\<^sup>*\<^sup>* circuit_hop_table_default sample_hops"
proof -
  note add = rtranclp.rtrancl_into_rtrancl
  have owner: "hop_step\<^sup>*\<^sup>* circuit_hop_table_default (snd (next_owner x))"
    if "hop_step\<^sup>*\<^sup>* circuit_hop_table_default x" for x
    by (rule add [OF that hop_step.owner])
  have "hop_step\<^sup>*\<^sup>* circuit_hop_table_default (circuit_hop_table_default\<lparr>next_owner_id := 3\<rparr>)"
    unfolding sample_hop_steps(1) [symmetric] by (intro owner rtranclp.rtrancl_refl)
  note reach1 = add [OF this hop_step.request, of sample_hop_key None False True, unfolded sample_hop_steps]
  have "hop_step sample_hop_dialing sample_hop_first"
    unfolding sample_hop_steps(3) [symmetric] by (rule hop_step.establish) (simp_all add: sample_hop_defs)
  note reach2 = add [OF add [OF reach1 this] hop_step.request, of sample_hop_key "Some 1" False True,
      unfolded sample_hop_steps]
  have "hop_step sample_hop_replacing sample_hops"
    unfolding sample_hop_steps(5) [symmetric] by (rule hop_step.establish) (simp_all add: sample_hop_defs)
  from add [OF reach2 this] show ?thesis .
qed

section \<open>Properties\<close>

text \<open>
  C28: in every history of the event loop, a route has at most two live hop generations; the
  selected hop of a route is live, belongs to that route and has an owner; and a route with a
  live hop is either selected or has a replacement being dialed, so that no live hop is ever
  lost to its route.
\<close>

theorem hop_generations_bounded:
  assumes "hop_step\<^sup>*\<^sup>* circuit_hop_table_default t"
  shows "generations key t \<le> 2 \<and>
    (map_of (by_key t) key = Some c \<longrightarrow>
      (\<exists>e. map_of (by_connection t) c = Some e \<and> hop_key e = key \<and> hop_owners e \<noteq> {})) \<and>
    (map_of (by_connection t) c = Some e' \<longrightarrow>
      map_of (by_key t) (hop_key e') \<noteq> None \<or> hop_key e' \<in> pending t)"
proof -
  have inv: "hop_inv t"
    using hop_default_inv assms by (rule hop_sys.run_inv [rotated])
  then have core: "hop_core t" by (simp add: hop_inv_def)
  have ok: "hm_ok (by_connection t)" using core by (simp add: hop_core_def)
  have "generations (hop_key e') t \<noteq> 0" if "map_of (by_connection t) c = Some e'"
    using generations_remove [OF ok that, of "hop_key e'"] by simp
  then have "map_of (by_connection t) c = Some e' \<longrightarrow>
      map_of (by_key t) (hop_key e') \<noteq> None \<or> hop_key e' \<in> pending t"
    using inv by (auto simp: hop_inv_def selected_or_pending_def)
  moreover have "\<exists>e. map_of (by_connection t) c = Some e \<and> hop_key e = key \<and> hop_owners e \<noteq> {}"
    if "map_of (by_key t) key = Some c"
    using hop_core_selected [OF core that] core by (auto simp: hop_core_def)
  ultimately show ?thesis
    using hop_core_generations(1) [OF core] by blast
qed

theorem hop_generations_bounded_witness:
  "generations sample_hop_key sample_hops \<le> 2 \<and>
    (\<exists>e. map_of (by_connection sample_hops) 2 = Some e \<and> hop_key e = sample_hop_key \<and> hop_owners e \<noteq> {})"
proof -
  have "map_of (by_key sample_hops) sample_hop_key = Some 2" by (simp add: sample_hops_def)
  then show ?thesis
    using hop_generations_bounded [OF sample_hops_reachable, of sample_hop_key 2] by blast
qed

text \<open>
  the search for the previous generation does not depend on the iteration order of the hash
  maps: from every reachable table, a release, an invalidation or a failed dial leads to the
  same selection, the same hops and the same close decision for every ordering of the maps.
\<close>

theorem hop_restore_order_independent:
  assumes "hop_step\<^sup>*\<^sup>* circuit_hop_table_default t" and "same_maps t t'"
  shows "fst (release c o' t') = fst (release c o' t) \<and>
    same_maps (snd (release c o' t)) (snd (release c o' t')) \<and>
    same_maps (invalidate c t) (invalidate c t') \<and>
    same_maps (fail_pending key t) (fail_pending key t')"
proof -
  have inv: "hop_inv t"
    using hop_default_inv assms(1) by (rule hop_sys.run_inv [rotated])
  show ?thesis
    using release_same [OF assms(2) inv] invalidate_same [OF assms(2) inv]
      fail_pending_same [OF assms(2) inv] by blast
qed

lemma sample_hops_permuted:
  "same_maps sample_hops (sample_hops\<lparr>by_connection := rev (by_connection sample_hops)\<rparr>)"
  by (simp add: same_maps_def sample_hops_def hm_ok_def fun_eq_iff)

theorem hop_restore_order_independent_witness:
  "fst (release 2 2 (sample_hops\<lparr>by_connection := rev (by_connection sample_hops)\<rparr>)) =
      fst (release 2 2 sample_hops) \<and>
    same_maps (snd (release 2 2 sample_hops))
      (snd (release 2 2 (sample_hops\<lparr>by_connection := rev (by_connection sample_hops)\<rparr>))) \<and>
    same_maps (invalidate 2 sample_hops)
      (invalidate 2 (sample_hops\<lparr>by_connection := rev (by_connection sample_hops)\<rparr>)) \<and>
    same_maps (fail_pending sample_hop_key sample_hops)
      (fail_pending sample_hop_key (sample_hops\<lparr>by_connection := rev (by_connection sample_hops)\<rparr>))"
  by (rule hop_restore_order_independent [OF sample_hops_reachable sample_hops_permuted])

text \<open>
  Releases are idempotent per owner and never take a hop away from a sibling: while another
  owner holds the hop, releasing an owner keeps the hop open and selected as it was, only that
  owner leaves, and releasing it again changes nothing; the release of the last owner closes the
  hop and removes it from the table.
\<close>

theorem release_per_owner:
  assumes e: "map_of (by_connection t) c = Some e" and o': "o' \<in> hop_owners e"
  shows "(hop_owners e \<noteq> {o'} \<longrightarrow>
      (\<exists>t'. release c o' t = (False, t') \<and> release c o' t' = (False, t') \<and>
        map_of (by_connection t') = (map_of (by_connection t))(c \<mapsto> e\<lparr>hop_owners := hop_owners e - {o'}\<rparr>) \<and>
        by_key t' = by_key t \<and> pending t' = pending t)) \<and>
    (hop_owners e = {o'} \<longrightarrow>
      (\<exists>t'. release c o' t = (True, t') \<and> map_of (by_connection t') = (map_of (by_connection t))(c := None)))"
proof (intro conjI impI)
  assume "hop_owners e \<noteq> {o'}"
  with o' have ne: "hop_owners e - {o'} \<noteq> {}" by auto
  with e o' show "\<exists>t'. release c o' t = (False, t') \<and> release c o' t' = (False, t') \<and>
        map_of (by_connection t') = (map_of (by_connection t))(c \<mapsto> e\<lparr>hop_owners := hop_owners e - {o'}\<rparr>) \<and>
        by_key t' = by_key t \<and> pending t' = pending t"
    by (simp add: release_def Let_def hm.get_ins)
next
  assume "hop_owners e = {o'}"
  moreover have "by_connection (restore_previous k x) = by_connection x" for k x
    by (simp add: restore_previous_def split: option.splits)
  ultimately show "\<exists>t'. release c o' t = (True, t') \<and>
      map_of (by_connection t') = (map_of (by_connection t))(c := None)"
    using e by (simp add: release_def Let_def drop_hop_def hm_remove_def hm_insert_def delete_conv'
        update_conv')
qed

theorem release_per_owner_witness:
  "\<exists>t'. release 2 3 sample_hops = (False, t') \<and> release 2 3 t' = (False, t') \<and>
    map_of (by_connection t') = (map_of (by_connection sample_hops))(2 \<mapsto>
      \<lparr>hop_key = sample_hop_key, hop_owners = {2, 3}\<rparr>\<lparr>hop_owners := hop_owners \<lparr>hop_key = sample_hop_key, hop_owners = {2, 3}\<rparr> - {3}\<rparr>) \<and>
    by_key t' = by_key sample_hops \<and> pending t' = pending sample_hops"
proof -
  have e: "map_of (by_connection sample_hops) 2 = Some \<lparr>hop_key = sample_hop_key, hop_owners = {2, 3}\<rparr>"
    by (simp add: sample_hops_def)
  have "hop_owners \<lparr>hop_key = sample_hop_key, hop_owners = {2, 3 :: u64}\<rparr> \<noteq> {3}" by simp
  then show ?thesis
    using release_per_owner [OF e, of 3] by (simp only: simp_thms) simp
qed

end
