(* ===== verification/Application_Protocol.thy ===== *)
theory Application_Protocol
  imports P2p_Error
begin

text \<open>
  Application protocol identifiers and their resource bounds
  (\<open>core/auki-p2p/src/application_protocol.rs\<close>), and the gate that bounds concurrent relay
  circuit dials (\<open>relay_dial_gate.rs\<close>). \<open>StreamProtocol::try_from_owned\<close> of libp2p is the
  parameter \<open>try_from_owned\<close>; its documentation says that it accepts every identifier that
  starts with a slash.
\<close>

section \<open>Protocol identifiers\<close>

definition APPLICATION_PROTOCOL_MAX_BYTES :: nat where
  "APPLICATION_PROTOCOL_MAX_BYTES = 255"

definition APPLICATION_COMPONENT_MAX_BYTES :: nat where
  "APPLICATION_COMPONENT_MAX_BYTES = 64"

definition VERSION_COMPONENT_MAX_BYTES :: nat where
  "VERSION_COMPONENT_MAX_BYTES = 32"

definition APPLICATION_PROTOCOL_MAX_CONCURRENCY :: nat where
  "APPLICATION_PROTOCOL_MAX_CONCURRENCY = 1024"

definition APPLICATION_PROTOCOL_MAX_FRAME_BYTES :: u32 where
  "APPLICATION_PROTOCOL_MAX_FRAME_BYTES = 64 * 1024 * 1024"

definition is_application_component :: "string \<Rightarrow> bool" where
  "is_application_component component =
     (if component = [] \<or> APPLICATION_COMPONENT_MAX_BYTES < length component then False
      else is_ascii_lower (hd component) \<and>
        list_all (\<lambda>b. is_ascii_lower b \<or> is_ascii_digit b \<or> b \<in> {CHR ''-'', CHR ''_'', CHR ''.''})
          (tl component))"

definition strip_v :: "string \<Rightarrow> string" where
  "strip_v s = (case s of [] \<Rightarrow> s | c # cs \<Rightarrow> if c = CHR ''v'' then cs else s)"

definition is_version_component :: "string \<Rightarrow> bool" where
  "is_version_component component =
     (if component = [] \<or> VERSION_COMPONENT_MAX_BYTES < length component then False
      else let bytes = strip_v component
        in bytes \<noteq> [] \<and> is_ascii_digit (hd bytes) \<and> is_ascii_digit (last bytes) \<and>
           list_all (\<lambda>b. is_ascii_digit b \<or> b \<in> {CHR ''.'', CHR ''-''}) bytes \<and>
           \<not> list_ex (\<lambda>(a, b). \<not> is_ascii_digit a \<and> \<not> is_ascii_digit b) (zip bytes (tl bytes)))"

definition sdk_application :: "string list \<Rightarrow> bool" where
  "sdk_application components \<longleftrightarrow>
     length components = 6 \<and> components ! 0 = [] \<and> components ! 1 = ''auki'' \<and>
     components ! 2 = ''auth'' \<and> components ! 3 = ''1'' \<and>
     is_application_component (components ! 4) \<and> is_version_component (components ! 5)"

definition product_application :: "string list \<Rightarrow> bool" where
  "product_application components \<longleftrightarrow>
     3 \<le> length components \<and> components ! 0 = [] \<and> components ! 1 \<noteq> ''auki'' \<and>
     list_all is_application_component (butlast (tl components)) \<and>
     is_version_component (last components)"

definition application_protocol_new ::
  "(string \<Rightarrow> (string, string) result) \<Rightarrow> string \<Rightarrow> string p2p_result"
where
  "application_protocol_new try_from_owned value =
     (if APPLICATION_PROTOCOL_MAX_BYTES < length value then
        Inl (InvalidProtocol ''protocol ID exceeds 255 bytes'')
      else let components = split_on (CHR ''/'') value
        in if \<not> sdk_application components \<and> \<not> product_application components then
             Inl (InvalidProtocol ''expected a bounded /<namespace>/.../<version> ID; /auki/ is reserved for /auki/auth/1/<application>/<version>'')
           else map_err InvalidProtocol (try_from_owned value))"

record application_protocol_spec =
  spec_protocol :: string
  spec_max_concurrency :: nat
  spec_max_frame_bytes :: u32

definition application_protocol_spec_new ::
  "string \<Rightarrow> nat \<Rightarrow> u32 \<Rightarrow> application_protocol_spec p2p_result"
where
  "application_protocol_spec_new protocol max_concurrency max_frame_bytes =
     (if \<not> (1 \<le> max_concurrency \<and> max_concurrency \<le> APPLICATION_PROTOCOL_MAX_CONCURRENCY) then
        Inl (InvalidProtocol ''protocol concurrency must be between 1 and 1024'')
      else if \<not> (1 \<le> max_frame_bytes \<and> max_frame_bytes \<le> APPLICATION_PROTOCOL_MAX_FRAME_BYTES) then
        Inl (InvalidProtocol ''protocol frame bound must be between 1 and 67108864 bytes'')
      else Inr \<lparr>spec_protocol = protocol, spec_max_concurrency = max_concurrency,
                spec_max_frame_bytes = max_frame_bytes\<rparr>)"

section \<open>The dial gate\<close>

text \<open>
  The gate is a bounded channel that holds one token per free permit; a permit holds the sender
  and returns its token when it is dropped. \<open>None\<close> is a blocked \<open>recv\<close>, and a failed
  \<open>try_send\<close> is the failed debug assertion.
\<close>

definition MAX_CONCURRENT_RELAY_CIRCUIT_DIALS :: nat where
  "MAX_CONCURRENT_RELAY_CIRCUIT_DIALS = 10"

record dial_gate =
  gate_available :: nat
  gate_capacity :: nat

definition gate_try_send :: "dial_gate \<Rightarrow> (unit, dial_gate) result" where
  "gate_try_send g =
     (if gate_available g < gate_capacity g then Inr (g\<lparr>gate_available := gate_available g + 1\<rparr>) else Inl ())"

fun send_all :: "nat \<Rightarrow> dial_gate \<Rightarrow> (unit, dial_gate) result" where
  "send_all 0 g = Inr g"
| "send_all (Suc n) g = and_then (gate_try_send g) (send_all n)"

definition dial_gate_new :: "(unit, dial_gate) result" where
  "dial_gate_new =
     send_all MAX_CONCURRENT_RELAY_CIRCUIT_DIALS
       \<lparr>gate_available = 0, gate_capacity = MAX_CONCURRENT_RELAY_CIRCUIT_DIALS\<rparr>"

definition dial_gate_acquire :: "dial_gate \<Rightarrow> dial_gate option" where
  "dial_gate_acquire g =
     (if gate_available g = 0 then None else Some (g\<lparr>gate_available := gate_available g - 1\<rparr>))"

definition dial_permit_drop :: "dial_gate \<Rightarrow> (unit, dial_gate) result" where
  "dial_permit_drop g = gate_try_send g"

text \<open>The gate with the number of permits that dials currently hold.\<close>

inductive gate_step :: "dial_gate \<times> nat \<Rightarrow> dial_gate \<times> nat \<Rightarrow> bool" where
  take: "dial_gate_acquire g = Some g' \<Longrightarrow> gate_step (g, held) (g', Suc held)"
| return: "dial_permit_drop g = Inr g' \<Longrightarrow> gate_step (g, Suc held) (g', held)"

section \<open>The grammar of identifiers\<close>

text \<open>A version is an optional \<open>v\<close> and groups of digits, separated by single dots or hyphens.\<close>

definition version_groups :: "string \<Rightarrow> string list" where
  "version_groups s = split_on (CHR ''.'') (map (\<lambda>c. if c = CHR ''-'' then CHR ''.'' else c) s)"

definition digit_group :: "string \<Rightarrow> bool" where
  "digit_group g \<longleftrightarrow> g \<noteq> [] \<and> list_all is_ascii_digit g"

lemma digit_not_sep: "is_ascii_digit c \<Longrightarrow> c \<noteq> CHR ''.'' \<and> c \<noteq> CHR ''-''"
  by (auto simp: ascii_defs)

lemma version_groups_Cons:
  "version_groups [] = [[]]"
  "c = CHR ''.'' \<or> c = CHR ''-'' \<Longrightarrow> version_groups (c # cs) = [] # version_groups cs"
  "c \<noteq> CHR ''.'' \<Longrightarrow> c \<noteq> CHR ''-'' \<Longrightarrow>
    version_groups (c # cs) = (c # hd (version_groups cs)) # tl (version_groups cs)"
  by (auto simp: version_groups_def split: list.splits)

lemma version_groups_ne [simp]: "version_groups s \<noteq> []"
  by (simp add: version_groups_def)

definition adjacent_ok :: "string \<Rightarrow> bool" where
  "adjacent_ok s \<longleftrightarrow> \<not> list_ex (\<lambda>(a, b). \<not> is_ascii_digit a \<and> \<not> is_ascii_digit b) (zip s (tl s))"

lemma adjacent_ok_simps [simp]:
  "adjacent_ok []" "adjacent_ok [c]"
  "adjacent_ok (c # d # cs) \<longleftrightarrow> (is_ascii_digit c \<or> is_ascii_digit d) \<and> adjacent_ok (d # cs)"
  by (simp_all add: adjacent_ok_def)

lemma groups_hd:
  "list_all digit_group (version_groups s) \<longleftrightarrow>
    s \<noteq> [] \<and> is_ascii_digit (hd s) \<and>
    list_all is_ascii_digit (hd (version_groups s)) \<and> list_all digit_group (tl (version_groups s))"
proof (cases s)
  case Nil
  then show ?thesis by (simp add: version_groups_Cons digit_group_def)
next
  case (Cons c cs)
  show ?thesis
  proof (cases "c = CHR ''.'' \<or> c = CHR ''-''")
    case True
    then have "\<not> is_ascii_digit c" using digit_not_sep by blast
    with True Cons show ?thesis by (simp add: version_groups_Cons(2) [OF True] digit_group_def)
  next
    case False
    then show ?thesis
      using Cons version_groups_Cons(3) [of c cs] by (auto simp: digit_group_def)
  qed
qed

lemma groups_tail:
  "list_all is_ascii_digit (hd (version_groups s)) \<and> list_all digit_group (tl (version_groups s)) \<longleftrightarrow>
    list_all (\<lambda>b. is_ascii_digit b \<or> b \<in> {CHR ''.'', CHR ''-''}) s \<and> adjacent_ok s \<and>
    (s = [] \<or> is_ascii_digit (last s))"
proof (induction s)
  case Nil
  then show ?case by (simp add: version_groups_Cons)
next
  case (Cons c cs)
  show ?case
  proof (cases "c = CHR ''.'' \<or> c = CHR ''-''")
    case True
    then have nd: "\<not> is_ascii_digit c" using digit_not_sep by blast
    have "list_all digit_group (version_groups cs) \<longleftrightarrow>
        cs \<noteq> [] \<and> is_ascii_digit (hd cs) \<and> list_all (\<lambda>b. is_ascii_digit b \<or> b \<in> {CHR ''.'', CHR ''-''}) cs \<and>
        adjacent_ok cs \<and> (cs = [] \<or> is_ascii_digit (last cs))"
      unfolding groups_hd Cons.IH ..
    then show ?thesis
      using True nd by (cases cs) (auto simp: version_groups_Cons(2) [OF True])
  next
    case False
    then have g: "version_groups (c # cs) = (c # hd (version_groups cs)) # tl (version_groups cs)"
      by (intro version_groups_Cons(3)) auto
    show ?thesis
      unfolding g using Cons.IH False by (cases cs) auto
  qed
qed

lemma is_version_component_groups:
  "is_version_component s \<longleftrightarrow>
    s \<noteq> [] \<and> length s \<le> VERSION_COMPONENT_MAX_BYTES \<and> list_all digit_group (version_groups (strip_v s))"
proof -
  have "is_version_component s \<longleftrightarrow> s \<noteq> [] \<and> length s \<le> VERSION_COMPONENT_MAX_BYTES \<and>
      strip_v s \<noteq> [] \<and> is_ascii_digit (hd (strip_v s)) \<and> is_ascii_digit (last (strip_v s)) \<and>
      list_all (\<lambda>b. is_ascii_digit b \<or> b \<in> {CHR ''.'', CHR ''-''}) (strip_v s) \<and> adjacent_ok (strip_v s)"
    by (auto simp: is_version_component_def Let_def adjacent_ok_def)
  then show ?thesis
    unfolding groups_hd [of "strip_v s"] groups_tail by blast
qed

text \<open>The two forms of an accepted identifier.\<close>

definition protocol_grammar :: "string list \<Rightarrow> bool" where
  "protocol_grammar components \<longleftrightarrow>
     (\<exists>app version. components = [[], ''auki'', ''auth'', ''1'', app, version] \<and>
        is_application_component app \<and> is_version_component version) \<or>
     (\<exists>names version. components = [] # names @ [version] \<and> names \<noteq> [] \<and> hd names \<noteq> ''auki'' \<and>
        list_all is_application_component names \<and> is_version_component version)"

lemma sdk_application_iff:
  "sdk_application components \<longleftrightarrow>
    (\<exists>app version. components = [[], ''auki'', ''auth'', ''1'', app, version] \<and>
      is_application_component app \<and> is_version_component version)"
proof
  assume s: "sdk_application components"
  then obtain a b c d e f where "components = [a, b, c, d, e, f]"
    by (auto simp: sdk_application_def length_Suc_conv eval_nat_numeral)
  with s show "\<exists>app version. components = [[], ''auki'', ''auth'', ''1'', app, version] \<and>
      is_application_component app \<and> is_version_component version"
    by (simp add: sdk_application_def)
qed (auto simp: sdk_application_def)

lemma product_application_iff:
  "product_application components \<longleftrightarrow>
    (\<exists>names version. components = [] # names @ [version] \<and> names \<noteq> [] \<and> hd names \<noteq> ''auki'' \<and>
      list_all is_application_component names \<and> is_version_component version)"
proof
  assume p: "product_application components"
  then obtain a rest where c: "components = a # rest" and len: "2 \<le> length rest"
    by (cases components) (auto simp: product_application_def)
  then obtain names version where r: "rest = names @ [version]" and ne: "names \<noteq> []"
    by (cases rest rule: rev_cases) (auto simp: Suc_le_eq)
  then show "\<exists>names version. components = [] # names @ [version] \<and> names \<noteq> [] \<and> hd names \<noteq> ''auki'' \<and>
      list_all is_application_component names \<and> is_version_component version"
    using p c by (cases names) (auto simp: product_application_def)
next
  assume "\<exists>names version. components = [] # names @ [version] \<and> names \<noteq> [] \<and> hd names \<noteq> ''auki'' \<and>
      list_all is_application_component names \<and> is_version_component version"
  then obtain n ns version where "components = [] # (n # ns) @ [version]" "n \<noteq> ''auki''"
    "list_all is_application_component (n # ns)" "is_version_component version"
    by (metis list.sel(1) neq_Nil_conv)
  then show "product_application components" by (simp add: product_application_def)
qed

lemma protocol_grammar_iff:
  "sdk_application components \<or> product_application components \<longleftrightarrow> protocol_grammar components"
  unfolding sdk_application_iff product_application_iff protocol_grammar_def ..

lemma split_first_empty: "split_on c s = [] # rest \<Longrightarrow> rest \<noteq> [] \<Longrightarrow> \<exists>t. s = c # t"
  by (cases s) (auto split: if_splits list.splits)

lemma protocol_grammar_slash: "protocol_grammar (split_on (CHR ''/'') s) \<Longrightarrow> \<exists>t. s = CHR ''/'' # t"
  by (auto simp: protocol_grammar_def dest: split_first_empty)

section \<open>The gate\<close>

definition gate_inv :: "dial_gate \<times> nat \<Rightarrow> bool" where
  "gate_inv gh \<longleftrightarrow>
     gate_capacity (fst gh) = MAX_CONCURRENT_RELAY_CIRCUIT_DIALS \<and>
     gate_available (fst gh) + snd gh = MAX_CONCURRENT_RELAY_CIRCUIT_DIALS"

interpretation gate_sys: invariant_system gate_step gate_inv
  by unfold_locales
    (auto elim!: gate_step.cases simp: gate_inv_def dial_gate_acquire_def dial_permit_drop_def
      gate_try_send_def split: if_splits)

lemma send_all_room:
  "gate_available g + n \<le> gate_capacity g \<Longrightarrow>
    send_all n g = Inr (g\<lparr>gate_available := gate_available g + n\<rparr>)"
  by (induction n arbitrary: g) (auto simp: gate_try_send_def)

section \<open>Properties\<close>

text \<open>
  the identifiers that the constructor accepts are exactly those of at most 255 bytes whose
  slash-separated components have one of two forms: \<open>/auki/auth/1/<application>/<version>\<close>, or
  \<open>/<name>/.../<version>\<close> with a first name other than \<open>auki\<close>; the reserved namespace admits
  nothing else. The libp2p constructor that runs last refuses none of them.
\<close>

theorem application_protocol_exact:
  assumes "\<And>s. try_from_owned (CHR ''/'' # s) = Inr (CHR ''/'' # s)"
  shows "application_protocol_new try_from_owned value = Inr p \<longleftrightarrow>
    p = value \<and> length value \<le> 255 \<and> protocol_grammar (split_on (CHR ''/'') value)"
  using assms protocol_grammar_slash [of "value"] protocol_grammar_iff [of "split_on (CHR ''/'') value"]
  by (auto simp: application_protocol_new_def Let_def APPLICATION_PROTOCOL_MAX_BYTES_def)

definition slash_protocol :: "string \<Rightarrow> (string, string) result" where
  "slash_protocol s = (if s \<noteq> [] \<and> hd s = CHR ''/'' then Inr s else Inl ''protocol must start with /'')"

theorem application_protocol_exact_witness:
  "application_protocol_new slash_protocol ''/auki/auth/1/chat/v1.0'' = Inr ''/auki/auth/1/chat/v1.0'' \<longleftrightarrow>
    ''/auki/auth/1/chat/v1.0'' = ''/auki/auth/1/chat/v1.0'' \<and> length ''/auki/auth/1/chat/v1.0'' \<le> 255 \<and>
    protocol_grammar (split_on (CHR ''/'') ''/auki/auth/1/chat/v1.0'')"
  by (rule application_protocol_exact) (simp add: slash_protocol_def)

text \<open>
  the byte-window check of version components recognizes exactly the versions made of an
  optional \<open>v\<close> and non-empty groups of digits separated by single dots or hyphens, of at most 32
  bytes.
\<close>

theorem version_component_grammar:
  "is_version_component s \<longleftrightarrow>
    s \<noteq> [] \<and> length s \<le> 32 \<and> list_all digit_group (version_groups (strip_v s))"
  unfolding is_version_component_groups VERSION_COMPONENT_MAX_BYTES_def ..

text \<open>
  the dial gate never hands out more than ten permits at a time and loses none: it is
  created without panicking, in every history the free permits and the held permits add up to
  ten, a dial is blocked only while ten permits are held, and returning a held permit never
  fails.
\<close>

theorem dial_gate_conserves_permits:
  assumes "dial_gate_new = Inr g0" and "gate_step\<^sup>*\<^sup>* (g0, 0) (g, held)"
  shows "gate_available g + held = 10 \<and> (dial_gate_acquire g = None \<longleftrightarrow> held = 10) \<and>
    (held \<noteq> 0 \<longrightarrow> (\<exists>g'. dial_permit_drop g = Inr g'))"
proof -
  have "g0 = \<lparr>gate_available = 10, gate_capacity = 10\<rparr>"
    using assms(1) send_all_room [of "\<lparr>gate_available = 0, gate_capacity = 10\<rparr>" 10]
    by (simp add: dial_gate_new_def MAX_CONCURRENT_RELAY_CIRCUIT_DIALS_def)
  then have "gate_inv (g0, 0)" by (simp add: gate_inv_def MAX_CONCURRENT_RELAY_CIRCUIT_DIALS_def)
  then have "gate_inv (g, held)" by (rule gate_sys.run_inv [OF assms(2)])
  then show ?thesis
    by (auto simp: gate_inv_def MAX_CONCURRENT_RELAY_CIRCUIT_DIALS_def dial_gate_acquire_def
        dial_permit_drop_def gate_try_send_def)
qed

theorem dial_gate_conserves_permits_witness:
  "gate_available \<lparr>gate_available = 9, gate_capacity = 10\<rparr> + 1 = 10 \<and>
    (dial_gate_acquire \<lparr>gate_available = 9, gate_capacity = 10\<rparr> = None \<longleftrightarrow> (1::nat) = 10) \<and>
    (\<exists>g'. dial_permit_drop \<lparr>gate_available = 9, gate_capacity = 10\<rparr> = Inr g')"
proof -
  let ?g = "\<lparr>gate_available = 10, gate_capacity = 10\<rparr>" and ?g' = "\<lparr>gate_available = 9, gate_capacity = 10\<rparr>"
  have new: "dial_gate_new = Inr ?g"
    using send_all_room [of "\<lparr>gate_available = 0, gate_capacity = 10\<rparr>" 10]
    by (simp add: dial_gate_new_def MAX_CONCURRENT_RELAY_CIRCUIT_DIALS_def)
  have "gate_step (?g, 0) (?g', Suc 0)"
    by (rule gate_step.take) (simp add: dial_gate_acquire_def)
  then have "gate_step\<^sup>*\<^sup>* (?g, 0) (?g', 1)" by simp
  note T = dial_gate_conserves_permits [OF new this]
  have "(1::nat) \<noteq> 0" by simp
  with T show ?thesis by blast
qed

end
