(* ===== verification/Token.thy ===== *)
theory Token
  imports P2p_Error
begin

text \<open>
  DDS credentials (\<open>core/auki-p2p/src/token.rs\<close>): the claim profile of a P2P access token,
  the rotating ring of verification keys, and the store of the installed credential. What the
  sources take from third-party code is the record \<open>token_env\<close>: the texts of Peer IDs and
  UUIDs, UTF-8 validity, the P-256 key parser, the JWT library, HTTP header values and
  calendar times. A clock reading is an
  argument of each operation. The verifier's lock makes an operation on the key ring atomic,
  so it is a function from the ring to its result and the ring it leaves; the same holds for
  the store.
\<close>

section \<open>Constants\<close>

definition nanos_per_sec :: int where
  "nanos_per_sec = 1000000000"

definition P2P_TOKEN_TYPE :: string where
  "P2P_TOKEN_TYPE = ''p2p-access''"

definition P2P_TOKEN_ISSUER :: string where
  "P2P_TOKEN_ISSUER = ''dds''"

definition P2P_TOKEN_AUDIENCE :: string where
  "P2P_TOKEN_AUDIENCE = ''auki-p2p''"

definition P2P_TOKEN_TTL :: u64 where
  "P2P_TOKEN_TTL = 30 * 60"

definition P2P_TOKEN_CLOCK_SKEW :: u64 where
  "P2P_TOKEN_CLOCK_SKEW = 60"

definition P2P_TOKEN_MAX_BYTES :: nat where
  "P2P_TOKEN_MAX_BYTES = 64 * 1024"

definition P2P_TOKEN_MAX_SUBJECT_BYTES :: nat where
  "P2P_TOKEN_MAX_SUBJECT_BYTES = 255"

definition DOMAIN_SERVER_MAX_DOMAINS :: nat where
  "DOMAIN_SERVER_MAX_DOMAINS = 25"

definition P2P_TOKEN_MAX_SCOPES :: nat where
  "P2P_TOKEN_MAX_SCOPES = 32"

definition P2P_TOKEN_MAX_SCOPE_BYTES :: nat where
  "P2P_TOKEN_MAX_SCOPE_BYTES = 128"

definition P2P_TOKEN_MAX_PEER_TYPE_BYTES :: nat where
  "P2P_TOKEN_MAX_PEER_TYPE_BYTES = 64"

definition P2P_TOKEN_MAX_APPLICATION_NAME_BYTES :: nat where
  "P2P_TOKEN_MAX_APPLICATION_NAME_BYTES = 64"

definition P2P_TOKEN_MAX_APPLICATION_VERSION_BYTES :: nat where
  "P2P_TOKEN_MAX_APPLICATION_VERSION_BYTES = 64"

definition DDS_VERIFICATION_KEY_MAX_BYTES :: nat where
  "DDS_VERIFICATION_KEY_MAX_BYTES = 64 * 1024"

definition DDS_PREVIOUS_KEY_MIN_OVERLAP :: int where
  "DDS_PREVIOUS_KEY_MIN_OVERLAP = 31 * 60 * nanos_per_sec"

definition DDS_VERIFICATION_KEYS_MAX_STALENESS :: int where
  "DDS_VERIFICATION_KEYS_MAX_STALENESS = 60 * 60 * nanos_per_sec"

lemmas token_consts = nanos_per_sec_def P2P_TOKEN_TYPE_def P2P_TOKEN_ISSUER_def
  P2P_TOKEN_AUDIENCE_def P2P_TOKEN_TTL_def P2P_TOKEN_CLOCK_SKEW_def P2P_TOKEN_MAX_BYTES_def
  P2P_TOKEN_MAX_SUBJECT_BYTES_def DOMAIN_SERVER_MAX_DOMAINS_def P2P_TOKEN_MAX_SCOPES_def
  P2P_TOKEN_MAX_SCOPE_BYTES_def P2P_TOKEN_MAX_PEER_TYPE_BYTES_def
  P2P_TOKEN_MAX_APPLICATION_NAME_BYTES_def P2P_TOKEN_MAX_APPLICATION_VERSION_BYTES_def
  DDS_VERIFICATION_KEY_MAX_BYTES_def DDS_PREVIOUS_KEY_MIN_OVERLAP_def
  DDS_VERIFICATION_KEYS_MAX_STALENESS_def

section \<open>Data\<close>

datatype peer_role = Robot | Compute | DomainServer

fun peer_role_as_str :: "peer_role \<Rightarrow> string" where
  "peer_role_as_str Robot = ''robot''"
| "peer_role_as_str Compute = ''compute''"
| "peer_role_as_str DomainServer = ''domain_server''"

record signed_application_metadata =
  app_name :: string
  app_version :: string

record p2p_access_claims =
  token_type :: string
  iss :: string
  aud :: "string list"
  sub :: string
  organization_id :: "string option"
  peer_type :: "string option"
  claims_peer_id :: string
  domain_ids :: "string list"
  scopes :: "string list"
  application :: "signed_application_metadata option"
  iat :: u64
  nbf :: "u64 option"
  exp :: u64

record signed_p2p_credential =
  compact :: string

record dds_verification_keys =
  k_generation :: u64
  current_es256_pem :: string
  previous_es256_pem :: "string option"

datatype decoding_key = DecodingKey string

record verification_key =
  pem :: string
  canonical_public_key :: string
  decoding :: decoding_key

record verification_key_ring =
  generation :: u64
  current :: verification_key
  previous :: "verification_key option"
  previous_protected_until :: "instant option"
  last_refreshed_at :: instant

datatype verification_key_transition = ExactRefresh | GenerationAdvance | RotateCurrent | RetirePrevious

text \<open>The settings \<open>decode_claims\<close> hands to the JWT library, and the library itself.\<close>

datatype jwt_algorithm = ES256

record jwt_validation =
  v_algorithm :: jwt_algorithm
  v_leeway :: u64
  v_validate_exp :: bool
  v_audience :: "string list"
  v_issuer :: "string list"
  v_required_spec_claims :: "string list"

record header_value =
  hv_bytes :: string
  hv_sensitive :: bool

record token_env =
  te_codec :: addr_codec
  uuid_to_string :: "uuid \<Rightarrow> string"
  uuid_parse_str :: "string \<Rightarrow> uuid option"
  is_utf8 :: "string \<Rightarrow> bool"
  p256_sec1_from_pem :: "string \<Rightarrow> string option"
  decoding_from_ec_pem :: "string \<Rightarrow> (string, decoding_key) result"
  jwt_decode :: "jwt_validation \<Rightarrow> string \<Rightarrow> decoding_key \<Rightarrow> (string, p2p_access_claims) result"
  header_value_from_bytes :: "string \<Rightarrow> header_value option"
  datetime_from_timestamp :: "int \<Rightarrow> instant option"

section \<open>Signed credentials\<close>

definition token_size_message :: string where
  "token_size_message =
     ''encoded token must contain between 1 and '' @ show_dec P2P_TOKEN_MAX_BYTES @ '' bytes''"

definition signed_p2p_credential_new :: "string \<Rightarrow> signed_p2p_credential p2p_result" where
  "signed_p2p_credential_new s =
     (if s = [] \<or> length s > P2P_TOKEN_MAX_BYTES then Inl (InvalidToken token_size_message)
      else Inr \<lparr>compact = s\<rparr>)"

definition bearer_message :: string where
  "bearer_message = ''encoded token cannot be represented as an HTTP Bearer credential''"

definition to_sensitive_bearer_header :: "token_env \<Rightarrow> signed_p2p_credential \<Rightarrow> header_value p2p_result" where
  "to_sensitive_bearer_header E c =
     (if compact c = [] \<or> \<not> list_all is_ascii_graphic (compact c) then
        Inl (InvalidToken bearer_message)
      else and_then (ok_or (InvalidToken bearer_message)
          (header_value_from_bytes E (''Bearer '' @ compact c)))
        (\<lambda>value. Inr (value\<lparr>hv_sensitive := True\<rparr>)))"

section \<open>Verification keys\<close>

definition parse_key :: "token_env \<Rightarrow> string \<Rightarrow> verification_key p2p_result" where
  "parse_key E p =
     (if p = [] \<or> length p > DDS_VERIFICATION_KEY_MAX_BYTES then
        Inl (InvalidVerificationKeySet (''each verification key must contain between 1 and '' @
          show_dec DDS_VERIFICATION_KEY_MAX_BYTES @ '' bytes''))
      else if \<not> is_utf8 E p then
        Inl (InvalidVerificationKeySet ''verification key PEM must be UTF-8'')
      else
        and_then (ok_or (InvalidVerificationKeySet ''verification key must contain a P-256 public key'')
            (p256_sec1_from_pem E p)) (\<lambda>sec1.
        and_then (map_err InvalidVerificationKey (decoding_from_ec_pem E p)) (\<lambda>dk.
        Inr \<lparr>pem = p, canonical_public_key = sec1, decoding = dk\<rparr>)))"

text \<open>\<open>Option<Result<_>>::transpose\<close>.\<close>

definition transpose_opt :: "('e, 'a) result option \<Rightarrow> ('e, 'a option) result" where
  "transpose_opt x = (case x of None \<Rightarrow> Inr None | Some (Inl e) \<Rightarrow> Inl e | Some (Inr v) \<Rightarrow> Inr (Some v))"

definition parse_key_set ::
  "token_env \<Rightarrow> dds_verification_keys \<Rightarrow> (verification_key \<times> verification_key option) p2p_result" where
  "parse_key_set E ks =
     and_then (parse_key E (current_es256_pem ks)) (\<lambda>cur.
     and_then (transpose_opt (map_option (parse_key E) (previous_es256_pem ks))) (\<lambda>prev.
     if (case prev of None \<Rightarrow> False | Some p \<Rightarrow> canonical_public_key p = canonical_public_key cur) then
       Inl (InvalidVerificationKeySet ''current and previous keys must be different'')
     else Inr (cur, prev)))"

definition validate_key_successor ::
  "u64 \<Rightarrow> verification_key \<Rightarrow> verification_key option \<Rightarrow>
   u64 \<Rightarrow> verification_key \<Rightarrow> verification_key option \<Rightarrow> verification_key_transition p2p_result" where
  "validate_key_successor gen cur prev gen' cur' prev' =
     (if gen' < gen then Inl (StaleVerificationKeyGeneration gen gen')
      else if gen' = gen then
        (if pem cur' \<noteq> pem cur \<or> map_option pem prev' \<noteq> map_option pem prev then
           Inl (VerificationKeyGenerationConflict gen')
         else Inr ExactRefresh)
      else if canonical_public_key cur' \<noteq> canonical_public_key cur then
        (if map_option canonical_public_key prev' \<noteq> Some (canonical_public_key cur) then
           Inl VerificationKeyRotationMissingPrevious
         else Inr RotateCurrent)
      else if map_option canonical_public_key prev' \<noteq> map_option canonical_public_key prev then
        (if prev' \<noteq> None then Inl VerificationKeyRotationMissingPrevious
         else Inr RetirePrevious)
      else Inr GenerationAdvance)"

definition validate_successor ::
  "token_env \<Rightarrow> dds_verification_keys \<Rightarrow> dds_verification_keys \<Rightarrow> unit p2p_result" where
  "validate_successor E ks proposed =
     and_then (parse_key_set E ks) (\<lambda>(cur, prev).
     and_then (parse_key_set E proposed) (\<lambda>(cur', prev').
     and_then (validate_key_successor (k_generation ks) cur prev (k_generation proposed) cur' prev')
       (\<lambda>_. Inr ())))"

definition from_keys :: "token_env \<Rightarrow> dds_verification_keys \<Rightarrow> instant \<Rightarrow> verification_key_ring p2p_result" where
  "from_keys E ks now =
     and_then (parse_key_set E ks) (\<lambda>(cur, prev).
     Inr \<lparr>generation = k_generation ks, current = cur, previous = prev,
       previous_protected_until =
         map_option (\<lambda>_. now + DDS_PREVIOUS_KEY_MIN_OVERLAP) (previous_es256_pem ks),
       last_refreshed_at = now\<rparr>)"

definition from_es256_pem :: "token_env \<Rightarrow> string \<Rightarrow> instant \<Rightarrow> verification_key_ring p2p_result" where
  "from_es256_pem E p now =
     from_keys E \<lparr>k_generation = 0, current_es256_pem = p, previous_es256_pem = None\<rparr> now"

definition overlap_active :: "verification_key_ring \<Rightarrow> instant \<Rightarrow> bool" where
  "overlap_active live now =
     (case previous_protected_until live of None \<Rightarrow> False | Some deadline \<Rightarrow> now < deadline)"

definition install_keys ::
  "verification_key_ring \<Rightarrow> u64 \<Rightarrow> verification_key \<Rightarrow> verification_key option \<Rightarrow> instant \<Rightarrow>
   verification_key_ring" where
  "install_keys live gen cur prev now =
     live\<lparr>generation := gen, current := cur, previous := prev, last_refreshed_at := now\<rparr>"

definition replace_keys_at ::
  "token_env \<Rightarrow> verification_key_ring \<Rightarrow> dds_verification_keys \<Rightarrow> instant \<Rightarrow>
   unit p2p_result \<times> verification_key_ring" where
  "replace_keys_at E live ks now =
     (case parse_key_set E ks of
        Inl e \<Rightarrow> (Inl e, live)
      | Inr (cur, prev) \<Rightarrow>
          (case validate_key_successor (generation live) (current live) (previous live)
                  (k_generation ks) cur prev of
             Inl e \<Rightarrow> (Inl e, live)
           | Inr ExactRefresh \<Rightarrow> (Inr (), live\<lparr>last_refreshed_at := now\<rparr>)
           | Inr RotateCurrent \<Rightarrow>
               if overlap_active live now then (Inl VerificationKeyOverlapActive, live)
               else (Inr (), install_keys
                 (live\<lparr>previous_protected_until := Some (now + DDS_PREVIOUS_KEY_MIN_OVERLAP)\<rparr>)
                 (k_generation ks) cur prev now)
           | Inr RetirePrevious \<Rightarrow>
               if overlap_active live now then (Inl VerificationKeyOverlapActive, live)
               else (Inr (), install_keys (live\<lparr>previous_protected_until := None\<rparr>)
                 (k_generation ks) cur prev now)
           | Inr GenerationAdvance \<Rightarrow>
               (Inr (), install_keys live (k_generation ks) cur prev now)))"

section \<open>The claim profile\<close>

definition decode_claims :: "token_env \<Rightarrow> string \<Rightarrow> decoding_key \<Rightarrow> p2p_access_claims p2p_result" where
  "decode_claims E token key =
     map_err TokenVerification (jwt_decode E
       \<lparr>v_algorithm = ES256, v_leeway = P2P_TOKEN_CLOCK_SKEW, v_validate_exp = False,
        v_audience = [P2P_TOKEN_AUDIENCE], v_issuer = [P2P_TOKEN_ISSUER],
        v_required_spec_claims = [''exp'', ''iat'', ''iss'', ''aud'', ''sub'']\<rparr> token key)"

definition validate_canonical_uuid :: "token_env \<Rightarrow> string \<Rightarrow> string \<Rightarrow> uuid p2p_result" where
  "validate_canonical_uuid E s msg =
     and_then (ok_or (InvalidToken msg) (uuid_parse_str E s)) (\<lambda>u.
     if uuid_to_string E u \<noteq> s then Inl (InvalidToken msg) else Inr u)"

definition validate_visible_ascii :: "string \<Rightarrow> nat \<Rightarrow> string \<Rightarrow> unit p2p_result" where
  "validate_visible_ascii s maximum field =
     (if s = [] \<or> length s > maximum \<or> \<not> list_all is_ascii_graphic s then
        Inl (InvalidToken (field @ '' must contain 1..='' @ show_dec maximum @ '' visible ASCII bytes''))
      else Inr ())"

definition ensure_literal_expiry :: "p2p_access_claims \<Rightarrow> u64 \<Rightarrow> unit p2p_result" where
  "ensure_literal_expiry c now =
     (if exp c \<le> now then Inl (InvalidToken ''token has literally expired'') else Inr ())"

definition checked_sub :: "'a::len word \<Rightarrow> 'a word \<Rightarrow> 'a word option" where
  "checked_sub a b = (if b \<le> a then Some (a - b) else None)"

definition saturating_add :: "'a::len word \<Rightarrow> 'a word \<Rightarrow> 'a word" where
  "saturating_add a b = (case checked_add a b of None \<Rightarrow> - 1 | Some c \<Rightarrow> c)"

text \<open>The two loops of the profile check; the accumulator is the \<open>HashSet\<close> of what was seen.\<close>

fun validate_domain_ids :: "token_env \<Rightarrow> uuid list \<Rightarrow> string list \<Rightarrow> unit p2p_result" where
  "validate_domain_ids E seen [] = Inr ()"
| "validate_domain_ids E seen (d # ds) =
     and_then (validate_canonical_uuid E d ''domain_ids must contain canonical UUIDs'') (\<lambda>u.
     if u \<in> set seen then Inl (InvalidToken ''domain_ids must be unique'')
     else validate_domain_ids E (u # seen) ds)"

fun validate_scopes :: "string list \<Rightarrow> string list \<Rightarrow> unit p2p_result" where
  "validate_scopes seen [] = Inr ()"
| "validate_scopes seen (s # ss) =
     and_then (validate_visible_ascii s P2P_TOKEN_MAX_SCOPE_BYTES ''scope'') (\<lambda>_.
     if s \<in> set seen then Inl (InvalidToken ''scopes must be unique'')
     else validate_scopes (s # seen) ss)"

definition validate_application :: "signed_application_metadata \<Rightarrow> unit p2p_result" where
  "validate_application a =
     and_then (validate_visible_ascii (app_name a) P2P_TOKEN_MAX_APPLICATION_NAME_BYTES
       ''application.name'') (\<lambda>_.
     validate_visible_ascii (app_version a) P2P_TOKEN_MAX_APPLICATION_VERSION_BYTES
       ''application.version'')"

text \<open>\<open>if let Some(x) = value { check(x)?; }\<close>\<close>

definition when_some :: "'a option \<Rightarrow> ('a \<Rightarrow> 'b p2p_result) \<Rightarrow> unit p2p_result" where
  "when_some x check = (case x of None \<Rightarrow> Inr () | Some v \<Rightarrow> and_then (check v) (\<lambda>_. Inr ()))"

text \<open>Identity claims, then the time window, then the Domain and diagnostic claims.\<close>

definition validate_identity_claims :: "token_env \<Rightarrow> p2p_access_claims \<Rightarrow> unit p2p_result" where
  "validate_identity_claims E c =
     (if token_type c \<noteq> P2P_TOKEN_TYPE then Inl (InvalidToken ''unexpected token type'')
      else if iss c \<noteq> P2P_TOKEN_ISSUER then Inl (InvalidToken ''unexpected issuer'')
      else if aud c \<noteq> [P2P_TOKEN_AUDIENCE] then
        Inl (InvalidToken ''audience must be exactly [auki-p2p]'')
      else if sub c = [] \<or> length (sub c) > P2P_TOKEN_MAX_SUBJECT_BYTES then
        Inl (InvalidToken (''subject must contain 1..='' @ show_dec P2P_TOKEN_MAX_SUBJECT_BYTES @
          '' UTF-8 bytes''))
      else
        and_then (when_some (organization_id c) (\<lambda>u.
          validate_canonical_uuid E u ''organization_id must be a canonical UUID'')) (\<lambda>_.
        and_then (ok_or (InvalidToken ''peer_id must be a libp2p Peer ID'')
          (peer_from_str (te_codec E) (claims_peer_id c))) (\<lambda>p.
        if peer_to_string (te_codec E) p \<noteq> claims_peer_id c then
          Inl (InvalidToken ''peer_id must use its canonical representation'')
        else Inr ())))"

definition validate_time_claims :: "p2p_access_claims \<Rightarrow> u64 \<Rightarrow> unit p2p_result" where
  "validate_time_claims c now =
     (if checked_sub (exp c) (iat c) \<noteq> Some P2P_TOKEN_TTL then
        Inl (InvalidToken ''expiration must be exactly 30 minutes after issued-at'')
      else
        and_then (ensure_literal_expiry c now) (\<lambda>_.
        if iat c > saturating_add now P2P_TOKEN_CLOCK_SKEW then
          Inl (InvalidToken ''issued-at is beyond the allowed clock skew'')
        else if (case nbf c of None \<Rightarrow> False
                 | Some not_before \<Rightarrow> not_before > saturating_add now P2P_TOKEN_CLOCK_SKEW) then
          Inl (InvalidToken ''not-before is beyond the allowed clock skew'')
        else Inr ()))"

definition validate_grant_claims :: "token_env \<Rightarrow> p2p_access_claims \<Rightarrow> unit p2p_result" where
  "validate_grant_claims E c =
     (if \<not> (1 \<le> length (domain_ids c) \<and> length (domain_ids c) \<le> DOMAIN_SERVER_MAX_DOMAINS) then
        Inl (InvalidToken ''domain_ids must contain between 1 and 25 Domains'')
      else
        and_then (validate_domain_ids E [] (domain_ids c)) (\<lambda>_.
        and_then (when_some (peer_type c) (\<lambda>t.
          validate_visible_ascii t P2P_TOKEN_MAX_PEER_TYPE_BYTES ''peer_type'')) (\<lambda>_.
        if length (scopes c) > P2P_TOKEN_MAX_SCOPES then
          Inl (InvalidToken (''scopes must contain at most '' @ show_dec P2P_TOKEN_MAX_SCOPES @ '' entries''))
        else
          and_then (validate_scopes [] (scopes c)) (\<lambda>_.
          when_some (application c) validate_application))))"

definition validate_profile :: "token_env \<Rightarrow> p2p_access_claims \<Rightarrow> u64 \<Rightarrow> unit p2p_result" where
  "validate_profile E c now =
     and_then (validate_identity_claims E c) (\<lambda>_.
     and_then (validate_time_claims c now) (\<lambda>_.
     validate_grant_claims E c))"

text \<open>
  \<open>verify_at\<close>: the encoded size, the age of the key set, the signature under the current key
  or else the previous one (the error is the current key's), and the profile.
\<close>

definition decode_with_ring ::
  "token_env \<Rightarrow> verification_key_ring \<Rightarrow> string \<Rightarrow> p2p_access_claims p2p_result" where
  "decode_with_ring E ks token =
     (case decode_claims E token (decoding (current ks)) of
        Inr c \<Rightarrow> Inr c
      | Inl e \<Rightarrow> (case previous ks of
          Some p \<Rightarrow> map_err (\<lambda>_. e) (decode_claims E token (decoding p))
        | None \<Rightarrow> Inl e))"

definition verify_at ::
  "token_env \<Rightarrow> verification_key_ring \<Rightarrow> string \<Rightarrow> u64 \<Rightarrow> instant \<Rightarrow> p2p_access_claims p2p_result" where
  "verify_at E ks token wall monotonic =
     (if token = [] \<or> length token > P2P_TOKEN_MAX_BYTES then Inl (InvalidToken token_size_message)
      else if max 0 (monotonic - last_refreshed_at ks) > DDS_VERIFICATION_KEYS_MAX_STALENESS then
        Inl VerificationKeysStale
      else
        and_then (decode_with_ring E ks token) (\<lambda>c.
        and_then (validate_profile E c wall) (\<lambda>_. Inr c)))"

text \<open>\<open>unix_time_now\<close> of a wall-clock reading: whole seconds, 0 before the epoch.\<close>

definition unix_time :: "instant \<Rightarrow> u64" where
  "unix_time wall = (if wall < 0 then 0 else word_of_int (wall div nanos_per_sec))"

record reading =
  wall_now :: instant
  mono_now :: instant

definition verify :: "token_env \<Rightarrow> verification_key_ring \<Rightarrow> string \<Rightarrow> reading \<Rightarrow> p2p_access_claims p2p_result" where
  "verify E ks token r = verify_at E ks token (unix_time (wall_now r)) (mono_now r)"

definition ensure_token_peer :: "token_env \<Rightarrow> p2p_access_claims \<Rightarrow> peer_id \<Rightarrow> unit p2p_result" where
  "ensure_token_peer E c noise =
     and_then (ok_or (InvalidToken ''peer_id must be a libp2p Peer ID'')
       (peer_from_str (te_codec E) (claims_peer_id c))) (\<lambda>p.
     if p \<noteq> noise then
       Inl (PeerIdMismatch (peer_to_string (te_codec E) p) (peer_to_string (te_codec E) noise))
     else Inr ())"

definition has_domain :: "token_env \<Rightarrow> p2p_access_claims \<Rightarrow> uuid \<Rightarrow> bool" where
  "has_domain E c d \<longleftrightarrow> d \<in> set (List.map_filter (uuid_parse_str E) (domain_ids c))"

definition ensure_token_domain :: "token_env \<Rightarrow> p2p_access_claims \<Rightarrow> uuid \<Rightarrow> unit p2p_result" where
  "ensure_token_domain E c d =
     (if has_domain E c d then Inr () else Inl (LocalDomainMismatch (uuid_to_string E d)))"

section \<open>The credential store\<close>

record stored_credential =
  s_signed :: signed_p2p_credential
  claims :: p2p_access_claims

type_synonym token_store = "stored_credential option"

definition store_default :: token_store where
  "store_default = None"

definition check_expiration :: "u64 option \<Rightarrow> p2p_access_claims \<Rightarrow> unit p2p_result" where
  "check_expiration expected c =
     (case expected of
        Some e \<Rightarrow> if exp c \<noteq> e then Inl (CredentialExpirationMismatch (exp c) e) else Inr ()
      | None \<Rightarrow> Inr ())"

definition check_credential ::
  "token_env \<Rightarrow> verification_key_ring \<Rightarrow> signed_p2p_credential \<Rightarrow> peer_id \<Rightarrow> u64 option \<Rightarrow>
   uuid option \<Rightarrow> reading \<Rightarrow> p2p_access_claims p2p_result" where
  "check_credential E ks s local_peer expected required r =
     and_then (verify E ks (compact s) r) (\<lambda>c.
     and_then (ensure_token_peer E c local_peer) (\<lambda>_.
     and_then (when_some required (ensure_token_domain E c)) (\<lambda>_.
     and_then (check_expiration expected c) (\<lambda>_. Inr c))))"

definition store_install ::
  "token_env \<Rightarrow> verification_key_ring \<Rightarrow> token_store \<Rightarrow> signed_p2p_credential \<Rightarrow> peer_id \<Rightarrow>
   u64 option \<Rightarrow> uuid option \<Rightarrow> reading \<Rightarrow> p2p_access_claims p2p_result \<times> token_store" where
  "store_install E ks st s local_peer expected required r =
     (case check_credential E ks s local_peer expected required r of
        Inl e \<Rightarrow> (Inl e, st)
      | Inr c \<Rightarrow>
          (case st of
             None \<Rightarrow> (Inr c, Some \<lparr>s_signed = s, claims = c\<rparr>)
           | Some installed \<Rightarrow>
               if iat c < iat (claims installed) then
                 (Inl (StaleCredential (iat (claims installed)) (iat c)), st)
               else if iat c = iat (claims installed) then
                 (if c \<noteq> claims installed then (Inl (CredentialIssuedAtConflict (iat c)), st)
                  else (Inr (claims installed), st))
               else (Inr c, Some \<lparr>s_signed = s, claims = c\<rparr>)))"

definition store_clear :: "token_store \<Rightarrow> token_store" where
  "store_clear st = None"

definition store_snapshot :: "token_store \<Rightarrow> signed_p2p_credential option" where
  "store_snapshot st = map_option s_signed st"

definition snapshot_with_claims :: "token_store \<Rightarrow> (signed_p2p_credential \<times> p2p_access_claims) option" where
  "snapshot_with_claims st = map_option (\<lambda>x. (s_signed x, claims x)) st"

section \<open>The profile, declaratively\<close>

definition visible_ascii :: "string \<Rightarrow> nat \<Rightarrow> bool" where
  "visible_ascii s n \<longleftrightarrow> s \<noteq> [] \<and> length s \<le> n \<and> (\<forall>ch \<in> set s. 33 \<le> byte ch \<and> byte ch \<le> 126)"

definition canonical_uuid :: "token_env \<Rightarrow> string \<Rightarrow> bool" where
  "canonical_uuid E s \<longleftrightarrow> (\<exists>u. uuid_parse_str E s = Some u \<and> uuid_to_string E u = s)"

definition canonical_peer :: "token_env \<Rightarrow> string \<Rightarrow> bool" where
  "canonical_peer E s \<longleftrightarrow>
     (\<exists>p. peer_from_str (te_codec E) s = Some p \<and> peer_to_string (te_codec E) p = s)"

text \<open>
  The profile over the numbers the claims stand for: a lifetime of exactly 30 minutes that has
  not ended, issue and activation at most 60 seconds ahead of the local clock.
\<close>

definition p2p_profile :: "token_env \<Rightarrow> p2p_access_claims \<Rightarrow> nat \<Rightarrow> bool" where
  "p2p_profile E c now \<longleftrightarrow>
     token_type c = ''p2p-access'' \<and> iss c = ''dds'' \<and> aud c = [''auki-p2p''] \<and>
     1 \<le> length (sub c) \<and> length (sub c) \<le> 255 \<and>
     (\<forall>u \<in> set_option (organization_id c). canonical_uuid E u) \<and>
     canonical_peer E (claims_peer_id c) \<and>
     unat (exp c) = unat (iat c) + 1800 \<and> now < unat (exp c) \<and>
     unat (iat c) \<le> now + 60 \<and> (\<forall>n \<in> set_option (nbf c). unat n \<le> now + 60) \<and>
     1 \<le> length (domain_ids c) \<and> length (domain_ids c) \<le> 25 \<and>
     (\<forall>d \<in> set (domain_ids c). canonical_uuid E d) \<and> distinct (domain_ids c) \<and>
     (\<forall>t \<in> set_option (peer_type c). visible_ascii t 64) \<and>
     length (scopes c) \<le> 32 \<and> (\<forall>s \<in> set (scopes c). visible_ascii s 128) \<and>
     distinct (scopes c) \<and>
     (\<forall>a \<in> set_option (application c). visible_ascii (app_name a) 64 \<and> visible_ascii (app_version a) 64)"

lemma when_some_ok [simp]:
  "when_some x check = Inr () \<longleftrightarrow> (\<forall>v \<in> set_option x. \<exists>y. check v = Inr y)"
  by (cases x) (auto simp: when_some_def and_then_eq_Inr)

lemma validate_visible_ascii_ok [simp]:
  "validate_visible_ascii s n field = Inr u \<longleftrightarrow> visible_ascii s n"
  by (auto simp: validate_visible_ascii_def visible_ascii_def list_all_iff is_ascii_graphic_def)

lemma validate_canonical_uuid_ok:
  "validate_canonical_uuid E s msg = Inr u \<longleftrightarrow> uuid_parse_str E s = Some u \<and> uuid_to_string E u = s"
  by (auto simp: validate_canonical_uuid_def and_then_eq_Inr)

lemma validate_domain_ids_ok:
  assumes "\<forall>u \<in> set seen. uuid_parse_str E (uuid_to_string E u) = Some u"
  shows "validate_domain_ids E seen ds = Inr () \<longleftrightarrow>
     (\<forall>d \<in> set ds. canonical_uuid E d) \<and> distinct ds \<and>
     set ds \<inter> uuid_to_string E ` set seen = {}"
  using assms
proof (induction ds arbitrary: seen)
  case (Cons d ds)
  show ?case
  proof (cases "canonical_uuid E d")
    case True
    then obtain u where u: "uuid_parse_str E d = Some u" "uuid_to_string E u = d"
      by (auto simp: canonical_uuid_def)
    have step: "validate_domain_ids E seen (d # ds) = Inr () \<longleftrightarrow>
        u \<notin> set seen \<and> validate_domain_ids E (u # seen) ds = Inr ()"
      using u by (auto simp: validate_canonical_uuid_def)
    have seen: "u \<in> set seen \<longleftrightarrow> d \<in> uuid_to_string E ` set seen"
    proof
      assume "d \<in> uuid_to_string E ` set seen"
      then obtain v where "v \<in> set seen" "d = uuid_to_string E v" by blast
      with Cons.prems u(1) show "u \<in> set seen" by auto
    qed (use u(2) in blast)
    have "validate_domain_ids E (u # seen) ds = Inr () \<longleftrightarrow>
        (\<forall>d \<in> set ds. canonical_uuid E d) \<and> distinct ds \<and>
        set ds \<inter> insert d (uuid_to_string E ` set seen) = {}"
      using Cons.IH [of "u # seen"] Cons.prems u by simp
    then show ?thesis
      using True by (simp only: step seen) auto
  qed (auto simp: validate_canonical_uuid_ok and_then_eq_Inr canonical_uuid_def)
qed simp

lemma validate_scopes_ok:
  "validate_scopes seen ss = Inr () \<longleftrightarrow>
     (\<forall>s \<in> set ss. visible_ascii s P2P_TOKEN_MAX_SCOPE_BYTES) \<and> distinct ss \<and> set ss \<inter> set seen = {}"
proof (induction ss arbitrary: seen)
  case (Cons s ss)
  have "validate_scopes seen (s # ss) = Inr () \<longleftrightarrow>
      visible_ascii s P2P_TOKEN_MAX_SCOPE_BYTES \<and> s \<notin> set seen \<and> validate_scopes (s # seen) ss = Inr ()"
    by (simp only: validate_scopes.simps and_then_eq_Inr validate_visible_ascii_ok guard_ok) blast
  then show ?case by (simp only: Cons.IH) auto
qed simp

lemma checked_sub_ok: "checked_sub a b = Some d \<longleftrightarrow> unat a = unat b + unat d"
proof
  assume "checked_sub a b = Some d"
  then have "b \<le> a" "d = a - b" by (auto simp: checked_sub_def split: if_splits)
  then show "unat a = unat b + unat d" by (simp add: unat_sub word_le_nat_alt)
next
  assume eq: "unat a = unat b + unat d"
  then have "b \<le> a" by (simp add: word_le_nat_alt)
  moreover have "unat (a - b) = unat d" using eq \<open>b \<le> a\<close> by (simp add: unat_sub)
  ultimately show "checked_sub a b = Some d" by (simp add: checked_sub_def word_unat_eq_iff)
qed

lemma saturating_add_le: "w \<le> saturating_add a b \<longleftrightarrow> unat w \<le> unat a + unat b"
  for w :: "'a::len word"
proof (cases "checked_add a b")
  case None
  then have "2 ^ LENGTH('a) \<le> unat a + unat b" by (simp add: checked_add_def split: if_splits)
  moreover have "unat w < 2 ^ LENGTH('a)" by (rule unsigned_less)
  ultimately have "unat w \<le> unat a + unat b" by linarith
  then show ?thesis using None by (simp add: saturating_add_def)
next
  case (Some c)
  then show ?thesis by (simp add: saturating_add_def checked_add_unat word_le_nat_alt)
qed

lemma validate_identity_claims_ok:
  "validate_identity_claims E c = Inr () \<longleftrightarrow>
     token_type c = ''p2p-access'' \<and> iss c = ''dds'' \<and> aud c = [''auki-p2p''] \<and>
     1 \<le> length (sub c) \<and> length (sub c) \<le> 255 \<and>
     (\<forall>u \<in> set_option (organization_id c). canonical_uuid E u) \<and>
     canonical_peer E (claims_peer_id c)"
  by (auto simp: validate_identity_claims_def token_consts and_then_eq_Inr canonical_peer_def
      canonical_uuid_def validate_canonical_uuid_ok Suc_le_eq)

lemma validate_time_claims_ok:
  "validate_time_claims c now = Inr () \<longleftrightarrow>
     unat (exp c) = unat (iat c) + 1800 \<and> unat now < unat (exp c) \<and>
     unat (iat c) \<le> unat now + 60 \<and> (\<forall>n \<in> set_option (nbf c). unat n \<le> unat now + 60)"
proof -
  have skew: "unat P2P_TOKEN_CLOCK_SKEW = 60" and ttl: "unat P2P_TOKEN_TTL = 1800"
    by (simp_all add: token_consts)
  have late: "w > saturating_add now P2P_TOKEN_CLOCK_SKEW \<longleftrightarrow> \<not> unat w \<le> unat now + 60" for w
    using saturating_add_le [of w now P2P_TOKEN_CLOCK_SKEW] by (simp add: not_le [symmetric] skew)
  have "(case nbf c of None \<Rightarrow> False | Some n \<Rightarrow> n > saturating_add now P2P_TOKEN_CLOCK_SKEW) \<longleftrightarrow>
      \<not> (\<forall>n \<in> set_option (nbf c). unat n \<le> unat now + 60)"
    by (cases "nbf c") (simp_all add: late)
  moreover have "ensure_literal_expiry c now = Inr () \<longleftrightarrow> unat now < unat (exp c)"
    by (simp add: ensure_literal_expiry_def word_le_nat_alt not_le)
  ultimately show ?thesis
    by (simp only: validate_time_claims_def late checked_sub_ok ttl and_then_eq_Inr guard_ok) auto
qed

lemma validate_grant_claims_ok:
  "validate_grant_claims E c = Inr () \<longleftrightarrow>
     1 \<le> length (domain_ids c) \<and> length (domain_ids c) \<le> 25 \<and>
     (\<forall>d \<in> set (domain_ids c). canonical_uuid E d) \<and> distinct (domain_ids c) \<and>
     (\<forall>t \<in> set_option (peer_type c). visible_ascii t 64) \<and>
     length (scopes c) \<le> 32 \<and> (\<forall>s \<in> set (scopes c). visible_ascii s 128) \<and>
     distinct (scopes c) \<and>
     (\<forall>a \<in> set_option (application c). visible_ascii (app_name a) 64 \<and> visible_ascii (app_version a) 64)"
  by (auto simp: validate_grant_claims_def and_then_eq_Inr validate_domain_ids_ok validate_scopes_ok
      token_consts validate_application_def)

lemma validate_profile_ok: "validate_profile E c now = Inr () \<longleftrightarrow> p2p_profile E c (unat now)"
  by (simp add: validate_profile_def and_then_eq_Inr p2p_profile_def validate_identity_claims_ok
      validate_time_claims_ok validate_grant_claims_ok)

section \<open>Runs of the key ring\<close>

text \<open>
  Updates of the live ring, accepted or refused, at clock readings that never go back (the
  authority's update gate serialises them).
\<close>

inductive ring_step ::
  "token_env \<Rightarrow> verification_key_ring \<times> instant \<Rightarrow> verification_key_ring \<times> instant \<Rightarrow> bool"
  for E where
  replace: "t \<le> now \<Longrightarrow> ring_step E (live, t) (snd (replace_keys_at E live ks now), now)"

inductive_cases ring_stepE: "ring_step E rt rt'"

definition key_parsed :: "token_env \<Rightarrow> verification_key \<Rightarrow> bool" where
  "key_parsed E k \<longleftrightarrow> parse_key E (pem k) = Inr k"

definition ring_ok :: "token_env \<Rightarrow> verification_key_ring \<Rightarrow> bool" where
  "ring_ok E r \<longleftrightarrow>
     key_parsed E (current r) \<and> (\<forall>p \<in> set_option (previous r). key_parsed E p) \<and>
     (previous r = None \<longleftrightarrow> previous_protected_until r = None) \<and>
     map_option canonical_public_key (previous r) \<noteq> Some (canonical_public_key (current r))"

lemma parse_key_pem: "parse_key E p = Inr k \<Longrightarrow> pem k = p"
  by (auto simp: parse_key_def guard_ok and_then_eq_Inr)

lemma parse_key_parsed: "parse_key E p = Inr k \<Longrightarrow> key_parsed E k"
  by (simp add: key_parsed_def parse_key_pem)

lemma transpose_opt_Inr [simp]:
  "transpose_opt x = Inr y \<longleftrightarrow> (case x of None \<Rightarrow> y = None | Some r \<Rightarrow> \<exists>v. r = Inr v \<and> y = Some v)"
  by (auto simp: transpose_opt_def split: option.splits sum.splits)

lemma parse_key_set_Inr:
  assumes "parse_key_set E ks = Inr (cur, prev)"
  shows "key_parsed E cur" "\<forall>p \<in> set_option prev. key_parsed E p"
    "prev = None \<longleftrightarrow> previous_es256_pem ks = None"
    "map_option canonical_public_key prev \<noteq> Some (canonical_public_key cur)"
    "pem cur = current_es256_pem ks" "map_option pem prev = previous_es256_pem ks"
  using assms
  by (auto simp: parse_key_set_def and_then_eq_Inr guard_ok dest: parse_key_parsed parse_key_pem
      split: option.splits)

lemma from_keys_ok: "from_keys E ks now = Inr r \<Longrightarrow> ring_ok E r"
  by (auto simp: from_keys_def and_then_eq_Inr ring_ok_def dest: parse_key_set_Inr)

lemma install_keys_eq:
  "install_keys live gen cur prev now =
     \<lparr>generation = gen, current = cur, previous = prev,
      previous_protected_until = previous_protected_until live, last_refreshed_at = now\<rparr>"
  by (cases live) (simp add: install_keys_def)

text \<open>
  What an update does: nothing when refused; otherwise one of the four transitions, and the two
  that drop a key need the protection of the previous key to be over.
\<close>

lemma replace_keys_at_cases:
  assumes "replace_keys_at E live ks now = (res, live')"
  obtains (refused) e where "res = Inl e" "live' = live"
  | (refresh) cur prev where "res = Inr ()" "parse_key_set E ks = Inr (cur, prev)"
      "k_generation ks = generation live" "live' = live\<lparr>last_refreshed_at := now\<rparr>"
      "pem cur = pem (current live)" "map_option pem prev = map_option pem (previous live)"
  | (install) cur prev until where "res = Inr ()" "parse_key_set E ks = Inr (cur, prev)"
      "generation live < k_generation ks"
      "live' = \<lparr>generation = k_generation ks, current = cur, previous = prev,
        previous_protected_until = until, last_refreshed_at = now\<rparr>"
      "(canonical_public_key cur \<noteq> canonical_public_key (current live) \<and>
          map_option canonical_public_key prev = Some (canonical_public_key (current live)) \<and>
          \<not> overlap_active live now \<and> until = Some (now + DDS_PREVIOUS_KEY_MIN_OVERLAP)) \<or>
       (canonical_public_key cur = canonical_public_key (current live) \<and> prev = None \<and>
          previous live \<noteq> None \<and> \<not> overlap_active live now \<and> until = None) \<or>
       (canonical_public_key cur = canonical_public_key (current live) \<and>
          map_option canonical_public_key prev = map_option canonical_public_key (previous live) \<and>
          until = previous_protected_until live)"
proof (cases "parse_key_set E ks")
  case (Inl e)
  then show ?thesis using assms refused by (auto simp: replace_keys_at_def)
next
  case (Inr kp)
  obtain cur prev where kp: "kp = (cur, prev)" by (cases kp)
  show ?thesis
  proof (cases "validate_key_successor (generation live) (current live) (previous live)
      (k_generation ks) cur prev")
    case (Inl e)
    then show ?thesis using assms refused Inr kp by (auto simp: replace_keys_at_def)
  next
    case succ: (Inr t)
    have later: "generation live < k_generation ks" if "t \<noteq> ExactRefresh"
      using succ that by (auto simp: validate_key_successor_def guard_ok split: if_splits)
    show ?thesis
    proof (cases t)
      case ExactRefresh
      then have "k_generation ks = generation live" "pem cur = pem (current live)"
          "map_option pem prev = map_option pem (previous live)"
        using succ by (auto simp: validate_key_successor_def split: if_splits)
      with ExactRefresh show ?thesis using assms refresh Inr kp succ by (auto simp: replace_keys_at_def)
    next
      case RotateCurrent
      then have "canonical_public_key cur \<noteq> canonical_public_key (current live)"
          "map_option canonical_public_key prev = Some (canonical_public_key (current live))"
        using succ by (auto simp: validate_key_successor_def split: if_splits)
      with RotateCurrent show ?thesis
        using assms refused install later Inr kp succ
        by (auto simp: replace_keys_at_def install_keys_eq split: if_splits)
    next
      case RetirePrevious
      then have "canonical_public_key cur = canonical_public_key (current live)" "prev = None"
          "previous live \<noteq> None"
        using succ by (auto simp: validate_key_successor_def split: if_splits)
      with RetirePrevious show ?thesis
        using assms refused install later Inr kp succ
        by (auto simp: replace_keys_at_def install_keys_eq split: if_splits)
    next
      case GenerationAdvance
      then have "canonical_public_key cur = canonical_public_key (current live)"
          "map_option canonical_public_key prev = map_option canonical_public_key (previous live)"
        using succ by (auto simp: validate_key_successor_def split: if_splits)
      with GenerationAdvance show ?thesis
        using assms install later Inr kp succ by (auto simp: replace_keys_at_def install_keys_eq)
    qed
  qed
qed


text \<open>After an accepted update the ring holds the keys of the update, freshly dated.\<close>

lemma key_parsed_unique: "key_parsed E k \<Longrightarrow> key_parsed E k' \<Longrightarrow> pem k = pem k' \<Longrightarrow> k = k'"
  by (metis key_parsed_def sum.inject(2))

lemma replace_keys_at_installed:
  assumes "ring_ok E live" "replace_keys_at E live ks now = (Inr (), live')"
  shows "parse_key_set E ks = Inr (current live', previous live')" "last_refreshed_at live' = now"
proof -
  have "parse_key_set E ks = Inr (current live', previous live') \<and> last_refreshed_at live' = now"
    using assms(2)
  proof (cases rule: replace_keys_at_cases)
    case (refresh cur prev)
    have "cur = current live"
      using assms(1) parse_key_set_Inr(1) [OF refresh(2)] refresh(5)
      by (auto simp: ring_ok_def intro: key_parsed_unique)
    moreover have "prev = previous live"
      using assms(1) parse_key_set_Inr(2) [OF refresh(2)] refresh(6)
      by (cases prev; cases "previous live") (auto simp: ring_ok_def intro: key_parsed_unique)
    ultimately show ?thesis using refresh by simp
  qed auto
  then show "parse_key_set E ks = Inr (current live', previous live')" "last_refreshed_at live' = now"
    by simp_all
qed

definition ring_pems :: "verification_key_ring \<Rightarrow> string \<times> string option" where
  "ring_pems r = (pem (current r), map_option pem (previous r))"

lemma replace_keys_at_ok:
  assumes "ring_ok E live" "replace_keys_at E live ks now = (res, live')"
  shows "ring_ok E live'" "generation live \<le> generation live'"
    "generation live' = generation live \<Longrightarrow> ring_pems live' = ring_pems live"
proof -
  show "generation live \<le> generation live'"
    using assms(2) by (cases rule: replace_keys_at_cases) auto
  show "generation live' = generation live \<Longrightarrow> ring_pems live' = ring_pems live"
    using assms(2) by (cases rule: replace_keys_at_cases) (auto simp: ring_pems_def)
  from assms(2) show "ring_ok E live'"
  proof (cases rule: replace_keys_at_cases)
    case (install cur prev until)
    have "prev = None \<longleftrightarrow> until = None"
      using install(5) assms(1) by (auto simp: ring_ok_def)
    with install(4) parse_key_set_Inr [OF install(2)] show ?thesis
      by (simp add: ring_ok_def)
  qed (use assms(1) in \<open>simp_all add: ring_ok_def\<close>)
qed

interpretation ring_sys: versioned_system "ring_step E" "\<lambda>rt. ring_ok E (fst rt)"
    "\<lambda>rt. generation (fst rt)" "\<lambda>rt. ring_pems (fst rt)"
  by unfold_locales (auto elim!: ring_stepE intro: replace_keys_at_ok [OF _ surjective_pairing])

lemma ring_step_clock: "ring_step E rt rt' \<Longrightarrow> snd rt \<le> snd rt'"
  by (auto elim: ring_stepE)

lemma ring_run_clock: "(ring_step E)\<^sup>*\<^sup>* rt rt' \<Longrightarrow> snd rt \<le> snd rt'"
  by (induction rule: rtranclp_induct) (auto dest: ring_step_clock)

section \<open>The overlap of a rotation\<close>

text \<open>
  A key protected until \<open>D\<close>: it is the current key, or the previous one with a protection that
  lasts at least until \<open>D\<close>.
\<close>

definition protected_key :: "string \<Rightarrow> instant \<Rightarrow> verification_key_ring \<Rightarrow> bool" where
  "protected_key k D r \<longleftrightarrow>
     canonical_public_key (current r) = k \<or>
     (map_option canonical_public_key (previous r) = Some k \<and>
      (\<exists>u. previous_protected_until r = Some u \<and> D \<le> u))"

lemma protected_key_step:
  assumes "protected_key k D live" "replace_keys_at E live ks now = (res, live')"
    and "now < D" "D \<le> now + DDS_PREVIOUS_KEY_MIN_OVERLAP"
  shows "protected_key k D live'"
  using assms(2)
proof (cases rule: replace_keys_at_cases)
  case (install cur prev until)
  show ?thesis
  proof (cases "canonical_public_key (current live) = k")
    case True
    with install(4,5) assms(4) show ?thesis by (auto simp: protected_key_def)
  next
    case False
    with assms(1,3) have "overlap_active live now"
      by (auto simp: protected_key_def overlap_active_def)
    with install(4,5) assms(1) False show ?thesis by (auto simp: protected_key_def)
  qed
qed (use assms(1) in \<open>simp_all add: protected_key_def\<close>)

lemma protected_key_run:
  assumes "(ring_step E)\<^sup>*\<^sup>* rt rt'" and "protected_key k D (fst rt)"
    and "snd rt' < D" "D \<le> snd rt + DDS_PREVIOUS_KEY_MIN_OVERLAP"
  shows "protected_key k D (fst rt')"
  using assms
proof (induction rule: rtranclp_induct)
  case (step y z)
  have le: "snd rt \<le> snd y" "snd y \<le> snd z"
    using step.hyps ring_run_clock ring_step_clock by blast+
  with step have "protected_key k D (fst y)" by simp
  show ?case
    using step.hyps(2)
  proof (cases rule: ring_step.cases)
    case (replace t now live ks)
    then show ?thesis
      using \<open>protected_key k D (fst y)\<close> step.prems le
      by (auto intro: protected_key_step [OF _ surjective_pairing])
  qed
qed

text \<open>
  The JWT library's verdict on a token depends on the public key, not on which PEM text the key
  was read from.
\<close>

definition jwt_key_verdict :: "token_env \<Rightarrow> bool" where
  "jwt_key_verdict E \<longleftrightarrow>
     (\<forall>p q v token d d'. p256_sec1_from_pem E p \<noteq> None \<longrightarrow>
        p256_sec1_from_pem E p = p256_sec1_from_pem E q \<longrightarrow>
        decoding_from_ec_pem E p = Inr d \<longrightarrow> decoding_from_ec_pem E q = Inr d' \<longrightarrow>
        jwt_decode E v token d = jwt_decode E v token d')"

lemma key_parsed_decode:
  assumes "jwt_key_verdict E" "key_parsed E k" "key_parsed E k'"
    and "canonical_public_key k = canonical_public_key k'"
  shows "decode_claims E token (decoding k) = decode_claims E token (decoding k')"
proof -
  have parsed: "p256_sec1_from_pem E (pem x) = Some (canonical_public_key x) \<and>
      decoding_from_ec_pem E (pem x) = Inr (decoding x)" if "key_parsed E x" for x
    using that by (cases x) (auto simp: key_parsed_def parse_key_def guard_ok and_then_eq_Inr)
  have "jwt_decode E v token (decoding k) = jwt_decode E v token (decoding k')" for v
    using assms(1) [unfolded jwt_key_verdict_def, rule_format, of "pem k" "pem k'" "decoding k"]
      parsed [OF assms(2)] parsed [OF assms(3)] assms(4) by simp
  then show ?thesis by (simp add: decode_claims_def)
qed

section \<open>Runs of the store\<close>

inductive store_step :: "token_env \<Rightarrow> token_store \<Rightarrow> token_store \<Rightarrow> bool" for E where
  install: "store_step E st (snd (store_install E ks st s local_peer expected required r))"

definition store_rank :: "token_store \<Rightarrow> nat" where
  "store_rank st = (case st of None \<Rightarrow> 0 | Some x \<Rightarrow> Suc (unat (iat (claims x))))"

lemma store_install_cases:
  assumes "store_install E ks st s local_peer expected required r = (res, st')"
  obtains (refused) e where "res = Inl e" "st' = st"
  | (same) x where "st = Some x" "res = Inr (claims x)" "st' = st"
      "check_credential E ks s local_peer expected required r = Inr (claims x)"
  | (installed) c where "res = Inr c" "st' = Some \<lparr>s_signed = s, claims = c\<rparr>"
      "check_credential E ks s local_peer expected required r = Inr c" "store_rank st < store_rank st'"
proof (cases "check_credential E ks s local_peer expected required r")
  case (Inl e)
  show ?thesis by (rule refused [of e]) (use assms Inl in \<open>simp_all add: store_install_def\<close>)
next
  case (Inr c)
  show ?thesis
  proof (cases st)
    case None
    then have "res = Inr c" "st' = Some \<lparr>s_signed = s, claims = c\<rparr>"
      using assms Inr by (simp_all add: store_install_def)
    then show ?thesis using None by (intro installed [OF _ _ Inr]) (simp_all add: store_rank_def)
  next
    case (Some x)
    consider "iat c < iat (claims x)" | "iat c = iat (claims x)" "c \<noteq> claims x" | "c = claims x"
      | "iat c > iat (claims x)" by force
    then show ?thesis
    proof cases
      case 1
      show ?thesis by (rule refused [of "StaleCredential (iat (claims x)) (iat c)"])
        (use assms Inr Some 1 in \<open>simp_all add: store_install_def\<close>)
    next
      case 2
      show ?thesis by (rule refused [of "CredentialIssuedAtConflict (iat c)"])
        (use assms Inr Some 2 in \<open>simp_all add: store_install_def\<close>)
    next
      case 3
      show ?thesis by (rule same [OF Some])
        (use assms Inr Some 3 in \<open>simp_all add: store_install_def\<close>)
    next
      case 4
      then have "\<not> iat c < iat (claims x)" "iat c \<noteq> iat (claims x)" by (auto simp: word_less_nat_alt)
      then have "res = Inr c" "st' = Some \<lparr>s_signed = s, claims = c\<rparr>"
        using assms Inr Some by (simp_all add: store_install_def)
      then show ?thesis
        using Some 4 by (intro installed [OF _ _ Inr]) (simp_all add: store_rank_def word_less_nat_alt)
    qed
  qed
qed

lemma store_install_rank:
  assumes "store_install E ks st s local_peer expected required r = (res, st')"
  shows "store_rank st \<le> store_rank st'" "store_rank st' = store_rank st \<Longrightarrow> st' = st"
  using assms by (cases rule: store_install_cases; simp)+

interpretation store_sys: versioned_system "store_step E" "\<lambda>_. True" store_rank "\<lambda>st. st"
  by unfold_locales (auto elim!: store_step.cases intro: store_install_rank [OF surjective_pairing])

section \<open>A concrete environment\<close>

text \<open>
  For evaluation: a key's PEM is its own public key, a token starts with the byte of the key
  that signed it and ends with the byte of its peer, and its length is its issue time in seconds. UUIDs are decimal numbers.
\<close>

definition sample_claims :: "peer_id \<Rightarrow> u64 \<Rightarrow> p2p_access_claims" where
  "sample_claims p t = \<lparr>token_type = ''p2p-access'', iss = ''dds'', aud = [''auki-p2p''],
     sub = ''robot-1'', organization_id = None, peer_type = Some ''robot'',
     claims_peer_id = ref_peer_to_string p, domain_ids = [''7''], scopes = [''domain-data:r''],
     application = None, iat = t, nbf = None, exp = t + 1800\<rparr>"

fun sample_jwt_decode ::
  "jwt_validation \<Rightarrow> string \<Rightarrow> decoding_key \<Rightarrow> (string, p2p_access_claims) result" where
  "sample_jwt_decode v token (DecodingKey p) =
     (if take 1 token = take 1 p then Inr (sample_claims (PeerId [last token]) (word_of_nat (length token)))
      else Inl ''InvalidSignature'')"

definition sample_env :: token_env where
  "sample_env = \<lparr>te_codec = ref_codec, uuid_to_string = (\<lambda>u. show_dec (unat u)),
     uuid_parse_str = (\<lambda>s. if s \<noteq> [] \<and> list_all is_ascii_digit s
       then Some (word_of_nat (dec_val s)) else None),
     is_utf8 = (\<lambda>_. True), p256_sec1_from_pem = Some, decoding_from_ec_pem = (\<lambda>p. Inr (DecodingKey p)),
     jwt_decode = sample_jwt_decode,
     header_value_from_bytes = (\<lambda>b. Some \<lparr>hv_bytes = b, hv_sensitive = False\<rparr>),
     datetime_from_timestamp = (\<lambda>s. Some (s * 1000000000))\<rparr>"

definition sample_key :: "string \<Rightarrow> verification_key" where
  "sample_key p = \<lparr>pem = p, canonical_public_key = p, decoding = DecodingKey p\<rparr>"

definition sample_ring :: verification_key_ring where
  "sample_ring = \<lparr>generation = 1, current = sample_key ''A'', previous = None,
     previous_protected_until = None, last_refreshed_at = 0\<rparr>"

definition sample_ring_rotated :: verification_key_ring where
  "sample_ring_rotated = \<lparr>generation = 2, current = sample_key ''B'', previous = Some (sample_key ''A''),
     previous_protected_until = Some (5 + 31 * 60 * 1000000000), last_refreshed_at = 5\<rparr>"

definition sample_keys :: dds_verification_keys where
  "sample_keys = \<lparr>k_generation = 1, current_es256_pem = ''A'', previous_es256_pem = None\<rparr>"

definition sample_keys_rotated :: dds_verification_keys where
  "sample_keys_rotated = \<lparr>k_generation = 2, current_es256_pem = ''B'', previous_es256_pem = Some ''A''\<rparr>"

lemmas sample_token_defs = sample_env_def sample_key_def sample_ring_def sample_ring_rotated_def
  sample_keys_def sample_keys_rotated_def

lemma sample_env_verdict: "jwt_key_verdict sample_env"
  by (auto simp: jwt_key_verdict_def sample_env_def)

lemma sample_parse_key:
  "p \<noteq> [] \<Longrightarrow> length p \<le> 65536 \<Longrightarrow> parse_key sample_env p = Inr (sample_key p)"
  by (simp add: parse_key_def sample_env_def sample_key_def token_consts)

lemma sample_from_keys: "from_keys sample_env sample_keys 0 = Inr sample_ring"
  by (simp add: from_keys_def parse_key_set_def sample_parse_key sample_keys_def sample_ring_def
      transpose_opt_def)

lemma sample_replace_keys:
  "replace_keys_at sample_env sample_ring sample_keys_rotated 5 = (Inr (), sample_ring_rotated)"
  by (simp add: replace_keys_at_def parse_key_set_def sample_parse_key sample_keys_rotated_def
      sample_ring_def sample_ring_rotated_def transpose_opt_def validate_key_successor_def
      sample_key_def overlap_active_def install_keys_def token_consts)

lemma sample_rotation: "(ring_step sample_env)\<^sup>*\<^sup>* (sample_ring, 0) (sample_ring_rotated, 5)"
  using ring_step.replace [of 0 5 sample_env sample_ring sample_keys_rotated]
  by (auto simp: sample_replace_keys)

lemma sample_profile:
  "p2p_profile sample_env (sample_claims p t) now \<longleftrightarrow>
     unat t + 1800 < 2 ^ 64 \<and> now < unat t + 1800 \<and> unat t \<le> now + 60"
proof -
  have "canonical_uuid sample_env ''7''"
    by (simp add: canonical_uuid_def sample_env_def dec_eval)
  moreover have "canonical_peer sample_env (ref_peer_to_string p)"
    using codec_peer_roundtrip [OF ref_codec_ok, of p]
    by (auto simp: canonical_peer_def sample_env_def ref_codec_def)
  moreover have "visible_ascii ''robot'' 64" "visible_ascii ''domain-data:r'' 128"
    by (simp_all add: visible_ascii_def)
  moreover have "unat (t + 1800) = unat t + 1800 \<longleftrightarrow> unat t + 1800 < 2 ^ 64"
    using unat_plus_if' [of t "1800 :: u64"] unsigned_less [of "t + 1800", where ?'a = nat]
    by (auto split: if_splits)
  ultimately show ?thesis
    by (auto simp: p2p_profile_def sample_claims_def)
qed

lemma sample_verify:
  assumes "token \<noteq> []" "length token < 65536" "mono_now r \<le> 3600 * 1000000000"
    "take 1 token = ''A''" "length token \<le> unat (unix_time (wall_now r)) + 60"
    "unat (unix_time (wall_now r)) < length token + 1800"
  shows "verify sample_env sample_ring token r = Inr (sample_claims (PeerId [last token]) (word_of_nat (length token)))"
    "verify sample_env sample_ring_rotated token r = Inr (sample_claims (PeerId [last token]) (word_of_nat (length token)))"
proof -
  have t: "unat (word_of_nat (length token) :: u64) = length token"
    using assms(2) by (simp add: unsigned_of_nat take_bit_nat_eq_self)
  have profile: "validate_profile sample_env (sample_claims (PeerId [last token]) (word_of_nat (length token)))
      (unix_time (wall_now r)) = Inr ()"
    using assms t by (simp add: validate_profile_ok sample_profile)
  show "verify sample_env sample_ring token r = Inr (sample_claims (PeerId [last token]) (word_of_nat (length token)))"
    "verify sample_env sample_ring_rotated token r = Inr (sample_claims (PeerId [last token]) (word_of_nat (length token)))"
    using assms profile
    by (simp_all add: verify_def verify_at_def decode_with_ring_def decode_claims_def
        sample_ring_def sample_ring_rotated_def sample_key_def sample_env_def token_consts)
qed

section \<open>Properties\<close>

text \<open>
  C12: Key rotation never cuts off a live token. Take any verifier built by \<open>from_keys\<close> and any
  history of updates at times that do not go back. A token whose signature the key that is
  current at time \<open>t1\<close> accepts is still accepted by the signature check of the ring at every
  later time before \<open>t1\<close> plus 31 minutes (a token's whole life of 30 minutes and the minute of
  skew), whatever updates, rotations and retirements were attempted in between.
\<close>

theorem rotation_keeps_tokens_verifiable:
  assumes "jwt_key_verdict E" and "from_keys E ks t = Inr r"
    and "(ring_step E)\<^sup>*\<^sup>* (r, t) (r1, t1)"
    and "decode_claims E token (decoding (current r1)) = Inr c"
    and "(ring_step E)\<^sup>*\<^sup>* (r1, t1) (r2, t2)" and "t2 < t1 + DDS_PREVIOUS_KEY_MIN_OVERLAP"
  shows "\<exists>c'. decode_with_ring E r2 token = Inr c'"
proof -
  have ok1: "ring_ok E r1"
    using ring_sys.run_inv [OF assms(3)] from_keys_ok [OF assms(2)] by simp
  have ok2: "ring_ok E r2"
    using ring_sys.run_inv [OF assms(5)] ok1 by simp
  have "protected_key (canonical_public_key (current r1)) (t1 + DDS_PREVIOUS_KEY_MIN_OVERLAP) r2"
    using protected_key_run [OF assms(5)] assms(6) by (simp add: protected_key_def)
  then consider "canonical_public_key (current r2) = canonical_public_key (current r1)"
    | p where "previous r2 = Some p" "canonical_public_key p = canonical_public_key (current r1)"
    by (auto simp: protected_key_def)
  then show ?thesis
  proof cases
    case 1
    then have "decode_claims E token (decoding (current r2)) = Inr c"
      using key_parsed_decode [OF assms(1)] ok1 ok2 assms(4) by (metis ring_ok_def)
    then show ?thesis by (simp add: decode_with_ring_def)
  next
    case 2
    then have "key_parsed E p" "key_parsed E (current r1)"
      using ok1 ok2 by (auto simp: ring_ok_def)
    then have "decode_claims E token (decoding p) = Inr c"
      using key_parsed_decode [OF assms(1)] 2(2) assms(4) by metis
    then show ?thesis using 2(1) by (simp add: decode_with_ring_def split: sum.split)
  qed
qed

theorem rotation_keeps_tokens_verifiable_witness:
  "current sample_ring_rotated = sample_key ''B'' \<and>
   (\<exists>c'. decode_with_ring sample_env sample_ring_rotated ''AR'' = Inr c')"
proof -
  have "decode_claims sample_env ''AR'' (decoding (current sample_ring)) = Inr (sample_claims sample_relay 2)"
    by (simp add: decode_claims_def sample_token_defs sample_relay_def)
  from rotation_keeps_tokens_verifiable [OF sample_env_verdict sample_from_keys rtranclp.rtrancl_refl
      this sample_rotation]
  show ?thesis by (simp add: token_consts sample_ring_rotated_def)
qed

text \<open>
  A key generation stands for one pair of PEM texts. Along any history of accepted and
  refused updates the generation of the ring never decreases, and two states of the ring with
  the same generation hold byte-identical current and previous keys.
\<close>

theorem key_generation_identifies_keys:
  assumes "from_keys E ks t = Inr r" and "(ring_step E)\<^sup>*\<^sup>* (r, t) (r1, t1)"
    and "(ring_step E)\<^sup>*\<^sup>* (r1, t1) (r2, t2)"
  shows "generation r1 \<le> generation r2 \<and>
    (generation r1 = generation r2 \<longrightarrow>
      pem (current r1) = pem (current r2) \<and> map_option pem (previous r1) = map_option pem (previous r2))"
proof -
  have ok1: "ring_ok E (fst (r1, t1))"
    using ring_sys.run_inv [OF assms(2)] from_keys_ok [OF assms(1)] by simp
  from ring_sys.run_rank [OF assms(3) ok1] ring_sys.run_view [OF assms(3) ok1]
  show ?thesis by (simp add: ring_pems_def)
qed

theorem key_generation_identifies_keys_witness:
  "generation sample_ring \<le> generation sample_ring_rotated"
  using key_generation_identifies_keys [OF sample_from_keys rtranclp.rtrancl_refl sample_rotation]
  by blast

text \<open>
  C18: What a verified token is. \<open>verify_at\<close> returns claims exactly when the compact token has
  1 to 65536 bytes, the key set was refreshed within the last hour, the current key (or else
  the previous one) accepts the signature with these claims, and the claims satisfy the
  profile read as a statement on numbers and texts: type, issuer and audience; a lifetime of
  exactly 1800 seconds that has not ended; issue and activation at most 60 seconds in the
  future, with no wrap-around at either end of \<open>u64\<close>; 1 to 25 distinct canonical Domain ids;
  and bounded visible-ASCII diagnostics without repeated scopes.
\<close>

theorem verified_token_exact:
  "verify_at E ks token now monotonic = Inr c \<longleftrightarrow>
     1 \<le> length token \<and> length token \<le> 65536 \<and>
     monotonic - last_refreshed_at ks \<le> 3600 * 1000000000 \<and>
     decode_with_ring E ks token = Inr c \<and> p2p_profile E c (unat now)"
  by (auto simp: verify_at_def guard_ok and_then_eq_Inr validate_profile_ok [symmetric] token_consts
      Suc_le_eq)

text \<open>
  C21: The installed credential only moves forward. Along any sequence of installations, under
  whatever key rings, peers and clocks they are attempted, a credential is never lost, its
  issue time never decreases, and as long as the issue time is the same the store holds the
  same compact token and the same claims: an equal re-signed credential does not replace it.
\<close>

theorem credential_store_monotone:
  assumes "(store_step E)\<^sup>*\<^sup>* (Some a) st"
  shows "\<exists>b. st = Some b \<and> iat (claims a) \<le> iat (claims b) \<and>
    (iat (claims a) = iat (claims b) \<longrightarrow> a = b)"
proof -
  have le: "store_rank (Some a) \<le> store_rank st"
    using store_sys.run_rank [OF assms] by simp
  then obtain b where b: "st = Some b"
    by (cases st) (auto simp: store_rank_def)
  moreover have "a = b" if "iat (claims a) = iat (claims b)"
    using store_sys.run_view [OF assms] that by (simp add: b store_rank_def)
  ultimately show ?thesis
    using le by (auto simp: store_rank_def word_le_nat_alt)
qed

theorem credential_store_monotone_witness:
  "store_install sample_env sample_ring (Some \<lparr>s_signed = \<lparr>compact = ''AR''\<rparr>, claims = sample_claims sample_relay 2\<rparr>)
     \<lparr>compact = ''AAR''\<rparr> sample_relay None None \<lparr>wall_now = 0, mono_now = 0\<rparr> =
     (Inr (sample_claims sample_relay 3), Some \<lparr>s_signed = \<lparr>compact = ''AAR''\<rparr>, claims = sample_claims sample_relay 3\<rparr>) \<and>
   (\<exists>b. Some \<lparr>s_signed = \<lparr>compact = ''AAR''\<rparr>, claims = sample_claims sample_relay 3\<rparr> = Some b \<and>
     iat (sample_claims sample_relay 2) \<le> iat (claims b))"
    (is "store_install _ _ (Some ?a) ?s _ _ _ ?r = (_, Some ?b) \<and> _")
proof -
  have "check_credential sample_env sample_ring ?s sample_relay None None ?r = Inr (sample_claims sample_relay 3)"
    using sample_verify(1) [of "''AAR''" ?r]
    by (simp add: check_credential_def unix_time_def check_expiration_def when_some_def
        ensure_token_peer_def sample_claims_def sample_env_def sample_relay_def ref_codec_eval)
  then have install: "store_install sample_env sample_ring (Some ?a) ?s sample_relay None None ?r =
      (Inr (sample_claims sample_relay 3), Some ?b)"
    by (simp add: store_install_def sample_claims_def)
  have "(store_step sample_env)\<^sup>*\<^sup>* (Some ?a) (Some ?b)"
    using store_step.install [of sample_env "Some ?a" sample_ring ?s sample_relay None None ?r] install
    by (metis r_into_rtranclp snd_conv)
  from credential_store_monotone [OF this] install show ?thesis by simp
qed

end
