(* ===== verification/Local_Authority.thy ===== *)
theory Local_Authority
  imports Token
begin

text \<open>
  The local authority of a node (\<open>core/auki-p2p/src/local_authority.rs\<close>): the identity and
  Domain it is pinned to, its verifier and its credential store, replaced by complete updates
  (\<open>authority_update.rs\<close>). The update gate serialises the methods, so each is one function of
  the whole state. A method reads the clocks several times; \<open>clk i\<close> is its \<open>i\<close>-th reading.
\<close>

section \<open>State and operations\<close>

record peer_authority_update =
  u_domain_id :: uuid
  u_peer_id :: peer_id
  u_verification_keys :: dds_verification_keys
  u_credential :: signed_p2p_credential
  u_credential_expires_at :: instant

record local_authority =
  la_peer_id :: peer_id
  la_domain_id :: uuid
  la_verifier :: verification_key_ring
  la_tokens :: token_store

definition validate_envelope ::
  "token_env \<Rightarrow> peer_id \<Rightarrow> uuid \<Rightarrow> peer_authority_update \<Rightarrow> unit p2p_result" where
  "validate_envelope E expected_peer expected_domain u =
     (if u_peer_id u \<noteq> expected_peer then
        Inl (AuthorityPeerMismatch (peer_to_string (te_codec E) expected_peer)
          (peer_to_string (te_codec E) (u_peer_id u)))
      else if u_domain_id u \<noteq> expected_domain then
        Inl (AuthorityDomainMismatch (uuid_to_string E expected_domain)
          (uuid_to_string E (u_domain_id u)))
      else Inr ())"

text \<open>
  An expiration in the future, in whole seconds; \<open>timestamp()\<close> is the \<open>i64\<close> count of seconds,
  which is far from its bounds for every representable \<open>DateTime\<close>.
\<close>

definition exact_future_expiration :: "instant \<Rightarrow> instant \<Rightarrow> u64 p2p_result" where
  "exact_future_expiration expiration now =
     (if expiration \<le> now \<or> expiration mod nanos_per_sec \<noteq> 0 then Inl InvalidAuthorityExpiration
      else if expiration div nanos_per_sec < 0 then Inl InvalidAuthorityExpiration
      else Inr (word_of_int (expiration div nanos_per_sec)))"

definition validate_signed_authority ::
  "token_env \<Rightarrow> verification_key_ring \<Rightarrow> signed_p2p_credential \<Rightarrow> peer_id \<Rightarrow> uuid \<Rightarrow> u64 \<Rightarrow>
   reading \<Rightarrow> unit p2p_result" where
  "validate_signed_authority E ks s peer domain expected r =
     and_then (verify E ks (compact s) r) (\<lambda>c.
     and_then (ensure_token_peer E c peer) (\<lambda>_.
     and_then (ensure_token_domain E c domain) (\<lambda>_.
     if exp c \<noteq> expected then Inl (CredentialExpirationMismatch (exp c) expected) else Inr ())))"

definition la_start ::
  "token_env \<Rightarrow> peer_id \<Rightarrow> peer_authority_update \<Rightarrow> (nat \<Rightarrow> reading) \<Rightarrow> local_authority p2p_result" where
  "la_start E peer u clk =
     and_then (validate_envelope E peer (u_domain_id u) u) (\<lambda>_.
     and_then (exact_future_expiration (u_credential_expires_at u) (wall_now (clk 0))) (\<lambda>expected.
     and_then (from_keys E (u_verification_keys u) (mono_now (clk 1))) (\<lambda>ks.
     and_then (validate_signed_authority E ks (u_credential u) peer (u_domain_id u) expected (clk 2)) (\<lambda>_.
     (case store_install E ks store_default (u_credential u) peer (Some expected)
             (Some (u_domain_id u)) (clk 3) of
        (Inl e, _) \<Rightarrow> Inl e
      | (Inr _, tokens) \<Rightarrow>
          Inr \<lparr>la_peer_id = peer, la_domain_id = u_domain_id u, la_verifier = ks,
            la_tokens = tokens\<rparr>)))))"

text \<open>
  The checks before the live state is touched: the envelope, the expiration, and the bundle
  against its own keys.
\<close>

definition check_bundle ::
  "token_env \<Rightarrow> local_authority \<Rightarrow> peer_authority_update \<Rightarrow> (nat \<Rightarrow> reading) \<Rightarrow> u64 p2p_result" where
  "check_bundle E la u clk =
     and_then (validate_envelope E (la_peer_id la) (la_domain_id la) u) (\<lambda>_.
     and_then (exact_future_expiration (u_credential_expires_at u) (wall_now (clk 0))) (\<lambda>expected.
     and_then (from_keys E (u_verification_keys u) (mono_now (clk 1))) (\<lambda>candidate.
     and_then (validate_signed_authority E candidate (u_credential u) (la_peer_id la)
       (la_domain_id la) expected (clk 2)) (\<lambda>_. Inr expected))))"

definition la_replace ::
  "token_env \<Rightarrow> local_authority \<Rightarrow> peer_authority_update \<Rightarrow> (nat \<Rightarrow> reading) \<Rightarrow>
   p2p_access_claims p2p_result \<times> local_authority" where
  "la_replace E la u clk =
     (case check_bundle E la u clk of
        Inl e \<Rightarrow> (Inl e, la)
      | Inr expected \<Rightarrow>
          (case replace_keys_at E (la_verifier la) (u_verification_keys u) (mono_now (clk 3)) of
             (Inl e, ks) \<Rightarrow> (Inl e, la\<lparr>la_verifier := ks\<rparr>)
           | (Inr _, ks) \<Rightarrow>
               (case store_install E ks (la_tokens la) (u_credential u) (la_peer_id la)
                       (Some expected) (Some (la_domain_id la)) (clk 4) of
                  (res, tokens) \<Rightarrow> (res, la\<lparr>la_verifier := ks, la_tokens := tokens\<rparr>))))"

definition la_clear :: "local_authority \<Rightarrow> local_authority" where
  "la_clear la = la\<lparr>la_tokens := store_clear (la_tokens la)\<rparr>"

section \<open>Runs\<close>

inductive authority_step :: "token_env \<Rightarrow> local_authority \<Rightarrow> local_authority \<Rightarrow> bool" for E where
  replace: "authority_step E la (snd (la_replace E la u clk))"
| clear: "authority_step E la (la_clear la)"

text \<open>
  What the installed credential promises, at any later time: its text is a bounded token, its
  claims name this peer and this Domain, and its life is 30 minutes.
\<close>

definition credential_bound :: "token_env \<Rightarrow> peer_id \<Rightarrow> uuid \<Rightarrow> stored_credential \<Rightarrow> bool" where
  "credential_bound E peer domain x \<longleftrightarrow>
     1 \<le> length (compact (s_signed x)) \<and> length (compact (s_signed x)) \<le> P2P_TOKEN_MAX_BYTES \<and>
     peer_from_str (te_codec E) (claims_peer_id (claims x)) = Some peer \<and>
     peer_to_string (te_codec E) peer = claims_peer_id (claims x) \<and>
     (\<exists>d \<in> set (domain_ids (claims x)). uuid_parse_str E d = Some domain) \<and>
     unat (exp (claims x)) = unat (iat (claims x)) + 1800"

definition authority_inv :: "token_env \<Rightarrow> local_authority \<Rightarrow> bool" where
  "authority_inv E la \<longleftrightarrow>
     ring_ok E (la_verifier la) \<and>
     (\<forall>x \<in> set_option (la_tokens la). credential_bound E (la_peer_id la) (la_domain_id la) x)"

lemma ensure_token_peer_ok [simp]:
  "ensure_token_peer E c p = Inr u \<longleftrightarrow> peer_from_str (te_codec E) (claims_peer_id c) = Some p"
  by (auto simp: ensure_token_peer_def and_then_eq_Inr guard_ok)

lemma ensure_token_domain_ok [simp]:
  "ensure_token_domain E c d = Inr u \<longleftrightarrow> (\<exists>s \<in> set (domain_ids c). uuid_parse_str E s = Some d)"
  by (auto simp: ensure_token_domain_def has_domain_def List.map_filter_def image_iff)

lemma check_expiration_ok [simp]:
  "check_expiration expected c = Inr u \<longleftrightarrow> (\<forall>e \<in> set_option expected. exp c = e)"
  by (auto simp: check_expiration_def split: option.splits)

lemma check_credential_Inr:
  "check_credential E ks s peer expected required r = Inr c \<longleftrightarrow>
     verify E ks (compact s) r = Inr c \<and> peer_from_str (te_codec E) (claims_peer_id c) = Some peer \<and>
     (\<forall>domain \<in> set_option required. \<exists>d \<in> set (domain_ids c). uuid_parse_str E d = Some domain) \<and>
     (\<forall>e \<in> set_option expected. exp c = e)"
  by (auto simp: check_credential_def and_then_eq_Inr)

lemma verify_facts:
  assumes "verify E ks token r = Inr c"
  shows "1 \<le> length token" "length token \<le> P2P_TOKEN_MAX_BYTES"
    "p2p_profile E c (unat (unix_time (wall_now r)))"
  using assms
  by (auto simp: verify_def verify_at_def guard_ok and_then_eq_Inr validate_profile_ok Suc_le_eq)

lemma check_credential_bound:
  assumes "check_credential E ks s peer expected (Some domain) r = Inr c"
  shows "credential_bound E peer domain \<lparr>s_signed = s, claims = c\<rparr>"
proof -
  have v: "verify E ks (compact s) r = Inr c"
    and p: "peer_from_str (te_codec E) (claims_peer_id c) = Some peer"
    and d: "\<exists>s \<in> set (domain_ids c). uuid_parse_str E s = Some domain"
    using assms by (simp_all add: check_credential_Inr)
  have "canonical_peer E (claims_peer_id c)" "unat (exp c) = unat (iat c) + 1800"
    using verify_facts(3) [OF v] by (simp_all add: p2p_profile_def)
  then show ?thesis
    using p d verify_facts(1,2) [OF v] by (auto simp: credential_bound_def canonical_peer_def)
qed

lemma store_install_bound:
  assumes "store_install E ks st s peer expected (Some domain) r = (res, st')"
    and "\<forall>x \<in> set_option st. credential_bound E peer domain x"
  shows "\<forall>x \<in> set_option st'. credential_bound E peer domain x"
  using assms(1) by (cases rule: store_install_cases) (use assms(2) in \<open>auto dest: check_credential_bound\<close>)

lemma la_replace_cases:
  assumes "la_replace E la u clk = (res, la')"
  obtains (malformed) e where "res = Inl e" "la' = la" "check_bundle E la u clk = Inl e"
  | (refused) e where "res = Inl e" "la' = la"
      "fst (replace_keys_at E (la_verifier la) (u_verification_keys u) (mono_now (clk 3))) = Inl e"
  | (installed) expected ks st where "check_bundle E la u clk = Inr expected"
      "replace_keys_at E (la_verifier la) (u_verification_keys u) (mono_now (clk 3)) = (Inr (), ks)"
      "store_install E ks (la_tokens la) (u_credential u) (la_peer_id la) (Some expected)
         (Some (la_domain_id la)) (clk 4) = (res, st)"
      "la' = la\<lparr>la_verifier := ks, la_tokens := st\<rparr>"
proof (cases "check_bundle E la u clk")
  case (Inl e)
  show ?thesis by (rule malformed [of e]) (use assms Inl in \<open>simp_all add: la_replace_def\<close>)
next
  case (Inr expected)
  obtain kr ks where kr: "replace_keys_at E (la_verifier la) (u_verification_keys u) (mono_now (clk 3)) = (kr, ks)"
    by fastforce
  show ?thesis
  proof (cases kr)
    case (Inl e)
    then have "ks = la_verifier la" using kr by (auto elim: replace_keys_at_cases)
    then show ?thesis
      by (intro refused [of e]) (use assms Inl Inr kr in \<open>simp_all add: la_replace_def\<close>)
  next
    case inst: (Inr un)
    show ?thesis
      by (rule installed [of expected ks "snd (store_install E ks (la_tokens la) (u_credential u)
        (la_peer_id la) (Some expected) (Some (la_domain_id la)) (clk 4))"])
        (use assms inst Inr kr in \<open>auto simp: la_replace_def split: prod.splits\<close>)
  qed
qed

interpretation authority_sys: invariant_system "authority_step E"
    "\<lambda>la. authority_inv E la \<and> la_peer_id la = peer \<and> la_domain_id la = domain"
proof (unfold_locales, goal_cases)
  case (1 la la')
  from 1(2) show ?case
  proof (cases rule: authority_step.cases)
    case (replace u clk)
    then have "la_replace E la u clk = (fst (la_replace E la u clk), la')" by simp
    then show ?thesis
    proof (cases rule: la_replace_cases)
      case (installed expected ks st)
      have "ring_ok E ks"
        using 1(1) replace_keys_at_ok(1) [OF _ installed(2)] by (simp add: authority_inv_def)
      moreover have "\<forall>x \<in> set_option st. credential_bound E (la_peer_id la) (la_domain_id la) x"
        by (rule store_install_bound [OF installed(3)]) (use 1(1) in \<open>auto simp: authority_inv_def\<close>)
      ultimately show ?thesis using 1(1) installed(4) by (simp add: authority_inv_def)
    qed (use 1(1) in auto)
  next
    case clear
    with 1(1) show ?thesis by (simp add: la_clear_def authority_inv_def store_clear_def)
  qed
qed

lemma install_result:
  "(case p of (Inl e, _) \<Rightarrow> Inl e | (Inr _, st) \<Rightarrow> Inr (f st)) = Inr v \<longleftrightarrow>
     (\<exists>x st. p = (Inr x, st) \<and> v = f st)"
  by (cases p; cases "fst p") auto

lemma la_start_inv:
  assumes "la_start E peer u clk = Inr la"
  shows "authority_inv E la" "la_peer_id la = peer" "la_domain_id la = u_domain_id u"
    "\<exists>x. la_tokens la = Some x \<and> s_signed x = u_credential u"
proof -
  obtain expected ks res st where ks: "from_keys E (u_verification_keys u) (mono_now (clk 1)) = Inr ks"
    and st: "store_install E ks store_default (u_credential u) peer (Some expected)
       (Some (u_domain_id u)) (clk 3) = (Inr res, st)"
    and la: "la = \<lparr>la_peer_id = peer, la_domain_id = u_domain_id u, la_verifier = ks, la_tokens = st\<rparr>"
    using assms by (auto simp: la_start_def and_then_eq_Inr install_result)
  show "authority_inv E la"
    using from_keys_ok [OF ks] store_install_bound [OF st] by (simp add: authority_inv_def la store_default_def)
  show "la_peer_id la = peer" "la_domain_id la = u_domain_id u" by (simp_all add: la)
  show "\<exists>x. la_tokens la = Some x \<and> s_signed x = u_credential u"
    using st by (cases rule: store_install_cases) (auto simp: la store_default_def)
qed

text \<open>
  With the same clock, a bundle that its own keys accept is accepted by a ring that has taken
  over these keys.
\<close>

lemma check_bundle_credential:
  assumes ok: "ring_ok E (la_verifier la)"
    and bundle': "check_bundle E la u clk = Inr expected"
    and keys': "replace_keys_at E (la_verifier la) (u_verification_keys u) (mono_now (clk 3)) = (Inr (), ks)"
    and clock: "unix_time (wall_now (clk 4)) = unix_time (wall_now (clk 2))"
      "mono_now (clk 4) - mono_now (clk 3) \<le> DDS_VERIFICATION_KEYS_MAX_STALENESS"
  shows "\<exists>c. check_credential E ks (u_credential u) (la_peer_id la) (Some expected)
    (Some (la_domain_id la)) (clk 4) = Inr c"
proof -
  obtain cand c where cand: "from_keys E (u_verification_keys u) (mono_now (clk 1)) = Inr cand"
    and v: "verify E cand (compact (u_credential u)) (clk 2) = Inr c"
    and c: "peer_from_str (te_codec E) (claims_peer_id c) = Some (la_peer_id la)"
      "\<exists>s \<in> set (domain_ids c). uuid_parse_str E s = Some (la_domain_id la)" "exp c = expected"
    using bundle' by (auto simp: check_bundle_def validate_signed_authority_def and_then_eq_Inr guard_ok)
  have "current cand = current ks" "previous cand = previous ks"
    using cand replace_keys_at_installed(1) [OF ok keys'] by (auto simp: from_keys_def and_then_eq_Inr)
  then have "decode_with_ring E cand token = decode_with_ring E ks token" for token
    by (cases "decode_claims E token (decoding (current ks))") (simp_all add: decode_with_ring_def)
  moreover have "\<not> max 0 (mono_now (clk 4) - last_refreshed_at ks) > DDS_VERIFICATION_KEYS_MAX_STALENESS"
    using clock(2) replace_keys_at_installed(2) [OF ok keys'] by (simp add: token_consts)
  moreover have "\<not> (compact (u_credential u) = [] \<or> length (compact (u_credential u)) > P2P_TOKEN_MAX_BYTES)"
    and "decode_with_ring E cand (compact (u_credential u)) = Inr c"
    and "validate_profile E c (unix_time (wall_now (clk 2))) = Inr ()"
    using v by (auto simp: verify_def verify_at_def guard_ok and_then_eq_Inr)
  ultimately have "verify E ks (compact (u_credential u)) (clk 4) = Inr c"
    using clock(1) by (simp add: verify_def verify_at_def)
  then show ?thesis
    using c by (auto simp: check_credential_Inr)
qed

text \<open>
  C20: A local authority stays bound to its peer and its Domain. Whatever updates are offered to
  an authority after \<open>start\<close>, accepted or refused, and whenever the credential is cleared, the
  pinned Peer ID and Domain never change, the key ring stays well formed, and an installed
  credential names exactly this peer in its canonical text, grants this Domain, has a bounded
  compact token and a lifetime of exactly 30 minutes.
\<close>

theorem authority_stays_bound:
  assumes "la_start E peer u clk = Inr la" and "(authority_step E)\<^sup>*\<^sup>* la la'"
  shows "la_peer_id la' = peer \<and> la_domain_id la' = u_domain_id u \<and> ring_ok E (la_verifier la') \<and>
    (\<forall>x. la_tokens la' = Some x \<longrightarrow> credential_bound E peer (u_domain_id u) x)"
  using authority_sys.run_inv [OF assms(2), of peer "u_domain_id u"] la_start_inv [OF assms(1)]
  by (auto simp: authority_inv_def)

text \<open>
  What a refused update leaves behind. On every reachable authority a failing \<open>replace\<close>
  keeps the installed credential. If no second of wall time passes between its two
  verifications, it also leaves the verification keys as they were, except when the error is
  that the credential is older than, or conflicts with, the installed one: then the update's
  key set has already been taken over, and the ring is the one \<open>replace_keys_at\<close> returned.
\<close>

theorem refused_update_effects:
  assumes "la_start E peer u0 clk0 = Inr la0" and "(authority_step E)\<^sup>*\<^sup>* la0 la"
    and "la_replace E la u clk = (Inl e, la')"
    and "unix_time (wall_now (clk 4)) = unix_time (wall_now (clk 2))"
    and "mono_now (clk 4) - mono_now (clk 3) \<le> DDS_VERIFICATION_KEYS_MAX_STALENESS"
  shows "la_tokens la' = la_tokens la \<and>
    (la' = la \<or>
     ((\<exists>a b. e = StaleCredential a b) \<or> (\<exists>a. e = CredentialIssuedAtConflict a)) \<and>
     replace_keys_at E (la_verifier la) (u_verification_keys u) (mono_now (clk 3)) =
       (Inr (), la_verifier la'))"
proof -
  have ok: "ring_ok E (la_verifier la)"
    using authority_sys.run_inv [OF assms(2), of peer "u_domain_id u0"] la_start_inv [OF assms(1)]
    by (auto simp: authority_inv_def)
  from assms(3) show ?thesis
  proof (cases rule: la_replace_cases)
    case (installed expected ks st)
    obtain c where c: "check_credential E ks (u_credential u) (la_peer_id la) (Some expected)
        (Some (la_domain_id la)) (clk 4) = Inr c"
      using check_bundle_credential [OF ok installed(1,2) assms(4,5)] by blast
    have st: "st = la_tokens la"
      using installed(3) by (cases rule: store_install_cases) auto
    have "(\<exists>a b. e = StaleCredential a b) \<or> (\<exists>a. e = CredentialIssuedAtConflict a)"
      using installed(3) c by (auto simp: store_install_def split: option.splits if_splits)
    with st installed(2,4) show ?thesis by simp
  qed auto
qed

section \<open>Witnesses\<close>

definition sample_update :: "dds_verification_keys \<Rightarrow> string \<Rightarrow> peer_authority_update" where
  "sample_update ks token = \<lparr>u_domain_id = 7, u_peer_id = sample_relay, u_verification_keys = ks,
     u_credential = \<lparr>compact = token\<rparr>,
     u_credential_expires_at = (int (length token) + 1800) * 1000000000\<rparr>"

lemma sample_check_credential:
  assumes "token \<noteq> []" "length token < 65536" "take 1 token = ''A''" "mono_now r \<le> 3600 * 1000000000"
    "length token \<le> unat (unix_time (wall_now r)) + 60"
    "unat (unix_time (wall_now r)) < length token + 1800"
    and "ks = sample_ring \<or> ks = sample_ring_rotated"
    and "PeerId [last token] = p" "set_option expected \<subseteq> {word_of_nat (length token) + 1800}"
  shows "check_credential sample_env ks \<lparr>compact = token\<rparr> p expected (Some 7) r =
    Inr (sample_claims p (word_of_nat (length token)))"
proof -
  have "peer_from_str ref_codec (ref_peer_to_string p) = Some p"
    using codec_peer_roundtrip [OF ref_codec_ok, of p] by (simp add: ref_codec_def)
  moreover have "uuid_parse_str sample_env ''7'' = Some 7"
    by (simp add: sample_env_def dec_eval)
  moreover have "te_codec sample_env = ref_codec" by (simp add: sample_env_def)
  ultimately show ?thesis
    using assms(7,8,9) sample_verify [OF assms(1,2,4,3,5,6)]
    by (auto simp: check_credential_Inr sample_claims_def)
qed

definition sample_clock :: "instant \<Rightarrow> nat \<Rightarrow> reading" where
  "sample_clock m i = \<lparr>wall_now = 0, mono_now = m\<rparr>"

definition sample_authority :: local_authority where
  "sample_authority = \<lparr>la_peer_id = sample_relay, la_domain_id = 7, la_verifier = sample_ring,
     la_tokens = Some \<lparr>s_signed = \<lparr>compact = ''AAR''\<rparr>, claims = sample_claims sample_relay 3\<rparr>\<rparr>"


lemma sample_expiration:
  "exact_future_expiration ((int n + 1800) * 1000000000) 0 = Inr (word_of_nat n + 1800)"
  by (simp add: exact_future_expiration_def token_consts)

lemma sample_signed:
  assumes "ks = sample_ring \<or> ks = sample_ring_rotated"
    and "token = ''AAR'' \<or> token = ''AR''" and "r = \<lparr>wall_now = 0, mono_now = m\<rparr>" "m \<le> 5"
  shows "check_credential sample_env ks \<lparr>compact = token\<rparr> sample_relay
      (Some (word_of_nat (length token) + 1800)) (Some 7) r = Inr (sample_claims sample_relay (word_of_nat (length token)))"
    "validate_signed_authority sample_env ks \<lparr>compact = token\<rparr> sample_relay 7
      (word_of_nat (length token) + 1800) r = Inr ()"
proof -
  show c: "check_credential sample_env ks \<lparr>compact = token\<rparr> sample_relay
      (Some (word_of_nat (length token) + 1800)) (Some 7) r = Inr (sample_claims sample_relay (word_of_nat (length token)))"
    using assms by (intro sample_check_credential) (auto simp: unix_time_def sample_relay_def)
  then show "validate_signed_authority sample_env ks \<lparr>compact = token\<rparr> sample_relay 7
      (word_of_nat (length token) + 1800) r = Inr ()"
    by (auto simp: check_credential_Inr validate_signed_authority_def and_then_eq_Inr)
qed

lemma sample_start:
  "la_start sample_env sample_relay (sample_update sample_keys ''AAR'') (sample_clock 0) = Inr sample_authority"
proof -
  note c = sample_signed [of sample_ring "''AAR''" "\<lparr>wall_now = 0, mono_now = m\<rparr>" m for m]
  show ?thesis
    using c(1) [of 0] c(2) [of 0] sample_from_keys sample_expiration [of 3]
    by (simp add: la_start_def sample_update_def sample_clock_def validate_envelope_def
        store_install_def store_default_def sample_authority_def)
qed

lemma sample_from_keys_rotated: "from_keys sample_env sample_keys_rotated 5 = Inr sample_ring_rotated"
  by (simp add: from_keys_def parse_key_set_def sample_parse_key sample_keys_rotated_def
      sample_ring_rotated_def transpose_opt_def sample_key_def token_consts)

lemma sample_stale_update:
  "la_replace sample_env sample_authority (sample_update sample_keys_rotated ''AR'') (sample_clock 5) =
     (Inl (StaleCredential 3 2), sample_authority\<lparr>la_verifier := sample_ring_rotated\<rparr>)"
proof -
  note c = sample_signed [of sample_ring_rotated "''AR''" "\<lparr>wall_now = 0, mono_now = 5\<rparr>" 5]
  have "check_bundle sample_env sample_authority (sample_update sample_keys_rotated ''AR'')
      (sample_clock 5) = Inr (2 + 1800)"
    using c(2) sample_expiration [of 2] sample_from_keys_rotated
    by (simp add: check_bundle_def validate_envelope_def sample_authority_def sample_update_def
        sample_clock_def)
  moreover have "store_install sample_env sample_ring_rotated
      (Some \<lparr>s_signed = \<lparr>compact = ''AAR''\<rparr>, claims = sample_claims sample_relay 3\<rparr>) \<lparr>compact = ''AR''\<rparr>
      sample_relay (Some (2 + 1800)) (Some 7) \<lparr>wall_now = 0, mono_now = 5\<rparr> =
      (Inl (StaleCredential 3 2), Some \<lparr>s_signed = \<lparr>compact = ''AAR''\<rparr>, claims = sample_claims sample_relay 3\<rparr>)"
    using c(1) by (simp add: store_install_def sample_claims_def)
  ultimately show ?thesis
    using sample_replace_keys
    by (simp add: la_replace_def sample_authority_def sample_update_def sample_clock_def)
qed

theorem authority_stays_bound_witness:
  "la_peer_id (la_clear sample_authority) = sample_relay \<and>
   la_domain_id (la_clear sample_authority) = 7"
proof -
  have "(authority_step sample_env)\<^sup>*\<^sup>* sample_authority (la_clear sample_authority)"
    by (intro r_into_rtranclp authority_step.clear)
  from authority_stays_bound [OF sample_start this] show ?thesis by (simp add: sample_update_def)
qed

theorem refused_update_effects_witness:
  "la_tokens (sample_authority\<lparr>la_verifier := sample_ring_rotated\<rparr>) = la_tokens sample_authority \<and>
   sample_authority\<lparr>la_verifier := sample_ring_rotated\<rparr> \<noteq> sample_authority \<and>
   replace_keys_at sample_env (la_verifier sample_authority) sample_keys_rotated 5 =
     (Inr (), sample_ring_rotated)"
proof -
  have "sample_authority\<lparr>la_verifier := sample_ring_rotated\<rparr> \<noteq> sample_authority"
    by (simp add: sample_authority_def sample_ring_def sample_ring_rotated_def)
  with refused_update_effects [OF sample_start rtranclp.rtrancl_refl sample_stale_update]
  show ?thesis by (simp add: sample_clock_def token_consts sample_update_def)
qed

end
