(* ===== verification/Framing.thy ===== *)
theory Framing
  imports P2p_Error
begin

text \<open>
  Byte streams between two peers and the 32-bit big-endian length prefixes both handshakes
  use. A stream is the bytes the other side will have sent by the time it closes and the bytes
  written so far; bytes are characters, as in texts. A bounded phase of a handshake either runs
  to its end, or is cut off by its timer or by an I/O error in whatever state the stream was
  then in.
\<close>

section \<open>Length prefixes\<close>

definition to_be_bytes :: "u32 \<Rightarrow> string" where
  "to_be_bytes w =
     (let n = unat w
      in [char_of (n div 256 div 256 div 256), char_of (n div 256 div 256), char_of (n div 256),
          char_of n])"

definition be_val :: "string \<Rightarrow> nat" where
  "be_val bs = foldl (\<lambda>n b. n * 256 + byte b) 0 bs"

definition from_be_bytes :: "string \<Rightarrow> u32" where
  "from_be_bytes bs = word_of_nat (be_val bs)"

lemma length_to_be_bytes [simp]: "length (to_be_bytes w) = 4"
  by (simp add: to_be_bytes_def Let_def)

lemma be_val_to_be_bytes: "be_val (to_be_bytes w) = unat w"
proof -
  have "unat w < 2 ^ 32" using unsigned_less [of w, where ?'a = nat] by simp
  then have "unat w div 256 div 256 div 256 < 256" by (simp add: div_mult2_eq [symmetric] div_less_iff_less_mult)
  then show ?thesis by (simp add: to_be_bytes_def be_val_def Let_def)
qed

lemma from_to_be_bytes [simp]: "from_be_bytes (to_be_bytes w) = w"
  by (simp add: from_be_bytes_def be_val_to_be_bytes)

lemma be_val_less: "length bs = 4 \<Longrightarrow> be_val bs < 2 ^ 32"
proof -
  assume "length bs = 4"
  then obtain a b c d where bs: "bs = [a, b, c, d]"
    by (auto simp: length_Suc_conv eval_nat_numeral)
  have lt: "byte x \<le> 255" for x using nat_of_char_less_256 [of x] by linarith
  show ?thesis using lt [of a] lt [of b] lt [of c] lt [of d] by (simp add: bs be_val_def)
qed

lemma char_of_digit: "char_of (q * 256 + byte x) = x" "(q * 256 + byte x) div 256 = q"
proof -
  have lt: "byte x < 256" by (rule nat_of_char_less_256)
  then have "byte (char_of (q * 256 + byte x)) = byte x" by simp
  then show "char_of (q * 256 + byte x) = x" by (simp only: byte_eq_iff)
  show "(q * 256 + byte x) div 256 = q" using lt by simp
qed

lemma to_from_be_bytes: "length bs = 4 \<Longrightarrow> to_be_bytes (from_be_bytes bs) = bs"
proof -
  assume len: "length bs = 4"
  then obtain a b c d where bs: "bs = [a, b, c, d]"
    by (auto simp: length_Suc_conv eval_nat_numeral)
  have "unat (from_be_bytes bs) = be_val bs"
    using be_val_less [OF len] by (simp add: from_be_bytes_def unsigned_of_nat take_bit_nat_eq_self)
  then have n: "unat (from_be_bytes bs) = (((0 * 256 + byte a) * 256 + byte b) * 256 + byte c) * 256 + byte d"
    by (simp only: bs be_val_def foldl.simps)
  show ?thesis
    unfolding to_be_bytes_def Let_def n char_of_digit by (simp only: bs)
qed

section \<open>Streams\<close>

record byte_stream =
  incoming :: string
  outgoing :: string

type_synonym 'a stream_result = "'a p2p_result \<times> byte_stream"

definition write_all :: "string \<Rightarrow> byte_stream \<Rightarrow> byte_stream" where
  "write_all bs s = s\<lparr>outgoing := outgoing s @ bs\<rparr>"

text \<open>\<open>read_exact\<close> of \<open>futures\<close>: all bytes or \<open>UnexpectedEof\<close> at the end of the stream.\<close>

definition read_exact :: "nat \<Rightarrow> byte_stream \<Rightarrow> string stream_result" where
  "read_exact n s =
     (if length (incoming s) < n then (Inl (IoError ''unexpected end of file''), s\<lparr>incoming := []\<rparr>)
      else (Inr (take n (incoming s)), s\<lparr>incoming := drop n (incoming s)\<rparr>))"

lemma read_exact_append [simp]:
  "length bs = n \<Longrightarrow> read_exact n \<lparr>incoming = bs @ rest, outgoing = out\<rparr> =
     (Inr bs, \<lparr>incoming = rest, outgoing = out\<rparr>)"
  by (simp add: read_exact_def)

lemma read_exact_Inr:
  "read_exact n s = (Inr bs, s') \<longleftrightarrow>
     length bs = n \<and> incoming s = bs @ incoming s' \<and> outgoing s' = outgoing s"
  by (cases s; cases s') (auto simp: read_exact_def not_less)

datatype phase_end = Completes | TimesOut byte_stream | Fails string byte_stream

definition bounded_phase ::
  "p2p_error \<Rightarrow> phase_end \<Rightarrow> (byte_stream \<Rightarrow> 'a stream_result) \<Rightarrow> byte_stream \<Rightarrow> 'a stream_result" where
  "bounded_phase timeout_error ph f s =
     (case ph of Completes \<Rightarrow> f s | TimesOut s' \<Rightarrow> (Inl timeout_error, s')
      | Fails msg s' \<Rightarrow> (Inl (IoError msg), s'))"

lemma bounded_phase_Inr:
  "bounded_phase e ph f s = (Inr x, s') \<longleftrightarrow> ph = Completes \<and> f s = (Inr x, s')"
  by (cases ph) (auto simp: bounded_phase_def)

end
