(* ===== verification/Authentication.thy ===== *)
theory Authentication
  imports Local_Authority Framing
begin

text \<open>
  Mutual authentication of a stream (\<open>core/auki-p2p/src/authentication.rs\<close>): each side sends its
  current token, verifies the other's, exchanges one status byte and re-verifies both before
  the stream is exposed. The store, the key ring and the clocks are shared with other tasks and
  may change between any two accesses: \<open>W i\<close> is what the \<open>i\<close>-th access of the call sees. \<open>P i\<close> is
  how its \<open>i\<close>-th bounded phase ends.
\<close>

section \<open>Session requirements\<close>

record session_requirements =
  sr_domain_id :: uuid
  sr_expected_remote_peer_id :: "peer_id option"

definition session_requirements_new :: "token_env \<Rightarrow> string \<Rightarrow> session_requirements p2p_result" where
  "session_requirements_new E s =
     and_then (ok_or (InvalidToken ''required Domain must be a UUID'') (uuid_parse_str E s)) (\<lambda>u.
     if uuid_to_string E u \<noteq> s then Inl (InvalidToken ''required Domain must be a canonical UUID'')
     else Inr \<lparr>sr_domain_id = u, sr_expected_remote_peer_id = None\<rparr>)"

definition with_expected_remote_peer_id :: "session_requirements \<Rightarrow> peer_id \<Rightarrow> session_requirements" where
  "with_expected_remote_peer_id req p = req\<lparr>sr_expected_remote_peer_id := Some p\<rparr>"

definition validate_domain ::
  "token_env \<Rightarrow> session_requirements \<Rightarrow> p2p_access_claims \<Rightarrow> unit p2p_result" where
  "validate_domain E req c =
     (if \<not> has_domain E c (sr_domain_id req) then
        Inl (RemoteDomainMismatch (uuid_to_string E (sr_domain_id req)))
      else Inr ())"

definition validate_remote ::
  "token_env \<Rightarrow> session_requirements \<Rightarrow> p2p_access_claims \<Rightarrow> peer_id \<Rightarrow> unit p2p_result" where
  "validate_remote E req c noise =
     (case sr_expected_remote_peer_id req of
        Some expected \<Rightarrow>
          if expected \<noteq> noise then
            Inl (UnexpectedRemotePeer (peer_to_string (te_codec E) expected)
              (peer_to_string (te_codec E) noise))
          else validate_domain E req c
      | None \<Rightarrow> validate_domain E req c)"

record authenticated_peer =
  ap_peer_id :: peer_id
  ap_subject :: string
  ap_peer_type :: "string option"
  ap_domain_ids :: "uuid list"
  ap_scopes :: "string list"
  ap_application :: "signed_application_metadata option"
  ap_verified_until :: instant

section \<open>Token frames\<close>

definition write_token_frame :: "string \<Rightarrow> byte_stream \<Rightarrow> unit stream_result" where
  "write_token_frame token s =
     (if length token > P2P_TOKEN_MAX_BYTES then (Inl (TokenFrameTooLarge P2P_TOKEN_MAX_BYTES), s)
      else (Inr (), write_all token (write_all (to_be_bytes (word_of_nat (length token))) s)))"

definition read_token_frame :: "byte_stream \<Rightarrow> string stream_result" where
  "read_token_frame s =
     (case read_exact 4 s of
        (Inl e, s) \<Rightarrow> (Inl e, s)
      | (Inr header, s) \<Rightarrow>
          let len = unat (from_be_bytes header)
          in if len > P2P_TOKEN_MAX_BYTES then (Inl (TokenFrameTooLarge P2P_TOKEN_MAX_BYTES), s)
             else read_exact len s)"

section \<open>The conversation\<close>

record auth_world =
  w_store :: token_store
  w_ring :: verification_key_ring
  w_clock :: reading

abbreviation w_time :: "auth_world \<Rightarrow> u64" where
  "w_time w \<equiv> unix_time (wall_now (w_clock w))"

definition AUTH_ACCEPTED :: char where
  "AUTH_ACCEPTED = CHR 0x01"

definition AUTH_REJECTED :: char where
  "AUTH_REJECTED = CHR 0x00"

definition i64_from_u64 :: "u64 \<Rightarrow> int option" where
  "i64_from_u64 w = (if unat w < 2 ^ 63 then Some (int (unat w)) else None)"

definition authenticated_peer_from_claims ::
  "token_env \<Rightarrow> p2p_access_claims \<Rightarrow> peer_id \<Rightarrow> authenticated_peer p2p_result" where
  "authenticated_peer_from_claims E c remote =
     and_then (collect_results (\<lambda>d. ok_or (InvalidToken ''domain_ids must contain canonical UUIDs'')
       (uuid_parse_str E d)) (domain_ids c)) (\<lambda>ds.
     and_then (ok_or (InvalidToken ''expiration is outside the supported range'')
       (Option.bind (i64_from_u64 (exp c)) (datetime_from_timestamp E))) (\<lambda>expiration.
     Inr \<lparr>ap_peer_id = remote, ap_subject = sub c, ap_peer_type = peer_type c, ap_domain_ids = ds,
       ap_scopes = scopes c, ap_application = application c, ap_verified_until = expiration\<rparr>))"

definition finalize_authenticated_peer ::
  "token_env \<Rightarrow> signed_p2p_credential \<Rightarrow> auth_world \<Rightarrow> session_requirements \<Rightarrow> peer_id \<Rightarrow> u64 \<Rightarrow>
   authenticated_peer p2p_result" where
  "finalize_authenticated_peer E cred w req remote now =
     and_then (verify E (w_ring w) (compact cred) (w_clock w)) (\<lambda>c.
     and_then (ensure_token_peer E c remote) (\<lambda>_.
     and_then (validate_remote E req c remote) (\<lambda>_.
     and_then (ensure_literal_expiry c now) (\<lambda>_.
     authenticated_peer_from_claims E c remote))))"

definition validate_current_local_authority ::
  "token_env \<Rightarrow> token_store \<Rightarrow> auth_world \<Rightarrow> peer_id \<Rightarrow> session_requirements \<Rightarrow> u64 \<Rightarrow> unit p2p_result" where
  "validate_current_local_authority E st w local req now =
     and_then (ok_or MissingToken (store_snapshot st)) (\<lambda>cred.
     and_then (verify E (w_ring w) (compact cred) (w_clock w)) (\<lambda>c.
     and_then (ensure_token_peer E c local) (\<lambda>_.
     and_then (validate_domain E req c) (\<lambda>_.
     ensure_literal_expiry c now))))"

text \<open>The two verdicts of the first half: on the own token and on the one received.\<close>

definition local_verdict ::
  "token_env \<Rightarrow> auth_world \<Rightarrow> peer_id \<Rightarrow> session_requirements \<Rightarrow> string \<Rightarrow> p2p_access_claims p2p_result" where
  "local_verdict E w local req token =
     (if token = [] then Inl MissingToken
      else and_then (verify E (w_ring w) token (w_clock w)) (\<lambda>c.
        and_then (ensure_token_peer E c local) (\<lambda>_.
        and_then (validate_domain E req c) (\<lambda>_. Inr c))))"

definition remote_verdict ::
  "token_env \<Rightarrow> auth_world \<Rightarrow> peer_id \<Rightarrow> session_requirements \<Rightarrow> string p2p_result \<Rightarrow>
   signed_p2p_credential p2p_result" where
  "remote_verdict E w remote req received =
     and_then received (\<lambda>token.
     if \<not> is_utf8 E token then Inl InvalidTokenEncoding
     else and_then (signed_p2p_credential_new token) (\<lambda>cred.
       and_then (verify E (w_ring w) (compact cred) (w_clock w)) (\<lambda>c.
       and_then (ensure_token_peer E c remote) (\<lambda>_.
       and_then (validate_remote E req c remote) (\<lambda>_. Inr cred)))))"

definition is_ok :: "('e, 'a) result \<Rightarrow> bool" where
  "is_ok r = (case r of Inl _ \<Rightarrow> False | Inr _ \<Rightarrow> True)"

definition own_token :: "token_store \<Rightarrow> string" where
  "own_token st = (case store_snapshot st of None \<Rightarrow> [] | Some cred \<Rightarrow> compact cred)"

definition write_status :: "bool \<Rightarrow> byte_stream \<Rightarrow> unit stream_result" where
  "write_status ok s = (Inr (), write_all [if ok then AUTH_ACCEPTED else AUTH_REJECTED] s)"

definition authenticate_duplex ::
  "token_env \<Rightarrow> (nat \<Rightarrow> auth_world) \<Rightarrow> (nat \<Rightarrow> phase_end) \<Rightarrow> peer_id \<Rightarrow> peer_id \<Rightarrow>
   session_requirements \<Rightarrow> byte_stream \<Rightarrow> authenticated_peer stream_result" where
  "authenticate_duplex E W P local remote req s =
     (let token = own_token (w_store (W 0)) in
      case bounded_phase AuthenticationTimeout (P 0) (write_token_frame token) s of
        (Inl e, s1) \<Rightarrow> (Inl e, s1)
      | (Inr _, s1) \<Rightarrow>
      case bounded_phase AuthenticationTimeout (P 1) read_token_frame s1 of (received, s2) \<Rightarrow>
      let mine = local_verdict E (W 1) local req token;
          theirs = remote_verdict E (W 2) remote req received
      in case bounded_phase AuthenticationTimeout (P 2) (write_status (is_ok mine \<and> is_ok theirs)) s2 of
        (Inl e, s3) \<Rightarrow> (Inl e, s3)
      | (Inr _, s3) \<Rightarrow>
      case bounded_phase AuthenticationTimeout (P 3) (read_exact 1) s3 of
        (Inl e, s4) \<Rightarrow> (Inl e, s4)
      | (Inr status, s4) \<Rightarrow>
        (and_then mine (\<lambda>_.
         and_then theirs (\<lambda>cred.
         if hd status \<noteq> AUTH_ACCEPTED then Inl RemoteRejected
         else
           and_then (validate_current_local_authority E (w_store (W 4)) (W 5) local req (w_time (W 3))) (\<lambda>_.
           finalize_authenticated_peer E cred (W 7) req remote (w_time (W 6))))), s4))"

section \<open>Frames\<close>

definition token_frame :: "string \<Rightarrow> string" where
  "token_frame token = to_be_bytes (word_of_nat (length token)) @ token"

lemma P2P_TOKEN_MAX_less: "length t \<le> P2P_TOKEN_MAX_BYTES \<Longrightarrow>
    unat (word_of_nat (length t) :: u32) = length t"
  by (simp add: token_consts unsigned_of_nat take_bit_nat_eq_self)

lemma write_token_frame_Inr:
  "write_token_frame token s = (Inr u, s') \<longleftrightarrow>
     length token \<le> P2P_TOKEN_MAX_BYTES \<and> s' = s\<lparr>outgoing := outgoing s @ token_frame token\<rparr>"
  by (auto simp: write_token_frame_def write_all_def token_frame_def)

text \<open>Reading accepts exactly the frames that writing produces, and consumes nothing else.\<close>

lemma read_token_frame_Inr:
  "read_token_frame s = (Inr token, s') \<longleftrightarrow>
     length token \<le> P2P_TOKEN_MAX_BYTES \<and> incoming s = token_frame token @ incoming s' \<and>
     outgoing s' = outgoing s"
proof
  assume r: "read_token_frame s = (Inr token, s')"
  then obtain h s1 where h: "read_exact 4 s = (Inr h, s1)"
    by (auto simp: read_token_frame_def split: prod.splits sum.splits)
  with r have len: "unat (from_be_bytes h) \<le> P2P_TOKEN_MAX_BYTES"
    and t: "read_exact (unat (from_be_bytes h)) s1 = (Inr token, s')"
    by (auto simp: read_token_frame_def Let_def split: if_splits)
  have "to_be_bytes (from_be_bytes h) = h"
    using h by (intro to_from_be_bytes) (simp add: read_exact_Inr)
  with h t len show "length token \<le> P2P_TOKEN_MAX_BYTES \<and> incoming s = token_frame token @ incoming s' \<and>
      outgoing s' = outgoing s"
    by (auto simp: read_exact_Inr token_frame_def)
next
  assume a: "length token \<le> P2P_TOKEN_MAX_BYTES \<and> incoming s = token_frame token @ incoming s' \<and>
      outgoing s' = outgoing s"
  define s1 where "s1 = s\<lparr>incoming := token @ incoming s'\<rparr>"
  have "read_exact 4 s = (Inr (to_be_bytes (word_of_nat (length token))), s1)"
    using a by (simp add: read_exact_Inr token_frame_def s1_def)
  moreover have "read_exact (length token) s1 = (Inr token, s')"
    using a by (simp add: read_exact_Inr s1_def)
  ultimately show "read_token_frame s = (Inr token, s')"
    using a P2P_TOKEN_MAX_less [of token] by (simp add: read_token_frame_def)
qed

section \<open>What a completed conversation means\<close>

lemma is_ok_iff: "is_ok r \<longleftrightarrow> (\<exists>x. r = Inr x)"
  by (cases r) (auto simp: is_ok_def)

text \<open>A token verified for a peer and a session, as one predicate.\<close>

definition token_accepted ::
  "token_env \<Rightarrow> auth_world \<Rightarrow> string \<Rightarrow> peer_id \<Rightarrow> uuid \<Rightarrow> p2p_access_claims \<Rightarrow> bool" where
  "token_accepted E w token peer domain c \<longleftrightarrow>
     verify E (w_ring w) token (w_clock w) = Inr c \<and>
     peer_from_str (te_codec E) (claims_peer_id c) = Some peer \<and>
     (\<exists>d \<in> set (domain_ids c). uuid_parse_str E d = Some domain)"

lemma has_domain_iff: "has_domain E c d \<longleftrightarrow> (\<exists>s \<in> set (domain_ids c). uuid_parse_str E s = Some d)"
  by (auto simp: has_domain_def List.map_filter_def image_iff)

lemma validate_domain_ok [simp]: "validate_domain E req c = Inr u \<longleftrightarrow> has_domain E c (sr_domain_id req)"
  by (simp add: validate_domain_def)

lemma validate_remote_ok [simp]:
  "validate_remote E req c noise = Inr u \<longleftrightarrow>
     sr_expected_remote_peer_id req \<in> {None, Some noise} \<and> has_domain E c (sr_domain_id req)"
  by (auto simp: validate_remote_def split: option.splits)

lemma ensure_literal_expiry_ok [simp]: "ensure_literal_expiry c now = Inr u \<longleftrightarrow> now < exp c"
  by (auto simp: ensure_literal_expiry_def not_le)

lemma local_verdict_Inr:
  "local_verdict E w local req token = Inr c \<longleftrightarrow>
     token \<noteq> [] \<and> token_accepted E w token local (sr_domain_id req) c"
  by (auto simp: local_verdict_def token_accepted_def and_then_eq_Inr guard_ok has_domain_iff)

lemma remote_verdict_Inr:
  "remote_verdict E w remote req received = Inr cred \<longleftrightarrow>
     (\<exists>token c. received = Inr token \<and> cred = \<lparr>compact = token\<rparr> \<and> is_utf8 E token \<and>
        sr_expected_remote_peer_id req \<in> {None, Some remote} \<and>
        token_accepted E w token remote (sr_domain_id req) c)"
  (is "?l \<longleftrightarrow> ?r")
proof
  assume ?l then show ?r
    by (auto simp: remote_verdict_def token_accepted_def and_then_eq_Inr guard_ok has_domain_iff
        signed_p2p_credential_new_def)
next
  assume ?r
  then obtain token c where "received = Inr token" "cred = \<lparr>compact = token\<rparr>" "is_utf8 E token"
    "sr_expected_remote_peer_id req \<in> {None, Some remote}"
    "token_accepted E w token remote (sr_domain_id req) c" by blast
  then show ?l
    using verify_facts(1,2) [of E "w_ring w" token "w_clock w" c]
    by (simp add: remote_verdict_def token_accepted_def and_then_eq_Inr guard_ok has_domain_iff
        signed_p2p_credential_new_def Suc_le_eq)
qed

lemma validate_current_ok:
  "validate_current_local_authority E st w local req now = Inr u \<longleftrightarrow>
     (\<exists>x c. st = Some x \<and> token_accepted E w (compact (s_signed x)) local (sr_domain_id req) c \<and>
        now < exp c)"
  by (auto simp: validate_current_local_authority_def token_accepted_def and_then_eq_Inr
      has_domain_iff store_snapshot_def)

lemma finalize_Inr:
  "finalize_authenticated_peer E cred w req remote now = Inr peer \<longleftrightarrow>
     (\<exists>c. token_accepted E w (compact cred) remote (sr_domain_id req) c \<and> now < exp c \<and>
        sr_expected_remote_peer_id req \<in> {None, Some remote} \<and>
        authenticated_peer_from_claims E c remote = Inr peer)"
  by (auto simp: finalize_authenticated_peer_def token_accepted_def and_then_eq_Inr has_domain_iff)

lemma phase_write_Inr:
  "bounded_phase e ph (write_status ok) s = (Inr u, s') \<longleftrightarrow>
     ph = Completes \<and> s' = s\<lparr>outgoing := outgoing s @ [if ok then AUTH_ACCEPTED else AUTH_REJECTED]\<rparr>"
  by (auto simp: bounded_phase_Inr write_status_def write_all_def)

lemma authenticate_duplex_Inr:
  assumes "authenticate_duplex E W P local remote req s = (Inr peer, s')"
  obtains token c1 where
    "length (own_token (w_store (W 0))) \<le> P2P_TOKEN_MAX_BYTES"
    "local_verdict E (W 1) local req (own_token (w_store (W 0))) = Inr c1"
    "length token \<le> P2P_TOKEN_MAX_BYTES"
    "remote_verdict E (W 2) remote req (Inr token) = Inr \<lparr>compact = token\<rparr>"
    "incoming s = token_frame token @ [AUTH_ACCEPTED] @ incoming s'"
    "outgoing s' = outgoing s @ token_frame (own_token (w_store (W 0))) @ [AUTH_ACCEPTED]"
    "validate_current_local_authority E (w_store (W 4)) (W 5) local req (w_time (W 3)) = Inr ()"
    "finalize_authenticated_peer E \<lparr>compact = token\<rparr> (W 7) req remote (w_time (W 6)) = Inr peer"
proof -
  define own where "own = own_token (w_store (W 0))"
  obtain u1 s1 received s2 u3 s3 status where
    p0: "bounded_phase AuthenticationTimeout (P 0) (write_token_frame own) s = (Inr u1, s1)"
    and p1: "bounded_phase AuthenticationTimeout (P 1) read_token_frame s1 = (received, s2)"
    and p2: "bounded_phase AuthenticationTimeout (P 2) (write_status
        (is_ok (local_verdict E (W 1) local req own) \<and>
         is_ok (remote_verdict E (W 2) remote req received))) s2 = (Inr u3, s3)"
    and p3: "bounded_phase AuthenticationTimeout (P 3) (read_exact 1) s3 = (Inr status, s')"
    and res: "and_then (local_verdict E (W 1) local req own) (\<lambda>_.
         and_then (remote_verdict E (W 2) remote req received) (\<lambda>cred.
         if hd status \<noteq> AUTH_ACCEPTED then Inl RemoteRejected
         else
           and_then (validate_current_local_authority E (w_store (W 4)) (W 5) local req (w_time (W 3))) (\<lambda>_.
           finalize_authenticated_peer E cred (W 7) req remote (w_time (W 6))))) = Inr peer"
    using assms unfolding authenticate_duplex_def Let_def own_def [symmetric]
    by (auto split: prod.splits sum.splits)
  from res obtain c1 cred where mine: "local_verdict E (W 1) local req own = Inr c1"
    and theirs: "remote_verdict E (W 2) remote req received = Inr cred"
    and st: "hd status = AUTH_ACCEPTED"
    and cur: "validate_current_local_authority E (w_store (W 4)) (W 5) local req (w_time (W 3)) = Inr ()"
    and fin: "finalize_authenticated_peer E cred (W 7) req remote (w_time (W 6)) = Inr peer"
    by (auto simp: and_then_eq_Inr guard_ok)
  obtain token where rec: "received = Inr token" and cred: "cred = \<lparr>compact = token\<rparr>"
    using theirs by (auto simp: remote_verdict_Inr)
  have w: "length own \<le> P2P_TOKEN_MAX_BYTES" "s1 = s\<lparr>outgoing := outgoing s @ token_frame own\<rparr>"
    using p0 by (simp_all add: bounded_phase_Inr write_token_frame_Inr)
  have r: "length token \<le> P2P_TOKEN_MAX_BYTES" "incoming s1 = token_frame token @ incoming s2"
    "outgoing s2 = outgoing s1"
    using p1 rec by (simp_all add: bounded_phase_Inr read_token_frame_Inr)
  have s3: "s3 = s2\<lparr>outgoing := outgoing s2 @ [AUTH_ACCEPTED]\<rparr>"
    using p2 [unfolded mine theirs] by (simp add: phase_write_Inr is_ok_def)
  have fin_read: "length status = 1" "incoming s3 = status @ incoming s'" "outgoing s' = outgoing s3"
    using p3 by (simp_all add: bounded_phase_Inr read_exact_Inr)
  have status: "status = [AUTH_ACCEPTED]" using fin_read(1) st by (cases status) auto
  show thesis
    using w r s3 fin_read(2,3) status mine theirs cur fin rec cred
    by (intro that [of c1 token]) (simp_all add: own_def)
qed


text \<open>
  The calendar library turns a number of seconds, when it accepts it, into the time that many
  seconds after the epoch.
\<close>

definition timestamps_exact :: "token_env \<Rightarrow> bool" where
  "timestamps_exact E \<longleftrightarrow>
     (\<forall>n t. datetime_from_timestamp E n = Some t \<longrightarrow> t = n * nanos_per_sec)"

lemma peer_from_claims_Inr:
  assumes "timestamps_exact E" "authenticated_peer_from_claims E c remote = Inr peer"
  shows "ap_peer_id peer = remote" "ap_subject peer = sub c" "ap_scopes peer = scopes c"
    "ap_verified_until peer = int (unat (exp c)) * nanos_per_sec"
    "map (uuid_parse_str E) (domain_ids c) = map Some (ap_domain_ids peer)"
proof -
  obtain ds t n where ds: "list_all2 (\<lambda>d u. uuid_parse_str E d = Some u) (domain_ids c) ds"
    and n: "i64_from_u64 (exp c) = Some n" and t: "datetime_from_timestamp E n = Some t"
    and peer: "peer = \<lparr>ap_peer_id = remote, ap_subject = sub c, ap_peer_type = peer_type c,
      ap_domain_ids = ds, ap_scopes = scopes c, ap_application = application c, ap_verified_until = t\<rparr>"
    using assms(2)
    by (auto simp: authenticated_peer_from_claims_def and_then_eq_Inr collect_results_Inr
        bind_eq_Some_conv)
  show "ap_peer_id peer = remote" "ap_subject peer = sub c" "ap_scopes peer = scopes c"
    by (simp_all add: peer)
  show "ap_verified_until peer = int (unat (exp c)) * nanos_per_sec"
    using assms(1) n t by (auto simp: peer timestamps_exact_def i64_from_u64_def split: if_splits)
  show "map (uuid_parse_str E) (domain_ids c) = map Some (ap_domain_ids peer)"
    using ds unfolding peer by (induction rule: list_all2_induct) simp_all
qed

lemma token_frame_cancel:
  assumes "length t \<le> P2P_TOKEN_MAX_BYTES" "length t' \<le> P2P_TOKEN_MAX_BYTES"
    and "token_frame t @ x = token_frame t' @ y"
  shows "t = t' \<and> x = y"
proof -
  have "read_token_frame \<lparr>incoming = token_frame t @ x, outgoing = []\<rparr> = (Inr t, \<lparr>incoming = x, outgoing = []\<rparr>)"
    using assms(1) by (simp add: read_token_frame_Inr)
  moreover have "read_token_frame \<lparr>incoming = token_frame t' @ y, outgoing = []\<rparr> =
      (Inr t', \<lparr>incoming = y, outgoing = []\<rparr>)"
    using assms(2) by (simp add: read_token_frame_Inr)
  ultimately show ?thesis unfolding assms(3) by (auto dest: trans [OF sym])
qed

lemma read_exact_outgoing: "outgoing (snd (read_exact n s)) = outgoing s"
  by (simp add: read_exact_def)

text \<open>What an undisturbed run writes, whatever it concludes.\<close>

lemma authenticate_duplex_writes:
  assumes "authenticate_duplex E W (\<lambda>_. Completes) local remote req
      \<lparr>incoming = token_frame token @ rest, outgoing = []\<rparr> = (res, s')"
    and "length (own_token (w_store (W 0))) \<le> P2P_TOKEN_MAX_BYTES" "length token \<le> P2P_TOKEN_MAX_BYTES"
  shows "outgoing s' = token_frame (own_token (w_store (W 0))) @
    [if is_ok (local_verdict E (W 1) local req (own_token (w_store (W 0)))) \<and>
        is_ok (remote_verdict E (W 2) remote req (Inr token)) then AUTH_ACCEPTED else AUTH_REJECTED]"
proof -
  define own where "own = own_token (w_store (W 0))"
  define s1 where "s1 = \<lparr>incoming = token_frame token @ rest, outgoing = token_frame own\<rparr>"
  define s2 where "s2 = \<lparr>incoming = rest, outgoing = token_frame own\<rparr>"
  have w: "write_token_frame own \<lparr>incoming = token_frame token @ rest, outgoing = []\<rparr> = (Inr (), s1)"
    using assms(2) by (simp add: own_def s1_def write_token_frame_Inr)
  have r: "read_token_frame s1 = (Inr token, s2)"
    using assms(3) by (simp add: s1_def s2_def read_token_frame_Inr)
  define ok where "ok \<longleftrightarrow> is_ok (local_verdict E (W 1) local req own) \<and>
    is_ok (remote_verdict E (W 2) remote req (Inr token))"
  have "snd (read_exact 1 (write_all [if ok then AUTH_ACCEPTED else AUTH_REJECTED] s2)) = s'"
    using assms(1) unfolding authenticate_duplex_def Let_def own_def [symmetric]
    by (simp only: bounded_phase_def phase_end.case w r write_status_def prod.case sum.case ok_def [symmetric])
      (auto split: prod.splits sum.splits)
  then show ?thesis
    using read_exact_outgoing [of 1 "write_all [if ok then AUTH_ACCEPTED else AUTH_REJECTED] s2"]
    by (simp add: write_all_def s2_def own_def ok_def)
qed

section \<open>Properties\<close>

text \<open>
  C1: What an exposed stream guarantees to one side, against any remote bytes and any changes
  of keys, credentials and clocks during the call. If \<open>authenticate_duplex\<close> succeeds, the bytes
  consumed from the other side are exactly one token frame and the acceptance byte, and the
  bytes sent are exactly the own token frame and the acceptance byte. The token received
  verifies at the final check, names the Noise peer of the connection, grants the required
  Domain, and has not literally expired; the expected peer, if one was required, is that peer;
  the local credential installed at the end also verifies for the local peer and the Domain.
  The reported identity is the one of the token, valid until the token's expiration.
\<close>

theorem authentication_sound:
  assumes "timestamps_exact E"
    and "authenticate_duplex E W P local remote req \<lparr>incoming = bytes, outgoing = []\<rparr> = (Inr peer, s')"
  shows "\<exists>token c x c'.
    bytes = token_frame token @ [AUTH_ACCEPTED] @ incoming s' \<and>
    outgoing s' = token_frame (own_token (w_store (W 0))) @ [AUTH_ACCEPTED] \<and>
    token_accepted E (W 7) token remote (sr_domain_id req) c \<and> w_time (W 6) < exp c \<and>
    sr_expected_remote_peer_id req \<in> {None, Some remote} \<and>
    w_store (W 4) = Some x \<and>
    token_accepted E (W 5) (compact (s_signed x)) local (sr_domain_id req) c' \<and>
    ap_peer_id peer = remote \<and> ap_subject peer = sub c \<and>
    ap_verified_until peer = int (unat (exp c)) * nanos_per_sec \<and>
    sr_domain_id req \<in> set (ap_domain_ids peer)"
  using assms(2)
proof (cases rule: authenticate_duplex_Inr)
  case (1 token c1)
  obtain x c' where x: "w_store (W 4) = Some x"
    "token_accepted E (W 5) (compact (s_signed x)) local (sr_domain_id req) c'"
    using 1(7) by (auto simp: validate_current_ok)
  obtain c where c: "token_accepted E (W 7) token remote (sr_domain_id req) c" "w_time (W 6) < exp c"
    "sr_expected_remote_peer_id req \<in> {None, Some remote}"
    "authenticated_peer_from_claims E c remote = Inr peer"
    using 1(8) by (auto simp: finalize_Inr)
  note p = peer_from_claims_Inr [OF assms(1) c(4)]
  have "Some (sr_domain_id req) \<in> set (map (uuid_parse_str E) (domain_ids c))"
    using c(1) by (auto simp: token_accepted_def image_iff intro: sym)
  then have "sr_domain_id req \<in> set (ap_domain_ids peer)"
    unfolding p(5) by auto
  with 1(5,6) c x p show ?thesis by auto
qed

text \<open>
  C2: Authentication is mutual. Let one side succeed, and let the bytes it read be what the
  other side wrote in its own run of the same code (followed by any application bytes), that
  run having read what this side wrote, without timeouts. Then the other side has accepted this
  side's token for this side's Peer ID and for the Domain it requires itself, and its own token
  for its own Peer ID; and every byte after the other side's acceptance is left to the
  application.
\<close>

theorem authentication_mutual:
  assumes "authenticate_duplex E W P a b req \<lparr>incoming = outgoing sB @ app, outgoing = []\<rparr> = (Inr peer, sA)"
    and "authenticate_duplex E' W' (\<lambda>_. Completes) b a req' \<lparr>incoming = outgoing sA, outgoing = []\<rparr> = (res, sB)"
    and "length (own_token (w_store (W' 0))) \<le> P2P_TOKEN_MAX_BYTES"
  shows "incoming sA = app \<and>
    (\<exists>c. token_accepted E' (W' 2) (own_token (w_store (W 0))) a (sr_domain_id req') c) \<and>
    (\<exists>c. token_accepted E' (W' 1) (own_token (w_store (W' 0))) b (sr_domain_id req') c) \<and>
    sr_expected_remote_peer_id req' \<in> {None, Some a}"
  using assms(1)
proof (cases rule: authenticate_duplex_Inr)
  case (1 token c1)
  let ?own = "own_token (w_store (W 0))" and ?own' = "own_token (w_store (W' 0))"
  have sA: "outgoing sA = token_frame ?own @ [AUTH_ACCEPTED]" using 1(6) by simp
  define ok where "ok \<longleftrightarrow> is_ok (local_verdict E' (W' 1) b req' ?own') \<and>
    is_ok (remote_verdict E' (W' 2) a req' (Inr ?own))"
  have "outgoing sB = token_frame ?own' @ [if ok then AUTH_ACCEPTED else AUTH_REJECTED]"
    unfolding ok_def
    by (rule authenticate_duplex_writes [OF assms(2) [unfolded sA] assms(3) 1(1)])
  then have "token_frame ?own' @ (if ok then AUTH_ACCEPTED else AUTH_REJECTED) # app =
      token_frame token @ AUTH_ACCEPTED # incoming sA"
    using 1(5) by simp
  from token_frame_cancel [OF assms(3) 1(3) this] have "ok" and app: "app = incoming sA"
    by (auto simp: AUTH_ACCEPTED_def AUTH_REJECTED_def split: if_splits)
  then obtain c cred where "local_verdict E' (W' 1) b req' ?own' = Inr c"
    "remote_verdict E' (W' 2) a req' (Inr ?own) = Inr cred"
    by (auto simp: ok_def is_ok_iff)
  then show ?thesis using app by (auto simp: local_verdict_Inr remote_verdict_Inr)
qed

section \<open>Witnesses\<close>

text \<open>A conversation in which every check succeeds goes through.\<close>

lemma authenticate_duplex_complete:
  assumes "length (own_token (w_store (W 0))) \<le> P2P_TOKEN_MAX_BYTES" "length token \<le> P2P_TOKEN_MAX_BYTES"
    and "local_verdict E (W 1) local req (own_token (w_store (W 0))) = Inr c1"
    and "remote_verdict E (W 2) remote req (Inr token) = Inr \<lparr>compact = token\<rparr>"
    and "validate_current_local_authority E (w_store (W 4)) (W 5) local req (w_time (W 3)) = Inr ()"
    and "finalize_authenticated_peer E \<lparr>compact = token\<rparr> (W 7) req remote (w_time (W 6)) = Inr peer"
  shows "authenticate_duplex E W (\<lambda>_. Completes) local remote req
      \<lparr>incoming = token_frame token @ AUTH_ACCEPTED # app, outgoing = []\<rparr> =
    (Inr peer, \<lparr>incoming = app, outgoing = token_frame (own_token (w_store (W 0))) @ [AUTH_ACCEPTED]\<rparr>)"
proof -
  define own where "own = own_token (w_store (W 0))"
  define s1 where "s1 = \<lparr>incoming = token_frame token @ AUTH_ACCEPTED # app, outgoing = token_frame own\<rparr>"
  define s2 where "s2 = \<lparr>incoming = AUTH_ACCEPTED # app, outgoing = token_frame own\<rparr>"
  define s3 where "s3 = \<lparr>incoming = AUTH_ACCEPTED # app, outgoing = token_frame own @ [AUTH_ACCEPTED]\<rparr>"
  have w: "write_token_frame own \<lparr>incoming = token_frame token @ AUTH_ACCEPTED # app, outgoing = []\<rparr> = (Inr (), s1)"
    using assms(1) by (simp add: own_def s1_def write_token_frame_Inr)
  have r: "read_token_frame s1 = (Inr token, s2)"
    using assms(2) by (simp add: s1_def s2_def read_token_frame_Inr)
  have st: "write_status True s2 = (Inr (), s3)"
    by (simp add: write_status_def write_all_def s2_def s3_def)
  have last_read: "read_exact 1 s3 = (Inr [AUTH_ACCEPTED],
      \<lparr>incoming = app, outgoing = token_frame own @ [AUTH_ACCEPTED]\<rparr>)"
    by (simp add: s3_def read_exact_def)
  have ok: "is_ok (Inr x) \<longleftrightarrow> True" for x :: 'x by (simp add: is_ok_def)
  show ?thesis
    unfolding authenticate_duplex_def Let_def own_def [symmetric]
    by (simp only: bounded_phase_def phase_end.case w r prod.case sum.case
        assms(3) [folded own_def] assms(4) ok simp_thms st last_read and_then_simps assms(5,6)
        list.sel if_False)
qed

definition sample_world :: "char \<Rightarrow> auth_world" where
  "sample_world ch = \<lparr>w_store = Some \<lparr>s_signed = \<lparr>compact = [CHR ''A'', ch]\<rparr>,
       claims = sample_claims (PeerId [ch]) 2\<rparr>,
     w_ring = sample_ring, w_clock = \<lparr>wall_now = 0, mono_now = 0\<rparr>\<rparr>"

definition sample_session :: session_requirements where
  "sample_session = \<lparr>sr_domain_id = 7, sr_expected_remote_peer_id = None\<rparr>"

definition sample_authenticated :: "char \<Rightarrow> authenticated_peer" where
  "sample_authenticated ch = \<lparr>ap_peer_id = PeerId [ch], ap_subject = ''robot-1'',
     ap_peer_type = Some ''robot'', ap_domain_ids = [7], ap_scopes = [''domain-data:r''],
     ap_application = None, ap_verified_until = 1802 * nanos_per_sec\<rparr>"

lemma sample_token_accepted:
  "token_accepted sample_env (sample_world x) [CHR ''A'', ch] (PeerId [ch]) 7 (sample_claims (PeerId [ch]) 2)"
proof -
  have "peer_from_str (te_codec sample_env) (ref_peer_to_string (PeerId [ch])) = Some (PeerId [ch])"
    using codec_peer_roundtrip [OF ref_codec_ok, of "PeerId [ch]"] by (simp add: ref_codec_def sample_env_def)
  moreover have "uuid_parse_str sample_env ''7'' = Some 7"
    by (simp add: sample_env_def dec_eval)
  ultimately show ?thesis
    using sample_verify(1) [of "[CHR ''A'', ch]" "\<lparr>wall_now = 0, mono_now = 0\<rparr>"]
    by (simp add: token_accepted_def sample_world_def unix_time_def) (simp add: sample_claims_def)
qed

lemma sample_conversation:
  "authenticate_duplex sample_env (\<lambda>_. sample_world x) (\<lambda>_. Completes) (PeerId [x]) (PeerId [y])
     sample_session \<lparr>incoming = token_frame [CHR ''A'', y] @ AUTH_ACCEPTED # app, outgoing = []\<rparr> =
   (Inr (sample_authenticated y),
    \<lparr>incoming = app, outgoing = token_frame [CHR ''A'', x] @ [AUTH_ACCEPTED]\<rparr>)"
proof -
  have own: "own_token (w_store (sample_world x)) = [CHR ''A'', x]"
    by (simp add: own_token_def store_snapshot_def sample_world_def)
  have "local_verdict sample_env (sample_world x) (PeerId [x]) sample_session [CHR ''A'', x] =
      Inr (sample_claims (PeerId [x]) 2)"
    by (simp add: local_verdict_Inr sample_token_accepted sample_session_def)
  moreover have "remote_verdict sample_env (sample_world x) (PeerId [y]) sample_session (Inr [CHR ''A'', y]) =
      Inr \<lparr>compact = [CHR ''A'', y]\<rparr>"
    using sample_token_accepted [of x y]
    by (auto simp: remote_verdict_Inr sample_session_def) (simp add: sample_env_def)
  moreover have time: "w_time (sample_world x) = 0" by (simp add: sample_world_def unix_time_def)
  moreover have "validate_current_local_authority sample_env (w_store (sample_world x)) (sample_world x)
      (PeerId [x]) sample_session 0 = Inr ()"
    using sample_token_accepted [of x x]
    by (auto simp: validate_current_ok sample_session_def sample_world_def sample_claims_def)
  moreover have "authenticated_peer_from_claims sample_env (sample_claims (PeerId [y]) 2) (PeerId [y]) =
      Inr (sample_authenticated y)"
    by (simp add: authenticated_peer_from_claims_def sample_claims_def sample_authenticated_def
        i64_from_u64_def sample_env_def dec_eval token_consts)
  then have "finalize_authenticated_peer sample_env \<lparr>compact = [CHR ''A'', y]\<rparr> (sample_world x)
      sample_session (PeerId [y]) 0 = Inr (sample_authenticated y)"
    using sample_token_accepted [of x y]
    by (auto simp: finalize_Inr sample_session_def sample_claims_def intro!: exI [of _ "sample_claims (PeerId [y]) 2"])
  ultimately show ?thesis
    using authenticate_duplex_complete [of "\<lambda>_. sample_world x" "[CHR ''A'', y]" sample_env "PeerId [x]"
        sample_session] own
    by (simp add: token_consts)
qed

lemma sample_timestamps: "timestamps_exact sample_env"
  by (simp add: timestamps_exact_def sample_env_def token_consts)

theorem authentication_sound_witness:
  "ap_peer_id (sample_authenticated (CHR ''Q'')) = PeerId ''Q'' \<and>
   (\<exists>c. ap_subject (sample_authenticated (CHR ''Q'')) = sub c \<and>
     token_accepted sample_env (sample_world (CHR ''R'')) ''AQ'' (PeerId ''Q'') 7 c)"
proof -
  note authentication_sound [OF sample_timestamps sample_conversation [of "CHR ''R''" "CHR ''Q''" "''hello''"]]
  then obtain token c where tc: "token_frame ''AQ'' @ AUTH_ACCEPTED # ''hello'' = token_frame token @ AUTH_ACCEPTED # ''hello''"
    "token_accepted sample_env (sample_world (CHR ''R'')) token (PeerId ''Q'') 7 c"
    "ap_peer_id (sample_authenticated (CHR ''Q'')) = PeerId ''Q''"
    "ap_subject (sample_authenticated (CHR ''Q'')) = sub c"
    by (auto simp: sample_session_def)
  have "length token \<le> P2P_TOKEN_MAX_BYTES"
    using tc(2) verify_facts(2) by (auto simp: token_accepted_def)
  then have "token = ''AQ''"
    using token_frame_cancel [OF _ _ tc(1)] by (simp add: token_consts)
  with tc show ?thesis by blast
qed

theorem authentication_mutual_witness:
  "(\<exists>c. token_accepted sample_env (sample_world (CHR ''Q'')) ''AR'' (PeerId ''R'') 7 c)"
proof -
  have own: "own_token (w_store (sample_world ch)) = [CHR ''A'', ch]" for ch
    by (simp add: own_token_def store_snapshot_def sample_world_def)
  have a: "authenticate_duplex sample_env (\<lambda>_. sample_world (CHR ''R'')) (\<lambda>_. Completes) (PeerId ''R'')
      (PeerId ''Q'') sample_session \<lparr>incoming = outgoing \<lparr>incoming = [],
        outgoing = token_frame ''AQ'' @ [AUTH_ACCEPTED]\<rparr> @ ''hello'', outgoing = []\<rparr> =
      (Inr (sample_authenticated (CHR ''Q'')),
       \<lparr>incoming = ''hello'', outgoing = token_frame ''AR'' @ [AUTH_ACCEPTED]\<rparr>)"
    using sample_conversation [of "CHR ''R''" "CHR ''Q''" "''hello''"] by simp
  have b: "authenticate_duplex sample_env (\<lambda>_. sample_world (CHR ''Q'')) (\<lambda>_. Completes) (PeerId ''Q'')
      (PeerId ''R'') sample_session \<lparr>incoming = outgoing \<lparr>incoming = ''hello'',
        outgoing = token_frame ''AR'' @ [AUTH_ACCEPTED]\<rparr>, outgoing = []\<rparr> =
      (Inr (sample_authenticated (CHR ''R'')),
       \<lparr>incoming = [], outgoing = token_frame ''AQ'' @ [AUTH_ACCEPTED]\<rparr>)"
    using sample_conversation [of "CHR ''Q''" "CHR ''R''" "[]"] by simp
  have "length (own_token (w_store (sample_world (CHR ''Q'')))) \<le> P2P_TOKEN_MAX_BYTES"
    by (simp add: own token_consts)
  from authentication_mutual [OF a b this] show ?thesis
    unfolding own by (simp add: sample_session_def)
qed

end
