(* ===== verification/Source_Admission.thy ===== *)
theory Source_Admission
  imports Authentication
begin

text \<open>
  Source admission at a relay (\<open>core/auki-p2p/src/source_admission.rs\<close>): the framed JSON
  exchange that asks a relay to admit this peer as the source of circuits to a target, the
  checks on the deadline it grants, and the single-flight cache of granted leases. JSON, RFC
  3339 and JWT code is third-party and stands as the record \<open>admission_env\<close>. Of the cache's
  asynchronous methods each critical section is one step, so the calls of several tasks
  interleave at the gate of an entry.
\<close>

section \<open>Frames\<close>

definition REQUEST_MAX_BYTES :: nat where
  "REQUEST_MAX_BYTES = 64 * 1024"

definition RESPONSE_MAX_BYTES :: nat where
  "RESPONSE_MAX_BYTES = 4 * 1024"

definition MAX_ACCEPTED_TTL :: int where
  "MAX_ACCEPTED_TTL = 30 * nanos_per_sec"

definition REUSE_SAFETY_MARGIN :: int where
  "REUSE_SAFETY_MARGIN = nanos_per_sec"

lemmas admission_consts = REQUEST_MAX_BYTES_def RESPONSE_MAX_BYTES_def MAX_ACCEPTED_TTL_def
  REUSE_SAFETY_MARGIN_def nanos_per_sec_def

definition write_frame :: "string \<Rightarrow> nat \<Rightarrow> byte_stream \<Rightarrow> unit stream_result" where
  "write_frame payload maximum s =
     (if payload = [] \<or> length payload > maximum then (Inl (RelayAdmissionFrameTooLarge maximum), s)
      else if 2 ^ 32 \<le> length payload then (Inl (RelayAdmissionFrameTooLarge maximum), s)
      else (Inr (), write_all payload (write_all (to_be_bytes (word_of_nat (length payload))) s)))"

definition read_frame :: "nat \<Rightarrow> byte_stream \<Rightarrow> string stream_result" where
  "read_frame maximum s =
     (case read_exact 4 s of
        (Inl e, s) \<Rightarrow> (Inl e, s)
      | (Inr header, s) \<Rightarrow>
          let len = unat (from_be_bytes header)
          in if len = 0 \<or> len > maximum then (Inl (RelayAdmissionFrameTooLarge maximum), s)
             else read_exact len s)"

definition require_eof :: "byte_stream \<Rightarrow> unit stream_result" where
  "require_eof s =
     (case incoming s of [] \<Rightarrow> (Inr (), s)
      | _ # rest \<Rightarrow> (Inl RelayAdmissionMalformed, s\<lparr>incoming := rest\<rparr>))"

section \<open>Request and response\<close>

datatype json_value = JBool bool | JString string | JNumber int | JObject "(string \<times> json_value) list" | JOther

text \<open>
  The third-party code: rendering JSON, the first value of a JSON text (\<open>None\<close> when there is
  none, an inner \<open>None\<close> when it does not parse) with the offset behind it, and RFC 3339 times with
  their offset from UTC in seconds.
\<close>

record admission_env =
  ae_token :: token_env
  json_to_vec :: "json_value \<Rightarrow> string option"
  json_first_value :: "string \<Rightarrow> json_value option option \<times> nat"
  parse_from_rfc3339 :: "string \<Rightarrow> (instant \<times> int) option"

record admission_request =
  rq_domain_id :: uuid
  rq_target_peer_id :: peer_id
  rq_p2p_access_token :: string

definition serialize_request :: "token_env \<Rightarrow> admission_request \<Rightarrow> json_value" where
  "serialize_request E rq = JObject
     [(''version'', JNumber 1), (''domain_id'', JString (uuid_to_string E (rq_domain_id rq))),
      (''target_peer_id'', JString (peer_to_string (te_codec E) (rq_target_peer_id rq))),
      (''p2p_access_token'', JString (rq_p2p_access_token rq))]"

record admission_response =
  accepted :: bool
  accepted_until :: "string option"

text \<open>\<open>visit_map\<close>: its loop over the entries, then the check of what was found.\<close>

fun visit_map ::
  "bool option \<Rightarrow> string option \<Rightarrow> (string \<times> json_value) list \<Rightarrow> admission_response option" where
  "visit_map acc until [] =
     (case acc of
        None \<Rightarrow> None
      | Some a \<Rightarrow>
          (case (a, until) of
             (True, Some u) \<Rightarrow> Some \<lparr>accepted = a, accepted_until = Some u\<rparr>
           | (False, None) \<Rightarrow> Some \<lparr>accepted = a, accepted_until = None\<rparr>
           | _ \<Rightarrow> None))"
| "visit_map acc until ((k, v) # entries) =
     (if k = ''accepted'' then
        (if acc \<noteq> None then None
         else (case v of JBool b \<Rightarrow> visit_map (Some b) until entries | _ \<Rightarrow> None))
      else if k = ''accepted_until'' then
        (if until \<noteq> None then None
         else (case v of JString u \<Rightarrow> visit_map acc (Some u) entries | _ \<Rightarrow> None))
      else None)"

definition deserialize_response :: "json_value \<Rightarrow> admission_response option" where
  "deserialize_response v = (case v of JObject entries \<Rightarrow> visit_map None None entries | _ \<Rightarrow> None)"

definition decode_response :: "admission_env \<Rightarrow> string \<Rightarrow> admission_response p2p_result" where
  "decode_response A payload =
     (if \<not> is_utf8 (ae_token A) payload then Inl RelayAdmissionMalformed
      else case json_first_value A payload of (first, offset) \<Rightarrow>
        and_then (ok_or RelayAdmissionMalformed first) (\<lambda>value.
        and_then (ok_or RelayAdmissionMalformed (Option.bind value deserialize_response)) (\<lambda>response.
        if offset \<noteq> length payload then Inl RelayAdmissionMalformed else Inr response)))"

text \<open>The checks on a decoded response at the time \<open>now\<close>.\<close>

definition check_response ::
  "admission_env \<Rightarrow> admission_response \<Rightarrow> instant \<Rightarrow> instant p2p_result" where
  "check_response A response now =
     (if \<not> accepted response then Inl RelayAdmissionDenied
      else
        and_then (ok_or RelayAdmissionMalformed (accepted_until response)) (\<lambda>raw.
        and_then (ok_or RelayAdmissionMalformed (parse_from_rfc3339 A raw)) (\<lambda>(until, utc_offset).
        if utc_offset \<noteq> 0 then Inl RelayAdmissionMalformed
        else if now \<ge> until then Inl RelayAdmissionExpired
        else if until > now + MAX_ACCEPTED_TTL then Inl RelayAdmissionMalformed
        else Inr until)))"

definition read_response :: "byte_stream \<Rightarrow> string stream_result" where
  "read_response s =
     (case read_frame RESPONSE_MAX_BYTES s of
        (Inl e, s) \<Rightarrow> (Inl e, s)
      | (Inr response, s) \<Rightarrow>
          (case require_eof s of (Inl e, s) \<Rightarrow> (Inl e, s) | (Inr _, s) \<Rightarrow> (Inr response, s)))"

definition authorize ::
  "admission_env \<Rightarrow> (nat \<Rightarrow> phase_end) \<Rightarrow> admission_request \<Rightarrow> instant \<Rightarrow> byte_stream \<Rightarrow>
   instant stream_result" where
  "authorize A P rq now s =
     (case json_to_vec A (serialize_request (ae_token A) rq) of
        None \<Rightarrow> (Inl RelayAdmissionMalformed, s)
      | Some payload \<Rightarrow>
          (case bounded_phase RelayAdmissionTimeout (P 0) (write_frame payload REQUEST_MAX_BYTES) s of
             (Inl e, s) \<Rightarrow> (Inl e, s)
           | (Inr _, s) \<Rightarrow>
               (case bounded_phase RelayAdmissionTimeout (P 1) read_response s of
                  (Inl e, s) \<Rightarrow> (Inl e, s)
                | (Inr bytes, s) \<Rightarrow>
                    (and_then (decode_response A bytes) (\<lambda>response. check_response A response now), s))))"

record prepared_authorization =
  pa_domain_id :: uuid
  pa_target_peer_id :: peer_id
  pa_token :: signed_p2p_credential
  pa_token_expiration :: instant
  pa_issued_at :: u64

definition prepare_authorization ::
  "token_env \<Rightarrow> peer_id \<Rightarrow> peer_id \<Rightarrow> uuid \<Rightarrow> token_store \<Rightarrow> auth_world \<Rightarrow> prepared_authorization p2p_result" where
  "prepare_authorization E local target domain tokens w =
     and_then (ok_or MissingToken (store_snapshot tokens)) (\<lambda>token.
     and_then (verify E (w_ring w) (compact token) (w_clock w)) (\<lambda>c.
     and_then (ensure_token_peer E c local) (\<lambda>_.
     if \<not> has_domain E c domain then Inl (RemoteDomainMismatch (uuid_to_string E domain))
     else
       and_then (ok_or RelayAdmissionMalformed
         (Option.bind (i64_from_u64 (exp c)) (datetime_from_timestamp E))) (\<lambda>expiration.
       Inr \<lparr>pa_domain_id = domain, pa_target_peer_id = target, pa_token = token,
         pa_token_expiration = expiration, pa_issued_at = iat c\<rparr>))))"

definition authorize_prepared ::
  "admission_env \<Rightarrow> (nat \<Rightarrow> phase_end) \<Rightarrow> prepared_authorization \<Rightarrow> instant \<Rightarrow> byte_stream \<Rightarrow>
   instant stream_result" where
  "authorize_prepared A P pa now s =
     (case authorize A P \<lparr>rq_domain_id = pa_domain_id pa, rq_target_peer_id = pa_target_peer_id pa,
             rq_p2p_access_token = compact (pa_token pa)\<rparr> now s of
        (Inl e, s) \<Rightarrow> (Inl e, s)
      | (Inr until, s) \<Rightarrow>
          if until > pa_token_expiration pa then (Inl RelayAdmissionMalformed, s) else (Inr until, s))"

section \<open>The cache\<close>

record cache_key =
  ck_relay_peer_id :: peer_id
  ck_relay_connection :: nat
  ck_target_peer_id :: peer_id
  ck_domain_id :: uuid
  ck_credential_issued_at :: u64

record cached_admission =
  ca_expires_at :: instant
  ca_lease_id :: u64
  ca_credential_issued_at :: u64

definition uncached :: "instant \<Rightarrow> cached_admission" where
  "uncached t = \<lparr>ca_expires_at = t, ca_lease_id = 0, ca_credential_issued_at = 0\<rparr>"

record admission_lease =
  l_expires_at :: instant
  l_reuse_until :: instant
  l_lease_id :: u64

text \<open>
  An entry: its lease, whether its gate is held (by the call that is asking the relay), and the
  number of \<open>Arc\<close> clones outside the map, one per call that holds the entry.
\<close>

record admission_entry =
  e_gate :: bool
  e_cached :: "admission_lease option"
  e_holders :: nat

record admission_cache =
  ac_entries :: "(cache_key, admission_entry) hashmap"
  ac_next_lease_id :: u64

definition cache_default :: admission_cache where
  "cache_default = \<lparr>ac_entries = [], ac_next_lease_id = 0\<rparr>"

definition entry_default :: admission_entry where
  "entry_default = \<lparr>e_gate = False, e_cached = None, e_holders = 0\<rparr>"

definition reusable :: "admission_lease \<Rightarrow> instant \<Rightarrow> instant \<Rightarrow> bool" where
  "reusable l wall monotonic \<longleftrightarrow>
     l_expires_at l > wall + REUSE_SAFETY_MARGIN \<and> monotonic < l_reuse_until l"

text \<open>\<open>to_std\<close> and \<open>checked_sub\<close> fail on negative durations.\<close>

definition reuse_deadline :: "instant \<Rightarrow> instant \<Rightarrow> instant \<Rightarrow> instant option" where
  "reuse_deadline expires_at wall monotonic =
     (let remaining = expires_at - wall
      in if remaining < 0 then None
         else if remaining - REUSE_SAFETY_MARGIN < 0 then None
         else Some (monotonic + (remaining - REUSE_SAFETY_MARGIN)))"

text \<open>The critical section on the entries: expired, unheld entries go, the key's entry is held.\<close>

definition retained :: "reading \<Rightarrow> admission_entry \<Rightarrow> bool" where
  "retained r e \<longleftrightarrow>
     e_holders e > 0 \<or>
     (case e_cached e of None \<Rightarrow> False | Some l \<Rightarrow> reusable l (wall_now r) (mono_now r))"

definition cache_enter :: "cache_key \<Rightarrow> reading \<Rightarrow> admission_cache \<Rightarrow> admission_cache" where
  "cache_enter key r c =
     (let kept = filter (\<lambda>(_, e). retained r e) (ac_entries c);
          entry = (case map_of kept key of None \<Rightarrow> entry_default | Some e \<Rightarrow> e)
      in c\<lparr>ac_entries := hm_insert key (entry\<lparr>e_holders := Suc (e_holders entry)\<rparr>) kept\<rparr>)"

text \<open>
  Behind the gate: a reusable lease is returned and the entry let go; otherwise the lease is
  dropped and the gate stays held while the relay is asked.
\<close>

definition set_entry :: "cache_key \<Rightarrow> admission_entry \<Rightarrow> admission_cache \<Rightarrow> admission_cache" where
  "set_entry key e c = c\<lparr>ac_entries := hm_insert key e (ac_entries c)\<rparr>"

definition let_go :: "admission_entry \<Rightarrow> admission_entry" where
  "let_go e = e\<lparr>e_gate := False, e_holders := e_holders e - 1\<rparr>"

definition cache_check ::
  "cache_key \<Rightarrow> admission_entry \<Rightarrow> reading \<Rightarrow> admission_cache \<Rightarrow> cached_admission option \<times> admission_cache" where
  "cache_check key e r c =
     (case e_cached e of
        Some l \<Rightarrow>
          if reusable l (wall_now r) (mono_now r) then
            (Some \<lparr>ca_expires_at = l_expires_at l, ca_lease_id = l_lease_id l,
               ca_credential_issued_at = ck_credential_issued_at key\<rparr>, set_entry key (let_go e) c)
          else (None, set_entry key (e\<lparr>e_gate := True, e_cached := None\<rparr>) c)
      | None \<Rightarrow> (None, set_entry key (e\<lparr>e_gate := True, e_cached := None\<rparr>) c))"

definition next_lease_id :: "u64 \<Rightarrow> u64" where
  "next_lease_id n = max (n + 1) 1"

definition cache_grant ::
  "cache_key \<Rightarrow> admission_entry \<Rightarrow> instant \<Rightarrow> reading \<Rightarrow> admission_cache \<Rightarrow>
   cached_admission \<times> admission_cache" where
  "cache_grant key e expires_at r c =
     (let lease_id = next_lease_id (ac_next_lease_id c);
          e' = (case reuse_deadline expires_at (wall_now r) (mono_now r) of
                  Some reuse_until \<Rightarrow> e\<lparr>e_cached := Some \<lparr>l_expires_at = expires_at,
                    l_reuse_until = reuse_until, l_lease_id = lease_id\<rparr>\<rparr>
                | None \<Rightarrow> e)
      in (\<lparr>ca_expires_at = expires_at, ca_lease_id = lease_id,
            ca_credential_issued_at = ck_credential_issued_at key\<rparr>,
          (set_entry key (let_go e') c)\<lparr>ac_next_lease_id := lease_id\<rparr>))"

definition cache_fail :: "cache_key \<Rightarrow> admission_entry \<Rightarrow> admission_cache \<Rightarrow> admission_cache" where
  "cache_fail key e c = set_entry key (let_go e) c"

definition invalidate_key :: "cache_key \<Rightarrow> cached_admission \<Rightarrow> cache_key" where
  "invalidate_key key adm = key\<lparr>ck_credential_issued_at := ca_credential_issued_at adm\<rparr>"

text \<open>
  \<open>invalidate\<close> looks the entry up and holds it, then clears it behind the gate if it still has
  the lease of the admission.
\<close>

definition invalidate_hold :: "cache_key \<Rightarrow> admission_cache \<Rightarrow> admission_cache" where
  "invalidate_hold key c =
     (case map_of (ac_entries c) key of None \<Rightarrow> c
      | Some e \<Rightarrow> set_entry key (e\<lparr>e_holders := Suc (e_holders e)\<rparr>) c)"

definition invalidate_clear ::
  "cache_key \<Rightarrow> admission_entry \<Rightarrow> cached_admission \<Rightarrow> admission_cache \<Rightarrow> admission_cache" where
  "invalidate_clear key e adm c =
     set_entry key (let_go (case e_cached e of
         Some l \<Rightarrow> if l_lease_id l = ca_lease_id adm then e\<lparr>e_cached := None\<rparr> else e
       | None \<Rightarrow> e)) c"

section \<open>Interleaved calls\<close>

text \<open>
  The steps of any number of concurrent calls, with the events that matter outside, newest
  first. A step behind the gate is taken by a call that holds the entry; a call that is dropped
  while it waits lets its entry go, one that is dropped while the relay is asked has failed.
\<close>

datatype cache_event =
    Asked cache_key
  | Granted cache_key cached_admission reading
  | Failed cache_key
  | Invalidated cache_key cached_admission

inductive cache_step ::
  "cache_event list \<times> admission_cache \<Rightarrow> cache_event list \<times> admission_cache \<Rightarrow> bool" where
  enter: "cache_step (tr, c) (tr, cache_enter k r c)"
| hit: "map_of (ac_entries c) k = Some e \<Longrightarrow> e_holders e > 0 \<Longrightarrow> \<not> e_gate e \<Longrightarrow>
    cache_check k e r c = (Some adm, c') \<Longrightarrow> cache_step (tr, c) (tr, c')"
| ask: "map_of (ac_entries c) k = Some e \<Longrightarrow> e_holders e > 0 \<Longrightarrow> \<not> e_gate e \<Longrightarrow>
    cache_check k e r c = (None, c') \<Longrightarrow> cache_step (tr, c) (Asked k # tr, c')"
| grant: "map_of (ac_entries c) k = Some e \<Longrightarrow> e_gate e \<Longrightarrow>
    cache_grant k e t r c = (adm, c') \<Longrightarrow> cache_step (tr, c) (Granted k adm r # tr, c')"
| fail: "map_of (ac_entries c) k = Some e \<Longrightarrow> e_gate e \<Longrightarrow>
    cache_step (tr, c) (Failed k # tr, cache_fail k e c)"
| abandon: "map_of (ac_entries c) k = Some e \<Longrightarrow> e_holders e > of_bool (e_gate e) \<Longrightarrow>
    cache_step (tr, c) (tr, set_entry k (e\<lparr>e_holders := e_holders e - 1\<rparr>) c)"
| hold: "cache_step (tr, c) (tr, invalidate_hold k c)"
| clear: "map_of (ac_entries c) k = Some e \<Longrightarrow> e_holders e > 0 \<Longrightarrow> \<not> e_gate e \<Longrightarrow>
    cache_step (tr, c) (Invalidated k adm # tr, invalidate_clear k e adm c)"

text \<open>Requests to the relay that have not been answered yet.\<close>

fun outstanding :: "cache_key \<Rightarrow> cache_event list \<Rightarrow> int" where
  "outstanding k [] = 0"
| "outstanding k (Asked k' # tr) = outstanding k tr + of_bool (k' = k)"
| "outstanding k (Granted k' adm r # tr) = outstanding k tr - of_bool (k' = k)"
| "outstanding k (Failed k' # tr) = outstanding k tr - of_bool (k' = k)"
| "outstanding k (Invalidated k' adm # tr) = outstanding k tr"

text \<open>The grant a cached lease comes from, not invalidated since.\<close>

definition lease_of :: "cache_key \<Rightarrow> admission_lease \<Rightarrow> cache_event list \<Rightarrow> bool" where
  "lease_of k l tr \<longleftrightarrow>
     (\<exists>new old r. tr = new @ Granted k \<lparr>ca_expires_at = l_expires_at l, ca_lease_id = l_lease_id l,
         ca_credential_issued_at = ck_credential_issued_at k\<rparr> r # old \<and>
       (\<forall>adm. Invalidated k adm \<in> set new \<longrightarrow> ca_lease_id adm \<noteq> l_lease_id l) \<and>
       l_reuse_until l = mono_now r + (l_expires_at l - wall_now r - REUSE_SAFETY_MARGIN) \<and>
       wall_now r + REUSE_SAFETY_MARGIN \<le> l_expires_at l)"

text \<open>What holds of the entry of a key, absent or present, given the history.\<close>

definition entry_inv :: "cache_event list \<Rightarrow> cache_key \<Rightarrow> admission_entry option \<Rightarrow> bool" where
  "entry_inv tr k x \<longleftrightarrow>
     (case x of None \<Rightarrow> outstanding k tr = 0
      | Some e \<Rightarrow> outstanding k tr = of_bool (e_gate e) \<and> (e_gate e \<longrightarrow> e_holders e > 0) \<and>
          (\<forall>l. e_cached e = Some l \<longrightarrow> lease_of k l tr))"

definition cache_inv :: "cache_event list \<times> admission_cache \<Rightarrow> bool" where
  "cache_inv tc \<longleftrightarrow> hm_ok (ac_entries (snd tc)) \<and>
     (\<forall>k. entry_inv (fst tc) k (map_of (ac_entries (snd tc)) k))"

definition event_key :: "cache_event \<Rightarrow> cache_key" where
  "event_key ev = (case ev of Asked k \<Rightarrow> k | Granted k _ _ \<Rightarrow> k | Failed k \<Rightarrow> k | Invalidated k _ \<Rightarrow> k)"

lemma lease_of_Cons:
  assumes "lease_of k l tr" "\<And>adm. ev = Invalidated k adm \<Longrightarrow> ca_lease_id adm \<noteq> l_lease_id l"
  shows "lease_of k l (ev # tr)"
proof -
  obtain new old r where "tr = new @ Granted k \<lparr>ca_expires_at = l_expires_at l,
      ca_lease_id = l_lease_id l, ca_credential_issued_at = ck_credential_issued_at k\<rparr> r # old"
    and rest: "\<forall>adm. Invalidated k adm \<in> set new \<longrightarrow> ca_lease_id adm \<noteq> l_lease_id l"
      "l_reuse_until l = mono_now r + (l_expires_at l - wall_now r - REUSE_SAFETY_MARGIN)"
      "wall_now r + REUSE_SAFETY_MARGIN \<le> l_expires_at l"
    using assms(1) by (auto simp: lease_of_def)
  then have "ev # tr = (ev # new) @ Granted k \<lparr>ca_expires_at = l_expires_at l,
      ca_lease_id = l_lease_id l, ca_credential_issued_at = ck_credential_issued_at k\<rparr> r # old" by simp
  moreover have "\<forall>adm. Invalidated k adm \<in> set (ev # new) \<longrightarrow> ca_lease_id adm \<noteq> l_lease_id l"
    using rest(1) assms(2) by auto
  ultimately show ?thesis unfolding lease_of_def using rest(2,3) by blast
qed

text \<open>An event of another key changes nothing for this one.\<close>

lemma entry_inv_other: "event_key ev \<noteq> k \<Longrightarrow> entry_inv tr k x \<Longrightarrow> entry_inv (ev # tr) k x"
  by (cases ev) (auto simp: entry_inv_def event_key_def intro: lease_of_Cons split: option.splits)

lemma cache_inv_set:
  assumes "cache_inv (tr, c)" and "ac_entries c' = hm_insert k e (ac_entries c)"
    and "entry_inv tr' k (Some e)" and "tr' = tr \<or> (\<exists>ev. tr' = ev # tr \<and> event_key ev = k)"
  shows "cache_inv (tr', c')"
proof -
  have "entry_inv tr' k' (map_of (ac_entries c') k')" for k'
  proof (cases "k' = k")
    case False
    moreover have "entry_inv tr k' (map_of (ac_entries c) k')" using assms(1) by (simp add: cache_inv_def)
    ultimately show ?thesis
      using assms(2,4) by (auto simp: hm.get_ins intro: entry_inv_other)
  qed (use assms(2,3) in \<open>simp add: hm.get_ins\<close>)
  then show ?thesis
    using assms(1,2) by (simp add: cache_inv_def hm.ok_ins)
qed


lemma map_of_filter_values:
  "hm_ok m \<Longrightarrow> map_of (filter (\<lambda>(_, v). P v) m) k =
     (case map_of m k of None \<Rightarrow> None | Some v \<Rightarrow> if P v then Some v else None)"
proof (induction m)
  case (Cons kv m)
  obtain k' v where kv: "kv = (k', v)" by (cases kv)
  have "map_of (filter (\<lambda>(_, v). P v) m) k' = None" if "map_of m k' = None"
    using that by (force simp: map_of_eq_None_iff)
  then show ?case
    using Cons by (auto simp: kv hm_ok_def map_of_eq_None_iff split: option.splits)
qed simp

lemma hm_ok_filter: "hm_ok m \<Longrightarrow> hm_ok (filter P m)"
  by (auto simp: hm_ok_def distinct_map_filter)

lemma cache_inv_enter:
  assumes "cache_inv (tr, c)"
  shows "cache_inv (tr, cache_enter k r c)"
proof -
  define kept where "kept = filter (\<lambda>(_, e). retained r e) (ac_entries c)"
  have ok: "hm_ok (ac_entries c)" and inv: "entry_inv tr k' (map_of (ac_entries c) k')" for k'
    using assms by (simp_all add: cache_inv_def)
  have kept_inv: "entry_inv tr k' (map_of kept k')" for k'
    using inv [of k']
    by (auto simp: kept_def map_of_filter_values [OF ok] entry_inv_def retained_def split: option.splits if_splits)
  then have "cache_inv (tr, c\<lparr>ac_entries := kept\<rparr>)"
    using ok by (simp add: cache_inv_def kept_def hm_ok_filter)
  then show ?thesis
  proof (rule cache_inv_set)
    define e where "e = (case map_of kept k of None \<Rightarrow> entry_default | Some e \<Rightarrow> e)"
    show "ac_entries (cache_enter k r c) =
        hm_insert k (e\<lparr>e_holders := Suc (e_holders e)\<rparr>) (ac_entries (c\<lparr>ac_entries := kept\<rparr>))"
      by (simp add: cache_enter_def Let_def kept_def e_def)
    show "entry_inv tr k (Some (e\<lparr>e_holders := Suc (e_holders e)\<rparr>))"
      using kept_inv [of k] by (auto simp: e_def entry_inv_def entry_default_def split: option.splits)
  qed simp
qed

lemma cache_check_Some:
  assumes "cache_check k e r c = (Some adm, c')"
  obtains l where "e_cached e = Some l" "reusable l (wall_now r) (mono_now r)"
    "adm = \<lparr>ca_expires_at = l_expires_at l, ca_lease_id = l_lease_id l,
      ca_credential_issued_at = ck_credential_issued_at k\<rparr>" "c' = set_entry k (let_go e) c"
  using assms by (auto simp: cache_check_def split: option.splits if_splits)

lemma cache_check_None:
  "cache_check k e r c = (None, c') \<Longrightarrow> c' = set_entry k (e\<lparr>e_gate := True, e_cached := None\<rparr>) c"
  by (auto simp: cache_check_def split: option.splits if_splits)

lemma next_lease_id_pos: "next_lease_id n \<noteq> 0"
  by (auto simp: next_lease_id_def max_def)

lemma cache_grant_entry:
  assumes "cache_grant k e t r c = (adm, c')"
  shows "adm = \<lparr>ca_expires_at = t, ca_lease_id = next_lease_id (ac_next_lease_id c),
      ca_credential_issued_at = ck_credential_issued_at k\<rparr>"
    "\<exists>x. ac_entries c' = hm_insert k (let_go (e\<lparr>e_cached := x\<rparr>)) (ac_entries c) \<and>
      (x = e_cached e \<or> (\<exists>u. reuse_deadline t (wall_now r) (mono_now r) = Some u \<and>
        x = Some \<lparr>l_expires_at = t, l_reuse_until = u, l_lease_id = ca_lease_id adm\<rparr>))"
proof -
  show adm: "adm = \<lparr>ca_expires_at = t, ca_lease_id = next_lease_id (ac_next_lease_id c),
      ca_credential_issued_at = ck_credential_issued_at k\<rparr>"
    using assms by (simp add: cache_grant_def Let_def)
  have same: "e\<lparr>e_cached := e_cached e\<rparr> = e" by simp
  show "\<exists>x. ac_entries c' = hm_insert k (let_go (e\<lparr>e_cached := x\<rparr>)) (ac_entries c) \<and>
      (x = e_cached e \<or> (\<exists>u. reuse_deadline t (wall_now r) (mono_now r) = Some u \<and>
        x = Some \<lparr>l_expires_at = t, l_reuse_until = u, l_lease_id = ca_lease_id adm\<rparr>))"
  proof (cases "reuse_deadline t (wall_now r) (mono_now r)")
    case None
    then show ?thesis
      using assms by (intro exI [of _ "e_cached e"]) (auto simp: cache_grant_def Let_def set_entry_def)
  next
    case (Some u)
    then show ?thesis
      using assms by (intro exI [of _ "Some \<lparr>l_expires_at = t, l_reuse_until = u, l_lease_id = ca_lease_id adm\<rparr>"])
        (auto simp: cache_grant_def Let_def set_entry_def adm)
  qed
qed

lemma lease_of_grant:
  assumes "reuse_deadline t (wall_now r) (mono_now r) = Some u"
    and "adm = \<lparr>ca_expires_at = t, ca_lease_id = i, ca_credential_issued_at = ck_credential_issued_at k\<rparr>"
  shows "lease_of k \<lparr>l_expires_at = t, l_reuse_until = u, l_lease_id = i\<rparr> (Granted k adm r # tr)"
proof -
  have "u = mono_now r + (t - wall_now r - REUSE_SAFETY_MARGIN)" "wall_now r + REUSE_SAFETY_MARGIN \<le> t"
    using assms(1) by (auto simp: reuse_deadline_def Let_def split: if_splits)
  then show ?thesis
    unfolding lease_of_def by (intro exI [of _ "[]"] exI [of _ tr] exI [of _ r]) (simp add: assms(2))
qed

lemma cache_inv_step:
  assumes inv: "cache_inv tc" and step: "cache_step tc tc'"
  shows "cache_inv tc'"
  using step
proof cases
  case (enter tr c k r)
  with inv show ?thesis by (simp add: cache_inv_enter)
next
  case (hit c k e r adm c' tr)
  then have "entry_inv tr k (Some e)" using inv by (metis cache_inv_def fst_conv snd_conv)
  then show ?thesis
    using inv hit by (auto elim!: cache_check_Some simp: set_entry_def let_go_def entry_inv_def
        intro!: cache_inv_set [of tr c])
next
  case (ask c k e r c' tr)
  then have "entry_inv tr k (Some e)" using inv by (metis cache_inv_def fst_conv snd_conv)
  then show ?thesis
    using inv ask by (auto dest!: cache_check_None simp: set_entry_def entry_inv_def event_key_def
        intro!: cache_inv_set [of tr c])
next
  case (grant c k e t r adm c' tr)
  then have e: "entry_inv tr k (Some e)" using inv by (metis cache_inv_def fst_conv snd_conv)
  obtain x where x: "ac_entries c' = hm_insert k (let_go (e\<lparr>e_cached := x\<rparr>)) (ac_entries c)"
    "x = e_cached e \<or> (\<exists>u. reuse_deadline t (wall_now r) (mono_now r) = Some u \<and>
        x = Some \<lparr>l_expires_at = t, l_reuse_until = u, l_lease_id = ca_lease_id adm\<rparr>)"
    using cache_grant_entry(2) [OF grant(5)] by blast
  have "lease_of k l (Granted k adm r # tr)" if "x = Some l" for l
    using x(2) that e cache_grant_entry(1) [OF grant(5)]
    by (auto simp: entry_inv_def intro: lease_of_Cons lease_of_grant)
  then have "entry_inv (Granted k adm r # tr) k (Some (let_go (e\<lparr>e_cached := x\<rparr>)))"
    using e grant(4) by (auto simp: entry_inv_def let_go_def)
  with inv grant x(1) show ?thesis
    by (auto simp: event_key_def intro!: cache_inv_set [of tr c])
next
  case (fail c k e tr)
  then have e: "entry_inv tr k (Some e)" using inv by (metis cache_inv_def fst_conv snd_conv)
  have "entry_inv (Failed k # tr) k (Some (let_go e))"
    using e fail(4) by (auto simp: entry_inv_def let_go_def intro: lease_of_Cons)
  with inv fail show ?thesis
    by (auto simp: event_key_def cache_fail_def set_entry_def intro!: cache_inv_set [of tr c])
next
  case (abandon c k e tr)
  then have "entry_inv tr k (Some e)" using inv by (metis cache_inv_def fst_conv snd_conv)
  then have "entry_inv tr k (Some (e\<lparr>e_holders := e_holders e - 1\<rparr>))"
    using abandon(4) by (auto simp: entry_inv_def)
  with inv abandon show ?thesis
    by (auto simp: set_entry_def intro!: cache_inv_set [of tr c])
next
  case (hold tr c k)
  have e: "entry_inv tr k (map_of (ac_entries c) k)" using inv hold(1) by (simp add: cache_inv_def)
  show ?thesis
  proof (cases "map_of (ac_entries c) k")
    case (Some x)
    then have "entry_inv tr k (Some (x\<lparr>e_holders := Suc (e_holders x)\<rparr>))"
      using e by (auto simp: entry_inv_def)
    with Some inv hold show ?thesis
      by (auto simp: invalidate_hold_def set_entry_def intro!: cache_inv_set [of tr c])
  qed (use inv hold in \<open>simp add: invalidate_hold_def\<close>)
next
  case (clear c k e tr adm)
  then have e: "entry_inv tr k (Some e)" using inv by (metis cache_inv_def fst_conv snd_conv)
  define e' where "e' = (case e_cached e of Some l \<Rightarrow> if l_lease_id l = ca_lease_id adm
      then e\<lparr>e_cached := None\<rparr> else e | None \<Rightarrow> e)"
  have e': "e_gate e' = e_gate e" "\<And>l. e_cached e' = Some l \<Longrightarrow> e_cached e = Some l \<and> ca_lease_id adm \<noteq> l_lease_id l"
    by (auto simp: e'_def split: option.splits if_splits)
  then have "entry_inv (Invalidated k adm # tr) k (Some (let_go e'))"
    using e clear(5) by (auto simp: entry_inv_def let_go_def intro: lease_of_Cons)
  with inv clear show ?thesis
    by (auto simp: event_key_def invalidate_clear_def set_entry_def e'_def [symmetric]
        intro!: cache_inv_set [of tr c])
qed

interpretation cache_sys: invariant_system cache_step cache_inv
  by unfold_locales (rule cache_inv_step)

section \<open>Properties\<close>

lemma write_frame_Inr:
  "write_frame payload maximum s = (Inr u, s') \<longleftrightarrow>
     payload \<noteq> [] \<and> length payload \<le> maximum \<and> length payload < 2 ^ 32 \<and>
     s' = s\<lparr>outgoing := outgoing s @ to_be_bytes (word_of_nat (length payload)) @ payload\<rparr>"
  by (auto simp: write_frame_def write_all_def)

lemma read_frame_Inr:
  "read_frame maximum s = (Inr payload, s') \<longleftrightarrow>
     payload \<noteq> [] \<and> length payload \<le> maximum \<and> length payload < 2 ^ 32 \<and>
     incoming s = to_be_bytes (word_of_nat (length payload)) @ payload @ incoming s' \<and>
     outgoing s' = outgoing s"
  (is "?l \<longleftrightarrow> ?r")
proof
  assume r: ?l
  then obtain h s1 where h: "read_exact 4 s = (Inr h, s1)"
    by (auto simp: read_frame_def split: prod.splits sum.splits)
  define n where "n = unat (from_be_bytes h)"
  from r h have len: "n \<noteq> 0" "n \<le> maximum" and t: "read_exact n s1 = (Inr payload, s')"
    by (auto simp: read_frame_def Let_def n_def split: if_splits)
  have "n < 2 ^ 32" unfolding n_def using unsigned_less [of "from_be_bytes h", where ?'a = nat] by simp
  moreover have "to_be_bytes (word_of_nat n) = h"
    using h to_from_be_bytes [of h] by (simp add: read_exact_Inr n_def)
  ultimately show ?r using h t len by (auto simp: read_exact_Inr)
next
  assume a: ?r
  define s1 where "s1 = s\<lparr>incoming := payload @ incoming s'\<rparr>"
  have "read_exact 4 s = (Inr (to_be_bytes (word_of_nat (length payload))), s1)"
    using a by (simp add: read_exact_Inr s1_def)
  moreover have "read_exact (length payload) s1 = (Inr payload, s')"
    using a by (simp add: read_exact_Inr s1_def)
  moreover have "unat (word_of_nat (length payload) :: u32) = length payload"
    using a by (simp add: unsigned_of_nat take_bit_nat_eq_self)
  ultimately show ?l using a by (simp add: read_frame_def)
qed

text \<open>
  C30: The frame codec of the relay exchange is exact in both directions. For every bound,
  \<open>read_frame\<close> returns a payload precisely when the stream starts with the bytes \<open>write_frame\<close>
  emits for that payload under the same bound, and it leaves the stream right behind them: no
  other byte sequence decodes, no payload decodes from two different prefixes, and empty or
  oversized payloads exist on neither side.
\<close>

theorem admission_frame_roundtrip:
  "read_frame maximum \<lparr>incoming = bytes, outgoing = out\<rparr> =
     (Inr payload, \<lparr>incoming = rest, outgoing = out\<rparr>) \<longleftrightarrow>
   (\<exists>frame. write_frame payload maximum \<lparr>incoming = i, outgoing = sent\<rparr> =
      (Inr (), \<lparr>incoming = i, outgoing = sent @ frame\<rparr>) \<and> bytes = frame @ rest)"
  by (auto simp: read_frame_Inr write_frame_Inr)

text \<open>
  What the visitor accepts: a key at most once, so at most two entries, and a deadline exactly
  when the answer is true.
\<close>

lemma visit_map_full:
  "visit_map (Some a) (Some u) entries = Some resp \<longleftrightarrow>
     entries = [] \<and> a \<and> resp = \<lparr>accepted = True, accepted_until = Some u\<rparr>"
  by (cases entries; cases a) (auto split: if_splits)

lemma visit_map_accepted: "visit_map (Some a) None entries = Some resp \<Longrightarrow>
    entries = [] \<and> accepted_until resp = None \<or>
    (\<exists>u. entries = [(''accepted_until'', JString u)] \<and> a \<and> accepted_until resp = Some u)"
  by (cases entries; cases a) (auto simp: visit_map_full split: if_splits json_value.splits)

lemma visit_map_until: "visit_map None (Some u) entries = Some resp \<Longrightarrow>
    entries = [(''accepted'', JBool True)] \<and> accepted_until resp = Some u"
  by (cases entries) (auto simp: visit_map_full split: if_splits json_value.splits)

lemma deserialize_accepting:
  assumes "deserialize_response v = Some resp" "accepted_until resp = Some raw"
  shows "v = JObject [(''accepted'', JBool True), (''accepted_until'', JString raw)] \<or>
    v = JObject [(''accepted_until'', JString raw), (''accepted'', JBool True)]"
proof -
  obtain entries where v: "v = JObject entries" and m: "visit_map None None entries = Some resp"
    using assms(1) by (cases v) (auto simp: deserialize_response_def)
  then obtain kx vx rest where entries: "entries = (kx, vx) # rest" by (cases entries) auto
  with m consider a where "kx = ''accepted''" "vx = JBool a" "visit_map (Some a) None rest = Some resp"
    | u where "kx = ''accepted_until''" "vx = JString u" "visit_map None (Some u) rest = Some resp"
    by (auto split: if_splits json_value.splits)
  then show ?thesis
  proof cases
    case 1
    then show ?thesis
      using visit_map_accepted [OF 1(3)] assms(2) 1 by (auto simp: v entries)
  next
    case 2
    then show ?thesis
      using visit_map_until [OF 2(3)] assms(2) by (simp add: v entries)
  qed
qed

lemma require_eof_Inr: "require_eof s = (Inr u, s') \<longleftrightarrow> incoming s = [] \<and> s' = s"
  by (auto simp: require_eof_def split: list.splits)

lemma read_response_Inr:
  "read_response s = (Inr bytes, s') \<longleftrightarrow> read_frame RESPONSE_MAX_BYTES s = (Inr bytes, s') \<and> incoming s' = []"
  by (auto simp: read_response_def require_eof_Inr split: prod.splits sum.splits) (auto simp: require_eof_def split: list.splits)

lemma check_response_Inr:
  "check_response A response now = Inr until \<longleftrightarrow>
     accepted response \<and> (\<exists>raw. accepted_until response = Some raw \<and> parse_from_rfc3339 A raw = Some (until, 0)) \<and>
     now < until \<and> until \<le> now + MAX_ACCEPTED_TTL"
  by (auto simp: check_response_def and_then_eq_Inr guard_ok)

lemma authorize_Inr:
  assumes "authorize A P rq now s = (Inr until, s')"
  obtains payload bytes response where
    "json_to_vec A (serialize_request (ae_token A) rq) = Some payload"
    "payload \<noteq> []" "length payload \<le> REQUEST_MAX_BYTES"
    "outgoing s' = outgoing s @ to_be_bytes (word_of_nat (length payload)) @ payload"
    "incoming s = to_be_bytes (word_of_nat (length bytes)) @ bytes" "incoming s' = []"
    "length bytes \<le> RESPONSE_MAX_BYTES" "decode_response A bytes = Inr response"
    "check_response A response now = Inr until"
proof -
  obtain payload where p: "json_to_vec A (serialize_request (ae_token A) rq) = Some payload"
    using assms by (auto simp: authorize_def split: option.splits)
  obtain u s1 bytes where
    w: "bounded_phase RelayAdmissionTimeout (P 0) (write_frame payload REQUEST_MAX_BYTES) s = (Inr u, s1)"
    and r: "bounded_phase RelayAdmissionTimeout (P 1) read_response s1 = (Inr bytes, s')"
    and d: "and_then (decode_response A bytes) (\<lambda>response. check_response A response now) = Inr until"
    using assms p by (auto simp: authorize_def split: prod.splits sum.splits)
  obtain response where "decode_response A bytes = Inr response" "check_response A response now = Inr until"
    using d by (auto simp: and_then_eq_Inr)
  moreover have "payload \<noteq> []" "length payload \<le> REQUEST_MAX_BYTES"
    "s1 = s\<lparr>outgoing := outgoing s @ to_be_bytes (word_of_nat (length payload)) @ payload\<rparr>"
    using w by (simp_all add: bounded_phase_Inr write_frame_Inr)
  moreover have "length bytes \<le> RESPONSE_MAX_BYTES" "incoming s' = []" "outgoing s' = outgoing s1"
    "incoming s1 = to_be_bytes (word_of_nat (length bytes)) @ bytes"
    using r by (simp_all add: bounded_phase_Inr read_response_Inr read_frame_Inr)
  ultimately show thesis using p by (intro that [of payload bytes response]) simp_all
qed

text \<open>
  C17: The deadline a relay can make this peer believe. Whatever bytes the relay sends, if
  \<open>authorize_prepared\<close> succeeds then the whole response was one frame of at most 4096 bytes with
  nothing behind it, holding exactly one JSON object that says accepted and names a deadline in
  UTC; and that deadline lies strictly in the future, at most 30 seconds ahead, and not after
  the expiration of the token that was presented. What was sent is the one request frame.
\<close>

theorem admission_deadline_bounded:
  assumes "authorize_prepared A P pa now \<lparr>incoming = bytes, outgoing = []\<rparr> = (Inr until, s')"
  shows "now < until \<and> until \<le> now + 30 * nanos_per_sec \<and> until \<le> pa_token_expiration pa \<and>
    (\<exists>body v raw. bytes = to_be_bytes (word_of_nat (length body)) @ body \<and> length body \<le> 4096 \<and>
       json_first_value A body = (Some (Some v), length body) \<and>
       v \<in> {JObject [(''accepted'', JBool True), (''accepted_until'', JString raw)],
         JObject [(''accepted_until'', JString raw), (''accepted'', JBool True)]} \<and>
       parse_from_rfc3339 A raw = Some (until, 0)) \<and>
    (\<exists>payload. json_to_vec A (serialize_request (ae_token A) \<lparr>rq_domain_id = pa_domain_id pa,
         rq_target_peer_id = pa_target_peer_id pa, rq_p2p_access_token = compact (pa_token pa)\<rparr>) = Some payload \<and>
       outgoing s' = to_be_bytes (word_of_nat (length payload)) @ payload)"
proof -
  have exp: "until \<le> pa_token_expiration pa"
    and auth: "authorize A P \<lparr>rq_domain_id = pa_domain_id pa, rq_target_peer_id = pa_target_peer_id pa,
      rq_p2p_access_token = compact (pa_token pa)\<rparr> now \<lparr>incoming = bytes, outgoing = []\<rparr> = (Inr until, s')"
    using assms by (auto simp: authorize_prepared_def split: prod.splits sum.splits if_splits)
  from auth show ?thesis
  proof (cases rule: authorize_Inr)
    case (1 payload body response)
    obtain raw where chk: "accepted response" "accepted_until response = Some raw"
      "parse_from_rfc3339 A raw = Some (until, 0)" "now < until" "until \<le> now + MAX_ACCEPTED_TTL"
      using 1(9) by (auto simp: check_response_Inr)
    obtain v where v: "json_first_value A body = (Some (Some v), length body)"
      "deserialize_response v = Some response"
      using 1(8) by (auto simp: decode_response_def guard_ok and_then_eq_Inr bind_eq_Some_conv
          split: prod.splits)
    from deserialize_accepting [OF v(2) chk(2)] v(1) chk(3-5) exp 1 show ?thesis
      by (simp add: admission_consts) blast
  qed
qed

text \<open>
  C16: The admission cache under any interleaving of calls. For every key at most one request
  to the relay is outstanding at any time. When a call behind the gate of its entry is answered
  from the cache, then the relay granted exactly this admission for exactly this key, no
  invalidation of its lease has taken effect since, it expires more than a second after the
  wall clock of the hit, and by the monotonic clock less time has passed than remained, minus a
  second, when it was stored: setting the wall clock back cannot extend it.
\<close>

theorem admission_cache_safe:
  assumes "cache_step\<^sup>*\<^sup>* ([], cache_default) (tr, c)"
  shows "outstanding k tr \<le> 1 \<and>
    (\<forall>e r adm c'. map_of (ac_entries c) k = Some e \<longrightarrow> cache_check k e r c = (Some adm, c') \<longrightarrow>
       (\<exists>new old r0. tr = new @ Granted k adm r0 # old \<and>
          (\<forall>a. Invalidated k a \<in> set new \<longrightarrow> ca_lease_id a \<noteq> ca_lease_id adm) \<and>
          wall_now r + nanos_per_sec < ca_expires_at adm \<and>
          mono_now r - mono_now r0 < ca_expires_at adm - wall_now r0 - nanos_per_sec))"
proof -
  have "cache_inv ([], cache_default)"
    by (simp add: cache_inv_def cache_default_def hm_ok_def entry_inv_def)
  then have "cache_inv (tr, c)" by (rule cache_sys.run_inv [OF assms])
  then have inv: "entry_inv tr k (map_of (ac_entries c) k)" by (simp add: cache_inv_def)
  have "outstanding k tr \<le> 1"
    using inv by (auto simp: entry_inv_def split: option.splits)
  moreover have "\<exists>new old r0. tr = new @ Granted k adm r0 # old \<and>
      (\<forall>a. Invalidated k a \<in> set new \<longrightarrow> ca_lease_id a \<noteq> ca_lease_id adm) \<and>
      wall_now r + nanos_per_sec < ca_expires_at adm \<and>
      mono_now r - mono_now r0 < ca_expires_at adm - wall_now r0 - nanos_per_sec"
    if e: "map_of (ac_entries c) k = Some e" and hit: "cache_check k e r c = (Some adm, c')" for e r adm c'
    using hit
  proof (cases rule: cache_check_Some)
    case (1 l)
    with inv e have "lease_of k l tr" by (simp add: entry_inv_def)
    then obtain new old r0 where "tr = new @ Granted k adm r0 # old"
      "\<forall>a. Invalidated k a \<in> set new \<longrightarrow> ca_lease_id a \<noteq> ca_lease_id adm"
      "l_reuse_until l = mono_now r0 + (l_expires_at l - wall_now r0 - REUSE_SAFETY_MARGIN)"
      unfolding lease_of_def 1(3) by auto
    with 1(2,3) show ?thesis
      by (intro exI [of _ new] exI [of _ old] exI [of _ r0]) (auto simp: reusable_def REUSE_SAFETY_MARGIN_def)
  qed
  ultimately show ?thesis by blast
qed

section \<open>Witnesses\<close>

definition sample_admission :: admission_env where
  "sample_admission = \<lparr>ae_token = sample_env, json_to_vec = (\<lambda>_. Some ''request''),
     json_first_value = (\<lambda>s. (Some (Some (JObject [(''accepted'', JBool True),
       (''accepted_until'', JString ''T'')])), length s)),
     parse_from_rfc3339 = (\<lambda>_. Some (10 * nanos_per_sec, 0))\<rparr>"

definition sample_prepared :: prepared_authorization where
  "sample_prepared = \<lparr>pa_domain_id = 7, pa_target_peer_id = sample_relay, pa_token = \<lparr>compact = ''AR''\<rparr>,
     pa_token_expiration = 1802 * nanos_per_sec, pa_issued_at = 2\<rparr>"

lemma sample_authorize:
  "authorize_prepared sample_admission (\<lambda>_. Completes) sample_prepared 0
     \<lparr>incoming = to_be_bytes 3 @ ''yes'', outgoing = []\<rparr> =
   (Inr (10 * nanos_per_sec), \<lparr>incoming = [], outgoing = to_be_bytes 7 @ ''request''\<rparr>)"
proof -
  have w: "write_frame ''request'' REQUEST_MAX_BYTES \<lparr>incoming = to_be_bytes 3 @ ''yes'', outgoing = []\<rparr> =
      (Inr (), \<lparr>incoming = to_be_bytes 3 @ ''yes'', outgoing = to_be_bytes 7 @ ''request''\<rparr>)"
    by (simp add: write_frame_Inr admission_consts)
  have r: "read_response \<lparr>incoming = to_be_bytes 3 @ ''yes'', outgoing = to_be_bytes 7 @ ''request''\<rparr> =
      (Inr ''yes'', \<lparr>incoming = [], outgoing = to_be_bytes 7 @ ''request''\<rparr>)"
    by (simp add: read_response_Inr read_frame_Inr admission_consts)
  have d: "decode_response sample_admission ''yes'' = Inr \<lparr>accepted = True, accepted_until = Some ''T''\<rparr>"
    by (simp add: decode_response_def sample_admission_def sample_env_def deserialize_response_def)
  have "check_response sample_admission \<lparr>accepted = True, accepted_until = Some ''T''\<rparr> 0 =
      Inr (10 * nanos_per_sec)"
    by (simp add: check_response_Inr sample_admission_def admission_consts)
  with d have "and_then (decode_response sample_admission ''yes'')
      (\<lambda>response. check_response sample_admission response 0) = Inr (10 * nanos_per_sec)"
    by simp
  moreover have "json_to_vec sample_admission v = Some ''request''" for v
    by (simp add: sample_admission_def)
  ultimately show ?thesis
    by (simp only: authorize_prepared_def authorize_def bounded_phase_def phase_end.case option.case
        prod.case sum.case w r) (simp add: sample_prepared_def nanos_per_sec_def)
qed

theorem admission_deadline_bounded_witness:
  "0 < 10 * nanos_per_sec \<and> 10 * nanos_per_sec \<le> 0 + 30 * nanos_per_sec"
  using admission_deadline_bounded [OF sample_authorize] by blast

definition sample_cache_key :: cache_key where
  "sample_cache_key = \<lparr>ck_relay_peer_id = sample_relay, ck_relay_connection = 1,
     ck_target_peer_id = PeerId ''Q'', ck_domain_id = 7, ck_credential_issued_at = 2\<rparr>"

definition sample_lease :: admission_lease where
  "sample_lease = \<lparr>l_expires_at = 10000000000, l_reuse_until = 9000000000, l_lease_id = 1\<rparr>"

definition sample_granted :: cached_admission where
  "sample_granted = \<lparr>ca_expires_at = 10000000000, ca_lease_id = 1, ca_credential_issued_at = 2\<rparr>"

definition sample_cache :: "bool \<Rightarrow> admission_lease option \<Rightarrow> nat \<Rightarrow> u64 \<Rightarrow> admission_cache" where
  "sample_cache gate l n i = \<lparr>ac_entries = [(sample_cache_key, \<lparr>e_gate = gate, e_cached = l, e_holders = n\<rparr>)],
     ac_next_lease_id = i\<rparr>"

abbreviation sample_reading :: reading where
  "sample_reading \<equiv> \<lparr>wall_now = 0, mono_now = 0\<rparr>"

lemmas cache_eval = cache_enter_def cache_check_def cache_grant_def set_entry_def let_go_def
  hm_insert_def retained_def entry_default_def cache_default_def sample_cache_def next_lease_id_def
  reuse_deadline_def reusable_def admission_consts sample_lease_def sample_granted_def Let_def

lemma sample_cache_run:
  "cache_step\<^sup>*\<^sup>* ([], cache_default)
     ([Granted sample_cache_key sample_granted sample_reading, Asked sample_cache_key],
      sample_cache False (Some sample_lease) 1 1)"
proof -
  let ?k = sample_cache_key and ?r = sample_reading
  have k: "ck_credential_issued_at ?k = 2" by (simp add: sample_cache_key_def)
  have e1: "cache_enter ?k ?r cache_default = sample_cache False None 1 0"
    by (simp add: cache_eval)
  have e2: "cache_check ?k \<lparr>e_gate = False, e_cached = None, e_holders = 1\<rparr> ?r (sample_cache False None 1 0) =
      (None, sample_cache True None 1 0)"
    by (simp add: cache_eval)
  have e3: "cache_grant ?k \<lparr>e_gate = True, e_cached = None, e_holders = 1\<rparr> 10000000000 ?r (sample_cache True None 1 0) =
      (sample_granted, sample_cache False (Some sample_lease) 0 1)"
    by (simp add: cache_eval k)
  have e4: "cache_enter ?k ?r (sample_cache False (Some sample_lease) 0 1) =
      sample_cache False (Some sample_lease) 1 1"
    by (simp add: cache_eval)
  have "cache_step ([], cache_default) ([], sample_cache False None 1 0)"
    using cache_step.enter [of "[]" cache_default ?k ?r] by (simp add: e1)
  moreover have "cache_step ([], sample_cache False None 1 0) ([Asked ?k], sample_cache True None 1 0)"
    by (rule cache_step.ask [OF _ _ _ e2]) (simp_all add: sample_cache_def)
  moreover have "cache_step ([Asked ?k], sample_cache True None 1 0)
      ([Granted ?k sample_granted ?r, Asked ?k], sample_cache False (Some sample_lease) 0 1)"
    by (rule cache_step.grant [OF _ _ e3]) (simp_all add: sample_cache_def)
  moreover have "cache_step ([Granted ?k sample_granted ?r, Asked ?k], sample_cache False (Some sample_lease) 0 1)
      ([Granted ?k sample_granted ?r, Asked ?k], sample_cache False (Some sample_lease) 1 1)"
    using cache_step.enter [of _ "sample_cache False (Some sample_lease) 0 1" ?k ?r] by (simp add: e4)
  ultimately show ?thesis by (meson converse_rtranclp_into_rtranclp rtranclp.rtrancl_refl)
qed

theorem admission_cache_safe_witness:
  "outstanding sample_cache_key [Granted sample_cache_key sample_granted sample_reading, Asked sample_cache_key] \<le> 1 \<and>
   (\<exists>c'. cache_check sample_cache_key \<lparr>e_gate = False, e_cached = Some sample_lease, e_holders = 1\<rparr>
      \<lparr>wall_now = 0, mono_now = 5\<rparr> (sample_cache False (Some sample_lease) 1 1) = (Some sample_granted, c')) \<and>
   0 + nanos_per_sec < ca_expires_at sample_granted"
proof -
  have hit: "cache_check sample_cache_key \<lparr>e_gate = False, e_cached = Some sample_lease, e_holders = 1\<rparr>
      \<lparr>wall_now = 0, mono_now = 5\<rparr> (sample_cache False (Some sample_lease) 1 1) =
      (Some sample_granted, sample_cache False (Some sample_lease) 0 1)"
    by (simp add: cache_eval) (simp add: sample_cache_key_def)
  note safe = admission_cache_safe [OF sample_cache_run, of sample_cache_key]
  have "map_of (ac_entries (sample_cache False (Some sample_lease) 1 1)) sample_cache_key =
      Some \<lparr>e_gate = False, e_cached = Some sample_lease, e_holders = 1\<rparr>"
    by (simp add: sample_cache_def)
  with safe hit have "wall_now \<lparr>wall_now = 0, mono_now = 5\<rparr> + nanos_per_sec < ca_expires_at sample_granted"
    by blast
  with safe hit show ?thesis by auto
qed

end
