(* ===== verification/Observation.thy ===== *)
theory Observation
  imports Authentication "HOL-Library.Product_Lexorder"
begin

text \<open>
  Observations of authenticated peers (\<open>core/auki-p2p/src/observation.rs\<close>) and the exact-Domain
  view the SDK gives of them (\<open>core/auki-sdk/src/known_peers.rs\<close>). The transition lock serialises
  every operation together with the events it sends, so an operation is a function from the state
  to the state it leaves and the events in their order. A snapshot reads under the state lock alone, so
  it can see a transition whose events are still to be sent; the subscriber of a Domain at the end is
  modelled with that interleaving. A set of connections is a sorted list
  without repetitions. The abstract specification is a subscriber that knows only the events.
\<close>

section \<open>State\<close>

datatype node_failure = SwarmEnded | ExpiryDriverEnded | ListenerClosed | Panicked | TaskCancelled

datatype node_observation_status = Running | Stopped | FailedStatus node_failure

datatype peer_disappearance_reason =
  CredentialExpired | FinalConnectionClosed | NodeStopped | NodeFailed

record authenticated_peer_observation =
  ao_domain_id :: uuid
  ao_peer :: authenticated_peer
  ao_connection_ids :: "nat list"

datatype node_observation_event =
    Appeared authenticated_peer_observation
  | Updated authenticated_peer_observation
  | Disappeared peer_id uuid peer_disappearance_reason
  | StatusChanged node_observation_status

record node_observation_snapshot =
  os_status :: node_observation_status
  os_peers :: "authenticated_peer_observation list"

record observation_state =
  o_status :: node_observation_status
  o_connections :: "(peer_id, nat list) hashmap"
  o_authentications :: "(peer_id \<times> uuid, authenticated_peer) hashmap"
  o_deadline_revision :: u64

definition observations_new :: observation_state where
  "observations_new = \<lparr>o_status = Running, o_connections = [], o_authentications = [],
     o_deadline_revision = 0\<rparr>"

section \<open>Reading\<close>

definition has_connection :: "observation_state \<Rightarrow> peer_id \<Rightarrow> bool" where
  "has_connection s p = (case map_of (o_connections s) p of None \<Rightarrow> False | Some cs \<Rightarrow> cs \<noteq> [])"

definition observation ::
  "observation_state \<Rightarrow> peer_id \<Rightarrow> uuid \<Rightarrow> authenticated_peer_observation option" where
  "observation s p d =
     (case map_of (o_authentications s) (p, d) of None \<Rightarrow> None
      | Some peer \<Rightarrow>
          (case map_of (o_connections s) p of None \<Rightarrow> None
           | Some cs \<Rightarrow>
               if cs = [] then None
               else Some \<lparr>ao_domain_id = d, ao_peer = peer, ao_connection_ids = cs\<rparr>))"

definition observations_for_peer ::
  "observation_state \<Rightarrow> peer_id \<Rightarrow> authenticated_peer_observation list" where
  "observations_for_peer s p =
     sort_key ao_domain_id (List.map_filter (\<lambda>(q, d). if q = p then observation s p d else None)
       (map fst (o_authentications s)))"

definition current_peers :: "observation_state \<Rightarrow> authenticated_peer_observation list" where
  "current_peers s =
     sort_key (\<lambda>ob. (peer_bytes (ap_peer_id (ao_peer ob)), ao_domain_id ob))
       (List.map_filter (\<lambda>(p, d). observation s p d) (map fst (o_authentications s)))"

definition next_expiration :: "observation_state \<Rightarrow> instant option" where
  "next_expiration s =
     (case map (ap_verified_until \<circ> snd) (o_authentications s) of [] \<Rightarrow> None
      | t # ts \<Rightarrow> Some (fold min ts t))"

text \<open>
  One turn of the expiry driver: it returns when the node is not running, otherwise it waits for
  a change or, if an authentication is held, for the earliest expiration, and then expires.
\<close>

datatype expiry_turn = Return | AwaitChange | ExpireAt instant

definition drive_expiry_turn :: "observation_state \<Rightarrow> expiry_turn" where
  "drive_expiry_turn s =
     (if o_status s \<noteq> Running then Return
      else case next_expiration s of Some deadline \<Rightarrow> ExpireAt deadline | None \<Rightarrow> AwaitChange)"

section \<open>Transitions\<close>

type_synonym observed = "observation_state \<times> node_observation_event list"

definition expired_keys :: "observation_state \<Rightarrow> instant \<Rightarrow> (peer_id \<times> uuid) list" where
  "expired_keys s now =
     map fst (filter (\<lambda>(_, peer). ap_verified_until peer \<le> now) (o_authentications s))"

fun prune_loop :: "(peer_id \<times> uuid) list \<Rightarrow> observation_state \<Rightarrow> observed" where
  "prune_loop [] s = (s, [])"
| "prune_loop ((p, d) # keys) s =
     (let s1 = s\<lparr>o_authentications := hm_remove (p, d) (o_authentications s)\<rparr>;
          (s2, evs) = prune_loop keys s1
      in (s2, (if has_connection s p then [Disappeared p d CredentialExpired] else []) @ evs))"

definition prune_expired :: "instant \<Rightarrow> observation_state \<Rightarrow> observed" where
  "prune_expired now s = prune_loop (expired_keys s now) s"

definition expire_inner :: "instant \<Rightarrow> observation_state \<Rightarrow> observed" where
  "expire_inner now s = prune_expired now s"

definition bump_deadline_revision :: "observation_state \<Rightarrow> observation_state" where
  "bump_deadline_revision s = s\<lparr>o_deadline_revision := o_deadline_revision s + 1\<rparr>"

definition remove_authentications_for_peer ::
  "peer_id \<Rightarrow> peer_disappearance_reason \<Rightarrow> observation_state \<Rightarrow> observed" where
  "remove_authentications_for_peer p reason s =
     (let domains = map snd (filter (\<lambda>(q, _). q = p) (map fst (o_authentications s)))
      in (s\<lparr>o_authentications := foldl (\<lambda>m d. hm_remove (p, d) m) (o_authentications s) domains\<rparr>,
          map (\<lambda>d. Disappeared p d reason) domains))"

definition connection_established :: "peer_id \<Rightarrow> nat \<Rightarrow> instant \<Rightarrow> observation_state \<Rightarrow> observed" where
  "connection_established p conn now s =
     (if o_status s \<noteq> Running then (s, [])
      else
        let (s1, evs) = prune_expired now s;
            was_connected = has_connection s1 p;
            old = (case map_of (o_connections s1) p of None \<Rightarrow> [] | Some cs \<Rightarrow> cs);
            s2 = s1\<lparr>o_connections := hm_insert p (insort_insert conn old) (o_connections s1)\<rparr>
        in (s2, evs @ (if conn \<notin> set old
              then map (if was_connected then Updated else Appeared) (observations_for_peer s2 p)
              else [])))"

definition connection_closed :: "peer_id \<Rightarrow> nat \<Rightarrow> instant \<Rightarrow> observation_state \<Rightarrow> observed" where
  "connection_closed p conn now s =
     (if o_status s \<noteq> Running then (s, [])
      else
        let (s1, evs) = prune_expired now s;
            (s3, more) =
              (case map_of (o_connections s1) p of
                 None \<Rightarrow> (s1, [])
               | Some cs \<Rightarrow>
                   if conn \<notin> set cs then (s1, [])
                   else
                     let s2 = s1\<lparr>o_connections := hm_insert p (remove1 conn cs) (o_connections s1)\<rparr>
                     in if has_connection s2 p then (s2, map Updated (observations_for_peer s2 p))
                        else remove_authentications_for_peer p FinalConnectionClosed
                          (s2\<lparr>o_connections := hm_remove p (o_connections s2)\<rparr>))
        in (bump_deadline_revision s3, evs @ more))"

definition authenticated :: "uuid \<Rightarrow> authenticated_peer \<Rightarrow> instant \<Rightarrow> observation_state \<Rightarrow> observed" where
  "authenticated d peer now s =
     (if ap_verified_until peer \<le> now then (s, [])
      else if o_status s \<noteq> Running then (s, [])
      else
        let p = ap_peer_id peer;
            (s1, evs) = prune_expired now s;
            (s2, more) =
              (if \<not> has_connection s1 p then (s1, [])
               else
                 let was_visible = hm_contains (o_authentications s1) (p, d);
                     s2 = s1\<lparr>o_authentications := hm_insert (p, d) peer (o_authentications s1)\<rparr>
                 in (s2, map (if was_visible then Updated else Appeared)
                       (case observation s2 p d of None \<Rightarrow> [] | Some ob \<Rightarrow> [ob])))
        in (bump_deadline_revision s2, evs @ more))"

definition terminate :: "node_observation_status \<Rightarrow> observation_state \<Rightarrow> observed" where
  "terminate status s =
     (if o_status s \<noteq> Running then (s, [])
      else case (case status of Running \<Rightarrow> None | Stopped \<Rightarrow> Some NodeStopped
                 | FailedStatus _ \<Rightarrow> Some NodeFailed) of
        None \<Rightarrow> (s, [])
      | Some disappearance \<Rightarrow>
          (bump_deadline_revision (s\<lparr>o_connections := [], o_authentications := [], o_status := status\<rparr>),
           map (\<lambda>(p, d). Disappeared p d disappearance)
             (filter (\<lambda>(p, _). has_connection s p) (map fst (o_authentications s)))
           @ [StatusChanged status]))"

definition node_stopped :: "observation_state \<Rightarrow> observed" where
  "node_stopped s = terminate Stopped s"

definition node_failed :: "node_failure \<Rightarrow> observation_state \<Rightarrow> observed" where
  "node_failed reason s = terminate (FailedStatus reason) s"

text \<open>\<open>snapshot\<close> expires first, in a transition of its own, and then reads.\<close>

definition observation_snapshot :: "observation_state \<Rightarrow> node_observation_snapshot" where
  "observation_snapshot s = \<lparr>os_status = o_status s, os_peers = current_peers s\<rparr>"

section \<open>A subscriber\<close>

text \<open>
  What a subscriber knows, per peer and Domain. An event is legal only if it fits: a peer appears
  when it was absent, is updated or disappears when it was present.
\<close>

type_synonym peer_view = "peer_id \<times> uuid \<Rightarrow> authenticated_peer_observation option"

definition ao_key :: "authenticated_peer_observation \<Rightarrow> peer_id \<times> uuid" where
  "ao_key ob = (ap_peer_id (ao_peer ob), ao_domain_id ob)"

fun apply_event :: "node_observation_event \<Rightarrow> peer_view \<Rightarrow> peer_view option" where
  "apply_event (Appeared ob) v = (if v (ao_key ob) = None then Some (v(ao_key ob \<mapsto> ob)) else None)"
| "apply_event (Updated ob) v = (if v (ao_key ob) \<noteq> None then Some (v(ao_key ob \<mapsto> ob)) else None)"
| "apply_event (Disappeared p d r) v = (if v (p, d) \<noteq> None then Some (v((p, d) := None)) else None)"
| "apply_event (StatusChanged st) v = Some v"

fun replay :: "node_observation_event list \<Rightarrow> peer_view \<Rightarrow> peer_view option" where
  "replay [] v = Some v"
| "replay (e # es) v = Option.bind (apply_event e v) (replay es)"

definition state_view :: "observation_state \<Rightarrow> peer_view" where
  "state_view s = (\<lambda>(p, d). observation s p d)"

definition obs_inv :: "observation_state \<Rightarrow> bool" where
  "obs_inv s \<longleftrightarrow> hm_ok (o_connections s) \<and> hm_ok (o_authentications s) \<and>
     (\<forall>p cs. map_of (o_connections s) p = Some cs \<longrightarrow> cs \<noteq> [] \<and> sorted cs \<and> distinct cs) \<and>
     (\<forall>p d peer. map_of (o_authentications s) (p, d) = Some peer \<longrightarrow>
        has_connection s p \<and> ap_peer_id peer = p) \<and>
     (o_status s \<noteq> Running \<longrightarrow> o_connections s = [] \<and> o_authentications s = [])"

lemma replay_append: "replay (es @ fs) v = Option.bind (replay es v) (replay fs)"
  by (induction es arbitrary: v) (auto simp: bind_assoc split: Option.bind_split)

lemma replay_append_Some: "replay es v = Some w \<Longrightarrow> replay (es @ fs) v = replay fs w"
  by (simp add: replay_append)

section \<open>Every transition tells the subscriber exactly what changed\<close>

lemma observation_Some:
  "observation s p d = Some ob \<longleftrightarrow>
     (\<exists>peer cs. map_of (o_authentications s) (p, d) = Some peer \<and> map_of (o_connections s) p = Some cs \<and>
        cs \<noteq> [] \<and> ob = \<lparr>ao_domain_id = d, ao_peer = peer, ao_connection_ids = cs\<rparr>)"
  by (auto simp: observation_def split: option.splits)

lemma has_connection_iff: "has_connection s p \<longleftrightarrow> (\<exists>cs. map_of (o_connections s) p = Some cs \<and> cs \<noteq> [])"
  by (auto simp: has_connection_def split: option.splits)

lemma obs_invD:
  assumes "obs_inv s"
  shows "hm_ok (o_connections s)" "hm_ok (o_authentications s)"
    "map_of (o_connections s) p = Some cs \<Longrightarrow> cs \<noteq> [] \<and> sorted cs \<and> distinct cs"
    "map_of (o_authentications s) (p, d) = Some peer \<Longrightarrow> has_connection s p \<and> ap_peer_id peer = p"
    "o_status s \<noteq> Running \<Longrightarrow> o_connections s = [] \<and> o_authentications s = []"
  using assms by (simp_all add: obs_inv_def)

lemma observation_key: "obs_inv s \<Longrightarrow> observation s p d = Some ob \<Longrightarrow> ao_key ob = (p, d)"
  using obs_invD(4) by (fastforce simp: observation_Some ao_key_def)

lemma observation_None: "obs_inv s \<Longrightarrow> observation s p d = None \<longleftrightarrow> map_of (o_authentications s) (p, d) = None"
  by (metis observation_Some obs_invD(4) has_connection_iff not_None_eq)

lemma set_map_filter: "y \<in> set (List.map_filter f xs) \<longleftrightarrow> (\<exists>x \<in> set xs. f x = Some y)"
  by (induction xs) (auto simp: List.map_filter_def)

lemma observation_listed: "observation s p d = Some ob \<Longrightarrow> (p, d) \<in> set (map fst (o_authentications s))"
  by (auto simp: observation_Some map_of_eq_None_iff [symmetric] dom_map_of_conv_image_fst [symmetric])

lemma observations_for_peer_iff: "ob \<in> set (observations_for_peer s p) \<longleftrightarrow> (\<exists>d. observation s p d = Some ob)"
proof
  assume "ob \<in> set (observations_for_peer s p)"
  then obtain k where "(case k of (q, d) \<Rightarrow> if q = p then observation s p d else None) = Some ob"
    unfolding observations_for_peer_def set_sort set_map_filter by blast
  then show "\<exists>d. observation s p d = Some ob" by (auto split: prod.splits if_splits)
next
  assume "\<exists>d. observation s p d = Some ob"
  then obtain d where d: "observation s p d = Some ob" by blast
  then have "(case (p, d) of (q, d) \<Rightarrow> if q = p then observation s p d else None) = Some ob" by simp
  with observation_listed [OF d] show "ob \<in> set (observations_for_peer s p)"
    unfolding observations_for_peer_def set_sort set_map_filter by blast
qed

lemma current_peers_iff: "ob \<in> set (current_peers s) \<longleftrightarrow> (\<exists>p d. observation s p d = Some ob)"
proof
  assume "ob \<in> set (current_peers s)"
  then obtain k where "(case k of (p, d) \<Rightarrow> observation s p d) = Some ob"
    unfolding current_peers_def set_sort set_map_filter by blast
  then show "\<exists>p d. observation s p d = Some ob" by (auto split: prod.splits)
next
  assume "\<exists>p d. observation s p d = Some ob"
  then obtain p d where d: "observation s p d = Some ob" by blast
  then have "(case (p, d) of (p, d) \<Rightarrow> observation s p d) = Some ob" by simp
  with observation_listed [OF d] show "ob \<in> set (current_peers s)"
    unfolding current_peers_def set_sort set_map_filter by blast
qed

lemma replay_updates:
  assumes "\<And>ob. ob \<in> set obs \<Longrightarrow> w (ao_key ob) = Some ob" "\<And>ob. ob \<in> set obs \<Longrightarrow> v (ao_key ob) \<noteq> None"
    and "\<And>k. k \<notin> ao_key ` set obs \<Longrightarrow> w k = v k"
  shows "replay (map Updated obs) v = Some w"
  using assms
proof (induction obs arbitrary: v)
  case Nil
  then have "w = v" by auto
  then show ?case by simp
next
  case (Cons ob obs)
  have "replay (map Updated obs) (v(ao_key ob \<mapsto> ob)) = Some w"
  proof (rule Cons.IH)
    fix k assume "k \<notin> ao_key ` set obs"
    then show "w k = (v(ao_key ob \<mapsto> ob)) k"
      using Cons.prems(1) [of ob] Cons.prems(3) [of k] by (cases "k = ao_key ob") auto
  qed (use Cons.prems in auto)
  then show ?case using Cons.prems(2) [of ob] by simp
qed

lemma replay_disappear:
  assumes "distinct keys" "\<And>k. k \<in> set keys \<Longrightarrow> v k \<noteq> None"
  shows "replay (map (\<lambda>(p, d). Disappeared p d r) keys) v = Some (\<lambda>k. if k \<in> set keys then None else v k)"
  using assms
proof (induction keys arbitrary: v)
  case (Cons k keys)
  obtain p d where k: "k = (p, d)" by (cases k)
  have "replay (map (\<lambda>(p, d). Disappeared p d r) keys) (v(k := None)) =
      Some (\<lambda>x. if x \<in> set keys then None else (v(k := None)) x)"
    using Cons.prems by (intro Cons.IH) auto
  moreover have "(\<lambda>x. if x \<in> set keys then None else (v(k := None)) x) =
      (\<lambda>x. if x \<in> set (k # keys) then None else v x)" by auto
  ultimately show ?case using Cons.prems(2) [of k] by (simp add: k)
qed simp

subsection \<open>Expiry\<close>

lemma has_connection_auth [simp]: "has_connection (s\<lparr>o_authentications := m\<rparr>) p = has_connection s p"
  by (simp add: has_connection_def)

lemma obs_inv_remove_auth:
  "obs_inv s \<Longrightarrow> obs_inv (s\<lparr>o_authentications := hm_remove k (o_authentications s)\<rparr>)"
  by (auto simp: obs_inv_def hm_remove_def hm.ok_del delete_conv' split: if_splits)

lemma view_remove_auth:
  "state_view (s\<lparr>o_authentications := hm_remove k (o_authentications s)\<rparr>) = (state_view s)(k := None)"
  by (auto simp: state_view_def observation_def hm_remove_def delete_conv' fun_eq_iff split: option.splits)

lemma prune_loop_ok:
  assumes "obs_inv s" "distinct keys" "\<And>k. k \<in> set keys \<Longrightarrow> map_of (o_authentications s) k \<noteq> None"
    and "prune_loop keys s = (s', evs)"
  shows "obs_inv s' \<and> replay evs (state_view s) = Some (state_view s') \<and>
    o_connections s' = o_connections s \<and> o_status s' = o_status s \<and>
    o_authentications s' = foldl (\<lambda>m k. hm_remove k m) (o_authentications s) keys"
  using assms
proof (induction keys s arbitrary: s' evs rule: prune_loop.induct)
  case (2 p d keys s)
  define s1 where "s1 = s\<lparr>o_authentications := hm_remove (p, d) (o_authentications s)\<rparr>"
  obtain s2 evs2 where rest: "prune_loop keys s1 = (s2, evs2)" by fastforce
  have conn: "has_connection s p"
    using 2(2) 2(4) [of "(p, d)"] obs_invD(4) [OF 2(2)] by auto
  then have eq: "s' = s2" "evs = Disappeared p d CredentialExpired # evs2"
    using 2(5) rest by (simp_all add: s1_def Let_def)
  have "obs_inv s1" unfolding s1_def by (rule obs_inv_remove_auth [OF 2(2)])
  moreover have "map_of (o_authentications s1) k \<noteq> None" if "k \<in> set keys" for k
    using 2(3) 2(4) [of k] that by (auto simp: s1_def hm_remove_def delete_conv')
  ultimately have ih: "obs_inv s2" "replay evs2 (state_view s1) = Some (state_view s2)"
    "o_connections s2 = o_connections s1" "o_status s2 = o_status s1"
    "o_authentications s2 = foldl (\<lambda>m k. hm_remove k m) (o_authentications s1) keys"
    using 2(1) [OF s1_def _ _ _ rest] 2(3) by auto
  have "state_view s (p, d) \<noteq> None"
    using 2(4) [of "(p, d)"] observation_None [OF 2(2)] by (simp add: state_view_def)
  then have "replay evs (state_view s) = Some (state_view s2)"
    using ih(2) by (simp add: eq(2) s1_def view_remove_auth)
  then show ?case using ih eq by (simp add: s1_def)
qed simp

lemma foldl_remove_get:
  "map_of (foldl (\<lambda>m k. hm_remove k m) m keys) k = (if k \<in> set keys then None else map_of m k)"
  by (induction keys arbitrary: m) (auto simp: hm_remove_def delete_conv')

text \<open>After pruning nothing that has expired is left, and the rest is as before.\<close>

lemma prune_expired_ok:
  assumes inv: "obs_inv s" and prune: "prune_expired now s = (s', evs)"
  shows "obs_inv s'" "replay evs (state_view s) = Some (state_view s')"
    "o_connections s' = o_connections s" "o_status s' = o_status s"
    "map_of (o_authentications s') k = (case map_of (o_authentications s) k of None \<Rightarrow> None
       | Some peer \<Rightarrow> if ap_verified_until peer \<le> now then None else Some peer)"
proof -
  have ok: "distinct (map fst (o_authentications s))" using obs_invD(2) [OF inv] by (simp add: hm_ok_def)
  then have dist: "distinct (expired_keys s now)"
    by (simp add: expired_keys_def distinct_map_filter)
  have mem: "k \<in> set (expired_keys s now) \<longleftrightarrow>
      (\<exists>peer. map_of (o_authentications s) k = Some peer \<and> ap_verified_until peer \<le> now)" for k
    using ok by (force simp: expired_keys_def)
  note loop = prune_loop_ok [OF inv dist _ prune [unfolded prune_expired_def]]
  have "obs_inv s' \<and> replay evs (state_view s) = Some (state_view s') \<and>
      o_connections s' = o_connections s \<and> o_status s' = o_status s \<and>
      o_authentications s' = foldl (\<lambda>m k. hm_remove k m) (o_authentications s) (expired_keys s now)"
    by (rule loop) (auto simp: mem)
  then show "obs_inv s'" "replay evs (state_view s) = Some (state_view s')"
    "o_connections s' = o_connections s" "o_status s' = o_status s"
    "map_of (o_authentications s') k = (case map_of (o_authentications s) k of None \<Rightarrow> None
       | Some peer \<Rightarrow> if ap_verified_until peer \<le> now then None else Some peer)"
    by (auto simp: foldl_remove_get mem split: option.splits)
qed

subsection \<open>The other transitions\<close>

definition told :: "observation_state \<Rightarrow> observed \<Rightarrow> bool" where
  "told s r \<longleftrightarrow> obs_inv (fst r) \<and> replay (snd r) (state_view s) = Some (state_view (fst r))"

lemma told_refl: "obs_inv s \<Longrightarrow> told s (s, [])"
  by (simp add: told_def)

lemma told_trans: "told s (s1, es) \<Longrightarrow> told s1 (s2, fs) \<Longrightarrow> told s (s2, es @ fs)"
  by (simp add: told_def replay_append)

lemma told_prune: "obs_inv s \<Longrightarrow> prune_expired now s = (s', evs) \<Longrightarrow> told s (s', evs)"
  by (simp add: told_def prune_expired_ok)

lemma bump_view [simp]: "state_view (bump_deadline_revision s) = state_view s"
  by (auto simp: state_view_def observation_def bump_deadline_revision_def fun_eq_iff split: option.splits)

lemma bump_inv [simp]: "obs_inv (bump_deadline_revision s) = obs_inv s"
  by (simp add: obs_inv_def bump_deadline_revision_def has_connection_def)

lemma told_bump: "told s (s', evs) \<Longrightarrow> told s (bump_deadline_revision s', evs)"
  by (simp add: told_def)

text \<open>New connections of a peer that is already connected: each of its observations changes.\<close>

lemma has_connection_set:
  "hm_ok (o_connections s) \<Longrightarrow>
   has_connection (s\<lparr>o_connections := hm_insert p cs (o_connections s)\<rparr>) q =
     (if q = p then cs \<noteq> [] else has_connection s q)"
  by (simp add: has_connection_def hm.get_ins)

lemma observation_set:
  "cs \<noteq> [] \<Longrightarrow> observation (s\<lparr>o_connections := hm_insert p cs (o_connections s)\<rparr>) q d =
     (if q = p then map_option (\<lambda>peer. \<lparr>ao_domain_id = d, ao_peer = peer, ao_connection_ids = cs\<rparr>)
        (map_of (o_authentications s) (p, d))
      else observation s q d)"
  by (simp add: observation_def hm.get_ins split: option.splits)

lemma obs_inv_set_connections:
  assumes "obs_inv s" "cs \<noteq> []" "sorted cs" "distinct cs" "o_status s = Running"
  shows "obs_inv (s\<lparr>o_connections := hm_insert p cs (o_connections s)\<rparr>)"
  using assms obs_invD(4) [OF assms(1)]
  by (auto simp: obs_inv_def has_connection_set hm.get_ins hm.ok_ins split: if_splits)

lemma told_set_connections:
  assumes inv: "obs_inv s" and cs: "cs \<noteq> []" "sorted cs" "distinct cs" and run: "o_status s = Running"
  shows "told s (s\<lparr>o_connections := hm_insert p cs (o_connections s)\<rparr>,
    map Updated (observations_for_peer (s\<lparr>o_connections := hm_insert p cs (o_connections s)\<rparr>) p))"
    (is "told s (?s2, map Updated ?obs)")
proof -
  have inv2: "obs_inv ?s2" using assms by (rule obs_inv_set_connections)
  have "replay (map Updated ?obs) (state_view s) = Some (state_view ?s2)"
  proof (rule replay_updates)
    fix ob assume "ob \<in> set ?obs"
    then obtain d where d: "observation ?s2 p d = Some ob" by (auto simp: observations_for_peer_iff)
    then have key: "ao_key ob = (p, d)" by (rule observation_key [OF inv2])
    show "state_view ?s2 (ao_key ob) = Some ob" using d key by (simp add: state_view_def)
    have "map_of (o_authentications s) (p, d) \<noteq> None" using d cs by (auto simp: observation_set)
    then show "state_view s (ao_key ob) \<noteq> None"
      by (simp add: key state_view_def observation_None [OF inv])
  next
    fix k assume k: "k \<notin> ao_key ` set ?obs"
    obtain q d where qd: "k = (q, d)" by (cases k)
    show "state_view ?s2 k = state_view s k"
    proof (cases "q = p")
      case True
      have "observation ?s2 p d = None"
        using k qd True observation_key [OF inv2] observations_for_peer_iff by (metis imageI not_None_eq)
      then have "map_of (o_authentications s) (p, d) = None" using cs by (auto simp: observation_set)
      then show ?thesis
        using \<open>observation ?s2 p d = None\<close> observation_None [OF inv, of p d]
        by (simp add: qd True state_view_def)
    qed (use cs in \<open>simp add: qd state_view_def observation_set\<close>)
  qed
  with inv2 show ?thesis by (simp add: told_def)
qed

lemma told_established:
  assumes inv: "obs_inv s"
  shows "told s (connection_established p conn now s)"
proof (cases "o_status s = Running")
  case run: True
  obtain s1 evs where prune: "prune_expired now s = (s1, evs)" by fastforce
  note pr = prune_expired_ok [OF inv prune]
  define old where "old = (case map_of (o_connections s1) p of None \<Rightarrow> [] | Some cs \<Rightarrow> cs)"
  define s2 where "s2 = s1\<lparr>o_connections := hm_insert p (insort_insert conn old) (o_connections s1)\<rparr>"
  define more where "more = (if conn \<notin> set old
      then map (if has_connection s1 p then Updated else Appeared) (observations_for_peer s2 p) else [])"
  have result: "connection_established p conn now s = (s2, evs @ more)"
    using run unfolding connection_established_def Let_def prune old_def s2_def more_def by simp
  have old: "sorted old" "distinct old"
    using obs_invD(3) [OF pr(1)] by (auto simp: old_def split: option.splits)
  then have new: "insort_insert conn old \<noteq> []" "sorted (insort_insert conn old)" "distinct (insort_insert conn old)"
    using set_insort_insert [of conn old] by (auto simp: sorted_insort_insert distinct_insort_insert)
  note upd = told_set_connections [OF pr(1) new, of p, folded s2_def]
  have "told s1 (s2, more)"
  proof (cases "has_connection s1 p")
    case True
    show ?thesis
    proof (cases "conn \<in> set old")
      case False
      then show ?thesis using upd pr(4) run True by (simp add: more_def)
    next
      case dup: True
      then have "insort_insert conn old = old" by (simp add: insort_insert_triv)
      then have "map_of (o_connections s2) = map_of (o_connections s1)"
        using True by (auto simp: s2_def hm.get_ins old_def has_connection_iff fun_eq_iff)
      then have "observation s2 = observation s1"
        by (simp add: observation_def s2_def fun_eq_iff split: option.splits)
      then have "state_view s2 = state_view s1" by (simp add: state_view_def)
      then show ?thesis using upd pr(4) run dup by (simp add: told_def more_def)
    qed
  next
    case False
    then have none: "map_of (o_authentications s1) (p, d) = None" for d
      using obs_invD(4) [OF pr(1)] by (metis not_None_eq)
    then have "observation s2 p d = None" for d
      using new(1) by (simp add: s2_def observation_set)
    then have "ob \<notin> set (observations_for_peer s2 p)" for ob
      by (simp add: observations_for_peer_iff)
    then have "observations_for_peer s2 p = []" by (cases "observations_for_peer s2 p") auto
    then have "told s1 (s2, [])" using upd pr(4) run by simp
    then show ?thesis using \<open>observations_for_peer s2 p = []\<close> by (simp add: more_def)
  qed
  then show ?thesis unfolding result by (rule told_trans [OF told_prune [OF inv prune]])
qed (simp add: connection_established_def told_refl inv)


lemma domains_of_peer:
  "d \<in> set (map snd (filter (\<lambda>(q, _). q = p) (map fst m))) \<longleftrightarrow> map_of m (p, d) \<noteq> None"
  by (auto simp: map_of_eq_None_iff image_iff)

lemma foldl_remove_map:
  "foldl (\<lambda>m d. hm_remove (p, d) m) m ds = foldl (\<lambda>m k. hm_remove k m) m (map (Pair p) ds)"
  by (induction ds arbitrary: m) auto

lemma hm_ok_foldl_remove: "hm_ok m \<Longrightarrow> hm_ok (foldl (\<lambda>m k. hm_remove k m) m ks)"
  by (induction ks arbitrary: m) (auto simp: hm_remove_def hm.ok_del)

text \<open>The last connection of a peer goes, and all its authentications with it.\<close>

lemma told_last_closed:
  assumes inv: "obs_inv s" and run: "o_status s = Running" and p: "map_of (o_connections s) p = Some cs"
  shows "told s (remove_authentications_for_peer p reason
      (s\<lparr>o_connections := hm_remove p (hm_insert p [] (o_connections s))\<rparr>))"
proof -
  define domains where "domains = map snd (filter (\<lambda>(q, _). q = p) (map fst (o_authentications s)))"
  define s2 where "s2 = s\<lparr>o_connections := hm_remove p (hm_insert p [] (o_connections s)),
    o_authentications := foldl (\<lambda>m k. hm_remove k m) (o_authentications s) (map (Pair p) domains)\<rparr>"
  have eq: "remove_authentications_for_peer p reason
      (s\<lparr>o_connections := hm_remove p (hm_insert p [] (o_connections s))\<rparr>) =
      (s2, map (\<lambda>d. Disappeared p d reason) domains)"
    by (simp add: remove_authentications_for_peer_def Let_def s2_def domains_def foldl_remove_map)
  have dom: "d \<in> set domains \<longleftrightarrow> map_of (o_authentications s) (p, d) \<noteq> None" for d
    by (simp only: domains_def domains_of_peer)
  have conns: "map_of (o_connections s2) = (map_of (o_connections s))(p := None)"
    by (auto simp: s2_def hm_remove_def delete_conv' hm.get_ins fun_eq_iff)
  have auths: "map_of (o_authentications s2) (q, d) = (if q = p then None else map_of (o_authentications s) (q, d))" for q d
    using dom [of d] by (auto simp: s2_def foldl_remove_get)
  have inv2: "obs_inv s2"
  proof -
    have "hm_ok (o_connections s2)" "hm_ok (o_authentications s2)"
      using hm_ok_foldl_remove [OF obs_invD(2) [OF inv]] obs_invD(1) [OF inv]
      by (simp_all add: s2_def hm.ok_ins hm.ok_del hm_remove_def [of p])
    moreover have "has_connection s2 q = (q \<noteq> p \<and> has_connection s q)" for q
      by (simp add: has_connection_def conns)
    moreover have "o_status s2 = Running" using run by (simp add: s2_def)
    ultimately show ?thesis
      using obs_invD(3,4) [OF inv] by (auto simp: obs_inv_def conns auths split: if_splits)
  qed
  have "distinct (map fst (o_authentications s))" using obs_invD(2) [OF inv] by (simp add: hm_ok_def)
  then have "distinct (filter (\<lambda>(q, _). q = p) (map fst (o_authentications s)))" by simp
  moreover have "inj_on snd (set (filter (\<lambda>(q, _). q = p) (map fst (o_authentications s))))"
    by (auto simp: inj_on_def)
  ultimately have "distinct domains" unfolding domains_def distinct_map by blast
  then have "distinct (map (Pair p) domains)" by (simp add: distinct_map inj_on_def)
  moreover have "state_view s k \<noteq> None" if kd: "k \<in> set (map (Pair p) domains)" for k
  proof -
    obtain d where d: "k = (p, d)" "d \<in> set domains" using kd by auto
    then show ?thesis using dom [of d] observation_None [OF inv, of p d] by (simp add: state_view_def)
  qed
  ultimately have "replay (map (\<lambda>(p, d). Disappeared p d reason) (map (Pair p) domains)) (state_view s) =
      Some (\<lambda>k. if k \<in> set (map (Pair p) domains) then None else state_view s k)"
    by (rule replay_disappear)
  moreover have "(\<lambda>k. if k \<in> set (map (Pair p) domains) then None else state_view s k) = state_view s2"
  proof
    fix k :: "peer_id \<times> uuid"
    obtain q d where k: "k = (q, d)" by (cases k)
    show "(if k \<in> set (map (Pair p) domains) then None else state_view s k) = state_view s2 k"
    proof (cases "q = p")
      case True
      then have "observation s2 q d = None" by (simp add: observation_def auths)
      moreover have "observation s q d = None" if "d \<notin> set domains"
        using that dom [of d] True observation_None [OF inv] by simp
      ultimately show ?thesis using True by (auto simp: k state_view_def)
    qed (auto simp: k state_view_def observation_def auths conns split: option.splits)
  qed
  ultimately show ?thesis using inv2 by (simp add: eq told_def comp_def)
qed

lemma told_closed:
  assumes inv: "obs_inv s"
  shows "told s (connection_closed p conn now s)"
proof (cases "o_status s = Running")
  case run: True
  obtain s1 evs where prune: "prune_expired now s = (s1, evs)" by fastforce
  note pr = prune_expired_ok [OF inv prune]
  define rest where "rest = (case map_of (o_connections s1) p of
                 None \<Rightarrow> (s1, [])
               | Some cs \<Rightarrow>
                   if conn \<notin> set cs then (s1, [])
                   else
                     let s2 = s1\<lparr>o_connections := hm_insert p (remove1 conn cs) (o_connections s1)\<rparr>
                     in if has_connection s2 p then (s2, map Updated (observations_for_peer s2 p))
                        else remove_authentications_for_peer p FinalConnectionClosed
                          (s2\<lparr>o_connections := hm_remove p (o_connections s2)\<rparr>))"
  obtain s3 more where s3: "rest = (s3, more)" by fastforce
  have result: "connection_closed p conn now s = (bump_deadline_revision s3, evs @ more)"
    using run s3 unfolding connection_closed_def Let_def prune rest_def by simp
  have "told s1 rest"
  proof (cases "map_of (o_connections s1) p")
    case None
    then show ?thesis using told_refl [OF pr(1)] by (simp add: rest_def)
  next
    case (Some cs)
    note cs = obs_invD(3) [OF pr(1) Some]
    show ?thesis
    proof (cases "conn \<in> set cs")
      case False
      then show ?thesis using Some told_refl [OF pr(1)] by (simp add: rest_def)
    next
      case True
      have conn: "has_connection (s1\<lparr>o_connections := hm_insert p (remove1 conn cs) (o_connections s1)\<rparr>) p \<longleftrightarrow>
          remove1 conn cs \<noteq> []"
        by (simp add: has_connection_set obs_invD(1) [OF pr(1)])
      show ?thesis
      proof (cases "remove1 conn cs = []")
        case empty: True
        then have "rest = remove_authentications_for_peer p FinalConnectionClosed
            (s1\<lparr>o_connections := hm_remove p (hm_insert p [] (o_connections s1))\<rparr>)"
          using Some True conn by (simp add: rest_def Let_def)
        then show ?thesis using told_last_closed [OF pr(1) _ Some] run pr(4) by simp
      next
        case False
        then have "rest = (s1\<lparr>o_connections := hm_insert p (remove1 conn cs) (o_connections s1)\<rparr>,
            map Updated (observations_for_peer
              (s1\<lparr>o_connections := hm_insert p (remove1 conn cs) (o_connections s1)\<rparr>) p))"
          using Some True conn by (simp add: rest_def Let_def)
        then show ?thesis
          using told_set_connections [OF pr(1) False, of p] cs run pr(4)
          by (simp add: sorted_remove1 distinct_remove1)
      qed
    qed
  qed
  then have "told s (s3, evs @ more)" unfolding s3 by (rule told_trans [OF told_prune [OF inv prune]])
  then show ?thesis unfolding result by (rule told_bump)
qed (simp add: connection_closed_def told_refl inv)

lemma told_authenticated:
  assumes inv: "obs_inv s"
  shows "told s (authenticated d peer now s)"
proof (cases "o_status s = Running \<and> \<not> ap_verified_until peer \<le> now")
  case run: True
  obtain s1 evs where prune: "prune_expired now s = (s1, evs)" by fastforce
  note pr = prune_expired_ok [OF inv prune]
  define p where "p = ap_peer_id peer"
  define s2 where "s2 = s1\<lparr>o_authentications := hm_insert (p, d) peer (o_authentications s1)\<rparr>"
  define rest where "rest = (if \<not> has_connection s1 p then (s1, [])
     else (s2, map (if hm_contains (o_authentications s1) (p, d) then Updated else Appeared)
       (case observation s2 p d of None \<Rightarrow> [] | Some ob \<Rightarrow> [ob])))"
  obtain s3 more where s3: "rest = (s3, more)" by fastforce
  have result: "authenticated d peer now s = (bump_deadline_revision s3, evs @ more)"
    using run s3 unfolding authenticated_def Let_def prune rest_def p_def s2_def by simp
  have "told s1 rest"
  proof (cases "has_connection s1 p")
    case True
    then obtain cs where cs: "map_of (o_connections s1) p = Some cs" "cs \<noteq> []" by (auto simp: has_connection_iff)
    define ob where "ob = \<lparr>ao_domain_id = d, ao_peer = peer, ao_connection_ids = cs\<rparr>"
    have ob: "observation s2 p d = Some ob"
      using cs by (simp add: observation_Some s2_def hm.get_ins ob_def)
    have inv2: "obs_inv s2"
      using pr(1) True run pr(4) by (auto simp: obs_inv_def s2_def hm.get_ins hm.ok_ins p_def split: if_splits)
    have view: "state_view s2 = (state_view s1)((p, d) \<mapsto> ob)"
      using ob by (auto simp: state_view_def fun_eq_iff) (auto simp: observation_def s2_def hm.get_ins split: option.splits if_splits)
    have key: "ao_key ob = (p, d)" by (simp add: ao_key_def ob_def p_def)
    have "state_view s1 (p, d) = None \<longleftrightarrow> \<not> hm_contains (o_authentications s1) (p, d)"
      by (simp add: state_view_def observation_None [OF pr(1)] hm_contains_def)
    then show ?thesis
      using True inv2 ob by (simp add: told_def rest_def key view)
  qed (simp add: rest_def told_refl pr(1))
  then have "told s (s3, evs @ more)" unfolding s3 by (rule told_trans [OF told_prune [OF inv prune]])
  then show ?thesis unfolding result by (rule told_bump)
qed (auto simp: authenticated_def told_refl inv)

lemma told_terminate:
  assumes inv: "obs_inv s"
  shows "told s (terminate status s)"
proof (cases "o_status s = Running \<and> status \<noteq> Running")
  case run: True
  then obtain r where r: "(case status of Running \<Rightarrow> None | Stopped \<Rightarrow> Some NodeStopped
      | FailedStatus _ \<Rightarrow> Some NodeFailed) = Some r" by (cases status) auto
  define s2 where "s2 = s\<lparr>o_connections := [], o_authentications := [], o_status := status\<rparr>"
  define keys where "keys = filter (\<lambda>(p, _). has_connection s p) (map fst (o_authentications s))"
  have result: "terminate status s =
      (bump_deadline_revision s2, map (\<lambda>(p, d). Disappeared p d r) keys @ [StatusChanged status])"
    using run r by (simp add: terminate_def s2_def keys_def)
  have "distinct keys" using obs_invD(2) [OF inv] by (simp add: keys_def hm_ok_def)
  moreover have mem: "k \<in> set keys \<longleftrightarrow> state_view s k \<noteq> None" for k
  proof -
    obtain p d where k: "k = (p, d)" by (cases k)
    have "map_of (o_authentications s) (p, d) \<noteq> None \<longleftrightarrow> (p, d) \<in> set (map fst (o_authentications s))"
      by (simp add: map_of_eq_None_iff)
    then show ?thesis
      using obs_invD(4) [OF inv, of p d]
      by (auto simp: k keys_def state_view_def observation_None [OF inv] simp del: set_map)
  qed
  ultimately have "replay (map (\<lambda>(p, d). Disappeared p d r) keys) (state_view s) =
      Some (\<lambda>k. if k \<in> set keys then None else state_view s k)"
    by (intro replay_disappear) auto
  moreover have "(\<lambda>k. if k \<in> set keys then None else state_view s k) = state_view s2"
    using mem by (auto simp: fun_eq_iff state_view_def observation_def s2_def)
  moreover have "obs_inv s2" by (simp add: obs_inv_def s2_def hm_ok_def)
  ultimately show ?thesis by (simp add: result told_def replay_append)
qed (auto simp: terminate_def told_refl inv)

section \<open>Runs\<close>

datatype observation_op =
    Established peer_id nat instant
  | Closed peer_id nat instant
  | Authenticated uuid authenticated_peer instant
  | Expire instant
  | StopNode
  | FailNode node_failure

fun observe :: "observation_op \<Rightarrow> observation_state \<Rightarrow> observed" where
  "observe (Established p conn now) s = connection_established p conn now s"
| "observe (Closed p conn now) s = connection_closed p conn now s"
| "observe (Authenticated d peer now) s = authenticated d peer now s"
| "observe (Expire now) s = expire_inner now s"
| "observe StopNode s = node_stopped s"
| "observe (FailNode reason) s = node_failed reason s"

lemma told_observe: "obs_inv s \<Longrightarrow> told s (observe op s)"
  by (cases op)
    (simp_all add: told_established told_closed told_authenticated told_terminate node_stopped_def
      node_failed_def expire_inner_def told_prune [OF _ surjective_pairing, simplified])

interpretation obs_events: event_sourced observe obs_inv state_view replay
  using told_observe by unfold_locales (auto simp: told_def replay_append)

lemma observations_new_inv: "obs_inv observations_new"
  by (simp add: obs_inv_def observations_new_def hm_ok_def)

lemma observations_new_view: "state_view observations_new = (\<lambda>_. None)"
  by (auto simp: state_view_def observation_def observations_new_def)

section \<open>The exact-Domain view\<close>

record auki_known_peer =
  kp_peer_id :: peer_id
  kp_authenticated_until :: instant
  kp_application :: "signed_application_metadata option"

datatype auki_known_peer_event =
    KnownAppeared auki_known_peer
  | KnownUpdated auki_known_peer
  | KnownDisappeared peer_id peer_disappearance_reason

datatype auki_known_peer_recv_error = LaggedBy u64 | RecvClosed

definition project :: "authenticated_peer_observation \<Rightarrow> auki_known_peer" where
  "project ob = \<lparr>kp_peer_id = ap_peer_id (ao_peer ob), kp_authenticated_until = ap_verified_until (ao_peer ob),
     kp_application = ap_application (ao_peer ob)\<rparr>"

definition known_peers_snapshot ::
  "addr_codec \<Rightarrow> uuid \<Rightarrow> bool \<Rightarrow> node_observation_snapshot \<Rightarrow> auki_known_peer list" where
  "known_peers_snapshot C domain running snap =
     (if \<not> running then []
      else sort_key (\<lambda>kp. peer_to_string C (kp_peer_id kp))
        (map project (filter (\<lambda>ob. ao_domain_id ob = domain) (os_peers snap))))"

definition peer_count :: "addr_codec \<Rightarrow> uuid \<Rightarrow> bool \<Rightarrow> node_observation_snapshot \<Rightarrow> nat" where
  "peer_count C domain running snap = length (known_peers_snapshot C domain running snap)"

text \<open>
  \<open>recv\<close>: each turn either sees the context cancelled, or takes what the broadcast channel
  delivers next. It returns at the first relevant item; \<open>None\<close> means that it still waits.
\<close>

datatype recv_turn = CancelledTurn | Received node_observation_event | LaggedTurn u64 | ClosedTurn

fun known_recv ::
  "uuid \<Rightarrow> recv_turn list \<Rightarrow> (auki_known_peer_recv_error, auki_known_peer_event) result option \<times> recv_turn list" where
  "known_recv domain [] = (None, [])"
| "known_recv domain (CancelledTurn # turns) = (Some (Inl RecvClosed), turns)"
| "known_recv domain (LaggedTurn n # turns) = (Some (Inl (LaggedBy n)), turns)"
| "known_recv domain (ClosedTurn # turns) = (Some (Inl RecvClosed), turns)"
| "known_recv domain (Received (Appeared ob) # turns) =
     (if ao_domain_id ob = domain then (Some (Inr (KnownAppeared (project ob))), turns)
      else known_recv domain turns)"
| "known_recv domain (Received (Updated ob) # turns) =
     (if ao_domain_id ob = domain then (Some (Inr (KnownUpdated (project ob))), turns)
      else known_recv domain turns)"
| "known_recv domain (Received (Disappeared p d reason) # turns) =
     (if d = domain then (Some (Inr (KnownDisappeared p reason)), turns)
      else known_recv domain turns)"
| "known_recv domain (Received (StatusChanged status) # turns) =
     (if status = Running then known_recv domain turns else (Some (Inl RecvClosed), turns))"

lemma known_recv_shrinks: "known_recv domain turns = (Some r, rest) \<Longrightarrow> length rest < length turns"
  by (induction domain turns rule: known_recv.induct) (auto split: if_splits intro: less_SucI)

text \<open>All events a subscriber receives until the channel is drained or ends.\<close>

function known_events :: "uuid \<Rightarrow> recv_turn list \<Rightarrow> auki_known_peer_event list" where
  "known_events domain turns =
     (case known_recv domain turns of
        (Some (Inr e), rest) \<Rightarrow> e # known_events domain rest
      | _ \<Rightarrow> [])"
  by pat_completeness auto
termination
  by (relation "measure (length \<circ> snd)") (auto dest: known_recv_shrinks [OF sym] known_recv_shrinks)

declare known_events.simps [simp del]

fun apply_known :: "auki_known_peer_event \<Rightarrow> (peer_id \<Rightarrow> auki_known_peer option) \<Rightarrow> (peer_id \<Rightarrow> auki_known_peer option) option" where
  "apply_known (KnownAppeared kp) v = (if v (kp_peer_id kp) = None then Some (v(kp_peer_id kp \<mapsto> kp)) else None)"
| "apply_known (KnownUpdated kp) v = (if v (kp_peer_id kp) \<noteq> None then Some (v(kp_peer_id kp \<mapsto> kp)) else None)"
| "apply_known (KnownDisappeared p r) v = (if v p \<noteq> None then Some (v(p := None)) else None)"

fun replay_known :: "auki_known_peer_event list \<Rightarrow> (peer_id \<Rightarrow> auki_known_peer option) \<Rightarrow> (peer_id \<Rightarrow> auki_known_peer option) option" where
  "replay_known [] v = Some v"
| "replay_known (e # es) v = Option.bind (apply_known e v) (replay_known es)"

definition known_view :: "uuid \<Rightarrow> peer_view \<Rightarrow> (peer_id \<Rightarrow> auki_known_peer option)" where
  "known_view domain v = (\<lambda>p. map_option project (v (p, domain)))"

lemma kp_project [simp]: "kp_peer_id (project ob) = ap_peer_id (ao_peer ob)"
  by (simp add: project_def)

lemma known_view_upd:
  "known_view domain (v((p, d) := x)) =
     (if d = domain then (known_view domain v)(p := map_option project x) else known_view domain v)"
  by (auto simp: known_view_def fun_eq_iff)

lemma known_view_None: "known_view domain v p = None \<longleftrightarrow> v (p, domain) = None"
  by (simp add: known_view_def)

text \<open>What one event of a running node becomes for the subscriber of a Domain.\<close>

fun known_of :: "uuid \<Rightarrow> node_observation_event \<Rightarrow> auki_known_peer_event option" where
  "known_of domain (Appeared ob) = (if ao_domain_id ob = domain then Some (KnownAppeared (project ob)) else None)"
| "known_of domain (Updated ob) = (if ao_domain_id ob = domain then Some (KnownUpdated (project ob)) else None)"
| "known_of domain (Disappeared p d r) = (if d = domain then Some (KnownDisappeared p r) else None)"
| "known_of domain (StatusChanged st) = None"

definition still_running :: "node_observation_event \<Rightarrow> bool" where
  "still_running e \<longleftrightarrow> (\<forall>st. e = StatusChanged st \<longrightarrow> st = Running)"

lemma known_events_Cons:
  assumes "still_running e"
  shows "known_events domain (Received e # turns) =
    (case known_of domain e of None \<Rightarrow> known_events domain turns | Some k \<Rightarrow> k # known_events domain turns)"
proof (cases "known_of domain e")
  case None
  then have "known_recv domain (Received e # turns) = known_recv domain turns"
    using assms by (cases e) (auto simp: still_running_def split: if_splits)
  then show ?thesis using None by (subst (1 2) known_events.simps) simp
next
  case (Some k)
  then have "known_recv domain (Received e # turns) = (Some (Inr k), turns)"
    by (cases e) (auto split: if_splits)
  then show ?thesis using Some by (subst known_events.simps) simp
qed

lemma known_of_apply:
  assumes "apply_event e v = Some w"
  shows "case known_of domain e of None \<Rightarrow> known_view domain w = known_view domain v
    | Some k \<Rightarrow> apply_known k (known_view domain v) = Some (known_view domain w)"
proof (cases e)
  case (Appeared ob)
  then have "v (ao_key ob) = None" "w = v(ao_key ob \<mapsto> ob)" using assms by (auto split: if_splits)
  then show ?thesis by (auto simp: Appeared known_view_None known_view_upd ao_key_def)
next
  case (Updated ob)
  then have "v (ao_key ob) \<noteq> None" "w = v(ao_key ob \<mapsto> ob)" using assms by (auto split: if_splits)
  then show ?thesis
    using known_view_None [of domain v "ap_peer_id (ao_peer ob)"]
    by (auto simp: Updated known_view_upd ao_key_def)
next
  case (Disappeared p d r)
  then have "v (p, d) \<noteq> None" "w = v((p, d) := None)" using assms by (auto split: if_splits)
  then show ?thesis
    using known_view_None [of domain v p] by (auto simp: Disappeared known_view_upd)
qed (use assms in simp)

lemma known_events_replay:
  assumes "replay es v = Some w" "list_all still_running es"
  shows "replay_known (known_events domain (map Received es)) (known_view domain v) = Some (known_view domain w)"
  using assms
proof (induction es arbitrary: v)
  case Nil
  then show ?case by (simp add: known_events.simps)
next
  case (Cons e es)
  obtain v1 where v1: "apply_event e v = Some v1" "replay es v1 = Some w"
    using Cons.prems(1) by (auto simp: bind_eq_Some_conv)
  have ih: "replay_known (known_events domain (map Received es)) (known_view domain v1) = Some (known_view domain w)"
    using Cons.IH [OF v1(2)] Cons.prems(2) by simp
  then show ?case
    using known_of_apply [OF v1(1), of domain] Cons.prems(2)
    by (simp add: known_events_Cons split: option.splits)
qed

text \<open>A call of \<open>recv\<close> takes one turn after the other, until one has a result.\<close>

lemma known_recv_step:
  "known_recv domain (turn # turns) =
     (case fst (known_recv domain [turn]) of None \<Rightarrow> known_recv domain turns | Some r \<Rightarrow> (Some r, turns))"
  by (induction domain "[turn]" rule: known_recv.induct) auto

section \<open>A subscriber that may lag\<close>

text \<open>
  A subscriber of one Domain beside the node and the channel. A transition of the node changes the state
  first (\<open>kf_node\<close>) and sends its events afterwards, one by one (\<open>kf_pending\<close>), under the transition lock;
  \<open>kf_sent\<close> are the events sent since the subscription and \<open>kf_pos\<close> how many of them the receiver has
  passed. What the channel offers is what \<open>tokio\<close> documents of a broadcast receiver: the next event, or
  a lag by \<open>n\<close> events, which are then skipped, or the end once all has been received. The subscriber
  keeps the known peers it has read and applies the events to them, an appearance or an update by
  storing the peer and a disappearance by removing it; after a lag it has none until it reads a fresh
  snapshot. Nothing orders the subscription, the snapshot and the sending of events.
\<close>

type_synonym known_map = "peer_id \<Rightarrow> auki_known_peer option"

record known_follower =
  kf_node :: observation_state
  kf_pending :: "node_observation_event list"
  kf_sent :: "node_observation_event list"
  kf_pos :: nat
  kf_cancelled :: bool
  kf_view :: "known_map option"

fun follow_known :: "auki_known_peer_event \<Rightarrow> known_map \<Rightarrow> known_map" where
  "follow_known (KnownAppeared kp) v = v(kp_peer_id kp \<mapsto> kp)"
| "follow_known (KnownUpdated kp) v = v(kp_peer_id kp \<mapsto> kp)"
| "follow_known (KnownDisappeared p r) v = v(p := None)"

definition known_index :: "auki_known_peer list \<Rightarrow> known_map" where
  "known_index kps = map_of (map (\<lambda>kp. (kp_peer_id kp, kp)) kps)"

definition follower_offers :: "known_follower \<Rightarrow> recv_turn \<Rightarrow> bool" where
  "follower_offers f turn \<longleftrightarrow> (case turn of
       CancelledTurn \<Rightarrow> kf_cancelled f
     | Received e \<Rightarrow> \<not> kf_cancelled f \<and> kf_pos f < length (kf_sent f) \<and> e = kf_sent f ! kf_pos f
     | LaggedTurn n \<Rightarrow> \<not> kf_cancelled f \<and> kf_pos f + unat n \<le> length (kf_sent f)
     | ClosedTurn \<Rightarrow> \<not> kf_cancelled f \<and> kf_pos f = length (kf_sent f))"

definition turn_passes :: "recv_turn \<Rightarrow> nat" where
  "turn_passes turn = (case turn of Received _ \<Rightarrow> 1 | LaggedTurn n \<Rightarrow> unat n | _ \<Rightarrow> 0)"

definition follower_heard :: "(auki_known_peer_recv_error, auki_known_peer_event) result option \<Rightarrow> known_map option \<Rightarrow> known_map option" where
  "follower_heard r view = (case r of
       Some (Inr e) \<Rightarrow> map_option (follow_known e) view
     | Some (Inl (LaggedBy n)) \<Rightarrow> None
     | _ \<Rightarrow> view)"

inductive follows :: "addr_codec \<Rightarrow> uuid \<Rightarrow> known_follower \<Rightarrow> bool" for C domain where
  follow_subscribed: "run_ops observe ops observations_new = (node, gone @ pending) \<Longrightarrow>
    follows C domain \<lparr>kf_node = node, kf_pending = pending, kf_sent = [], kf_pos = 0, kf_cancelled = False, kf_view = None\<rparr>"
| follow_transition: "follows C domain f \<Longrightarrow> kf_pending f = [] \<Longrightarrow> observe op (kf_node f) = (node, events) \<Longrightarrow>
    follows C domain (f\<lparr>kf_node := node, kf_pending := events\<rparr>)"
| follow_sent: "follows C domain f \<Longrightarrow> kf_pending f = e # es \<Longrightarrow>
    follows C domain (f\<lparr>kf_pending := es, kf_sent := kf_sent f @ [e]\<rparr>)"
| follow_snapshot: "follows C domain f \<Longrightarrow>
    follows C domain (f\<lparr>kf_view := Some (known_index
      (known_peers_snapshot C domain (\<not> kf_cancelled f) (observation_snapshot (kf_node f))))\<rparr>)"
| follow_polled: "follows C domain f \<Longrightarrow> follower_offers f turn \<Longrightarrow>
    follows C domain (f\<lparr>kf_pos := kf_pos f + turn_passes turn,
      kf_view := follower_heard (fst (known_recv domain [turn])) (kf_view f)\<rparr>)"
| follow_cancelled: "follows C domain f \<Longrightarrow> follows C domain (f\<lparr>kf_cancelled := True\<rparr>)"

text \<open>Applying events twice is applying them once: for every peer the last event about it counts.\<close>

fun known_entry :: "auki_known_peer_event \<Rightarrow> peer_id \<times> auki_known_peer option" where
  "known_entry (KnownAppeared kp) = (kp_peer_id kp, Some kp)"
| "known_entry (KnownUpdated kp) = (kp_peer_id kp, Some kp)"
| "known_entry (KnownDisappeared p r) = (p, None)"

lemma follow_entry: "follow_known k v = v(fst (known_entry k) := snd (known_entry k))"
  by (cases k) simp_all

lemma follow_last: "fold follow_known ks v p = (case map_of (rev (map known_entry ks)) p of None \<Rightarrow> v p | Some x \<Rightarrow> x)"
  by (induction ks arbitrary: v) (auto simp: follow_entry map_add_def split: option.splits prod.splits)

lemma follow_again: "fold follow_known ks (fold follow_known ks v) = fold follow_known ks v"
  by (simp add: fun_eq_iff follow_last split: option.splits)

lemma apply_known_follows: "apply_known k v = Some w \<Longrightarrow> follow_known k v = w"
  by (cases k) (auto split: if_splits)

abbreviation known_from :: "uuid \<Rightarrow> node_observation_event list \<Rightarrow> auki_known_peer_event list" where
  "known_from domain es \<equiv> List.map_filter (known_of domain) es"

lemma follow_replay:
  "replay es v = Some w \<Longrightarrow> fold follow_known (known_from domain es) (known_view domain v) = known_view domain w"
proof (induction es arbitrary: v)
  case (Cons e es)
  then obtain v1 where v1: "apply_event e v = Some v1" "replay es v1 = Some w"
    by (auto simp: bind_eq_Some_conv)
  then show ?case
    using known_of_apply[OF v1(1), of domain] Cons.IH[OF v1(2)]
    by (auto simp: List.map_filter_simps dest!: apply_known_follows split: option.splits)
qed (simp add: List.map_filter_simps)

lemma known_recv_poll: "fst (known_recv domain [Received e]) = (if still_running e then map_option Inr (known_of domain e) else Some (Inl RecvClosed))"
  by (cases e) (auto simp: still_running_def)

text \<open>The known peers of a snapshot are the observations of the Domain.\<close>

lemma map_of_graph:
  assumes "\<And>k x. (k, x) \<in> set xs \<longleftrightarrow> f k = Some x"
  shows "map_of xs = f"
proof
  fix k
  show "map_of xs k = f k"
  proof (cases "map_of xs k")
    case None
    then have "(k, x) \<notin> set xs" for x by (force simp: map_of_eq_None_iff)
    then show ?thesis using None assms by (cases "f k") auto
  next
    case (Some x)
    then show ?thesis using assms map_of_SomeD by metis
  qed
qed

lemma known_snapshot_view:
  assumes "obs_inv s"
  shows "set (known_peers_snapshot C domain True (observation_snapshot s)) = ran (known_view domain (state_view s))" (is ?set)
    and "known_index (known_peers_snapshot C domain True (observation_snapshot s)) = known_view domain (state_view s)" (is ?index)
proof -
  have key: "ao_domain_id ob = d" "ap_peer_id (ao_peer ob) = p" if "observation s p d = Some ob" for p d ob
    using observation_key[OF assms that] by (simp_all add: ao_key_def)
  show set: ?set
    using key(1) by (force simp: known_peers_snapshot_def observation_snapshot_def current_peers_iff ran_def
        known_view_def state_view_def)
  have "kp_peer_id kp = p" if "known_view domain (state_view s) p = Some kp" for p kp
    using that key(2) by (auto simp: known_view_def state_view_def)
  with set show ?index
    unfolding known_index_def by (intro map_of_graph) (auto simp: set_eq_iff ran_def)
qed

lemma observe_told: "obs_inv s \<Longrightarrow> observe op s = (s', evs) \<Longrightarrow> obs_inv s' \<and> replay evs (state_view s) = Some (state_view s')"
  using told_observe[of s op] by (simp add: told_def)

lemma replay_drop:
  assumes "replay es v = Some w"
  shows "\<exists>v'. replay (drop n es) v' = Some w"
proof -
  from assms have "Option.bind (replay (take n es) v) (replay (drop n es)) = Some w"
    by (simp flip: replay_append)
  then show ?thesis by (auto simp: bind_eq_Some_conv)
qed

text \<open>The events that the subscriber has not passed lead from what it knows to the state of the node.\<close>

definition follower_unread :: "known_follower \<Rightarrow> node_observation_event list" where
  "follower_unread f = drop (kf_pos f) (kf_sent f @ kf_pending f)"

definition in_step :: "uuid \<Rightarrow> known_follower \<Rightarrow> bool" where
  "in_step domain f \<longleftrightarrow> obs_inv (kf_node f) \<and> kf_pos f \<le> length (kf_sent f) \<and>
     (\<exists>v. replay (follower_unread f) v = Some (state_view (kf_node f))) \<and>
     (\<not> kf_cancelled f \<longrightarrow> (\<forall>v. kf_view f = Some v \<longrightarrow>
       fold follow_known (known_from domain (follower_unread f)) v = known_view domain (state_view (kf_node f))))"

lemma follower_unread_view [simp]: "follower_unread (f\<lparr>kf_view := x\<rparr>) = follower_unread f"
  by (simp add: follower_unread_def)

lemma map_filter_append: "List.map_filter g (xs @ ys) = List.map_filter g xs @ List.map_filter g ys"
  by (simp add: List.map_filter_def)

lemma in_step_transition:
  assumes "in_step domain f" "kf_pending f = []" "observe op (kf_node f) = (node, events)"
  shows "in_step domain (f\<lparr>kf_node := node, kf_pending := events\<rparr>)"
proof -
  have node: "obs_inv node" "replay events (state_view (kf_node f)) = Some (state_view node)"
    using assms observe_told by (auto simp: in_step_def)
  have "follower_unread (f\<lparr>kf_node := node, kf_pending := events\<rparr>) = follower_unread f @ events"
    using assms(1,2) by (simp add: follower_unread_def in_step_def)
  moreover obtain v where "replay (follower_unread f) v = Some (state_view (kf_node f))"
    using assms(1) by (auto simp: in_step_def)
  then have "replay (follower_unread f @ events) v = Some (state_view node)"
    using node(2) by (simp add: replay_append_Some)
  moreover have "fold follow_known (known_from domain events) (known_view domain (state_view (kf_node f))) = known_view domain (state_view node)"
    using node(2) by (rule follow_replay)
  ultimately show ?thesis
    using assms(1) node(1) by (auto simp: in_step_def map_filter_append)
qed

lemma in_step_snapshot:
  assumes "in_step domain f"
  shows "in_step domain (f\<lparr>kf_view := Some (known_index
    (known_peers_snapshot C domain (\<not> kf_cancelled f) (observation_snapshot (kf_node f))))\<rparr>)"
proof -
  let ?now = "known_view domain (state_view (kf_node f))"
  obtain v where "replay (follower_unread f) v = Some (state_view (kf_node f))"
    using assms by (auto simp: in_step_def)
  from follow_replay[OF this, of domain] have "fold follow_known (known_from domain (follower_unread f)) ?now = ?now"
    by (metis follow_again)
  with assms show ?thesis
    by (simp add: in_step_def known_snapshot_view(2))
qed

lemma in_step_polled:
  assumes "in_step domain f" "follower_offers f turn"
  shows "in_step domain (f\<lparr>kf_pos := kf_pos f + turn_passes turn, kf_view := follower_heard (fst (known_recv domain [turn])) (kf_view f)\<rparr>)"
    (is "in_step domain ?f")
proof -
  have pos: "kf_pos ?f \<le> length (kf_sent f)"
    using assms by (auto simp: in_step_def follower_offers_def turn_passes_def split: recv_turn.splits)
  have follower_unread: "follower_unread ?f = drop (turn_passes turn) (follower_unread f)"
    by (simp add: follower_unread_def add.commute del: drop_append)
  have rest: "\<exists>v. replay (follower_unread ?f) v = Some (state_view (kf_node f))"
    using assms(1) replay_drop unfolding follower_unread in_step_def by blast
  have "fold follow_known (known_from domain (follower_unread ?f)) v = known_view domain (state_view (kf_node f))"
    if v: "\<not> kf_cancelled f" "kf_view ?f = Some v" for v
  proof (cases turn)
    case (Received e)
    then have "follower_unread f = e # follower_unread ?f"
      using assms(2) Cons_nth_drop_Suc[of "kf_pos f" "kf_sent f @ kf_pending f"]
      by (simp add: follower_offers_def turn_passes_def follower_unread_def nth_append)
    with v assms(1) Received show ?thesis
      by (cases "known_of domain e")
        (auto simp: in_step_def follower_heard_def known_recv_poll List.map_filter_simps still_running_def split: if_splits option.splits)
  qed (use assms v follower_unread in \<open>simp_all add: in_step_def follower_heard_def follower_offers_def turn_passes_def\<close>)
  with assms(1) pos rest show ?thesis by (simp add: in_step_def)
qed

lemma follows_in_step: "follows C domain f \<Longrightarrow> in_step domain f"
proof (induction rule: follows.induct)
  case (follow_subscribed ops node gone pending)
  then show ?case
    using obs_events.run_ops_told[OF observations_new_inv, of ops]
    by (auto simp: in_step_def follower_unread_def replay_append bind_eq_Some_conv)
next
  case (follow_sent f e es)
  then show ?case by (auto simp: in_step_def follower_unread_def)
next
  case (follow_cancelled f)
  then show ?case by (auto simp: in_step_def follower_unread_def)
qed (auto intro: in_step_transition in_step_snapshot in_step_polled)

section \<open>Properties\<close>

lemma current_peers_ran: "set (current_peers s) = ran (state_view s)"
  by (simp add: set_eq_iff current_peers_iff ran_def state_view_def)

lemma expired_not_shown:
  assumes "obs_inv s" "ob \<in> set (current_peers (fst (expire_inner now s)))"
  shows "now < ap_verified_until (ao_peer ob) \<and> ao_connection_ids ob \<noteq> []"
proof -
  obtain s' evs where p: "prune_expired now s = (s', evs)" by fastforce
  obtain q d where "observation s' q d = Some ob"
    using assms(2) p by (auto simp: expire_inner_def current_peers_iff)
  then obtain peer cs where "map_of (o_authentications s') (q, d) = Some peer" "cs \<noteq> []"
      "ob = \<lparr>ao_domain_id = d, ao_peer = peer, ao_connection_ids = cs\<rparr>"
    by (auto simp: observation_Some)
  then show ?thesis
    using prune_expired_ok(5) [OF assms(1) p, of "(q, d)"] by (auto split: option.splits if_splits)
qed

text \<open>
  C31: The events are a complete and legal account of the observations. Take any sequence of
  connections, closures, authentications, expirations and terminations, and a subscriber that
  reads a snapshot between any two of them. Every event of a later one fits what the subscriber knows (a peer
  appears only when absent, is updated or disappears only when present), and replaying all of them
  gives exactly the observations of the current state, which are the peers of a fresh snapshot.
  A snapshot never shows a peer whose credential has expired or that has no live connection.
\<close>

theorem observation_events_rebuild_snapshot:
  "let s1 = fst (run_ops observe ops1 observations_new); s2 = fst (run_ops observe ops2 s1) in
     replay (snd (run_ops observe ops2 s1)) (state_view s1) = Some (state_view s2) \<and>
     set (os_peers (observation_snapshot s2)) = ran (state_view s2) \<and>
     list_all (\<lambda>ob. now < ap_verified_until (ao_peer ob) \<and> ao_connection_ids ob \<noteq> [])
       (os_peers (observation_snapshot (fst (expire_inner now s2))))"
proof -
  define s1 where "s1 = fst (run_ops observe ops1 observations_new)"
  have "obs_inv s1"
    using obs_events.run_ops_told [OF observations_new_inv] by (simp add: s1_def)
  from obs_events.run_ops_told [OF this, of ops2] show ?thesis
    using expired_not_shown
    by (auto simp: s1_def [symmetric] Let_def observation_snapshot_def current_peers_ran list_all_iff)
qed

text \<open>
  C32: The exact-Domain view of the SDK is a faithful projection, also for a subscriber that lags. Take
  any interleaving of the node's transitions, the sending of their events, and a subscriber of one
  Domain that reads a snapshot at any time after its subscription, applies the events \<open>recv\<close> returns,
  and reads a fresh snapshot after a reported lag, however many events the channel has dropped. Whenever
  its context has not been cancelled, it has passed all events sent, and no transition is still sending,
  what it holds is exactly the known peers of a fresh snapshot, which are the observed peers of that
  Domain and no others. And if all events of a running node are received from a snapshot on that is
  taken while none is in flight, then every event also fits: a peer appears only when it is not held,
  and is updated or disappears only when it is.
\<close>

theorem known_peers_follow_domain:
  assumes "follows C domain f" "run_ops observe ops (kf_node f) = (node, events)"
  shows "(\<not> kf_cancelled f \<longrightarrow> kf_pos f = length (kf_sent f) \<longrightarrow> kf_pending f = [] \<longrightarrow> kf_view f = Some v \<longrightarrow>
      v = known_index (known_peers_snapshot C domain True (observation_snapshot (kf_node f)))) \<and>
    set (known_peers_snapshot C domain True (observation_snapshot (kf_node f))) = ran (known_view domain (state_view (kf_node f))) \<and>
    (list_all still_running events \<longrightarrow>
      replay_known (known_events domain (map Received events))
        (known_index (known_peers_snapshot C domain True (observation_snapshot (kf_node f)))) =
      Some (known_index (known_peers_snapshot C domain True (observation_snapshot node))))"
proof -
  have f: "in_step domain f" using assms(1) by (rule follows_in_step)
  then have inv: "obs_inv (kf_node f)" by (simp add: in_step_def)
  then have "obs_inv node" "replay events (state_view (kf_node f)) = Some (state_view node)"
    using obs_events.run_ops_told[OF inv, of ops] assms(2) by simp_all
  moreover have "v = known_view domain (state_view (kf_node f))"
    if "\<not> kf_cancelled f" "kf_pos f = length (kf_sent f)" "kf_pending f = []" "kf_view f = Some v"
  proof -
    have "follower_unread f = []" using that(2,3) by (simp add: follower_unread_def)
    then show ?thesis using f that(1,4) by (simp add: in_step_def List.map_filter_simps)
  qed
  ultimately show ?thesis
    using known_events_replay[of events "state_view (kf_node f)" "state_view node" domain]
    by (simp add: known_snapshot_view inv)
qed

lemmas observe_eval = observations_new_def connection_established_def connection_closed_def
  authenticated_def prune_expired_def expired_keys_def has_connection_def observations_for_peer_def
  observation_def hm_insert_def hm_remove_def hm_contains_def bump_deadline_revision_def
  insort_insert_key_def List.map_filter_def Let_def

definition sample_ops :: "observation_op list" where
  "sample_ops = [Established (PeerId ''Q'') 1 0, Authenticated 7 (sample_authenticated (CHR ''Q'')) 0]"

lemma sample_observe:
  "run_ops observe sample_ops observations_new =
     (\<lparr>o_status = Running, o_connections = [(PeerId ''Q'', [1])],
        o_authentications = [((PeerId ''Q'', 7), sample_authenticated (CHR ''Q''))], o_deadline_revision = 1\<rparr>,
      [Appeared \<lparr>ao_domain_id = 7, ao_peer = sample_authenticated (CHR ''Q''), ao_connection_ids = [1]\<rparr>])"
proof -
  have q: "ap_peer_id (sample_authenticated (CHR ''Q'')) = PeerId ''Q''"
    "\<not> ap_verified_until (sample_authenticated (CHR ''Q'')) \<le> 0"
    by (simp_all add: sample_authenticated_def token_consts)
  show ?thesis by (simp add: sample_ops_def observe_eval q)
qed

text \<open>A subscriber that reads a snapshot while the event of what it sees is still to be sent.\<close>

definition sample_follower :: known_follower where
  "sample_follower = \<lparr>kf_node = fst (run_ops observe sample_ops observations_new), kf_pending = [],
     kf_sent = snd (run_ops observe sample_ops observations_new), kf_pos = 1, kf_cancelled = False,
     kf_view = Some [PeerId ''Q'' \<mapsto> project \<lparr>ao_domain_id = 7, ao_peer = sample_authenticated (CHR ''Q''), ao_connection_ids = [1]\<rparr>]\<rparr>"

lemma sample_follows: "follows ref_codec 7 sample_follower"
proof -
  let ?node = "fst (run_ops observe sample_ops observations_new)" and ?events = "snd (run_ops observe sample_ops observations_new)"
  let ?f = "\<lparr>kf_node = ?node, kf_pending = ?events, kf_sent = [], kf_pos = 0, kf_cancelled = False, kf_view = None\<rparr>"
  have f: "follows ref_codec 7 ?f"
    by (rule follow_subscribed[where gone = "[]"]) simp
  have q: "ap_peer_id (sample_authenticated (CHR ''Q'')) = PeerId ''Q''" by (simp add: sample_authenticated_def)
  have event: "?events = [Appeared \<lparr>ao_domain_id = 7, ao_peer = sample_authenticated (CHR ''Q''), ao_connection_ids = [1]\<rparr>]"
    by (simp add: sample_observe)
  let ?seen = "known_index (known_peers_snapshot ref_codec 7 True (observation_snapshot ?node))"
  have "?seen = [PeerId ''Q'' \<mapsto> project \<lparr>ao_domain_id = 7, ao_peer = sample_authenticated (CHR ''Q''), ao_connection_ids = [1]\<rparr>]"
    unfolding sample_observe
    by (simp add: known_index_def known_peers_snapshot_def observation_snapshot_def current_peers_def observation_def List.map_filter_def q)
  with follow_polled[OF follow_sent[OF follow_snapshot[OF f], simplified, OF event], of "Received (hd ?events)"] event show ?thesis
    by (simp add: sample_follower_def follower_offers_def turn_passes_def follower_heard_def q)
qed

lemma sample_disappears:
  "run_ops observe [Closed (PeerId ''Q'') 1 0] (kf_node sample_follower) =
     (\<lparr>o_status = Running, o_connections = [], o_authentications = [], o_deadline_revision = 2\<rparr>,
      [Disappeared (PeerId ''Q'') 7 FinalConnectionClosed])"
  unfolding sample_follower_def sample_observe
  by (simp add: observe_eval sample_authenticated_def token_consts remove_authentications_for_peer_def)

theorem known_peers_follow_domain_witness:
  "kf_view sample_follower = Some (known_index (known_peers_snapshot ref_codec 7 True (observation_snapshot (kf_node sample_follower)))) \<and>
    (\<exists>gone. replay_known (known_events 7 [Received (Disappeared (PeerId ''Q'') 7 FinalConnectionClosed)])
      (known_index (known_peers_snapshot ref_codec 7 True (observation_snapshot (kf_node sample_follower)))) = Some gone)"
proof -
  note known_peers_follow_domain[OF sample_follows sample_disappears]
  moreover have "kf_pos sample_follower = length (kf_sent sample_follower)" "kf_pending sample_follower = []"
    "\<not> kf_cancelled sample_follower" "\<exists>v. kf_view sample_follower = Some v"
    by (simp_all add: sample_follower_def sample_observe)
  ultimately show ?thesis by (auto simp: still_running_def)
qed

end
