(* ===== verification/Relay_Booking.thy ===== *)
theory Relay_Booking
  imports Token
begin

text \<open>
  The client of the relay-booking endpoints (\<open>core/auki-relay-booking/src/lib.rs\<close>): its wire
  types, the validation of bookings and of error responses, the authenticated request loop
  and the five operations. Durations are nanoseconds. The HTTP status is its number, with the
  classes of RFC 9110. An operation is a function of the client's environment, so that a call
  also returns the requests and the credential refreshes it performed, in order.
\<close>

section \<open>Wire types\<close>

type_synonym u8 = "8 word"

definition from_secs :: "u64 \<Rightarrow> nat" where
  "from_secs s = unat s * 1000000000"

definition MAX_RELAY_RESPONSE_BYTES :: nat where
  "MAX_RELAY_RESPONSE_BYTES = 64 * 1024"

definition MAX_IDEMPOTENCY_KEY_BYTES :: nat where
  "MAX_IDEMPOTENCY_KEY_BYTES = 128"

definition MIN_BOOKING_DURATION_SECONDS :: u64 where
  "MIN_BOOKING_DURATION_SECONDS = 300"

definition MAX_BOOKING_DURATION_SECONDS :: u64 where
  "MAX_BOOKING_DURATION_SECONDS = 86400"

definition MIN_RELAY_COUNT :: u8 where
  "MIN_RELAY_COUNT = 1"

definition MAX_RELAY_COUNT :: u8 where
  "MAX_RELAY_COUNT = 3"

definition MAX_RETRY_AFTER_SECONDS :: u64 where
  "MAX_RETRY_AFTER_SECONDS = 300"

lemmas booking_consts = MAX_RELAY_RESPONSE_BYTES_def MAX_IDEMPOTENCY_KEY_BYTES_def
  MIN_BOOKING_DURATION_SECONDS_def MAX_BOOKING_DURATION_SECONDS_def MIN_RELAY_COUNT_def
  MAX_RELAY_COUNT_def MAX_RETRY_AFTER_SECONDS_def

datatype relay_booking_mode = Public | Dedicated

datatype reservation_failure_reason =
  DialFailure | ReservationDenied | AddressMismatch | LimitMismatchFailure | ReservationLost

datatype relay_booking_state = ActiveBooking | CanceledBooking | ExpiredBooking | FailedBooking

datatype relay_slot_state = Queued | Starting | Ready | Recovering | Reassigning | Ended

record relay_limits =
  rl_duration_seconds :: u32
  rl_data_bytes_per_direction :: u64

record relay_slot_snapshot =
  ss_slot_id :: uuid
  ss_slot_index :: u8
  ss_state :: relay_slot_state
  ss_assignment_id :: "uuid option"
  ss_reservation_epoch :: "uuid option"
  ss_provider_peer_id :: "string option"
  ss_provider_base_addresses :: "string list option"
  ss_limits :: "relay_limits option"
  ss_provider_lease_expires_at :: "instant option"
  ss_recovery_expires_at :: "instant option"

record relay_booking_snapshot =
  bs_booking_id :: uuid
  bs_mode :: relay_booking_mode
  bs_state :: relay_booking_state
  bs_relay_count :: u8
  bs_requested_duration_seconds :: u64
  bs_requested_until :: instant
  bs_authority_expires_at :: instant
  bs_assigned_count :: u8
  bs_provider_ready_count :: u8
  bs_unfilled_count :: u8
  bs_created_at :: instant
  bs_ended_at :: "instant option"
  bs_slots :: "relay_slot_snapshot list"

record create_relay_booking_request =
  cq_mode :: relay_booking_mode
  cq_requested_duration_seconds :: u64
  cq_relay_count :: u8

record reservation_failed_request =
  fq_slot_id :: uuid
  fq_assignment_id :: uuid
  fq_reservation_epoch :: uuid
  fq_reason :: reservation_failure_reason

datatype relay_booking_create_disposition = Created | Replayed

record create_relay_booking_response =
  cp_disposition :: relay_booking_create_disposition
  cp_location :: string
  cp_snapshot :: relay_booking_snapshot

datatype relay_error_code =
    PaymentRequired | Unauthorized | InvalidRequestCode | MissingIdempotencyKey
  | InvalidIdempotencyKeyCode | InvalidRobotPrincipal | InvalidRequesterPrincipal | Forbidden
  | NotFound | ActiveBookingConflict | IdempotencyConflict | TargetPeerConflict
  | StaleRobotPrincipal | StaleRequesterPrincipal | StaleFence | AuthorityEnded
  | OrganizationSlotQuotaExceeded | DependencyUnavailable | InternalError

record relay_error_response =
  er_code :: relay_error_code
  er_error :: string

datatype relay_operation = Active | Create | Renew | ReservationFailed | Delete

datatype relay_booking_client_error =
    InvalidConfiguration
  | InvalidRequest
  | InvalidIdempotencyKey
  | AuthenticationFailed relay_operation
  | TransportFailed relay_operation (tf_timeout: bool)
  | RequestSerialization relay_operation
  | ResponseTooLarge relay_operation
  | InvalidResponse relay_operation string
  | HttpError relay_operation (he_status: nat) (he_code: relay_error_code)
      (he_retry_after: "nat option") (he_location: "string option")
  | BookingPanic

type_synonym 'a booking_result = "(relay_booking_client_error, 'a) result"

section \<open>Error codes\<close>

fun as_str :: "relay_error_code \<Rightarrow> string" where
  "as_str PaymentRequired = ''payment_required''"
| "as_str Unauthorized = ''unauthorized''"
| "as_str InvalidRequestCode = ''invalid_request''"
| "as_str MissingIdempotencyKey = ''missing_idempotency_key''"
| "as_str InvalidIdempotencyKeyCode = ''invalid_idempotency_key''"
| "as_str InvalidRobotPrincipal = ''invalid_robot_principal''"
| "as_str InvalidRequesterPrincipal = ''invalid_requester_principal''"
| "as_str Forbidden = ''forbidden''"
| "as_str NotFound = ''not_found''"
| "as_str ActiveBookingConflict = ''active_booking_conflict''"
| "as_str IdempotencyConflict = ''idempotency_conflict''"
| "as_str TargetPeerConflict = ''target_peer_conflict''"
| "as_str StaleRobotPrincipal = ''stale_robot_principal''"
| "as_str StaleRequesterPrincipal = ''stale_requester_principal''"
| "as_str StaleFence = ''stale_fence''"
| "as_str AuthorityEnded = ''authority_ended''"
| "as_str OrganizationSlotQuotaExceeded = ''organization_slot_quota_exceeded''"
| "as_str DependencyUnavailable = ''dependency_unavailable''"
| "as_str InternalError = ''internal_error''"

definition is_invalid_requester_principal :: "relay_error_code \<Rightarrow> bool" where
  "is_invalid_requester_principal c \<longleftrightarrow> c \<in> {InvalidRobotPrincipal, InvalidRequesterPrincipal}"

definition is_stale_requester_principal :: "relay_error_code \<Rightarrow> bool" where
  "is_stale_requester_principal c \<longleftrightarrow> c \<in> {StaleRobotPrincipal, StaleRequesterPrincipal}"

definition is_success :: "nat \<Rightarrow> bool" where
  "is_success status \<longleftrightarrow> 200 \<le> status \<and> status < 300"

definition is_server_error :: "nat \<Rightarrow> bool" where
  "is_server_error status \<longleftrightarrow> 500 \<le> status \<and> status < 600"

fun is_retryable :: "relay_booking_client_error \<Rightarrow> bool" where
  "is_retryable (TransportFailed _ _) = True"
| "is_retryable (HttpError _ status _ _ _) = (status = 429 \<or> is_server_error status)"
| "is_retryable _ = False"

fun http_code :: "relay_booking_client_error \<Rightarrow> relay_error_code option" where
  "http_code (HttpError _ _ c _ _) = Some c"
| "http_code _ = None"

fun retry_after :: "relay_booking_client_error \<Rightarrow> nat option" where
  "retry_after (HttpError _ _ _ r _) = r"
| "retry_after _ = None"

text \<open>The status of each code, and the codes of each endpoint.\<close>

definition status_of_code :: "relay_error_code \<Rightarrow> nat" where
  "status_of_code c =
     (case c of PaymentRequired \<Rightarrow> 402
      | InvalidRequestCode \<Rightarrow> 400 | MissingIdempotencyKey \<Rightarrow> 400 | InvalidIdempotencyKeyCode \<Rightarrow> 400
      | Unauthorized \<Rightarrow> 401
      | InvalidRobotPrincipal \<Rightarrow> 403 | InvalidRequesterPrincipal \<Rightarrow> 403 | Forbidden \<Rightarrow> 403
      | NotFound \<Rightarrow> 404
      | ActiveBookingConflict \<Rightarrow> 409 | IdempotencyConflict \<Rightarrow> 409 | TargetPeerConflict \<Rightarrow> 409
      | StaleRobotPrincipal \<Rightarrow> 409 | StaleRequesterPrincipal \<Rightarrow> 409 | StaleFence \<Rightarrow> 409
      | AuthorityEnded \<Rightarrow> 410
      | OrganizationSlotQuotaExceeded \<Rightarrow> 429
      | DependencyUnavailable \<Rightarrow> 503
      | InternalError \<Rightarrow> 500)"

fun codes_of_operation :: "relay_operation \<Rightarrow> relay_error_code list" where
  "codes_of_operation Active =
     [Unauthorized, InvalidRobotPrincipal, InvalidRequesterPrincipal, Forbidden,
      StaleRobotPrincipal, StaleRequesterPrincipal, DependencyUnavailable, InternalError]"
| "codes_of_operation Create =
     [PaymentRequired, Unauthorized, InvalidRequestCode, MissingIdempotencyKey,
      InvalidIdempotencyKeyCode, InvalidRobotPrincipal, InvalidRequesterPrincipal, Forbidden,
      ActiveBookingConflict, IdempotencyConflict, TargetPeerConflict,
      OrganizationSlotQuotaExceeded, DependencyUnavailable, InternalError]"
| "codes_of_operation Renew =
     [PaymentRequired, Unauthorized, InvalidRequestCode, InvalidRobotPrincipal,
      InvalidRequesterPrincipal, Forbidden, NotFound, StaleRobotPrincipal,
      StaleRequesterPrincipal, AuthorityEnded, DependencyUnavailable, InternalError]"
| "codes_of_operation ReservationFailed =
     [Unauthorized, InvalidRequestCode, InvalidRobotPrincipal, InvalidRequesterPrincipal,
      Forbidden, NotFound, StaleRobotPrincipal, StaleRequesterPrincipal, AuthorityEnded,
      DependencyUnavailable, InternalError]"
| "codes_of_operation Delete =
     [Unauthorized, InvalidRequestCode, InvalidRobotPrincipal, InvalidRequesterPrincipal,
      Forbidden, NotFound, StaleRobotPrincipal, StaleRequesterPrincipal, AuthorityEnded,
      DependencyUnavailable, InternalError]"

definition validate_error_status :: "relay_operation \<Rightarrow> nat \<Rightarrow> relay_error_code \<Rightarrow> unit booking_result" where
  "validate_error_status op status code =
     (if status \<noteq> status_of_code code then
        Inl (InvalidResponse op ''relay error code does not match its HTTP status'')
      else if code \<notin> set (codes_of_operation op) then
        Inl (InvalidResponse op ''relay error code is not valid for this endpoint'')
      else Inr ())"

section \<open>Requests\<close>

definition relay_idempotency_key_new :: "string \<Rightarrow> string booking_result" where
  "relay_idempotency_key_new value =
     (if value = [] \<or> length value > MAX_IDEMPOTENCY_KEY_BYTES \<or> \<not> list_all is_ascii_graphic value
      then Inl InvalidIdempotencyKey else Inr value)"

definition validate_create :: "create_relay_booking_request \<Rightarrow> unit booking_result" where
  "validate_create rq =
     (if \<not> (MIN_BOOKING_DURATION_SECONDS \<le> cq_requested_duration_seconds rq \<and>
            cq_requested_duration_seconds rq \<le> MAX_BOOKING_DURATION_SECONDS) \<or>
         \<not> (MIN_RELAY_COUNT \<le> cq_relay_count rq \<and> cq_relay_count rq \<le> MAX_RELAY_COUNT)
      then Inl InvalidRequest else Inr ())"

definition create_relay_booking_request_new ::
  "relay_booking_mode \<Rightarrow> u64 \<Rightarrow> u8 \<Rightarrow> create_relay_booking_request booking_result"
where
  "create_relay_booking_request_new m secs n =
     (let rq = \<lparr>cq_mode = m, cq_requested_duration_seconds = secs, cq_relay_count = n\<rparr>
      in and_then (validate_create rq) (\<lambda>_. Inr rq))"

definition validate_failed :: "reservation_failed_request \<Rightarrow> unit booking_result" where
  "validate_failed rq =
     (if fq_slot_id rq = 0 \<or> fq_assignment_id rq = 0 \<or> fq_reservation_epoch rq = 0
      then Inl InvalidRequest else Inr ())"

section \<open>Validation of a booking\<close>

text \<open>The counters and sets that the loop over the slots carries.\<close>

record slot_scan =
  sc_slot_ids :: "uuid set"
  sc_provider_peer_ids :: "string set"
  sc_assigned :: nat
  sc_ready :: nat
  sc_unfilled :: nat

definition scan_start :: slot_scan where
  "scan_start = \<lparr>sc_slot_ids = {}, sc_provider_peer_ids = {}, sc_assigned = 0, sc_ready = 0, sc_unfilled = 0\<rparr>"

definition validate_deadline ::
  "relay_booking_snapshot \<Rightarrow> instant \<Rightarrow> relay_slot_snapshot \<Rightarrow> (string, unit) result"
where
  "validate_deadline b observed_at slot =
     (case ss_state slot of
        Ready \<Rightarrow> and_then (ok_or ''ready slot omitted its provider lease'' (ss_provider_lease_expires_at slot))
          (\<lambda>lease. if lease \<le> observed_at \<or> lease > bs_authority_expires_at b \<or> lease > bs_requested_until b
             then Inl ''ready slot provider lease is not usable'' else Inr ())
      | Recovering \<Rightarrow>
          and_then (ok_or ''recovering slot omitted its recovery deadline'' (ss_recovery_expires_at slot))
          (\<lambda>recovery. if ss_provider_lease_expires_at slot \<noteq> None \<or> recovery \<le> observed_at \<or>
               recovery > bs_authority_expires_at b \<or> recovery > bs_requested_until b
             then Inl ''recovering slot deadlines are invalid'' else Inr ())
      | _ \<Rightarrow> Inr ())"

definition filter_option :: "('a \<Rightarrow> bool) \<Rightarrow> 'a option \<Rightarrow> 'a option" where
  "filter_option P x = (case x of None \<Rightarrow> None | Some v \<Rightarrow> if P v then Some v else None)"

text \<open>A slot with a provider: its metadata, and the set of the providers seen so far.\<close>

definition validate_provider ::
  "relay_booking_snapshot \<Rightarrow> instant \<Rightarrow> relay_slot_snapshot \<Rightarrow> string set \<Rightarrow> (string, string set) result"
where
  "validate_provider b observed_at slot peers =
     and_then (ok_or ''ready slot omitted its provider Peer ID''
         (filter_option (\<lambda>p. \<not> trims_to_empty p) (ss_provider_peer_id slot))) (\<lambda>peer.
     if peer \<in> peers then Inl ''ready providers are not distinct'' else
     and_then (ok_or ''ready slot omitted provider base addresses''
         (filter_option (\<lambda>bases. bases \<noteq> []) (ss_provider_base_addresses slot))) (\<lambda>bases.
     if length (remdups bases) \<noteq> length bases \<or> list_ex trims_to_empty bases
     then Inl ''ready slot provider bases are empty or duplicated'' else
     and_then (ok_or ''ready slot omitted finite limits'' (ss_limits slot)) (\<lambda>limits.
     if rl_duration_seconds limits = 0 \<or> rl_data_bytes_per_direction limits = 0 \<or>
        rl_data_bytes_per_direction limits > 0x7FFFFFFFFFFFFFFF
     then Inl ''ready slot limits are not finite and positive'' else
     if ss_assignment_id slot = None then Inl ''ready slot omitted assignment fences'' else
     and_then (validate_deadline b observed_at slot) (\<lambda>_. Inr (insert peer peers)))))"

definition validate_slot ::
  "relay_booking_snapshot \<Rightarrow> instant \<Rightarrow> nat \<Rightarrow> relay_slot_snapshot \<Rightarrow> slot_scan \<Rightarrow> (string, slot_scan) result"
where
  "validate_slot b observed_at expected_index slot sc =
     (if ss_slot_id slot = 0 \<or> unat (ss_slot_index slot) \<noteq> expected_index \<or> ss_slot_id slot \<in> sc_slot_ids sc
      then Inl ''slot IDs and sorted indexes are invalid''
      else if (ss_assignment_id slot \<noteq> None) \<noteq> (ss_reservation_epoch slot \<noteq> None) \<or>
         ss_assignment_id slot = Some 0 \<or> ss_reservation_epoch slot = Some 0
      then Inl ''slot assignment fences are incomplete or invalid''
      else
        let sc = sc\<lparr>sc_slot_ids := insert (ss_slot_id slot) (sc_slot_ids sc),
              sc_assigned := sc_assigned sc + of_bool (ss_assignment_id slot \<noteq> None),
              sc_ready := sc_ready sc + of_bool (ss_state slot = Ready),
              sc_unfilled := sc_unfilled sc + of_bool (ss_state slot \<in> {Queued, Reassigning})\<rparr>
        in if ss_state slot \<in> {Ready, Recovering} then
             and_then (validate_provider b observed_at slot (sc_provider_peer_ids sc))
               (\<lambda>peers. Inr (sc\<lparr>sc_provider_peer_ids := peers\<rparr>))
           else if ss_provider_peer_id slot \<noteq> None \<or> ss_provider_base_addresses slot \<noteq> None \<or>
              ss_limits slot \<noteq> None
           then Inl ''non-ready slot exposed provider routing metadata''
           else Inr sc)"

fun validate_slots ::
  "relay_booking_snapshot \<Rightarrow> instant \<Rightarrow> nat \<Rightarrow> relay_slot_snapshot list \<Rightarrow> slot_scan \<Rightarrow> (string, slot_scan) result"
where
  "validate_slots b observed_at i [] sc = Inr sc"
| "validate_slots b observed_at i (slot # slots) sc =
     and_then (validate_slot b observed_at i slot sc) (validate_slots b observed_at (i + 1) slots)"

definition validate_state :: "relay_booking_snapshot \<Rightarrow> instant \<Rightarrow> (string, unit) result" where
  "validate_state b observed_at =
     (case bs_state b of
        ActiveBooking \<Rightarrow>
          if bs_ended_at b \<noteq> None then Inl ''active booking carries an end time''
          else if bs_requested_until b \<le> observed_at \<or> bs_authority_expires_at b \<le> observed_at
          then Inl ''active booking authority is not in the future''
          else Inr ()
      | _ \<Rightarrow>
          if (case bs_ended_at b of None \<Rightarrow> True | Some ended \<Rightarrow> ended < bs_created_at b)
          then Inl ''terminal booking has an invalid end time'' else Inr ())"

definition validate_booking :: "relay_operation \<Rightarrow> instant \<Rightarrow> relay_booking_snapshot \<Rightarrow> unit booking_result" where
  "validate_booking op observed_at b = map_err (InvalidResponse op)
     (if bs_booking_id b = 0 \<or>
         \<not> (MIN_RELAY_COUNT \<le> bs_relay_count b \<and> bs_relay_count b \<le> MAX_RELAY_COUNT) \<or>
         \<not> (MIN_BOOKING_DURATION_SECONDS \<le> bs_requested_duration_seconds b \<and>
            bs_requested_duration_seconds b \<le> MAX_BOOKING_DURATION_SECONDS) \<or>
         length (bs_slots b) \<noteq> unat (bs_relay_count b)
      then Inl ''booking identity, policy, or slot count is invalid''
      else if bs_requested_until b \<le> bs_created_at b \<or> bs_authority_expires_at b \<le> bs_created_at b \<or>
         bs_authority_expires_at b > bs_requested_until b
      then Inl ''booking deadlines are inconsistent''
      else and_then (validate_state b observed_at) (\<lambda>_.
        and_then (validate_slots b observed_at 0 (bs_slots b) scan_start) (\<lambda>sc.
          if sc_assigned sc \<noteq> unat (bs_assigned_count b) \<or> sc_ready sc \<noteq> unat (bs_provider_ready_count b) \<or>
             sc_unfilled sc \<noteq> unat (bs_unfilled_count b) \<or> bs_assigned_count b > bs_relay_count b \<or>
             bs_provider_ready_count b > bs_relay_count b \<or> bs_unfilled_count b > bs_relay_count b
          then Inl ''booking summary counts do not match its slots'' else Inr ())))"

section \<open>The environment of the client\<close>

text \<open>
  Third-party code as parameters: URLs (\<open>url\<close>), UUID text, header values and JSON. The world of
  one call answers, per attempt of the request loop: the credential the authorization provider
  hands out, what becomes of a request (\<open>Inl\<close>: a transport failure and whether it is a timeout),
  and the refresh of a rejected revision. \<open>w_now\<close> is the clock reading of the validation.
\<close>

record 'u url_lib =
  url_cannot_be_a_base :: "'u \<Rightarrow> bool"
  url_scheme :: "'u \<Rightarrow> string"
  url_host_str :: "'u \<Rightarrow> string option"
  url_username :: "'u \<Rightarrow> string"
  url_password :: "'u \<Rightarrow> string option"
  url_query :: "'u \<Rightarrow> string option"
  url_fragment :: "'u \<Rightarrow> string option"
  url_path :: "'u \<Rightarrow> string"
  url_pop_if_empty_extend :: "'u \<Rightarrow> string list \<Rightarrow> 'u option"

record booking_codec =
  bk_uuid_to_string :: "uuid \<Rightarrow> string"
  hv_to_str :: "header_value \<Rightarrow> string option"
  hv_from_str :: "string \<Rightarrow> header_value option"
  json_of_create :: "create_relay_booking_request \<Rightarrow> string option"
  json_of_failed :: "reservation_failed_request \<Rightarrow> string option"
  json_snapshot :: "string \<Rightarrow> relay_booking_snapshot option"
  json_error :: "string \<Rightarrow> relay_error_response option"

datatype http_method = GET | POST | DELETE

definition RELAY_HTTP_REQUEST_TIMEOUT :: nat where
  "RELAY_HTTP_REQUEST_TIMEOUT = from_secs 10"

record 'u http_request =
  hq_method :: http_method
  hq_url :: 'u
  hq_timeout :: nat
  hq_authorization :: header_value
  hq_idempotency_key :: "header_value option"
  hq_body :: "string option"

record 'u http_response =
  hs_url :: 'u
  hs_status :: nat
  hs_headers :: "(string \<times> header_value) list"
  hs_content_length :: "u64 option"
  hs_chunks :: "(bool, string) result list"

record relay_authorization_snapshot =
  au_header :: header_value
  au_revision :: u64

record 'u booking_world =
  w_authorization :: "nat \<Rightarrow> (unit, relay_authorization_snapshot) result"
  w_send :: "nat \<Rightarrow> 'u http_request \<Rightarrow> (bool, 'u http_response) result"
  w_refresh :: "nat \<Rightarrow> u64 \<Rightarrow> (unit, unit) result"
  w_now :: instant

datatype 'u booking_action = Sent "'u http_request" | RefreshAfterUnauthorized u64

type_synonym ('u, 'a) booking_call = "'a booking_result \<times> 'u booking_action list"

section \<open>Responses\<close>

record raw_response =
  rw_status :: nat
  rw_headers :: "(string \<times> header_value) list"
  rw_body :: string

definition get_all :: "string \<Rightarrow> (string \<times> header_value) list \<Rightarrow> header_value list" where
  "get_all name headers = map snd (filter (\<lambda>h. fst h = name) headers)"

definition single_header ::
  "relay_operation \<Rightarrow> (string \<times> header_value) list \<Rightarrow> string \<Rightarrow> header_value option booking_result"
where
  "single_header op headers name =
     (case get_all name headers of
        [] \<Rightarrow> Inr None
      | [v] \<Rightarrow> Inr (Some v)
      | _ \<Rightarrow> Inl (InvalidResponse op ''response repeated a singleton control header''))"

definition header_text :: "booking_codec \<Rightarrow> relay_operation \<Rightarrow> header_value \<Rightarrow> string booking_result" where
  "header_text B op value =
     ok_or (InvalidResponse op ''response control header is not visible ASCII'') (hv_to_str B value)"

definition eq_ignore_ascii_case :: "string \<Rightarrow> string \<Rightarrow> bool" where
  "eq_ignore_ascii_case a b \<longleftrightarrow> to_ascii_lowercase a = to_ascii_lowercase b"

definition require_no_store ::
  "booking_codec \<Rightarrow> relay_operation \<Rightarrow> (string \<times> header_value) list \<Rightarrow> unit booking_result"
where
  "require_no_store B op headers =
     and_then (single_header op headers ''cache-control'') (\<lambda>v.
     and_then (ok_or (InvalidResponse op ''relay response omitted Cache-Control'') v) (\<lambda>value.
     and_then (header_text B op value) (\<lambda>text.
     if \<not> eq_ignore_ascii_case text ''no-store''
     then Inl (InvalidResponse op ''relay response is not marked Cache-Control: no-store'')
     else Inr ())))"

fun read_chunks :: "relay_operation \<Rightarrow> string \<Rightarrow> (bool, string) result list \<Rightarrow> string booking_result" where
  "read_chunks op body [] = Inr body"
| "read_chunks op body (Inl timeout # _) = Inl (TransportFailed op timeout)"
| "read_chunks op body (Inr chunk # chunks) =
     (let new_length = length body + length chunk
      in if 2 ^ 64 \<le> new_length then Inl (ResponseTooLarge op)
         else if new_length > MAX_RELAY_RESPONSE_BYTES then Inl (ResponseTooLarge op)
         else read_chunks op (body @ chunk) chunks)"

definition raw_response_read :: "booking_codec \<Rightarrow> relay_operation \<Rightarrow> 'u http_response \<Rightarrow> raw_response booking_result" where
  "raw_response_read B op response =
     and_then (require_no_store B op (hs_headers response)) (\<lambda>_.
     if (case hs_content_length response of None \<Rightarrow> False | Some n \<Rightarrow> unat n > MAX_RELAY_RESPONSE_BYTES)
     then Inl (ResponseTooLarge op)
     else and_then (read_chunks op [] (hs_chunks response)) (\<lambda>body.
       Inr \<lparr>rw_status = hs_status response, rw_headers = hs_headers response, rw_body = body\<rparr>))"

definition require_empty :: "relay_operation \<Rightarrow> raw_response \<Rightarrow> unit booking_result" where
  "require_empty op raw =
     (if rw_body raw \<noteq> [] then Inl (InvalidResponse op ''no-content response carried a body'')
      else if get_all ''content-type'' (rw_headers raw) \<noteq> []
      then Inl (InvalidResponse op ''no-content response carried a content type'')
      else Inr ())"

definition require_json_content_type :: "booking_codec \<Rightarrow> relay_operation \<Rightarrow> raw_response \<Rightarrow> unit booking_result" where
  "require_json_content_type B op raw =
     and_then (single_header op (rw_headers raw) ''content-type'') (\<lambda>v.
     and_then (ok_or (InvalidResponse op ''JSON response omitted Content-Type'') v) (\<lambda>value.
     and_then (header_text B op value) (\<lambda>text.
     if \<not> eq_ignore_ascii_case text ''application/json''
     then Inl (InvalidResponse op ''response Content-Type is not application/json'')
     else Inr ())))"

definition decode_json :: "(string \<Rightarrow> 'a option) \<Rightarrow> relay_operation \<Rightarrow> raw_response \<Rightarrow> 'a booking_result" where
  "decode_json parse op raw =
     ok_or (InvalidResponse op ''response body is not the exact expected JSON document'')
       (parse (rw_body raw))"

definition decode_snapshot ::
  "booking_codec \<Rightarrow> relay_operation \<Rightarrow> instant \<Rightarrow> raw_response \<Rightarrow> relay_booking_snapshot booking_result"
where
  "decode_snapshot B op now raw =
     and_then (require_json_content_type B op raw) (\<lambda>_.
     and_then (decode_json (json_snapshot B) op raw) (\<lambda>b.
     and_then (validate_booking op now b) (\<lambda>_. Inr b)))"

definition require_location ::
  "booking_codec \<Rightarrow> relay_operation \<Rightarrow> raw_response \<Rightarrow> string \<Rightarrow> string booking_result"
where
  "require_location B op raw expected =
     and_then (single_header op (rw_headers raw) ''location'') (\<lambda>v.
     and_then (ok_or (InvalidResponse op ''create response omitted Location'') v) (\<lambda>value.
     and_then (header_text B op value) (\<lambda>text.
     if text \<noteq> expected
     then Inl (InvalidResponse op ''create response Location does not identify its booking'')
     else Inr expected)))"

definition require_no_retry_after :: "relay_operation \<Rightarrow> raw_response \<Rightarrow> unit booking_result" where
  "require_no_retry_after op raw =
     and_then (single_header op (rw_headers raw) ''retry-after'') (\<lambda>v.
     if v \<noteq> None then Inl (InvalidResponse op ''success response carried Retry-After'') else Inr ())"

definition require_no_control_headers :: "relay_operation \<Rightarrow> raw_response \<Rightarrow> unit booking_result" where
  "require_no_control_headers op raw =
     and_then (single_header op (rw_headers raw) ''location'') (\<lambda>l.
     if l \<noteq> None then Inl (InvalidResponse op ''response carried unexpected control headers'') else
     and_then (single_header op (rw_headers raw) ''retry-after'') (\<lambda>r.
     if r \<noteq> None then Inl (InvalidResponse op ''response carried unexpected control headers'') else Inr ()))"

definition parse_retry_after ::
  "booking_codec \<Rightarrow> relay_operation \<Rightarrow> (string \<times> header_value) list \<Rightarrow> nat option booking_result"
where
  "parse_retry_after B op headers =
     and_then (single_header op headers ''retry-after'') (\<lambda>v.
     case v of None \<Rightarrow> Inr None
     | Some value \<Rightarrow>
         and_then (header_text B op value) (\<lambda>text.
         and_then (ok_or (InvalidResponse op ''Retry-After is not an integer between 1 and 300 seconds'')
             (filter_option (\<lambda>n. 1 \<le> n \<and> n \<le> MAX_RETRY_AFTER_SECONDS) (parse_u64 text)))
           (\<lambda>seconds. Inr (Some (from_secs seconds)))))"

definition conflict_location ::
  "booking_codec \<Rightarrow> relay_operation \<Rightarrow> string option \<Rightarrow> header_value option \<Rightarrow> nat option \<Rightarrow> string option booking_result"
where
  "conflict_location B op expected_path raw_location retry =
     (if op \<noteq> Create then Inl (InvalidResponse op ''active-booking conflict returned by the wrong endpoint'')
      else and_then (ok_or (InvalidResponse op ''missing expected collection path'') expected_path) (\<lambda>collection.
        let expected = trim_end_matches (CHR ''/'') collection @ ''/active''
        in and_then (ok_or (InvalidResponse op ''active-booking conflict omitted Location'') raw_location) (\<lambda>loc.
           and_then (header_text B op loc) (\<lambda>actual.
           if actual \<noteq> expected
           then Inl (InvalidResponse op ''active-booking conflict returned an invalid Location'')
           else if retry = None
           then Inl (InvalidResponse op ''active-booking conflict omitted Retry-After'')
           else Inr (Some expected)))))"

definition error_location ::
  "booking_codec \<Rightarrow> relay_operation \<Rightarrow> string option \<Rightarrow> relay_error_code \<Rightarrow> header_value option \<Rightarrow> nat option \<Rightarrow>
    string option booking_result"
where
  "error_location B op expected_path code raw_location retry =
     (case code of
        ActiveBookingConflict \<Rightarrow> conflict_location B op expected_path raw_location retry
      | TargetPeerConflict \<Rightarrow>
          if raw_location \<noteq> None \<or> retry = None
          then Inl (InvalidResponse op ''target-peer conflict control headers are invalid'')
          else Inr None
      | _ \<Rightarrow>
          if raw_location \<noteq> None \<or> retry \<noteq> None
          then Inl (InvalidResponse op ''unexpected Location or Retry-After header'')
          else Inr None)"

definition decode_http_error ::
  "booking_codec \<Rightarrow> relay_operation \<Rightarrow> string option \<Rightarrow> raw_response \<Rightarrow> relay_booking_client_error booking_result"
where
  "decode_http_error B op expected_path raw =
     (if is_success (rw_status raw) then Inl (InvalidResponse op ''unexpected success status'') else
      and_then (require_json_content_type B op raw) (\<lambda>_.
      and_then (decode_json (json_error B) op raw) (\<lambda>body.
      if trims_to_empty (er_error body) then Inl (InvalidResponse op ''error response message is empty'') else
      and_then (validate_error_status op (rw_status raw) (er_code body)) (\<lambda>_.
      and_then (parse_retry_after B op (rw_headers raw)) (\<lambda>retry.
      and_then (single_header op (rw_headers raw) ''location'') (\<lambda>raw_location.
      and_then (error_location B op expected_path (er_code body) raw_location retry)
        (\<lambda>location. Inr (HttpError op (rw_status raw) (er_code body) retry location))))))))"

section \<open>The request loop\<close>

definition relay_booking_client_new :: "'u url_lib \<Rightarrow> 'u \<Rightarrow> bool \<Rightarrow> 'u booking_result" where
  "relay_booking_client_new U base http_builds =
     (if url_cannot_be_a_base U base \<or> url_scheme U base \<notin> {''http'', ''https''} \<or>
         url_host_str U base = None \<or> url_username U base \<noteq> [] \<or> url_password U base \<noteq> None \<or>
         url_query U base \<noteq> None \<or> url_fragment U base \<noteq> None
      then Inl InvalidConfiguration
      else if \<not> http_builds then Inl InvalidConfiguration
      else Inr base)"

definition booking_endpoint :: "'u url_lib \<Rightarrow> 'u \<Rightarrow> relay_operation \<Rightarrow> string list \<Rightarrow> 'u booking_result" where
  "booking_endpoint U base op segments =
     and_then (ok_or InvalidConfiguration (url_pop_if_empty_extend U base segments)) (\<lambda>url.
     if url_query U url \<noteq> None \<or> url_fragment U url \<noteq> None
     then Inl (InvalidResponse op ''endpoint unexpectedly contains a query or fragment'')
     else Inr url)"

definition refreshable_rejection :: "booking_codec \<Rightarrow> raw_response \<Rightarrow> bool" where
  "refreshable_rejection B raw =
     (if rw_status raw = 401 then True
      else case json_error B (rw_body raw) of None \<Rightarrow> False
           | Some body \<Rightarrow> is_stale_requester_principal (er_code body) \<or>
               is_invalid_requester_principal (er_code body))"

definition require_exact_response_url :: "relay_operation \<Rightarrow> 'u \<Rightarrow> 'u \<Rightarrow> unit booking_result" where
  "require_exact_response_url op requested observed =
     (if observed \<noteq> requested
      then Inl (InvalidResponse op ''response URL differs from the requested endpoint'') else Inr ())"

definition valid_sensitive_bearer_header :: "header_value \<Rightarrow> bool" where
  "valid_sensitive_bearer_header value \<longleftrightarrow>
     hv_sensitive value \<and> take 7 (hv_bytes value) = ''Bearer '' \<and> length (hv_bytes value) > 7 \<and>
     list_all is_ascii_graphic (drop 7 (hv_bytes value))"

text \<open>\<open>header_value\<close> of a key expects the conversion to succeed; a failure is a panic.\<close>

definition key_header :: "booking_codec \<Rightarrow> string option \<Rightarrow> header_value option booking_result" where
  "key_header B key =
     (case key of None \<Rightarrow> Inr None
      | Some k \<Rightarrow> and_then (ok_or BookingPanic (hv_from_str B k)) (\<lambda>v. Inr (Some v)))"

fun send_attempts ::
  "booking_codec \<Rightarrow> 'u booking_world \<Rightarrow> relay_operation \<Rightarrow> http_method \<Rightarrow> 'u \<Rightarrow> string option \<Rightarrow> string option \<Rightarrow>
    nat list \<Rightarrow> ('u, raw_response) booking_call"
where
  "send_attempts B w op method url key body [] = (Inl BookingPanic, [])"
| "send_attempts B w op method url key body (attempt # attempts) =
     (case w_authorization w attempt of
        Inl _ \<Rightarrow> (Inl (AuthenticationFailed op), [])
      | Inr authorization \<Rightarrow>
          if \<not> valid_sensitive_bearer_header (au_header authorization)
          then (Inl (AuthenticationFailed op), [])
          else (case key_header B key of Inl e \<Rightarrow> (Inl e, [])
           | Inr key_value \<Rightarrow>
          (let rq = \<lparr>hq_method = method, hq_url = url, hq_timeout = RELAY_HTTP_REQUEST_TIMEOUT,
                hq_authorization = au_header authorization, hq_idempotency_key = key_value,
                hq_body = body\<rparr>
           in case w_send w attempt rq of
                Inl timeout \<Rightarrow> (Inl (TransportFailed op timeout), [Sent rq])
              | Inr response \<Rightarrow>
                  (case and_then (require_exact_response_url op url (hs_url response))
                      (\<lambda>_. raw_response_read B op response) of
                     Inl e \<Rightarrow> (Inl e, [Sent rq])
                   | Inr raw \<Rightarrow>
                       if attempt = 0 \<and> refreshable_rejection B raw then
                         (case w_refresh w attempt (au_revision authorization) of
                            Inl _ \<Rightarrow> (Inl (AuthenticationFailed op),
                              [Sent rq, RefreshAfterUnauthorized (au_revision authorization)])
                          | Inr _ \<Rightarrow>
                              (case send_attempts B w op method url key body attempts of (r, actions) \<Rightarrow>
                                 (r, Sent rq # RefreshAfterUnauthorized (au_revision authorization) # actions)))
                       else (Inr raw, [Sent rq])))))"

definition booking_send ::
  "booking_codec \<Rightarrow> 'u booking_world \<Rightarrow> relay_operation \<Rightarrow> http_method \<Rightarrow> 'u \<Rightarrow> string option \<Rightarrow> string option \<Rightarrow>
    ('u, raw_response) booking_call"
where
  "booking_send B w op method url key body = send_attempts B w op method url key body [0, 1]"

section \<open>Operations\<close>

text \<open>An operation runs on the raw response; a local failure sends nothing.\<close>

definition with_raw :: "('u, raw_response) booking_call \<Rightarrow> (raw_response \<Rightarrow> 'a booking_result) \<Rightarrow> ('u, 'a) booking_call" where
  "with_raw call f = (and_then (fst call) f, snd call)"

definition with_endpoint :: "'u booking_result \<Rightarrow> ('u \<Rightarrow> ('u, 'a) booking_call) \<Rightarrow> ('u, 'a) booking_call" where
  "with_endpoint r f = (case r of Inl e \<Rightarrow> (Inl e, []) | Inr url \<Rightarrow> f url)"

definition http_failure :: "booking_codec \<Rightarrow> relay_operation \<Rightarrow> string \<Rightarrow> raw_response \<Rightarrow> 'a booking_result" where
  "http_failure B op path raw = and_then (decode_http_error B op (Some path) raw) Inl"

definition require_booking_id :: "relay_operation \<Rightarrow> uuid \<Rightarrow> relay_booking_snapshot \<Rightarrow> unit booking_result" where
  "require_booking_id op booking_id b =
     (if bs_booking_id b \<noteq> booking_id
      then Inl (InvalidResponse op ''response booking ID differs from the requested booking'') else Inr ())"

definition booking_active ::
  "'u url_lib \<Rightarrow> booking_codec \<Rightarrow> 'u \<Rightarrow> 'u booking_world \<Rightarrow> ('u, relay_booking_snapshot option) booking_call"
where
  "booking_active U B base w =
     with_endpoint (booking_endpoint U base Active [''relay-bookings'', ''active'']) (\<lambda>url.
     with_raw (booking_send B w Active GET url None None) (\<lambda>raw.
     if rw_status raw = 200 then
       and_then (require_no_control_headers Active raw) (\<lambda>_.
       and_then (decode_snapshot B Active (w_now w) raw) (\<lambda>b.
       if bs_state b \<noteq> ActiveBooking
       then Inl (InvalidResponse Active ''active endpoint returned a terminal booking'')
       else Inr (Some b)))
     else if rw_status raw = 204 then
       and_then (require_empty Active raw) (\<lambda>_.
       and_then (require_no_control_headers Active raw) (\<lambda>_. Inr None))
     else http_failure B Active (url_path U url) raw))"

definition created_response ::
  "booking_codec \<Rightarrow> string \<Rightarrow> create_relay_booking_request \<Rightarrow> instant \<Rightarrow> raw_response \<Rightarrow>
    create_relay_booking_response booking_result"
where
  "created_response B collection_path rq now raw =
     and_then (require_no_retry_after Create raw) (\<lambda>_.
     and_then (decode_snapshot B Create now raw) (\<lambda>b.
     if bs_mode b \<noteq> cq_mode rq \<or>
        bs_requested_duration_seconds b \<noteq> cq_requested_duration_seconds rq \<or>
        bs_relay_count b \<noteq> cq_relay_count rq
     then Inl (InvalidResponse Create ''create response does not match the requested booking policy'')
     else and_then (require_location B Create raw
              (collection_path @ ''/'' @ bk_uuid_to_string B (bs_booking_id b))) (\<lambda>location.
       Inr \<lparr>cp_disposition = (if rw_status raw = 201 then Created else Replayed),
            cp_location = location, cp_snapshot = b\<rparr>)))"

definition booking_create ::
  "'u url_lib \<Rightarrow> booking_codec \<Rightarrow> 'u \<Rightarrow> 'u booking_world \<Rightarrow> string \<Rightarrow> create_relay_booking_request \<Rightarrow>
    ('u, create_relay_booking_response) booking_call"
where
  "booking_create U B base w key rq =
     (case validate_create rq of Inl e \<Rightarrow> (Inl e, [])
      | Inr _ \<Rightarrow>
     with_endpoint (booking_endpoint U base Create [''relay-bookings'']) (\<lambda>url.
     let collection_path = trim_end_matches (CHR ''/'') (url_path U url)
     in case ok_or (RequestSerialization Create) (json_of_create B rq) of
          Inl e \<Rightarrow> (Inl e, [])
        | Inr body \<Rightarrow>
            with_raw (booking_send B w Create POST url (Some key) (Some body)) (\<lambda>raw.
            if rw_status raw = 201 \<or> rw_status raw = 200
            then created_response B collection_path rq (w_now w) raw
            else http_failure B Create collection_path raw)))"

definition identified_response ::
  "booking_codec \<Rightarrow> relay_operation \<Rightarrow> string \<Rightarrow> uuid \<Rightarrow> instant \<Rightarrow> raw_response \<Rightarrow> relay_booking_snapshot booking_result"
where
  "identified_response B op path booking_id now raw =
     (if rw_status raw = 200 then
        and_then (require_no_control_headers op raw) (\<lambda>_.
        and_then (decode_snapshot B op now raw) (\<lambda>b.
        and_then (require_booking_id op booking_id b) (\<lambda>_. Inr b)))
      else http_failure B op path raw)"

definition booking_renew ::
  "'u url_lib \<Rightarrow> booking_codec \<Rightarrow> 'u \<Rightarrow> 'u booking_world \<Rightarrow> uuid \<Rightarrow> ('u, relay_booking_snapshot) booking_call"
where
  "booking_renew U B base w booking_id =
     with_endpoint (booking_endpoint U base Renew [''relay-bookings'', bk_uuid_to_string B booking_id, ''renew''])
     (\<lambda>url. with_raw (booking_send B w Renew POST url None None)
        (identified_response B Renew (url_path U url) booking_id (w_now w)))"

definition booking_report_reservation_failed ::
  "'u url_lib \<Rightarrow> booking_codec \<Rightarrow> 'u \<Rightarrow> 'u booking_world \<Rightarrow> uuid \<Rightarrow> reservation_failed_request \<Rightarrow>
    ('u, relay_booking_snapshot) booking_call"
where
  "booking_report_reservation_failed U B base w booking_id rq =
     (case validate_failed rq of Inl e \<Rightarrow> (Inl e, [])
      | Inr _ \<Rightarrow>
     with_endpoint (booking_endpoint U base ReservationFailed
         [''relay-bookings'', bk_uuid_to_string B booking_id, ''reservation-failed'']) (\<lambda>url.
     case ok_or (RequestSerialization ReservationFailed) (json_of_failed B rq) of
       Inl e \<Rightarrow> (Inl e, [])
     | Inr body \<Rightarrow>
         with_raw (booking_send B w ReservationFailed POST url None (Some body))
           (identified_response B ReservationFailed (url_path U url) booking_id (w_now w))))"

definition booking_delete ::
  "'u url_lib \<Rightarrow> booking_codec \<Rightarrow> 'u \<Rightarrow> 'u booking_world \<Rightarrow> uuid \<Rightarrow> ('u, unit) booking_call"
where
  "booking_delete U B base w booking_id =
     with_endpoint (booking_endpoint U base Delete [''relay-bookings'', bk_uuid_to_string B booking_id])
     (\<lambda>url. with_raw (booking_send B w Delete DELETE url None None) (\<lambda>raw.
        if rw_status raw = 204 then
          and_then (require_empty Delete raw) (\<lambda>_.
          and_then (require_no_control_headers Delete raw) (\<lambda>_. Inr ()))
        else http_failure B Delete (url_path U url) raw))"

section \<open>What a valid booking is\<close>

definition has_provider :: "relay_slot_snapshot \<Rightarrow> bool" where
  "has_provider slot \<longleftrightarrow> ss_state slot \<in> {Ready, Recovering}"

definition deadline_usable :: "relay_booking_snapshot \<Rightarrow> instant \<Rightarrow> instant option \<Rightarrow> bool" where
  "deadline_usable b now d \<longleftrightarrow>
     (\<exists>t. d = Some t \<and> now < t \<and> t \<le> bs_authority_expires_at b \<and> t \<le> bs_requested_until b)"

definition provider_well_formed :: "relay_booking_snapshot \<Rightarrow> instant \<Rightarrow> relay_slot_snapshot \<Rightarrow> bool" where
  "provider_well_formed b now slot \<longleftrightarrow>
     (\<exists>peer bases limits. ss_provider_peer_id slot = Some peer \<and> \<not> trims_to_empty peer \<and>
        ss_provider_base_addresses slot = Some bases \<and> bases \<noteq> [] \<and> distinct bases \<and>
        (\<forall>base \<in> set bases. \<not> trims_to_empty base) \<and>
        ss_limits slot = Some limits \<and> 0 < rl_duration_seconds limits \<and>
        0 < rl_data_bytes_per_direction limits \<and> rl_data_bytes_per_direction limits \<le> 0x7FFFFFFFFFFFFFFF) \<and>
     ss_assignment_id slot \<noteq> None \<and>
     (ss_state slot = Ready \<longrightarrow> deadline_usable b now (ss_provider_lease_expires_at slot)) \<and>
     (ss_state slot = Recovering \<longrightarrow>
        ss_provider_lease_expires_at slot = None \<and> deadline_usable b now (ss_recovery_expires_at slot))"

definition slot_well_formed :: "relay_booking_snapshot \<Rightarrow> instant \<Rightarrow> nat \<Rightarrow> relay_slot_snapshot \<Rightarrow> bool" where
  "slot_well_formed b now i slot \<longleftrightarrow>
     ss_slot_id slot \<noteq> 0 \<and> unat (ss_slot_index slot) = i \<and>
     (ss_assignment_id slot = None \<longleftrightarrow> ss_reservation_epoch slot = None) \<and>
     ss_assignment_id slot \<noteq> Some 0 \<and> ss_reservation_epoch slot \<noteq> Some 0 \<and>
     (if has_provider slot then provider_well_formed b now slot
      else ss_provider_peer_id slot = None \<and> ss_provider_base_addresses slot = None \<and> ss_limits slot = None)"

definition state_well_formed :: "relay_booking_snapshot \<Rightarrow> instant \<Rightarrow> bool" where
  "state_well_formed b now \<longleftrightarrow>
     (if bs_state b = ActiveBooking
      then bs_ended_at b = None \<and> now < bs_authority_expires_at b
      else \<exists>ended. bs_ended_at b = Some ended \<and> bs_created_at b \<le> ended)"

definition booking_well_formed :: "instant \<Rightarrow> relay_booking_snapshot \<Rightarrow> bool" where
  "booking_well_formed now b \<longleftrightarrow>
     bs_booking_id b \<noteq> 0 \<and> 1 \<le> bs_relay_count b \<and> bs_relay_count b \<le> 3 \<and>
     300 \<le> bs_requested_duration_seconds b \<and> bs_requested_duration_seconds b \<le> 86400 \<and>
     length (bs_slots b) = unat (bs_relay_count b) \<and>
     bs_created_at b < bs_authority_expires_at b \<and> bs_authority_expires_at b \<le> bs_requested_until b \<and>
     state_well_formed b now \<and>
     (\<forall>i < length (bs_slots b). slot_well_formed b now i (bs_slots b ! i)) \<and>
     distinct (map ss_slot_id (bs_slots b)) \<and>
     distinct (map ss_provider_peer_id (filter has_provider (bs_slots b))) \<and>
     unat (bs_assigned_count b) = length (filter (\<lambda>s. ss_assignment_id s \<noteq> None) (bs_slots b)) \<and>
     unat (bs_provider_ready_count b) = length (filter (\<lambda>s. ss_state s = Ready) (bs_slots b)) \<and>
     unat (bs_unfilled_count b) = length (filter (\<lambda>s. ss_state s \<in> {Queued, Reassigning}) (bs_slots b))"

lemma filter_option_Some [simp]: "filter_option P x = Some v \<longleftrightarrow> x = Some v \<and> P v"
  by (cases x) (auto simp: filter_option_def)

lemma validate_deadline_Inr:
  "validate_deadline b now slot = Inr () \<longleftrightarrow>
    (ss_state slot = Ready \<longrightarrow> deadline_usable b now (ss_provider_lease_expires_at slot)) \<and>
    (ss_state slot = Recovering \<longrightarrow>
      ss_provider_lease_expires_at slot = None \<and> deadline_usable b now (ss_recovery_expires_at slot))"
  by (cases "ss_state slot")
    (auto simp: validate_deadline_def and_then_eq_Inr deadline_usable_def guard_ok not_le not_less)

lemma length_remdups_distinct: "length (remdups xs) \<noteq> length xs \<longleftrightarrow> \<not> distinct xs"
  by (metis distinct_remdups_id length_remdups_card_conv card_distinct distinct_card)

lemma validate_provider_Inr:
  "validate_provider b now slot peers = Inr peers' \<longleftrightarrow>
    provider_well_formed b now slot \<and> the (ss_provider_peer_id slot) \<notin> peers \<and>
    peers' = insert (the (ss_provider_peer_id slot)) peers"
  unfolding validate_provider_def provider_well_formed_def length_remdups_distinct
  by (auto simp: and_then_eq_Inr guard_ok validate_deadline_Inr list_ex_iff word_neq_0_conv not_less
      split: if_splits)

definition scanned :: "slot_scan \<Rightarrow> relay_slot_snapshot list \<Rightarrow> slot_scan" where
  "scanned sc slots =
     \<lparr>sc_slot_ids = sc_slot_ids sc \<union> set (map ss_slot_id slots),
      sc_provider_peer_ids = sc_provider_peer_ids sc \<union>
        set (map (the \<circ> ss_provider_peer_id) (filter has_provider slots)),
      sc_assigned = sc_assigned sc + length (filter (\<lambda>s. ss_assignment_id s \<noteq> None) slots),
      sc_ready = sc_ready sc + length (filter (\<lambda>s. ss_state s = Ready) slots),
      sc_unfilled = sc_unfilled sc + length (filter (\<lambda>s. ss_state s \<in> {Queued, Reassigning}) slots)\<rparr>"

lemma scanned_Nil [simp]: "scanned sc [] = sc"
  by (simp add: scanned_def)

lemma scanned_Cons: "scanned sc (s # slots) = scanned (scanned sc [s]) slots"
  by (auto simp: scanned_def)

lemma validate_slot_Inr:
  "validate_slot b now i slot sc = Inr sc' \<longleftrightarrow>
    slot_well_formed b now i slot \<and> ss_slot_id slot \<notin> sc_slot_ids sc \<and>
    (has_provider slot \<longrightarrow> the (ss_provider_peer_id slot) \<notin> sc_provider_peer_ids sc) \<and>
    sc' = scanned sc [slot]"
  unfolding validate_slot_def slot_well_formed_def has_provider_def scanned_def Let_def
  by (auto simp: and_then_eq_Inr guard_ok validate_provider_Inr)

lemma validate_slots_Inr:
  "validate_slots b now i slots sc = Inr sc' \<longleftrightarrow>
    (\<forall>j < length slots. slot_well_formed b now (i + j) (slots ! j)) \<and>
    distinct (map ss_slot_id slots) \<and> set (map ss_slot_id slots) \<inter> sc_slot_ids sc = {} \<and>
    distinct (map (the \<circ> ss_provider_peer_id) (filter has_provider slots)) \<and>
    set (map (the \<circ> ss_provider_peer_id) (filter has_provider slots)) \<inter> sc_provider_peer_ids sc = {} \<and>
    sc' = scanned sc slots"
proof (induction slots arbitrary: i sc)
  case (Cons slot slots)
  show ?case
    by (auto simp: and_then_eq_Inr validate_slot_Inr Cons.IH scanned_Cons [of sc slot slots]
        All_less_Suc2 scanned_def [of sc "[slot]"])
qed auto

lemma provider_ids_distinct:
  assumes "\<forall>i < length slots. slot_well_formed b now i (slots ! i)"
  shows "distinct (map (the \<circ> ss_provider_peer_id) (filter has_provider slots)) \<longleftrightarrow>
    distinct (map ss_provider_peer_id (filter has_provider slots))"
proof -
  have some: "ss_provider_peer_id s \<noteq> None" if s: "s \<in> set (filter has_provider slots)" for s
  proof -
    obtain i where "i < length slots" "slots ! i = s" "has_provider s"
      using s by (auto simp: in_set_conv_nth)
    then have "slot_well_formed b now i s" using assms by auto
    then show ?thesis
      using \<open>has_provider s\<close> by (auto simp: slot_well_formed_def provider_well_formed_def)
  qed
  have "inj_on the (set (map ss_provider_peer_id (filter has_provider slots)))"
  proof (rule inj_onI)
    fix x y
    assume "x \<in> set (map ss_provider_peer_id (filter has_provider slots))"
      "y \<in> set (map ss_provider_peer_id (filter has_provider slots))" and eq: "the x = the y"
    then have "x \<noteq> None" "y \<noteq> None" using some by auto
    then show "x = y" using eq by auto
  qed
  then show ?thesis
    using distinct_map [of the "map ss_provider_peer_id (filter has_provider slots)"]
    by (simp add: comp_def)
qed

lemma validate_state_Inr:
  "bs_authority_expires_at b \<le> bs_requested_until b \<Longrightarrow>
    validate_state b now = Inr () \<longleftrightarrow> state_well_formed b now"
  by (cases "bs_state b")
    (auto simp: validate_state_def state_well_formed_def guard_ok not_le not_less split: option.splits)

lemma summary_within:
  "unat (c :: u8) = length (filter P slots) \<Longrightarrow> length slots = unat (n :: u8) \<Longrightarrow> \<not> n < c"
  using length_filter_le [of P slots] by (simp add: word_less_nat_alt)

lemma booking_validation: "validate_booking op now b = Inr () \<longleftrightarrow> booking_well_formed now b"
proof (cases "(\<forall>i < length (bs_slots b). slot_well_formed b now i (bs_slots b ! i)) \<and>
    bs_authority_expires_at b \<le> bs_requested_until b")
  case True
  note providers = provider_ids_distinct [OF True [THEN conjunct1]]
  show ?thesis
    using True summary_within [of _ _ "bs_slots b" "bs_relay_count b"]
    unfolding validate_booking_def booking_well_formed_def booking_consts
    by (auto simp: and_then_eq_Inr guard_ok validate_slots_Inr validate_state_Inr providers scanned_def
        scan_start_def)
next
  case False
  then show ?thesis
    unfolding validate_booking_def booking_well_formed_def
    by (auto simp: and_then_eq_Inr guard_ok validate_slots_Inr)
qed

text \<open>
  C25: The client accepts exactly the well-formed bookings. \<open>validate_booking\<close>, run at the clock
  reading \<open>now\<close>, succeeds if and only if: identity, relay count (1 to 3), duration (300 to 86400
  seconds) and number of slots are in order; the booking was created before its authority
  expires, and that is not after the requested end; an active booking has no end time and its
  authority lies in the future, a terminal one did not end before it was created; every slot has its
  position as index, a complete or absent pair of fences and, exactly when it is ready or
  recovering, a provider with distinct bases, positive limits, an assignment and a deadline in the
  future within the authority; slot IDs and providers are distinct; and the three summary counts
  are the numbers of assigned, ready and unfilled slots.
\<close>

theorem booking_validation_exact:
  "validate_booking op now b = Inr () \<longleftrightarrow> booking_well_formed now b"
  by (rule booking_validation)

section \<open>The request loop\<close>

definition answered ::
  "booking_codec \<Rightarrow> 'u booking_world \<Rightarrow> relay_operation \<Rightarrow> 'u \<Rightarrow> nat \<Rightarrow> 'u http_request \<Rightarrow> raw_response \<Rightarrow> bool"
where
  "answered B w op url attempt rq raw \<longleftrightarrow>
     (\<exists>response. w_send w attempt rq = Inr response \<and> hs_url response = url \<and>
        raw_response_read B op response = Inr raw)"

text \<open>A request of the loop: the given endpoint and body, the credential of its attempt.\<close>

definition request_of ::
  "'u booking_world \<Rightarrow> http_method \<Rightarrow> 'u \<Rightarrow> string option \<Rightarrow> nat \<Rightarrow> relay_authorization_snapshot \<Rightarrow> 'u http_request \<Rightarrow> bool"
where
  "request_of w method url body attempt a rq \<longleftrightarrow>
     w_authorization w attempt = Inr a \<and> hq_authorization rq = au_header a \<and>
     valid_sensitive_bearer_header (au_header a) \<and> hq_method rq = method \<and> hq_url rq = url \<and> hq_body rq = body"

lemma read_chunks_bound: "read_chunks op body chunks = Inr text \<Longrightarrow>
    length body \<le> MAX_RELAY_RESPONSE_BYTES \<Longrightarrow> length text \<le> MAX_RELAY_RESPONSE_BYTES"
  by (induction op body chunks rule: read_chunks.induct) (auto simp: Let_def split: if_splits)

lemma raw_response_bound: "raw_response_read B op response = Inr raw \<Longrightarrow>
    length (rw_body raw) \<le> MAX_RELAY_RESPONSE_BYTES"
  by (auto simp: raw_response_read_def and_then_eq_Inr guard_ok booking_consts
      dest!: read_chunks_bound split: if_splits)

lemma last_attempt:
  assumes "send_attempts B w op method url key body [1] = (r, actions)"
  shows "(actions = [] \<and> (\<forall>raw. r \<noteq> Inr raw)) \<or>
    (\<exists>a rq. actions = [Sent rq] \<and> request_of w method url body 1 a rq \<and>
      (\<forall>raw. r = Inr raw \<longrightarrow> answered B w op url 1 rq raw))"
  using assms
  by (auto simp: request_of_def answered_def require_exact_response_url_def Let_def
      split: sum.splits if_splits)

text \<open>What the loop did, by cases: stopped before or after its first request, or repeated it.\<close>

definition first_rejected ::
  "booking_codec \<Rightarrow> 'u booking_world \<Rightarrow> relay_operation \<Rightarrow> http_method \<Rightarrow> 'u \<Rightarrow> string option \<Rightarrow>
    'u http_request \<Rightarrow> u64 \<Rightarrow> bool"
where
  "first_rejected B w op method url body rq v \<longleftrightarrow>
     (\<exists>a raw. request_of w method url body 0 a rq \<and> v = au_revision a \<and>
        answered B w op url 0 rq raw \<and> refreshable_rejection B raw)"

lemma first_attempt:
  assumes "booking_send B w op method url key body = (r, actions)"
  obtains (unsent) "actions = []" "\<forall>raw. r \<noteq> Inr raw"
  | (once) a rq where "actions = [Sent rq]" "request_of w method url body 0 a rq"
      "\<forall>raw. r = Inr raw \<longrightarrow> answered B w op url 0 rq raw \<and> \<not> refreshable_rejection B raw"
  | (refused) rq v where "actions = [Sent rq, RefreshAfterUnauthorized v]"
      "first_rejected B w op method url body rq v" "\<forall>raw. r \<noteq> Inr raw"
  | (again) rq v actions' where "actions = Sent rq # RefreshAfterUnauthorized v # actions'"
      "first_rejected B w op method url body rq v"
      "send_attempts B w op method url key body [1] = (r, actions')"
proof -
  show ?thesis
    using assms that unfolding booking_send_def send_attempts.simps(2) [where attempt = 0 and attempts = "[1]"]
    by (auto simp: request_of_def answered_def first_rejected_def require_exact_response_url_def Let_def
        eq_commute [of "Inr _" "raw_response_read B op _"]
        simp del: send_attempts.simps split: sum.splits if_splits prod.splits)
qed

lemma booking_no_panic:
  assumes key: "\<forall>k. key = Some k \<longrightarrow> hv_from_str B k \<noteq> None"
  shows "fst (booking_send B w op method url key body) \<noteq> Inl BookingPanic"
proof -
  obtain kv where kv: "key_header B key = Inr kv"
    using key by (cases key) (auto simp: key_header_def)
  have raw: "raw_response_read B op response \<noteq> Inl BookingPanic" for response :: "'a http_response"
  proof -
    have chunks: "read_chunks op body chunks \<noteq> Inl BookingPanic" for body chunks
      by (induction op body chunks rule: read_chunks.induct) (auto simp: Let_def)
    show ?thesis
      using chunks [of "[]" "hs_chunks response"]
      by (auto simp: raw_response_read_def require_no_store_def single_header_def header_text_def
          and_then_def ok_or_def split: sum.splits option.splits list.splits if_splits)
  qed
  have one: "fst (send_attempts B w op method url key body [1]) \<noteq> Inl BookingPanic"
    using raw
    by (auto simp: kv require_exact_response_url_def and_then_def Let_def split: sum.splits if_splits)
  show ?thesis
    using raw one unfolding booking_send_def send_attempts.simps(2) [where attempt = 0 and attempts = "[1]"]
    by (auto simp: kv require_exact_response_url_def and_then_def Let_def
        simp del: send_attempts.simps split: sum.splits if_splits prod.splits)
qed

definition is_sent :: "'u booking_action \<Rightarrow> bool" where
  "is_sent x \<longleftrightarrow> (case x of Sent _ \<Rightarrow> True | _ \<Rightarrow> False)"

lemma is_sent_simps [simp]: "is_sent (Sent rq)" "\<not> is_sent (RefreshAfterUnauthorized v)"
  by (simp_all add: is_sent_def)

text \<open>
  C24: The authenticated request loop is bounded and never leaks. Whatever the authorization
  provider and the server do, one call sends at most two requests; each goes to the requested
  endpoint with the given method and body and carries a credential marked sensitive, of the form
  \<open>Bearer\<close> and visible characters, that the provider handed out for that attempt. A refresh happens
  at most once, only after the response to the first request was a rejection of the credential,
  and it names exactly the revision that request used. A returned response is the answer, from
  the requested URL and of at most 64 KiB, to the last request sent. And the loop always returns:
  the \<open>unreachable!\<close> behind it is never reached.
\<close>

theorem booking_requests_bounded:
  assumes send: "booking_send B w op method url key body = (r, actions)"
    and key: "\<forall>k. key = Some k \<longrightarrow> hv_from_str B k \<noteq> None"
  shows "length (filter is_sent actions) \<le> 2 \<and> length (filter (\<lambda>x. \<not> is_sent x) actions) \<le> 1 \<and>
    (\<forall>rq. Sent rq \<in> set actions \<longrightarrow> (\<exists>attempt a. request_of w method url body attempt a rq)) \<and>
    (\<forall>v. RefreshAfterUnauthorized v \<in> set actions \<longrightarrow>
      (\<exists>rq. hd actions = Sent rq \<and> first_rejected B w op method url body rq v)) \<and>
    (\<forall>raw. r = Inr raw \<longrightarrow> (\<exists>attempt rq. last actions = Sent rq \<and> answered B w op url attempt rq raw \<and>
      length (rw_body raw) \<le> MAX_RELAY_RESPONSE_BYTES)) \<and>
    r \<noteq> Inl BookingPanic"
proof -
  have panic: "r \<noteq> Inl BookingPanic"
    using booking_no_panic [OF key] send by (metis fst_conv)
  have bound: "length (rw_body raw) \<le> MAX_RELAY_RESPONSE_BYTES" if "answered B w op url i rq raw" for i rq raw
    using that by (auto simp: answered_def dest: raw_response_bound)
  from send show ?thesis
  proof (cases rule: first_attempt)
    case (again rq v actions')
    obtain a where a: "request_of w method url body 0 a rq"
      using again(2) by (auto simp: first_rejected_def)
    show ?thesis
      using last_attempt [OF again(3)] again(1,2) a panic bound by (auto simp: is_sent_def) blast
  next
    case (refused rq v)
    then show ?thesis using panic by (auto simp: first_rejected_def)
  qed (use panic bound in auto)
qed

section \<open>Errors that carry a code\<close>

text \<open>Results whose error is local: it has no code of the service.\<close>

definition local_failure :: "'a booking_result \<Rightarrow> bool" where
  "local_failure r \<longleftrightarrow> (\<forall>e. r = Inl e \<longrightarrow> http_code e = None)"

named_theorems local_intros \<open>local failures of the helpers\<close>

lemma local_and_then [local_intros]: "local_failure r \<Longrightarrow> (\<And>x. local_failure (f x)) \<Longrightarrow> local_failure (and_then r f)"
  by (cases r) (auto simp: local_failure_def)

lemma local_Inr [local_intros]: "local_failure (Inr x)"
  by (simp add: local_failure_def)

lemma local_Inl [local_intros]: "http_code e = None \<Longrightarrow> local_failure (Inl e)"
  by (simp add: local_failure_def)

lemma local_ok_or [local_intros]: "http_code e = None \<Longrightarrow> local_failure (ok_or e x)"
  by (cases x) (auto simp: local_failure_def)

lemma local_If [local_intros]:
  "local_failure r \<Longrightarrow> local_failure r' \<Longrightarrow> local_failure (if b then r else r')"
  by simp

lemma local_single_header [local_intros]: "local_failure (single_header op headers name)"
  by (auto simp: single_header_def local_failure_def split: list.splits)

lemma local_header_text [local_intros]: "local_failure (header_text B op v)"
  by (auto simp: header_text_def intro: local_intros)

lemma local_validate_booking [local_intros]: "local_failure (validate_booking op now b)"
  unfolding validate_booking_def local_failure_def by (auto simp: map_err_def split: sum.splits)

lemma local_read_chunks [local_intros]: "local_failure (read_chunks op body chunks)"
  by (induction op body chunks rule: read_chunks.induct) (auto simp: Let_def local_failure_def)

lemma local_raw_response_read [local_intros]: "local_failure (raw_response_read B op response)"
  unfolding raw_response_read_def require_no_store_def by (intro local_intros) simp_all

lemma local_decode_snapshot [local_intros]: "local_failure (decode_snapshot B op now raw)"
  unfolding decode_snapshot_def decode_json_def require_json_content_type_def
  by (intro local_intros) simp_all

lemma local_endpoint [local_intros]: "local_failure (booking_endpoint U base op segments)"
  unfolding booking_endpoint_def by (intro local_intros) simp_all

lemma local_control_headers [local_intros]:
  "local_failure (require_no_control_headers op raw)" "local_failure (require_empty op raw)"
  "local_failure (require_no_retry_after op raw)" "local_failure (require_location B op raw path)"
  "local_failure (require_booking_id op i b)"
  unfolding require_no_control_headers_def require_empty_def require_no_retry_after_def
    require_location_def require_booking_id_def
  by (intro local_intros; simp)+

lemma local_exact_url [local_intros]: "local_failure (require_exact_response_url op u v)"
  unfolding require_exact_response_url_def by (intro local_intros) simp_all

lemma local_attempts [local_intros]: "local_failure (fst (send_attempts B w op method url key body attempts))"
proof (induction attempts)
  case (Cons i attempts)
  have response: "http_code e = None"
    if "and_then (require_exact_response_url op url (hs_url response)) (\<lambda>_. raw_response_read B op response) = Inl e"
    for e and response :: "'a http_response"
    using that local_and_then [of "require_exact_response_url op url (hs_url response)"
        "\<lambda>_. raw_response_read B op response", OF local_exact_url local_raw_response_read]
    by (auto simp: local_failure_def)
  have key: "http_code e = None" if "key_header B key = Inl e" for e
    using that by (auto simp: key_header_def and_then_def ok_or_def split: option.splits sum.splits)
  from Cons response key show ?case
    by (auto simp: local_failure_def Let_def split: sum.splits prod.splits if_splits)
qed (simp add: local_failure_def)

lemma local_send [local_intros]: "local_failure (fst (booking_send B w op method url key body))"
  unfolding booking_send_def by (rule local_attempts)

lemma local_requests [local_intros]:
  "local_failure (validate_create rq)" "local_failure (validate_failed fq)"
  by (auto simp: local_failure_def validate_create_def validate_failed_def split: if_splits)

definition http_error_ok :: "relay_operation \<Rightarrow> string \<Rightarrow> relay_booking_client_error \<Rightarrow> bool" where
  "http_error_ok op path e \<longleftrightarrow>
     (\<exists>status code retry location. e = HttpError op status code retry location \<and>
        status = status_of_code code \<and> code \<in> set (codes_of_operation op) \<and>
        (retry \<noteq> None \<longleftrightarrow> code \<in> {ActiveBookingConflict, TargetPeerConflict}) \<and>
        (\<forall>d. retry = Some d \<longrightarrow> (\<exists>n. 1 \<le> n \<and> n \<le> 300 \<and> d = from_secs n)) \<and>
        location = (if code = ActiveBookingConflict
          then Some (trim_end_matches (CHR ''/'') path @ ''/active'') else None))"

lemma parse_retry_after_Inr:
  "parse_retry_after B op headers = Inr (Some d) \<Longrightarrow> \<exists>n. 1 \<le> n \<and> n \<le> 300 \<and> d = from_secs n"
  by (auto simp: parse_retry_after_def and_then_eq_Inr booking_consts split: option.splits)

lemma decode_http_error_Inr:
  assumes "decode_http_error B op (Some path) raw = Inr e"
  shows "http_error_ok op path e"
proof -
  obtain u retry raw_location location and body :: relay_error_response where d:
    "validate_error_status op (rw_status raw) (er_code body) = Inr u"
    "parse_retry_after B op (rw_headers raw) = Inr retry"
    "error_location B op (Some path) (er_code body) raw_location retry = Inr location"
    "e = HttpError op (rw_status raw) (er_code body) retry location"
    using assms unfolding decode_http_error_def and_then_eq_Inr guard_ok sum.inject by blast
  have "rw_status raw = status_of_code (er_code body)" "er_code body \<in> set (codes_of_operation op)"
    using d(1) by (auto simp: validate_error_status_def split: if_splits)
  moreover have "(retry \<noteq> None \<longleftrightarrow> er_code body \<in> {ActiveBookingConflict, TargetPeerConflict}) \<and>
      location = (if er_code body = ActiveBookingConflict
        then Some (trim_end_matches (CHR ''/'') path @ ''/active'') else None)"
    using d(3) by (cases "er_code body")
      (auto simp: error_location_def conflict_location_def and_then_eq_Inr guard_ok Let_def split: if_splits)
  ultimately show ?thesis
    using d(2,4) parse_retry_after_Inr by (auto simp: http_error_ok_def)
qed

lemma decode_http_error_local: "local_failure (decode_http_error B op path raw)"
proof -
  have retry: "local_failure (parse_retry_after B op headers)" for headers
    unfolding parse_retry_after_def
    by (intro local_intros) (auto split: option.splits intro!: local_intros)
  have loc: "local_failure (error_location B op path code l r)" for code l r
    unfolding error_location_def conflict_location_def Let_def
    by (cases code) (auto intro!: local_intros)
  show ?thesis
    unfolding decode_http_error_def decode_json_def require_json_content_type_def validate_error_status_def
    by (intro local_intros retry loc) simp_all
qed

lemma http_failure_ok:
  "http_failure B op path raw = Inl e \<Longrightarrow> http_code e = None \<or> http_error_ok op path e"
  using decode_http_error_local [of B op "Some path" raw]
  by (cases "decode_http_error B op (Some path) raw")
    (auto simp: http_failure_def local_failure_def dest: decode_http_error_Inr)

text \<open>Every operation ends in a local failure or in the decoded error of its endpoint.\<close>

definition coded_by :: "relay_operation \<Rightarrow> 'a booking_result \<Rightarrow> bool" where
  "coded_by op r \<longleftrightarrow> (\<forall>e. r = Inl e \<longrightarrow> http_code e = None \<or> (\<exists>path. http_error_ok op path e))"

lemma coded_Inl: "coded_by op r \<Longrightarrow> r = Inl e \<Longrightarrow> http_code e = Some c \<Longrightarrow> \<exists>path. http_error_ok op path e"
  by (auto simp: coded_by_def)

lemma coded_local: "local_failure r \<Longrightarrow> coded_by op r"
  by (auto simp: coded_by_def local_failure_def)

lemma coded_failure: "coded_by op (http_failure B op path raw)"
  by (auto simp: coded_by_def dest: http_failure_ok)

lemma coded_with_raw: "local_failure (fst call) \<Longrightarrow> (\<And>raw. coded_by op (f raw)) \<Longrightarrow> coded_by op (fst (with_raw call f))"
  by (cases "fst call") (auto simp: with_raw_def coded_by_def local_failure_def)

lemma coded_with_endpoint:
  "local_failure r \<Longrightarrow> (\<And>url. coded_by op (fst (f url))) \<Longrightarrow> coded_by op (fst (with_endpoint r f))"
  by (cases r) (auto simp: with_endpoint_def coded_by_def local_failure_def)

lemma coded_If: "coded_by op r \<Longrightarrow> coded_by op r' \<Longrightarrow> coded_by op (if b then r else r')"
  by simp

lemma coded_case:
  "local_failure r \<Longrightarrow> (\<And>x. coded_by op (fst (f x))) \<Longrightarrow> coded_by op (fst (case r of Inl e \<Rightarrow> (Inl e, []) | Inr x \<Rightarrow> f x))"
  by (cases r) (auto simp: coded_by_def local_failure_def)

lemmas coded_intros = coded_with_endpoint coded_with_raw coded_case coded_If coded_failure
lemmas operation_defs = booking_active_def booking_create_def booking_renew_def
  booking_report_reservation_failed_def booking_delete_def created_response_def identified_response_def Let_def

lemma operations_coded:
  "coded_by Active (fst (booking_active U B base w))"
  "coded_by Create (fst (booking_create U B base w key rq))"
  "coded_by Renew (fst (booking_renew U B base w i))"
  "coded_by ReservationFailed (fst (booking_report_reservation_failed U B base w i fq))"
  "coded_by Delete (fst (booking_delete U B base w i))"
  unfolding operation_defs
  by (intro coded_intros coded_local local_intros; simp)+

lemma retryable_codes:
  "http_error_ok op path e \<Longrightarrow> is_retryable e \<longleftrightarrow>
    http_code e \<in> {Some OrganizationSlotQuotaExceeded, Some DependencyUnavailable, Some InternalError}"
proof -
  assume "http_error_ok op path e"
  then obtain code retry location where "e = HttpError op (status_of_code code) code retry location"
    by (auto simp: http_error_ok_def)
  then show ?thesis
    by (cases code) (simp_all add: status_of_code_def is_server_error_def)
qed

text \<open>
  An error that names a code of the booking service is exactly what the endpoint may answer.
  If any of the five operations fails with such an error, then the HTTP status is the one of the
  code, the code is among those of that endpoint, a retry delay is present exactly for the two
  conflicts that demand one and lies between 1 and 300 seconds, and a location is present exactly
  for a conflict with an active booking and is the \<open>active\<close> resource below the collection. The error
  counts as retryable exactly for an exceeded quota, an unavailable dependency and an internal
  error.
\<close>

theorem booking_errors_exact:
  assumes failed: "fst (booking_active U B base w) = Inl e \<and> op = Active \<or>
      (\<exists>key rq. fst (booking_create U B base w key rq) = Inl e) \<and> op = Create \<or>
      (\<exists>i. fst (booking_renew U B base w i) = Inl e) \<and> op = Renew \<or>
      (\<exists>i fq. fst (booking_report_reservation_failed U B base w i fq) = Inl e) \<and> op = ReservationFailed \<or>
      (\<exists>i. fst (booking_delete U B base w i) = Inl e) \<and> op = Delete"
    and code: "http_code e = Some code"
  shows "\<exists>retry location. e = HttpError op (status_of_code code) code retry location \<and>
    code \<in> set (codes_of_operation op) \<and>
    (retry \<noteq> None \<longleftrightarrow> code \<in> {ActiveBookingConflict, TargetPeerConflict}) \<and>
    (\<forall>d. retry = Some d \<longrightarrow> (\<exists>n. 1 \<le> n \<and> n \<le> 300 \<and> d = from_secs n)) \<and>
    (if code = ActiveBookingConflict
     then \<exists>path. location = Some (trim_end_matches (CHR ''/'') path @ ''/active'') else location = None) \<and>
    (is_retryable e \<longleftrightarrow> code \<in> {OrganizationSlotQuotaExceeded, DependencyUnavailable, InternalError})"
proof -
  obtain path where ok: "http_error_ok op path e"
    using failed operations_coded [where U = U and B = B and base = base and w = w, THEN coded_Inl, OF _ code]
    by blast
  then show ?thesis
    using code retryable_codes [OF ok] by (auto simp: http_error_ok_def)
qed

section \<open>Results\<close>

lemma with_raw_Inr: "fst (with_raw call f) = Inr x \<longleftrightarrow> (\<exists>raw. fst call = Inr raw \<and> f raw = Inr x)"
  by (auto simp: with_raw_def and_then_eq_Inr)

lemma with_endpoint_Inr: "fst (with_endpoint r f) = Inr x \<longleftrightarrow> (\<exists>url. r = Inr url \<and> fst (f url) = Inr x)"
  by (auto simp: with_endpoint_def split: sum.splits)

lemma http_failure_Inr [simp]: "http_failure B op path raw \<noteq> Inr x"
  by (simp add: http_failure_def and_then_eq_Inr)

lemma case_failed_Inr:
  "fst (case r of Inl e \<Rightarrow> (Inl e, as) | Inr x \<Rightarrow> f x) = Inr y \<longleftrightarrow> (\<exists>x. r = Inr x \<and> fst (f x) = Inr y)"
  by (cases r) auto

lemmas call_Inr = with_raw_Inr with_endpoint_Inr case_failed_Inr and_then_eq_Inr

lemma decode_snapshot_Inr: "decode_snapshot B op now raw = Inr b \<Longrightarrow> booking_well_formed now b"
  by (auto simp: decode_snapshot_def and_then_eq_Inr booking_validation)

lemma identified_response_Inr:
  "identified_response B op path i now raw = Inr b \<Longrightarrow> booking_well_formed now b \<and> bs_booking_id b = i"
  by (auto simp: identified_response_def and_then_eq_Inr require_booking_id_def
      dest!: decode_snapshot_Inr split: if_splits)

lemma created_response_Inr:
  assumes "created_response B path rq now raw = Inr response"
  shows "booking_well_formed now (cp_snapshot response) \<and>
    bs_mode (cp_snapshot response) = cq_mode rq \<and>
    bs_requested_duration_seconds (cp_snapshot response) = cq_requested_duration_seconds rq \<and>
    bs_relay_count (cp_snapshot response) = cq_relay_count rq \<and>
    cp_location response = path @ ''/'' @ bk_uuid_to_string B (bs_booking_id (cp_snapshot response))"
  using assms
  by (auto simp: created_response_def and_then_eq_Inr guard_ok require_location_def
      dest!: decode_snapshot_Inr split: if_splits)

text \<open>
  Bookings can be relied on. A snapshot that an operation returns is well formed at the time of
  its validation. The active booking is active; a created one has the requested mode, duration and
  relay count, and its location is that booking below the collection; a renewal or a failure
  report is answered for the very booking it named.
\<close>

theorem booking_results_valid:
  "(\<forall>b. fst (booking_active U B base w) = Inr (Some b) \<longrightarrow>
      booking_well_formed (w_now w) b \<and> bs_state b = ActiveBooking) \<and>
   (\<forall>response. fst (booking_create U B base w key rq) = Inr response \<longrightarrow>
      booking_well_formed (w_now w) (cp_snapshot response) \<and>
      bs_mode (cp_snapshot response) = cq_mode rq \<and>
      bs_requested_duration_seconds (cp_snapshot response) = cq_requested_duration_seconds rq \<and>
      bs_relay_count (cp_snapshot response) = cq_relay_count rq \<and>
      (\<exists>url. url_pop_if_empty_extend U base [''relay-bookings''] = Some url \<and>
         cp_location response = trim_end_matches (CHR ''/'') (url_path U url) @ ''/'' @
           bk_uuid_to_string B (bs_booking_id (cp_snapshot response)))) \<and>
   (\<forall>b. fst (booking_renew U B base w i) = Inr b \<or>
      fst (booking_report_reservation_failed U B base w i fq) = Inr b \<longrightarrow>
      booking_well_formed (w_now w) b \<and> bs_booking_id b = i)"
proof (intro conjI allI impI)
  fix b
  assume "fst (booking_active U B base w) = Inr (Some b)"
  then show "booking_well_formed (w_now w) b" "bs_state b = ActiveBooking"
    by (auto simp: booking_active_def call_Inr dest!: decode_snapshot_Inr split: if_splits)
next
  fix response
  assume "fst (booking_create U B base w key rq) = Inr response"
  then obtain url raw where r: "booking_endpoint U base Create [''relay-bookings''] = Inr url"
    "created_response B (trim_end_matches (CHR ''/'') (url_path U url)) rq (w_now w) raw = Inr response"
    by (auto simp: booking_create_def call_Inr Let_def split: if_splits)
  note c = created_response_Inr [OF r(2)]
  show "booking_well_formed (w_now w) (cp_snapshot response)"
    "bs_mode (cp_snapshot response) = cq_mode rq"
    "bs_requested_duration_seconds (cp_snapshot response) = cq_requested_duration_seconds rq"
    "bs_relay_count (cp_snapshot response) = cq_relay_count rq"
    using c by simp_all
  show "\<exists>url. url_pop_if_empty_extend U base [''relay-bookings''] = Some url \<and>
      cp_location response = trim_end_matches (CHR ''/'') (url_path U url) @ ''/'' @
        bk_uuid_to_string B (bs_booking_id (cp_snapshot response))"
    using c r(1) by (auto simp: booking_endpoint_def and_then_eq_Inr guard_ok)
next
  fix b
  assume "fst (booking_renew U B base w i) = Inr b \<or>
    fst (booking_report_reservation_failed U B base w i fq) = Inr b"
  then obtain op path raw where "identified_response B op path i (w_now w) raw = Inr b"
    by (auto simp: booking_renew_def booking_report_reservation_failed_def call_Inr)
  then show "booking_well_formed (w_now w) b" "bs_booking_id b = i"
    using identified_response_Inr by blast+
qed

section \<open>A concrete environment\<close>

text \<open>URLs as their path segments, a codec that knows one booking, and a server that rejects the
  first credential and then confirms the booking.\<close>

definition path_urls :: "string list url_lib" where
  "path_urls =
     \<lparr>url_cannot_be_a_base = (\<lambda>_. False), url_scheme = (\<lambda>_. ''https''), url_host_str = (\<lambda>_. Some ''dms''),
      url_username = (\<lambda>_. []), url_password = (\<lambda>_. None), url_query = (\<lambda>_. None),
      url_fragment = (\<lambda>_. None), url_path = (\<lambda>u. concat (map (\<lambda>s. CHR ''/'' # s) u)),
      url_pop_if_empty_extend = (\<lambda>u segments. Some (u @ segments))\<rparr>"

definition sample_booking :: relay_booking_snapshot where
  "sample_booking =
     \<lparr>bs_booking_id = 7, bs_mode = Public, bs_state = ActiveBooking, bs_relay_count = 1,
      bs_requested_duration_seconds = 600, bs_requested_until = 600, bs_authority_expires_at = 300,
      bs_assigned_count = 0, bs_provider_ready_count = 0, bs_unfilled_count = 1, bs_created_at = 0,
      bs_ended_at = None, bs_slots = [\<lparr>ss_slot_id = 1, ss_slot_index = 0, ss_state = Queued,
        ss_assignment_id = None, ss_reservation_epoch = None, ss_provider_peer_id = None,
        ss_provider_base_addresses = None, ss_limits = None, ss_provider_lease_expires_at = None,
        ss_recovery_expires_at = None\<rparr>]\<rparr>"

definition sample_codec :: booking_codec where
  "sample_codec =
     \<lparr>bk_uuid_to_string = (\<lambda>_. ''7''), hv_to_str = (\<lambda>v. Some (hv_bytes v)),
      hv_from_str = (\<lambda>s. Some \<lparr>hv_bytes = s, hv_sensitive = False\<rparr>),
      json_of_create = (\<lambda>_. Some ''create''), json_of_failed = (\<lambda>_. Some ''failed''),
      json_snapshot = (\<lambda>s. if s = ''booking'' then Some sample_booking else None),
      json_error = (\<lambda>s. if s = ''gone'' then Some \<lparr>er_code = AuthorityEnded, er_error = ''ended''\<rparr> else None)\<rparr>"

definition header :: "string \<Rightarrow> string \<Rightarrow> string \<times> header_value" where
  "header name text = (name, \<lparr>hv_bytes = text, hv_sensitive = False\<rparr>)"

definition sample_world :: "nat \<Rightarrow> string \<Rightarrow> (string \<times> header_value) list \<Rightarrow> string list booking_world" where
  "sample_world status body headers =
     \<lparr>w_authorization = (\<lambda>i. Inr \<lparr>au_header = \<lparr>hv_bytes = ''Bearer t'', hv_sensitive = True\<rparr>, au_revision = of_nat i\<rparr>),
      w_send = (\<lambda>i rq. Inr \<lparr>hs_url = hq_url rq, hs_status = (if i = 0 then 401 else status),
        hs_headers = header ''cache-control'' ''no-store'' # header ''content-type'' ''application/json'' # headers,
        hs_content_length = None, hs_chunks = [Inr body]\<rparr>),
      w_refresh = (\<lambda>_ _. Inr ()), w_now = 100\<rparr>"

lemmas booking_sample_defs = path_urls_def sample_booking_def sample_codec_def header_def sample_world_def

lemma sample_ascii:
  "eq_ignore_ascii_case ''no-store'' ''no-store''" "eq_ignore_ascii_case ''application/json'' ''application/json''"
  "valid_sensitive_bearer_header \<lparr>hv_bytes = ''Bearer t'', hv_sensitive = True\<rparr>"
  by (simp_all add: eq_ignore_ascii_case_def valid_sensitive_bearer_header_def ascii_defs char_eval)

definition sample_request :: "http_method \<Rightarrow> string list \<Rightarrow> string option \<Rightarrow> string option \<Rightarrow> string list http_request" where
  "sample_request method url key payload =
     \<lparr>hq_method = method, hq_url = url, hq_timeout = RELAY_HTTP_REQUEST_TIMEOUT,
      hq_authorization = \<lparr>hv_bytes = ''Bearer t'', hv_sensitive = True\<rparr>,
      hq_idempotency_key = map_option (\<lambda>k. \<lparr>hv_bytes = k, hv_sensitive = False\<rparr>) key, hq_body = payload\<rparr>"

lemma sample_send:
  assumes "length body \<le> 100" "get_all ''cache-control'' headers = []"
  shows "booking_send sample_codec (sample_world status body headers) op method url key payload =
    (Inr \<lparr>rw_status = status, rw_headers = header ''cache-control'' ''no-store'' #
        header ''content-type'' ''application/json'' # headers, rw_body = body\<rparr>,
     [Sent (sample_request method url key payload), RefreshAfterUnauthorized 0,
      Sent (sample_request method url key payload)])"
  using assms
  by (cases key) (simp_all add: booking_send_def sample_ascii key_header_def sample_world_def sample_codec_def
      raw_response_read_def require_no_store_def single_header_def get_all_def header_def header_text_def
      require_exact_response_url_def refreshable_rejection_def booking_consts Let_def sample_request_def)

theorem booking_requests_bounded_witness:
  "(let actions = snd (booking_send sample_codec (sample_world 201 ''booking'' []) Create POST [''x''] (Some ''k'') None)
    in length actions = 3 \<and> length (filter is_sent actions) = 2 \<and>
      (\<exists>rq. hd actions = Sent rq \<and>
        first_rejected sample_codec (sample_world 201 ''booking'' []) Create POST [''x''] None rq 0))"
proof -
  note send = sample_send [of "''booking''" "[]" 201 Create POST "[''x'']" "Some ''k''" None, simplified get_all_def, simplified]
  have "\<forall>k. Some ''k'' = Some k \<longrightarrow> hv_from_str sample_codec k \<noteq> None"
    by (simp add: sample_codec_def)
  from booking_requests_bounded [OF send this] show ?thesis
    by (simp add: send Let_def)
qed

lemma sample_decode:
  assumes "length (get_all ''content-type'' headers) = 0"
  shows "decode_snapshot sample_codec op 100 \<lparr>rw_status = status, rw_headers =
      header ''cache-control'' ''no-store'' # header ''content-type'' ''application/json'' # headers,
      rw_body = ''booking''\<rparr> = Inr sample_booking"
proof -
  have "validate_booking op 100 sample_booking = Inr ()"
    by (simp add: booking_validation booking_well_formed_def state_well_formed_def slot_well_formed_def
        has_provider_def sample_booking_def)
  then show ?thesis
    using assms by (simp add: decode_snapshot_def require_json_content_type_def single_header_def get_all_def
        header_def header_text_def sample_codec_def sample_ascii decode_json_def)
qed

definition sample_create :: create_relay_booking_request where
  "sample_create = \<lparr>cq_mode = Public, cq_requested_duration_seconds = 600, cq_relay_count = 1\<rparr>"

lemma sample_fields:
  "json_of_create sample_codec rq = Some ''create''" "w_now (sample_world status body headers) = 100"
  "bk_uuid_to_string sample_codec i = ''7''" "hv_to_str sample_codec v = Some (hv_bytes v)"
  "json_error sample_codec ''gone'' = Some \<lparr>er_code = AuthorityEnded, er_error = ''ended''\<rparr>"
  by (simp_all add: sample_codec_def sample_world_def)

lemma sample_created_response:
  "created_response sample_codec ''/relay-bookings'' sample_create 100
      \<lparr>rw_status = 201, rw_headers = header ''cache-control'' ''no-store'' #
        header ''content-type'' ''application/json'' # [header ''location'' ''/relay-bookings/7''],
       rw_body = ''booking''\<rparr> =
    Inr \<lparr>cp_disposition = Created, cp_location = ''/relay-bookings/7'', cp_snapshot = sample_booking\<rparr>"
proof -
  have "length (get_all ''content-type'' [header ''location'' ''/relay-bookings/7'']) = 0"
    by (simp add: get_all_def header_def)
  from sample_decode [OF this, of Create 201] show ?thesis
    unfolding created_response_def
    by (simp add: require_no_retry_after_def single_header_def get_all_def header_def require_location_def
        header_text_def sample_fields sample_create_def sample_booking_def)
qed

lemma sample_created:
  "fst (booking_create path_urls sample_codec [] (sample_world 201 ''booking'' [header ''location'' ''/relay-bookings/7''])
      ''k'' sample_create) =
    Inr \<lparr>cp_disposition = Created, cp_location = ''/relay-bookings/7'', cp_snapshot = sample_booking\<rparr>"
proof -
  have "booking_endpoint path_urls [] Create [''relay-bookings''] = Inr [''relay-bookings'']"
    "trim_end_matches (CHR ''/'') (url_path path_urls [''relay-bookings'']) = ''/relay-bookings''"
    by (simp_all add: booking_endpoint_def path_urls_def trim_end_matches_def)
  moreover have "validate_create sample_create = Inr ()"
    by (simp add: validate_create_def sample_create_def booking_consts)
  moreover have "get_all ''cache-control'' [header ''location'' ''/relay-bookings/7''] = []"
    by (simp add: get_all_def header_def)
  ultimately show ?thesis
    by (simp add: booking_create_def with_endpoint_def with_raw_def sample_fields sample_send
        sample_created_response Let_def)
qed

theorem booking_results_valid_witness:
  "booking_well_formed 100 sample_booking \<and> bs_relay_count sample_booking = cq_relay_count sample_create"
  using booking_results_valid [THEN conjunct2, THEN conjunct1, THEN spec, THEN mp, OF sample_created]
  by (simp add: sample_fields)

lemma sample_deleted:
  "fst (booking_delete path_urls sample_codec [] (sample_world 410 ''gone'' []) 7) =
    Inl (HttpError Delete 410 AuthorityEnded None None)"
proof -
  have "booking_endpoint path_urls [] Delete [''relay-bookings'', ''7''] = Inr [''relay-bookings'', ''7'']"
    by (simp add: booking_endpoint_def path_urls_def)
  moreover have "get_all ''cache-control'' [] = []"
    by (simp add: get_all_def)
  moreover have "\<not> trims_to_empty ''ended''"
    by (rule graphic_not_blank) (simp add: ascii_defs char_eval)
  ultimately show ?thesis
    by (simp add: booking_delete_def with_endpoint_def with_raw_def sample_send sample_fields http_failure_def
        decode_http_error_def is_success_def require_json_content_type_def single_header_def get_all_def header_def
        header_text_def sample_ascii decode_json_def validate_error_status_def
        status_of_code_def parse_retry_after_def error_location_def)
qed

theorem booking_errors_exact_witness:
  "AuthorityEnded \<in> set (codes_of_operation Delete) \<and> status_of_code AuthorityEnded = 410 \<and>
    \<not> is_retryable (HttpError Delete 410 AuthorityEnded None None)"
  using booking_errors_exact [of path_urls sample_codec "[]" "sample_world 410 ''gone'' []"
      "HttpError Delete 410 AuthorityEnded None None" Delete AuthorityEnded] sample_deleted
  by auto

text \<open>A header made by the credential's \<open>to_sensitive_bearer_header\<close> passes the client's check.\<close>

lemma bearer_header_accepted:
  assumes bytes: "\<And>b v. header_value_from_bytes E b = Some v \<Longrightarrow> hv_bytes v = b"
    and header: "to_sensitive_bearer_header E c = Inr value"
  shows "valid_sensitive_bearer_header value"
proof -
  obtain v where "header_value_from_bytes E (''Bearer '' @ compact c) = Some v" "value = v\<lparr>hv_sensitive := True\<rparr>"
    "compact c \<noteq> []" "list_all is_ascii_graphic (compact c)"
    using header by (auto simp: to_sensitive_bearer_header_def and_then_eq_Inr guard_ok)
  with bytes show ?thesis by (auto simp: valid_sensitive_bearer_header_def)
qed

end
