(* ===== verification/Relay_Fence.thy ===== *)
theory Relay_Fence
  imports Route_Catalog P2p_Error Relay_Booking
begin

text \<open>
  The publication fence of a relay coordinator (\<open>core/auki-sdk/src/relay/coordinator.rs\<close>, first
  part): how a failed attempt is classified, the process-wide generation counter, and
  \<open>FencedRouteCatalog\<close>, through which a coordinator publishes, refreshes and withdraws its routes
  in the shared catalog. Its mutex is held across the catalog call, so a method is a function
  of both states. The code of \<open>fence_all\<close> locks the catalog once per route it withdraws, so calls of
  others can come in between; here it is one step, and since each withdrawal names the fence of one
  route of its own, such a call would see some of the routes withdrawn already and nothing else. The set of owned fences is a list without repetitions, in some order; a clock
  is read per catalog call.
\<close>

section \<open>Failed attempts\<close>

record local_relay_fence =
  lf_slot_id :: uuid
  lf_assignment_id :: uuid
  lf_reservation_epoch :: uuid
  lf_local_generation :: u64

datatype peer_relay_error = PeerStopped | PeerP2p p2p_error

definition failure_reason_of :: "peer_relay_error \<Rightarrow> bool \<Rightarrow> reservation_failure_reason" where
  "failure_reason_of err was_publishable =
     (case err of
        PeerStopped \<Rightarrow> if was_publishable then ReservationLost else DialFailure
      | PeerP2p e \<Rightarrow>
          (case e of
             RelayDirectConnectionMismatch _ _ _ \<Rightarrow> AddressMismatch
           | InvalidRemoteAddress _ _ \<Rightarrow> AddressMismatch
           | InvalidRelayRoute _ _ \<Rightarrow> AddressMismatch
           | RelayReservation (InvalidBase _ _) \<Rightarrow> AddressMismatch
           | RelayReservation (BasePeerMismatch _ _) \<Rightarrow> AddressMismatch
           | RelayReservation (DuplicateBase _) \<Rightarrow> AddressMismatch
           | RelayReservation (MissingTransportBase _) \<Rightarrow> AddressMismatch
           | RelayReservation EmptyBases \<Rightarrow> AddressMismatch
           | RelayConfirmationRejected MissingLimits \<Rightarrow> LimitMismatchFailure
           | RelayConfirmationRejected (IncompleteLimits _) \<Rightarrow> LimitMismatchFailure
           | RelayConfirmationRejected (LimitMismatch _ _) \<Rightarrow> LimitMismatchFailure
           | RelayReservationClosed _ \<Rightarrow> if was_publishable then ReservationLost else ReservationDenied
           | RelayConfirmationRejected _ \<Rightarrow> ReservationDenied
           | DnsFailed _ \<Rightarrow> DialFailure
           | DialFailed _ \<Rightarrow> DialFailure
           | _ \<Rightarrow> if was_publishable then ReservationLost else DialFailure))"

definition reservation_failure_is_retryable :: "peer_relay_error \<Rightarrow> bool" where
  "reservation_failure_is_retryable err =
     (case err of PeerStopped \<Rightarrow> False
      | PeerP2p e \<Rightarrow>
          (case e of DnsFailed _ \<Rightarrow> True | DialFailed _ \<Rightarrow> True | RelayReservationClosed _ \<Rightarrow> True
           | SwarmStopped \<Rightarrow> True | IoError _ \<Rightarrow> True | _ \<Rightarrow> False))"

record 'h attempt_provider_failure =
  pf_handle :: "'h option"
  pf_reason :: reservation_failure_reason
  pf_retryable :: bool

datatype 'h reservation_attempt_failure =
  ProviderFailure "'h attempt_provider_failure" | BackendStopped "'h option"

definition attempt_failure_of :: "peer_relay_error \<Rightarrow> 'h option \<Rightarrow> 'h reservation_attempt_failure" where
  "attempt_failure_of err handle =
     (case err of PeerStopped \<Rightarrow> BackendStopped handle
      | PeerP2p _ \<Rightarrow> ProviderFailure \<lparr>pf_handle = handle, pf_reason = failure_reason_of err False,
          pf_retryable = reservation_failure_is_retryable err\<rparr>)"

section \<open>Generations\<close>

text \<open>\<open>fetch_update\<close> returns the previous value; it fails when the successor does not exist.\<close>

definition next_local_relay_generation :: "u64 \<Rightarrow> (unit, u64 \<times> u64) result" where
  "next_local_relay_generation counter =
     (case checked_add counter 1 of None \<Rightarrow> Inl () | Some next \<Rightarrow> Inr (counter, next))"

definition to_route_fence :: "local_relay_fence \<Rightarrow> route_fence" where
  "to_route_fence f =
     \<lparr>f_route_id = lf_slot_id f, f_authority_id = lf_assignment_id f,
      f_authority_epoch = lf_reservation_epoch f, f_local_generation = lf_local_generation f\<rparr>"

section \<open>The fenced catalog\<close>

record fenced_route_state =
  fr_closed :: bool
  fr_owned :: "local_relay_fence list"

record published_relay_route =
  pb_fence :: local_relay_fence
  pb_routes :: relay_circuit_routes
  pb_limits :: expected_relay_limits
  pb_authorized_until :: instant
  pb_relay_peer_id :: peer_id

text \<open>The registry's errors are texts: a fixed one, or a catalog error rendered.\<close>

datatype registry_error = PermanentlyFenced | RenderedCatalog route_catalog_error

type_synonym 'a registry_call = "(registry_error, 'a) result \<times> fenced_route_state \<times> route_catalog"

definition fenced_new :: fenced_route_state where
  "fenced_new = \<lparr>fr_closed = False, fr_owned = []\<rparr>"

definition own :: "local_relay_fence \<Rightarrow> fenced_route_state \<Rightarrow> fenced_route_state" where
  "own f st = st\<lparr>fr_owned := List.insert f (fr_owned st)\<rparr>"

definition disown :: "local_relay_fence \<Rightarrow> fenced_route_state \<Rightarrow> fenced_route_state" where
  "disown f st = st\<lparr>fr_owned := removeAll f (fr_owned st)\<rparr>"

definition fenced_publish ::
  "addr_codec \<Rightarrow> instant \<Rightarrow> published_relay_route \<Rightarrow> fenced_route_state \<Rightarrow> route_catalog \<Rightarrow> unit registry_call"
where
  "fenced_publish C now route st c =
     (if fr_closed st then (Inl PermanentlyFenced, st, c)
      else case publish_confirmed C now
             \<lparr>cr_fence = to_route_fence (pb_fence route), cr_relay_peer_id = pb_relay_peer_id route,
              cr_routes = pb_routes route, cr_limits = pb_limits route,
              cr_authorized_until = pb_authorized_until route\<rparr> c of
        (Inl e, c') \<Rightarrow> (Inl (RenderedCatalog e), st, c')
      | (Inr _, c') \<Rightarrow> (Inr (), own (pb_fence route) st, c'))"

definition gone :: "route_catalog_error \<Rightarrow> bool" where
  "gone e \<longleftrightarrow> e = RouteNotFound \<or> e = StaleRouteFence"

definition fenced_refresh_authority ::
  "instant \<Rightarrow> local_relay_fence \<Rightarrow> instant \<Rightarrow> fenced_route_state \<Rightarrow> route_catalog \<Rightarrow> bool registry_call"
where
  "fenced_refresh_authority now fence authorized_until st c =
     (if fr_closed st \<or> fence \<notin> set (fr_owned st) then (Inr False, st, c)
      else case refresh_authorization now (to_route_fence fence) authorized_until c of
        (Inr _, c') \<Rightarrow> (Inr True, st, c')
      | (Inl e, c') \<Rightarrow> if gone e then (Inr False, disown fence st, c') else (Inl (RenderedCatalog e), st, c'))"

definition fenced_tombstone ::
  "instant \<Rightarrow> local_relay_fence \<Rightarrow> fenced_route_state \<Rightarrow> route_catalog \<Rightarrow> bool registry_call"
where
  "fenced_tombstone now fence st c =
     (if fence \<notin> set (fr_owned st) then (Inr False, st, c)
      else case tombstone now (to_route_fence fence) c of
        (Inr _, c') \<Rightarrow> (Inr True, disown fence st, c')
      | (Inl e, c') \<Rightarrow> if gone e then (Inr False, disown fence st, c') else (Inl (RenderedCatalog e), st, c'))"

text \<open>The loop of \<open>fence_all\<close> keeps the first error; \<open>clock\<close> gives the reading of each call.\<close>

fun fence_loop ::
  "(local_relay_fence \<Rightarrow> instant) \<Rightarrow> local_relay_fence list \<Rightarrow> route_catalog_error option \<Rightarrow>
    fenced_route_state \<Rightarrow> route_catalog \<Rightarrow> route_catalog_error option \<times> fenced_route_state \<times> route_catalog"
where
  "fence_loop clock [] first_error st c = (first_error, st, c)"
| "fence_loop clock (fence # fences) first_error st c =
     (case tombstone (clock fence) (to_route_fence fence) c of
        (Inr _, c') \<Rightarrow> fence_loop clock fences first_error (disown fence st) c'
      | (Inl e, c') \<Rightarrow>
          if gone e then fence_loop clock fences first_error (disown fence st) c'
          else fence_loop clock fences (case first_error of None \<Rightarrow> Some e | Some f \<Rightarrow> Some f) st c')"

definition fenced_fence_all ::
  "(local_relay_fence \<Rightarrow> instant) \<Rightarrow> fenced_route_state \<Rightarrow> route_catalog \<Rightarrow> unit registry_call"
where
  "fenced_fence_all clock st c =
     (case fence_loop clock (fr_owned st) None (st\<lparr>fr_closed := True\<rparr>) c of
        (Some e, st', c') \<Rightarrow> (Inl (RenderedCatalog e), st', c')
      | (None, st', c') \<Rightarrow> (Inr (), st', c'))"

section \<open>The fences in a catalog\<close>

definition fences :: "route_catalog \<Rightarrow> route_fence set" where
  "fences c = sr_fence ` ran (map_of (relay_routes (cat_state c)))"

text \<open>The slots that remain, up to the expiry of their authorization.\<close>

definition slots_kept :: "route_fence set \<Rightarrow> route_catalog \<Rightarrow> route_catalog \<Rightarrow> bool" where
  "slots_kept F c c' \<longleftrightarrow>
     direct_routes (cat_state c') = direct_routes (cat_state c) \<and>
     (\<forall>k r. map_of (relay_routes (cat_state c)) k = Some r \<and> sr_fence r \<notin> F \<longrightarrow>
        (\<exists>r'. map_of (relay_routes (cat_state c')) k = Some r' \<and>
           (r' = r \<or> r' = r\<lparr>sr_publishable := False\<rparr>)))"

lemma slots_kept_refl: "slots_kept F c c"
  by (simp add: slots_kept_def)

lemma slots_kept_trans:
  assumes "slots_kept F c c'" "slots_kept F c' c''"
  shows "slots_kept F c c''"
proof -
  have "\<exists>r''. map_of (relay_routes (cat_state c'')) k = Some r'' \<and> (r'' = r \<or> r'' = r\<lparr>sr_publishable := False\<rparr>)"
    if r: "map_of (relay_routes (cat_state c)) k = Some r" "sr_fence r \<notin> F" for k r
  proof -
    obtain r' where "map_of (relay_routes (cat_state c')) k = Some r'" "r' = r \<or> r' = r\<lparr>sr_publishable := False\<rparr>"
      using assms(1) r by (auto simp: slots_kept_def)
    moreover from this have "sr_fence r' \<notin> F" using r(2) by auto
    ultimately show ?thesis
      using assms(2) by (fastforce simp: slots_kept_def)
  qed
  then show ?thesis
    using assms by (simp add: slots_kept_def)
qed

lemma slots_kept_mono: "slots_kept F c c' \<Longrightarrow> F \<subseteq> G \<Longrightarrow> slots_kept G c c'"
  by (fastforce simp: slots_kept_def)

lemma expire_fences:
  assumes c: "catalog_inv C c" and e: "expire_authorizations now (cat_state c) = Inr s"
  shows "map_of (relay_routes s) k = map_option (expire_entry now) (map_of (relay_routes (cat_state c)) k)"
    "fences (keep_state s c) = fences c" "slots_kept F c (keep_state s c)"
proof -
  note ex = expire_authorizations_Inr [OF e catalog_inv_keyed [OF c]]
  show get: "map_of (relay_routes s) k = map_option (expire_entry now) (map_of (relay_routes (cat_state c)) k)" for k
    by (simp add: ex(2) map_entries_get)
  have "sr_fence (expire_entry now r) = sr_fence r" for r by (simp add: expire_entry_def)
  then show "fences (keep_state s c) = fences c"
    by (force simp: fences_def keep_state_def ran_def get image_iff)
  show "slots_kept F c (keep_state s c)"
    using get by (auto simp: slots_kept_def keep_state_def ex(1) expire_entry_def)
qed

text \<open>Images of the range of a map under an update and a removal.\<close>

lemma image_ran: "f ` ran m = ran (map_option f \<circ> m)"
  by (force simp: ran_def)

lemma image_ran_insert:
  assumes "\<And>y. m k = Some y \<Longrightarrow> f y = f x"
  shows "f ` ran (m(k \<mapsto> x)) = insert (f x) (f ` ran m)"
proof -
  have upd: "map_option f \<circ> m(k \<mapsto> x) = (map_option f \<circ> m)(k \<mapsto> f x)" by auto
  show ?thesis
  proof (cases "m k")
    case None
    then show ?thesis by (simp add: image_ran upd)
  next
    case (Some y)
    then have "(map_option f \<circ> m)(k \<mapsto> f x) = map_option f \<circ> m"
      using assms [OF Some] by (auto simp: fun_eq_iff)
    moreover have "f x \<in> f ` ran m"
      using Some assms [OF Some] by (metis imageI ranI)
    ultimately show ?thesis by (simp add: image_ran upd insert_absorb)
  qed
qed

lemma image_ran_remove:
  assumes "\<And>k' y. m k' = Some y \<Longrightarrow> k' = k \<longleftrightarrow> f y = v"
  shows "f ` ran (m(k := None)) = f ` ran m - {v}"
proof (rule set_eqI)
  fix w
  have "w \<in> f ` ran (m(k := None)) \<longleftrightarrow> (\<exists>k' y. k' \<noteq> k \<and> m k' = Some y \<and> f y = w)"
    by (auto simp: ran_def)
  also have "\<dots> \<longleftrightarrow> (\<exists>k' y. m k' = Some y \<and> f y = w \<and> f y \<noteq> v)"
    using assms by blast
  also have "\<dots> \<longleftrightarrow> w \<in> f ` ran m - {v}"
    by (auto simp: ran_def)
  finally show "w \<in> f ` ran (m(k := None)) \<longleftrightarrow> w \<in> f ` ran m - {v}" .
qed

lemma fences_iff:
  "catalog_inv C c \<Longrightarrow> f \<in> fences c \<longleftrightarrow>
    (\<exists>r. map_of (relay_routes (cat_state c)) (f_route_id f) = Some r \<and> sr_fence r = f)"
proof -
  assume "catalog_inv C c"
  then have "f_route_id (sr_fence r) = k" if "map_of (relay_routes (cat_state c)) k = Some r" for k r
    using catalog_inv_keyed that by (auto simp: keyed_by_fence_def)
  then show ?thesis
    by (auto simp: fences_def ran_def)
qed

lemma expire_entry_fence [simp]: "sr_fence (expire_entry now r) = sr_fence r"
  by (simp add: expire_entry_def)

lemma fences_stored:
  "fences (keep_state s c) = sr_fence ` ran (map_of (relay_routes s))"
  "fences (send_status now s c) = sr_fence ` ran (map_of (relay_routes s))"
  by (simp_all add: fences_def keep_state_def send_status_def)

lemma slots_kept_stored:
  "slots_kept F c (send_status now s c) = slots_kept F c (keep_state s c)"
  by (simp add: slots_kept_def keep_state_def send_status_def)

lemma exhausted_not_gone:
  "expire_authorizations now s = Inl e \<Longrightarrow> \<not> gone e" "bump_revision s = Inl e \<Longrightarrow> \<not> gone e"
  by (auto simp: expire_authorizations_def bump_revision_def advance_revision_def Let_def and_then_def
      ok_or_def gone_def split: if_splits option.splits sum.splits)

lemma tombstone_effect:
  assumes c: "catalog_inv C c" and t: "tombstone now f c = (r, c')"
  shows "fences c' = fences c - {g. g = f \<and> r = Inr ()}" "slots_kept {f} c c'"
    "(\<exists>e. r = Inl e \<and> gone e) \<Longrightarrow> f \<notin> fences c"
proof -
  have "fences c' = fences c - {g. g = f \<and> r = Inr ()} \<and> slots_kept {f} c c' \<and>
    ((\<exists>e. r = Inl e \<and> gone e) \<longrightarrow> f \<notin> fences c)"
  proof (cases "expire_authorizations now (cat_state c)")
    case (Inl e)
    then show ?thesis
      using t exhausted_not_gone(1) [OF Inl] by (auto simp: tombstone_def slots_kept_refl)
  next
    case (Inr s)
    note ex = expire_fences [OF c Inr]
    have fi: "f \<in> fences c \<longleftrightarrow> (\<exists>r. map_of (relay_routes s) (f_route_id f) = Some r \<and> sr_fence r = f)"
      using ex(1) by (auto simp: fences_iff [OF c])
    show ?thesis
    proof (cases "map_of (relay_routes s) (f_route_id f)")
      case None
      then show ?thesis
        using t fi by (auto simp: tombstone_def Inr ex(2) ex(3))
    next
      case (Some entry)
      have removed: "sr_fence ` ran (map_of (AList.delete (f_route_id f) (relay_routes s))) = fences c - {f}"
        if "sr_fence entry = f"
      proof -
        have "keyed_by_fence (relay_routes s)"
          using after_expire(2) [OF c Inr] slots_inv_key(2) by (auto simp: state_inv_def)
        then have key: "map_of (relay_routes s) k = Some r \<Longrightarrow> f_route_id (sr_fence r) = k" for k r
          by (simp add: keyed_by_fence_def)
        have "map_of (relay_routes s) k = Some r \<Longrightarrow> k = f_route_id f \<longleftrightarrow> sr_fence r = f" for k r
          using key [of k r] Some that by (metis option.inject)
        note image_ran_remove [of "map_of (relay_routes s)" "f_route_id f" sr_fence f, OF this]
        moreover have "fences c = sr_fence ` ran (map_of (relay_routes s))"
          using ex(2) by (simp add: fences_stored)
        ultimately show ?thesis by (simp add: delete_conv')
      qed
      have kept: "slots_kept {f} c (keep_state (s'\<lparr>relay_routes := hm_remove (f_route_id f) (relay_routes s)\<rparr>) c)"
        if "direct_routes s' = direct_routes s" "sr_fence entry = f" for s'
      proof -
        have "map_of (AList.delete (f_route_id f) (relay_routes s)) k = map_of (relay_routes s) k"
          if r: "map_of (relay_routes (cat_state c)) k = Some r" "sr_fence r \<noteq> f" for k r
        proof -
          have "map_of (relay_routes s) k = Some (expire_entry now r)" using ex(1) r by simp
          then have "k \<noteq> f_route_id f"
            using Some \<open>sr_fence entry = f\<close> r(2) by auto
          then show ?thesis by (simp add: delete_conv')
        qed
        with ex(3) [of "{f}"] that show ?thesis
          by (auto simp: slots_kept_def keep_state_def hm_remove_def)
      qed
      show ?thesis
      proof (cases "sr_fence entry = f")
        case True
        show ?thesis
          using t True Some removed [OF True] kept [of s] kept ex(2,3) exhausted_not_gone(2) [of s]
          by (auto simp: tombstone_def Inr Let_def fences_stored(2) slots_kept_stored hm_remove_def
              bump_revision_fields split: if_splits sum.splits)
      qed (use t Some fi ex(2,3) in \<open>auto simp: tombstone_def Inr\<close>)
    qed
  qed
  then show "fences c' = fences c - {g. g = f \<and> r = Inr ()}" "slots_kept {f} c c'"
    "(\<exists>e. r = Inl e \<and> gone e) \<Longrightarrow> f \<notin> fences c" by blast+
qed

lemma publish_effect:
  assumes c: "catalog_inv C c" and p: "publish_confirmed C now route c = (r, c')"
  shows "fences c' = fences c \<union> {g. g = cr_fence route \<and> (\<exists>v. r = Inr v)}"
proof (cases "expire_authorizations now (cat_state c)")
  case (Inl e)
  then show ?thesis
    using p by (auto simp: publish_confirmed_def invalid_relay_def Let_def split: if_splits sum.splits)
next
  case (Inr s)
  let ?id = "f_route_id (cr_fence route)"
  note ex = expire_fences [OF c Inr]
  have inserted: "sr_fence ` ran (map_of (bt_insert ?id x (relay_routes s))) = insert (cr_fence route) (fences c)"
    if x: "sr_fence x = cr_fence route" and slot: "slot_check l s route p es = Inr u" for x l p es u
  proof -
    have old: "sr_fence y = cr_fence route" if "map_of (relay_routes s) ?id = Some y" for y
      using slot that by (auto simp: slot_check_def split: if_splits)
    have f: "fences c = sr_fence ` ran (map_of (relay_routes s))"
      using ex(2) by (simp add: fences_stored)
    show ?thesis
      using image_ran_insert [of "map_of (relay_routes s)" ?id sr_fence x] old x by (simp add: bt_insert_get f)
  qed
  show ?thesis
    using p
    by (auto simp: publish_confirmed_def invalid_relay_def Let_def Inr ex(2) fences_stored(2) inserted
        dest!: bump_revision_fields(2) split: if_splits sum.splits)
qed

lemma refresh_effect:
  assumes c: "catalog_inv C c" and p: "refresh_authorization now f until c = (r, c')"
  shows "fences c' = fences c" "(\<exists>e. r = Inl e \<and> gone e) \<Longrightarrow> f \<notin> fences c"
proof -
  have "fences c' = fences c \<and> ((\<exists>e. r = Inl e \<and> gone e) \<longrightarrow> f \<notin> fences c)"
  proof (cases "expire_authorizations now (cat_state c)")
    case (Inl e)
    then show ?thesis
      using p exhausted_not_gone(1) [OF Inl] by (auto simp: refresh_authorization_def)
  next
    case (Inr s)
    note ex = expire_fences [OF c Inr]
    have fi: "f \<in> fences c \<longleftrightarrow> (\<exists>r. map_of (relay_routes s) (f_route_id f) = Some r \<and> sr_fence r = f)"
      using ex(1) by (auto simp: fences_iff [OF c])
    have replaced: "sr_fence ` ran (map_of (bt_insert (f_route_id f) x (relay_routes s))) = fences c"
      if "map_of (relay_routes s) (f_route_id f) = Some y" "sr_fence x = sr_fence y" for x y
    proof -
      have "sr_fence y \<in> sr_fence ` ran (map_of (relay_routes s))"
        using that(1) by (metis imageI ranI)
      then show ?thesis
        using image_ran_insert [of "map_of (relay_routes s)" "f_route_id f" sr_fence x] that ex(2)
        by (simp add: bt_insert_get fences_stored insert_absorb)
    qed
    show ?thesis
    proof (cases "map_of (relay_routes s) (f_route_id f)")
      case None
      then show ?thesis using p fi by (auto simp: refresh_authorization_def Inr ex(2))
    next
      case (Some entry)
      have shape: "c' = keep_state s c \<or>
          relay_routes (cat_state c') = bt_insert (f_route_id f)
            (entry\<lparr>sr_authorized_until := until, sr_publishable := now < until\<rparr>) (relay_routes s)"
        using p unfolding refresh_authorization_def Inr sum.case Some option.case Let_def
        by (auto simp: bump_revision_fields(2) send_status_def split: if_splits sum.splits)
      moreover have "sr_fence ` ran (map_of (bt_insert (f_route_id f)
          (entry\<lparr>sr_authorized_until := until, sr_publishable := now < until\<rparr>) (relay_routes s))) = fences c"
        by (rule replaced [OF Some]) simp
      ultimately have "fences c' = fences c"
        using ex(2) by (metis fences_def)
      moreover have "sr_fence entry \<noteq> f" if "r = Inl e" "gone e" for e
        using p that exhausted_not_gone(2) [of s e] unfolding refresh_authorization_def Inr sum.case Some option.case Let_def
        by (auto simp: gone_def split: if_splits sum.splits)
      ultimately show ?thesis using fi Some by auto
    qed
  qed
  then show "fences c' = fences c" "(\<exists>e. r = Inl e \<and> gone e) \<Longrightarrow> f \<notin> fences c" by blast+
qed

lemma other_effects:
  assumes "catalog_inv C c"
  shows "replace_direct_routes C now routes c = (r1, c') \<Longrightarrow> fences c' = fences c"
    "tombstone_all now c = (r2, c') \<Longrightarrow> fences c' \<subseteq> fences c"
    "catalog_snapshot now c = (r3, c') \<Longrightarrow> fences c' = fences c"
    "commit_if_current now rv fs commit c = (r4, c') \<Longrightarrow> fences c' = fences c"
    "catalog_status now c = (r5, c') \<Longrightarrow> fences c' = fences c"
proof -
  have kept: "sr_fence ` ran (map_of (relay_routes s)) = fences c" if "expire_authorizations now (cat_state c) = Inr s" for s
    using expire_fences(2) [OF assms that] by (simp add: fences_stored)
  show "replace_direct_routes C now routes c = (r1, c') \<Longrightarrow> fences c' = fences c"
    by (auto simp: replace_direct_routes_def Let_def fences_stored kept bump_revision_fields
        split: sum.splits if_splits)
  show "tombstone_all now c = (r2, c') \<Longrightarrow> fences c' \<subseteq> fences c"
    by (auto simp: tombstone_all_def Let_def fences_stored kept split: sum.splits)
  show snap: "catalog_snapshot now c = (r3, c') \<Longrightarrow> fences c' = fences c" for r3
    by (auto simp: catalog_snapshot_def fences_stored kept split: sum.splits)
  show "commit_if_current now rv fs commit c = (r4, c') \<Longrightarrow> fences c' = fences c"
    by (auto simp: commit_if_current_def fences_stored kept split: sum.splits if_splits)
  show "catalog_status now c = (r5, c') \<Longrightarrow> fences c' = fences c"
    using snap by (auto simp: catalog_status_def split: prod.splits sum.splits)
qed

section \<open>Effects of the fenced methods\<close>

lemma to_route_fence_inj [simp]: "to_route_fence f = to_route_fence g \<longleftrightarrow> f = g"
  by (auto simp: to_route_fence_def)

lemma to_route_fence_gen [simp]: "f_local_generation (to_route_fence f) = lf_local_generation f"
  by (simp add: to_route_fence_def)

lemma owned_simps [simp]:
  "set (fr_owned (own f st)) = insert f (set (fr_owned st))" "fr_closed (own f st) = fr_closed st"
  "set (fr_owned (disown f st)) = set (fr_owned st) - {f}" "fr_closed (disown f st) = fr_closed st"
  by (simp_all add: own_def disown_def)

text \<open>One withdrawal: the catalog loses at most this fence, and the fence is gone unless the call
  fails, in which case the registry keeps it.\<close>

lemma withdrawal:
  assumes c: "catalog_inv C c" and t: "tombstone now (to_route_fence f) c = (r, c')"
  shows "catalog_inv C c'" "fences c' \<subseteq> fences c" "slots_kept {to_route_fence f} c c'"
    "(\<exists>e. r = Inl e \<and> \<not> gone e) \<or> to_route_fence f \<notin> fences c'"
proof -
  show "catalog_inv C c'"
    using catalog_step_evolves [OF catalog_step.bury [OF t] c] c by (rule catalog_evolves_props(1))
  show "fences c' \<subseteq> fences c" "slots_kept {to_route_fence f} c c'"
    using tombstone_effect(1,2) [OF c t] by auto
  show "(\<exists>e. r = Inl e \<and> \<not> gone e) \<or> to_route_fence f \<notin> fences c'"
    using tombstone_effect(1,3) [OF c t] by (cases r) auto
qed

lemma fence_loop_effect:
  assumes "fence_loop clock fs err st c = (err', st', c')" "catalog_inv C c"
  shows "catalog_inv C c' \<and> fences c' \<subseteq> fences c \<and> slots_kept (to_route_fence ` set fs) c c' \<and>
    fr_closed st' = fr_closed st \<and> set (fr_owned st') \<subseteq> set (fr_owned st) \<and>
    (\<forall>f \<in> set (fr_owned st). f \<notin> set (fr_owned st') \<longrightarrow> to_route_fence f \<notin> fences c') \<and>
    (err' = None \<longrightarrow> err = None \<and> set fs \<inter> set (fr_owned st') = {})"
  using assms
proof (induction fs arbitrary: err st c)
  case (Cons f fs)
  obtain r c1 where t: "tombstone (clock f) (to_route_fence f) c = (r, c1)" by fastforce
  note w = withdrawal [OF Cons.prems(2) t]
  define failed where "failed \<longleftrightarrow> (\<exists>e. r = Inl e \<and> \<not> gone e)"
  obtain err1 where rest: "fence_loop clock fs err1 (if failed then st else disown f st) c1 = (err', st', c')"
    and err1: "failed \<longrightarrow> err1 \<noteq> None" "\<not> failed \<longrightarrow> err1 = err"
    using Cons.prems(1) t by (cases r; cases err) (auto simp: failed_def split: if_splits)
  note IH = Cons.IH [OF rest w(1)]
  have kept: "slots_kept (to_route_fence ` set (f # fs)) c c'"
    using slots_kept_trans [OF slots_kept_mono [OF w(3)] slots_kept_mono] IH by (metis (no_types, lifting)
      image_insert insert_subset list.simps(15) singletonD subset_insertI subsetI insertI1)
  have gone: "\<not> failed \<Longrightarrow> to_route_fence f \<notin> fences c'"
    using w(4) IH by (auto simp: failed_def)
  show ?case
    using IH kept gone w(2) err1 by (cases failed) auto
qed (auto simp: slots_kept_refl)

section \<open>Coordinators that share a catalog\<close>

text \<open>
  A process runs any number of coordinators on one catalog and one generation counter. \<open>sy_minted\<close>
  records which generations each coordinator drew from the counter (\<open>next_fence\<close> draws one for
  every fence). The peer runtime and the discovery also use the catalog: they replace direct
  routes, take snapshots, commit, and withdraw everything. The order of the hash set of owned
  fences may change at any time.
\<close>

record relay_system =
  sy_catalog :: route_catalog
  sy_counter :: u64
  sy_coordinators :: "nat \<Rightarrow> fenced_route_state"
  sy_minted :: "nat \<Rightarrow> u64 set"

definition system_start :: "route_catalog \<Rightarrow> relay_system" where
  "system_start c = \<lparr>sy_catalog = c, sy_counter = 1, sy_coordinators = (\<lambda>_. fenced_new), sy_minted = (\<lambda>_. {})\<rparr>"

definition system_put :: "nat \<Rightarrow> fenced_route_state \<Rightarrow> route_catalog \<Rightarrow> relay_system \<Rightarrow> relay_system" where
  "system_put i st c s = s\<lparr>sy_catalog := c, sy_coordinators := (sy_coordinators s)(i := st)\<rparr>"

inductive system_step :: "addr_codec \<Rightarrow> relay_system \<Rightarrow> relay_system \<Rightarrow> bool" for C where
  mint: "next_local_relay_generation (sy_counter s) = Inr (g, counter) \<Longrightarrow>
    system_step C s (s\<lparr>sy_counter := counter, sy_minted := (sy_minted s)(i := insert g (sy_minted s i))\<rparr>)"
| publish: "lf_local_generation (pb_fence route) \<in> sy_minted s i \<Longrightarrow>
    fenced_publish C now route (sy_coordinators s i) (sy_catalog s) = (r1, st, c) \<Longrightarrow>
    system_step C s (system_put i st c s)"
| refresh: "fenced_refresh_authority now fence until (sy_coordinators s i) (sy_catalog s) = (r2, st, c) \<Longrightarrow>
    system_step C s (system_put i st c s)"
| withdraw: "fenced_tombstone now fence (sy_coordinators s i) (sy_catalog s) = (r2, st, c) \<Longrightarrow>
    system_step C s (system_put i st c s)"
| fence: "fenced_fence_all clock (sy_coordinators s i) (sy_catalog s) = (r1, st, c) \<Longrightarrow>
    system_step C s (system_put i st c s)"
| reorder: "set owned = set (fr_owned (sy_coordinators s i)) \<Longrightarrow>
    system_step C s (system_put i ((sy_coordinators s i)\<lparr>fr_owned := owned\<rparr>) (sy_catalog s) s)"
| direct: "replace_direct_routes C now routes (sy_catalog s) = (r3, c) \<Longrightarrow>
    system_step C s (s\<lparr>sy_catalog := c\<rparr>)"
| withdraw_all: "tombstone_all now (sy_catalog s) = (r4, c) \<Longrightarrow> system_step C s (s\<lparr>sy_catalog := c\<rparr>)"
| snapshot: "catalog_snapshot now (sy_catalog s) = (r5, c) \<Longrightarrow> system_step C s (s\<lparr>sy_catalog := c\<rparr>)"
| commit: "commit_if_current now rv fs (\<lambda>_. ()) (sy_catalog s) = (r6, c) \<Longrightarrow> system_step C s (s\<lparr>sy_catalog := c\<rparr>)"
| status: "catalog_status now (sy_catalog s) = (r7, c) \<Longrightarrow> system_step C s (s\<lparr>sy_catalog := c\<rparr>)"

definition system_inv :: "addr_codec \<Rightarrow> relay_system \<Rightarrow> bool" where
  "system_inv C s \<longleftrightarrow> catalog_inv C (sy_catalog s) \<and>
     (\<forall>i. \<forall>g \<in> sy_minted s i. g < sy_counter s) \<and>
     (\<forall>f \<in> fences (sy_catalog s). f_local_generation f < sy_counter s) \<and>
     (\<forall>i j. i \<noteq> j \<longrightarrow> sy_minted s i \<inter> sy_minted s j = {}) \<and>
     (\<forall>i. \<forall>f \<in> set (fr_owned (sy_coordinators s i)). lf_local_generation f \<in> sy_minted s i) \<and>
     (\<forall>i. \<forall>f \<in> fences (sy_catalog s). f_local_generation f \<in> sy_minted s i \<longrightarrow>
        f \<in> to_route_fence ` set (fr_owned (sy_coordinators s i)))"

lemma system_invD:
  assumes "system_inv C s"
  shows "catalog_inv C (sy_catalog s)" "g \<in> sy_minted s i \<Longrightarrow> g < sy_counter s"
    "f \<in> fences (sy_catalog s) \<Longrightarrow> f_local_generation f < sy_counter s"
    "g \<in> sy_minted s i \<Longrightarrow> g \<in> sy_minted s j \<Longrightarrow> i = j"
    "h \<in> set (fr_owned (sy_coordinators s i)) \<Longrightarrow> lf_local_generation h \<in> sy_minted s i"
    "f \<in> fences (sy_catalog s) \<Longrightarrow> f_local_generation f \<in> sy_minted s i \<Longrightarrow>
      f \<in> to_route_fence ` set (fr_owned (sy_coordinators s i))"
  using assms unfolding system_inv_def by blast+

text \<open>A call of one coordinator that only removes: its fences shrink, and what it disowns has left
  the catalog.\<close>

lemma system_inv_shrink:
  assumes inv: "system_inv C s" and c: "catalog_inv C c" and fewer: "fences c \<subseteq> fences (sy_catalog s)"
    and st: "set (fr_owned st) \<subseteq> set (fr_owned (sy_coordinators s i))"
    and gone: "\<And>f. f \<in> set (fr_owned (sy_coordinators s i)) \<Longrightarrow> f \<notin> set (fr_owned st) \<Longrightarrow> to_route_fence f \<notin> fences c"
  shows "system_inv C (system_put i st c s)"
proof -
  note d = system_invD [OF inv]
  have "f \<in> to_route_fence ` set (fr_owned st)" if "f \<in> fences c" "f_local_generation f \<in> sy_minted s i" for f
    using d(6) [of f i] that fewer gone by auto
  then show ?thesis
    using c d fewer st unfolding system_inv_def system_put_def by auto
qed

lemma system_inv_catalog:
  assumes inv: "system_inv C s" and c: "catalog_inv C c" and fewer: "fences c \<subseteq> fences (sy_catalog s)"
  shows "system_inv C (s\<lparr>sy_catalog := c\<rparr>)"
  using assms unfolding system_inv_def by auto

lemma catalog_call_inv: "catalog_step C c c' \<Longrightarrow> catalog_inv C c \<Longrightarrow> catalog_inv C c'"
  by (blast dest: catalog_step_evolves catalog_evolves_props(1))

lemma system_inv_mint:
  assumes inv: "system_inv C s" and step: "next_local_relay_generation (sy_counter s) = Inr (g, counter)"
  shows "system_inv C (s\<lparr>sy_counter := counter, sy_minted := (sy_minted s)(i := insert g (sy_minted s i))\<rparr>)"
proof -
  note d = system_invD [OF inv]
  have g: "g = sy_counter s" "sy_counter s < counter"
    using step checked_add_less [of "sy_counter s" 1 counter]
    by (auto simp: next_local_relay_generation_def split: option.splits)
  have below: "h < counter" if "h < sy_counter s" for h
    using that g(2) by (rule order.strict_trans)
  have fresh: "g \<notin> sy_minted s j" "f \<in> fences (sy_catalog s) \<Longrightarrow> f_local_generation f \<noteq> g" for j f
    using d(2) [of g j] d(3) [of f] g(1) by auto
  show ?thesis
    unfolding system_inv_def using d(1) below [OF d(2)] below [OF d(3)] d(4-6) g fresh
    by auto
qed

lemma system_inv_publish:
  assumes inv: "system_inv C s" and minted: "lf_local_generation (pb_fence route) \<in> sy_minted s i"
    and call: "fenced_publish C now route (sy_coordinators s i) (sy_catalog s) = (r, st, c)"
  shows "system_inv C (system_put i st c s)"
proof (cases "fr_closed (sy_coordinators s i)")
  case True
  then show ?thesis
    using call by (intro system_inv_shrink [OF inv]) (auto simp: fenced_publish_def system_invD(1) [OF inv])
next
  case False
  note d = system_invD [OF inv]
  let ?f = "to_route_fence (pb_fence route)"
  obtain r0 c0 where p: "publish_confirmed C now
      \<lparr>cr_fence = ?f, cr_relay_peer_id = pb_relay_peer_id route, cr_routes = pb_routes route,
       cr_limits = pb_limits route, cr_authorized_until = pb_authorized_until route\<rparr> (sy_catalog s) = (r0, c0)"
    by fastforce
  have c0: "catalog_inv C c0"
    using catalog_step.publish [OF p] d(1) by (rule catalog_call_inv)
  note fs = publish_effect [OF d(1) p]
  show ?thesis
  proof (cases r0)
    case (Inl e)
    then show ?thesis
      using call p False c0 fs by (intro system_inv_shrink [OF inv]) (auto simp: fenced_publish_def)
  next
    case (Inr v)
    then have c: "c = c0" "st = own (pb_fence route) (sy_coordinators s i)"
      using call p False by (auto simp: fenced_publish_def)
    have only: "f_local_generation ?f \<in> sy_minted s j \<longleftrightarrow> j = i" for j
      using minted d(4) by auto
    show ?thesis
      using c0 fs d minted Inr only unfolding system_inv_def system_put_def c
      by (auto simp: image_iff)
  qed
qed

lemma system_inv_withdraw:
  assumes inv: "system_inv C s"
    and call: "fenced_tombstone now fence (sy_coordinators s i) (sy_catalog s) = (r, st, c)"
  shows "system_inv C (system_put i st c s)"
proof -
  note d = system_invD [OF inv]
  obtain r0 c0 where t: "tombstone now (to_route_fence fence) (sy_catalog s) = (r0, c0)" by fastforce
  show ?thesis
    using call t withdrawal [OF d(1) t] d(1)
    by (intro system_inv_shrink [OF inv])
      (auto simp: fenced_tombstone_def split: if_splits sum.splits)
qed

lemma system_inv_refresh:
  assumes inv: "system_inv C s"
    and call: "fenced_refresh_authority now fence until (sy_coordinators s i) (sy_catalog s) = (r, st, c)"
  shows "system_inv C (system_put i st c s)"
proof -
  note d = system_invD [OF inv]
  obtain r0 c0 where t: "refresh_authorization now (to_route_fence fence) until (sy_catalog s) = (r0, c0)" by fastforce
  have "catalog_inv C c0"
    using catalog_step.refresh [OF t] d(1) by (rule catalog_call_inv)
  then show ?thesis
    using call t refresh_effect [OF d(1) t] d(1)
    by (intro system_inv_shrink [OF inv])
      (auto simp: fenced_refresh_authority_def split: if_splits sum.splits)
qed

lemma fence_all_effect:
  assumes c: "catalog_inv C c" and call: "fenced_fence_all clock st c = (r, st', c')"
  shows "catalog_inv C c'" "fences c' \<subseteq> fences c" "slots_kept (to_route_fence ` set (fr_owned st)) c c'"
    "fr_closed st'" "set (fr_owned st') \<subseteq> set (fr_owned st)"
    "\<And>f. f \<in> set (fr_owned st) \<Longrightarrow> f \<notin> set (fr_owned st') \<Longrightarrow> to_route_fence f \<notin> fences c'"
    "r = Inr () \<Longrightarrow> fr_owned st' = []"
proof -
  obtain err where l: "fence_loop clock (fr_owned st) None (st\<lparr>fr_closed := True\<rparr>) c = (err, st', c')"
    and r: "r = Inr () \<Longrightarrow> err = None"
    using call by (auto simp: fenced_fence_all_def split: prod.splits option.splits)
  note e = fence_loop_effect [OF l c]
  show "catalog_inv C c'" "fences c' \<subseteq> fences c" "slots_kept (to_route_fence ` set (fr_owned st)) c c'"
    "fr_closed st'" "set (fr_owned st') \<subseteq> set (fr_owned st)"
    "\<And>f. f \<in> set (fr_owned st) \<Longrightarrow> f \<notin> set (fr_owned st') \<Longrightarrow> to_route_fence f \<notin> fences c'"
    using e by auto
  show "fr_owned st' = []" if "r = Inr ()"
  proof -
    have "set (fr_owned st) \<inter> set (fr_owned st') = {}" "set (fr_owned st') \<subseteq> set (fr_owned st)"
      using e r [OF that] by simp_all
    then show ?thesis by (metis Int_absorb1 set_empty)
  qed
qed

lemma system_step_inv:
  assumes "system_step C s t" "system_inv C s"
  shows "system_inv C t"
  using assms
proof (induction rule: system_step.induct)
  case (fence clock s i r1 st c)
  note d = system_invD(1) [OF fence.prems]
  show ?case
    using fence_all_effect [OF d fence.hyps] by (intro system_inv_shrink [OF fence.prems]) auto
next
  case (reorder owned s i)
  then show ?case by (auto simp: system_inv_def system_put_def)
next
  case (direct now routes s r3 c)
  note d = system_invD(1) [OF direct.prems]
  show ?case
    using catalog_call_inv [OF catalog_step.replace [OF direct.hyps] d] other_effects(1) [OF d direct.hyps]
    by (intro system_inv_catalog [OF direct.prems]) auto
next
  case (withdraw_all now s r4 c)
  note d = system_invD(1) [OF withdraw_all.prems]
  show ?case
    using catalog_call_inv [OF catalog_step.bury_all [OF withdraw_all.hyps] d] other_effects(2) [OF d withdraw_all.hyps]
    by (intro system_inv_catalog [OF withdraw_all.prems]) auto
next
  case (snapshot now s r5 c)
  note d = system_invD(1) [OF snapshot.prems]
  show ?case
    using catalog_call_inv [OF catalog_step.snapshot [OF snapshot.hyps] d] other_effects(3) [OF d snapshot.hyps]
    by (intro system_inv_catalog [OF snapshot.prems]) auto
next
  case (commit now rv fs s r6 c)
  note d = system_invD(1) [OF commit.prems]
  show ?case
    using catalog_call_inv [OF catalog_step.commit [OF commit.hyps] d] other_effects(4) [OF d commit.hyps]
    by (intro system_inv_catalog [OF commit.prems]) auto
next
  case (status now s r7 c)
  note d = system_invD(1) [OF status.prems]
  show ?case
    using catalog_call_inv [OF catalog_step.status [OF status.hyps] d] other_effects(5) [OF d status.hyps]
    by (intro system_inv_catalog [OF status.prems]) auto
qed (blast intro: system_inv_mint system_inv_publish system_inv_refresh system_inv_withdraw)+

interpretation relay_sys: invariant_system "system_step C" "system_inv C"
  by unfold_locales (rule system_step_inv)

text \<open>A coordinator that is closed and owns nothing stays so.\<close>

definition silent :: "nat \<Rightarrow> relay_system \<Rightarrow> bool" where
  "silent i s \<longleftrightarrow> fr_closed (sy_coordinators s i) \<and> fr_owned (sy_coordinators s i) = []"

interpretation silent_sys: invariant_system "system_step C" "silent i"
proof (unfold_locales, goal_cases)
  case (1 s t)
  from 1(2,1) show ?case
    by (induction rule: system_step.induct)
      (auto simp: silent_def system_put_def fenced_publish_def fenced_refresh_authority_def fenced_tombstone_def
        fenced_fence_all_def)
qed

lemma system_start_inv: "catalog_new C p direct limits now = Inr c \<Longrightarrow> system_inv C (system_start c)"
  using catalog_new_inv(1) [of C p direct limits now c]
  by (auto simp: system_inv_def system_start_def fenced_new_def fences_def catalog_new_def and_then_eq_Inr
      catalog_from_routes_def Let_def)

lemma snapshot_fences:
  assumes "catalog_inv C c" "catalog_snapshot now c = (Inr snap, c')" "route \<in> set (rs_relay_routes snap)"
  shows "pr_fence route \<in> fences c"
proof -
  obtain s where s: "expire_authorizations now (cat_state c) = Inr s" "snap = route_snapshot_of s now"
    using assms(2) by (auto simp: catalog_snapshot_def split: sum.splits)
  have "keyed_by_fence (relay_routes s)"
    using after_expire(2) [OF assms(1) s(1)] slots_inv_key(2) by (auto simp: state_inv_def)
  then have "bt_ok (relay_routes s)" by (simp add: keyed_by_fence_def)
  from bt.mem_iff [OF this] have "pr_fence route \<in> sr_fence ` ran (map_of (relay_routes s))"
    using assms(3) by (force simp: s(2) route_snapshot_of_def ran_def)
  then show ?thesis
    using expire_fences(2) [OF assms(1) s(1)] by (simp add: fences_stored)
qed

text \<open>
  C5: A fenced coordinator is silent for ever, and fencing it harms nobody else. Take any
  interleaving of any number of coordinators and of the other users of one catalog, with
  arbitrary clock readings, in which a call of \<open>fence_all\<close> by one coordinator succeeds. The call
  keeps the direct routes and every relay route of the other coordinators, up to the expiry of
  its authorization; and from then on, whatever happens (late publications of the same
  coordinator included), no snapshot of the catalog lists a route with a generation that this
  coordinator has drawn.
\<close>

theorem fenced_coordinator_silent:
  assumes start: "catalog_new C p direct limits now0 = Inr c0"
    and run: "(system_step C)\<^sup>*\<^sup>* (system_start c0) s"
    and fenced: "fenced_fence_all clock (sy_coordinators s i) (sy_catalog s) = (Inr (), st, c)"
    and later: "(system_step C)\<^sup>*\<^sup>* (system_put i st c s) t"
    and snap: "catalog_snapshot now (sy_catalog t) = (Inr snap, c')"
  shows "slots_kept {f. f_local_generation f \<in> sy_minted s i} (sy_catalog s) c \<and>
    (\<forall>route \<in> set (rs_relay_routes snap). f_local_generation (pr_fence route) \<notin> sy_minted t i)"
proof -
  have s: "system_inv C s"
    using run system_start_inv [OF start] by (rule relay_sys.run_inv)
  note e = fence_all_effect [OF system_invD(1) [OF s] fenced]
  have "to_route_fence ` set (fr_owned (sy_coordinators s i)) \<subseteq> {f. f_local_generation f \<in> sy_minted s i}"
    using system_invD(5) [OF s] by auto
  with e(3) have kept: "slots_kept {f. f_local_generation f \<in> sy_minted s i} (sy_catalog s) c"
    by (rule slots_kept_mono)
  have "system_inv C t"
    using later system_step_inv [OF system_step.fence [OF fenced] s] by (rule relay_sys.run_inv)
  note t = system_invD [OF this]
  have "silent i (system_put i st c s)"
    using e(4,7) by (simp add: silent_def system_put_def)
  with later have "silent i t" by (rule silent_sys.run_inv)
  then have "f_local_generation f \<notin> sy_minted t i" if "f \<in> fences (sy_catalog t)" for f
    using t(6) [OF that, of i] by (auto simp: silent_def)
  with snapshot_fences [OF t(1) snap] kept show ?thesis by blast
qed

definition sample_local_fence :: local_relay_fence where
  "sample_local_fence = \<lparr>lf_slot_id = 5, lf_assignment_id = 6, lf_reservation_epoch = 7, lf_local_generation = 1\<rparr>"

definition sample_relay_route :: published_relay_route where
  "sample_relay_route = \<lparr>pb_fence = sample_local_fence, pb_routes = sample_routes, pb_limits = sample_limits,
     pb_authorized_until = 100, pb_relay_peer_id = sample_relay\<rparr>"

definition sample_emptied :: route_catalog where
  "sample_emptied = send_status 20 \<lparr>direct_routes = [sample_direct], relay_routes = [], revision = 3\<rparr> sample_catalog"

definition sample_system :: relay_system where
  "sample_system = \<lparr>sy_catalog = sample_filled, sy_counter = 2,
     sy_coordinators = (\<lambda>_. fenced_new)(0 := \<lparr>fr_closed = False, fr_owned = [sample_local_fence]\<rparr>),
     sy_minted = (\<lambda>_. {})(0 := {1})\<rparr>"

lemma sample_published_fenced:
  "fenced_publish ref_codec 10 sample_relay_route fenced_new sample_catalog =
    (Inr (), \<lparr>fr_closed = False, fr_owned = [sample_local_fence]\<rparr>, sample_filled)"
proof -
  have "\<lparr>cr_fence = to_route_fence sample_local_fence, cr_relay_peer_id = sample_relay, cr_routes = sample_routes,
      cr_limits = sample_limits, cr_authorized_until = 100\<rparr> = sample_confirmed"
    by (simp add: sample_confirmed_def to_route_fence_def sample_local_fence_def sample_fence_def)
  then show ?thesis
    by (simp add: fenced_publish_def sample_relay_route_def fenced_new_def sample_publish_route own_def)
qed

lemma sample_system_reached: "(system_step ref_codec)\<^sup>*\<^sup>* (system_start sample_catalog) sample_system"
proof -
  let ?s = "(system_start sample_catalog)\<lparr>sy_counter := 2, sy_minted := (\<lambda>_. {})(0 := {1})\<rparr>"
  have "system_step ref_codec (system_start sample_catalog) ?s"
    using system_step.mint [of "system_start sample_catalog" 1 2 ref_codec 0]
    by (simp add: system_start_def next_local_relay_generation_def checked_add_def)
  moreover have "system_step ref_codec ?s sample_system"
    using system_step.publish [of sample_relay_route ?s 0 ref_codec 10] sample_published_fenced
    by (simp add: system_start_def system_put_def sample_system_def sample_relay_route_def sample_local_fence_def)
  ultimately show ?thesis by simp
qed

lemma sample_fenced:
  "fenced_fence_all (\<lambda>_. 20) (sy_coordinators sample_system 0) (sy_catalog sample_system) =
    (Inr (), \<lparr>fr_closed = True, fr_owned = []\<rparr>, sample_emptied)"
  by (simp add: fenced_fence_all_def sample_system_def tombstone_def to_route_fence_def sample_local_fence_def
      sample_emptied_def sample_catalog_defs catalog_eval hm_remove_def disown_def)

theorem fenced_coordinator_silent_witness:
  "fences (sy_catalog sample_system) = {to_route_fence sample_local_fence} \<and>
    slots_kept {f. f_local_generation f = 1} sample_filled sample_emptied"
proof -
  let ?t = "system_put 0 \<lparr>fr_closed = True, fr_owned = []\<rparr> sample_emptied sample_system"
  have "catalog_snapshot 30 (sy_catalog ?t) =
      (Inr (route_snapshot_of (cat_state sample_emptied) 30), send_status 30 (cat_state sample_emptied) sample_emptied)"
    by (simp add: system_put_def catalog_snapshot_def sample_emptied_def sample_catalog_defs catalog_eval)
  from fenced_coordinator_silent [OF sample_catalog_new sample_system_reached sample_fenced rtranclp.rtrancl_refl this]
  show ?thesis
    by (simp add: sample_system_def fences_def sample_filled_def send_status_def sample_slot_def sample_fence_def
        to_route_fence_def sample_local_fence_def ran_def)
qed

end
