(* ===== verification/Runtime_Policy.thy ===== *)
theory Runtime_Policy
  imports Relay_Booking
begin

text \<open>
  The relay policy of a peer (\<open>AukiRelayConfig\<close> in \<open>core/auki-sdk/src/config.rs\<close>) and the
  decisions the native and browser runtimes share (\<open>core/auki-sdk/src/runtime_policy.rs\<close>):
  authority revisions, what an active booking has to match, and how deadlines bound the
  authorization of a route and the delays of renewals and polls. Delays are nanoseconds.
\<close>

section \<open>The relay policy\<close>

datatype auki_relay_mode = PublicMode | DedicatedMode

record auki_relay_config =
  ac_mode :: auki_relay_mode
  ac_relay_count :: u8
  ac_requested_duration :: duration
  ac_status_poll_interval :: duration

datatype auki_relay_config_error =
    RelayCount u8 u8
  | RequestedDuration u64 u64
  | StatusPollInterval u64 u64

definition dur_nanos :: "duration \<Rightarrow> nat" where
  "dur_nanos d = from_secs (as_secs d) + unat (subsec_nanos d)"

definition whole_seconds_between :: "u64 \<Rightarrow> u64 \<Rightarrow> duration \<Rightarrow> bool" where
  "whole_seconds_between lo hi d \<longleftrightarrow>
     \<not> (subsec_nanos d \<noteq> 0 \<or> \<not> (from_secs lo \<le> dur_nanos d \<and> dur_nanos d \<le> from_secs hi))"

definition validate_relay_config :: "auki_relay_config \<Rightarrow> (auki_relay_config_error, unit) result" where
  "validate_relay_config c =
     (if \<not> (1 \<le> ac_relay_count c \<and> ac_relay_count c \<le> 3) then Inl (RelayCount 1 3)
      else if \<not> whole_seconds_between 300 86400 (ac_requested_duration c)
      then Inl (RequestedDuration 300 86400)
      else if \<not> whole_seconds_between 1 60 (ac_status_poll_interval c)
      then Inl (StatusPollInterval 1 60)
      else Inr ())"

definition auki_relay_config_default :: auki_relay_config where
  "auki_relay_config_default =
     \<lparr>ac_mode = PublicMode, ac_relay_count = 1, ac_requested_duration = duration_from_secs 86400,
      ac_status_poll_interval = duration_from_secs 30\<rparr>"

definition auki_relay_config_new ::
  "auki_relay_mode \<Rightarrow> u8 \<Rightarrow> duration \<Rightarrow> duration \<Rightarrow> (auki_relay_config_error, auki_relay_config) result"
where
  "auki_relay_config_new m n requested poll =
     (let c = \<lparr>ac_mode = m, ac_relay_count = n, ac_requested_duration = requested, ac_status_poll_interval = poll\<rparr>
      in and_then (validate_relay_config c) (\<lambda>_. Inr c))"

section \<open>Decisions\<close>

definition RELAY_AUTHORITY_SAFETY_MARGIN :: nat where
  "RELAY_AUTHORITY_SAFETY_MARGIN = from_secs 20"

definition RELAY_STARTUP_STATUS_POLL_INTERVAL :: nat where
  "RELAY_STARTUP_STATUS_POLL_INTERVAL = from_secs 5"

datatype rejected_authority_revision = AlreadyReplaced | CurrentRevision | StaleRevision

definition judge_rejected_revision :: "u64 \<Rightarrow> u64 \<Rightarrow> rejected_authority_revision" where
  "judge_rejected_revision cur rejected =
     (if cur > rejected then AlreadyReplaced
      else if cur = rejected then CurrentRevision
      else StaleRevision)"

definition next_authority_revision :: "u64 option \<Rightarrow> u64 option" where
  "next_authority_revision cur =
     (case cur of Some r \<Rightarrow> checked_add r 1 | None \<Rightarrow> Some 1)"

datatype active_booking_validation = Match | PolicyMismatch | EndedAuthority

record relay_booking_expectation =
  be_mode :: relay_booking_mode
  be_requested_duration_seconds :: u64
  be_relay_count :: u8

definition booking_mode :: "auki_relay_config \<Rightarrow> relay_booking_mode" where
  "booking_mode policy = (case ac_mode policy of PublicMode \<Rightarrow> Public | DedicatedMode \<Rightarrow> Dedicated)"

definition expectation_from :: "auki_relay_config \<Rightarrow> relay_booking_expectation" where
  "expectation_from policy =
     \<lparr>be_mode = booking_mode policy, be_requested_duration_seconds = as_secs (ac_requested_duration policy),
      be_relay_count = ac_relay_count policy\<rparr>"

definition validate_active_booking ::
  "relay_booking_snapshot \<Rightarrow> relay_booking_expectation \<Rightarrow> active_booking_validation"
where
  "validate_active_booking b expected =
     (if bs_mode b \<noteq> be_mode expected \<or>
         bs_requested_duration_seconds b \<noteq> be_requested_duration_seconds expected \<or>
         bs_relay_count b \<noteq> be_relay_count expected
      then PolicyMismatch
      else if bs_state b \<noteq> ActiveBooking then EndedAuthority
      else Match)"

definition relay_authorized_until :: "instant \<Rightarrow> instant \<Rightarrow> instant \<Rightarrow> instant" where
  "relay_authorized_until requested_until authority_expires_at lease =
     min (min requested_until authority_expires_at) lease - int RELAY_AUTHORITY_SAFETY_MARGIN"

definition cap_relay_renewal_delay :: "nat \<Rightarrow> nat \<Rightarrow> nat \<Rightarrow> nat" where
  "cap_relay_renewal_delay remaining preferred http_timeout =
     min preferred (remaining - RELAY_AUTHORITY_SAFETY_MARGIN - http_timeout)"

text \<open>\<open>signed_duration_since(now).to_std().unwrap_or_default()\<close> is zero for a time in the past.\<close>

definition duration_since :: "instant \<Rightarrow> instant \<Rightarrow> nat" where
  "duration_since later now = nat (later - now)"

definition cap_relay_status_poll_delay :: "nat \<Rightarrow> instant \<Rightarrow> instant \<Rightarrow> nat \<Rightarrow> nat" where
  "cap_relay_status_poll_delay desired usable_until now http_timeout =
     max (min desired (duration_since usable_until now - http_timeout)) 1000000"

section \<open>Their meaning\<close>

lemma relay_authorized_until_le:
  "relay_authorized_until r a l \<le> r - 20000000000" "relay_authorized_until r a l \<le> a - 20000000000"
  "relay_authorized_until r a l \<le> l - 20000000000"
  by (simp_all add: relay_authorized_until_def RELAY_AUTHORITY_SAFETY_MARGIN_def from_secs_def)

lemma validate_active_booking_Match:
  "validate_active_booking b expected = Match \<longleftrightarrow>
    bs_mode b = be_mode expected \<and> bs_requested_duration_seconds b = be_requested_duration_seconds expected \<and>
    bs_relay_count b = be_relay_count expected \<and> bs_state b = ActiveBooking"
  by (auto simp: validate_active_booking_def)

text \<open>A renewal that is started after the capped delay ends, even if it takes the whole HTTP timeout,
  a safety margin before the authority expires; whenever there is room for that at all.\<close>

lemma renewal_in_time:
  assumes "RELAY_AUTHORITY_SAFETY_MARGIN + http_timeout \<le> remaining"
  shows "cap_relay_renewal_delay remaining preferred http_timeout + http_timeout + RELAY_AUTHORITY_SAFETY_MARGIN \<le> remaining"
  using assms by (simp add: cap_relay_renewal_delay_def)

lemma from_secs_le: "from_secs a \<le> from_secs b \<longleftrightarrow> a \<le> b"
  by (simp add: from_secs_def word_le_nat_alt)

lemma whole_seconds_between_iff:
  "whole_seconds_between lo hi d \<longleftrightarrow> subsec_nanos d = 0 \<and> lo \<le> as_secs d \<and> as_secs d \<le> hi"
  by (auto simp: whole_seconds_between_def dur_nanos_def from_secs_le)

text \<open>A validated policy always makes a request that the booking client accepts.\<close>

lemma policy_makes_request:
  assumes "validate_relay_config c = Inr ()"
  shows "create_relay_booking_request_new (be_mode (expectation_from c))
      (be_requested_duration_seconds (expectation_from c)) (be_relay_count (expectation_from c)) =
    Inr \<lparr>cq_mode = booking_mode c, cq_requested_duration_seconds = as_secs (ac_requested_duration c),
      cq_relay_count = ac_relay_count c\<rparr>"
  using assms
  by (auto simp: validate_relay_config_def whole_seconds_between_iff create_relay_booking_request_new_def
      validate_create_def expectation_from_def booking_mode_def booking_consts
      split: if_splits auki_relay_mode.splits)

lemma default_policy_valid: "validate_relay_config auki_relay_config_default = Inr ()"
  by (simp add: validate_relay_config_def auki_relay_config_default_def whole_seconds_between_iff duration_from_secs_def)

end
