(* ===== verification/Relay_Coordinator.thy ===== *)
theory Relay_Coordinator
  imports Relay_Fence Runtime_Policy Relay_Reservation
begin

text \<open>
  The actor that reconciles a booking with reservations and published routes
  (\<open>CoordinatorActor\<close> in \<open>core/auki-sdk/src/relay/coordinator.rs\<close>). The actor owns its state, so a
  handler is a function of that state. Everything outside it (clocks, randomness, the generation
  counter, the route registry, worker and cleanup tasks, the booking service) answers through a
  world: the \<open>n\<close>-th question of a run is answered by entry \<open>n\<close>, so no two answers are assumed
  related. What the actor does to the outside is appended to a log. A hash map is iterated in the
  order of an arbitrary rank.
\<close>

section \<open>State\<close>

record coordinator_config =
  cc_transport :: relay_base_transport
  cc_idempotency_key :: string
  cc_mode :: relay_booking_mode
  cc_requested_duration_seconds :: u64
  cc_relay_count :: u8
  cc_status_poll_interval :: nat
  cc_reservation_retry_budget :: nat
  cc_retry_min :: nat
  cc_retry_max :: nat
  cc_http_timeout :: nat

datatype registry_text =
    RegistryRefused registry_error
  | RegistryMessage string
  | RenderedReservation relay_reservation_error

text \<open>Texts of failed cleanups: fixed ones, rendered errors, and the text of a \<open>JoinError\<close>, alone or after a prefix.\<close>

datatype cleanup_error =
  CleanupMessage string | RenderedPeerError peer_relay_error | JoinErrorText string | PrefixedJoinError string string

datatype coordinator_error =
    DmsFailed relay_booking_client_error
  | ActiveBookingMismatch
  | AuthorityHasEnded
  | CoordinatorStopped
  | RouteRegistryFailed registry_text
  | ReservationCleanup cleanup_error
  | LocalGenerationExhausted
  | RelayEventLagged u64
  | RelayTransportFailed peer_relay_error
  | CoordinatorPanic string

type_synonym handle = relay_reservation_handle

text \<open>A panic unwinds through code that handles errors.\<close>

definition is_panic :: "coordinator_error \<Rightarrow> bool" where
  "is_panic e = (case e of CoordinatorPanic _ \<Rightarrow> True | _ \<Rightarrow> False)"

definition unwinds :: "(coordinator_error, 'a) result \<Rightarrow> bool" where
  "unwinds r = (case r of Inl e \<Rightarrow> is_panic e | Inr _ \<Rightarrow> False)"

definition map_unwind :: "((coordinator_error, 'a) result \<Rightarrow> 'b) \<Rightarrow> (coordinator_error, 'a) result \<Rightarrow> (coordinator_error, 'b) result" where
  "map_unwind f r = (case r of Inl e \<Rightarrow> if is_panic e then Inl e else Inr (f r) | Inr _ \<Rightarrow> Inr (f r))"

text \<open>
  \<open>Option<AbortOnDropHandle>\<close>. Awaiting the handle of a task takes its output; a handle that is awaited
  again after that panics.
\<close>

datatype task_handle = NoTask | RunningTask | ConsumedTask

definition polled_after_completion :: string where
  "polled_after_completion = ''JoinHandle polled after completion''"

datatype local_slot_state =
    Reserving "handle option"
  | ConfirmedSlot handle
  | ReportingFailure reservation_failure_reason

record local_slot =
  ls_fence :: local_relay_fence
  ls_relay_peer_id :: string
  ls_provider_base_addresses :: "string list"
  ls_limits :: expected_relay_limits
  ls_authorized_until :: instant
  ls_state :: local_slot_state
  ls_retry_canceled :: bool
  ls_worker :: task_handle

datatype retirement_action = Reconcile | ReportFailure reservation_failure_reason | RemoveSlot

record retiring_slot =
  rt_local :: local_slot
  rt_action :: retirement_action
  rt_cleanup :: task_handle

datatype child_event =
    StartedChild local_relay_fence handle
  | ConfirmedChild local_relay_fence relay_reservation_snapshot
  | RetryingChild local_relay_fence handle
  | FailedChild local_relay_fence "handle option" reservation_failure_reason
  | RetryFailureChild local_relay_fence reservation_failure_reason
  | CleanupComplete local_relay_fence
  | BackendStoppedChild

datatype relay_transport_event =
    PublishableRoute relay_reservation_snapshot
  | RenewedRoute relay_reservation_snapshot
  | Unpublished handle
  | RejectedConfirmation handle relay_confirmation_rejection
  | CanceledReservation handle

text \<open>What the actor does to the outside.\<close>

datatype coordinator_action =
    TombstoneCall local_relay_fence
  | RefreshCall local_relay_fence instant
  | PublishCall published_relay_route
  | FenceAllCall
  | SpawnWorker local_relay_fence relay_provider
  | SpawnRetirement local_relay_fence task_handle "handle option"
  | SpawnDetached handle
  | AbortWorker local_relay_fence
  | AbortCleanup local_relay_fence
  | AbortDetached handle
  | SendEvent child_event
  | SendEventAfter nat child_event
  | ApiCall relay_operation
  | ReportCall reservation_failed_request

record coordinator_actor =
  ca_config :: coordinator_config
  ca_snapshot :: relay_booking_snapshot
  ca_slots :: "(uuid, local_slot) hashmap"
  ca_retiring :: "(uuid, retiring_slot) hashmap"
  ca_pending :: "(handle, reservation_failure_reason) hashmap"
  ca_detached :: "handle list"
  ca_next_poll :: instant
  ca_next_renew :: instant
  ca_next_expiry :: instant
  ca_control_fenced :: bool
  ca_events_closed :: bool
  ca_tick :: nat
  ca_log :: "coordinator_action list"

record coordinator_world =
  aw_codec :: addr_codec
  aw_utc :: "nat \<Rightarrow> instant"
  aw_mono :: "nat \<Rightarrow> instant"
  aw_random :: "nat \<Rightarrow> nat"
  aw_preferred :: "nat \<Rightarrow> nat \<Rightarrow> nat"
  aw_rank :: "nat \<Rightarrow> uuid \<Rightarrow> nat"
  aw_draw :: "nat \<Rightarrow> (unit, u64) result"
  aw_tombstone :: "nat \<Rightarrow> (registry_error, bool) result"
  aw_refresh :: "nat \<Rightarrow> (registry_error, bool) result"
  aw_publish :: "nat \<Rightarrow> (registry_error, unit) result"
  aw_fence_all :: "nat \<Rightarrow> (registry_error, unit) result"
  aw_join :: "nat \<Rightarrow> (string, (cleanup_error, handle option) result) result"
  aw_cleanup :: "nat \<Rightarrow> (string, (cleanup_error, unit) result) result"
  aw_subscribe :: "nat \<Rightarrow> (peer_relay_error, unit) result"
  aw_active :: "nat \<Rightarrow> relay_booking_snapshot option booking_result option"
  aw_snapshot :: "nat \<Rightarrow> relay_booking_snapshot booking_result option"
  aw_delete :: "nat \<Rightarrow> unit booking_result option"
  aw_passed :: "nat \<Rightarrow> nat"

section \<open>Handlers as state passing\<close>

type_synonym 'a act = "coordinator_world \<Rightarrow> coordinator_actor \<Rightarrow> (coordinator_error, 'a) result \<times> coordinator_actor"

definition act_return :: "'a \<Rightarrow> 'a act" where
  "act_return x = (\<lambda>w s. (Inr x, s))"

definition act_fail :: "coordinator_error \<Rightarrow> 'a act" where
  "act_fail e = (\<lambda>w s. (Inl e, s))"

definition act_bind :: "'a act \<Rightarrow> ('a \<Rightarrow> 'b act) \<Rightarrow> 'b act" where
  "act_bind m f = (\<lambda>w s. case m w s of (Inl e, s') \<Rightarrow> (Inl e, s') | (Inr x, s') \<Rightarrow> f x w s')"

definition act_then :: "unit act \<Rightarrow> 'b act \<Rightarrow> 'b act" where
  "act_then m n = act_bind m (\<lambda>_. n)"

definition act_get :: "(coordinator_actor \<Rightarrow> 'a) \<Rightarrow> 'a act" where
  "act_get f = (\<lambda>w s. (Inr (f s), s))"

definition act_modify :: "(coordinator_actor \<Rightarrow> coordinator_actor) \<Rightarrow> unit act" where
  "act_modify f = (\<lambda>w s. (Inr (), f s))"

definition act_ask :: "(coordinator_world \<Rightarrow> nat \<Rightarrow> 'a) \<Rightarrow> 'a act" where
  "act_ask f = (\<lambda>w s. (Inr (f w (ca_tick s)), s\<lparr>ca_tick := ca_tick s + 1\<rparr>))"

definition act_emit :: "coordinator_action \<Rightarrow> unit act" where
  "act_emit a = act_modify (\<lambda>s. s\<lparr>ca_log := ca_log s @ [a]\<rparr>)"

definition act_lift :: "(coordinator_error, 'a) result \<Rightarrow> 'a act" where
  "act_lift r = (\<lambda>w s. (r, s))"

text \<open>\<open>option.expect(..)\<close>.\<close>

definition act_expect :: "string \<Rightarrow> 'a option \<Rightarrow> 'a act" where
  "act_expect msg x = act_lift (ok_or (CoordinatorPanic msg) x)"

text \<open>A \<open>for\<close> loop that leaves at the first error.\<close>

fun act_each :: "('a \<Rightarrow> unit act) \<Rightarrow> 'a list \<Rightarrow> unit act" where
  "act_each f [] = act_return ()"
| "act_each f (x # xs) = act_then (f x) (act_each f xs)"

definition act_iterate :: "(coordinator_actor \<Rightarrow> (uuid, 'v) hashmap) \<Rightarrow> (uuid \<times> 'v) list act" where
  "act_iterate m = act_bind (act_ask aw_rank) (\<lambda>rank. act_get (\<lambda>s. sort_key (\<lambda>e. rank (fst e)) (m s)))"

section \<open>Helpers\<close>

definition local_slot_of :: "coordinator_actor \<Rightarrow> local_relay_fence \<Rightarrow> local_slot option" where
  "local_slot_of s fence =
     filter_option (\<lambda>l. ls_fence l = fence) (map_of (ca_slots s) (lf_slot_id fence))"

definition snapshot_has_fence :: "relay_booking_snapshot \<Rightarrow> local_relay_fence \<Rightarrow> bool" where
  "snapshot_has_fence b fence \<longleftrightarrow>
     list_ex (\<lambda>slot. ss_slot_id slot = lf_slot_id fence \<and> ss_assignment_id slot = Some (lf_assignment_id fence) \<and>
       ss_reservation_epoch slot = Some (lf_reservation_epoch fence)) (bs_slots b)"

definition is_current :: "coordinator_actor \<Rightarrow> local_relay_fence \<Rightarrow> bool" where
  "is_current s fence \<longleftrightarrow> local_slot_of s fence \<noteq> None \<and> snapshot_has_fence (ca_snapshot s) fence"

definition is_reserving_state :: "local_slot_state \<Rightarrow> bool" where
  "is_reserving_state st = (case st of Reserving _ \<Rightarrow> True | _ \<Rightarrow> False)"

definition is_reserving :: "coordinator_actor \<Rightarrow> local_relay_fence \<Rightarrow> bool" where
  "is_reserving s fence \<longleftrightarrow> is_current s fence \<and>
     (case map_of (ca_slots s) (lf_slot_id fence) of None \<Rightarrow> False | Some l \<Rightarrow> is_reserving_state (ls_state l))"

definition is_reporting :: "local_slot \<Rightarrow> bool" where
  "is_reporting l = (case ls_state l of ReportingFailure _ \<Rightarrow> True | _ \<Rightarrow> False)"

definition confirmed_fence_for_handle :: "(uuid \<times> local_slot) list \<Rightarrow> handle \<Rightarrow> local_relay_fence option" where
  "confirmed_fence_for_handle slots h =
     map_option (\<lambda>e. ls_fence (snd e)) (find (\<lambda>e. ls_state (snd e) = ConfirmedSlot h) slots)"

definition preferred_failure_reason ::
  "reservation_failure_reason \<Rightarrow> reservation_failure_reason \<Rightarrow> reservation_failure_reason"
where
  "preferred_failure_reason observed pending =
     (if observed = LimitMismatchFailure \<or> pending = LimitMismatchFailure then LimitMismatchFailure else pending)"

definition requester_principal_is_refreshable :: "relay_booking_client_error \<Rightarrow> bool" where
  "requester_principal_is_refreshable err =
     (case http_code err of None \<Rightarrow> False
      | Some c \<Rightarrow> is_stale_requester_principal c \<or> is_invalid_requester_principal c)"

definition control_error_ends_authority :: "relay_booking_client_error \<Rightarrow> bool" where
  "control_error_ends_authority err \<longleftrightarrow>
     requester_principal_is_refreshable err \<or> http_code err \<in> {Some AuthorityEnded, Some NotFound}"

text \<open>An awaited operation under a timeout is \<open>None\<close> when the time is over.\<close>

definition bounded_control_call :: "relay_operation \<Rightarrow> 'a booking_result option \<Rightarrow> 'a booking_result" where
  "bounded_control_call op outcome = (case outcome of None \<Rightarrow> Inl (TransportFailed op True) | Some r \<Rightarrow> r)"

definition startup_retry_after :: "coordinator_error \<Rightarrow> nat \<Rightarrow> nat option" where
  "startup_retry_after err fallback =
     (case err of
        DmsFailed e \<Rightarrow>
          if is_retryable e \<or> (case http_code e of None \<Rightarrow> False
             | Some c \<Rightarrow> is_stale_requester_principal c \<or> c \<in> {ActiveBookingConflict, TargetPeerConflict})
          then Some (case retry_after e of None \<Rightarrow> fallback | Some d \<Rightarrow> d) else None
      | _ \<Rightarrow> None)"

definition as_millis :: "nat \<Rightarrow> nat" where
  "as_millis d = min (d div 1000000) (2 ^ 64 - 1)"

text \<open>\<open>gen_range(lo..=hi)\<close> from an arbitrary random number.\<close>

definition gen_range :: "nat \<Rightarrow> nat \<Rightarrow> nat \<Rightarrow> nat" where
  "gen_range lo hi random = lo + random mod (hi - lo + 1)"

definition retry_jitter :: "nat \<Rightarrow> nat \<Rightarrow> nat \<Rightarrow> nat" where
  "retry_jitter minimum maximum random =
     gen_range (as_millis minimum) (as_millis (max maximum minimum)) random * 1000000"

definition saturating_mul64 :: "nat \<Rightarrow> nat \<Rightarrow> nat" where
  "saturating_mul64 a b = min (a * b) (2 ^ 64 - 1)"

definition status_poll_jitter :: "nat \<Rightarrow> nat \<Rightarrow> nat" where
  "status_poll_jitter interval random =
     gen_range (saturating_mul64 (as_millis interval) 80 div 100) (saturating_mul64 (as_millis interval) 120 div 100)
       random * 1000000"

definition booking_needs_fast_status_poll :: "relay_booking_snapshot \<Rightarrow> bool" where
  "booking_needs_fast_status_poll b \<longleftrightarrow>
     length (bs_slots b) \<noteq> unat (bs_relay_count b) \<or> list_ex (\<lambda>slot. ss_state slot \<noteq> Ready) (bs_slots b)"

definition validate_booking_matches ::
  "relay_booking_snapshot \<Rightarrow> coordinator_config \<Rightarrow> (coordinator_error, unit) result"
where
  "validate_booking_matches b config =
     (case validate_active_booking b \<lparr>be_mode = cc_mode config,
          be_requested_duration_seconds = cc_requested_duration_seconds config,
          be_relay_count = cc_relay_count config\<rparr> of
        Match \<Rightarrow> Inr ()
      | PolicyMismatch \<Rightarrow> Inl ActiveBookingMismatch
      | EndedAuthority \<Rightarrow> Inl AuthorityHasEnded)"

text \<open>The message of the parser, which follows the text of the error, is left out.\<close>

definition relay_provider_for_transport ::
  "addr_codec \<Rightarrow> string \<Rightarrow> string list \<Rightarrow> u32 \<Rightarrow> u64 \<Rightarrow> relay_base_transport \<Rightarrow> relay_provider relay_result"
where
  "relay_provider_for_transport C peer bases duration_seconds data_bytes transport =
     and_then (ok_or (InvalidBase peer ''invalid provider Peer ID'') (peer_from_str C peer)) (\<lambda>peer_id.
     and_then (expected_relay_limits_new (duration_from_secs (ucast duration_seconds)) data_bytes) (\<lambda>limits.
     relay_provider_new_dual_transport C peer_id bases transport limits))"

section \<open>Cleanup tasks\<close>

definition cancellation_already_complete :: "peer_relay_error \<Rightarrow> bool" where
  "cancellation_already_complete err \<longleftrightarrow>
     err \<in> {PeerStopped, PeerP2p (RelayReservation StaleHandle), PeerP2p (RelayReservation UnknownHandle)}"

definition cancel_reservation_with_timeout :: "(peer_relay_error, unit) result option \<Rightarrow> (cleanup_error, unit) result" where
  "cancel_reservation_with_timeout outcome =
     (case outcome of
        Some (Inr _) \<Rightarrow> Inr ()
      | Some (Inl e) \<Rightarrow> if cancellation_already_complete e then Inr () else Inl (RenderedPeerError e)
      | None \<Rightarrow> Inl (CleanupMessage ''reservation cancellation timed out''))"

definition keep_first :: "cleanup_error option \<Rightarrow> (cleanup_error, unit) result \<Rightarrow> cleanup_error option" where
  "keep_first first r = (case r of Inr _ \<Rightarrow> first | Inl e \<Rightarrow> (case first of None \<Rightarrow> Some e | Some f \<Rightarrow> Some f))"

text \<open>
  The task that retires a slot. \<open>join\<close> is what awaiting its worker gives, within the timeout; \<open>cancel\<close>
  answers the cancellations. Returned are what awaiting the task gives and the handles it cancels: a
  worker that has been awaited before makes the task panic before it cancels anything.
\<close>

definition spawn_retirement_cleanup ::
  "task_handle \<Rightarrow> (string, (cleanup_error, handle option) result) result option \<Rightarrow> handle option \<Rightarrow>
    (handle \<Rightarrow> (peer_relay_error, unit) result option) \<Rightarrow>
    (string, (cleanup_error, unit) result) result \<times> handle list"
where
  "spawn_retirement_cleanup worker join h cancel =
     (if worker = ConsumedTask then (Inl polled_after_completion, []) else
      let (first, worker_handle) =
        (if worker = NoTask then (None, None) else
         case join of
           Some (Inr (Inr returned)) \<Rightarrow> (None, returned)
         | Some (Inr (Inl e)) \<Rightarrow> (Some e, None)
         | Some (Inl e) \<Rightarrow> (Some (PrefixedJoinError ''reservation worker failed: '' e), None)
         | None \<Rightarrow> (Some (CleanupMessage ''reservation worker cleanup timed out''), None));
        candidates = (case h of None \<Rightarrow> [] | Some x \<Rightarrow> [x]);
        candidates = (case worker_handle of None \<Rightarrow> candidates
          | Some y \<Rightarrow> if y \<in> set candidates then candidates else candidates @ [y]);
        failure = foldl (\<lambda>first c. keep_first first (cancel_reservation_with_timeout (cancel c))) first candidates
      in (Inr (case failure of None \<Rightarrow> Inr () | Some e \<Rightarrow> Inl e), candidates))"

definition retirement_result :: "(string, (cleanup_error, unit) result) result \<Rightarrow> (cleanup_error, unit) result" where
  "retirement_result joined = (case joined of Inl e \<Rightarrow> Inl (JoinErrorText e) | Inr r \<Rightarrow> r)"

definition detached_cleanup_result :: "(string, (cleanup_error, unit) result) result \<Rightarrow> (cleanup_error, unit) result" where
  "detached_cleanup_result joined =
     (case joined of Inl e \<Rightarrow> Inl (PrefixedJoinError ''detached reservation cleanup task failed: '' e) | Inr r \<Rightarrow> r)"

section \<open>Timers\<close>

definition RELAY_RENEW_RETRY_FLOOR :: nat where
  "RELAY_RENEW_RETRY_FLOOR = from_secs 1"

text \<open>\<open>.min()\<close> of the deadlines of the slots that do not only report a failure.\<close>

definition earliest_deadline :: "coordinator_actor \<Rightarrow> instant option" where
  "earliest_deadline s =
     (case map (\<lambda>e. ls_authorized_until (snd e)) (filter (\<lambda>e. \<not> is_reporting (snd e)) (ca_slots s)) of
        [] \<Rightarrow> None | d # ds \<Rightarrow> Some (foldl min d ds))"

definition reset_expiry_timer :: "unit act" where
  "reset_expiry_timer =
     act_bind (act_ask aw_utc) (\<lambda>now.
     act_bind (act_get earliest_deadline) (\<lambda>deadline.
     act_bind (act_ask aw_mono) (\<lambda>mono.
     let next = (case deadline of None \<Rightarrow> now + int (from_secs 86400) | Some d \<Rightarrow> d)
     in act_modify (\<lambda>s. s\<lparr>ca_next_expiry := mono + int (duration_since next now)\<rparr>))))"

definition status_poll_delay :: "nat act" where
  "status_poll_delay =
     act_bind (act_get id) (\<lambda>s.
     act_bind (if booking_needs_fast_status_poll (ca_snapshot s)
         then act_return (min (cc_status_poll_interval (ca_config s)) RELAY_STARTUP_STATUS_POLL_INTERVAL)
         else act_bind (act_ask aw_random) (\<lambda>random.
           act_return (status_poll_jitter (cc_status_poll_interval (ca_config s)) random))) (\<lambda>desired.
     act_bind (act_ask aw_utc) (\<lambda>now.
     act_return (case earliest_deadline s of None \<Rightarrow> desired
       | Some deadline \<Rightarrow> cap_relay_status_poll_delay desired deadline now (cc_http_timeout (ca_config s))))))"

definition set_next_poll :: "nat \<Rightarrow> unit act" where
  "set_next_poll delay =
     act_bind (act_ask aw_mono) (\<lambda>mono. act_modify (\<lambda>s. s\<lparr>ca_next_poll := mono + int delay\<rparr>))"

definition schedule_status_poll :: "bool \<Rightarrow> unit act" where
  "schedule_status_poll immediate =
     (if immediate then set_next_poll 0
      else act_bind (act_ask aw_mono) (\<lambda>mono. act_bind status_poll_delay (\<lambda>delay.
        act_modify (\<lambda>s. s\<lparr>ca_next_poll := mono + int delay\<rparr>))))"

definition set_next_renew :: "nat \<Rightarrow> unit act" where
  "set_next_renew delay =
     act_bind (act_ask aw_mono) (\<lambda>mono. act_modify (\<lambda>s. s\<lparr>ca_next_renew := mono + int delay\<rparr>))"

text \<open>The same with the time read before the delay is computed.\<close>

definition set_next_renew_to :: "nat act \<Rightarrow> unit act" where
  "set_next_renew_to delay =
     act_bind (act_ask aw_mono) (\<lambda>mono. act_bind delay (\<lambda>d. act_modify (\<lambda>s. s\<lparr>ca_next_renew := mono + int d\<rparr>)))"

definition authority_remaining :: "nat act" where
  "authority_remaining =
     act_bind (act_ask aw_utc) (\<lambda>now.
     act_get (\<lambda>s. duration_since (bs_authority_expires_at (ca_snapshot s)) now))"

definition schedule_renewal :: "unit act" where
  "schedule_renewal =
     act_bind authority_remaining (\<lambda>remaining.
     act_bind (act_ask aw_preferred) (\<lambda>preferred.
     act_bind (act_get (\<lambda>s. cc_http_timeout (ca_config s))) (\<lambda>http_timeout.
     set_next_renew (max (cap_relay_renewal_delay remaining (preferred remaining) http_timeout)
       RELAY_RENEW_RETRY_FLOOR))))"

section \<open>Retirement\<close>

definition retirement_already_started :: "local_relay_fence \<Rightarrow> retirement_action \<Rightarrow> bool act" where
  "retirement_already_started fence action =
     act_bind (act_get (\<lambda>s. map_of (ca_retiring s) (lf_slot_id fence))) (\<lambda>r.
     case r of None \<Rightarrow> act_return False
     | Some retiring \<Rightarrow>
         act_bind
           (if ls_fence (rt_local retiring) = fence \<and> action = RemoveSlot
            then act_modify (\<lambda>s. s\<lparr>ca_retiring := hm_insert (lf_slot_id fence) (retiring\<lparr>rt_action := RemoveSlot\<rparr>) (ca_retiring s)\<rparr>)
            else act_return ())
           (\<lambda>_. act_return True))"

definition slot_handle :: "local_slot_state \<Rightarrow> handle option" where
  "slot_handle st = (case st of ConfirmedSlot h \<Rightarrow> Some h | Reserving h \<Rightarrow> h | ReportingFailure _ \<Rightarrow> None)"

definition start_retirement_after_route_fence :: "local_relay_fence \<Rightarrow> retirement_action \<Rightarrow> unit act" where
  "start_retirement_after_route_fence fence action =
     act_bind (act_get (\<lambda>s. map_of (ca_slots s) (lf_slot_id fence))) (\<lambda>removed.
     act_bind (act_expect ''the coordinator serializes slot removal'' removed) (\<lambda>local.
     act_then (act_modify (\<lambda>s. s\<lparr>ca_slots := hm_remove (lf_slot_id fence) (ca_slots s)\<rparr>))
     (act_then (act_emit (SpawnRetirement fence (ls_worker local) (slot_handle (ls_state local))))
     (act_then (act_modify (\<lambda>s. s\<lparr>ca_retiring := hm_insert (lf_slot_id fence)
        \<lparr>rt_local = local\<lparr>ls_retry_canceled := True, ls_worker := NoTask\<rparr>, rt_action = action, rt_cleanup = RunningTask\<rparr>
        (ca_retiring s)\<rparr>))
     reset_expiry_timer))))"

definition registry_result :: "(registry_error, 'a) result \<Rightarrow> 'a act" where
  "registry_result r = act_lift (map_err (\<lambda>e. RouteRegistryFailed (RegistryRefused e)) r)"

definition begin_retirement :: "local_relay_fence \<Rightarrow> retirement_action \<Rightarrow> unit act" where
  "begin_retirement fence action =
     act_bind (retirement_already_started fence action) (\<lambda>started.
     if started then act_return () else
     act_bind (act_get (\<lambda>s. map_of (ca_slots s) (lf_slot_id fence))) (\<lambda>cur.
     case cur of None \<Rightarrow> act_return ()
     | Some local \<Rightarrow>
         if ls_fence local \<noteq> fence then act_return () else
         act_then (act_emit (TombstoneCall fence))
         (act_bind (act_ask aw_tombstone) (\<lambda>r.
          act_bind (registry_result r) (\<lambda>_. start_retirement_after_route_fence fence action)))))"

definition handle_local_failure :: "local_relay_fence \<Rightarrow> reservation_failure_reason \<Rightarrow> unit act" where
  "handle_local_failure fence reason = begin_retirement fence (ReportFailure reason)"

text \<open>The drain joins every cleanup task and keeps the first error.\<close>

fun drain_retirements :: "uuid list \<Rightarrow> cleanup_error option \<Rightarrow> cleanup_error option act" where
  "drain_retirements [] first = act_return first"
| "drain_retirements (slot_id # ids) first =
     act_bind (act_get (\<lambda>s. map_of (ca_retiring s) slot_id)) (\<lambda>r.
     case r of None \<Rightarrow> drain_retirements ids first
     | Some retiring \<Rightarrow>
         if rt_cleanup retiring = ConsumedTask then act_fail (CoordinatorPanic polled_after_completion) else
         act_bind (act_ask aw_cleanup) (\<lambda>joined.
         act_then (act_modify (\<lambda>s. s\<lparr>ca_retiring := hm_remove slot_id (ca_retiring s)\<rparr>))
         (drain_retirements ids (keep_first first (retirement_result joined)))))"

fun drain_detached :: "handle list \<Rightarrow> cleanup_error option \<Rightarrow> cleanup_error option act" where
  "drain_detached [] first = act_return first"
| "drain_detached (h # hs) first =
     act_bind (act_ask aw_cleanup) (\<lambda>joined.
     act_then (act_modify (\<lambda>s. s\<lparr>ca_detached := removeAll h (ca_detached s)\<rparr>))
     (drain_detached hs (keep_first first (detached_cleanup_result joined))))"

definition drain_cleanup_tasks :: "unit act" where
  "drain_cleanup_tasks =
     act_bind (act_iterate ca_retiring) (\<lambda>entries.
     act_bind (drain_retirements (map fst entries) None) (\<lambda>first.
     act_bind (act_get ca_detached) (\<lambda>detached.
     act_bind (drain_detached detached first) (\<lambda>first.
     case first of Some e \<Rightarrow> act_fail (ReservationCleanup e)
     | None \<Rightarrow> reset_expiry_timer))))"

definition mark_all_removed :: "unit act" where
  "mark_all_removed =
     act_modify (\<lambda>s. s\<lparr>ca_retiring := map_entries (\<lambda>_ r. r\<lparr>rt_action := RemoveSlot\<rparr>) (ca_retiring s)\<rparr>)"

definition remove_all_slots :: "unit act" where
  "remove_all_slots =
     act_bind (act_iterate ca_slots) (\<lambda>entries.
     act_then (act_each (\<lambda>e. begin_retirement (ls_fence (snd e)) RemoveSlot) entries)
     (act_then mark_all_removed drain_cleanup_tasks))"

definition fence_control_plane :: "unit act" where
  "fence_control_plane =
     act_then (act_modify (\<lambda>s. s\<lparr>ca_control_fenced := True, ca_events_closed := True\<rparr>)) remove_all_slots"

definition force_retire :: "local_relay_fence \<Rightarrow> unit act" where
  "force_retire fence =
     act_bind (retirement_already_started fence RemoveSlot) (\<lambda>started.
     act_bind (act_get (\<lambda>s. local_slot_of s fence)) (\<lambda>cur.
     if \<not> started \<and> cur \<noteq> None then start_retirement_after_route_fence fence RemoveSlot
     else act_return ()))"

definition force_retire_all :: "(registry_error, unit) result act" where
  "force_retire_all =
     act_then (act_modify (\<lambda>s. s\<lparr>ca_control_fenced := True, ca_events_closed := True\<rparr>))
     (act_then (act_emit FenceAllCall)
     (act_bind (act_ask aw_fence_all) (\<lambda>routes.
      act_bind (act_iterate ca_slots) (\<lambda>entries.
      act_then (act_each (\<lambda>e. force_retire (ls_fence (snd e))) entries)
      (act_then mark_all_removed (act_return routes))))))"

text \<open>The cleanup runs to its end before an error of the registry is reported.\<close>

definition force_fence :: "unit act" where
  "force_fence = (\<lambda>w s.
     case force_retire_all w s of
       (Inl e, s1) \<Rightarrow> (Inl e, s1)
     | (Inr routes, s1) \<Rightarrow>
         (case drain_cleanup_tasks w s1 of (cleanup, s2) \<Rightarrow>
            if unwinds cleanup then (cleanup, s2) else
            case routes of
              Inl e \<Rightarrow> (Inl (RouteRegistryFailed (RegistryRefused e)), s2)
            | Inr _ \<Rightarrow> (cleanup, s2)))"

section \<open>Reconciliation with a snapshot\<close>

record desired_slot =
  ds_assignment_id :: uuid
  ds_reservation_epoch :: uuid
  ds_peer :: string
  ds_bases :: "string list"
  ds_limits :: relay_limits
  ds_lease :: instant

definition desired_of :: "relay_slot_snapshot \<Rightarrow> (uuid \<times> desired_slot) option" where
  "desired_of slot =
     (if ss_state slot \<noteq> Ready then None
      else case (ss_assignment_id slot, ss_reservation_epoch slot, ss_provider_peer_id slot,
          ss_provider_base_addresses slot, ss_limits slot, ss_provider_lease_expires_at slot) of
        (Some a, Some e, Some p, Some bs, Some l, Some t) \<Rightarrow>
          Some (ss_slot_id slot, \<lparr>ds_assignment_id = a, ds_reservation_epoch = e, ds_peer = p, ds_bases = bs,
            ds_limits = l, ds_lease = t\<rparr>)
      | _ \<Rightarrow> None)"

definition desired_slots :: "relay_booking_snapshot \<Rightarrow> (uuid, desired_slot) hashmap" where
  "desired_slots b = foldl (\<lambda>m e. hm_insert (fst e) (snd e) m) [] (List.map_filter desired_of (bs_slots b))"

definition is_stale_slot :: "(uuid, desired_slot) hashmap \<Rightarrow> local_slot \<Rightarrow> bool" where
  "is_stale_slot desired local =
     (case map_of desired (lf_slot_id (ls_fence local)) of None \<Rightarrow> True
      | Some d \<Rightarrow> ds_assignment_id d \<noteq> lf_assignment_id (ls_fence local) \<or>
          ds_reservation_epoch d \<noteq> lf_reservation_epoch (ls_fence local) \<or>
          ds_peer d \<noteq> ls_relay_peer_id local \<or> ds_bases d \<noteq> ls_provider_base_addresses local \<or>
          as_secs (limits_duration (ls_limits local)) \<noteq> ucast (rl_duration_seconds (ds_limits d)) \<or>
          limit_data_bytes (ls_limits local) \<noteq> rl_data_bytes_per_direction (ds_limits d))"

definition next_fence :: "uuid \<Rightarrow> uuid \<Rightarrow> uuid \<Rightarrow> local_relay_fence act" where
  "next_fence slot_id assignment_id epoch =
     act_bind (act_ask aw_draw) (\<lambda>r.
     act_bind (act_lift (map_err (\<lambda>_. LocalGenerationExhausted) r)) (\<lambda>g.
     act_return \<lparr>lf_slot_id = slot_id, lf_assignment_id = assignment_id, lf_reservation_epoch = epoch,
       lf_local_generation = g\<rparr>))"

definition put_slot :: "uuid \<Rightarrow> local_slot \<Rightarrow> unit act" where
  "put_slot slot_id local = act_modify (\<lambda>s. s\<lparr>ca_slots := hm_insert slot_id local (ca_slots s)\<rparr>)"

text \<open>\<open>get_mut(..).expect(..)\<close> and an assignment through it.\<close>

definition update_slot :: "string \<Rightarrow> uuid \<Rightarrow> (local_slot \<Rightarrow> local_slot) \<Rightarrow> unit act" where
  "update_slot msg slot_id f =
     act_bind (act_get (\<lambda>s. map_of (ca_slots s) slot_id)) (\<lambda>x.
     act_bind (act_expect msg x) (\<lambda>local. put_slot slot_id (f local)))"

definition extend_slot :: "uuid \<Rightarrow> instant \<Rightarrow> unit act" where
  "extend_slot slot_id until =
     update_slot ''the coordinator serializes slot updates'' slot_id (\<lambda>l. l\<lparr>ls_authorized_until := until\<rparr>)"

text \<open>A desired slot that the actor does not have yet.\<close>

definition invalid_slot :: "uuid \<Rightarrow> desired_slot \<Rightarrow> instant \<Rightarrow> unit act" where
  "invalid_slot slot_id d until =
     act_bind (next_fence slot_id (ds_assignment_id d) (ds_reservation_epoch d)) (\<lambda>fence.
     act_bind (act_lift (map_err (\<lambda>_. ActiveBookingMismatch)
       (expected_relay_limits_new (duration_from_secs (ucast (rl_duration_seconds (ds_limits d))))
          (rl_data_bytes_per_direction (ds_limits d))))) (\<lambda>limits.
     act_then (put_slot slot_id
       \<lparr>ls_fence = fence, ls_relay_peer_id = ds_peer d, ls_provider_base_addresses = ds_bases d,
        ls_limits = limits, ls_authorized_until = until, ls_state = ReportingFailure AddressMismatch,
        ls_retry_canceled = False, ls_worker = NoTask\<rparr>)
     (act_emit (SendEvent (RetryFailureChild fence AddressMismatch)))))"

definition create_slot :: "uuid \<Rightarrow> desired_slot \<Rightarrow> instant \<Rightarrow> relay_provider \<Rightarrow> unit act" where
  "create_slot slot_id d until provider =
     act_bind (next_fence slot_id (ds_assignment_id d) (ds_reservation_epoch d)) (\<lambda>fence.
     act_bind (act_ask (\<lambda>w _. peer_to_string (aw_codec w) (rp_relay_peer_id provider))) (\<lambda>peer.
     act_then (put_slot slot_id
       \<lparr>ls_fence = fence, ls_relay_peer_id = peer, ls_provider_base_addresses = ds_bases d,
        ls_limits = rp_expected_limits provider, ls_authorized_until = until, ls_state = Reserving None,
        ls_retry_canceled = False, ls_worker = NoTask\<rparr>)
     (act_then (act_emit (SpawnWorker fence provider))
     (update_slot ''the coordinator serializes slot creation'' slot_id (\<lambda>l. l\<lparr>ls_worker := RunningTask\<rparr>)))))"

definition add_slot :: "uuid \<Rightarrow> desired_slot \<Rightarrow> instant \<Rightarrow> unit act" where
  "add_slot slot_id d until =
     act_bind (act_get (\<lambda>s. cc_transport (ca_config s))) (\<lambda>transport.
     act_bind (act_ask (\<lambda>w _. relay_provider_for_transport (aw_codec w) (ds_peer d) (ds_bases d)
         (rl_duration_seconds (ds_limits d)) (rl_data_bytes_per_direction (ds_limits d)) transport)) (\<lambda>r.
     case r of Inl _ \<Rightarrow> invalid_slot slot_id d until
     | Inr provider \<Rightarrow> create_slot slot_id d until provider))"

definition keep_slot :: "uuid \<Rightarrow> local_slot \<Rightarrow> instant \<Rightarrow> unit act" where
  "keep_slot slot_id existing until =
     (case ls_state existing of
        ConfirmedSlot _ \<Rightarrow>
          act_then (act_emit (RefreshCall (ls_fence existing) until))
          (act_bind (act_ask aw_refresh) (\<lambda>r.
           act_bind (registry_result r) (\<lambda>refreshed.
           if refreshed then extend_slot slot_id until else begin_retirement (ls_fence existing) Reconcile)))
      | Reserving _ \<Rightarrow> extend_slot slot_id until
      | ReportingFailure _ \<Rightarrow> extend_slot slot_id until)"

definition apply_desired :: "uuid \<times> desired_slot \<Rightarrow> unit act" where
  "apply_desired e =
     act_bind (act_get id) (\<lambda>s.
     let slot_id = fst e; d = snd e;
         until = relay_authorized_until (bs_requested_until (ca_snapshot s))
           (bs_authority_expires_at (ca_snapshot s)) (ds_lease d)
     in if hm_contains (ca_retiring s) slot_id then act_return () else
        act_bind (act_ask aw_utc) (\<lambda>now.
        if until \<le> now then
          (case map_of (ca_slots s) slot_id of None \<Rightarrow> act_return ()
           | Some existing \<Rightarrow> begin_retirement (ls_fence existing) RemoveSlot)
        else
          (case map_of (ca_slots s) slot_id of
             Some existing \<Rightarrow> keep_slot slot_id existing until
           | None \<Rightarrow> add_slot slot_id d until)))"

definition apply_current_snapshot :: "unit act" where
  "apply_current_snapshot =
     act_bind (act_get ca_snapshot) (\<lambda>b.
     if bs_state b \<noteq> ActiveBooking then act_then remove_all_slots (act_fail AuthorityHasEnded) else
     let desired = desired_slots b
     in act_bind (act_iterate ca_slots) (\<lambda>entries.
        act_then (act_each (\<lambda>fence. begin_retirement fence Reconcile)
          (map (\<lambda>e. ls_fence (snd e)) (filter (\<lambda>e. is_stale_slot desired (snd e)) entries)))
        (act_bind (act_iterate (\<lambda>_. desired)) (\<lambda>order.
         act_then (act_each apply_desired order) reset_expiry_timer))))"

definition set_snapshot :: "relay_booking_snapshot \<Rightarrow> unit act" where
  "set_snapshot b = act_modify (\<lambda>s. s\<lparr>ca_snapshot := b\<rparr>)"

definition apply_snapshot :: "relay_booking_snapshot \<Rightarrow> unit act" where
  "apply_snapshot b =
     act_bind (act_get id) (\<lambda>s.
     if bs_booking_id b \<noteq> bs_booking_id (ca_snapshot s) then act_fail ActiveBookingMismatch
     else if bs_state b \<noteq> ActiveBooking then
       act_then (set_snapshot b) (act_then fence_control_plane (act_fail AuthorityHasEnded))
     else act_then (act_lift (validate_booking_matches b (ca_config s)))
       (act_then (set_snapshot b) apply_current_snapshot))"

section \<open>Calls of the booking service\<close>

text \<open>An error that a fresh credential can cure is tried a second time.\<close>

definition control_call :: "relay_operation \<Rightarrow> (coordinator_world \<Rightarrow> nat \<Rightarrow> 'a booking_result option) \<Rightarrow> 'a booking_result act" where
  "control_call op answer =
     act_then (act_emit (ApiCall op))
     (act_bind (act_ask (\<lambda>w n. bounded_control_call op (answer w n))) (\<lambda>r.
      case r of
        Inl e \<Rightarrow> if requester_principal_is_refreshable e
          then act_then (act_emit (ApiCall op)) (act_ask (\<lambda>w n. bounded_control_call op (answer w n))) else act_return r
      | Inr _ \<Rightarrow> act_return r))"

definition end_authority :: "unit act" where
  "end_authority = act_then fence_control_plane (act_fail AuthorityHasEnded)"

definition retry_delay :: "nat \<Rightarrow> nat \<Rightarrow> nat act" where
  "retry_delay lo hi = act_bind (act_ask aw_random) (\<lambda>random. act_return (retry_jitter lo hi random))"

definition coordinator_poll :: "unit act" where
  "coordinator_poll =
     act_bind (act_get ca_config) (\<lambda>config.
     act_bind (control_call Active aw_active) (\<lambda>r.
     case r of
       Inr (Some b) \<Rightarrow> act_then (apply_snapshot b) (act_bind status_poll_delay set_next_poll)
     | Inr None \<Rightarrow> end_authority
     | Inl e \<Rightarrow>
         if control_error_ends_authority e then end_authority
         else act_bind (retry_delay (cc_retry_min config) (cc_retry_max config)) set_next_poll))"

definition coordinator_renew :: "unit act" where
  "coordinator_renew =
     act_bind (act_get ca_config) (\<lambda>config.
     act_bind (control_call Renew aw_snapshot) (\<lambda>r.
     case r of
       Inr b \<Rightarrow> act_then (apply_snapshot b) (act_then schedule_renewal (schedule_status_poll False))
     | Inl e \<Rightarrow>
         if http_code e = Some PaymentRequired then set_next_renew_to authority_remaining
         else if control_error_ends_authority e then end_authority
         else act_bind authority_remaining (\<lambda>remaining.
           let retry_window = cap_relay_renewal_delay remaining remaining (cc_http_timeout config)
           in if retry_window = 0 then end_authority
              else let retry_max = min (cc_retry_max config) retry_window;
                       retry_min = min (cc_retry_min config) retry_max
                   in set_next_renew_to (retry_delay retry_min retry_max))))"

definition until_protected :: "nat act" where
  "until_protected =
     act_bind (act_ask aw_mono) (\<lambda>mono.
     act_get (\<lambda>s. duration_since (min (ca_next_renew s) (ca_next_expiry s)) mono))"

definition report_outcome ::
  "local_relay_fence \<Rightarrow> reservation_failure_reason \<Rightarrow> relay_booking_snapshot booking_result \<Rightarrow> unit act"
where
  "report_outcome fence reason r =
     (case r of
        Inr b \<Rightarrow>
          act_bind (act_get (\<lambda>s. is_current s fence)) (\<lambda>cur.
          act_then (if cur then begin_retirement fence Reconcile else act_return ())
          (act_then (apply_snapshot b) (schedule_status_poll False)))
      | Inl e \<Rightarrow>
          if control_error_ends_authority e then end_authority
          else act_then (set_next_poll 0)
            (if is_retryable e then
               act_bind (act_get ca_config) (\<lambda>config.
               act_bind (retry_delay (cc_retry_min config) (cc_retry_max config)) (\<lambda>delay.
               act_emit (SendEventAfter delay (RetryFailureChild fence reason))))
             else act_return ()))"

definition report_failure :: "local_relay_fence \<Rightarrow> reservation_failure_reason \<Rightarrow> unit act" where
  "report_failure fence reason =
     act_bind (act_get id) (\<lambda>s.
     if \<not> snapshot_has_fence (ca_snapshot s) fence then act_return () else
     act_bind until_protected (\<lambda>delay.
     if delay \<le> cc_http_timeout (ca_config s)
     then act_emit (SendEventAfter (delay + 1000000) (RetryFailureChild fence reason))
     else act_then (act_emit (ReportCall \<lparr>fq_slot_id = lf_slot_id fence, fq_assignment_id = lf_assignment_id fence,
            fq_reservation_epoch = lf_reservation_epoch fence, fq_reason = reason\<rparr>))
          (act_bind (control_call ReservationFailed aw_snapshot) (report_outcome fence reason))))"

section \<open>Completed retirements and expiry\<close>

definition conclude_retirement :: "local_relay_fence \<Rightarrow> retiring_slot \<Rightarrow> unit act" where
  "conclude_retirement fence retiring =
     (case rt_action retiring of
        Reconcile \<Rightarrow> apply_current_snapshot
      | ReportFailure reason \<Rightarrow>
          act_bind (act_get (\<lambda>s. snapshot_has_fence (ca_snapshot s) fence)) (\<lambda>has.
          if has then
            act_then (put_slot (lf_slot_id fence)
              ((rt_local retiring)\<lparr>ls_state := ReportingFailure reason, ls_worker := NoTask\<rparr>))
            (act_then reset_expiry_timer (report_failure fence reason))
          else apply_current_snapshot)
      | RemoveSlot \<Rightarrow> act_return ())"

definition finish_retirement :: "local_relay_fence \<Rightarrow> unit act" where
  "finish_retirement fence =
     act_bind (act_get (\<lambda>s. map_of (ca_retiring s) (lf_slot_id fence))) (\<lambda>r.
     case r of None \<Rightarrow> act_return ()
     | Some retiring \<Rightarrow>
         if ls_fence (rt_local retiring) \<noteq> fence then act_return () else
         if rt_cleanup retiring = ConsumedTask then act_fail (CoordinatorPanic polled_after_completion) else
         act_bind (act_ask aw_cleanup) (\<lambda>joined.
         act_then (act_modify (\<lambda>s. s\<lparr>ca_retiring := hm_insert (lf_slot_id fence) (retiring\<lparr>rt_cleanup := ConsumedTask\<rparr>) (ca_retiring s)\<rparr>))
         (act_then (act_lift (map_err ReservationCleanup (retirement_result joined)))
         (act_bind (act_get (\<lambda>s. map_of (ca_retiring s) (lf_slot_id fence))) (\<lambda>removed.
          act_bind (act_expect ''the completed retirement remains actor-owned'' removed) (\<lambda>retiring.
          act_then (act_modify (\<lambda>s. s\<lparr>ca_retiring := hm_remove (lf_slot_id fence) (ca_retiring s)\<rparr>))
          (act_then (conclude_retirement fence retiring) reset_expiry_timer)))))))"

definition expire_local_authority :: "unit act" where
  "expire_local_authority =
     act_bind (act_ask aw_utc) (\<lambda>now.
     act_bind (act_iterate ca_slots) (\<lambda>entries.
     act_then (act_each (\<lambda>fence. begin_retirement fence RemoveSlot)
       (map (\<lambda>e. ls_fence (snd e))
         (filter (\<lambda>e. \<not> is_reporting (snd e) \<and> ls_authorized_until (snd e) \<le> now) entries)))
     reset_expiry_timer))"

section \<open>Events of the workers\<close>

definition spawn_detached_cleanup :: "handle \<Rightarrow> unit act" where
  "spawn_detached_cleanup h =
     act_then (act_modify (\<lambda>s. s\<lparr>ca_detached := ca_detached s @ [h]\<rparr>)) (act_emit (SpawnDetached h))"

definition forget_pending :: "handle \<Rightarrow> unit act" where
  "forget_pending h = act_modify (\<lambda>s. s\<lparr>ca_pending := hm_remove h (ca_pending s)\<rparr>)"

definition join_slot_worker :: "local_relay_fence \<Rightarrow> handle option act" where
  "join_slot_worker fence =
     act_bind (act_get (\<lambda>s. local_slot_of s fence)) (\<lambda>slot.
     case slot of None \<Rightarrow> act_return None
     | Some l \<Rightarrow>
         (case ls_worker l of
            NoTask \<Rightarrow> act_return None
          | ConsumedTask \<Rightarrow> act_fail (CoordinatorPanic polled_after_completion)
          | RunningTask \<Rightarrow>
              act_bind (act_ask aw_join) (\<lambda>joined.
              case joined of
                Inl e \<Rightarrow> act_then (put_slot (lf_slot_id fence) (l\<lparr>ls_worker := ConsumedTask\<rparr>))
                  (act_fail (ReservationCleanup (JoinErrorText e)))
              | Inr r \<Rightarrow> act_then (put_slot (lf_slot_id fence) (l\<lparr>ls_worker := NoTask\<rparr>))
                  (act_lift (map_err ReservationCleanup r)))))"

definition on_started :: "local_relay_fence \<Rightarrow> handle \<Rightarrow> unit act" where
  "on_started fence h =
     act_bind (act_get (\<lambda>s. filter_option (\<lambda>l. ls_state l = Reserving None) (local_slot_of s fence))) (\<lambda>slot.
     case slot of
       Some l \<Rightarrow>
         act_then (put_slot (lf_slot_id fence) (l\<lparr>ls_state := Reserving (Some h)\<rparr>))
         (act_modify (\<lambda>s. s\<lparr>ca_pending := filter (\<lambda>p. h_relay_peer_id (fst p) \<noteq> h_relay_peer_id h \<or>
            h_generation (fst p) \<ge> h_generation h) (ca_pending s)\<rparr>))
     | None \<Rightarrow> act_then (forget_pending h) (spawn_detached_cleanup h))"

definition route_target :: "multiaddr \<Rightarrow> peer_id option" where
  "route_target route = (case rev route of P2p target # _ \<Rightarrow> Some target | _ \<Rightarrow> None)"

definition prepare_route ::
  "addr_codec \<Rightarrow> relay_base_transport \<Rightarrow> local_slot \<Rightarrow> multiaddr \<Rightarrow> peer_id \<Rightarrow> (registry_text, published_relay_route) result"
where
  "prepare_route C transport local route relay_peer_id =
     and_then (ok_or (RegistryMessage ''confirmed relay route is missing its target Peer ID'') (route_target route))
       (\<lambda>target.
     and_then (map_err RenderedReservation (relay_provider_for_transport C (peer_to_string C relay_peer_id)
         (ls_provider_base_addresses local) (limit_duration_seconds (ls_limits local))
         (limit_data_bytes (ls_limits local)) transport)) (\<lambda>provider.
     and_then (map_err RenderedReservation (circuit_routes provider target)) (\<lambda>routes.
     if circuit_route_for_transport provider transport target \<noteq> Inr route
     then Inl (RegistryMessage ''confirmed relay route differs from the current DMS provider metadata'')
     else Inr \<lparr>pb_fence = ls_fence local, pb_routes = routes, pb_limits = ls_limits local,
       pb_authorized_until = ls_authorized_until local, pb_relay_peer_id = relay_peer_id\<rparr>)))"

definition publish_confirmed_route :: "local_relay_fence \<Rightarrow> multiaddr \<Rightarrow> peer_id \<Rightarrow> unit act" where
  "publish_confirmed_route fence route relay_peer_id =
     act_bind (act_get id) (\<lambda>s.
     act_bind (act_lift (ok_or (RouteRegistryFailed (RegistryMessage
         ''confirmed route no longer has a current local fence'')) (local_slot_of s fence))) (\<lambda>local.
     act_bind (act_ask (\<lambda>w _. prepare_route (aw_codec w) (cc_transport (ca_config s)) local route relay_peer_id)) (\<lambda>r.
     act_bind (act_lift (map_err RouteRegistryFailed r)) (\<lambda>published.
     act_then (act_emit (PublishCall published))
     (act_bind (act_ask aw_publish) (\<lambda>outcome.
      case outcome of Inr _ \<Rightarrow> act_return ()
      | Inl e \<Rightarrow>
          act_then (begin_retirement fence RemoveSlot)
          (act_then (finish_retirement fence) (act_fail (RouteRegistryFailed (RegistryRefused e))))))))))"

definition on_confirmed :: "local_relay_fence \<Rightarrow> relay_reservation_snapshot \<Rightarrow> unit act" where
  "on_confirmed fence snap =
     act_bind (act_get id) (\<lambda>s.
     let h = snap_handle snap;
         cur = (case local_slot_of s fence of None \<Rightarrow> False
                | Some l \<Rightarrow> ls_state l = Reserving (Some h) \<and> snapshot_has_fence (ca_snapshot s) fence)
     in if \<not> cur then act_then (forget_pending h) (spawn_detached_cleanup h)
        else case map_of (ca_pending s) h of
          Some reason \<Rightarrow>
            act_then (forget_pending h)
            (act_bind (join_slot_worker fence) (\<lambda>_. handle_local_failure fence reason))
        | None \<Rightarrow>
            act_bind (join_slot_worker fence) (\<lambda>_.
            case snap_publishable_route snap of
              None \<Rightarrow> handle_local_failure fence ReservationDenied
            | Some route \<Rightarrow>
                act_then (publish_confirmed_route fence route (h_relay_peer_id h))
                (act_then (update_slot ''current slot'' (lf_slot_id fence) (\<lambda>l. l\<lparr>ls_state := ConfirmedSlot h\<rparr>))
                (set_next_poll 0))))"

definition on_retrying :: "local_relay_fence \<Rightarrow> handle \<Rightarrow> unit act" where
  "on_retrying fence h =
     act_bind (act_get (\<lambda>s. filter_option (\<lambda>l. ls_state l = Reserving (Some h)) (local_slot_of s fence))) (\<lambda>slot.
     act_then (case slot of Some l \<Rightarrow> put_slot (lf_slot_id fence) (l\<lparr>ls_state := Reserving None\<rparr>)
       | None \<Rightarrow> act_return ())
     (forget_pending h))"

definition on_failed :: "local_relay_fence \<Rightarrow> handle option \<Rightarrow> reservation_failure_reason \<Rightarrow> unit act" where
  "on_failed fence h reason =
     act_bind (act_get (\<lambda>s. is_reserving s fence)) (\<lambda>reserving.
     if reserving then
       act_bind (join_slot_worker fence) (\<lambda>worker_handle.
       let owned = (case h of None \<Rightarrow> worker_handle | Some x \<Rightarrow> Some x)
       in act_bind (act_get (\<lambda>s. Option.bind owned (map_of (ca_pending s)))) (\<lambda>pending.
          act_then (case owned of None \<Rightarrow> act_return () | Some x \<Rightarrow> forget_pending x)
          (act_bind (act_get (\<lambda>s. filter_option (\<lambda>l. ls_state l = Reserving None) (local_slot_of s fence))) (\<lambda>slot.
           act_then (case (owned, slot) of
               (Some x, Some l) \<Rightarrow> put_slot (lf_slot_id fence) (l\<lparr>ls_state := Reserving (Some x)\<rparr>)
             | _ \<Rightarrow> act_return ())
           (handle_local_failure fence
             (case pending of None \<Rightarrow> reason | Some p \<Rightarrow> preferred_failure_reason reason p))))))
     else case h of None \<Rightarrow> act_return () | Some x \<Rightarrow> spawn_detached_cleanup x)"

text \<open>Some branches return early; the others poll at once afterwards.\<close>

definition handle_child_event :: "child_event \<Rightarrow> unit act" where
  "handle_child_event event =
     (case event of
        StartedChild fence h \<Rightarrow> act_then (on_started fence h) (set_next_poll 0)
      | ConfirmedChild fence snap \<Rightarrow> on_confirmed fence snap
      | RetryingChild fence h \<Rightarrow> act_then (on_retrying fence h) (set_next_poll 0)
      | FailedChild fence h reason \<Rightarrow> act_then (on_failed fence h reason) (set_next_poll 0)
      | RetryFailureChild fence reason \<Rightarrow>
          act_bind (act_get (\<lambda>s. is_current s fence)) (\<lambda>cur.
          act_then (if cur then report_failure fence reason else act_return ()) (set_next_poll 0))
      | CleanupComplete fence \<Rightarrow> act_then (finish_retirement fence) (set_next_poll 0)
      | BackendStoppedChild \<Rightarrow> act_fail (RelayTransportFailed PeerStopped))"

section \<open>Events of the transport\<close>

definition observe_relay_failure :: "handle \<Rightarrow> reservation_failure_reason \<Rightarrow> unit act" where
  "observe_relay_failure h reason =
     act_bind (act_iterate ca_slots) (\<lambda>entries.
     case confirmed_fence_for_handle entries h of
       Some fence \<Rightarrow> act_then (forget_pending h) (handle_local_failure fence reason)
     | None \<Rightarrow>
         act_bind (act_ask (\<lambda>w _. peer_to_string (aw_codec w) (h_relay_peer_id h))) (\<lambda>peer.
         if list_ex (\<lambda>e. is_reserving_state (ls_state (snd e)) \<and> ls_relay_peer_id (snd e) = peer) entries
         then act_modify (\<lambda>s. s\<lparr>ca_pending := hm_insert h
             (case map_of (ca_pending s) h of
                Some old \<Rightarrow> if reason = LimitMismatchFailure then reason else old
              | None \<Rightarrow> reason) (ca_pending s)\<rparr>)
         else act_return ()))"

definition handle_relay_event :: "relay_transport_event \<Rightarrow> unit act" where
  "handle_relay_event event =
     (case event of
        RenewedRoute _ \<Rightarrow> act_return ()
      | PublishableRoute _ \<Rightarrow> act_return ()
      | Unpublished h \<Rightarrow> observe_relay_failure h ReservationLost
      | RejectedConfirmation h reason \<Rightarrow>
          observe_relay_failure h
            (case reason of MissingLimits \<Rightarrow> LimitMismatchFailure | IncompleteLimits _ \<Rightarrow> LimitMismatchFailure
             | LimitMismatch _ _ \<Rightarrow> LimitMismatchFailure | _ \<Rightarrow> ReservationLost)
      | CanceledReservation h \<Rightarrow> observe_relay_failure h ReservationLost)"

datatype relay_receive = ReceivedEvent relay_transport_event | LaggedEvents u64 | ClosedEvents

definition handle_relay_receive :: "relay_receive \<Rightarrow> unit act" where
  "handle_relay_receive event =
     (case event of
        ReceivedEvent e \<Rightarrow> handle_relay_event e
      | LaggedEvents skipped \<Rightarrow> act_fail (RelayEventLagged skipped)
      | ClosedEvents \<Rightarrow>
          act_bind (act_ask aw_subscribe) (\<lambda>r. act_lift (map_err RelayTransportFailed r)))"

section \<open>Turns\<close>

text \<open>
  \<open>stop\<close> deletes the booking in a loop of retries. One iteration asks for the deletion, a random delay and
  the time that has passed since the clock was last read; sleeping for the delay takes that long. The
  delay grows to a ceiling. \<open>fuel\<close> bounds the iterations; \<open>None\<close> means that it did not suffice.
\<close>

fun delete_loop ::
  "coordinator_config \<Rightarrow> coordinator_world \<Rightarrow> nat \<Rightarrow> nat \<Rightarrow> nat \<Rightarrow> nat \<Rightarrow> ((coordinator_error, unit) result \<times> nat) option"
where
  "delete_loop config w 0 tick elapsed retry_ceiling = None"
| "delete_loop config w (Suc fuel) tick elapsed retry_ceiling =
     (case bounded_control_call Delete (aw_delete w tick) of
        Inr _ \<Rightarrow> Some (Inr (), tick + 1)
      | Inl e \<Rightarrow>
          if http_code e = Some AuthorityEnded then Some (Inr (), tick + 1)
          else if is_retryable e then
            let delay = retry_jitter (cc_retry_min config) retry_ceiling (aw_random w (tick + 1));
                now = elapsed + aw_passed w (tick + 2)
            in if now + delay \<ge> cc_reservation_retry_budget config
               then Some (Inl (DmsFailed e), tick + 3)
               else delete_loop config w fuel (tick + 3) (now + delay) (min (retry_ceiling * 2) (cc_retry_max config))
          else Some (Inl (DmsFailed e), tick + 1))"

definition delete_booking :: "nat \<Rightarrow> unit act" where
  "delete_booking fuel = (\<lambda>w s.
     case delete_loop (ca_config s) w fuel (ca_tick s) 0 (cc_retry_min (ca_config s)) of
       None \<Rightarrow> (Inl CoordinatorStopped, s)
     | Some (r, tick) \<Rightarrow> (r, s\<lparr>ca_tick := tick\<rparr>))"

definition coordinator_stop :: "nat \<Rightarrow> bool \<Rightarrow> unit act" where
  "coordinator_stop fuel delete =
     act_then (act_modify (\<lambda>s. s\<lparr>ca_events_closed := True\<rparr>))
     (act_then remove_all_slots
     (act_bind (act_get ca_control_fenced) (\<lambda>fenced.
      if delete \<and> \<not> fenced then delete_booking fuel else act_return ())))"

datatype coordinator_turn =
    StopCommand bool
  | CommandsClosed
  | RelayTurn relay_receive
  | RenewTurn
  | ExpiryTurn
  | ChildTurn child_event
  | DetachedTurn handle "(string, (cleanup_error, unit) result) result"
  | PollTurn

text \<open>One round of the \<open>select\<close> loop; the result says whether the loop goes on. The answer to a stop
  command goes to its sender, and the loop ends without an error.\<close>

definition coordinator_round :: "nat \<Rightarrow> coordinator_turn \<Rightarrow> bool act" where
  "coordinator_round fuel turn =
     act_bind (act_get id) (\<lambda>s.
     if ca_control_fenced s then act_fail AuthorityHasEnded else
     case turn of
       StopCommand delete \<Rightarrow>
         (\<lambda>w s. case coordinator_stop fuel delete w s of (r, s') \<Rightarrow> (map_unwind (\<lambda>_. False) r, s'))
     | CommandsClosed \<Rightarrow> act_then fence_control_plane (act_return False)
     | RelayTurn event \<Rightarrow> act_then (handle_relay_receive event) (act_return True)
     | RenewTurn \<Rightarrow> act_then coordinator_renew (act_return True)
     | ExpiryTurn \<Rightarrow> act_then expire_local_authority (act_return True)
     | ChildTurn event \<Rightarrow> act_then (handle_child_event event) (act_return True)
     | DetachedTurn h joined \<Rightarrow>
         act_then (act_modify (\<lambda>s. s\<lparr>ca_detached := remove1 h (ca_detached s)\<rparr>))
         (act_then (act_lift (map_err ReservationCleanup (detached_cleanup_result joined))) (act_return True))
     | PollTurn \<Rightarrow>
         act_bind until_protected (\<lambda>delay.
         act_then (if delay \<le> cc_http_timeout (ca_config s)
           then act_modify (\<lambda>s. s\<lparr>ca_next_poll := min (ca_next_renew s) (ca_next_expiry s) + 1000000\<rparr>)
           else coordinator_poll)
         (act_return True)))"

fun coordinator_rounds :: "nat \<Rightarrow> coordinator_turn list \<Rightarrow> unit act" where
  "coordinator_rounds fuel [] = act_return ()"
| "coordinator_rounds fuel (turn # turns) =
     act_bind (coordinator_round fuel turn) (\<lambda>go_on. if go_on then coordinator_rounds fuel turns else act_return ())"

text \<open>Dropping the actor fences the routes once more and aborts what still runs.\<close>

definition coordinator_drop :: "coordinator_actor \<Rightarrow> coordinator_actor" where
  "coordinator_drop s =
     s\<lparr>ca_control_fenced := True,
       ca_slots := map_entries (\<lambda>_ l. l\<lparr>ls_retry_canceled := True\<rparr>) (ca_slots s),
       ca_log := ca_log s @ FenceAllCall #
         map (\<lambda>e. AbortWorker (ls_fence (snd e))) (filter (\<lambda>e. ls_worker (snd e) \<noteq> NoTask) (ca_slots s)) @
         map (\<lambda>e. AbortCleanup (ls_fence (rt_local (snd e)))) (ca_retiring s) @ map AbortDetached (ca_detached s)\<rparr>"

text \<open>\<open>run_coordinator_actor\<close>: the loop, ended by itself or by a forced shutdown after some turns, and
  then the fence, whose error wins. The actor is dropped in the end, also when the task panics.\<close>

definition run_coordinator_actor :: "nat \<Rightarrow> coordinator_turn list \<Rightarrow> unit act" where
  "run_coordinator_actor fuel turns = (\<lambda>w s.
     case coordinator_rounds fuel turns w s of (r, s1) \<Rightarrow>
       (case force_fence w s1 of
          (Inl e, s2) \<Rightarrow> (Inl e, coordinator_drop s2)
        | (Inr _, s2) \<Rightarrow> (r, coordinator_drop s2)))"

text \<open>The task of the actor as its owner sees it: a panic is a \<open>JoinError\<close>.\<close>

definition join_actor :: "(coordinator_error, unit) result \<Rightarrow> (coordinator_error, unit) result" where
  "join_actor task = (case task of Inl (CoordinatorPanic _) \<Rightarrow> Inl CoordinatorStopped | _ \<Rightarrow> task)"

text \<open>\<open>sent\<close> is \<open>None\<close> when the command could not be sent, \<open>answer\<close> is \<open>None\<close> when the actor dropped the
  sender of the answer.\<close>

definition request_stop_and_join ::
  "(coordinator_error, unit) result option option \<Rightarrow> (coordinator_error, unit) result \<Rightarrow> (coordinator_error, unit) result"
where
  "request_stop_and_join sent task =
     (let command_result = (case sent of
          Some (Some answer) \<Rightarrow> answer | Some None \<Rightarrow> Inl CoordinatorStopped | None \<Rightarrow> Inl CoordinatorStopped)
      in and_then (join_actor task) (\<lambda>_. command_result))"

datatype coordinator_shutdown_outcome = GracefulShutdown | ForcedAfterTimeout

datatype coordinator_shutdown_error = GracefulFailed coordinator_error | ForcedCleanupFailed coordinator_error

text \<open>\<open>graceful\<close> is \<open>None\<close> when the graceful shutdown did not end in time; then \<open>forced\<close> is what the
  actor ends with.\<close>

definition coordinator_shutdown ::
  "(coordinator_error, unit) result option \<Rightarrow> (coordinator_error, unit) result \<Rightarrow>
    (coordinator_shutdown_error, coordinator_shutdown_outcome) result"
where
  "coordinator_shutdown graceful forced =
     (case graceful of
        Some result \<Rightarrow> and_then (map_err GracefulFailed result) (\<lambda>_. Inr GracefulShutdown)
      | None \<Rightarrow> and_then (map_err ForcedCleanupFailed (join_actor forced)) (\<lambda>_. Inr ForcedAfterTimeout))"

section \<open>Start\<close>

text \<open>The booking to work with: the active one, or a created one; \<open>create\<close> answers the first and the
  second creation, and a stale principal counts as no active booking.\<close>

definition start_booking ::
  "coordinator_config \<Rightarrow> (peer_relay_error, unit) result \<Rightarrow> relay_booking_snapshot option booking_result option \<Rightarrow>
    (nat \<Rightarrow> create_relay_booking_response booking_result option) \<Rightarrow> (coordinator_error, relay_booking_snapshot) result"
where
  "start_booking config subscribed active create =
     and_then (map_err RelayTransportFailed subscribed) (\<lambda>_.
     and_then (case bounded_control_call Active active of
         Inr b \<Rightarrow> Inr b
       | Inl e \<Rightarrow> if (case http_code e of None \<Rightarrow> False | Some c \<Rightarrow> is_stale_requester_principal c)
           then Inr None else Inl (DmsFailed e)) (\<lambda>active.
     and_then (case active of
         Some b \<Rightarrow> and_then (validate_booking_matches b config) (\<lambda>_. Inr b)
       | None \<Rightarrow>
           and_then (map_err DmsFailed (create_relay_booking_request_new (cc_mode config)
             (cc_requested_duration_seconds config) (cc_relay_count config))) (\<lambda>_.
           and_then (map_err DmsFailed (bounded_control_call Create (create 0))) (\<lambda>response.
           if bs_state (cp_snapshot response) = ActiveBooking then Inr (cp_snapshot response)
           else and_then (map_err DmsFailed (bounded_control_call Create (create 1))) (\<lambda>response. Inr (cp_snapshot response))))) (\<lambda>b.
     and_then (validate_booking_matches b config) (\<lambda>_. Inr b))))"

definition coordinator_actor_new :: "coordinator_config \<Rightarrow> relay_booking_snapshot \<Rightarrow> instant \<Rightarrow> coordinator_actor" where
  "coordinator_actor_new config b t0 =
     \<lparr>ca_config = config, ca_snapshot = b, ca_slots = [], ca_retiring = [], ca_pending = [], ca_detached = [],
      ca_next_poll = t0, ca_next_renew = t0, ca_next_expiry = t0 + int (from_secs 86400),
      ca_control_fenced = False, ca_events_closed = False, ca_tick = 0, ca_log = []\<rparr>"

definition coordinator_start :: "unit act" where
  "coordinator_start =
     act_then schedule_renewal (act_then apply_current_snapshot (schedule_status_poll False))"

end
