(* ===== verification/Relay_Coordinator_Safety.thy ===== *)
theory Relay_Coordinator_Safety
  imports Relay_Coordinator
begin

text \<open>
  What the coordinator of \<open>Relay_Coordinator\<close> guarantees. Handlers are verified by weakest
  preconditions with two postconditions, one for results and one for errors; an error ends the actor,
  so it may leave slots whose authority is out of date, but never tables that are inconsistent. Shown
  are the invariant of the tables and the absence of panics, the bound on what is published, the end of
  every run, and the termination of the retries of the deletion. The last section is a concrete run.
\<close>

section \<open>Weakest preconditions of handlers\<close>

text \<open>
  \<open>act_wp m Q E w s\<close>: run from \<open>s\<close>, the handler does not panic, a result satisfies \<open>Q\<close> and an error
  leaves a state that satisfies \<open>E\<close>.
\<close>

definition act_wp ::
  "'a act \<Rightarrow> ('a \<Rightarrow> coordinator_actor \<Rightarrow> bool) \<Rightarrow> (coordinator_actor \<Rightarrow> bool) \<Rightarrow> coordinator_world \<Rightarrow> coordinator_actor \<Rightarrow> bool"
where
  "act_wp m Q E w s =
     (case m w s of (Inr x, s') \<Rightarrow> Q x s' | (Inl e, s') \<Rightarrow> \<not> is_panic e \<and> E s')"

lemma is_panic_simps [simp]:
  "\<not> is_panic (DmsFailed e)" "\<not> is_panic ActiveBookingMismatch" "\<not> is_panic AuthorityHasEnded"
  "\<not> is_panic CoordinatorStopped" "\<not> is_panic (RouteRegistryFailed t)" "\<not> is_panic (ReservationCleanup c)"
  "\<not> is_panic LocalGenerationExhausted" "\<not> is_panic (RelayEventLagged n)" "\<not> is_panic (RelayTransportFailed p)"
  "is_panic (CoordinatorPanic m)"
  by (simp_all add: is_panic_def)

lemma wp_return [simp]: "act_wp (act_return x) Q E w = Q x"
  by (simp add: act_wp_def act_return_def fun_eq_iff)

lemma wp_fail [simp]: "act_wp (act_fail e) Q E w s = (\<not> is_panic e \<and> E s)"
  by (simp add: act_wp_def act_fail_def)

lemma wp_bind [simp]: "act_wp (act_bind m f) Q E w s = act_wp m (\<lambda>x. act_wp (f x) Q E w) E w s"
  by (simp add: act_wp_def act_bind_def split: prod.splits sum.splits)

lemma wp_then [simp]: "act_wp (act_then m n) Q E w s = act_wp m (\<lambda>_. act_wp n Q E w) E w s"
  by (simp add: act_then_def)

lemma wp_get [simp]: "act_wp (act_get f) Q E w s = Q (f s) s"
  by (simp add: act_wp_def act_get_def)

lemma wp_modify [simp]: "act_wp (act_modify f) Q E w s = Q () (f s)"
  by (simp add: act_wp_def act_modify_def)

lemma wp_ask [simp]: "act_wp (act_ask f) Q E w s = Q (f w (ca_tick s)) (s\<lparr>ca_tick := ca_tick s + 1\<rparr>)"
  by (simp add: act_wp_def act_ask_def)

lemma wp_emit [simp]: "act_wp (act_emit a) Q E w s = Q () (s\<lparr>ca_log := ca_log s @ [a]\<rparr>)"
  by (simp add: act_emit_def)

lemma wp_lift [simp]: "act_wp (act_lift r) Q E w s = (case r of Inl e \<Rightarrow> \<not> is_panic e \<and> E s | Inr x \<Rightarrow> Q x s)"
  by (simp add: act_wp_def act_lift_def split: sum.splits)

lemma wp_expect [simp]: "act_wp (act_expect msg x) Q E w s = (case x of None \<Rightarrow> False | Some y \<Rightarrow> Q y s)"
  by (simp add: act_expect_def ok_or_def split: option.splits)

lemma wp_iterate [simp]:
  "act_wp (act_iterate m) Q E w s =
     Q (sort_key (\<lambda>e. aw_rank w (ca_tick s) (fst e)) (m (s\<lparr>ca_tick := ca_tick s + 1\<rparr>))) (s\<lparr>ca_tick := ca_tick s + 1\<rparr>)"
  by (simp add: act_iterate_def)

lemma wp_mono:
  assumes "act_wp m Q' E' w s" "\<And>x s'. Q' x s' \<Longrightarrow> Q x s'" "\<And>s'. E' s' \<Longrightarrow> E s'"
  shows "act_wp m Q E w s"
  using assms by (auto simp: act_wp_def split: prod.splits sum.splits)

lemma wp_total: "act_wp m Q (\<lambda>_. False) w s \<Longrightarrow> \<exists>x s'. m w s = (Inr x, s') \<and> Q x s'"
  by (auto simp: act_wp_def split: prod.splits sum.splits)

lemma wp_each:
  assumes "I [] s"
    and "\<And>done x s'. I done s' \<Longrightarrow> x \<in> set xs \<Longrightarrow> act_wp (f x) (\<lambda>_. I (done @ [x])) E w s'"
    and "\<And>s'. I xs s' \<Longrightarrow> Q () s'"
  shows "act_wp (act_each f xs) Q E w s"
proof -
  have "act_wp (act_each f ys) (\<lambda>_. I (zs @ ys)) E w s'" if "I zs s'" "set ys \<subseteq> set xs" for ys zs s'
    using that
  proof (induction ys arbitrary: zs s')
    case (Cons y ys)
    have "act_wp (f y) (\<lambda>_. I (zs @ [y])) E w s'"
      using Cons.prems by (intro assms(2)) auto
    then show ?case
      using Cons.IH[of "zs @ [y]"] Cons.prems by (auto elim!: wp_mono)
  qed simp
  from this[of "[]" s xs] show ?thesis
    using assms(1,3) by (auto elim: wp_mono)
qed

section \<open>The tables of slots\<close>

definition tables_ok :: "(uuid, local_slot) hashmap \<Rightarrow> (uuid, retiring_slot) hashmap \<Rightarrow> bool" where
  "tables_ok slots retiring \<longleftrightarrow> hm_ok slots \<and> hm_ok retiring \<and>
     (\<forall>k l. map_of slots k = Some l \<longrightarrow> lf_slot_id (ls_fence l) = k) \<and>
     (\<forall>k. map_of slots k = None \<or> map_of retiring k = None) \<and>
     (\<forall>k r. map_of retiring k = Some r \<longrightarrow> lf_slot_id (ls_fence (rt_local r)) = k)"

text \<open>The calls that put routes into the registry, and the one that ends them all.\<close>

definition route_calls :: "coordinator_action list \<Rightarrow> coordinator_action list" where
  "route_calls log = filter (\<lambda>a. case a of PublishCall _ \<Rightarrow> True | FenceAllCall \<Rightarrow> True | _ \<Rightarrow> False) log"

definition slots_all :: "(uuid \<Rightarrow> local_slot \<Rightarrow> bool) \<Rightarrow> (uuid, local_slot) hashmap \<Rightarrow> bool" where
  "slots_all P slots \<longleftrightarrow> (\<forall>k l. map_of slots k = Some l \<longrightarrow> P k l)"

text \<open>No task has been awaited whose handle is still in a table.\<close>

definition fresh_tasks :: "(uuid, local_slot) hashmap \<Rightarrow> (uuid, retiring_slot) hashmap \<Rightarrow> bool" where
  "fresh_tasks slots retiring \<longleftrightarrow> slots_all (\<lambda>_ l. ls_worker l \<noteq> ConsumedTask) slots \<and>
     (\<forall>k r. map_of retiring k = Some r \<longrightarrow> rt_cleanup r \<noteq> ConsumedTask)"

text \<open>The actor works for booking \<open>b\<close> and its slots satisfy \<open>P\<close>; \<open>X\<close> says whether its tasks are fresh and
  which calls it has made.\<close>

definition actor_inv ::
  "relay_booking_snapshot \<Rightarrow> bool \<times> coordinator_action list \<Rightarrow> (uuid \<Rightarrow> local_slot \<Rightarrow> bool) \<Rightarrow> coordinator_actor \<Rightarrow> bool"
where
  "actor_inv b X P s \<longleftrightarrow> tables_ok (ca_slots s) (ca_retiring s) \<and> slots_all P (ca_slots s) \<and>
     (fst X \<longrightarrow> fresh_tasks (ca_slots s) (ca_retiring s)) \<and> route_calls (ca_log s) = snd X \<and> ca_snapshot s = b"

lemma actor_inv_frame [simp]:
  "actor_inv b X P (s\<lparr>ca_tick := n\<rparr>) = actor_inv b X P s"
  "actor_inv b X P (s\<lparr>ca_next_poll := t\<rparr>) = actor_inv b X P s"
  "actor_inv b X P (s\<lparr>ca_next_renew := t\<rparr>) = actor_inv b X P s"
  "actor_inv b X P (s\<lparr>ca_next_expiry := t\<rparr>) = actor_inv b X P s"
  "actor_inv b X P (s\<lparr>ca_control_fenced := f\<rparr>) = actor_inv b X P s"
  "actor_inv b X P (s\<lparr>ca_events_closed := f\<rparr>) = actor_inv b X P s"
  "actor_inv b X P (s\<lparr>ca_pending := p\<rparr>) = actor_inv b X P s"
  "actor_inv b X P (s\<lparr>ca_detached := d\<rparr>) = actor_inv b X P s"
  by (simp_all add: actor_inv_def)

lemma actor_inv_emit:
  assumes "route_calls [a] = []"
  shows "actor_inv b X P (s\<lparr>ca_log := ca_log s @ [a]\<rparr>) = actor_inv b X P s"
  using assms by (cases a) (auto simp: actor_inv_def route_calls_def)

lemmas actor_inv_emits [simp] =
  actor_inv_emit[of "TombstoneCall f" for f, unfolded route_calls_def, simplified]
  actor_inv_emit[of "RefreshCall f t" for f t, unfolded route_calls_def, simplified]
  actor_inv_emit[of "SpawnWorker f p" for f p, unfolded route_calls_def, simplified]
  actor_inv_emit[of "SpawnRetirement f x h" for f x h, unfolded route_calls_def, simplified]
  actor_inv_emit[of "SpawnDetached h" for h, unfolded route_calls_def, simplified]
  actor_inv_emit[of "SendEvent e" for e, unfolded route_calls_def, simplified]
  actor_inv_emit[of "SendEventAfter n e" for n e, unfolded route_calls_def, simplified]
  actor_inv_emit[of "ApiCall op" for op, unfolded route_calls_def, simplified]
  actor_inv_emit[of "ReportCall r" for r, unfolded route_calls_def, simplified]

lemma actor_inv_call:
  assumes "route_calls [a] = [a]" "actor_inv b X P s"
  shows "actor_inv b (fst X, snd X @ [a]) P (s\<lparr>ca_log := ca_log s @ [a]\<rparr>)"
  using assms by (auto simp: actor_inv_def route_calls_def)

lemma actor_inv_snapshot: "actor_inv b X P s \<Longrightarrow> ca_snapshot s = b"
  by (simp add: actor_inv_def)

lemma actor_inv_weaken:
  assumes "actor_inv b X P s" "\<And>k l. map_of (ca_slots s) k = Some l \<Longrightarrow> P k l \<Longrightarrow> Q k l"
  shows "actor_inv b X Q s"
  using assms by (auto simp: actor_inv_def slots_all_def)

lemma hm_get_insert [simp]: "map_of (hm_insert k v m) = (map_of m)(k \<mapsto> v)"
  by (simp add: hm_insert_def update_conv')

lemma hm_get_remove [simp]: "map_of (hm_remove k m) = (map_of m)(k := None)"
  by (simp add: hm_remove_def delete_conv')

lemma hm_ok_insert [simp]: "hm_ok m \<Longrightarrow> hm_ok (hm_insert k v m)"
  by (simp add: hm_ok_def hm_insert_def distinct_update)

lemma hm_ok_remove [simp]: "hm_ok m \<Longrightarrow> hm_ok (hm_remove k m)"
  by (simp add: hm_ok_def hm_remove_def distinct_delete)

lemma hm_mem: "hm_ok m \<Longrightarrow> ((k, v) \<in> set m) \<longleftrightarrow> map_of m k = Some v"
  by (simp add: hm_ok_def)

text \<open>A slot that is put into the table in the place of one with the same identity, or of none.\<close>

lemma actor_inv_replace:
  assumes "actor_inv b X P s" "map_of (ca_retiring s) k = None" "lf_slot_id (ls_fence l) = k" "P' k l"
    and "fst X \<Longrightarrow> ls_worker l \<noteq> ConsumedTask" "\<And>k' l'. k' \<noteq> k \<Longrightarrow> P k' l' \<Longrightarrow> P' k' l'"
    and "map_of (ca_slots s') = (map_of (ca_slots s))(k \<mapsto> l)" "hm_ok (ca_slots s')"
    and "ca_retiring s' = ca_retiring s" "route_calls (ca_log s') = route_calls (ca_log s)" "ca_snapshot s' = ca_snapshot s"
  shows "actor_inv b X P' s'"
  using assms by (auto simp: actor_inv_def tables_ok_def slots_all_def fresh_tasks_def)

lemma actor_inv_put:
  assumes "actor_inv b X P s" "lf_slot_id (ls_fence l) = k" "map_of (ca_retiring s) k = None" "P' k l"
    and "fst X \<Longrightarrow> ls_worker l \<noteq> ConsumedTask" "\<And>k' l'. k' \<noteq> k \<Longrightarrow> P k' l' \<Longrightarrow> P' k' l'"
  shows "actor_inv b X P' (s\<lparr>ca_slots := hm_insert k l (ca_slots s)\<rparr>)"
  using assms by (auto simp: actor_inv_def tables_ok_def slots_all_def fresh_tasks_def)

lemma actor_inv_slot:
  assumes "actor_inv b X P s" "map_of (ca_slots s) k = Some l"
  shows "lf_slot_id (ls_fence l) = k" "map_of (ca_retiring s) k = None" "P k l"
  using assms unfolding actor_inv_def tables_ok_def slots_all_def by (blast, metis option.distinct(1), blast)

lemma actor_inv_unretire:
  assumes "actor_inv b X P s"
  shows "actor_inv b X P (s\<lparr>ca_retiring := hm_remove k (ca_retiring s)\<rparr>)"
  using assms by (auto simp: actor_inv_def tables_ok_def fresh_tasks_def)

lemma actor_inv_fresh:
  assumes "actor_inv b X P s" "fst X"
  shows "map_of (ca_slots s) k = Some l \<Longrightarrow> ls_worker l \<noteq> ConsumedTask"
    "map_of (ca_retiring s) k = Some r \<Longrightarrow> rt_cleanup r \<noteq> ConsumedTask"
  using assms by (auto simp: actor_inv_def fresh_tasks_def slots_all_def)

lemma actor_inv_no_fence:
  assumes "actor_inv b X P s" "\<And>l. map_of (ca_slots s) (lf_slot_id fence) = Some l \<Longrightarrow> ls_fence l \<noteq> fence"
  shows "actor_inv b X (\<lambda>k l. P k l \<and> ls_fence l \<noteq> fence) s"
proof (rule actor_inv_weaken[OF assms(1)])
  fix k l
  assume l: "map_of (ca_slots s) k = Some l" and "P k l"
  moreover have "lf_slot_id (ls_fence l) = k"
    using actor_inv_slot(1)[OF assms(1) l] .
  ultimately show "P k l \<and> ls_fence l \<noteq> fence"
    using assms(2) by auto
qed

section \<open>Retirement keeps the tables\<close>

lemma wp_reset_expiry_timer [simp]:
  "act_wp reset_expiry_timer Q E w s =
     (\<exists>n t. Q () (s\<lparr>ca_tick := n, ca_next_expiry := t\<rparr>) \<and> n = ca_tick s + 2 \<and>
       t = aw_mono w (ca_tick s + 1) + int (duration_since
         (case earliest_deadline s of None \<Rightarrow> aw_utc w (ca_tick s) + int (from_secs 86400) | Some d \<Rightarrow> d)
         (aw_utc w (ca_tick s))))"
  by (simp add: reset_expiry_timer_def Let_def earliest_deadline_def)

lemma wp_already_started:
  assumes "actor_inv b X P s"
    and "\<And>s'. actor_inv b X P s' \<Longrightarrow> map_of (ca_retiring s') (lf_slot_id fence) \<noteq> None \<Longrightarrow> Q True s'"
    and "map_of (ca_retiring s) (lf_slot_id fence) = None \<Longrightarrow> Q False s"
  shows "act_wp (retirement_already_started fence action) Q E w s"
proof (cases "map_of (ca_retiring s) (lf_slot_id fence)")
  case (Some r)
  have "map_of (ca_slots s) (lf_slot_id fence) = None"
    using assms(1) Some unfolding actor_inv_def tables_ok_def by (metis option.distinct(1))
  then have "actor_inv b X P (s\<lparr>ca_retiring := hm_insert (lf_slot_id fence) (r\<lparr>rt_action := RemoveSlot\<rparr>) (ca_retiring s)\<rparr>)"
    using assms(1) Some by (auto simp: actor_inv_def tables_ok_def fresh_tasks_def)
  with Some assms(1,2) show ?thesis
    by (simp add: retirement_already_started_def)
qed (use assms in \<open>simp add: retirement_already_started_def\<close>)

lemma actor_inv_retire:
  assumes "actor_inv b X P s" "map_of (ca_slots s) k = Some l"
    and "ls_fence (rt_local r) = ls_fence l" "rt_cleanup r \<noteq> ConsumedTask"
  shows "actor_inv b X (\<lambda>k l'. P k l' \<and> ls_fence l' \<noteq> ls_fence l)
    (s\<lparr>ca_slots := hm_remove k (ca_slots s), ca_retiring := hm_insert k r (ca_retiring s)\<rparr>)"
proof (rule actor_inv_no_fence)
  show "actor_inv b X P (s\<lparr>ca_slots := hm_remove k (ca_slots s), ca_retiring := hm_insert k r (ca_retiring s)\<rparr>)"
    using assms by (auto simp: actor_inv_def tables_ok_def slots_all_def fresh_tasks_def)
qed (use actor_inv_slot(1)[OF assms(1,2)] in auto)

lemma wp_start_retirement:
  assumes "actor_inv b X P s" "map_of (ca_slots s) (lf_slot_id fence) = Some l" "ls_fence l = fence"
    and "\<And>s'. actor_inv b X (\<lambda>k l. P k l \<and> ls_fence l \<noteq> fence) s' \<Longrightarrow> Q () s'"
  shows "act_wp (start_retirement_after_route_fence fence action) Q E w s"
proof -
  let ?r = "\<lparr>rt_local = l\<lparr>ls_retry_canceled := True, ls_worker := NoTask\<rparr>, rt_action = action, rt_cleanup = RunningTask\<rparr>"
  let ?t = "s\<lparr>ca_slots := hm_remove (lf_slot_id fence) (ca_slots s), ca_log := ca_log s @ [SpawnRetirement fence (ls_worker l) (slot_handle (ls_state l))],
    ca_retiring := hm_insert (lf_slot_id fence) ?r (ca_retiring s)\<rparr>"
  have "actor_inv b X (\<lambda>k l. P k l \<and> ls_fence l \<noteq> fence) ?t"
    using actor_inv_retire[OF assms(1,2), of ?r] assms(3) by (simp add: actor_inv_def route_calls_def)
  then show ?thesis
    using assms(2,4) by (simp add: start_retirement_after_route_fence_def)
qed

lemma wp_registry_result [simp]:
  "act_wp (registry_result r) Q E w s = (case r of Inl e \<Rightarrow> E s | Inr x \<Rightarrow> Q x s)"
  by (simp add: registry_result_def map_err_def split: sum.splits)

lemma wp_begin_retirement:
  assumes "actor_inv b X P s"
    and "\<And>s'. actor_inv b X (\<lambda>k l. P k l \<and> ls_fence l \<noteq> fence) s' \<Longrightarrow> Q () s'"
    and "\<And>s'. actor_inv b X P s' \<Longrightarrow> E s'"
  shows "act_wp (begin_retirement fence action) Q E w s"
  unfolding begin_retirement_def wp_bind
proof (rule wp_already_started[OF assms(1)], goal_cases)
  case (1 s')
  then have "actor_inv b X (\<lambda>k l. P k l \<and> ls_fence l \<noteq> fence) s'"
    by (intro actor_inv_no_fence) (auto dest: actor_inv_slot(2))
  then show ?case using assms(2) by simp
next
  case 2
  show ?case
  proof (cases "map_of (ca_slots s) (lf_slot_id fence) = None \<or> ls_fence (the (map_of (ca_slots s) (lf_slot_id fence))) \<noteq> fence")
    case True
    then have "actor_inv b X (\<lambda>k l. P k l \<and> ls_fence l \<noteq> fence) s"
      by (intro actor_inv_no_fence[OF assms(1)]) auto
    with True assms(2) show ?thesis by (auto split: option.splits)
  next
    case False
    then obtain l where "map_of (ca_slots s) (lf_slot_id fence) = Some l" "ls_fence l = fence" by auto
    then show ?thesis
      using assms by (auto split: sum.splits intro!: wp_start_retirement[where b = b and X = X and P = P and l = l])
  qed
qed

section \<open>Ends of the actor\<close>

lemma wp_drain_retirements:
  assumes "actor_inv b X P s" "fst X"
    and "\<And>x s'. actor_inv b X P s' \<Longrightarrow> ca_detached s' = ca_detached s \<Longrightarrow>
      map_of (ca_retiring s') = (\<lambda>k. if k \<in> set ids then None else map_of (ca_retiring s) k) \<Longrightarrow> Q x s'"
  shows "act_wp (drain_retirements ids first) Q E w s"
  using assms
proof (induction ids arbitrary: first s)
  case (Cons k ids)
  show ?case
  proof (cases "map_of (ca_retiring s) k")
    case None
    have "act_wp (drain_retirements ids first) Q E w s"
      using Cons.prems(1,2) by (rule Cons.IH) (rule Cons.prems(3), use None in \<open>auto simp: fun_eq_iff\<close>)
    with None show ?thesis by simp
  next
    case (Some r)
    let ?s = "s\<lparr>ca_tick := ca_tick s + 1, ca_retiring := hm_remove k (ca_retiring s)\<rparr>"
    have "actor_inv b X P (s\<lparr>ca_tick := ca_tick s + 1\<rparr>)"
      using Cons.prems(1) by simp
    from actor_inv_unretire[OF this] have "actor_inv b X P ?s"
      by simp
    then have "act_wp (drain_retirements ids (keep_first first (retirement_result (aw_cleanup w (ca_tick s))))) Q E w ?s"
      by (rule Cons.IH[OF _ Cons.prems(2)]) (rule Cons.prems(3), auto simp: fun_eq_iff)
    with Some actor_inv_fresh(2)[OF Cons.prems(1,2) Some] show ?thesis by simp
  qed
qed (simp add: fun_eq_iff)

lemma wp_drain_detached:
  assumes "actor_inv b X P s"
    and "\<And>x s'. actor_inv b X P s' \<Longrightarrow> ca_retiring s' = ca_retiring s \<Longrightarrow>
      set (ca_detached s') = set (ca_detached s) - set hs \<Longrightarrow> Q x s'"
  shows "act_wp (drain_detached hs first) Q E w s"
  using assms
proof (induction hs arbitrary: first s)
  case (Cons h hs)
  let ?s = "s\<lparr>ca_tick := ca_tick s + 1, ca_detached := removeAll h (ca_detached s)\<rparr>"
  have "act_wp (drain_detached hs (keep_first first (detached_cleanup_result (aw_cleanup w (ca_tick s))))) Q E w ?s"
    using Cons.prems(1) by (intro Cons.IH) (simp, rule Cons.prems(2), auto)
  then show ?case by simp
qed simp

lemma map_of_empty_iff: "map_of m = (\<lambda>k. None) \<longleftrightarrow> m = []"
  by (cases m) (auto simp: fun_eq_iff)

lemma wp_drain_cleanup_tasks:
  assumes "actor_inv b X P s" "fst X"
    and "\<And>s'. actor_inv b X P s' \<Longrightarrow> ca_retiring s' = [] \<Longrightarrow> ca_detached s' = [] \<Longrightarrow> Q () s' \<and> E s'"
  shows "act_wp drain_cleanup_tasks Q E w s"
proof -
  let ?s = "s\<lparr>ca_tick := ca_tick s + 1\<rparr>"
  let ?ids = "map fst (sort_key (\<lambda>e. aw_rank w (ca_tick s) (fst e)) (ca_retiring s))"
  have ids: "set ?ids = fst ` set (ca_retiring s)" by simp
  have "act_wp (drain_retirements ?ids None)
      (\<lambda>x s'. act_wp (drain_detached (ca_detached s') x)
        (\<lambda>x s'. actor_inv b X P s' \<and> ca_retiring s' = [] \<and> ca_detached s' = []) E w s') E w ?s"
  proof (rule wp_drain_retirements[of b X P])
    fix x s'
    assume s': "actor_inv b X P s'" and "map_of (ca_retiring s') = (\<lambda>k. if k \<in> set ?ids then None else map_of (ca_retiring ?s) k)"
    then have "ca_retiring s' = []"
      unfolding ids by (simp add: fun_eq_iff map_of_eq_None_iff flip: map_of_empty_iff)
    then show "act_wp (drain_detached (ca_detached s') x)
        (\<lambda>x s'. actor_inv b X P s' \<and> ca_retiring s' = [] \<and> ca_detached s' = []) E w s'"
      using s' by (intro wp_drain_detached[of b X P]) auto
  qed (use assms(1,2) in simp_all)
  moreover have "act_wp (case x of None \<Rightarrow> reset_expiry_timer | Some e \<Rightarrow> act_fail (ReservationCleanup e)) Q E w s'"
    if "actor_inv b X P s' \<and> ca_retiring s' = [] \<and> ca_detached s' = []" for x s'
    using that assms(3) by (auto split: option.splits)
  ultimately show ?thesis
    unfolding drain_cleanup_tasks_def by (auto elim!: wp_mono)
qed

lemma wp_mark_all_removed:
  assumes "actor_inv b X P s" "\<And>s'. actor_inv b X P s' \<Longrightarrow> Q () s'"
  shows "act_wp mark_all_removed Q E w s"
proof -
  have "actor_inv b X P (s\<lparr>ca_retiring := map_entries (\<lambda>_ r. r\<lparr>rt_action := RemoveSlot\<rparr>) (ca_retiring s)\<rparr>)"
    using assms(1) by (auto simp: actor_inv_def tables_ok_def hm_ok_def map_entries_get fresh_tasks_def)
  then show ?thesis using assms(2) by (simp add: mark_all_removed_def)
qed

text \<open>A loop that begins the retirement of every fence of a list, or forces it.\<close>

lemma wp_each_fence:
  assumes "actor_inv b X P s"
    and "\<And>P' s e. actor_inv b X P' s \<Longrightarrow> (\<And>k l. P' k l \<Longrightarrow> P k l) \<Longrightarrow>
      act_wp (f e) (\<lambda>_. actor_inv b X (\<lambda>k l. P' k l \<and> ls_fence l \<noteq> g e)) E w s"
    and "\<And>s'. actor_inv b X (\<lambda>k l. P k l \<and> ls_fence l \<notin> g ` set es) s' \<Longrightarrow> Q () s'"
  shows "act_wp (act_each f es) Q E w s"
proof (rule wp_each[where I = "\<lambda>ds. actor_inv b X (\<lambda>k l. P k l \<and> ls_fence l \<notin> g ` set ds)"])
  fix ds e s'
  assume "actor_inv b X (\<lambda>k l. P k l \<and> ls_fence l \<notin> g ` set ds) s'"
  from assms(2)[OF this, of e] show "act_wp (f e) (\<lambda>_. actor_inv b X (\<lambda>k l. P k l \<and> ls_fence l \<notin> g ` set (ds @ [e]))) E w s'"
    by (auto elim!: wp_mono actor_inv_weaken)
qed (use assms(1,3) in simp_all)

lemma actor_inv_None: "actor_inv b X (\<lambda>k l. False) s \<Longrightarrow> ca_slots s = []"
  by (auto simp: actor_inv_def slots_all_def fun_eq_iff simp flip: map_of_empty_iff)

text \<open>A loop over all slots that leaves none of their fences leaves no slot.\<close>

lemma actor_inv_absurd: "actor_inv b X (\<lambda>_ _. False) s \<Longrightarrow> actor_inv b X P s"
  by (erule actor_inv_weaken) simp

lemma wp_each_slot:
  assumes "actor_inv b X P s" "set es = set (ca_slots s)"
    and "\<And>P' s e. actor_inv b X P' s \<Longrightarrow> (\<And>k l. P' k l \<Longrightarrow> P k l) \<Longrightarrow>
      act_wp (f e) (\<lambda>_. actor_inv b X (\<lambda>k l. P' k l \<and> ls_fence l \<noteq> ls_fence (snd e))) E w s"
    and "\<And>s'. actor_inv b X (\<lambda>_ _. False) s' \<Longrightarrow> Q () s'"
  shows "act_wp (act_each f es) Q E w s"
proof (rule wp_each_fence[where P = "\<lambda>k l. P k l \<and> (k, l) \<in> set es" and g = "\<lambda>e. ls_fence (snd e)"])
  show "actor_inv b X (\<lambda>k l. P k l \<and> (k, l) \<in> set es) s"
    using assms(1) by (rule actor_inv_weaken) (auto simp: assms(2) dest: map_of_SomeD)
next
  fix s'
  assume "actor_inv b X (\<lambda>k l. (P k l \<and> (k, l) \<in> set es) \<and> ls_fence l \<notin> (\<lambda>e. ls_fence (snd e)) ` set es) s'"
  then have "actor_inv b X (\<lambda>_ _. False) s'"
    by (rule actor_inv_weaken) (metis imageI snd_conv)
  then show "Q () s'" by (rule assms(4))
qed (rule assms(3), auto)

lemma actor_inv_hm_ok: "actor_inv b X P s \<Longrightarrow> hm_ok (ca_slots s)"
  by (simp add: actor_inv_def tables_ok_def)

lemma wp_remove_all_slots:
  assumes "actor_inv b X P s" "fst X"
    and "\<And>s'. actor_inv b X (\<lambda>_ _. False) s' \<Longrightarrow> ca_retiring s' = [] \<Longrightarrow> ca_detached s' = [] \<Longrightarrow> Q () s'"
    and "\<And>s'. actor_inv b X P s' \<Longrightarrow> E s'"
  shows "act_wp remove_all_slots Q E w s"
  unfolding remove_all_slots_def wp_bind wp_iterate wp_then
proof (rule wp_each_slot[of b X P])
  fix s'
  assume "actor_inv b X (\<lambda>_ _. False) s'"
  then show "act_wp mark_all_removed (\<lambda>_. act_wp drain_cleanup_tasks Q E w) E w s'"
  proof (rule wp_mark_all_removed)
    fix s'
    assume "actor_inv b X (\<lambda>_ _. False) s'"
    then show "act_wp drain_cleanup_tasks Q E w s'"
      by (rule wp_drain_cleanup_tasks[OF _ assms(2)]) (use assms(3,4) in \<open>auto intro: actor_inv_absurd\<close>)
  qed
next
  fix P' s' e
  assume "actor_inv b X P' s'" "\<And>k l. P' k l \<Longrightarrow> P k l"
  then show "act_wp (begin_retirement (ls_fence (snd e)) RemoveSlot)
      (\<lambda>_. actor_inv b X (\<lambda>k l. P' k l \<and> ls_fence l \<noteq> ls_fence (snd e))) E w s'"
    by (intro wp_begin_retirement) (auto intro!: assms(4) elim: actor_inv_weaken)
qed (use assms(1) in auto)

lemma wp_fence_control_plane:
  assumes "actor_inv b X P s" "fst X"
    and "\<And>s'. actor_inv b X (\<lambda>_ _. False) s' \<Longrightarrow> ca_retiring s' = [] \<Longrightarrow> ca_detached s' = [] \<Longrightarrow> Q () s'"
    and "\<And>s'. actor_inv b X P s' \<Longrightarrow> E s'"
  shows "act_wp fence_control_plane Q E w s"
  using assms by (auto simp: fence_control_plane_def intro!: wp_remove_all_slots[of b X P])

lemma wp_end_authority:
  assumes "actor_inv b X P s" "fst X" "\<And>s'. actor_inv b X P s' \<Longrightarrow> E s'"
  shows "act_wp end_authority Q E w s"
  unfolding end_authority_def wp_then wp_fail
  by (rule wp_fence_control_plane[OF assms(1,2)]) (auto intro: assms(3) actor_inv_absurd)

lemma wp_force_retire:
  assumes "actor_inv b X P s"
    and "\<And>s'. actor_inv b X (\<lambda>k l. P k l \<and> ls_fence l \<noteq> fence) s' \<Longrightarrow> Q () s'"
  shows "act_wp (force_retire fence) Q E w s"
  unfolding force_retire_def wp_bind
proof (rule wp_already_started[OF assms(1)], goal_cases)
  case (1 s')
  then have "actor_inv b X (\<lambda>k l. P k l \<and> ls_fence l \<noteq> fence) s'"
    by (intro actor_inv_no_fence) (auto dest: actor_inv_slot(2))
  then show ?case using assms(2) by simp
next
  case 2
  show ?case
  proof (cases "local_slot_of s fence")
    case None
    have "actor_inv b X (\<lambda>k l. P k l \<and> ls_fence l \<noteq> fence) s"
      using None by (intro actor_inv_no_fence[OF assms(1)]) (auto simp: local_slot_of_def filter_option_def)
    with None assms(2) show ?thesis by simp
  next
    case (Some l)
    then have "map_of (ca_slots s) (lf_slot_id fence) = Some l" "ls_fence l = fence"
      by (auto simp: local_slot_of_def)
    with Some assms show ?thesis
      by (auto intro!: wp_start_retirement[where b = b and X = X and P = P and l = l])
  qed
qed

lemma wp_force_retire_all:
  assumes "actor_inv b X P s"
    and "\<And>r s'. actor_inv b (fst X, snd X @ [FenceAllCall]) (\<lambda>_ _. False) s' \<Longrightarrow> Q r s'"
  shows "act_wp force_retire_all Q E w s"
proof -
  let ?t = "s\<lparr>ca_control_fenced := True, ca_events_closed := True\<rparr>"
  have t: "actor_inv b (fst X, snd X @ [FenceAllCall]) P (?t\<lparr>ca_log := ca_log ?t @ [FenceAllCall]\<rparr>)"
    using assms(1) by (intro actor_inv_call) (simp_all add: route_calls_def)
  show ?thesis
    unfolding force_retire_all_def wp_bind wp_then wp_modify wp_emit wp_ask wp_iterate
    by (rule wp_each_slot[of b "(fst X, snd X @ [FenceAllCall])" P])
      (use t assms(2) in
        \<open>auto intro!: wp_force_retire wp_mark_all_removed[of b "(fst X, snd X @ [FenceAllCall])" "\<lambda>_ _. False"]\<close>)
qed

section \<open>Reconciliation bounds the slots\<close>

definition authority_bound :: "relay_booking_snapshot \<Rightarrow> instant" where
  "authority_bound b = min (bs_requested_until b) (bs_authority_expires_at b) - int RELAY_AUTHORITY_SAFETY_MARGIN"

text \<open>A slot that can still lead to a publication ends with the authority of the booking.\<close>

definition authorized_slot :: "relay_booking_snapshot \<Rightarrow> local_slot \<Rightarrow> bool" where
  "authorized_slot b l \<longleftrightarrow> is_reporting l \<or> ls_authorized_until l \<le> authority_bound b"

lemma relay_authorized_until_bound:
  "relay_authorized_until (bs_requested_until b) (bs_authority_expires_at b) lease \<le> authority_bound b"
  by (auto simp: relay_authorized_until_def authority_bound_def)

lemma authorized_slot_simps [simp]:
  "authorized_slot b (l\<lparr>ls_worker := x\<rparr>) = authorized_slot b l"
  "t \<le> authority_bound b \<Longrightarrow> authorized_slot b (l\<lparr>ls_authorized_until := t\<rparr>)"
  "authorized_slot b (l\<lparr>ls_state := ReportingFailure r\<rparr>)"
  by (simp_all add: authorized_slot_def is_reporting_def)

lemma wp_put_slot [simp]:
  "act_wp (put_slot k l) Q E w s = Q () (s\<lparr>ca_slots := hm_insert k l (ca_slots s)\<rparr>)"
  by (simp add: put_slot_def)

lemma wp_update_slot:
  "act_wp (update_slot msg k f) Q E w s =
     (case map_of (ca_slots s) k of None \<Rightarrow> False
      | Some l \<Rightarrow> Q () (s\<lparr>ca_slots := hm_insert k (f l) (ca_slots s)\<rparr>))"
  by (simp add: update_slot_def split: option.splits)

lemma wp_next_fence [simp]:
  "act_wp (next_fence k a e) Q E w s =
     (case aw_draw w (ca_tick s) of Inl _ \<Rightarrow> E (s\<lparr>ca_tick := ca_tick s + 1\<rparr>)
      | Inr g \<Rightarrow> Q \<lparr>lf_slot_id = k, lf_assignment_id = a, lf_reservation_epoch = e, lf_local_generation = g\<rparr>
          (s\<lparr>ca_tick := ca_tick s + 1\<rparr>))"
  by (simp add: next_fence_def map_err_def split: sum.splits)

lemma wp_extend_slot:
  assumes "actor_inv b X P s" "map_of (ca_slots s) k = Some l" "t \<le> authority_bound b"
    and "\<And>k' l'. k' \<noteq> k \<Longrightarrow> P k' l' \<Longrightarrow> P' k' l'" "\<And>l. authorized_slot b l \<Longrightarrow> P' k l"
    and "\<And>s'. actor_inv b X P' s' \<Longrightarrow> Q () s'"
  shows "act_wp (extend_slot k t) Q E w s"
proof -
  have "actor_inv b X P' (s\<lparr>ca_slots := hm_insert k (l\<lparr>ls_authorized_until := t\<rparr>) (ca_slots s)\<rparr>)"
    using assms(3-5) actor_inv_slot[OF assms(1,2)] actor_inv_fresh(1)[OF assms(1) _ assms(2)]
    by (intro actor_inv_put[OF assms(1)]) auto
  then show ?thesis
    using assms(2,6) by (simp add: extend_slot_def wp_update_slot)
qed

lemma wp_retire_existing:
  assumes "actor_inv b X P s" "map_of (ca_slots s) k = Some l"
    and "\<And>s'. actor_inv b X (\<lambda>k' l'. P k' l' \<and> k' \<noteq> k) s' \<Longrightarrow> Q () s'" "\<And>s'. actor_inv b X P s' \<Longrightarrow> E s'"
  shows "act_wp (begin_retirement (ls_fence l) action) Q E w s"
proof (rule wp_begin_retirement)
  show "actor_inv b X (\<lambda>k' l'. P k' l' \<and> (k' = k \<longrightarrow> l' = l)) s"
    using assms(1,2) by (auto elim: actor_inv_weaken)
qed (auto intro!: assms(3,4) elim: actor_inv_weaken)

lemma wp_keep_slot:
  assumes "actor_inv b X P s" "map_of (ca_slots s) k = Some l" "t \<le> authority_bound b"
    and "\<And>k' l'. k' \<noteq> k \<Longrightarrow> P k' l' \<Longrightarrow> P' k' l'" "\<And>l. authorized_slot b l \<Longrightarrow> P' k l"
    and "\<And>s'. actor_inv b X P' s' \<Longrightarrow> Q () s'" "\<And>s'. actor_inv b X P s' \<Longrightarrow> E s'"
  shows "act_wp (keep_slot k l t) Q E w s"
proof -
  have extend: "act_wp (extend_slot k t) Q E w s'"
    if "actor_inv b X P s'" "map_of (ca_slots s') k = Some l" for s'
    using that assms(3-6) by (rule wp_extend_slot)
  have retire: "act_wp (begin_retirement (ls_fence l) Reconcile) Q E w s'"
    if "actor_inv b X P s'" "map_of (ca_slots s') k = Some l" for s'
    using that by (rule wp_retire_existing) (auto intro!: assms(4,6,7) elim: actor_inv_weaken)
  show ?thesis
    using assms(1,2,7) extend retire
    by (auto simp: keep_slot_def split: local_slot_state.splits sum.splits)
qed

lemma wp_add_slot:
  assumes "actor_inv b X P s" "map_of (ca_retiring s) k = None" "t \<le> authority_bound b"
    and "\<And>k' l'. k' \<noteq> k \<Longrightarrow> P k' l' \<Longrightarrow> P' k' l'" "\<And>l. authorized_slot b l \<Longrightarrow> P' k l"
    and "\<And>s'. actor_inv b X P' s' \<Longrightarrow> Q () s'" "\<And>s'. actor_inv b X P s' \<Longrightarrow> E s'"
  shows "act_wp (add_slot k d t) Q E w s"
proof -
  have ok: "authorized_slot b \<lparr>ls_fence = f, ls_relay_peer_id = p, ls_provider_base_addresses = bs, ls_limits = lim,
      ls_authorized_until = t, ls_state = st, ls_retry_canceled = c, ls_worker = x\<rparr>" for f p bs lim st c x
    using assms(3) by (simp add: authorized_slot_def)
  have hm: "hm_ok (ca_slots s)"
    using assms(1) by (rule actor_inv_hm_ok)
  show ?thesis
    using assms(1,2,7)
    by (auto simp: add_slot_def invalid_slot_def create_slot_def wp_update_slot map_err_def ok hm route_calls_def
        split: sum.splits intro!: assms(6) actor_inv_replace[OF assms(1,2)] assms(4,5))
qed

lemma wp_apply_desired:
  assumes "actor_inv b X (\<lambda>k l. k \<in> R \<or> authorized_slot b l) s"
    and "\<And>s'. actor_inv b X (\<lambda>k l. k \<in> R - {fst e} \<or> authorized_slot b l) s' \<Longrightarrow> Q () s'"
    and "\<And>s'. actor_inv b X (\<lambda>_ _. True) s' \<Longrightarrow> E s'"
  shows "act_wp (apply_desired e) Q E w s"
proof -
  obtain k d where e: "e = (k, d)" by (cases e)
  let ?P = "\<lambda>k l. k \<in> R \<or> authorized_slot b l" and ?P' = "\<lambda>k' l. k' \<in> R - {k} \<or> authorized_slot b l"
  let ?t = "relay_authorized_until (bs_requested_until (ca_snapshot s)) (bs_authority_expires_at (ca_snapshot s)) (ds_lease d)"
  let ?s = "s\<lparr>ca_tick := Suc (ca_tick s)\<rparr>"
  have s: "actor_inv b X ?P ?s" and b: "ca_snapshot s = b"
    using assms(1) by (simp_all add: actor_inv_def)
  have t: "?t \<le> authority_bound b"
    unfolding b by (rule relay_authorized_until_bound)
  have E: "E s'" if "actor_inv b X ?P s'" for s'
    using that by (intro assms(3)) (auto elim: actor_inv_weaken)
  have gone: "Q () s'" if "actor_inv b X (\<lambda>k' l. ?P k' l \<and> k' \<noteq> k) s'" for s'
    using that by (intro assms(2)) (auto simp: e elim: actor_inv_weaken)
  have absent: "Q () s'" if "actor_inv b X ?P s'" "map_of (ca_slots s') k = None" for s'
    using that by (intro gone) (auto elim: actor_inv_weaken)
  show ?thesis
  proof (cases "map_of (ca_retiring s) k")
    case (Some r)
    then have "map_of (ca_slots s) k = None"
      using assms(1) actor_inv_slot(2) by fastforce
    then show ?thesis
      using assms(1) Some absent by (simp add: apply_desired_def Let_def e hm_contains_def)
  next
    case retiring: None
    show ?thesis
    proof (cases "map_of (ca_slots s) k")
      case None
      then show ?thesis
        using s absent[of ?s] retiring t E assms(2)
        by (auto simp: apply_desired_def Let_def e hm_contains_def intro!: wp_add_slot[OF s, of k ?t ?P'])
    next
      case (Some l)
      then show ?thesis
        using s retiring t E assms(2) gone
        by (auto simp: apply_desired_def Let_def e hm_contains_def intro!: wp_keep_slot[OF s, of k l ?t ?P']
            wp_retire_existing[OF s, of k l])
    qed
  qed
qed

lemma desired_slots_key:
  "map_of (desired_slots b) k \<noteq> None \<Longrightarrow> k \<in> fst ` set (desired_slots b)"
  by (auto simp: map_of_eq_None_iff)

lemma wp_apply_current_snapshot:
  assumes "actor_inv b X P s" "fst X"
    and "\<And>s'. actor_inv b X (\<lambda>_. authorized_slot b) s' \<Longrightarrow> Q () s'"
    and "\<And>s'. actor_inv b X (\<lambda>_ _. True) s' \<Longrightarrow> E s'"
  shows "act_wp apply_current_snapshot Q E w s"
proof (cases "bs_state b = ActiveBooking")
  case False
  then show ?thesis
    unfolding apply_current_snapshot_def using actor_inv_snapshot[OF assms(1)]
    by (auto intro!: wp_remove_all_slots[OF assms(1,2)] assms(4) intro: actor_inv_weaken actor_inv_absurd)
next
  case True
  let ?D = "desired_slots b"
  let ?es = "sort_key (\<lambda>e. aw_rank w (ca_tick s) (fst e)) (ca_slots s)"
  let ?fs = "map (\<lambda>e. ls_fence (snd e)) (filter (\<lambda>e. is_stale_slot ?D (snd e)) ?es)"
  let ?s = "s\<lparr>ca_tick := ca_tick s + 1\<rparr>"
  let ?K = "fst ` set ?D"
  have loop: "act_wp (act_each apply_desired order) (\<lambda>_. act_wp reset_expiry_timer Q E w) E w s'"
    if "actor_inv b X (\<lambda>k l. k \<in> ?K \<or> authorized_slot b l) s'" and order: "set order = set ?D" for s' order
  proof (rule wp_each[where I = "\<lambda>ds. actor_inv b X (\<lambda>k l. k \<in> ?K - fst ` set ds \<or> authorized_slot b l)"])
    show "act_wp (apply_desired e) (\<lambda>_. actor_inv b X (\<lambda>k l. k \<in> ?K - fst ` set (ds @ [e]) \<or> authorized_slot b l)) E w s'"
      if "actor_inv b X (\<lambda>k l. k \<in> ?K - fst ` set ds \<or> authorized_slot b l) s'" for ds e s'
      using that by (rule wp_apply_desired) (auto intro: assms(4) elim!: actor_inv_weaken)
  qed (use that assms(3) in \<open>auto simp: order\<close>)
  have "act_wp (act_each (\<lambda>fence. begin_retirement fence Reconcile) ?fs)
      (\<lambda>_. actor_inv b X (\<lambda>k l. k \<in> ?K \<or> authorized_slot b l)) E w ?s"
  proof (rule wp_each_fence[where P = "\<lambda>k l. (k, l) \<in> set (ca_slots s) \<and> lf_slot_id (ls_fence l) = k" and g = "\<lambda>f. f" and X = X and b = b])
    show "actor_inv b X (\<lambda>k l. (k, l) \<in> set (ca_slots s) \<and> lf_slot_id (ls_fence l) = k) ?s"
      using assms(1) actor_inv_slot(1)[OF assms(1)] by (auto elim!: actor_inv_weaken dest: map_of_SomeD)
  next
    fix P' s' f
    assume "actor_inv b X P' s'"
    then show "act_wp (begin_retirement f Reconcile) (\<lambda>_. actor_inv b X (\<lambda>k l. P' k l \<and> ls_fence l \<noteq> f)) E w s'"
      by (rule wp_begin_retirement) (auto intro!: assms(4) elim: actor_inv_weaken)
  next
    fix s'
    assume "actor_inv b X (\<lambda>k l. ((k, l) \<in> set (ca_slots s) \<and> lf_slot_id (ls_fence l) = k) \<and> ls_fence l \<notin> (\<lambda>f. f) ` set ?fs) s'"
    then show "actor_inv b X (\<lambda>k l. k \<in> ?K \<or> authorized_slot b l) s'"
    proof (rule actor_inv_weaken)
      fix k l
      assume "((k, l) \<in> set (ca_slots s) \<and> lf_slot_id (ls_fence l) = k) \<and> ls_fence l \<notin> (\<lambda>f. f) ` set ?fs"
      then have "\<not> is_stale_slot ?D l" "lf_slot_id (ls_fence l) = k" by force+
      then show "k \<in> ?K \<or> authorized_slot b l"
        using desired_slots_key by (auto simp: is_stale_slot_def split: option.splits)
    qed
  qed
  then show ?thesis
    using True assms(1) loop unfolding apply_current_snapshot_def
    by (auto simp: actor_inv_def[of _ _ P] Let_def elim!: wp_mono)
qed

lemma wp_apply_snapshot:
  assumes "actor_inv b X P s" "fst X"
    and "\<And>s'. actor_inv b' X (\<lambda>_. authorized_slot b') s' \<Longrightarrow> Q () s'"
    and "\<And>b s'. actor_inv b X (\<lambda>_ _. True) s' \<Longrightarrow> E s'"
  shows "act_wp (apply_snapshot b') Q E w s"
proof -
  have s: "actor_inv b' X (\<lambda>_ _. True) (s\<lparr>ca_snapshot := b'\<rparr>)" "E s" "ca_snapshot s = b"
    using assms(1,4) by (auto simp: actor_inv_def slots_all_def)
  have "\<not> is_panic e" if "validate_booking_matches b' c = Inl e" for e c
    using that by (auto simp: validate_booking_matches_def split: active_booking_validation.splits)
  then show ?thesis
    using s unfolding apply_snapshot_def set_snapshot_def
    by (auto split: sum.splits intro!: wp_fence_control_plane[OF s(1) assms(2)] wp_apply_current_snapshot[OF s(1) assms(2)]
        assms(3,4) intro: actor_inv_absurd)
qed

section \<open>Every handler keeps the actor sound\<close>

definition actor_sound :: "coordinator_action list \<Rightarrow> coordinator_actor \<Rightarrow> bool" where
  "actor_sound X s \<longleftrightarrow> actor_inv (ca_snapshot s) (True, X) (\<lambda>_. authorized_slot (ca_snapshot s)) s"

definition actor_safe :: "coordinator_action list \<Rightarrow> coordinator_actor \<Rightarrow> bool" where
  "actor_safe X s \<longleftrightarrow> actor_inv (ca_snapshot s) (False, X) (\<lambda>_ _. True) s"

definition sound_act :: "'a act \<Rightarrow> bool" where
  "sound_act m \<longleftrightarrow> (\<forall>X w s. actor_sound X s \<longrightarrow> act_wp m (\<lambda>_. actor_sound X) (actor_safe X) w s)"

named_theorems sound_intros

lemma actor_sound_iff: "actor_sound X s \<longleftrightarrow> (\<exists>b. actor_inv b (True, X) (\<lambda>_. authorized_slot b) s)"
  by (auto simp: actor_sound_def dest: actor_inv_snapshot)

lemma actor_safe_iff: "actor_safe X s \<longleftrightarrow> (\<exists>b J P. actor_inv b (J, X) P s)"
  by (auto simp: actor_safe_def actor_inv_def slots_all_def)

lemma actor_sound_safe: "actor_sound X s \<Longrightarrow> actor_safe X s"
  by (auto simp: actor_sound_iff actor_safe_iff)

lemma actor_sound_frame [simp]:
  "actor_sound X (s\<lparr>ca_tick := n\<rparr>) = actor_sound X s"
  "actor_sound X (s\<lparr>ca_next_poll := t\<rparr>) = actor_sound X s"
  "actor_sound X (s\<lparr>ca_next_renew := t\<rparr>) = actor_sound X s"
  "actor_sound X (s\<lparr>ca_next_expiry := t\<rparr>) = actor_sound X s"
  "actor_sound X (s\<lparr>ca_pending := p\<rparr>) = actor_sound X s"
  "actor_sound X (s\<lparr>ca_detached := d\<rparr>) = actor_sound X s"
  by (simp_all add: actor_sound_def)

lemma sound_actI:
  assumes "\<And>X w s. actor_sound X s \<Longrightarrow> act_wp m (\<lambda>_. actor_sound X) (actor_safe X) w s"
  shows "sound_act m"
  using assms by (simp add: sound_act_def)

lemma sound_act_wp:
  assumes "sound_act m" "actor_sound X s" "\<And>x s'. actor_sound X s' \<Longrightarrow> Q x s'" "\<And>s'. actor_safe X s' \<Longrightarrow> E s'"
  shows "act_wp m Q E w s"
  using assms(1)[unfolded sound_act_def, rule_format, OF assms(2)] by (rule wp_mono) (use assms(3,4) in auto)

lemma sound_wpI:
  assumes "\<And>b X w s. actor_inv b (True, X) (\<lambda>_. authorized_slot b) s \<Longrightarrow>
      act_wp m (\<lambda>_. actor_sound X) (actor_safe X) w s"
  shows "sound_act m"
  using assms by (auto simp: sound_act_def actor_sound_iff)

lemma sound_basic [sound_intros]:
  "sound_act (act_return x)" "sound_act (act_get f)" "sound_act (act_ask g)" "sound_act (act_iterate i)"
  "\<not> is_panic e \<Longrightarrow> sound_act (act_fail e)"
  by (simp_all add: sound_act_def actor_sound_safe)

lemma sound_emit [sound_intros]: "route_calls [a] = [] \<Longrightarrow> sound_act (act_emit a)"
  by (simp add: sound_act_def actor_sound_def actor_inv_emit)

lemma sound_modify [sound_intros]:
  assumes "\<And>X s. actor_sound X s \<Longrightarrow> actor_sound X (f s)"
  shows "sound_act (act_modify f)"
  using assms by (simp add: sound_act_def)

lemma sound_lift [sound_intros]: "(\<And>e. r = Inl e \<Longrightarrow> \<not> is_panic e) \<Longrightarrow> sound_act (act_lift r)"
  by (auto simp: sound_act_def actor_sound_safe split: sum.splits)

lemma sound_bind [sound_intros]:
  assumes "sound_act m" "\<And>x. sound_act (f x)"
  shows "sound_act (act_bind m f)"
  using assms by (fastforce simp: sound_act_def elim!: wp_mono)

lemma sound_then [sound_intros]: "sound_act m \<Longrightarrow> sound_act n \<Longrightarrow> sound_act (act_then m n)"
  by (simp add: act_then_def sound_bind)

lemma sound_cases [sound_intros]:
  "(c \<Longrightarrow> sound_act m) \<Longrightarrow> (\<not> c \<Longrightarrow> sound_act n) \<Longrightarrow> sound_act (if c then m else n)"
  "(y = None \<Longrightarrow> sound_act m) \<Longrightarrow> (\<And>x. y = Some x \<Longrightarrow> sound_act (f x)) \<Longrightarrow>
    sound_act (case y of None \<Rightarrow> m | Some x \<Rightarrow> f x)"
  "(\<And>e. r = Inl e \<Longrightarrow> sound_act (g e)) \<Longrightarrow> (\<And>x. r = Inr x \<Longrightarrow> sound_act (h x)) \<Longrightarrow>
    sound_act (case r of Inl e \<Rightarrow> g e | Inr x \<Rightarrow> h x)"
  by (auto split: option.splits sum.splits)

lemma sound_each [sound_intros]: "(\<And>x. sound_act (f x)) \<Longrightarrow> sound_act (act_each f xs)"
  by (induction xs) (auto intro: sound_intros)

lemma sound_registry_result [sound_intros]: "sound_act (registry_result r)"
  by (auto simp: registry_result_def map_err_def split: sum.splits intro!: sound_intros)

lemma sound_begin_retirement [sound_intros]: "sound_act (begin_retirement fence action)"
  by (rule sound_wpI, rule wp_begin_retirement)
    (auto simp: actor_sound_iff actor_safe_iff intro: actor_inv_weaken)

lemma sound_ends [sound_intros]:
  "sound_act remove_all_slots" "sound_act fence_control_plane" "sound_act end_authority"
  by (rule sound_wpI, erule wp_remove_all_slots wp_fence_control_plane wp_end_authority;
      auto simp: actor_sound_iff actor_safe_iff intro: actor_inv_absurd)+

lemma sound_apply [sound_intros]: "sound_act apply_current_snapshot" "sound_act (apply_snapshot b)"
  by (rule sound_wpI, erule wp_apply_current_snapshot wp_apply_snapshot;
      auto simp: actor_sound_iff actor_safe_iff)+

lemma sound_timers [sound_intros]:
  "sound_act reset_expiry_timer" "sound_act (set_next_poll n)" "sound_act (set_next_renew n)"
  "sound_act status_poll_delay" "sound_act authority_remaining" "sound_act until_protected"
  "sound_act (retry_delay lo hi)"
  unfolding reset_expiry_timer_def set_next_poll_def set_next_renew_def status_poll_delay_def
    authority_remaining_def until_protected_def retry_delay_def Let_def
  by (intro sound_intros; simp)+

lemma sound_schedule [sound_intros]: "sound_act (schedule_status_poll immediate)" "sound_act schedule_renewal"
  unfolding schedule_status_poll_def schedule_renewal_def by (intro sound_intros; simp)+

lemma sound_set_next_renew_to [sound_intros]: "sound_act d \<Longrightarrow> sound_act (set_next_renew_to d)"
  unfolding set_next_renew_to_def by (intro sound_intros) simp_all

lemma sound_control_call [sound_intros]: "sound_act (control_call op answer)"
  unfolding control_call_def by (intro sound_intros) (simp_all add: route_calls_def)

lemma sound_poll [sound_intros]: "sound_act coordinator_poll"
  unfolding coordinator_poll_def by (intro sound_intros)

lemma sound_renew [sound_intros]: "sound_act coordinator_renew"
  unfolding coordinator_renew_def Let_def by (intro sound_intros)

lemma sound_report_outcome [sound_intros]: "sound_act (report_outcome fence reason r)"
  unfolding report_outcome_def by (intro sound_intros) (simp add: route_calls_def)

lemma sound_report_failure [sound_intros]: "sound_act (report_failure fence reason)"
  unfolding report_failure_def by (intro sound_intros) (simp_all add: route_calls_def)

lemma sound_expire [sound_intros]: "sound_act expire_local_authority"
  unfolding expire_local_authority_def by (intro sound_intros)

lemma actor_inv_unretired:
  assumes "actor_inv b X P s" "map_of (ca_retiring s) k = Some r"
  shows "lf_slot_id (ls_fence (rt_local r)) = k" "map_of (ca_slots s) k = None"
  using assms unfolding actor_inv_def tables_ok_def by (blast, metis option.distinct(1))

lemma wp_conclude_retirement:
  assumes "actor_inv b (True, X) (\<lambda>_. authorized_slot b) s" "map_of (ca_retiring s) (lf_slot_id fence) = None"
    and "ls_fence (rt_local r) = fence"
  shows "act_wp (conclude_retirement fence r) (\<lambda>_. actor_sound X) (actor_safe X) w s"
proof -
  have sound: "actor_sound X s" using assms(1) by (auto simp: actor_sound_iff)
  show ?thesis
  proof (cases "rt_action r")
    case (ReportFailure reason)
    let ?l = "(rt_local r)\<lparr>ls_state := ReportingFailure reason, ls_worker := NoTask\<rparr>"
    have "actor_inv b (True, X) (\<lambda>_. authorized_slot b) (s\<lparr>ca_slots := hm_insert (lf_slot_id fence) ?l (ca_slots s)\<rparr>)"
      by (rule actor_inv_put[OF assms(1)]) (simp_all add: assms(2,3) authorized_slot_def is_reporting_def)
    then have "actor_sound X (s\<lparr>ca_slots := hm_insert (lf_slot_id fence) ?l (ca_slots s)\<rparr>)"
      unfolding actor_sound_iff by blast
    then have "act_wp (act_then reset_expiry_timer (report_failure fence reason)) (\<lambda>_. actor_sound X) (actor_safe X) w
        (s\<lparr>ca_slots := hm_insert (lf_slot_id fence) ?l (ca_slots s)\<rparr>)"
      by (intro sound_act_wp[of _ X]) (auto intro: sound_intros)
    then show ?thesis
      using ReportFailure sound sound_apply(1)
      by (auto simp: conclude_retirement_def sound_act_def)
  qed (use sound sound_apply(1) in \<open>auto simp: conclude_retirement_def sound_act_def\<close>)
qed

lemma wp_finish_retirement:
  assumes "actor_inv b (True, X) (\<lambda>_. authorized_slot b) s"
    and "\<And>s'. actor_sound X s' \<Longrightarrow> Q () s'" "\<And>s'. actor_safe X s' \<Longrightarrow> E s'"
  shows "act_wp (finish_retirement fence) Q E w s"
proof (cases "\<exists>r. map_of (ca_retiring s) (lf_slot_id fence) = Some r \<and> ls_fence (rt_local r) = fence")
  case False
  have "actor_sound X s" using assms(1) by (auto simp: actor_sound_iff)
  with False show ?thesis
    using assms(2) by (auto simp: finish_retirement_def split: option.splits)
next
  case True
  then obtain r where r: "map_of (ca_retiring s) (lf_slot_id fence) = Some r" and f: "ls_fence (rt_local r) = fence"
    by auto
  let ?k = "lf_slot_id fence" and ?r = "r\<lparr>rt_cleanup := ConsumedTask\<rparr>"
  let ?s = "s\<lparr>ca_tick := ca_tick s + 1, ca_retiring := hm_insert ?k ?r (ca_retiring s)\<rparr>"
  let ?t = "?s\<lparr>ca_retiring := hm_remove ?k (ca_retiring ?s)\<rparr>"
  have fresh: "rt_cleanup r \<noteq> ConsumedTask"
    using actor_inv_fresh(2)[OF assms(1) _ r] by simp
  have gone: "map_of (ca_slots s) ?k = None"
    using actor_inv_unretired(2)[OF assms(1) r] .
  have "actor_inv b (False, X) (\<lambda>_ _. True) ?s"
    using assms(1) f gone by (auto simp: actor_inv_def tables_ok_def slots_all_def)
  then have E: "E ?s"
    by (intro assms(3)) (auto simp: actor_safe_iff)
  have t: "actor_inv b (True, X) (\<lambda>_. authorized_slot b) ?t"
    using assms(1) by (auto simp: actor_inv_def tables_ok_def fresh_tasks_def)
  have "act_wp (conclude_retirement fence ?r) (\<lambda>_. actor_sound X) (actor_safe X) w ?t"
    by (rule wp_conclude_retirement[OF t]) (simp_all add: f)
  then have "act_wp (act_then (conclude_retirement fence ?r) reset_expiry_timer) Q E w ?t"
    unfolding wp_then by (rule wp_mono) (auto intro!: sound_act_wp[OF sound_timers(1)] assms(2,3))
  then show ?thesis
    using r f E fresh unfolding finish_retirement_def by (auto simp: map_err_def split: sum.splits)
qed

lemma sound_finish_retirement [sound_intros]: "sound_act (finish_retirement fence)"
  by (rule sound_wpI, erule wp_finish_retirement)

section \<open>Events\<close>

lemma local_slot_of_Some:
  "local_slot_of s fence = Some l \<longleftrightarrow> map_of (ca_slots s) (lf_slot_id fence) = Some l \<and> ls_fence l = fence"
  by (auto simp: local_slot_of_def)

text \<open>A change of the slot of a fence that keeps its identity and its bound.\<close>

lemma actor_inv_change:
  assumes "actor_inv b X P s" "local_slot_of s fence = Some l"
    and "ls_fence l' = fence" "ls_worker l' = ls_worker l" "P (lf_slot_id fence) l \<Longrightarrow> P (lf_slot_id fence) l'"
  shows "actor_inv b X P (s\<lparr>ca_slots := hm_insert (lf_slot_id fence) l' (ca_slots s)\<rparr>)"
  using assms by (intro actor_inv_put) (auto simp: local_slot_of_Some dest: actor_inv_slot actor_inv_fresh)

lemma wp_join_slot_worker:
  assumes "actor_inv b (True, X) P s" "\<And>k l. P k l \<Longrightarrow> P k (l\<lparr>ls_worker := NoTask\<rparr>)"
    and "\<And>x s'. actor_inv b (True, X) P s' \<Longrightarrow> Q x s'" "\<And>s'. actor_safe X s' \<Longrightarrow> E s'"
  shows "act_wp (join_slot_worker fence) Q E w s"
proof (cases "local_slot_of s fence")
  case (Some l)
  let ?s = "\<lambda>h. s\<lparr>ca_tick := Suc (ca_tick s), ca_slots := hm_insert (lf_slot_id fence) (l\<lparr>ls_worker := h\<rparr>) (ca_slots s)\<rparr>"
  have l: "map_of (ca_slots s) (lf_slot_id fence) = Some l" "ls_fence l = fence"
    using Some by (auto simp: local_slot_of_def)
  note slot = actor_inv_slot[OF assms(1) l(1)]
  have fresh: "ls_worker l \<noteq> ConsumedTask"
    using actor_inv_fresh(1)[OF assms(1) _ l(1)] by simp
  have taken: "actor_inv b (True, X) P (?s NoTask)"
    using assms(1,2) slot l(2) by (auto simp: actor_inv_def tables_ok_def slots_all_def fresh_tasks_def)
  have "actor_inv b (False, X) (\<lambda>_ _. True) (?s ConsumedTask)"
    using assms(1) slot l(2) by (auto simp: actor_inv_def tables_ok_def slots_all_def)
  then have "actor_safe X (?s ConsumedTask)" "actor_safe X (?s NoTask)"
    using taken unfolding actor_safe_iff by blast+
  then have "E (?s ConsumedTask)" "E (?s NoTask)"
    by (auto intro: assms(4))
  with Some assms(1,3) taken fresh show ?thesis
    by (auto simp: join_slot_worker_def map_err_def split: task_handle.splits sum.splits)
qed (use assms(1,3) in \<open>simp add: join_slot_worker_def\<close>)

lemma sound_join_slot_worker [sound_intros]: "sound_act (join_slot_worker fence)"
  by (rule sound_wpI, erule wp_join_slot_worker) (auto simp: actor_sound_iff actor_safe_iff)

lemma sound_detached [sound_intros]: "sound_act (spawn_detached_cleanup h)" "sound_act (forget_pending h)"
  unfolding spawn_detached_cleanup_def forget_pending_def by (intro sound_intros; simp add: route_calls_def)+

text \<open>An assignment to the state of a slot that is reserving.\<close>

lemma sound_assign:
  assumes "actor_sound X s" "local_slot_of s fence = Some l" "\<not> is_reporting l"
  shows "actor_sound X (s\<lparr>ca_slots := hm_insert (lf_slot_id fence) (l\<lparr>ls_state := st\<rparr>) (ca_slots s)\<rparr>)"
proof -
  obtain b where b: "actor_inv b (True, X) (\<lambda>_. authorized_slot b) s"
    using assms(1) by (auto simp: actor_sound_iff)
  have "actor_inv b (True, X) (\<lambda>_. authorized_slot b) (s\<lparr>ca_slots := hm_insert (lf_slot_id fence) (l\<lparr>ls_state := st\<rparr>) (ca_slots s)\<rparr>)"
    using assms(3) by (intro actor_inv_change[OF b assms(2)]) (use assms(2) in \<open>auto simp: authorized_slot_def local_slot_of_Some\<close>)
  then show ?thesis
    unfolding actor_sound_iff by blast
qed

lemma sound_on_started [sound_intros]: "sound_act (on_started fence h)"
proof (rule sound_actI)
  fix X w s
  assume s: "actor_sound X s"
  have "sound_act (act_then (forget_pending h) (spawn_detached_cleanup h))"
    by (intro sound_intros)
  with s show "act_wp (on_started fence h) (\<lambda>_. actor_sound X) (actor_safe X) w s"
    by (auto simp: on_started_def sound_act_def is_reporting_def split: option.splits intro!: sound_assign)
qed

lemma sound_on_retrying [sound_intros]: "sound_act (on_retrying fence h)"
proof (rule sound_actI)
  fix X w s
  assume s: "actor_sound X s"
  show "act_wp (on_retrying fence h) (\<lambda>_. actor_sound X) (actor_safe X) w s"
    using s by (auto simp: on_retrying_def forget_pending_def is_reporting_def split: option.splits intro!: sound_assign)
qed

lemma sound_attach [sound_intros]:
  "sound_act (act_bind (act_get (\<lambda>s. filter_option (\<lambda>l. ls_state l = Reserving None) (local_slot_of s fence))) (\<lambda>slot.
     act_then (case (owned, slot) of
         (Some x, Some l) \<Rightarrow> put_slot (lf_slot_id fence) (l\<lparr>ls_state := Reserving (Some x)\<rparr>)
       | _ \<Rightarrow> act_return ())
     (begin_retirement fence action)))"
proof (rule sound_actI)
  fix X w s
  assume s: "actor_sound X s"
  show "act_wp (act_bind (act_get (\<lambda>s. filter_option (\<lambda>l. ls_state l = Reserving None) (local_slot_of s fence))) (\<lambda>slot.
     act_then (case (owned, slot) of
         (Some x, Some l) \<Rightarrow> put_slot (lf_slot_id fence) (l\<lparr>ls_state := Reserving (Some x)\<rparr>)
       | _ \<Rightarrow> act_return ())
     (begin_retirement fence action))) (\<lambda>_. actor_sound X) (actor_safe X) w s"
    using s by (auto simp: is_reporting_def split: option.splits intro!: sound_act_wp[OF sound_begin_retirement] sound_assign)
qed

lemma sound_on_failed [sound_intros]: "sound_act (on_failed fence h reason)"
  unfolding on_failed_def handle_local_failure_def Let_def by (intro sound_intros)

lemma sound_relay_event [sound_intros]: "sound_act (handle_relay_event event)"
  unfolding handle_relay_event_def observe_relay_failure_def handle_local_failure_def
  by (cases event) (simp_all, (intro sound_intros; simp)+)

lemma sound_relay_receive [sound_intros]: "sound_act (handle_relay_receive event)"
  unfolding handle_relay_receive_def
  by (cases event) (auto simp: map_err_def split: sum.splits intro!: sound_intros)

section \<open>Publication\<close>

definition authorized_publication :: "relay_booking_snapshot \<Rightarrow> published_relay_route \<Rightarrow> bool" where
  "authorized_publication b p \<longleftrightarrow>
     snapshot_has_fence b (pb_fence p) \<and> pb_authorized_until p \<le> authority_bound b"

definition next_calls :: "relay_booking_snapshot \<Rightarrow> coordinator_action list \<Rightarrow> coordinator_action list \<Rightarrow> bool" where
  "next_calls b X Y \<longleftrightarrow> Y = X \<or> (\<exists>p. Y = X @ [PublishCall p] \<and> authorized_publication b p)"

lemma prepare_route_Inr:
  assumes "prepare_route C transport l route peer = Inr p"
  shows "pb_fence p = ls_fence l" "pb_authorized_until p = ls_authorized_until l"
  using assms by (auto simp: prepare_route_def and_then_eq_Inr split: if_splits)

lemma wp_publish_confirmed_route:
  assumes s: "actor_inv b (True, X) (\<lambda>_ l. authorized_slot b l \<and> (ls_fence l = fence \<longrightarrow> \<not> is_reporting l)) s"
    and has: "snapshot_has_fence b fence"
    and "\<And>p l s'. authorized_publication b p \<Longrightarrow> actor_sound (X @ [PublishCall p]) s' \<Longrightarrow>
      local_slot_of s' fence = Some l \<Longrightarrow> \<not> is_reporting l \<Longrightarrow> Q () s'"
    and "\<And>Y s'. next_calls b X Y \<Longrightarrow> actor_safe Y s' \<Longrightarrow> E s'"
  shows "act_wp (publish_confirmed_route fence route peer) Q E w s"
proof (cases "local_slot_of s fence")
  case None
  have "E s"
    using s by (intro assms(4)[of X]) (auto simp: next_calls_def actor_safe_iff)
  with None show ?thesis by (simp add: publish_confirmed_route_def ok_or_def)
next
  case (Some l)
  let ?r = "prepare_route (aw_codec w) (cc_transport (ca_config s)) l route peer"
  let ?s = "s\<lparr>ca_tick := ca_tick s + 1\<rparr>"
  show ?thesis
  proof (cases ?r)
    case (Inl e)
    have "E ?s"
      using s by (intro assms(4)[of X]) (auto simp: next_calls_def actor_safe_iff)
    with Some Inl show ?thesis by (simp add: publish_confirmed_route_def ok_or_def map_err_def)
  next
    case (Inr p)
    let ?Y = "X @ [PublishCall p]"
    let ?t = "?s\<lparr>ca_log := ca_log ?s @ [PublishCall p]\<rparr>"
    have l: "ls_fence l = fence" "authorized_slot b l" "\<not> is_reporting l"
      using Some actor_inv_slot(3)[OF s] by (auto simp: local_slot_of_Some)
    then have p: "authorized_publication b p"
      using prepare_route_Inr[OF Inr] has by (simp add: authorized_publication_def authorized_slot_def)
    then have Y: "next_calls b X ?Y" by (auto simp: next_calls_def)
    have "actor_inv b (True, X) (\<lambda>_. authorized_slot b) s"
      using s by (auto elim: actor_inv_weaken)
    then have "actor_inv b (True, ?Y) (\<lambda>_. authorized_slot b) (s\<lparr>ca_log := ca_log s @ [PublishCall p]\<rparr>)"
      using actor_inv_call[of "PublishCall p" b "(True, X)"] by (simp add: route_calls_def)
    then have t: "actor_sound ?Y (s\<lparr>ca_log := ca_log s @ [PublishCall p]\<rparr>)" by (auto simp: actor_sound_iff)
    have retire: "act_wp (act_then (begin_retirement fence RemoveSlot) (act_then (finish_retirement fence)
        (act_fail (RouteRegistryFailed (RegistryRefused e))))) Q E w (?t\<lparr>ca_tick := ca_tick s + 2\<rparr>)" for e
      using t Y by (auto intro!: sound_act_wp[OF sound_begin_retirement, of ?Y] sound_act_wp[OF sound_finish_retirement, of ?Y]
          assms(4)[of ?Y] simp: actor_sound_safe)
    have ok: "Q () (?t\<lparr>ca_tick := ca_tick s + 2\<rparr>)"
      using t p Some l(3) by (intro assms(3)[of p _ l]) (auto simp: local_slot_of_def)
    show ?thesis
      using Some Inr retire ok
      by (auto simp: publish_confirmed_route_def ok_or_def map_err_def split: sum.splits)
  qed
qed

definition quietly :: "relay_booking_snapshot \<Rightarrow> coordinator_action list \<Rightarrow> (coordinator_action list \<Rightarrow> coordinator_actor \<Rightarrow> bool) \<Rightarrow> coordinator_actor \<Rightarrow> bool" where
  "quietly b X I s \<longleftrightarrow> (\<exists>Y. next_calls b X Y \<and> I Y s)"

lemma sound_quietly:
  assumes "sound_act m" "actor_sound X s"
  shows "act_wp m (\<lambda>_. quietly b X actor_sound) (quietly b X actor_safe) w s"
  using assms(1,2) by (rule sound_act_wp) (auto simp: quietly_def next_calls_def)

lemma wp_on_confirmed:
  assumes s: "actor_sound X s"
  shows "act_wp (on_confirmed fence snap) (\<lambda>_. quietly (ca_snapshot s) X actor_sound)
    (quietly (ca_snapshot s) X actor_safe) w s"
proof (cases "\<exists>l. local_slot_of s fence = Some l \<and> ls_state l = Reserving (Some (snap_handle snap)) \<and>
    snapshot_has_fence (ca_snapshot s) fence \<and> map_of (ca_pending s) (snap_handle snap) = None")
  case False
  have *: "sound_act (act_then (forget_pending h) (spawn_detached_cleanup h))"
    "sound_act (act_then (forget_pending h) (act_bind (join_slot_worker fence) (\<lambda>_. handle_local_failure fence reason)))" for h reason
    unfolding handle_local_failure_def by (intro sound_intros)+
  show ?thesis
    unfolding on_confirmed_def Let_def wp_bind wp_get
    using False by (auto split: option.splits simp del: wp_bind wp_then intro!: sound_quietly[OF *(1) s] sound_quietly[OF *(2) s])
next
  case True
  then obtain l where l: "local_slot_of s fence = Some l" "\<not> is_reporting l"
    and has: "snapshot_has_fence (ca_snapshot s) fence"
    by (auto simp: is_reporting_def)
  let ?b = "ca_snapshot s"
  let ?P = "\<lambda>_ l. authorized_slot ?b l \<and> (ls_fence l = fence \<longrightarrow> \<not> is_reporting l)"
  let ?Q = "\<lambda>_. quietly ?b X actor_sound" and ?E = "quietly ?b X actor_safe"
  have P: "actor_inv ?b (True, X) ?P s"
    using s[unfolded actor_sound_def]
  proof (rule actor_inv_weaken)
    fix k l'
    assume l': "map_of (ca_slots s) k = Some l'" "authorized_slot ?b l'"
    have "lf_slot_id (ls_fence l') = k"
      using actor_inv_slot(1)[OF s[unfolded actor_sound_def] l'(1)] .
    then have "l' = l" if "ls_fence l' = fence"
      using that l(1) l'(1) by (metis local_slot_of_Some option.inject)
    with l(2) l'(2) show "authorized_slot ?b l' \<and> (ls_fence l' = fence \<longrightarrow> \<not> is_reporting l')"
      by metis
  qed
  have failed: "act_wp (handle_local_failure fence ReservationDenied) ?Q ?E w s'" if "actor_inv ?b (True, X) ?P s'" for s'
  proof -
    have "actor_sound X s'"
      using actor_inv_weaken[OF that, of "\<lambda>_. authorized_slot ?b"] by (auto simp: actor_sound_iff)
    then show ?thesis
      unfolding handle_local_failure_def by (rule sound_quietly[OF sound_begin_retirement])
  qed
  have confirm: "act_wp (act_then (update_slot ''current slot'' (lf_slot_id fence)
      (\<lambda>l. l\<lparr>ls_state := ConfirmedSlot (snap_handle snap)\<rparr>)) (set_next_poll 0)) ?Q ?E w s'"
    if "authorized_publication ?b p" "actor_sound (X @ [PublishCall p]) s'" "local_slot_of s' fence = Some l'"
      "\<not> is_reporting l'" for p l' s'
  proof -
    have "quietly ?b X actor_sound (s'\<lparr>ca_slots := hm_insert (lf_slot_id fence)
        (l'\<lparr>ls_state := ConfirmedSlot (snap_handle snap)\<rparr>) (ca_slots s'), ca_tick := n, ca_next_poll := t\<rparr>)" for n t
      using that(1) sound_assign[OF that(2-4), of "ConfirmedSlot (snap_handle snap)"]
      unfolding quietly_def next_calls_def by (intro exI[of _ "X @ [PublishCall p]"]) auto
    then show ?thesis
      using that(3) by (simp add: wp_update_slot set_next_poll_def local_slot_of_Some)
  qed
  have publish: "act_wp (publish_confirmed_route fence route (h_relay_peer_id (snap_handle snap)))
      (\<lambda>_. act_wp (act_then (update_slot ''current slot'' (lf_slot_id fence)
        (\<lambda>l. l\<lparr>ls_state := ConfirmedSlot (snap_handle snap)\<rparr>)) (set_next_poll 0)) ?Q ?E w) ?E w s'"
    if "actor_inv ?b (True, X) ?P s'" for route s'
    using that has by (rule wp_publish_confirmed_route) (rule confirm, auto simp: quietly_def)
  have "act_wp (join_slot_worker fence) (\<lambda>_. act_wp (case snap_publishable_route snap of
       None \<Rightarrow> handle_local_failure fence ReservationDenied
     | Some route \<Rightarrow>
         act_then (publish_confirmed_route fence route (h_relay_peer_id (snap_handle snap)))
         (act_then (update_slot ''current slot'' (lf_slot_id fence) (\<lambda>l. l\<lparr>ls_state := ConfirmedSlot (snap_handle snap)\<rparr>))
         (set_next_poll 0))) ?Q ?E w) ?E w s"
    using P by (rule wp_join_slot_worker)
      (auto split: option.splits simp: is_reporting_def quietly_def next_calls_def actor_safe_iff
        simp del: wp_then intro: failed publish simp: wp_then[of "publish_confirmed_route f r p" for f r p])
  then show ?thesis
    unfolding on_confirmed_def Let_def wp_bind wp_get using True by auto
qed

section \<open>Rounds\<close>

lemma delete_loop_no_panic:
  "delete_loop config w fuel tick elapsed ceiling = Some (Inl e, t) \<Longrightarrow> \<not> is_panic e"
  by (induction config w fuel tick elapsed ceiling rule: delete_loop.induct) (auto simp: Let_def split: sum.splits if_splits)

lemma sound_delete_booking [sound_intros]: "sound_act (delete_booking fuel)"
  by (rule sound_actI)
    (auto simp: delete_booking_def act_wp_def actor_sound_safe delete_loop_no_panic actor_safe_def actor_sound_def
      split: option.splits sum.splits intro: actor_sound_safe[unfolded actor_sound_def actor_safe_def])

lemma sound_stop: "sound_act (coordinator_stop fuel delete)"
  unfolding coordinator_stop_def by (intro sound_intros; simp add: actor_sound_def)

lemma sound_retry_failure [sound_intros]:
  "sound_act (act_bind (act_get (\<lambda>s. is_current s fence)) (\<lambda>cur.
     act_then (if cur then report_failure fence reason else act_return ()) (set_next_poll 0)))"
  by (intro sound_intros)

lemma wp_child_event:
  assumes "actor_sound X s"
  shows "act_wp (handle_child_event event) (\<lambda>_. quietly (ca_snapshot s) X actor_sound)
    (quietly (ca_snapshot s) X actor_safe) w s"
proof (cases "\<exists>fence snap. event = ConfirmedChild fence snap")
  case True
  then show ?thesis
    using wp_on_confirmed[OF assms] by (auto simp: handle_child_event_def)
next
  case False
  have "sound_act (handle_child_event event)"
    unfolding handle_child_event_def using False
    by (cases event) (auto simp del: not_ex intro!: sound_intros)
  then show ?thesis
    using assms by (rule sound_quietly)
qed

lemma wp_ignored:
  assumes "act_wp m (\<lambda>_. Q False) (Q False) w s"
  shows "act_wp (\<lambda>w s. case m w s of (r, s') \<Rightarrow> (map_unwind (\<lambda>_. False) r, s')) Q E w s"
  using assms by (auto simp: act_wp_def map_unwind_def split: prod.splits sum.splits)

lemma wp_round:
  assumes "actor_sound X s"
  shows "act_wp (coordinator_round fuel turn)
    (\<lambda>go_on. quietly (ca_snapshot s) X (if go_on then actor_sound else actor_safe))
    (quietly (ca_snapshot s) X actor_safe) w s"
proof -
  let ?Q = "\<lambda>go_on. quietly (ca_snapshot s) X (if go_on then actor_sound else actor_safe)"
  let ?E = "quietly (ca_snapshot s) X actor_safe"
  have go_on: "act_wp (act_then m (act_return True)) ?Q ?E w s" if "sound_act m" for m
    using sound_quietly[OF that assms, of "ca_snapshot s" w] by (auto elim: wp_mono)
  have safe: "?E s'" if "actor_safe X s'" for s'
    using that by (auto simp: quietly_def next_calls_def)
  show ?thesis
  proof (cases "ca_control_fenced s")
    case True
    then show ?thesis
      using safe[OF actor_sound_safe[OF assms]] by (simp add: coordinator_round_def)
  next
    case running: False
    show ?thesis
    proof (cases turn)
      case (StopCommand delete)
      have "act_wp (coordinator_stop fuel delete) (\<lambda>_. ?Q False) (?Q False) w s"
        using sound_stop assms by (rule sound_act_wp) (auto intro: safe actor_sound_safe)
      from wp_ignored[where Q = ?Q, OF this] show ?thesis
        using running StopCommand by (simp add: coordinator_round_def)
    next
      case CommandsClosed
      have "act_wp fence_control_plane (\<lambda>_. ?E) ?E w s"
        using sound_ends(2) assms by (rule sound_act_wp) (auto intro: safe actor_sound_safe)
      then show ?thesis
        using running CommandsClosed by (auto simp: coordinator_round_def elim: wp_mono)
    next
      case (ChildTurn event)
      then show ?thesis
        using running wp_child_event[OF assms, of event w] by (simp add: coordinator_round_def)
    next
      case (DetachedTurn h joined)
      have "sound_act (act_then (act_modify (\<lambda>s. s\<lparr>ca_detached := remove1 h (ca_detached s)\<rparr>))
          (act_lift (map_err ReservationCleanup (detached_cleanup_result joined))))"
        by (intro sound_intros) (auto simp: map_err_def split: sum.splits)
      from go_on[OF this] show ?thesis
        using running DetachedTurn by (simp add: coordinator_round_def)
    next
      case PollTurn
      have "sound_act (act_bind until_protected (\<lambda>delay. if delay \<le> cc_http_timeout (ca_config s)
          then act_modify (\<lambda>s. s\<lparr>ca_next_poll := min (ca_next_renew s) (ca_next_expiry s) + 1000000\<rparr>) else coordinator_poll))"
        by (intro sound_intros) simp
      from go_on[OF this] show ?thesis
        using running PollTurn by (auto simp: coordinator_round_def elim: wp_mono)
    qed (use running go_on sound_intros in \<open>auto simp: coordinator_round_def simp del: wp_then\<close>)
  qed
qed

section \<open>Runs\<close>

definition coordinator_step :: "coordinator_world \<Rightarrow> coordinator_actor \<Rightarrow> coordinator_actor \<Rightarrow> bool" where
  "coordinator_step w s s' \<longleftrightarrow> (\<exists>fuel turn. coordinator_round fuel turn w s = (Inr True, s'))"

text \<open>The states between the rounds of an actor that was started for booking \<open>b\<close> at time \<open>t0\<close>.\<close>

definition coordinator_reaches ::
  "coordinator_world \<Rightarrow> coordinator_config \<Rightarrow> relay_booking_snapshot \<Rightarrow> instant \<Rightarrow> coordinator_actor \<Rightarrow> bool"
where
  "coordinator_reaches w config b t0 s \<longleftrightarrow>
     (\<exists>s0. coordinator_start w (coordinator_actor_new config b t0) = (Inr (), s0) \<and> (coordinator_step w)\<^sup>*\<^sup>* s0 s)"

lemma reaches_started:
  "coordinator_start w (coordinator_actor_new config b t0) = (Inr (), s) \<Longrightarrow> coordinator_reaches w config b t0 s"
  by (auto simp: coordinator_reaches_def)

lemma reaches_turned:
  "coordinator_reaches w config b t0 s \<Longrightarrow> coordinator_round fuel turn w s = (Inr True, s') \<Longrightarrow>
    coordinator_reaches w config b t0 s'"
  unfolding coordinator_reaches_def by (meson coordinator_step_def rtranclp.rtrancl_into_rtrancl)

definition only_publications :: "coordinator_action list \<Rightarrow> bool" where
  "only_publications X \<longleftrightarrow> (\<forall>a \<in> set X. \<exists>p. a = PublishCall p)"

lemma only_publications_next: "only_publications X \<Longrightarrow> next_calls b X Y \<Longrightarrow> only_publications Y"
  by (auto simp: only_publications_def next_calls_def)

lemma sound_start: "sound_act coordinator_start"
  unfolding coordinator_start_def by (intro sound_intros)

lemma new_sound: "actor_sound [] (coordinator_actor_new config b t0)"
  by (auto simp: actor_sound_def actor_inv_def coordinator_actor_new_def tables_ok_def slots_all_def route_calls_def hm_ok_def
      fresh_tasks_def)

definition coordinator_inv :: "coordinator_actor \<Rightarrow> bool" where
  "coordinator_inv s \<longleftrightarrow> (\<exists>X. actor_sound X s \<and> only_publications X)"

interpretation coordinator_sys: invariant_system "coordinator_step w" coordinator_inv
proof (unfold_locales, goal_cases)
  case (1 s s')
  then obtain X fuel turn where "actor_sound X s" "only_publications X" "coordinator_round fuel turn w s = (Inr True, s')"
    by (auto simp: coordinator_inv_def coordinator_step_def)
  with wp_round[of X s fuel turn w] show ?case
    by (auto simp: coordinator_inv_def act_wp_def quietly_def intro: only_publications_next)
qed

lemma reaches_sound:
  assumes "coordinator_reaches w config b t0 s"
  shows "\<exists>X. actor_sound X s \<and> only_publications X"
proof -
  obtain s0 where s0: "coordinator_start w (coordinator_actor_new config b t0) = (Inr (), s0)"
    and run: "(coordinator_step w)\<^sup>*\<^sup>* s0 s"
    using assms by (auto simp: coordinator_reaches_def)
  have "actor_sound [] s0"
    using s0 sound_start[unfolded sound_act_def, rule_format, OF new_sound[of config b t0], of w] by (simp add: act_wp_def)
  then have "coordinator_inv s0" by (auto simp: coordinator_inv_def only_publications_def)
  from coordinator_sys.run_inv[OF run this] show ?thesis by (simp add: coordinator_inv_def)
qed

lemma wp_rounds:
  assumes "actor_sound X s" "only_publications X"
  shows "act_wp (coordinator_rounds fuel turns) (\<lambda>_ s'. \<exists>Y. actor_safe Y s' \<and> only_publications Y)
    (\<lambda>s'. \<exists>Y. actor_safe Y s' \<and> only_publications Y) w s"
  using assms
proof (induction turns arbitrary: X s)
  case Nil
  then show ?case by (auto intro: actor_sound_safe)
next
  case (Cons turn turns)
  show ?case
    unfolding coordinator_rounds.simps wp_bind
    by (rule wp_mono[OF wp_round[OF Cons.prems(1)]])
      (use Cons in \<open>auto simp: quietly_def split: if_splits intro: only_publications_next\<close>)
qed

section \<open>The end of a run\<close>

lemmas act_defs = act_return_def act_fail_def act_bind_def act_then_def act_get_def act_modify_def act_ask_def

text \<open>The cleanup of a retirement has been awaited, and its entry is still there.\<close>

definition consumed :: "uuid \<Rightarrow> coordinator_actor \<Rightarrow> bool" where
  "consumed k s \<longleftrightarrow> (case map_of (ca_retiring s) k of None \<Rightarrow> False | Some r \<Rightarrow> rt_cleanup r = ConsumedTask)"

lemma drain_retirements_run:
  assumes "drain_retirements ids first w s = (r, s')"
  shows "ca_log s' = ca_log s \<and> ca_slots s' = ca_slots s \<and> ca_detached s' = ca_detached s \<and>
    (case r of Inl e \<Rightarrow> is_panic e \<and> (\<exists>k. consumed k s)
     | Inr _ \<Rightarrow> map_of (ca_retiring s') = (\<lambda>k. if k \<in> set ids then None else map_of (ca_retiring s) k))"
  using assms
proof (induction ids arbitrary: first s)
  case (Cons k ids)
  show ?case
  proof (cases "map_of (ca_retiring s) k")
    case None
    with Cons.prems have "drain_retirements ids first w s = (r, s')"
      by (simp add: act_defs)
    from Cons.IH[OF this] None show ?thesis
      by (auto simp: fun_eq_iff split: sum.splits)
  next
    case (Some e)
    show ?thesis
    proof (cases "rt_cleanup e = ConsumedTask")
      case True
      with Some Cons.prems show ?thesis
        by (auto simp: act_defs consumed_def intro!: exI[of _ k])
    next
      case False
      let ?s = "s\<lparr>ca_tick := ca_tick s + 1, ca_retiring := hm_remove k (ca_retiring s)\<rparr>"
      have "drain_retirements ids (keep_first first (retirement_result (aw_cleanup w (ca_tick s)))) w ?s = (r, s')"
        using Cons.prems Some False by (simp add: act_defs)
      from Cons.IH[OF this] show ?thesis
        by (auto simp: fun_eq_iff consumed_def split: sum.splits if_splits)
    qed
  qed
qed (auto simp: act_defs)

lemma drain_retirements_panics:
  assumes "consumed k s" "k \<in> set ids"
  shows "fst (drain_retirements ids first w s) = Inl (CoordinatorPanic polled_after_completion) \<and>
    consumed k (snd (drain_retirements ids first w s))"
  using assms
proof (induction ids arbitrary: first s)
  case (Cons a ids)
  have step: "consumed k (s\<lparr>ca_tick := ca_tick s + 1, ca_retiring := hm_remove a (ca_retiring s)\<rparr>)" if "a \<noteq> k"
    using Cons.prems(1) that by (simp add: consumed_def)
  show ?case
  proof (cases "a = k")
    case True
    with Cons.prems(1) show ?thesis by (auto simp: act_defs consumed_def split: option.splits)
  next
    case False
    then have "k \<in> set ids" using Cons.prems(2) by simp
    then show ?thesis
      using Cons.IH[OF step[OF False]] Cons.IH[OF Cons.prems(1)] Cons.prems(1) by (simp add: act_defs split: option.splits)
  qed
qed simp

lemma drain_detached_run:
  assumes "drain_detached hs first w s = (r, s')"
  shows "\<exists>x. r = Inr x \<and> ca_log s' = ca_log s \<and> ca_slots s' = ca_slots s \<and> ca_retiring s' = ca_retiring s \<and>
    set (ca_detached s') = set (ca_detached s) - set hs"
  using assms
proof (induction hs arbitrary: first s)
  case (Cons h hs)
  let ?s = "s\<lparr>ca_tick := ca_tick s + 1, ca_detached := removeAll h (ca_detached s)\<rparr>"
  have "drain_detached hs (keep_first first (detached_cleanup_result (aw_cleanup w (ca_tick s)))) w ?s = (r, s')"
    using Cons.prems by (simp add: act_defs)
  from Cons.IH[OF this] show ?case by auto
qed (auto simp: act_defs)

text \<open>The drain empties the tables, unless it meets a cleanup that has been awaited before.\<close>

lemma drain_cleanup_panics:
  assumes "consumed k s"
  shows "\<exists>s'. drain_cleanup_tasks w s = (Inl (CoordinatorPanic polled_after_completion), s') \<and> consumed k s' \<and>
    ca_log s' = ca_log s \<and> ca_slots s' = ca_slots s \<and> ca_detached s' = ca_detached s"
proof -
  let ?s = "s\<lparr>ca_tick := ca_tick s + 1\<rparr>"
  let ?ids = "map fst (sort_key (\<lambda>e. aw_rank w (ca_tick s) (fst e)) (ca_retiring s))"
  obtain r1 s1 where 1: "drain_retirements ?ids None w ?s = (r1, s1)" by fastforce
  have "k \<in> set ?ids" "consumed k ?s"
    using assms map_of_eq_None_iff[of "ca_retiring s" k] by (auto simp: consumed_def split: option.splits)
  then show ?thesis
    using drain_retirements_panics[of k ?s ?ids None w] drain_retirements_run[OF 1] 1
    by (auto simp: drain_cleanup_tasks_def act_iterate_def act_defs)
qed

lemma drain_cleanup_run:
  assumes "drain_cleanup_tasks w s = (r, s')"
  shows "ca_log s' = ca_log s \<and> ca_slots s' = ca_slots s \<and>
    (if \<exists>k. consumed k s then r = Inl (CoordinatorPanic polled_after_completion)
     else ca_retiring s' = [] \<and> ca_detached s' = [] \<and> (\<forall>e. r = Inl e \<longrightarrow> \<not> is_panic e))"
proof -
  let ?s = "s\<lparr>ca_tick := ca_tick s + 1\<rparr>"
  let ?ids = "map fst (sort_key (\<lambda>e. aw_rank w (ca_tick s) (fst e)) (ca_retiring s))"
  obtain r1 s1 where 1: "drain_retirements ?ids None w ?s = (r1, s1)" by fastforce
  have ids: "set ?ids = fst ` set (ca_retiring s)" by simp
  have same: "consumed k ?s = consumed k s" for k by (simp add: consumed_def)
  show ?thesis
  proof (cases "\<exists>k. consumed k s")
    case True
    then show ?thesis
      using drain_cleanup_panics[of _ s w] assms by auto
  next
    case False
    then obtain x where x: "r1 = Inr x"
      and "map_of (ca_retiring s1) = (\<lambda>k. if k \<in> set ?ids then None else map_of (ca_retiring ?s) k)"
      using drain_retirements_run[OF 1] same by (auto split: sum.splits)
    then have e1: "ca_retiring s1 = []"
      unfolding ids by (simp add: fun_eq_iff map_of_eq_None_iff flip: map_of_empty_iff)
    obtain r2 s2 where 2: "drain_detached (ca_detached s1) x w s1 = (r2, s2)" by fastforce
    obtain y where y: "r2 = Inr y" "ca_log s2 = ca_log s1" "ca_slots s2 = ca_slots s1" "ca_retiring s2 = []" "ca_detached s2 = []"
      using drain_detached_run[OF 2] e1 by auto
    have "drain_cleanup_tasks w s = (case y of Some e \<Rightarrow> act_fail (ReservationCleanup e) | None \<Rightarrow> reset_expiry_timer) w s2"
      using 1 2 x y(1) by (simp add: drain_cleanup_tasks_def act_iterate_def act_defs)
    then show ?thesis
      using assms False y drain_retirements_run[OF 1]
      by (auto simp: act_defs reset_expiry_timer_def Let_def split: option.splits)
  qed
qed

lemma consumed_frame [simp]:
  "consumed k (s\<lparr>ca_tick := n\<rparr>) = consumed k s" "consumed k (s\<lparr>ca_log := l\<rparr>) = consumed k s"
  "consumed k (s\<lparr>ca_slots := m\<rparr>) = consumed k s" "consumed k (s\<lparr>ca_next_expiry := t\<rparr>) = consumed k s"
  "consumed k (s\<lparr>ca_control_fenced := f\<rparr>) = consumed k s" "consumed k (s\<lparr>ca_events_closed := f\<rparr>) = consumed k s"
  by (simp_all add: consumed_def)

lemma force_retire_consumed:
  assumes "tables_ok (ca_slots s) (ca_retiring s)"
  shows "act_wp (force_retire fence) (\<lambda>_ s'. tables_ok (ca_slots s') (ca_retiring s') \<and> consumed k s' = consumed k s) (\<lambda>_. False) w s"
proof -
  have inv: "actor_inv (ca_snapshot s) (False, route_calls (ca_log s)) (\<lambda>_ _. True) s"
    using assms by (simp add: actor_inv_def slots_all_def)
  have "act_wp (force_retire fence) (\<lambda>_ s'. consumed k s' = consumed k s) (\<lambda>_. False) w s"
  proof (cases "map_of (ca_retiring s) (lf_slot_id fence)")
    case (Some r)
    then have "map_of (ca_slots s) (lf_slot_id fence) = None"
      by (rule actor_inv_unretired(2)[OF inv])
    with Some show ?thesis
      by (auto simp: force_retire_def retirement_already_started_def local_slot_of_def filter_option_def consumed_def)
  next
    case None
    then show ?thesis
      by (auto simp: force_retire_def retirement_already_started_def start_retirement_after_route_fence_def
          local_slot_of_def filter_option_def consumed_def split: option.splits)
  qed
  moreover have "act_wp (force_retire fence) (\<lambda>_ s'. tables_ok (ca_slots s') (ca_retiring s')) (\<lambda>_. False) w s"
    by (rule wp_force_retire[OF inv]) (simp add: actor_inv_def)
  ultimately show ?thesis
    by (simp add: act_wp_def split: prod.splits sum.splits)
qed

lemma force_retire_all_run:
  assumes "actor_safe X s"
  shows "\<exists>routes s1. force_retire_all w s = (Inr routes, s1) \<and> actor_safe (X @ [FenceAllCall]) s1 \<and> ca_slots s1 = [] \<and>
    (\<forall>k. consumed k s1 = consumed k s)"
proof -
  have inv: "actor_inv (ca_snapshot s) (False, X) (\<lambda>_ _. True) s"
    using assms by (simp add: actor_safe_def)
  have 1: "act_wp force_retire_all (\<lambda>_ s1. actor_safe (X @ [FenceAllCall]) s1 \<and> ca_slots s1 = []) (\<lambda>_. False) w s"
    by (rule wp_force_retire_all[OF inv]) (auto simp: actor_safe_iff dest: actor_inv_None)
  have 2: "act_wp force_retire_all (\<lambda>_ s1. consumed k s1 = consumed k s) (\<lambda>_. False) w s" for k
    unfolding force_retire_all_def wp_then wp_modify wp_emit wp_bind wp_ask wp_iterate
  proof (rule wp_each[where I = "\<lambda>_ s'. tables_ok (ca_slots s') (ca_retiring s') \<and> consumed k s' = consumed k s"])
    fix ds :: "(uuid \<times> local_slot) list" and x s'
    assume s': "tables_ok (ca_slots s') (ca_retiring s') \<and> consumed k s' = consumed k s"
    then show "act_wp (force_retire (ls_fence (snd x))) (\<lambda>_ s'. tables_ok (ca_slots s') (ca_retiring s') \<and> consumed k s' = consumed k s) (\<lambda>_. False) w s'"
      using force_retire_consumed[of s' "ls_fence (snd x)" k w] by (auto elim: wp_mono)
  qed (use inv in \<open>auto simp: actor_inv_def mark_all_removed_def consumed_def map_entries_get split: option.splits\<close>)
  from wp_total[OF 1] obtain routes s1 where "force_retire_all w s = (Inr routes, s1)"
    "actor_safe (X @ [FenceAllCall]) s1" "ca_slots s1 = []" by blast
  with 2 show ?thesis by (auto simp: act_wp_def)
qed

lemma force_retire_all_detached:
  "act_wp force_retire_all (\<lambda>_ s1. ca_detached s1 = ca_detached s) (\<lambda>s1. ca_detached s1 = ca_detached s) w s"
  unfolding force_retire_all_def wp_then wp_modify wp_emit wp_bind wp_ask wp_iterate
proof (rule wp_each[where I = "\<lambda>_ s'. ca_detached s' = ca_detached s"])
  fix ds :: "(uuid \<times> local_slot) list" and x and s' :: coordinator_actor
  assume "ca_detached s' = ca_detached s"
  then show "act_wp (force_retire (ls_fence (snd x))) (\<lambda>_ s'. ca_detached s' = ca_detached s) (\<lambda>s1. ca_detached s1 = ca_detached s) w s'"
    by (auto simp: force_retire_def retirement_already_started_def start_retirement_after_route_fence_def local_slot_of_def
        filter_option_def split: option.splits)
qed (simp_all add: mark_all_removed_def)

text \<open>The forced fence, from any consistent state.\<close>

lemma force_fence_run:
  assumes "actor_safe X s" "force_fence w s = (r, s')"
  shows "route_calls (ca_log s') = X @ [FenceAllCall] \<and> ca_slots s' = [] \<and>
    (if \<exists>k. consumed k s then r = Inl (CoordinatorPanic polled_after_completion)
     else ca_retiring s' = [] \<and> ca_detached s' = [] \<and> \<not> unwinds r)"
proof -
  obtain routes s1 where 1: "force_retire_all w s = (Inr routes, s1)" "actor_safe (X @ [FenceAllCall]) s1" "ca_slots s1 = []"
    "\<And>k. consumed k s1 = consumed k s"
    using force_retire_all_run[OF assms(1)] by blast
  obtain c s2 where 2: "drain_cleanup_tasks w s1 = (c, s2)" by fastforce
  have "route_calls (ca_log s1) = X @ [FenceAllCall]"
    using 1(2) by (simp add: actor_safe_def actor_inv_def)
  then show ?thesis
    using assms(2) 1(1,3,4) 2 drain_cleanup_run[OF 2]
    by (auto simp: force_fence_def unwinds_def split: sum.splits if_splits)
qed

lemma force_fence_panics:
  assumes "actor_safe X s" "consumed k s"
  shows "\<exists>s'. force_fence w s = (Inl (CoordinatorPanic polled_after_completion), s') \<and> consumed k s' \<and> ca_detached s' = ca_detached s"
proof -
  obtain routes s1 where 1: "force_retire_all w s = (Inr routes, s1)" "consumed k s1"
    using force_retire_all_run[OF assms(1)] assms(2) by blast
  moreover have "ca_detached s1 = ca_detached s"
    using force_retire_all_detached[of s w] 1(1) by (simp add: act_wp_def)
  ultimately show ?thesis
    using drain_cleanup_panics[OF 1(2), of w] by (auto simp: force_fence_def unwinds_def)
qed

text \<open>C22: The coordinator keeps its tables consistent and never panics. In every state that an actor
  reaches between two rounds, slots and retiring slots are disjoint, each stands under the identity of
  its fence, and a slot that may still be published is authorized for no longer than the booking, less
  the safety margin; and whatever the next turn is, none of the expectations in the handlers fails.\<close>

theorem coordinator_never_panics:
  assumes "coordinator_reaches w config b t0 s"
  shows "tables_ok (ca_slots s) (ca_retiring s) \<and>
    list_all (\<lambda>(k, l). is_reporting l \<or> ls_authorized_until l \<le> authority_bound (ca_snapshot s)) (ca_slots s) \<and>
    fst (coordinator_round fuel turn w s) \<noteq> Inl (CoordinatorPanic msg)"
proof -
  obtain X where X: "actor_sound X s" using reaches_sound[OF assms] by blast
  then have inv: "actor_inv (ca_snapshot s) (True, X) (\<lambda>_. authorized_slot (ca_snapshot s)) s"
    by (simp add: actor_sound_def)
  have "list_all (\<lambda>(k, l). authorized_slot (ca_snapshot s) l) (ca_slots s)"
    using actor_inv_slot(3)[OF inv] actor_inv_hm_ok[OF inv] by (auto simp: list_all_iff hm_mem)
  then show ?thesis
    using inv wp_round[OF X, of fuel turn w]
    by (auto simp: actor_inv_def authorized_slot_def act_wp_def split: prod.splits sum.splits)
qed

text \<open>C3: A round publishes at most one route, and only under authority: it belongs to an assignment
  that the current snapshot of the booking names with its reservation epoch, and it ends a safety margin
  before both the requested time and the authority of the booking end.\<close>

theorem publication_authorized:
  assumes "coordinator_reaches w config b t0 s" "coordinator_round fuel turn w s = (r, s')"
  shows "route_calls (ca_log s') = route_calls (ca_log s) \<or>
    (\<exists>p. route_calls (ca_log s') = route_calls (ca_log s) @ [PublishCall p] \<and>
      snapshot_has_fence (ca_snapshot s) (pb_fence p) \<and>
      pb_authorized_until p + int RELAY_AUTHORITY_SAFETY_MARGIN \<le> bs_requested_until (ca_snapshot s) \<and>
      pb_authorized_until p + int RELAY_AUTHORITY_SAFETY_MARGIN \<le> bs_authority_expires_at (ca_snapshot s))"
proof -
  obtain X where X: "actor_sound X s" using reaches_sound[OF assms(1)] by blast
  then have "X = route_calls (ca_log s)" by (simp add: actor_sound_def actor_inv_def)
  moreover have "next_calls (ca_snapshot s) X (route_calls (ca_log s'))"
    using wp_round[OF X, of fuel turn w] assms(2)
    by (auto simp: act_wp_def quietly_def actor_sound_def actor_safe_def actor_inv_def split: sum.splits if_splits)
  ultimately show ?thesis
    by (auto simp: next_calls_def authorized_publication_def authority_bound_def)
qed

lemma coordinator_run_ends:
  assumes "coordinator_reaches w config b t0 s" "run_coordinator_actor fuel turns w s = (r, s')"
  shows "(\<exists>X. route_calls (ca_log s') = X @ [FenceAllCall, FenceAllCall] \<and> FenceAllCall \<notin> set X) \<and> ca_slots s' = [] \<and>
    (if \<exists>k. consumed k (snd (coordinator_rounds fuel turns w s)) then r = Inl (CoordinatorPanic polled_after_completion)
     else ca_retiring s' = [] \<and> ca_detached s' = [] \<and> \<not> unwinds r)"
proof -
  obtain X where X: "actor_sound X s" "only_publications X" using reaches_sound[OF assms(1)] by blast
  obtain r1 s1 where run: "coordinator_rounds fuel turns w s = (r1, s1)" by fastforce
  obtain r2 s2 where force: "force_fence w s1 = (r2, s2)" by fastforce
  obtain Y where Y: "actor_safe Y s1" "only_publications Y" and r1: "\<not> unwinds r1"
    using wp_rounds[OF X, of fuel turns w] run by (auto simp: act_wp_def unwinds_def split: sum.splits)
  have "route_calls (ca_log (coordinator_drop s2)) = route_calls (ca_log s2) @ [FenceAllCall]"
    by (simp add: coordinator_drop_def route_calls_def filter_empty_conv)
  moreover have "FenceAllCall \<notin> set Y"
    using Y(2) by (auto simp: only_publications_def)
  moreover have "r = (if unwinds r2 \<or> (\<exists>e. r2 = Inl e) then r2 else r1)" "s' = coordinator_drop s2"
    using assms(2) run force by (auto simp: run_coordinator_actor_def unwinds_def split: sum.splits)
  moreover have "ca_slots (coordinator_drop s2) = [] \<longleftrightarrow> ca_slots s2 = []"
    "ca_retiring (coordinator_drop s2) = ca_retiring s2" "ca_detached (coordinator_drop s2) = ca_detached s2"
    by (simp_all add: coordinator_drop_def map_entries_def)
  ultimately show ?thesis
    using force_fence_run[OF Y(1) force] run r1 by (auto simp: unwinds_def split: if_splits)
qed

text \<open>C4: However the actor ends (a command, an error or a forced shutdown after any turns), its last calls on
  routes are those that fence them all, and nothing is published after the first of them. No slot is
  left. Unless the rounds have left a retirement whose cleanup was awaited already, no retirement and no
  detached cleanup is left either, and the actor does not panic; if they have, it does panic.\<close>

theorem coordinator_ends_fenced:
  assumes "coordinator_reaches w config b t0 s" "run_coordinator_actor fuel turns w s = (r, s')"
  shows "(\<exists>X. route_calls (ca_log s') = X @ [FenceAllCall, FenceAllCall] \<and> FenceAllCall \<notin> set X) \<and> ca_slots s' = [] \<and>
    (if \<exists>k. consumed k (snd (coordinator_rounds fuel turns w s)) then r = Inl (CoordinatorPanic polled_after_completion)
     else ca_retiring s' = [] \<and> ca_detached s' = [] \<and> \<not> unwinds r)"
  using coordinator_run_ends[OF assms] .

lemma drop_aborts:
  "(k, r) \<in> set (ca_retiring s) \<Longrightarrow> AbortCleanup (ls_fence (rt_local r)) \<in> set (ca_log (coordinator_drop s))"
  "h \<in> set (ca_detached s) \<Longrightarrow> AbortDetached h \<in> set (ca_log (coordinator_drop s))"
  by (force simp: coordinator_drop_def)+

text \<open>C23: A cleanup that fails brings the actor down by a panic. When the cleanup of a retirement ends
  with an error (for instance because a cancellation timed out), the round that collects it reports that
  error but keeps the entry, with the task that it has awaited. The fence that follows awaits the task
  again, which panics, so that this is how the actor ends; its owner sees only that it stopped. The
  entry is still there when the actor is dropped, and the drop aborts every cleanup that is left in the
  table and every detached cleanup there was before the round.\<close>

theorem failed_cleanup_panics:
  assumes "coordinator_reaches w config b t0 s" "\<not> ca_control_fenced s"
    and "map_of (ca_retiring s) (lf_slot_id fence) = Some retiring" "ls_fence (rt_local retiring) = fence"
    and "retirement_result (aw_cleanup w (ca_tick s)) = Inl e"
  shows "\<exists>s1 s'. coordinator_round fuel (ChildTurn (CleanupComplete fence)) w s = (Inl (ReservationCleanup e), s1) \<and>
    map_of (ca_retiring s1) (lf_slot_id fence) = Some (retiring\<lparr>rt_cleanup := ConsumedTask\<rparr>) \<and>
    fst (force_fence w s1) = Inl (CoordinatorPanic polled_after_completion) \<and>
    run_coordinator_actor fuel (ChildTurn (CleanupComplete fence) # turns) w s = (Inl (CoordinatorPanic polled_after_completion), s') \<and>
    join_actor (fst (run_coordinator_actor fuel (ChildTurn (CleanupComplete fence) # turns) w s)) = Inl CoordinatorStopped \<and>
    consumed (lf_slot_id fence) s' \<and>
    (\<forall>(k, r) \<in> set (ca_retiring s'). AbortCleanup (ls_fence (rt_local r)) \<in> set (ca_log s')) \<and>
    (\<forall>h \<in> set (ca_detached s). AbortDetached h \<in> set (ca_log s'))"
proof -
  obtain X where X: "actor_sound X s" "only_publications X" using reaches_sound[OF assms(1)] by blast
  have fresh: "rt_cleanup retiring \<noteq> ConsumedTask"
    using actor_inv_fresh(2)[OF X(1)[unfolded actor_sound_def] _ assms(3)] by simp
  let ?turns = "ChildTurn (CleanupComplete fence) # turns"
  let ?s = "s\<lparr>ca_tick := ca_tick s + 1, ca_retiring := hm_insert (lf_slot_id fence) (retiring\<lparr>rt_cleanup := ConsumedTask\<rparr>) (ca_retiring s)\<rparr>"
  have round: "coordinator_round fuel (ChildTurn (CleanupComplete fence)) w s = (Inl (ReservationCleanup e), ?s)"
    using assms(2-5) fresh
    by (simp add: coordinator_round_def handle_child_event_def finish_retirement_def act_defs act_lift_def map_err_def)
  then have rounds: "coordinator_rounds fuel ?turns w s = (Inl (ReservationCleanup e), ?s)"
    by (simp add: act_bind_def)
  then obtain Y where Y: "actor_safe Y ?s"
    using wp_rounds[OF X, of fuel ?turns w] by (auto simp: act_wp_def)
  have "consumed (lf_slot_id fence) ?s" by (simp add: consumed_def)
  from force_fence_panics[OF Y this] obtain s2 where
    s2: "force_fence w ?s = (Inl (CoordinatorPanic polled_after_completion), s2)" "consumed (lf_slot_id fence) s2" "ca_detached s2 = ca_detached s"
    by auto
  have run: "run_coordinator_actor fuel ?turns w s = (Inl (CoordinatorPanic polled_after_completion), coordinator_drop s2)"
    unfolding run_coordinator_actor_def rounds using s2(1) by simp
  have kept: "ca_retiring (coordinator_drop s2) = ca_retiring s2" by (simp add: coordinator_drop_def)
  show ?thesis
    using round s2 run drop_aborts kept
    by (intro exI[of _ ?s] exI[of _ "coordinator_drop s2"]) (auto simp: join_actor_def consumed_def)
qed

section \<open>The deletion ends\<close>

lemma gen_range_bounds: "lo \<le> hi \<Longrightarrow> lo \<le> gen_range lo hi random \<and> gen_range lo hi random \<le> hi"
  using mod_less_divisor[of "hi - lo + 1" random] unfolding gen_range_def by linarith

lemma as_millis_mono: "a \<le> b \<Longrightarrow> as_millis a \<le> as_millis b"
  unfolding as_millis_def by (intro min.mono div_le_mono) auto

lemma retry_jitter_bounds:
  "as_millis minimum * 1000000 \<le> retry_jitter minimum maximum random \<and>
   retry_jitter minimum maximum random \<le> max maximum minimum"
proof -
  have "as_millis d * 1000000 \<le> d" for d
    unfolding as_millis_def by (rule order.trans[OF mult_le_mono1[OF min.cobounded1]]) (rule div_times_less_eq_dividend)
  with gen_range_bounds[OF as_millis_mono[of minimum "max maximum minimum"], of random] show ?thesis
    unfolding retry_jitter_def by (meson max.cobounded2 mult_le_mono1 order.trans)
qed

lemma delete_loop_Some:
  assumes "0 < fuel" "cc_reservation_retry_budget config \<le> elapsed + fuel * (as_millis (cc_retry_min config) * 1000000)"
  shows "\<exists>r n. delete_loop config w fuel tick elapsed ceiling = Some (r, tick + n) \<and> n \<le> 3 * fuel"
  using assms
proof (induction fuel arbitrary: tick elapsed ceiling)
  case (Suc fuel)
  let ?m = "as_millis (cc_retry_min config) * 1000000"
  let ?d = "retry_jitter (cc_retry_min config) ceiling (aw_random w (tick + 1))"
  let ?now = "elapsed + aw_passed w (tick + 2)"
  have d: "?m \<le> ?d" using retry_jitter_bounds by blast
  show ?case
  proof (cases "cc_reservation_retry_budget config \<le> ?now + ?d")
    case True
    then show ?thesis
      by (auto simp: Let_def split: sum.splits)
  next
    case False
    then have "0 < fuel" "cc_reservation_retry_budget config \<le> (?now + ?d) + fuel * ?m"
      using Suc.prems(2) d by (cases fuel; simp)+
    from Suc.IH[OF this, of "tick + 3" "min (ceiling * 2) (cc_retry_max config)"]
    obtain r n where rec: "delete_loop config w fuel (tick + 3) (?now + ?d) (min (ceiling * 2) (cc_retry_max config)) =
        Some (r, tick + 3 + n)" "n \<le> 3 * fuel"
      by blast
    have "delete_loop config w fuel (tick + 3) (?now + ?d) (min (ceiling * 2) (cc_retry_max config)) = Some (r, tick + (3 + n))"
      using rec(1) by (simp add: add.assoc)
    then show ?thesis
      using rec(2) by (auto simp: Let_def split: sum.splits)
  qed
qed simp

text \<open>The retries of the deletion at the end of a coordinator terminate. Whatever the service answers,
  if the shortest delay is a millisecond or more, then as many iterations as whole shortest delays fit
  into the retry budget, and one more, suffice: the loop returns, and no larger bound changes its result.\<close>

theorem deletion_terminates:
  assumes "1000000 \<le> cc_retry_min config"
    and "cc_reservation_retry_budget config div (as_millis (cc_retry_min config) * 1000000) < fuel"
  shows "\<exists>r n. n \<le> 3 * fuel \<and> (\<forall>more. delete_loop config w (fuel + more) tick elapsed ceiling = Some (r, tick + n))"
proof -
  let ?m = "as_millis (cc_retry_min config) * 1000000"
  have "1 \<le> as_millis (cc_retry_min config)"
    using as_millis_mono[OF assms(1)] by (simp add: as_millis_def)
  then have "cc_reservation_retry_budget config < fuel * ?m"
    using assms(2) by (subst div_less_iff_less_mult[symmetric]) simp_all
  then obtain r n where 1: "delete_loop config w fuel tick elapsed ceiling = Some (r, tick + n)" "n \<le> 3 * fuel"
    using delete_loop_Some[of fuel config elapsed w tick ceiling] assms(2) by fastforce
  have "delete_loop config w (fuel + more) tick elapsed ceiling = Some x" if "delete_loop config w fuel tick elapsed ceiling = Some x" for x more
    using that
    by (induction config w fuel tick elapsed ceiling rule: delete_loop.induct) (auto simp: Let_def split: sum.splits if_splits)
  with 1 show ?thesis by blast
qed

section \<open>A run that publishes a route\<close>

definition run_slot :: relay_slot_snapshot where
  "run_slot = \<lparr>ss_slot_id = 1, ss_slot_index = 0, ss_state = Ready, ss_assignment_id = Some 2,
     ss_reservation_epoch = Some 3, ss_provider_peer_id = Some ''082'',
     ss_provider_base_addresses = Some [sample_raw_tcp, sample_raw_wss],
     ss_limits = Some \<lparr>rl_duration_seconds = 120, rl_data_bytes_per_direction = 131072\<rparr>,
     ss_provider_lease_expires_at = Some 7200000000000, ss_recovery_expires_at = None\<rparr>"

definition run_booking :: relay_booking_snapshot where
  "run_booking = \<lparr>bs_booking_id = 9, bs_mode = Public, bs_state = ActiveBooking, bs_relay_count = 1,
     bs_requested_duration_seconds = 3600, bs_requested_until = 3600000000000,
     bs_authority_expires_at = 300000000000, bs_assigned_count = 1, bs_provider_ready_count = 1,
     bs_unfilled_count = 0, bs_created_at = 0, bs_ended_at = None, bs_slots = [run_slot]\<rparr>"

definition run_config :: coordinator_config where
  "run_config = \<lparr>cc_transport = TransportTcp, cc_idempotency_key = ''k'', cc_mode = Public,
     cc_requested_duration_seconds = 3600, cc_relay_count = 1, cc_status_poll_interval = from_secs 30,
     cc_reservation_retry_budget = from_secs 60, cc_retry_min = from_secs 1, cc_retry_max = from_secs 10,
     cc_http_timeout = from_secs 15\<rparr>"

definition run_world :: "(string, (cleanup_error, unit) result) result \<Rightarrow> coordinator_world" where
  "run_world cleaned = \<lparr>aw_codec = ref_codec, aw_utc = (\<lambda>_. 0), aw_mono = (\<lambda>_. 0), aw_random = (\<lambda>_. 0),
     aw_preferred = (\<lambda>_ remaining. remaining div 2), aw_rank = (\<lambda>_ _. 0), aw_draw = (\<lambda>_. Inr 4),
     aw_tombstone = (\<lambda>_. Inr True), aw_refresh = (\<lambda>_. Inr True), aw_publish = (\<lambda>_. Inr ()),
     aw_fence_all = (\<lambda>_. Inr ()), aw_join = (\<lambda>_. Inr (Inr None)), aw_cleanup = (\<lambda>_. cleaned),
     aw_subscribe = (\<lambda>_. Inr ()), aw_active = (\<lambda>_. Some (Inr (Some run_booking))),
     aw_snapshot = (\<lambda>_. Some (Inr run_booking)), aw_delete = (\<lambda>_. Some (Inr ())), aw_passed = (\<lambda>_. 0)\<rparr>"

lemma run_world_simps [simp]:
  "aw_codec (run_world cleaned) = ref_codec" "aw_utc (run_world cleaned) n = 0" "aw_mono (run_world cleaned) n = 0" "aw_random (run_world cleaned) n = 0"
  "aw_preferred (run_world cleaned) n d = d div 2" "aw_rank (run_world cleaned) n k = 0" "aw_draw (run_world cleaned) n = Inr 4"
  "aw_tombstone (run_world cleaned) n = Inr True" "aw_refresh (run_world cleaned) n = Inr True" "aw_publish (run_world cleaned) n = Inr ()"
  "aw_join (run_world cleaned) n = Inr (Inr None)" "aw_cleanup (run_world cleaned) n = cleaned"
  by (simp_all add: run_world_def)

lemma run_booking_simps [simp]:
  "bs_state run_booking = ActiveBooking" "bs_slots run_booking = [run_slot]"
  "relay_authorized_until (bs_requested_until run_booking) (bs_authority_expires_at run_booking) 7200000000000 = 280000000000"
  "cc_transport run_config = TransportTcp" "booking_needs_fast_status_poll run_booking = False"
  by (simp_all add: run_booking_def run_config_def relay_authorized_until_def RELAY_AUTHORITY_SAFETY_MARGIN_def
      from_secs_def booking_needs_fast_status_poll_def run_slot_def)

definition run_fence :: local_relay_fence where
  "run_fence = \<lparr>lf_slot_id = 1, lf_assignment_id = 2, lf_reservation_epoch = 3, lf_local_generation = 4\<rparr>"

definition run_handle :: handle where
  "run_handle = \<lparr>h_node_instance_id = 5, h_relay_peer_id = sample_relay, h_generation = 1, h_listener_id = 6\<rparr>"

definition run_route :: multiaddr where
  "run_route = sample_tcp @ [P2pCircuit, P2p (PeerId ''T'')]"

definition run_confirmed :: relay_reservation_snapshot where
  "run_confirmed = \<lparr>snap_handle = run_handle, snap_state = Publishable, snap_selected_base = sample_tcp,
     snap_expected_limits = sample_limits, snap_direct_connection = None, snap_publishable_route = Some run_route\<rparr>"

lemma run_peer: "peer_to_string ref_codec sample_relay = ''082''" "peer_from_str ref_codec ''082'' = Some sample_relay"
  by (simp_all add: ref_codec_eval sample_relay_def)

lemma run_provider:
  "relay_provider_for_transport ref_codec ''082'' [sample_raw_tcp, sample_raw_wss] 120 131072 TransportTcp = Inr sample_provider"
proof -
  have "expected_relay_limits_new (duration_from_secs (ucast (120 :: u32))) 131072 = Inr sample_limits"
    by (simp add: expected_relay_limits_new_def sample_limits_def duration_from_secs_def)
  then show ?thesis
    using sample_provider_new(1) run_peer by (simp add: relay_provider_for_transport_def)
qed

definition run_local :: local_slot where
  "run_local = \<lparr>ls_fence = run_fence, ls_relay_peer_id = ''082'',
     ls_provider_base_addresses = [sample_raw_tcp, sample_raw_wss], ls_limits = sample_limits,
     ls_authorized_until = 280000000000, ls_state = Reserving None, ls_retry_canceled = False, ls_worker = RunningTask\<rparr>"

lemma run_desired: "desired_slots run_booking = [(1, \<lparr>ds_assignment_id = 2, ds_reservation_epoch = 3, ds_peer = ''082'',
    ds_bases = [sample_raw_tcp, sample_raw_wss],
    ds_limits = \<lparr>rl_duration_seconds = 120, rl_data_bytes_per_direction = 131072\<rparr>, ds_lease = 7200000000000\<rparr>)]"
  by (simp add: desired_slots_def desired_of_def List.map_filter_def hm_insert_def run_booking_def run_slot_def)

lemma run_started:
  "act_wp coordinator_start (\<lambda>_ s. ca_config s = run_config \<and> ca_snapshot s = run_booking \<and> ca_slots s = [(1, run_local)] \<and>
     ca_retiring s = [] \<and> ca_pending s = [] \<and> \<not> ca_control_fenced s \<and> route_calls (ca_log s) = []) (\<lambda>_. False)
     (run_world cleaned) (coordinator_actor_new run_config run_booking 0)"
  by (simp add: coordinator_start_def schedule_renewal_def authority_remaining_def
    set_next_renew_def coordinator_actor_new_def apply_current_snapshot_def run_desired Let_def apply_desired_def hm_contains_def
    add_slot_def run_provider create_slot_def wp_update_slot schedule_status_poll_def set_next_poll_def
    status_poll_delay_def run_local_def run_fence_def route_calls_def sample_provider_def hm_insert_def run_peer)

lemma run_reserved:
  assumes "ca_config s = run_config" "ca_snapshot s = run_booking" "ca_slots s = [(1, run_local)]"
    "ca_retiring s = []" "ca_pending s = []" "\<not> ca_control_fenced s"
  shows "act_wp (coordinator_round 0 (ChildTurn (StartedChild run_fence run_handle))) (\<lambda>go_on s'. go_on \<and>
    ca_config s' = run_config \<and> ca_snapshot s' = run_booking \<and> ca_slots s' = [(1, run_local\<lparr>ls_state := Reserving (Some run_handle)\<rparr>)] \<and>
     ca_retiring s' = [] \<and> ca_pending s' = [] \<and> \<not> ca_control_fenced s' \<and> ca_log s' = ca_log s) (\<lambda>_. False) (run_world cleaned) s"
  using assms
  by (simp add: coordinator_round_def handle_child_event_def on_started_def local_slot_of_def filter_option_def run_fence_def
      run_local_def hm_insert_def set_next_poll_def)

lemma run_prepared:
  assumes "ls_provider_base_addresses l = [sample_raw_tcp, sample_raw_wss]" "ls_limits l = sample_limits"
  shows "\<exists>p. prepare_route ref_codec TransportTcp l run_route sample_relay = Inr p \<and> pb_fence p = ls_fence l \<and>
    pb_authorized_until p = ls_authorized_until l"
proof -
  have "circuit_route_for_transport sample_provider TransportTcp (PeerId ''T'') = Inr run_route"
    "\<exists>routes. circuit_routes sample_provider (PeerId ''T'') = Inr routes"
    by (simp_all add: circuit_routes_def circuit_route_for_transport_def base_for_transport_def sample_provider_def
        sample_base_defs run_route_def ok_or_def provider_base_transport_def provider_base_parts_def)
  moreover have "route_target run_route = Some (PeerId ''T'')"
    by (simp add: route_target_def run_route_def)
  moreover have "limit_duration_seconds sample_limits = 120" "limit_data_bytes sample_limits = 131072"
    by (simp_all add: sample_limits_def)
  ultimately show ?thesis
    using assms by (auto simp: prepare_route_def ok_or_def map_err_def run_peer run_provider)
qed

lemma run_published:
  assumes "ca_config s = run_config" "ca_snapshot s = run_booking"
    "ca_slots s = [(1, run_local\<lparr>ls_state := Reserving (Some run_handle)\<rparr>)]"
    "ca_retiring s = []" "ca_pending s = []" "\<not> ca_control_fenced s"
  shows "act_wp (coordinator_round 0 (ChildTurn (ConfirmedChild run_fence run_confirmed))) (\<lambda>go_on s'. go_on \<and>
    (\<exists>p. route_calls (ca_log s') = route_calls (ca_log s) @ [PublishCall p] \<and> pb_authorized_until p = 280000000000)) (\<lambda>_. False) (run_world cleaned) s"
proof -
  let ?l = "run_local\<lparr>ls_state := Reserving (Some run_handle), ls_worker := NoTask\<rparr>"
  obtain p where p: "prepare_route ref_codec TransportTcp ?l run_route sample_relay = Inr p"
      "pb_authorized_until p = 280000000000"
    using run_prepared[of ?l] by (auto simp: run_local_def)
  show ?thesis
    using assms p
    by (simp add: coordinator_round_def handle_child_event_def on_confirmed_def local_slot_of_def filter_option_def run_fence_def
      run_local_def hm_insert_def set_next_poll_def run_confirmed_def snapshot_has_fence_def run_slot_def join_slot_worker_def
      map_err_def publish_confirmed_route_def ok_or_def run_handle_def wp_update_slot route_calls_def)
qed

lemma run_reaches:
  "\<exists>s s'. coordinator_reaches (run_world cleaned) run_config run_booking 0 s \<and>
    coordinator_round 0 (ChildTurn (ConfirmedChild run_fence run_confirmed)) (run_world cleaned) s = (Inr True, s') \<and>
    (\<exists>p. route_calls (ca_log s') = route_calls (ca_log s) @ [PublishCall p] \<and> pb_authorized_until p = 280000000000)"
proof -
  obtain s1 where s1: "coordinator_start (run_world cleaned) (coordinator_actor_new run_config run_booking 0) = (Inr (), s1)"
    "ca_config s1 = run_config" "ca_snapshot s1 = run_booking" "ca_slots s1 = [(1, run_local)]"
    "ca_retiring s1 = []" "ca_pending s1 = []" "\<not> ca_control_fenced s1"
    using wp_total[OF run_started] by auto
  obtain s2 where s2: "coordinator_round 0 (ChildTurn (StartedChild run_fence run_handle)) (run_world cleaned) s1 = (Inr True, s2)"
    "ca_config s2 = run_config" "ca_snapshot s2 = run_booking"
    "ca_slots s2 = [(1, run_local\<lparr>ls_state := Reserving (Some run_handle)\<rparr>)]"
    "ca_retiring s2 = []" "ca_pending s2 = []" "\<not> ca_control_fenced s2"
    using wp_total[OF run_reserved[OF s1(2-7), of cleaned]] by auto
  have "coordinator_reaches (run_world cleaned) run_config run_booking 0 s2"
    using reaches_started[OF s1(1)] s2(1) by (rule reaches_turned)
  then show ?thesis
    using wp_total[OF run_published[OF s2(2-7), of cleaned]] by auto
qed

theorem coordinator_never_panics_witness:
  "\<exists>s. fst (coordinator_round 0 PollTurn (run_world (Inr (Inr ()))) s) \<noteq> Inl (CoordinatorPanic ''current slot'') \<and>
    tables_ok (ca_slots s) (ca_retiring s) \<and> ca_slots s = [(1, run_local)]"
proof -
  obtain s where s: "coordinator_start (run_world (Inr (Inr ()))) (coordinator_actor_new run_config run_booking 0) = (Inr (), s)"
      "ca_slots s = [(1, run_local)]"
    using wp_total[OF run_started[of "Inr (Inr ())"]] by auto
  then show ?thesis
    using coordinator_never_panics[OF reaches_started[OF s(1)]] by blast
qed

theorem publication_authorized_witness:
  "\<exists>(s :: coordinator_actor) (s' :: coordinator_actor) p.
    route_calls (ca_log s') = route_calls (ca_log s) @ [PublishCall p] \<and>
    pb_authorized_until p = 280000000000 \<and>
    280000000000 + int RELAY_AUTHORITY_SAFETY_MARGIN \<le> bs_authority_expires_at (ca_snapshot s)"
proof -
  obtain s s' p where s: "coordinator_reaches (run_world (Inr (Inr ()))) run_config run_booking 0 s"
    "coordinator_round 0 (ChildTurn (ConfirmedChild run_fence run_confirmed)) (run_world (Inr (Inr ()))) s = (Inr True, s')"
    "route_calls (ca_log s') = route_calls (ca_log s) @ [PublishCall p]" "pb_authorized_until p = 280000000000"
    using run_reaches by blast
  then show ?thesis
    using publication_authorized[OF s(1,2)] by (intro exI[of _ s] exI[of _ s'] exI[of _ p]) auto
qed

theorem coordinator_ends_fenced_witness:
  "\<exists>s. ca_slots s = [(1, run_local)] \<and>
    (let s' = snd (run_coordinator_actor 0 [] (run_world (Inr (Inr ()))) s)
     in ca_slots s' = [] \<and> ca_retiring s' = [] \<and> ca_detached s' = [] \<and>
        (\<exists>X. route_calls (ca_log s') = X @ [FenceAllCall, FenceAllCall] \<and> FenceAllCall \<notin> set X))"
proof -
  let ?w = "run_world (Inr (Inr ()))"
  obtain s where s: "coordinator_start ?w (coordinator_actor_new run_config run_booking 0) = (Inr (), s)"
      "ca_slots s = [(1, run_local)]" "ca_retiring s = []"
    using wp_total[OF run_started[of "Inr (Inr ())"]] by auto
  obtain r s' where r: "run_coordinator_actor 0 [] ?w s = (r, s')" by fastforce
  show ?thesis
    using coordinator_ends_fenced[OF reaches_started[OF s(1)] r] s(2,3) r
    by (auto simp: Let_def consumed_def act_return_def)
qed

lemma run_retired:
  assumes "ca_config s = run_config" "ca_snapshot s = run_booking" "ca_slots s = [(1, run_local)]"
    "ca_retiring s = []" "ca_pending s = []" "\<not> ca_control_fenced s"
  shows "act_wp (coordinator_round 0 (ChildTurn (FailedChild run_fence None DialFailure))) (\<lambda>go_on s'. go_on \<and>
    \<not> ca_control_fenced s' \<and> (\<exists>r. map_of (ca_retiring s') (lf_slot_id run_fence) = Some r \<and> ls_fence (rt_local r) = run_fence))
    (\<lambda>_. False) (run_world cleaned) s"
  using assms
  by (simp add: coordinator_round_def handle_child_event_def on_failed_def is_reserving_def is_current_def
      is_reserving_state_def local_slot_of_def filter_option_def run_fence_def run_local_def snapshot_has_fence_def
      run_slot_def join_slot_worker_def map_err_def hm_insert_def handle_local_failure_def begin_retirement_def
      retirement_already_started_def start_retirement_after_route_fence_def set_next_poll_def hm_remove_def)

theorem failed_cleanup_panics_witness:
  "\<exists>s s'. run_coordinator_actor 0 [ChildTurn (CleanupComplete run_fence)]
      (run_world (Inr (Inl (CleanupMessage ''reservation cancellation timed out'')))) s =
        (Inl (CoordinatorPanic polled_after_completion), s') \<and> consumed (lf_slot_id run_fence) s'"
proof -
  let ?e = "CleanupMessage ''reservation cancellation timed out''"
  let ?w = "run_world (Inr (Inl ?e))"
  obtain s1 where s1: "coordinator_start ?w (coordinator_actor_new run_config run_booking 0) = (Inr (), s1)"
    "ca_config s1 = run_config" "ca_snapshot s1 = run_booking" "ca_slots s1 = [(1, run_local)]"
    "ca_retiring s1 = []" "ca_pending s1 = []" "\<not> ca_control_fenced s1"
    using wp_total[OF run_started[of "Inr (Inl ?e)"]] by auto
  obtain s2 r where s2: "coordinator_round 0 (ChildTurn (FailedChild run_fence None DialFailure)) ?w s1 = (Inr True, s2)"
    "\<not> ca_control_fenced s2" "map_of (ca_retiring s2) (lf_slot_id run_fence) = Some r" "ls_fence (rt_local r) = run_fence"
    using wp_total[OF run_retired[OF s1(2-7), of "Inr (Inl ?e)"]] by auto
  have "coordinator_reaches ?w run_config run_booking 0 s2"
    using reaches_started[OF s1(1)] s2(1) by (rule reaches_turned)
  moreover have "retirement_result (aw_cleanup ?w (ca_tick s2)) = Inl ?e"
    by (simp add: retirement_result_def)
  ultimately show ?thesis
    using failed_cleanup_panics[OF _ s2(2-4)] by blast
qed

theorem deletion_terminates_witness:
  "\<exists>r n. n \<le> 3 * 61 \<and> (\<forall>more. delete_loop run_config
    ((run_world (Inr (Inr ())))\<lparr>aw_delete := (\<lambda>_. Some (Inl (TransportFailed Delete True)))\<rparr>)
    (61 + more) 0 0 (from_secs 1) = Some (r, 0 + n))"
  by (rule deletion_terminates) (simp_all add: run_config_def as_millis_def from_secs_def)

end
