(* ===== verification/Relay_Worker.thy ===== *)
theory Relay_Worker
  imports Relay_Coordinator_Safety
begin

text \<open>
  The task that obtains a reservation for a slot (\<open>spawn_reservation_worker\<close> and the functions it calls in
  \<open>core/auki-sdk/src/relay/coordinator.rs\<close>) and the backend of the node it works with
  (\<open>PeerRelayReservations\<close>). As in \<open>Relay_Coordinator\<close>, the \<open>n\<close>-th question of a run is answered by entry
  \<open>n\<close> of a world, what the task does is logged, and the clock is the sum of the times that pass.
\<close>

section \<open>The backend\<close>

text \<open>\<open>stopped\<close>: the lifecycle token is cancelled before the node answers.\<close>

definition peer_start :: "bool \<Rightarrow> (p2p_error, handle) result \<Rightarrow> (handle reservation_attempt_failure, handle) result" where
  "peer_start stopped answer =
     (if stopped then Inl (BackendStopped None) else map_err (\<lambda>e. attempt_failure_of (PeerP2p e) None) answer)"

definition peer_wait ::
  "bool \<Rightarrow> handle \<Rightarrow> (p2p_error, relay_reservation_snapshot) result \<Rightarrow>
    (handle reservation_attempt_failure, relay_reservation_snapshot) result"
where
  "peer_wait stopped h answer =
     (if stopped then Inl (BackendStopped (Some h)) else map_err (\<lambda>e. attempt_failure_of (PeerP2p e) (Some h)) answer)"

definition peer_cancel :: "bool \<Rightarrow> (p2p_error, unit) result \<Rightarrow> (peer_relay_error, unit) result" where
  "peer_cancel stopped answer = (if stopped then Inl PeerStopped else map_err PeerP2p answer)"

definition peer_subscribe :: "bool \<Rightarrow> (peer_relay_error, unit) result" where
  "peer_subscribe stopped = (if stopped then Inl PeerStopped else Inr ())"

section \<open>State\<close>

datatype join_error = TaskCanceled | TaskPanicked string

type_synonym attempt = "(join_error, (handle reservation_attempt_failure, handle) result) result"

text \<open>
  What ends a \<open>select\<close> first. An attempt that loses is aborted and awaited; what it gives then comes
  along, since it may have ended before the abort.
\<close>

datatype start_race = StartCanceled attempt | StartTimedOut attempt | StartJoined attempt

datatype wait_race =
  WaitCanceled | WaitTimedOut | WaitDone "(handle reservation_attempt_failure, relay_reservation_snapshot) result"

datatype worker_action =
    StartedAttempt start_race
  | AwaitedHandle handle wait_race
  | SentEvent child_event bool
  | CanceledHandle handle

record worker_world =
  ww_canceled :: "nat \<Rightarrow> bool"
  ww_passed :: "nat \<Rightarrow> nat"
  ww_start :: "nat \<Rightarrow> start_race"
  ww_wait :: "nat \<Rightarrow> handle \<Rightarrow> wait_race"
  ww_send :: "nat \<Rightarrow> bool"
  ww_cancel :: "nat \<Rightarrow> (peer_relay_error, unit) result option"
  ww_random :: "nat \<Rightarrow> nat"
  ww_interrupted :: "nat \<Rightarrow> bool"

record worker_state =
  wk_tick :: nat
  wk_elapsed :: nat
  wk_log :: "worker_action list"

type_synonym worker_result = "(cleanup_error, handle option) result"

datatype worker_flow = Finished worker_result | Again nat

section \<open>Steps\<close>

definition next_tick :: "worker_state \<Rightarrow> worker_state" where
  "next_tick s = s\<lparr>wk_tick := wk_tick s + 1\<rparr>"

definition logged :: "worker_action \<Rightarrow> worker_state \<Rightarrow> worker_state" where
  "logged a s = s\<lparr>wk_log := wk_log s @ [a]\<rparr>"

definition read_clock :: "worker_world \<Rightarrow> worker_state \<Rightarrow> worker_state" where
  "read_clock w s = next_tick (s\<lparr>wk_elapsed := wk_elapsed s + ww_passed w (wk_tick s)\<rparr>)"

definition worker_send :: "worker_world \<Rightarrow> child_event \<Rightarrow> worker_state \<Rightarrow> bool \<times> worker_state" where
  "worker_send w event s = (let taken = ww_send w (wk_tick s) in (taken, logged (SentEvent event taken) (next_tick s)))"

definition worker_cancel :: "worker_world \<Rightarrow> handle \<Rightarrow> worker_state \<Rightarrow> (cleanup_error, unit) result \<times> worker_state" where
  "worker_cancel w h s =
     (cancel_reservation_with_timeout (ww_cancel w (wk_tick s)), logged (CanceledHandle h) (next_tick s))"

datatype aborted_reservation_start = AbortedHandle "handle option" | AbortedStopped "handle option"

definition abort_reservation_start :: "attempt \<Rightarrow> (cleanup_error, aborted_reservation_start) result" where
  "abort_reservation_start attempt =
     (case attempt of
        Inr (Inr h) \<Rightarrow> Inr (AbortedHandle (Some h))
      | Inr (Inl (ProviderFailure f)) \<Rightarrow> Inr (AbortedHandle (pf_handle f))
      | Inr (Inl (BackendStopped h)) \<Rightarrow> Inr (AbortedStopped h)
      | Inl TaskCanceled \<Rightarrow> Inr (AbortedHandle None)
      | Inl (TaskPanicked e) \<Rightarrow> Inl (PrefixedJoinError ''reservation start task failed: '' e))"

definition finish_stopped_reservation_worker ::
  "worker_world \<Rightarrow> handle option \<Rightarrow> worker_state \<Rightarrow> worker_flow \<times> worker_state"
where
  "finish_stopped_reservation_worker w h s =
     (case worker_send w BackendStoppedChild s of (_, s) \<Rightarrow> (Finished (Inr h), s))"

text \<open>\<open>cancel_reservation_with_timeout(..).await?\<close> and \<open>Ok(None)\<close>.\<close>

definition give_up :: "worker_world \<Rightarrow> handle \<Rightarrow> worker_state \<Rightarrow> worker_flow \<times> worker_state" where
  "give_up w h s =
     (case worker_cancel w h s of (Inl e, s) \<Rightarrow> (Finished (Inl e), s) | (Inr _, s) \<Rightarrow> (Finished (Inr None), s))"

definition finish_reservation_worker ::
  "worker_world \<Rightarrow> local_relay_fence \<Rightarrow> handle option \<Rightarrow> reservation_failure_reason \<Rightarrow> worker_state \<Rightarrow> worker_flow \<times> worker_state"
where
  "finish_reservation_worker w fence h reason s =
     (case worker_send w (FailedChild fence h reason) s of (taken, s) \<Rightarrow>
        if taken then (Finished (Inr h), s)
        else case h of None \<Rightarrow> (Finished (Inr None), s) | Some x \<Rightarrow> give_up w x s)"

text \<open>The end of an iteration that failed: give up, or sleep and go on.\<close>

definition worker_pause ::
  "coordinator_config \<Rightarrow> worker_world \<Rightarrow> local_relay_fence \<Rightarrow> nat \<Rightarrow> reservation_failure_reason \<Rightarrow> worker_state \<Rightarrow>
    worker_flow \<times> worker_state"
where
  "worker_pause config w fence retry_ceiling reason s =
     (let delay = retry_jitter (cc_retry_min config) retry_ceiling (ww_random w (wk_tick s));
          s = read_clock w (next_tick s)
      in if wk_elapsed s + delay \<ge> cc_reservation_retry_budget config
         then finish_reservation_worker w fence None reason s
         else if ww_interrupted w (wk_tick s) then (Finished (Inr None), next_tick s)
         else (Again (min (retry_ceiling * 2) (cc_retry_max config)),
           next_tick (s\<lparr>wk_elapsed := wk_elapsed s + delay\<rparr>)))"

definition worker_failed ::
  "coordinator_config \<Rightarrow> worker_world \<Rightarrow> local_relay_fence \<Rightarrow> nat \<Rightarrow> handle reservation_attempt_failure \<Rightarrow> worker_state \<Rightarrow>
    worker_flow \<times> worker_state"
where
  "worker_failed config w fence retry_ceiling failure s =
     (case failure of
        BackendStopped h \<Rightarrow> finish_stopped_reservation_worker w h s
      | ProviderFailure f \<Rightarrow>
          let s = (if pf_retryable f then read_clock w s else s)
          in if \<not> pf_retryable f \<or> wk_elapsed s \<ge> cc_reservation_retry_budget config
             then finish_reservation_worker w fence (pf_handle f) (pf_reason f) s
             else case pf_handle f of
               None \<Rightarrow> worker_pause config w fence retry_ceiling (pf_reason f) s
             | Some h \<Rightarrow>
                 (case worker_cancel w h s of
                    (Inl _, s) \<Rightarrow> finish_reservation_worker w fence (Some h) (pf_reason f) s
                  | (Inr _, s) \<Rightarrow>
                      (case worker_send w (RetryingChild fence h) s of (taken, s) \<Rightarrow>
                         if \<not> taken then (Finished (Inr None), s)
                         else worker_pause config w fence retry_ceiling (pf_reason f) s)))"

definition worker_await ::
  "coordinator_config \<Rightarrow> worker_world \<Rightarrow> local_relay_fence \<Rightarrow> nat \<Rightarrow> handle \<Rightarrow> worker_state \<Rightarrow> worker_flow \<times> worker_state"
where
  "worker_await config w fence retry_ceiling h s =
     (case worker_send w (StartedChild fence h) s of (taken, s) \<Rightarrow>
        if \<not> taken then give_up w h s else
        let s = read_clock w s
        in if cc_reservation_retry_budget config \<le> wk_elapsed s
           then finish_reservation_worker w fence (Some h) ReservationDenied s
           else
             let race = ww_wait w (wk_tick s) h; s = logged (AwaitedHandle h race) (next_tick s)
             in case race of
                  WaitCanceled \<Rightarrow> (Finished (Inr (Some h)), s)
                | WaitTimedOut \<Rightarrow> finish_reservation_worker w fence (Some h) ReservationDenied s
                | WaitDone (Inl failure) \<Rightarrow> worker_failed config w fence retry_ceiling failure s
                | WaitDone (Inr snap) \<Rightarrow>
                    (case worker_send w (ConfirmedChild fence snap) s of (taken, s) \<Rightarrow>
                       if taken then (Finished (Inr (Some (snap_handle snap))), s)
                       else give_up w (snap_handle snap) s))"

text \<open>One iteration of the loop.\<close>

definition worker_iteration ::
  "coordinator_config \<Rightarrow> worker_world \<Rightarrow> local_relay_fence \<Rightarrow> nat \<Rightarrow> worker_state \<Rightarrow> worker_flow \<times> worker_state"
where
  "worker_iteration config w fence retry_ceiling s =
     (if ww_canceled w (wk_tick s) then (Finished (Inr None), next_tick s) else
      let s = read_clock w (next_tick s)
      in if cc_reservation_retry_budget config \<le> wk_elapsed s
         then finish_reservation_worker w fence None DialFailure s
         else
           let race = ww_start w (wk_tick s); s = logged (StartedAttempt race) (next_tick s)
           in case race of
                StartCanceled attempt \<Rightarrow>
                  (case abort_reservation_start attempt of
                     Inl e \<Rightarrow> (Finished (Inl e), s)
                   | Inr (AbortedHandle h) \<Rightarrow> (Finished (Inr h), s)
                   | Inr (AbortedStopped h) \<Rightarrow> finish_stopped_reservation_worker w h s)
              | StartTimedOut attempt \<Rightarrow>
                  (case abort_reservation_start attempt of
                     Inl e \<Rightarrow> (Finished (Inl e), s)
                   | Inr (AbortedHandle h) \<Rightarrow> finish_reservation_worker w fence h DialFailure s
                   | Inr (AbortedStopped h) \<Rightarrow> finish_stopped_reservation_worker w h s)
              | StartJoined (Inr (Inr h)) \<Rightarrow> worker_await config w fence retry_ceiling h s
              | StartJoined (Inr (Inl failure)) \<Rightarrow> worker_failed config w fence retry_ceiling failure s
              | StartJoined (Inl _) \<Rightarrow>
                  worker_failed config w fence retry_ceiling
                    (ProviderFailure \<lparr>pf_handle = None, pf_reason = DialFailure, pf_retryable = False\<rparr>) s)"

fun reservation_worker ::
  "coordinator_config \<Rightarrow> worker_world \<Rightarrow> local_relay_fence \<Rightarrow> nat \<Rightarrow> nat \<Rightarrow> worker_state \<Rightarrow> (worker_result \<times> worker_state) option"
where
  "reservation_worker config w fence 0 retry_ceiling s = None"
| "reservation_worker config w fence (Suc fuel) retry_ceiling s =
     (case worker_iteration config w fence retry_ceiling s of
        (Finished r, s) \<Rightarrow> Some (r, s)
      | (Again retry_ceiling, s) \<Rightarrow> reservation_worker config w fence fuel retry_ceiling s)"

definition spawn_reservation_worker ::
  "coordinator_config \<Rightarrow> worker_world \<Rightarrow> local_relay_fence \<Rightarrow> nat \<Rightarrow> (worker_result \<times> worker_state) option"
where
  "spawn_reservation_worker config w fence fuel =
     reservation_worker config w fence fuel (cc_retry_min config) \<lparr>wk_tick = 0, wk_elapsed = 0, wk_log = []\<rparr>"

text \<open>
  The coordinator aborts the task of a worker when the cleanup of its slot takes too long, and when the
  actor is dropped. The task is then dropped at the point where it waits: in the race of a start or of a
  wait, in a send that the full channel has not taken, in a cancellation, or in the sleep before the
  next attempt. Each but the sleep is logged when it ends, so an aborted worker has done the first
  \<open>n\<close> actions of a run, for some \<open>n\<close>, and returns nothing.
\<close>

definition aborted_reservation_worker ::
  "coordinator_config \<Rightarrow> worker_world \<Rightarrow> local_relay_fence \<Rightarrow> nat \<Rightarrow> nat \<Rightarrow> worker_action list option"
where
  "aborted_reservation_worker config w fence fuel n =
     map_option (\<lambda>(_, s). take n (wk_log s)) (spawn_reservation_worker config w fence fuel)"

section \<open>What becomes of a reservation\<close>

definition failure_handle :: "handle reservation_attempt_failure \<Rightarrow> handle option" where
  "failure_handle f = (case f of ProviderFailure p \<Rightarrow> pf_handle p | BackendStopped h \<Rightarrow> h)"

definition attempt_handle :: "attempt \<Rightarrow> handle option" where
  "attempt_handle a = (case a of Inr (Inr h) \<Rightarrow> Some h | Inr (Inl f) \<Rightarrow> failure_handle f | Inl _ \<Rightarrow> None)"

text \<open>The handles that the worker learns of.\<close>

definition obtained :: "worker_action list \<Rightarrow> handle set" where
  "obtained log = {h. \<exists>a \<in> set log. case a of
       StartedAttempt (StartCanceled t) \<Rightarrow> attempt_handle t = Some h
     | StartedAttempt (StartTimedOut t) \<Rightarrow> attempt_handle t = Some h
     | StartedAttempt (StartJoined t) \<Rightarrow> attempt_handle t = Some h
     | AwaitedHandle _ (WaitDone (Inl f)) \<Rightarrow> failure_handle f = Some h
     | AwaitedHandle _ (WaitDone (Inr snap)) \<Rightarrow> snap_handle snap = h
     | _ \<Rightarrow> False}"

definition tells_of :: "handle \<Rightarrow> child_event \<Rightarrow> bool" where
  "tells_of h event = (case event of StartedChild _ x \<Rightarrow> x = h | ConfirmedChild _ snap \<Rightarrow> snap_handle snap = h
     | FailedChild _ x _ \<Rightarrow> x = Some h | _ \<Rightarrow> False)"

text \<open>The worker cancels the handle or passes it on to the coordinator.\<close>

definition accounted :: "worker_action list \<Rightarrow> handle \<Rightarrow> bool" where
  "accounted log h \<longleftrightarrow> CanceledHandle h \<in> set log \<or> (\<exists>e. SentEvent e True \<in> set log \<and> tells_of h e)"

definition owned_by :: "worker_flow \<Rightarrow> worker_action list \<Rightarrow> handle \<Rightarrow> bool" where
  "owned_by flow log h \<longleftrightarrow> flow = Finished (Inr (Some h)) \<or> accounted log h"

text \<open>The worker learns of a handle only when it has accounted for all that it had before, those in \<open>H\<close> included.\<close>

definition careful :: "handle set \<Rightarrow> worker_action list \<Rightarrow> bool" where
  "careful H log \<longleftrightarrow> (\<forall>before a after. log = before @ a # after \<longrightarrow> obtained [a] \<noteq> {} \<longrightarrow>
     (\<forall>h \<in> H \<union> obtained before. accounted before h))"

text \<open>A step extends the log carefully, and accounts for the handles in it and for those in \<open>H\<close>.\<close>

definition accounts :: "handle set \<Rightarrow> worker_state \<Rightarrow> worker_flow \<times> worker_state \<Rightarrow> bool" where
  "accounts H s out \<longleftrightarrow> (\<exists>new. wk_log (snd out) = wk_log s @ new \<and> (\<forall>h \<in> H \<union> obtained new. owned_by (fst out) new h) \<and>
     careful H new)"

lemma obtained_append [simp]: "obtained (a @ b) = obtained a \<union> obtained b"
  by (auto simp: obtained_def)

lemma obtained_simps [simp]:
  "obtained [] = {}" "obtained (SentEvent e taken # log) = obtained log" "obtained (CanceledHandle h # log) = obtained log"
  "obtained (StartedAttempt (StartCanceled t) # log) = set_option (attempt_handle t) \<union> obtained log"
  "obtained (StartedAttempt (StartTimedOut t) # log) = set_option (attempt_handle t) \<union> obtained log"
  "obtained (StartedAttempt (StartJoined t) # log) = set_option (attempt_handle t) \<union> obtained log"
  "obtained (AwaitedHandle h WaitCanceled # log) = obtained log" "obtained (AwaitedHandle h WaitTimedOut # log) = obtained log"
  "obtained (AwaitedHandle h (WaitDone (Inl f)) # log) = set_option (failure_handle f) \<union> obtained log"
  "obtained (AwaitedHandle h (WaitDone (Inr snap)) # log) = insert (snap_handle snap) (obtained log)"
  by (auto simp: obtained_def elem_set)

lemma log_frame [simp]:
  "wk_log (next_tick s) = wk_log s" "wk_log (read_clock w s) = wk_log s" "wk_log (logged a s) = wk_log s @ [a]"
  by (simp_all add: next_tick_def read_clock_def logged_def)

lemma accounted_append: "accounted a h \<or> accounted b h \<Longrightarrow> accounted (a @ b) h"
  by (auto simp: accounted_def)

lemma careful_quiet [simp]: "obtained log = {} \<Longrightarrow> careful H log"
  unfolding careful_def
proof (intro allI impI)
  fix before a after
  assume "obtained log = {}" "log = before @ a # after" "obtained [a] \<noteq> {}"
  then show "\<forall>h \<in> H \<union> obtained before. accounted before h"
    using obtained_append[of "before @ [a]" after] by simp
qed

lemma careful_single [simp]: "careful {} [a]"
  by (auto simp: careful_def Cons_eq_append_conv)

lemma careful_append:
  assumes "careful H a" "careful H' b" "\<And>h. h \<in> H \<union> obtained a \<Longrightarrow> h \<in> H' \<or> accounted a h"
  shows "careful H (a @ b)"
  unfolding careful_def
proof (intro allI impI ballI)
  fix before x after h
  assume split: "a @ b = before @ x # after" and x: "obtained [x] \<noteq> {}" and h: "h \<in> H \<union> obtained before"
  show "accounted before h"
  proof (cases "length before < length a")
    case True
    then obtain rest where "a = before @ x # rest"
      using split by (auto simp: append_eq_append_conv2 append_eq_Cons_conv)
    with assms(1) x h show ?thesis by (auto simp: careful_def)
  next
    case False
    then obtain more where "before = a @ more" "b = more @ x # after"
      using split by (auto simp: append_eq_append_conv2)
    with assms(2) assms(3)[of h] x h show ?thesis by (auto simp: careful_def intro!: accounted_append)
  qed
qed

lemma careful_snoc: "careful H a \<Longrightarrow> (\<And>h. h \<in> H \<union> obtained a \<Longrightarrow> accounted a h) \<Longrightarrow> careful H (a @ [x])"
  by (rule careful_append[of _ _ "{}"]) auto

text \<open>A step after actions \<open>mid\<close>, which the worker has already taken.\<close>

lemma accounts_after:
  assumes "accounts H' s' out" "wk_log s' = wk_log s @ mid" "\<And>h. h \<in> H \<union> obtained mid \<Longrightarrow> h \<in> H' \<or> accounted mid h"
    and "careful H mid"
  shows "accounts H s out"
proof -
  obtain new where new: "wk_log (snd out) = wk_log s' @ new" "\<And>h. h \<in> H' \<union> obtained new \<Longrightarrow> owned_by (fst out) new h"
    "careful H' new"
    using assms(1) by (auto simp: accounts_def)
  note careful = careful_append[OF assms(4) new(3) assms(3)]
  have "owned_by (fst out) (mid @ new) h" if "h \<in> H \<union> obtained (mid @ new)" for h
    using that new(2)[of h] assms(3)[of h] by (auto simp: owned_by_def accounted_def)
  with new(1) assms(2) careful show ?thesis
    by (auto simp: accounts_def intro!: exI[of _ "mid @ new"])
qed

lemma give_up_accounts: "accounts {h} s (give_up w h s)"
  by (auto simp: accounts_def give_up_def worker_cancel_def owned_by_def accounted_def split: sum.splits)

lemma finish_accounts: "accounts (set_option h) s (finish_reservation_worker w fence h reason s)"
proof -
  let ?e = "FailedChild fence h reason"
  let ?taken = "ww_send w (wk_tick s)"
  let ?s = "logged (SentEvent ?e ?taken) (next_tick s)"
  have out: "finish_reservation_worker w fence h reason s = (if ?taken then (Finished (Inr h), ?s)
      else case h of None \<Rightarrow> (Finished (Inr None), ?s) | Some x \<Rightarrow> give_up w x ?s)"
    by (simp add: finish_reservation_worker_def worker_send_def Let_def)
  show ?thesis
  proof (cases "?taken \<or> h = None")
    case True
    then show ?thesis
      unfolding out by (auto simp: accounts_def owned_by_def accounted_def tells_of_def split: option.splits)
  next
    case False
    then obtain x where "\<not> ?taken" "h = Some x" by auto
    then show ?thesis
      unfolding out using accounts_after[OF give_up_accounts[of x ?s w], of s "[SentEvent ?e ?taken]" "{x}"] by simp
  qed
qed

lemma stopped_accounts: "accounts (set_option h) s (finish_stopped_reservation_worker w h s)"
  by (auto simp: accounts_def finish_stopped_reservation_worker_def worker_send_def Let_def owned_by_def elem_set)

lemma pause_accounts: "accounts {} s (worker_pause config w fence retry_ceiling reason s)"
proof -
  have "accounts {} s (finish_reservation_worker w fence None reason (read_clock w (next_tick s)))"
    by (rule accounts_after[OF finish_accounts, of _ _ "[]"]) simp_all
  then show ?thesis
    by (auto simp: worker_pause_def Let_def) (auto simp: accounts_def next_tick_def read_clock_def)
qed

lemma failed_accounts: "accounts (set_option (failure_handle f)) s (worker_failed config w fence retry_ceiling f s)"
proof (cases f)
  case (BackendStopped h)
  then show ?thesis using stopped_accounts by (simp add: worker_failed_def failure_handle_def)
next
  case (ProviderFailure p)
  let ?s = "if pf_retryable p then read_clock w s else s"
  have fin: "accounts (set_option (pf_handle p)) s (finish_reservation_worker w fence (pf_handle p) (pf_reason p) ?s)"
    by (rule accounts_after[OF finish_accounts, of _ _ "[]"]) simp_all
  show ?thesis
  proof (cases "pf_handle p")
    case None
    have "accounts {} s (worker_pause config w fence retry_ceiling (pf_reason p) ?s)"
      by (rule accounts_after[OF pause_accounts, of _ _ "[]"]) simp_all
    with None fin ProviderFailure show ?thesis
      by (auto simp: worker_failed_def failure_handle_def Let_def)
  next
    case (Some h)
    let ?c = "logged (CanceledHandle h) (next_tick ?s)"
    let ?taken = "ww_send w (wk_tick ?c)"
    let ?r = "logged (SentEvent (RetryingChild fence h) ?taken) (next_tick ?c)"
    have 1: "accounts {h} s (finish_reservation_worker w fence (Some h) (pf_reason p) ?c)"
      by (rule accounts_after[OF finish_accounts, of _ _ "[CanceledHandle h]"]) (simp_all add: accounted_def)
    have 2: "accounts {h} s (worker_pause config w fence retry_ceiling (pf_reason p) ?r)"
      by (rule accounts_after[OF pause_accounts, of _ _ "[CanceledHandle h, SentEvent (RetryingChild fence h) ?taken]"])
        (simp_all add: accounted_def)
    have 3: "accounts {h} s (Finished (Inr None), ?r)"
      by (auto simp: accounts_def owned_by_def accounted_def)
    show ?thesis
      using fin 1 2 3 Some ProviderFailure
      by (auto simp: worker_failed_def failure_handle_def worker_cancel_def worker_send_def Let_def split: sum.splits)
  qed
qed

lemma awaited_accounts:
  fixes h race w fence
  defines "s3 s2 \<equiv> logged (AwaitedHandle h race) (next_tick s2)"
  assumes told: "accounted mid h" "wk_log s2 = wk_log s @ mid" "obtained mid = {}"
  shows "accounts {h} s (case race of
        WaitCanceled \<Rightarrow> (Finished (Inr (Some h)), s3 s2)
      | WaitTimedOut \<Rightarrow> finish_reservation_worker w fence (Some h) ReservationDenied (s3 s2)
      | WaitDone (Inl failure) \<Rightarrow> worker_failed config w fence retry_ceiling failure (s3 s2)
      | WaitDone (Inr snap) \<Rightarrow>
          (case worker_send w (ConfirmedChild fence snap) (s3 s2) of (taken, s) \<Rightarrow>
             if taken then (Finished (Inr (Some (snap_handle snap))), s) else give_up w (snap_handle snap) s))"
proof -
  have log: "wk_log (s3 s2) = wk_log s @ mid @ [AwaitedHandle h race]"
    using told(2) by (simp add: s3_def)
  have mono: "accounted (mid @ more) h" for more
    using told(1) by (auto simp: accounted_def)
  have careful: "careful {h} (mid @ [AwaitedHandle h race])" "careful {h} (mid @ [AwaitedHandle h race, SentEvent e t])" for e t
  proof -
    show 1: "careful {h} (mid @ [AwaitedHandle h race])"
      using told by (intro careful_snoc) auto
    have "careful {h} ((mid @ [AwaitedHandle h race]) @ [SentEvent e t])"
      by (rule careful_append[OF 1, of "obtained [AwaitedHandle h race]"]) (use told mono in \<open>auto simp del: append_assoc\<close>)
    then show "careful {h} (mid @ [AwaitedHandle h race, SentEvent e t])" by simp
  qed
  show ?thesis
  proof (cases race)
    case WaitCanceled
    then show ?thesis using log mono told(3) careful(1) by (auto simp: accounts_def owned_by_def)
  next
    case WaitTimedOut
    have "accounts {h} s (finish_reservation_worker w fence (Some h) ReservationDenied (s3 s2))"
      by (rule accounts_after[OF finish_accounts log]) (use told(3) careful in \<open>simp_all add: WaitTimedOut\<close>)
    with WaitTimedOut show ?thesis by simp
  next
    case (WaitDone r)
    show ?thesis
    proof (cases r)
      case (Inl failure)
      have "accounts {h} s (worker_failed config w fence retry_ceiling failure (s3 s2))"
        by (rule accounts_after[OF failed_accounts log]) (use told(3) mono careful in \<open>auto simp: WaitDone Inl\<close>)
      with WaitDone Inl show ?thesis by simp
    next
      case (Inr snap)
      let ?t = "ww_send w (wk_tick (s3 s2))"
      let ?a = "SentEvent (ConfirmedChild fence snap) ?t"
      have log': "wk_log (logged ?a (next_tick (s3 s2))) = wk_log s @ mid @ [AwaitedHandle h race, ?a]"
        using log by simp
      have "accounts {h} s (give_up w (snap_handle snap) (logged ?a (next_tick (s3 s2))))"
        by (rule accounts_after[OF give_up_accounts log']) (use told(3) mono careful in \<open>auto simp: WaitDone Inr\<close>)
      moreover have "accounts {h} s (Finished (Inr (Some (snap_handle snap))), logged ?a (next_tick (s3 s2)))"
        using log' told(3) mono careful by (auto simp: accounts_def owned_by_def WaitDone Inr)
      ultimately show ?thesis
        using WaitDone Inr by (cases ?t) (simp_all add: worker_send_def Let_def)
    qed
  qed
qed

lemma await_accounts: "accounts {h} s (worker_await config w fence retry_ceiling h s)"
proof -
  obtain taken s1 where sent: "worker_send w (StartedChild fence h) s = (taken, s1)" by fastforce
  let ?sent = "SentEvent (StartedChild fence h) taken"
  have log: "wk_log s1 = wk_log s @ [?sent]"
    using sent by (auto simp: worker_send_def Let_def)
  have up: "accounts {h} s (give_up w h s1)"
    by (rule accounts_after[OF give_up_accounts log]) simp_all
  have late: "accounts {h} s (finish_reservation_worker w fence (Some h) ReservationDenied (read_clock w s1))"
    by (rule accounts_after[OF finish_accounts, of _ _ "[?sent]"]) (simp_all add: log)
  have told: "accounted [?sent] h" if taken
    using that by (auto simp: accounted_def tells_of_def)
  show ?thesis
  proof (cases taken)
    case True
    note awaited_accounts[OF told[OF True], of "read_clock w s1" s "ww_wait w (wk_tick (read_clock w s1)) h" w fence config retry_ceiling]
    then show ?thesis
      using late True unfolding worker_await_def sent Let_def by (simp add: log)
  next
    case False
    then show ?thesis using up by (simp add: worker_await_def sent)
  qed
qed

lemma iteration_accounts: "accounts {} s (worker_iteration config w fence retry_ceiling s)"
proof -
  let ?s1 = "read_clock w (next_tick s)"
  let ?s2 = "\<lambda>race. logged (StartedAttempt race) (next_tick ?s1)"
  have canceled: "accounts {} s (Finished (Inr None), next_tick s)"
    by (simp add: accounts_def)
  have late: "accounts {} s (finish_reservation_worker w fence None DialFailure ?s1)"
    by (rule accounts_after[OF finish_accounts, of _ _ "[]"]) simp_all
  have after: "accounts {} s out" if "accounts H (?s2 race) out" "obtained [StartedAttempt race] \<subseteq> H" for H out race
    using that(2) by (intro accounts_after[OF that(1), of _ "[StartedAttempt race]"]) auto
  have fin: "accounts {} s (Finished r, ?s2 race)" if "\<And>h. h \<in> obtained [StartedAttempt race] \<Longrightarrow> r = Inr (Some h)" for r race
    using that by (auto simp: accounts_def owned_by_def)
  have stopped: "accounts {} s (finish_stopped_reservation_worker w h (?s2 race))" if "obtained [StartedAttempt race] \<subseteq> set_option h" for h race
    using stopped_accounts that by (rule after)
  have failed: "accounts {} s (worker_failed config w fence retry_ceiling f (?s2 race))"
    if "obtained [StartedAttempt race] \<subseteq> set_option (failure_handle f)" for f race
    using failed_accounts that by (rule after)
  have finish: "accounts {} s (finish_reservation_worker w fence h DialFailure (?s2 race))" if "obtained [StartedAttempt race] \<subseteq> set_option h" for h race
    using finish_accounts that by (rule after)
  have await: "accounts {} s (worker_await config w fence retry_ceiling h (?s2 race))" if "obtained [StartedAttempt race] \<subseteq> {h}" for h race
    using await_accounts that by (rule after)
  show ?thesis
    unfolding worker_iteration_def Let_def
    using canceled late
    by (auto split: start_race.splits sum.splits join_error.splits reservation_attempt_failure.splits
        simp: abort_reservation_start_def attempt_handle_def failure_handle_def
        intro!: fin stopped failed finish await)
qed

lemma worker_accounts:
  assumes "reservation_worker config w fence fuel retry_ceiling s = Some (r, s')" "\<forall>h \<in> obtained (wk_log s). accounted (wk_log s) h"
    and "careful {} (wk_log s)"
  shows "(\<forall>h \<in> obtained (wk_log s'). owned_by (Finished r) (wk_log s') h) \<and> careful {} (wk_log s')"
  using assms
proof (induction fuel arbitrary: retry_ceiling s)
  case (Suc fuel)
  obtain flow t where it: "worker_iteration config w fence retry_ceiling s = (flow, t)" by fastforce
  obtain new where new: "wk_log t = wk_log s @ new" "\<And>h. h \<in> obtained new \<Longrightarrow> owned_by flow new h" "careful {} new"
    using iteration_accounts[of s config w fence retry_ceiling] it by (auto simp: accounts_def)
  have careful: "careful {} (wk_log t)"
    unfolding new(1) by (rule careful_append[OF Suc.prems(3) new(3)]) (use Suc.prems(2) in auto)
  have owned: "owned_by flow (wk_log t) h" if "h \<in> obtained (wk_log t)" for h
    using that new Suc.prems(2) by (auto simp: owned_by_def accounted_def)
  show ?case
  proof (cases flow)
    case (Finished r')
    then show ?thesis using Suc.prems(1) it owned careful by auto
  next
    case (Again c)
    then have "\<forall>h \<in> obtained (wk_log t). accounted (wk_log t) h"
      using owned by (auto simp: owned_by_def)
    then show ?thesis
      using Suc.prems(1) it Again careful by (intro Suc.IH[of c t]) auto
  qed
qed simp

text \<open>One action tells of one handle at most, so a prefix of a careful log leaves one handle open at most.\<close>

lemma obtained_one: "\<exists>x. obtained [a] \<subseteq> set_option x"
proof (cases a)
  case (StartedAttempt race)
  then show ?thesis by (cases race) (auto simp: attempt_handle_def split: sum.splits)
next
  case (AwaitedHandle h race)
  then show ?thesis
  proof (cases race)
    case (WaitDone answer)
    then show ?thesis
    proof (cases answer)
      case (Inr snap)
      with AwaitedHandle WaitDone have "obtained [a] \<subseteq> set_option (Some (snap_handle snap))" by simp
      then show ?thesis by blast
    qed (use AwaitedHandle in auto)
  qed (use AwaitedHandle in auto)
qed simp_all

lemma careful_prefix:
  assumes "careful {} log"
  shows "\<exists>lost. \<forall>h \<in> obtained (take n log). accounted (take n log) h \<or> lost = Some h"
proof -
  have "\<exists>lost. \<forall>h \<in> obtained pre. accounted pre h \<or> lost = Some h" if "log = pre @ rest" for pre rest
    using that
  proof (induction pre arbitrary: rest rule: rev_induct)
    case (snoc a pre)
    from snoc.IH[of "a # rest"] snoc.prems obtain lost where lost: "\<forall>h \<in> obtained pre. accounted pre h \<or> lost = Some h" by auto
    obtain x where x: "obtained [a] \<subseteq> set_option x" using obtained_one by blast
    show ?case
    proof (cases "obtained [a] = {}")
      case True
      with lost show ?thesis by (auto intro!: exI[of _ lost] accounted_append)
    next
      case False
      with assms snoc.prems have "\<forall>h \<in> obtained pre. accounted pre h" by (auto simp: careful_def)
      with x show ?thesis by (intro exI[of _ x]) (auto intro: accounted_append)
    qed
  qed simp
  from this[of "take n log" "drop n log"] show ?thesis by simp
qed

section \<open>The worker ends\<close>

lemma elapsed_frame [simp]:
  "wk_elapsed (next_tick s) = wk_elapsed s" "wk_elapsed (logged a s) = wk_elapsed s"
  "wk_elapsed (read_clock w s) = wk_elapsed s + ww_passed w (wk_tick s)"
  by (simp_all add: next_tick_def read_clock_def logged_def)

lemma finish_never_again:
  "finish_reservation_worker w fence h reason s \<noteq> (Again c, s')" "give_up w x s \<noteq> (Again c, s')"
  "finish_stopped_reservation_worker w h s \<noteq> (Again c, s')"
  by (auto simp: finish_reservation_worker_def give_up_def finish_stopped_reservation_worker_def worker_send_def Let_def
      split: option.splits prod.splits sum.splits)

lemma pause_again:
  assumes "worker_pause config w fence retry_ceiling reason s = (Again c, s')"
  shows "wk_elapsed s + as_millis (cc_retry_min config) * 1000000 \<le> wk_elapsed s' \<and> wk_elapsed s' < cc_reservation_retry_budget config"
proof -
  let ?d = "retry_jitter (cc_retry_min config) retry_ceiling (ww_random w (wk_tick s))"
  let ?t = "read_clock w (next_tick s)"
  have "as_millis (cc_retry_min config) * 1000000 \<le> ?d"
    using retry_jitter_bounds by blast
  moreover have "\<not> cc_reservation_retry_budget config \<le> wk_elapsed ?t + ?d" "wk_elapsed s' = wk_elapsed ?t + ?d"
    using assms finish_never_again(1) by (auto simp: worker_pause_def Let_def split: if_splits)
  ultimately show ?thesis by simp
qed

lemma failed_again:
  assumes "worker_failed config w fence retry_ceiling f s = (Again c, s')"
  shows "wk_elapsed s + as_millis (cc_retry_min config) * 1000000 \<le> wk_elapsed s' \<and> wk_elapsed s' < cc_reservation_retry_budget config"
  using assms
  by (auto simp: worker_failed_def worker_cancel_def worker_send_def Let_def finish_never_again
      split: reservation_attempt_failure.splits if_splits option.splits sum.splits dest!: pause_again)

lemma await_again:
  assumes "worker_await config w fence retry_ceiling h s = (Again c, s')"
  shows "wk_elapsed s + as_millis (cc_retry_min config) * 1000000 \<le> wk_elapsed s' \<and> wk_elapsed s' < cc_reservation_retry_budget config"
  using assms
  by (auto simp: worker_await_def worker_send_def Let_def finish_never_again
      split: if_splits wait_race.splits sum.splits dest!: failed_again)

lemma iteration_again:
  assumes "worker_iteration config w fence retry_ceiling s = (Again c, s')"
  shows "wk_elapsed s + as_millis (cc_retry_min config) * 1000000 \<le> wk_elapsed s' \<and> wk_elapsed s' < cc_reservation_retry_budget config"
  using assms
  by (auto simp: worker_iteration_def Let_def finish_never_again
      split: if_splits start_race.splits sum.splits aborted_reservation_start.splits dest!: failed_again await_again)

lemma worker_Some:
  assumes "0 < fuel" "cc_reservation_retry_budget config \<le> wk_elapsed s + fuel * (as_millis (cc_retry_min config) * 1000000)"
  shows "\<exists>r s'. reservation_worker config w fence fuel retry_ceiling s = Some (r, s')"
  using assms
proof (induction fuel arbitrary: retry_ceiling s)
  case (Suc fuel)
  obtain flow t where it: "worker_iteration config w fence retry_ceiling s = (flow, t)" by fastforce
  show ?case
  proof (cases flow)
    case (Again c)
    note t = iteration_again[OF it[unfolded Again]]
    then have "0 < fuel" "cc_reservation_retry_budget config \<le> wk_elapsed t + fuel * (as_millis (cc_retry_min config) * 1000000)"
      using Suc.prems(2) by (cases fuel; simp)+
    from Suc.IH[OF this] show ?thesis
      using it Again by simp
  qed (use it in simp)
qed simp

text \<open>C6: The worker that reserves a slot ends, and it loses no reservation. If the shortest delay is a
  millisecond or more, it returns within as many attempts as whole shortest delays fit into the retry
  budget, and one more, unless it is aborted; for every answer of the node, and provided that the
  coordinator takes or refuses each event in the end. Every handle that it learned of in any attempt, also
  in one it aborted, is then returned to the coordinator, or the worker asked the node to cancel it, or it
  was passed to the coordinator in an event that the coordinator took. If the coordinator aborts the
  worker, wherever it waits, also in a send that the channel has not taken, at most one of the handles that
  it learned of is neither cancelled nor passed on.\<close>

theorem worker_loses_no_reservation:
  assumes "1000000 \<le> cc_retry_min config"
    and "cc_reservation_retry_budget config div (as_millis (cc_retry_min config) * 1000000) < fuel"
  shows "(\<exists>r s. spawn_reservation_worker config w fence fuel = Some (r, s) \<and>
    (\<forall>h. h \<in> obtained (wk_log s) \<longrightarrow> r = Inr (Some h) \<or> CanceledHandle h \<in> set (wk_log s) \<or>
      (\<exists>event. SentEvent event True \<in> set (wk_log s) \<and> tells_of h event))) \<and>
    (\<forall>n. \<exists>log lost. aborted_reservation_worker config w fence fuel n = Some log \<and>
      (\<forall>h. h \<in> obtained log \<longrightarrow> CanceledHandle h \<in> set log \<or> (\<exists>event. SentEvent event True \<in> set log \<and> tells_of h event) \<or>
        lost = Some h))"
proof -
  let ?s = "\<lparr>wk_tick = 0, wk_elapsed = 0, wk_log = []\<rparr>"
  have "1 \<le> as_millis (cc_retry_min config)"
    using as_millis_mono[OF assms(1)] by (simp add: as_millis_def)
  then have "cc_reservation_retry_budget config < fuel * (as_millis (cc_retry_min config) * 1000000)"
    using assms(2) by (subst div_less_iff_less_mult[symmetric]) simp_all
  then obtain r s' where r: "spawn_reservation_worker config w fence fuel = Some (r, s')"
    using worker_Some[of fuel config ?s w fence "cc_retry_min config"] assms(2)
    by (auto simp: spawn_reservation_worker_def)
  then have run: "\<forall>h \<in> obtained (wk_log s'). owned_by (Finished r) (wk_log s') h" "careful {} (wk_log s')"
    unfolding spawn_reservation_worker_def by (auto dest!: worker_accounts)
  have "\<exists>lost. \<forall>h. h \<in> obtained (take n (wk_log s')) \<longrightarrow> CanceledHandle h \<in> set (take n (wk_log s')) \<or>
      (\<exists>event. SentEvent event True \<in> set (take n (wk_log s')) \<and> tells_of h event) \<or> lost = Some h" for n
    using careful_prefix[OF run(2), of n] by (auto simp: accounted_def)
  with r run(1) show ?thesis
    by (simp add: aborted_reservation_worker_def owned_by_def accounted_def)
qed

text \<open>A worker whose first attempt is aborted when the time is up, with a handle, and that cannot tell the
  coordinator.\<close>

definition lonely_world :: worker_world where
  "lonely_world = \<lparr>ww_canceled = (\<lambda>_. False), ww_passed = (\<lambda>_. 0), ww_start = (\<lambda>_. StartTimedOut (Inr (Inr run_handle))),
     ww_wait = (\<lambda>_ _. WaitTimedOut), ww_send = (\<lambda>_. False), ww_cancel = (\<lambda>_. Some (Inr ())), ww_random = (\<lambda>n. n),
     ww_interrupted = (\<lambda>_. False)\<rparr>"

theorem worker_loses_no_reservation_witness:
  "\<exists>s. spawn_reservation_worker run_config lonely_world run_fence 61 = Some (Inr None, s) \<and>
    run_handle \<in> obtained (wk_log s) \<and> CanceledHandle run_handle \<in> set (wk_log s)"
proof -
  have "1000000 \<le> cc_retry_min run_config"
    "cc_reservation_retry_budget run_config div (as_millis (cc_retry_min run_config) * 1000000) < 61"
    by (simp_all add: run_config_def as_millis_def from_secs_def)
  from worker_loses_no_reservation[OF this, of lonely_world run_fence, THEN conjunct1]
  obtain r s where s: "spawn_reservation_worker run_config lonely_world run_fence 61 = Some (r, s)"
    "\<And>h. h \<in> obtained (wk_log s) \<Longrightarrow> r = Inr (Some h) \<or> CanceledHandle h \<in> set (wk_log s) \<or>
      (\<exists>event. SentEvent event True \<in> set (wk_log s) \<and> tells_of h event)"
    by blast
  moreover have "r = Inr None" "run_handle \<in> obtained (wk_log s)" "SentEvent event True \<notin> set (wk_log s)" for event
    using s(1) reservation_worker.simps(2)[of run_config lonely_world run_fence 60]
    by (auto simp: spawn_reservation_worker_def worker_iteration_def Let_def lonely_world_def run_config_def read_clock_def
        next_tick_def logged_def abort_reservation_start_def finish_reservation_worker_def worker_send_def give_up_def
        from_secs_def worker_cancel_def cancel_reservation_with_timeout_def attempt_handle_def split: if_splits)
  ultimately show ?thesis by auto
qed

end
