(* ===== verification/Relay_Client.thy ===== *)
theory Relay_Client
  imports Relay_Reservation
begin

text \<open>
  The wrapper that stamps the events of the upstream relay client with the generation of a
  reservation (\<open>core/auki-p2p/src/relay_client.rs\<close>). The wrapped behaviour of libp2p is the parameter
  \<open>upstream\<close>: its state is arbitrary, and so is what it asks the swarm to do when it is polled. Only the
  requests that the wrapper looks at have constructors of their own.
\<close>

section \<open>The upstream behaviour\<close>

type_synonym client_handle = relay_reservation_handle

datatype notify_handler = OneHandler connection_id | AnyHandler

record dial_opts =
  do_peer_id :: "peer_id option"
  do_connection_id :: connection_id

datatype ('e, 'i, 'x) to_swarm =
    GenerateEvent 'e
  | NotifyHandler peer_id notify_handler 'i
  | DialPeer dial_opts
  | OtherAction 'x

datatype 'f from_swarm =
    ConnectionClosed connection_id
  | DialFailure "peer_id option" connection_id
  | OtherSwarmEvent 'f

record ('u, 'e, 'i, 'o, 'f, 'x) upstream =
  up_poll :: "'u \<Rightarrow> ('e, 'i, 'x) to_swarm option \<times> 'u"
  up_on_swarm_event :: "'f from_swarm \<Rightarrow> 'u \<Rightarrow> 'u"
  up_on_handler_event :: "peer_id \<Rightarrow> connection_id \<Rightarrow> 'o \<Rightarrow> 'u \<Rightarrow> 'u"

section \<open>The wrapper\<close>

datatype 'e client_event =
    ReservationDispatched client_handle
  | ReservationDispatchFailed client_handle string
  | UpstreamEvent 'e "client_handle option"

record pending_dispatch =
  pd_handle :: client_handle
  pd_connection_id :: connection_id
  pd_canceled :: bool

record ('e, 'i, 'x) queued_action =
  qa_handle :: "client_handle option"
  qa_action :: "('e client_event, 'i, 'x) to_swarm"

record ('u, 'e, 'i, 'x) relay_client =
  rb_inner :: 'u
  rb_pending_dispatches :: "(peer_id, pending_dispatch) hashmap"
  rb_dispatches_by_connection :: "(connection_id, client_handle) hashmap"
  rb_handler_contexts :: "client_handle option list"
  rb_queued_actions :: "('e, 'i, 'x) queued_action list"

definition relay_client_new :: "'u \<Rightarrow> ('u, 'e, 'i, 'x) relay_client" where
  "relay_client_new inner = \<lparr>rb_inner = inner, rb_pending_dispatches = [], rb_dispatches_by_connection = [],
     rb_handler_contexts = [], rb_queued_actions = []\<rparr>"

definition register_dispatch ::
  "client_handle \<Rightarrow> connection_id \<Rightarrow> ('u, 'e, 'i, 'x) relay_client \<Rightarrow> (unit, unit) result \<times> ('u, 'e, 'i, 'x) relay_client"
where
  "register_dispatch h c b =
     (case map_of (rb_pending_dispatches b) (h_relay_peer_id h) of
        None \<Rightarrow> (Inr (), b\<lparr>rb_pending_dispatches := hm_insert (h_relay_peer_id h)
          \<lparr>pd_handle = h, pd_connection_id = c, pd_canceled = False\<rparr> (rb_pending_dispatches b)\<rparr>)
      | Some _ \<Rightarrow> (Inl (), b))"

definition has_pending_dispatch :: "peer_id \<Rightarrow> ('u, 'e, 'i, 'x) relay_client \<Rightarrow> bool" where
  "has_pending_dispatch relay b = hm_contains (rb_pending_dispatches b) relay"

definition fence_dispatch ::
  "client_handle \<Rightarrow> ('u, 'e, 'i, 'x) relay_client \<Rightarrow> bool \<times> ('u, 'e, 'i, 'x) relay_client"
where
  "fence_dispatch h b =
     (list_ex (\<lambda>(_, d). pd_handle d = h) (rb_pending_dispatches b),
      b\<lparr>rb_pending_dispatches :=
          map_entries (\<lambda>_ d. if pd_handle d = h then d\<lparr>pd_canceled := True\<rparr> else d) (rb_pending_dispatches b),
        rb_dispatches_by_connection := filter (\<lambda>(_, d). d \<noteq> h) (rb_dispatches_by_connection b),
        rb_queued_actions := filter (\<lambda>q. qa_handle q \<noteq> Some h) (rb_queued_actions b)\<rparr>)"

text \<open>A request to notify the handler on which a reservation was waiting.\<close>

definition intercept_notify ::
  "peer_id \<Rightarrow> notify_handler \<Rightarrow> 'i \<Rightarrow> ('u, 'e, 'i, 'x) relay_client \<Rightarrow>
    ('e client_event, 'i, 'x) to_swarm \<times> ('u, 'e, 'i, 'x) relay_client"
where
  "intercept_notify peer handler event b =
     (case map_of (rb_pending_dispatches b) peer of
        None \<Rightarrow> (NotifyHandler peer handler event, b)
      | Some d \<Rightarrow>
          let b = b\<lparr>rb_pending_dispatches := hm_remove peer (rb_pending_dispatches b)\<rparr>
          in if pd_canceled d then
               (GenerateEvent (ReservationDispatchFailed (pd_handle d) ''reservation was canceled before handler dispatch''), b)
             else if handler \<noteq> OneHandler (pd_connection_id d) then
               (GenerateEvent (ReservationDispatchFailed (pd_handle d) ''upstream selected a different direct relay connection''), b)
             else
               (GenerateEvent (ReservationDispatched (pd_handle d)),
                b\<lparr>rb_dispatches_by_connection := hm_insert (pd_connection_id d) (pd_handle d) (rb_dispatches_by_connection b),
                  rb_queued_actions := rb_queued_actions b @
                    [\<lparr>qa_handle = Some (pd_handle d), qa_action = NotifyHandler peer (OneHandler (pd_connection_id d)) event\<rparr>]\<rparr>))"

definition intercept_dial ::
  "('u, 'e, 'i, 'o, 'f, 'x) upstream \<Rightarrow> dial_opts \<Rightarrow> ('u, 'e, 'i, 'x) relay_client \<Rightarrow>
    ('e client_event, 'i, 'x) to_swarm \<times> ('u, 'e, 'i, 'x) relay_client"
where
  "intercept_dial U opts b =
     (case Option.bind (do_peer_id opts) (map_of (rb_pending_dispatches b)) of
        None \<Rightarrow> (DialPeer opts, b)
      | Some d \<Rightarrow>
          (GenerateEvent (ReservationDispatchFailed (pd_handle d)
             (if pd_canceled d then ''reservation was canceled before hidden relay dial dispatch''
              else ''selected direct relay connection closed before dispatch'')),
           b\<lparr>rb_pending_dispatches := hm_remove (the (do_peer_id opts)) (rb_pending_dispatches b),
             rb_inner := up_on_swarm_event U (DialFailure (do_peer_id opts) (do_connection_id opts)) (rb_inner b)\<rparr>))"

definition intercept ::
  "('u, 'e, 'i, 'o, 'f, 'x) upstream \<Rightarrow> ('e, 'i, 'x) to_swarm \<Rightarrow> ('u, 'e, 'i, 'x) relay_client \<Rightarrow>
    ('e client_event, 'i, 'x) to_swarm \<times> ('u, 'e, 'i, 'x) relay_client"
where
  "intercept U action b =
     (case action of
        GenerateEvent event \<Rightarrow>
          (case rb_handler_contexts b of
             [] \<Rightarrow> (GenerateEvent (UpstreamEvent event None), b)
           | context # contexts \<Rightarrow>
               (GenerateEvent (UpstreamEvent event context), b\<lparr>rb_handler_contexts := contexts\<rparr>))
      | NotifyHandler peer handler event \<Rightarrow> intercept_notify peer handler event b
      | DialPeer opts \<Rightarrow> intercept_dial U opts b
      | OtherAction x \<Rightarrow> (OtherAction x, b))"

definition client_on_swarm_event ::
  "('u, 'e, 'i, 'o, 'f, 'x) upstream \<Rightarrow> 'f from_swarm \<Rightarrow> ('u, 'e, 'i, 'x) relay_client \<Rightarrow> ('u, 'e, 'i, 'x) relay_client"
where
  "client_on_swarm_event U event b =
     (let b = (case event of
          ConnectionClosed c \<Rightarrow> b\<lparr>rb_dispatches_by_connection := hm_remove c (rb_dispatches_by_connection b)\<rparr>
        | _ \<Rightarrow> b)
      in b\<lparr>rb_inner := up_on_swarm_event U event (rb_inner b)\<rparr>)"

definition on_connection_handler_event ::
  "('u, 'e, 'i, 'o, 'f, 'x) upstream \<Rightarrow> peer_id \<Rightarrow> connection_id \<Rightarrow> 'o \<Rightarrow> ('u, 'e, 'i, 'x) relay_client \<Rightarrow>
    ('u, 'e, 'i, 'x) relay_client"
where
  "on_connection_handler_event U peer c event b =
     b\<lparr>rb_handler_contexts := rb_handler_contexts b @ [map_of (rb_dispatches_by_connection b) c],
       rb_inner := up_on_handler_event U peer c event (rb_inner b)\<rparr>"

definition client_poll ::
  "('u, 'e, 'i, 'o, 'f, 'x) upstream \<Rightarrow> ('u, 'e, 'i, 'x) relay_client \<Rightarrow>
    ('e client_event, 'i, 'x) to_swarm option \<times> ('u, 'e, 'i, 'x) relay_client"
where
  "client_poll U b =
     (case rb_queued_actions b of
        q # qs \<Rightarrow> (Some (qa_action q), b\<lparr>rb_queued_actions := qs\<rparr>)
      | [] \<Rightarrow>
          (case up_poll U (rb_inner b) of
             (None, u) \<Rightarrow> (None, b\<lparr>rb_inner := u\<rparr>)
           | (Some action, u) \<Rightarrow>
               (case intercept U action (b\<lparr>rb_inner := u\<rparr>) of (a, b) \<Rightarrow> (Some a, b))))"

section \<open>Runs\<close>

text \<open>What the node does with the wrapper, and what happens then, in order.\<close>

datatype ('o, 'f) client_op =
    RegisterOp client_handle connection_id
  | FenceOp client_handle
  | SwarmOp "'f from_swarm"
  | HandlerOp peer_id connection_id 'o
  | PollOp

datatype 'e client_note =
    Registered client_handle connection_id
  | Fenced client_handle
  | Closed connection_id
  | Captured connection_id "client_handle option"
  | Dispatched client_handle
  | DispatchFailed client_handle string
  | Delivered "client_handle option"
  | Stamped 'e "client_handle option"

definition action_notes :: "('e client_event, 'i, 'x) to_swarm option \<Rightarrow> 'e client_note list" where
  "action_notes action =
     (case action of
        Some (GenerateEvent (ReservationDispatched h)) \<Rightarrow> [Dispatched h]
      | Some (GenerateEvent (ReservationDispatchFailed h reason)) \<Rightarrow> [DispatchFailed h reason]
      | Some (GenerateEvent (UpstreamEvent e h)) \<Rightarrow> [Stamped e h]
      | _ \<Rightarrow> [])"

fun client_apply ::
  "('u, 'e, 'i, 'o, 'f, 'x) upstream \<Rightarrow> ('o, 'f) client_op \<Rightarrow> ('u, 'e, 'i, 'x) relay_client \<Rightarrow>
    ('u, 'e, 'i, 'x) relay_client \<times> 'e client_note list"
where
  "client_apply U (RegisterOp h c) b =
     (case register_dispatch h c b of (Inr _, b') \<Rightarrow> (b', [Registered h c]) | (Inl _, b') \<Rightarrow> (b', []))"
| "client_apply U (FenceOp h) b = (snd (fence_dispatch h b), [Fenced h])"
| "client_apply U (SwarmOp event) b =
     (client_on_swarm_event U event b, case event of ConnectionClosed c \<Rightarrow> [Closed c] | _ \<Rightarrow> [])"
| "client_apply U (HandlerOp peer c event) b =
     (on_connection_handler_event U peer c event b, [Captured c (map_of (rb_dispatches_by_connection b) c)])"
| "client_apply U PollOp b =
     (case client_poll U b of (action, b') \<Rightarrow>
        (b', case rb_queued_actions b of q # _ \<Rightarrow> [Delivered (qa_handle q)] | [] \<Rightarrow> action_notes action))"

lemma map_of_filter_snd: "hm_ok m \<Longrightarrow> map_of (filter (\<lambda>(_, d). P d) m) k = Some v \<longleftrightarrow> map_of m k = Some v \<and> P v"
  by (induction m) (auto simp: hm_ok_def map_of_eq_None_iff dest!: map_of_SomeD intro: rev_image_eqI)

lemma client_hm_ok_filter: "hm_ok m \<Longrightarrow> hm_ok (filter P m)"
  by (auto simp: hm_ok_def distinct_map inj_on_def)

lemma hm_ok_map_entries: "hm_ok (map_entries f m) = hm_ok m"
  by (simp add: hm_ok_def)

lemmas client_maps = hm.get_ins hm.ok_ins hm_remove_def hm.ok_del delete_conv' hm_ok_map_entries client_hm_ok_filter
  map_of_filter_snd map_entries_get

text \<open>The two reasons that name a cancellation.\<close>

definition cancel_reason :: "string \<Rightarrow> bool" where
  "cancel_reason reason \<longleftrightarrow> reason = ''reservation was canceled before handler dispatch'' \<or>
     reason = ''reservation was canceled before hidden relay dial dispatch''"

text \<open>A poll delivers a queued action, or passes on what the upstream behaviour asks for.\<close>

lemma client_poll_cases [consumes 1, case_names queued idle event dispatched failed]:
  fixes b :: "('u, 'e, 'i, 'x) relay_client"
  assumes "client_apply U PollOp b = (b', notes)"
  obtains (queued) q qs where "rb_queued_actions b = q # qs" "b' = b\<lparr>rb_queued_actions := qs\<rparr>" "notes = [Delivered (qa_handle q)]"
  | (idle) u where "b' = b\<lparr>rb_inner := u\<rparr>" "notes = []"
  | (event) u e where "b' = b\<lparr>rb_inner := u, rb_handler_contexts := tl (rb_handler_contexts b)\<rparr>"
      "notes = [Stamped e (if rb_handler_contexts b = [] then None else hd (rb_handler_contexts b))]"
  | (dispatched) u peer d a where "map_of (rb_pending_dispatches b) peer = Some d" "\<not> pd_canceled d"
      "rb_queued_actions b = []"
      "b' = b\<lparr>rb_inner := u, rb_pending_dispatches := hm_remove peer (rb_pending_dispatches b),
         rb_dispatches_by_connection := hm_insert (pd_connection_id d) (pd_handle d) (rb_dispatches_by_connection b),
         rb_queued_actions := [\<lparr>qa_handle = Some (pd_handle d), qa_action = a\<rparr>]\<rparr>"
      "notes = [Dispatched (pd_handle d)]"
  | (failed) u peer d reason where "map_of (rb_pending_dispatches b) peer = Some d"
      "b' = b\<lparr>rb_inner := u, rb_pending_dispatches := hm_remove peer (rb_pending_dispatches b)\<rparr>"
      "notes = [DispatchFailed (pd_handle d) reason]" "pd_canceled d \<longrightarrow> cancel_reason reason"
proof (cases "rb_queued_actions b")
  case (Cons q qs)
  with assms show ?thesis by (intro queued[of q qs]) (auto simp: client_poll_def)
next
  case Nil
  obtain r u where poll: "up_poll U (rb_inner b) = (r, u)" by fastforce
  show ?thesis
  proof (cases r)
    case None
    with assms Nil poll show ?thesis by (intro idle[of u]) (auto simp: client_poll_def action_notes_def)
  next
    case (Some action)
    note defs = client_poll_def action_notes_def intercept_def
    show ?thesis
    proof (cases action)
      case (GenerateEvent e)
      with assms Nil poll Some show ?thesis
        by (intro event[of u e]) (auto simp: defs split: list.splits)
    next
      case (NotifyHandler peer handler i)
      show ?thesis
      proof (cases "map_of (rb_pending_dispatches b) peer")
        case None
        with assms Nil poll Some NotifyHandler show ?thesis
          by (intro idle[of u]) (auto simp: defs intercept_notify_def)
      next
        case (Some d)
        show ?thesis
        proof (cases "pd_canceled d \<or> handler \<noteq> OneHandler (pd_connection_id d)")
          case True
          with assms Nil poll \<open>r = Some action\<close> NotifyHandler Some show ?thesis
            by (intro failed[where u = u and peer = peer and d = d and reason = "if pd_canceled d
                then ''reservation was canceled before handler dispatch'' else ''upstream selected a different direct relay connection''"])
              (auto simp: defs intercept_notify_def Let_def cancel_reason_def split: if_splits)
        next
          case False
          with assms Nil poll \<open>r = Some action\<close> NotifyHandler Some show ?thesis
            by (intro dispatched[where peer = peer and d = d and u = u and a = "NotifyHandler peer handler i"]) (auto simp: defs intercept_notify_def Let_def)
        qed
      qed
    next
      case (DialPeer opts)
      show ?thesis
      proof (cases "Option.bind (do_peer_id opts) (map_of (rb_pending_dispatches b))")
        case None
        with assms Nil poll Some DialPeer show ?thesis
          by (intro idle[of u]) (auto simp: defs intercept_dial_def)
      next
        case (Some d)
        with assms Nil poll \<open>r = Some action\<close> DialPeer show ?thesis
          by (intro failed[where peer = "the (do_peer_id opts)" and d = d and
              u = "up_on_swarm_event U (DialFailure (do_peer_id opts) (do_connection_id opts)) u" and
              reason = "if pd_canceled d then ''reservation was canceled before hidden relay dial dispatch''
                else ''selected direct relay connection closed before dispatch''"])
            (auto simp: defs intercept_dial_def cancel_reason_def bind_eq_Some_conv)
      qed
    next
      case (OtherAction x)
      with assms Nil poll Some show ?thesis by (intro idle[of u]) (auto simp: defs)
    qed
  qed
qed

section \<open>What a stamp means\<close>

text \<open>A registration, a dispatch and a handler event that nothing has undone, in a history of notes.\<close>

definition registered_live :: "'e client_note list \<Rightarrow> client_handle \<Rightarrow> connection_id \<Rightarrow> bool" where
  "registered_live ns h c \<longleftrightarrow> (\<exists>xs ys. ns = xs @ Registered h c # ys \<and> Fenced h \<notin> set ys)"

definition dispatched_live :: "'e client_note list \<Rightarrow> client_handle \<Rightarrow> connection_id \<Rightarrow> bool" where
  "dispatched_live ns h c \<longleftrightarrow> (\<exists>xs ys zs. ns = xs @ Registered h c # ys @ Dispatched h # zs \<and>
     Fenced h \<notin> set (ys @ zs) \<and> Closed c \<notin> set zs)"

definition captured_live :: "'e client_note list \<Rightarrow> client_handle \<Rightarrow> bool" where
  "captured_live ns h \<longleftrightarrow> (\<exists>xs c ys. ns = xs @ Captured c (Some h) # ys \<and> dispatched_live xs h c)"

lemma registered_live_append: "registered_live ns h c \<Longrightarrow> Fenced h \<notin> set es \<Longrightarrow> registered_live (ns @ es) h c"
  by (force simp: registered_live_def)

lemma dispatched_live_append:
  "dispatched_live ns h c \<Longrightarrow> Fenced h \<notin> set es \<Longrightarrow> Closed c \<notin> set es \<Longrightarrow> dispatched_live (ns @ es) h c"
  by (force simp: dispatched_live_def)

lemma captured_live_append: "captured_live ns h \<Longrightarrow> captured_live (ns @ es) h"
  by (force simp: captured_live_def)

lemma registered_live_new: "registered_live (ns @ [Registered h c]) h c"
  by (force simp: registered_live_def)

lemma dispatched_live_new: "registered_live ns h c \<Longrightarrow> dispatched_live (ns @ [Dispatched h]) h c"
  by (force simp: registered_live_def dispatched_live_def)

lemma captured_live_new: "dispatched_live ns h c \<Longrightarrow> captured_live (ns @ [Captured c (Some h)]) h"
  by (force simp: captured_live_def)

lemmas live_new = registered_live_new dispatched_live_new captured_live_new
lemmas live_append = registered_live_append dispatched_live_append captured_live_append

definition stamps_earned :: "'e client_note list \<Rightarrow> bool" where
  "stamps_earned ns \<longleftrightarrow> (\<forall>pre e h post. ns = pre @ Stamped e (Some h) # post \<longrightarrow> captured_live pre h)"

lemma stamps_earned_append:
  assumes "stamps_earned ns" "length es \<le> 1" "\<And>e h. es = [Stamped e (Some h)] \<Longrightarrow> captured_live ns h"
  shows "stamps_earned (ns @ es)"
proof (cases es)
  case (Cons x xs)
  then have es: "es = [x]" using assms(2) by simp
  show ?thesis
    unfolding stamps_earned_def es
  proof (intro allI impI)
    fix pre e h post
    assume split: "ns @ [x] = pre @ Stamped e (Some h) # post"
    show "captured_live pre h"
    proof (cases post rule: rev_cases)
      case Nil
      with split have "pre = ns" "x = Stamped e (Some h)" by auto
      with assms(3)[of e h] es show ?thesis by simp
    next
      case (snoc ys y)
      with split have "ns = pre @ Stamped e (Some h) # ys" by auto
      with assms(1) show ?thesis by (auto simp: stamps_earned_def)
    qed
  qed
qed (use assms(1) in simp)

definition client_inv :: "('u, 'e, 'i, 'x) relay_client \<times> 'e client_note list \<Rightarrow> bool" where
  "client_inv s \<longleftrightarrow> (case s of (b, ns) \<Rightarrow>
     hm_ok (rb_pending_dispatches b) \<and> hm_ok (rb_dispatches_by_connection b) \<and>
     (\<forall>p d. map_of (rb_pending_dispatches b) p = Some d \<longrightarrow> p = h_relay_peer_id (pd_handle d)) \<and>
     (\<forall>p d. map_of (rb_pending_dispatches b) p = Some d \<longrightarrow> \<not> pd_canceled d \<longrightarrow>
        registered_live ns (pd_handle d) (pd_connection_id d)) \<and>
     (\<forall>c h. map_of (rb_dispatches_by_connection b) c = Some h \<longrightarrow> dispatched_live ns h c) \<and>
     (\<forall>h. Some h \<in> set (rb_handler_contexts b) \<longrightarrow> captured_live ns h) \<and> stamps_earned ns)"

inductive client_step ::
  "('u, 'e, 'i, 'o, 'f, 'x) upstream \<Rightarrow> ('u, 'e, 'i, 'x) relay_client \<times> 'e client_note list \<Rightarrow>
    ('u, 'e, 'i, 'x) relay_client \<times> 'e client_note list \<Rightarrow> bool"
  for U
where
  "client_apply U op b = (b', es) \<Longrightarrow> client_step U (b, ns) (b', ns @ es)"

inductive_cases client_stepE: "client_step U s t"

lemma canceled_fix [simp]: "d\<lparr>pd_canceled := True\<rparr> = d \<longleftrightarrow> pd_canceled d"
  by (cases d) auto

lemma client_apply_inv:
  assumes inv: "client_inv (b, ns)" and app: "client_apply U op b = (b', es)"
  shows "client_inv (b', ns @ es)"
proof (cases op)
  case (RegisterOp h c)
  with assms show ?thesis
    by (auto simp: client_inv_def register_dispatch_def client_maps live_append live_new
        intro!: stamps_earned_append split: option.splits if_splits)
next
  case (FenceOp h)
  with assms show ?thesis
    by (auto simp: client_inv_def fence_dispatch_def client_maps live_append
        intro!: stamps_earned_append split: if_splits)
next
  case (SwarmOp event)
  with assms show ?thesis
    by (cases event) (auto simp: client_inv_def client_on_swarm_event_def client_maps live_append
        intro!: stamps_earned_append split: if_splits)
next
  case (HandlerOp peer c event)
  have "captured_live (ns @ [Captured c (Some h)]) h" if "Some h = map_of (rb_dispatches_by_connection b) c" for h
    using inv that[symmetric] by (auto simp: client_inv_def intro: live_new)
  with assms HandlerOp show ?thesis
    by (auto simp: client_inv_def on_connection_handler_event_def live_append intro!: stamps_earned_append)
next
  case PollOp
  from app[unfolded PollOp] show ?thesis
  proof (cases rule: client_poll_cases)
    case (event u e)
    have ctx: "captured_live ns h" if "rb_handler_contexts b \<noteq> []" "hd (rb_handler_contexts b) = Some h" for h
      using inv that hd_in_set[of "rb_handler_contexts b"] by (auto simp: client_inv_def simp del: hd_in_set)
    have tl: "Some h \<in> set (tl (rb_handler_contexts b)) \<Longrightarrow> Some h \<in> set (rb_handler_contexts b)" for h
      by (cases "rb_handler_contexts b") auto
    from inv event ctx tl show ?thesis
      by (auto simp: client_inv_def live_append intro!: stamps_earned_append split: if_splits)
  qed (use inv in \<open>auto simp: client_inv_def client_maps live_append live_new intro!: stamps_earned_append split: if_splits\<close>)
qed

interpretation client_sys: invariant_system "client_step U" client_inv
  by unfold_locales (auto elim!: client_stepE intro: client_apply_inv)

text \<open>The stamp on an event of the upstream relay client tells which reservation it belongs to. In any run
  of the wrapper, with any upstream behaviour, an event that carries the handle of a generation was
  preceded by an event of the handler of one connection; before that, this handle was registered for this
  connection and dispatched on it, in this order, and was not fenced in between, and the connection was
  not closed after the dispatch.\<close>

theorem stamp_needs_dispatch:
  assumes "(client_step U)\<^sup>*\<^sup>* (relay_client_new u, []) (b, pre @ Stamped e (Some h) # post)"
  shows "\<exists>xs c ys zs vs. pre = xs @ Registered h c # ys @ Dispatched h # zs @ Captured c (Some h) # vs \<and>
    Fenced h \<notin> set (ys @ zs) \<and> Closed c \<notin> set zs"
proof -
  have "client_inv (b, pre @ Stamped e (Some h) # post)"
    using assms by (rule client_sys.run_inv) (auto simp: client_inv_def relay_client_new_def hm_ok_def stamps_earned_def)
  then have "captured_live pre h"
    by (auto simp: client_inv_def stamps_earned_def)
  then obtain xs c ys zs vs where "pre = (xs @ Registered h c # ys @ Dispatched h # zs) @ Captured c (Some h) # vs"
    "Fenced h \<notin> set (ys @ zs)" "Closed c \<notin> set zs"
    by (auto simp: captured_live_def dispatched_live_def)
  then show ?thesis
    by (intro exI[of _ xs] exI[of _ c] exI[of _ ys] exI[of _ zs] exI[of _ vs]) auto
qed

section \<open>A fenced generation\<close>

definition mute :: "client_handle \<Rightarrow> ('u, 'e, 'i, 'x) relay_client \<Rightarrow> bool" where
  "mute h b \<longleftrightarrow> hm_ok (rb_pending_dispatches b) \<and> hm_ok (rb_dispatches_by_connection b) \<and>
     (\<forall>p d. map_of (rb_pending_dispatches b) p = Some d \<longrightarrow> pd_handle d = h \<longrightarrow> pd_canceled d \<and> p = h_relay_peer_id h) \<and>
     (\<forall>c. map_of (rb_dispatches_by_connection b) c \<noteq> Some h) \<and>
     (\<forall>q \<in> set (rb_queued_actions b). qa_handle q \<noteq> Some h)"

definition stamped_with :: "client_handle \<Rightarrow> 'e client_note \<Rightarrow> bool" where
  "stamped_with h n \<longleftrightarrow> (\<exists>e. n = Stamped e (Some h))"

definition failed_with :: "client_handle \<Rightarrow> 'e client_note \<Rightarrow> bool" where
  "failed_with h n \<longleftrightarrow> (\<exists>reason. n = DispatchFailed h reason)"

text \<open>Whether a dispatch of the handle is pending; a relay has at most one pending dispatch.\<close>

definition pending_of :: "client_handle \<Rightarrow> ('u, 'e, 'i, 'x) relay_client \<Rightarrow> bool" where
  "pending_of h b \<longleftrightarrow> map_option pd_handle (map_of (rb_pending_dispatches b) (h_relay_peer_id h)) = Some h"

definition silent_notes :: "client_handle \<Rightarrow> 'e client_note list \<Rightarrow> bool" where
  "silent_notes h es \<longleftrightarrow> Dispatched h \<notin> set es \<and> Delivered (Some h) \<notin> set es \<and> (\<forall>c. Captured c (Some h) \<notin> set es) \<and>
     (\<forall>reason. DispatchFailed h reason \<in> set es \<longrightarrow> cancel_reason reason)"

lemma fence_mutes:
  assumes "hm_ok (rb_pending_dispatches b)" "hm_ok (rb_dispatches_by_connection b)"
    and "\<And>p d. map_of (rb_pending_dispatches b) p = Some d \<Longrightarrow> p = h_relay_peer_id (pd_handle d)"
  shows "mute h (snd (fence_dispatch h b))"
proof -
  have "pd_canceled d \<and> p = h_relay_peer_id h" if "map_of (map_entries (\<lambda>_ d. if pd_handle d = h then d\<lparr>pd_canceled := True\<rparr> else d)
      (rb_pending_dispatches b)) p = Some d" "pd_handle d = h" for p d
  proof -
    from that(1) obtain x where "d = (if pd_handle x = h then x\<lparr>pd_canceled := True\<rparr> else x)" "map_of (rb_pending_dispatches b) p = Some x"
      unfolding map_entries_get by (auto simp only: option.map_sel map_option_eq_Some)
    with that(2) assms(3)[of p x] show ?thesis by (cases "pd_handle x = h") simp_all
  qed
  moreover have "map_of (filter (\<lambda>(_, d). d \<noteq> h) (rb_dispatches_by_connection b)) c \<noteq> Some h" for c
    using assms(2) by (simp add: map_of_filter_snd)
  ultimately show ?thesis
    using assms by (simp add: mute_def fence_dispatch_def hm_ok_map_entries client_hm_ok_filter)
qed

lemma mute_step:
  assumes mute: "mute h b" and app: "client_apply U op b = (b', es)" and op: "\<forall>c. op \<noteq> RegisterOp h c"
  shows "mute h b' \<and> silent_notes h es \<and>
    length (filter (stamped_with h) es) + count_list (rb_handler_contexts b') (Some h) = count_list (rb_handler_contexts b) (Some h)"
proof (cases op)
  case (RegisterOp h' c)
  with assms show ?thesis
    by (auto simp: mute_def silent_notes_def stamped_with_def register_dispatch_def client_maps split: option.splits if_splits)
next
  case (FenceOp h')
  with assms show ?thesis
    by (auto simp: mute_def silent_notes_def stamped_with_def fence_dispatch_def client_maps split: if_splits)
next
  case (SwarmOp event)
  with assms show ?thesis
    by (cases event) (auto simp: mute_def silent_notes_def stamped_with_def client_on_swarm_event_def client_maps split: if_splits)
next
  case (HandlerOp peer c event)
  with assms show ?thesis
    by (auto simp: mute_def silent_notes_def stamped_with_def on_connection_handler_event_def)
next
  case PollOp
  from app[unfolded PollOp] show ?thesis
  proof (cases rule: client_poll_cases)
    case (event u e)
    with mute show ?thesis
      by (cases "rb_handler_contexts b") (auto simp: mute_def silent_notes_def stamped_with_def)
  qed (use mute in \<open>auto simp: mute_def silent_notes_def stamped_with_def client_maps split: if_splits\<close>)
qed

lemma pending_of_fence: "pending_of h (snd (fence_dispatch h' b)) = pending_of h b"
  by (cases "map_of (rb_pending_dispatches b) (h_relay_peer_id h)")
    (simp_all add: pending_of_def fence_dispatch_def map_entries_get)

lemma pending_of_remove:
  assumes "mute h b" "map_of (rb_pending_dispatches b) peer = Some d"
    and "rb_pending_dispatches b' = hm_remove peer (rb_pending_dispatches b)"
  shows "pending_of h b' \<longleftrightarrow> pending_of h b \<and> pd_handle d \<noteq> h" "pd_handle d = h \<Longrightarrow> pending_of h b"
  using assms by (auto simp: pending_of_def mute_def hm_remove_def delete_conv')

lemma failed_step:
  assumes mute: "mute h b" and app: "client_apply U op b = (b', es)" and op: "\<forall>c. op \<noteq> RegisterOp h c"
  shows "length (filter (failed_with h) es) + of_bool (pending_of h b') = of_bool (pending_of h b)"
proof (cases op)
  case (RegisterOp h' c)
  then have "h' \<noteq> h" using op by auto
  with app RegisterOp show ?thesis
    by (cases "map_of (rb_pending_dispatches b) (h_relay_peer_id h')"; cases "h_relay_peer_id h = h_relay_peer_id h'")
      (auto simp: failed_with_def pending_of_def register_dispatch_def hm.get_ins)
next
  case (FenceOp h')
  with app pending_of_fence[of h h' b] show ?thesis by (auto simp: failed_with_def)
next
  case (SwarmOp event)
  with app show ?thesis
    by (cases event) (auto simp: failed_with_def pending_of_def client_on_swarm_event_def)
next
  case (HandlerOp peer c event)
  with app show ?thesis by (auto simp: failed_with_def pending_of_def on_connection_handler_event_def)
next
  case PollOp
  from app[unfolded PollOp] show ?thesis
  proof (cases rule: client_poll_cases)
    case (dispatched u peer d a)
    with pending_of_remove[OF mute dispatched(1), of b'] mute show ?thesis by (auto simp: failed_with_def mute_def)
  next
    case (failed u peer d reason)
    with pending_of_remove[OF mute failed(1), of b'] show ?thesis by (auto simp: failed_with_def)
  qed (auto simp: failed_with_def pending_of_def)
qed

lemma mute_run:
  assumes "mute h b" "run_ops (client_apply U) ops b = (b', es)" "\<And>c. RegisterOp h c \<notin> set ops"
  shows "silent_notes h es \<and>
    length (filter (stamped_with h) es) + count_list (rb_handler_contexts b') (Some h) = count_list (rb_handler_contexts b) (Some h) \<and>
    length (filter (failed_with h) es) + of_bool (pending_of h b') = of_bool (pending_of h b)"
  using assms
proof (induction ops arbitrary: b es)
  case (Cons op ops)
  obtain b1 es1 where 1: "client_apply U op b = (b1, es1)" by fastforce
  obtain es2 where 2: "run_ops (client_apply U) ops b1 = (b', es2)" "es = es1 @ es2"
    using Cons.prems(2) 1 by (auto split: prod.splits)
  have op: "\<forall>c. op \<noteq> RegisterOp h c" and ops: "\<And>c. RegisterOp h c \<notin> set ops"
    using Cons.prems(3) by auto
  note step = mute_step[OF Cons.prems(1) 1 op] failed_step[OF Cons.prems(1) 1 op]
  with Cons.IH[OF _ 2(1) ops] 2(2) show ?case
    by (auto simp: silent_notes_def)
qed (simp add: silent_notes_def)

text \<open>C33: A fenced generation stays silent. Once a handle is fenced, in any reachable state and until it is
  registered again, no dispatch of it is announced, no request of it is delivered to a connection, and no
  event of a handler is attributed to it, whatever the node and the upstream behaviour do. Two kinds of
  events can still carry its handle: events of the upstream client, only for handler events that were
  already waiting, at most one for each; and, only if a dispatch of it was pending when it was fenced, a
  single report that the dispatch failed, with a cancellation as its reason.\<close>

theorem fenced_generation_silent:
  assumes "(client_step U)\<^sup>*\<^sup>* (relay_client_new u, []) (b, ns)"
    and "run_ops (client_apply U) ops (snd (fence_dispatch h b)) = (b', es)" "\<forall>c. RegisterOp h c \<notin> set ops"
  shows "Dispatched h \<notin> set es \<and> Delivered (Some h) \<notin> set es \<and> (\<forall>c. Captured c (Some h) \<notin> set es) \<and>
    length (filter (\<lambda>n. \<exists>e. n = Stamped e (Some h)) es) \<le> count_list (rb_handler_contexts b) (Some h) \<and>
    length (filter (\<lambda>n. \<exists>reason. n = DispatchFailed h reason) es) \<le> of_bool (fst (fence_dispatch h b)) \<and>
    (\<forall>reason. DispatchFailed h reason \<in> set es \<longrightarrow> cancel_reason reason)"
proof -
  have inv: "client_inv (b, ns)"
    using assms(1) by (rule client_sys.run_inv) (auto simp: client_inv_def relay_client_new_def hm_ok_def stamps_earned_def)
  then have "mute h (snd (fence_dispatch h b))"
    by (intro fence_mutes) (simp_all add: client_inv_def)
  from mute_run[OF this assms(2)] assms(3)
  have run: "silent_notes h es" "length (filter (stamped_with h) es) \<le> count_list (rb_handler_contexts b) (Some h)"
    "length (filter (failed_with h) es) \<le> of_bool (pending_of h (snd (fence_dispatch h b)))"
    by (auto simp: fence_dispatch_def)
  have "pending_of h (snd (fence_dispatch h b)) \<longrightarrow> fst (fence_dispatch h b)"
    by (auto simp: pending_of_def fence_dispatch_def map_entries_get list_ex_iff map_option_case
        dest!: map_of_SomeD split: option.splits if_splits)
  then have "length (filter (failed_with h) es) \<le> of_bool (fst (fence_dispatch h b))"
    using run(3) by (auto simp: of_bool_def split: if_splits)
  with run(1,2) show ?thesis
    by (simp add: silent_notes_def stamped_with_def[abs_def] failed_with_def[abs_def])
qed

section \<open>A concrete run\<close>

text \<open>An upstream behaviour that asks for a fixed list of actions.\<close>

definition scripted :: "((nat, nat, unit) to_swarm list, nat, nat, nat, unit, unit) upstream" where
  "scripted = \<lparr>up_poll = (\<lambda>u. case u of [] \<Rightarrow> (None, []) | a # u \<Rightarrow> (Some a, u)),
     up_on_swarm_event = (\<lambda>_ u. u), up_on_handler_event = (\<lambda>_ _ _ u. u)\<rparr>"

definition client_sample_handle :: "u64 \<Rightarrow> client_handle" where
  "client_sample_handle g = \<lparr>h_node_instance_id = 1, h_relay_peer_id = PeerId ''R'', h_generation = g, h_listener_id = 7\<rparr>"

definition script :: "(nat, nat, unit) to_swarm list" where
  "script = [NotifyHandler (PeerId ''R'') (OneHandler 5) 0, GenerateEvent 9, GenerateEvent 10]"

text \<open>A reservation is dispatched; two handler events wait, and one of them is reported.\<close>

definition script_ops :: "(nat, unit) client_op list" where
  "script_ops = [RegisterOp (client_sample_handle 1) 5, PollOp, PollOp, HandlerOp (PeerId ''R'') 5 0,
     HandlerOp (PeerId ''R'') 5 1, PollOp]"

lemma run_ops_steps: "run_ops (client_apply U) ops b = (b', es) \<Longrightarrow> (client_step U)\<^sup>*\<^sup>* (b, ns) (b', ns @ es)"
proof (induction ops arbitrary: b es ns)
  case (Cons op ops)
  obtain b1 es1 where 1: "client_apply U op b = (b1, es1)" by fastforce
  obtain es2 where 2: "run_ops (client_apply U) ops b1 = (b', es2)" "es = es1 @ es2"
    using Cons.prems 1 by (auto split: prod.splits)
  have "client_step U (b, ns) (b1, ns @ es1)" using 1 by (rule client_step.intros)
  moreover have "(client_step U)\<^sup>*\<^sup>* (b1, ns @ es1) (b', (ns @ es1) @ es2)" using 2(1) by (rule Cons.IH)
  ultimately show ?case using 2(2) by (simp add: converse_rtranclp_into_rtranclp)
qed simp

definition script_state :: "((nat, nat, unit) to_swarm list, nat, nat, unit) relay_client" where
  "script_state = \<lparr>rb_inner = [GenerateEvent 10], rb_pending_dispatches = [],
     rb_dispatches_by_connection = [(5, client_sample_handle 1)],
     rb_handler_contexts = [Some (client_sample_handle 1)], rb_queued_actions = []\<rparr>"

definition script_notes :: "nat client_note list" where
  "script_notes = [Registered (client_sample_handle 1) 5, Dispatched (client_sample_handle 1),
     Delivered (Some (client_sample_handle 1)), Captured 5 (Some (client_sample_handle 1)),
     Captured 5 (Some (client_sample_handle 1))]"

lemmas client_eval = register_dispatch_def fence_dispatch_def client_on_swarm_event_def on_connection_handler_event_def
  client_poll_def intercept_def intercept_notify_def action_notes_def scripted_def hm_insert_def hm_remove_def Let_def

lemma script_run:
  "(client_step scripted)\<^sup>*\<^sup>* (relay_client_new script, [])
     (script_state, script_notes @ [Stamped 9 (Some (client_sample_handle 1))])"
proof -
  have "run_ops (client_apply scripted) script_ops (relay_client_new script) =
      (script_state, script_notes @ [Stamped 9 (Some (client_sample_handle 1))])"
    by (simp add: script_ops_def script_def script_notes_def script_state_def relay_client_new_def client_eval client_sample_handle_def)
  from run_ops_steps[OF this, of "[]"] show ?thesis by simp
qed

theorem stamp_needs_dispatch_witness:
  "\<exists>xs c ys zs vs. script_notes = xs @ Registered (client_sample_handle 1) c # ys @ Dispatched (client_sample_handle 1) # zs @
      Captured c (Some (client_sample_handle 1)) # vs \<and>
    Fenced (client_sample_handle 1) \<notin> set (ys @ zs) \<and> Closed c \<notin> set zs"
  using stamp_needs_dispatch[of scripted script script_state script_notes 9 "client_sample_handle 1" "[]"] script_run by simp

text \<open>The generation is fenced; the second event is still reported with its handle, and an event of the
  connection after the fence is not attributed to it.\<close>

theorem fenced_generation_silent_witness:
  "let es = snd (run_ops (client_apply scripted) [PollOp, HandlerOp (PeerId ''R'') 5 2]
        (snd (fence_dispatch (client_sample_handle 1) script_state)))
   in es = [Stamped 10 (Some (client_sample_handle 1)), Captured 5 None] \<and>
      length (filter (\<lambda>n. \<exists>e. n = Stamped e (Some (client_sample_handle 1))) es) \<le> 1"
proof -
  let ?es = "[Stamped 10 (Some (client_sample_handle 1)), Captured 5 None] :: nat client_note list"
  have run: "run_ops (client_apply scripted) [PollOp, HandlerOp (PeerId ''R'') 5 2]
      (snd (fence_dispatch (client_sample_handle 1) script_state)) =
      (script_state\<lparr>rb_inner := [], rb_dispatches_by_connection := [], rb_handler_contexts := [None]\<rparr>, ?es)"
    by (simp add: script_state_def client_eval map_entries_def)
  from fenced_generation_silent[OF script_run run] show ?thesis
    unfolding run Let_def by (simp add: script_state_def)
qed

end
