(* ===== verification/Discovery.thy ===== *)
theory Discovery
  imports Relay_Booking Application_Protocol Route_Catalog
begin

text \<open>
  The client of the DDS tracker (\<open>core/auki-sdk/src/discovery.rs\<close>): what an advertisement may say, the
  authenticated requests, the publication and withdrawal of the own advertisement and the paged lookup;
  the exact lookup of an identity; and the tasks that keep an advertisement alive.

  A call asks the outside world: credentials, answers of the tracker, clocks, cancellation, the routes and
  protocols of the moment. Entry \<open>n\<close> of a world answers the \<open>n\<close>-th question of a run. An answer \<open>None\<close>
  means that the deadline of the request passes first. What a call does is logged.
\<close>

section \<open>Errors and identities\<close>

datatype discovery_error =
    DiscoveryDisabled
  | InvalidTrackerConfiguration
  | InvalidProtocolFilter
  | AuthenticationUnavailable
  | RequestTimedOut
  | TrackerTransport
  | RuntimeStoppedDuringStartup
  | TrackerStatus string nat
  | InvalidTrackerResponse string string
  | DiscoveryPanic string

type_synonym 'a discovery_result = "(discovery_error, 'a) result"

datatype auki_peer_identity = PeerIdentity peer_id | RobotIdentity uuid | ComputeIdentity uuid

datatype discovery_source = DdsTracker

record discovery_candidate =
  dc_peer_id :: peer_id
  dc_routes :: "multiaddr list"
  dc_served_protocols :: "string list"
  dc_expires_at :: instant
  dc_source :: discovery_source
  dc_subject_id :: "string option"
  dc_peer_type :: "string option"

record wire_advertisement =
  wa_peer_id :: string
  wa_routes :: "string list"
  wa_protocols :: "string list"
  wa_expires_at :: instant
  wa_subject_id :: "string option"
  wa_peer_type :: "string option"

record discovery_filters =
  df_protocol :: string
  df_peer_type :: string
  df_peer_id :: string
  df_subject_id :: string

record list_response =
  lr_advertisements :: "wire_advertisement list"
  lr_next_cursor :: "string option"
  lr_applied_filters :: "discovery_filters option"

text \<open>
  Third-party code: multiaddrs and Peer IDs, UUIDs and header values as text, JSON, the check of a
  libp2p protocol name, and URLs.
\<close>

record 'u tracker_codec =
  tc_addr :: addr_codec
  tc_uuid_to_string :: "uuid \<Rightarrow> string"
  tc_hv_to_str :: "header_value \<Rightarrow> string option"
  tc_try_from_owned :: "string \<Rightarrow> (string, string) result"
  tc_json_publish :: "string list \<Rightarrow> string list \<Rightarrow> string option"
  tc_json_advertisement :: "string \<Rightarrow> wire_advertisement option"
  tc_json_list :: "string \<Rightarrow> list_response option"
  tc_extend :: "'u \<Rightarrow> string list \<Rightarrow> 'u option"
  tc_has_query :: "'u \<Rightarrow> bool"
  tc_has_fragment :: "'u \<Rightarrow> bool"
  tc_append_pairs :: "(string \<times> string) list \<Rightarrow> 'u \<Rightarrow> 'u"

definition DDS_MAX_REQUEST_BYTES :: nat where "DDS_MAX_REQUEST_BYTES = 64 * 1024"
definition DDS_MAX_RESPONSE_BYTES :: nat where "DDS_MAX_RESPONSE_BYTES = 512 * 1024"
definition MAX_ROUTES :: nat where "MAX_ROUTES = 32"
definition MAX_ROUTE_BYTES :: nat where "MAX_ROUTE_BYTES = CANDIDATE_ROUTE_MAX_BYTES"
definition MAX_PROTOCOLS :: nat where "MAX_PROTOCOLS = 64"
definition MAX_PROTOCOL_BYTES :: nat where "MAX_PROTOCOL_BYTES = 255"
definition PAGE_LIMIT :: nat where "PAGE_LIMIT = 100"
definition MAX_PAGES :: nat where "MAX_PAGES = 100"
definition MAX_CANDIDATES :: nat where "MAX_CANDIDATES = PAGE_LIMIT * MAX_PAGES"
definition MAX_CURSOR_BYTES :: nat where "MAX_CURSOR_BYTES = 2048"

lemmas discovery_limits = DDS_MAX_REQUEST_BYTES_def DDS_MAX_RESPONSE_BYTES_def MAX_ROUTES_def MAX_ROUTE_BYTES_def
  MAX_PROTOCOLS_def MAX_PROTOCOL_BYTES_def PAGE_LIMIT_def MAX_PAGES_def MAX_CANDIDATES_def MAX_CURSOR_BYTES_def

section \<open>Advertisements\<close>

definition tracker_routes :: "addr_codec \<Rightarrow> peer_id \<Rightarrow> multiaddr list \<Rightarrow> string \<Rightarrow> multiaddr list discovery_result" where
  "tracker_routes C expected_peer routes op =
     (if MAX_ROUTES < length routes then Inl (InvalidTrackerResponse op ''route limit exceeded'')
      else and_then (collect_results (\<lambda>route.
          if MAX_ROUTE_BYTES < ma_encoded_len C route then Inl (InvalidTrackerResponse op ''route is too large'')
          else map_err (\<lambda>_. InvalidTrackerResponse op ''route grammar is invalid'')
            (and_then (canonicalize_candidate_route C route expected_peer) (\<lambda>c. Inr (cand_route c)))) routes)
        (\<lambda>canonical. Inr (sorted_unique_routes C canonical)))"

definition valid_protocol_id :: "(string \<Rightarrow> (string, string) result) \<Rightarrow> string \<Rightarrow> bool" where
  "valid_protocol_id try_from_owned value \<longleftrightarrow>
     length value \<le> MAX_PROTOCOL_BYTES \<and> (\<exists>p. application_protocol_new try_from_owned value = Inr p)"

lemma valid_protocol_id_code [code]:
  "valid_protocol_id try_from_owned value \<longleftrightarrow> length value \<le> MAX_PROTOCOL_BYTES \<and>
     (case application_protocol_new try_from_owned value of Inr _ \<Rightarrow> True | Inl _ \<Rightarrow> False)"
  by (auto simp: valid_protocol_id_def split: sum.splits)

definition validate_protocol :: "(string \<Rightarrow> (string, string) result) \<Rightarrow> string \<Rightarrow> string \<Rightarrow> string discovery_result" where
  "validate_protocol try_from_owned value op =
     (if \<not> valid_protocol_id try_from_owned value then Inl (InvalidTrackerResponse op ''protocol ID is invalid'')
      else Inr value)"

definition validate_filter :: "(string \<Rightarrow> (string, string) result) \<Rightarrow> string \<Rightarrow> string discovery_result" where
  "validate_filter try_from_owned value =
     (if \<not> valid_protocol_id try_from_owned value then Inl InvalidProtocolFilter else Inr value)"

definition canonicalize_protocols ::
  "(string \<Rightarrow> (string, string) result) \<Rightarrow> string list \<Rightarrow> string \<Rightarrow> string list discovery_result"
where
  "canonicalize_protocols try_from_owned protocols op =
     (if MAX_PROTOCOLS < length protocols then Inl (InvalidTrackerResponse op ''protocol limit exceeded'')
      else and_then (collect_results (\<lambda>value. validate_protocol try_from_owned value op) protocols)
        (\<lambda>ps. Inr (remdups_adj (sort ps))))"

text \<open>\<open>now\<close> is the reading of the clock; a lease that has run out gives no candidate.\<close>

definition validate_advertisement ::
  "'u tracker_codec \<Rightarrow> string \<Rightarrow> instant \<Rightarrow> wire_advertisement \<Rightarrow> discovery_candidate option discovery_result"
where
  "validate_advertisement T op now wire =
     and_then (ok_or (InvalidTrackerResponse op ''candidate Peer ID is invalid'') (peer_from_str (tc_addr T) (wa_peer_id wire))) (\<lambda>peer.
     and_then (collect_results (\<lambda>value.
         if MAX_ROUTE_BYTES < length value then Inl (InvalidTrackerResponse op ''candidate route is too large'')
         else ok_or (InvalidTrackerResponse op ''candidate route is invalid'') (ma_from_str (tc_addr T) value)) (wa_routes wire)) (\<lambda>parsed.
     and_then (tracker_routes (tc_addr T) peer parsed op) (\<lambda>routes.
     if routes = [] then Inl (InvalidTrackerResponse op ''candidate must contain at least one route'') else
     and_then (canonicalize_protocols (tc_try_from_owned T) (wa_protocols wire) op) (\<lambda>protocols.
     if wa_expires_at wire \<le> now then Inr None
     else if (case wa_subject_id wire of None \<Rightarrow> False | Some v \<Rightarrow> v = [] \<or> P2P_TOKEN_MAX_SUBJECT_BYTES < length v)
     then Inl (InvalidTrackerResponse op ''candidate subject must contain 1..=255 UTF-8 bytes'')
     else Inr (Some \<lparr>dc_peer_id = peer, dc_routes = routes, dc_served_protocols = protocols,
       dc_expires_at = wa_expires_at wire, dc_source = DdsTracker, dc_subject_id = wa_subject_id wire,
       dc_peer_type = filter_option (\<lambda>v. v \<noteq> []) (map_option trim (wa_peer_type wire))\<rparr>)))))"

definition discovery_filters_new :: "'u tracker_codec \<Rightarrow> string option \<Rightarrow> auki_peer_identity option \<Rightarrow> discovery_filters" where
  "discovery_filters_new T protocol identity =
     (let filters = \<lparr>df_protocol = (case protocol of None \<Rightarrow> [] | Some p \<Rightarrow> p), df_peer_type = [], df_peer_id = [], df_subject_id = []\<rparr>
      in case identity of
           None \<Rightarrow> filters
         | Some (PeerIdentity peer) \<Rightarrow> filters\<lparr>df_peer_id := peer_to_string (tc_addr T) peer\<rparr>
         | Some (RobotIdentity robot) \<Rightarrow> filters\<lparr>df_subject_id := tc_uuid_to_string T robot, df_peer_type := ''robot''\<rparr>
         | Some (ComputeIdentity node) \<Rightarrow> filters\<lparr>df_subject_id := tc_uuid_to_string T node, df_peer_type := ''compute''\<rparr>)"

definition matches_candidate :: "'u tracker_codec \<Rightarrow> auki_peer_identity \<Rightarrow> discovery_candidate \<Rightarrow> bool" where
  "matches_candidate T identity c =
     (case identity of
        PeerIdentity peer \<Rightarrow> dc_peer_id c = peer
      | RobotIdentity robot \<Rightarrow> dc_peer_type c = Some ''robot'' \<and> dc_subject_id c = Some (tc_uuid_to_string T robot)
      | ComputeIdentity node \<Rightarrow> dc_peer_type c = Some ''compute'' \<and> dc_subject_id c = Some (tc_uuid_to_string T node))"

section \<open>Requests\<close>

datatype tracker_method = TrackerGet | TrackerPut | TrackerDelete

record 'u tracker_request =
  tq_method :: tracker_method
  tq_url :: 'u
  tq_authorization :: header_value
  tq_body :: "string option"

record dds_authorization_snapshot =
  da_header :: header_value
  da_revision :: u64

text \<open>A request is logged with the status of its answer, if there is one.\<close>

datatype 'u tracker_action =
    Requested "'u tracker_request" "nat option"
  | RefreshedAuthorization u64
  | Slept nat

record 'u discovery_world =
  dw_authorization :: "nat \<Rightarrow> dds_authorization_snapshot discovery_result option"
  dw_send :: "nat \<Rightarrow> 'u tracker_request \<Rightarrow> (unit, 'u http_response) result option"
  dw_refresh :: "nat \<Rightarrow> u64 \<Rightarrow> unit discovery_result option"
  dw_body_in_time :: "nat \<Rightarrow> bool"
  dw_now :: "nat \<Rightarrow> instant"
  dw_canceled :: "nat \<Rightarrow> bool"
  dw_routes :: "nat \<Rightarrow> route_snapshot catalog_result"
  dw_protocols :: "nat \<Rightarrow> string list"

type_synonym 'u discovery_state = "nat \<times> 'u tracker_action list"
type_synonym ('u, 'a) discovery_act = "'u discovery_world \<Rightarrow> 'u discovery_state \<Rightarrow> 'a discovery_result \<times> 'u discovery_state"

definition dv_lift :: "'a discovery_result \<Rightarrow> ('u, 'a) discovery_act" where
  "dv_lift r = (\<lambda>w s. (r, s))"

abbreviation dv_return :: "'a \<Rightarrow> ('u, 'a) discovery_act" where
  "dv_return x \<equiv> dv_lift (Inr x)"

abbreviation dv_fail :: "discovery_error \<Rightarrow> ('u, 'a) discovery_act" where
  "dv_fail e \<equiv> dv_lift (Inl e)"

definition dv_bind :: "('u, 'a) discovery_act \<Rightarrow> ('a \<Rightarrow> ('u, 'b) discovery_act) \<Rightarrow> ('u, 'b) discovery_act" where
  "dv_bind m f = (\<lambda>w s. case m w s of (Inl e, s') \<Rightarrow> (Inl e, s') | (Inr x, s') \<Rightarrow> f x w s')"

definition dv_ask :: "('u discovery_world \<Rightarrow> nat \<Rightarrow> 'a) \<Rightarrow> ('u, 'a) discovery_act" where
  "dv_ask f = (\<lambda>w (n, log). (Inr (f w n), (n + 1, log)))"

definition dv_log :: "'u tracker_action \<Rightarrow> ('u, unit) discovery_act" where
  "dv_log a = (\<lambda>w (n, log). (Inr (), (n, log @ [a])))"

text \<open>An await inside the deadline of a request.\<close>

definition dv_await :: "('u discovery_world \<Rightarrow> nat \<Rightarrow> 'a discovery_result option) \<Rightarrow> ('u, 'a) discovery_act" where
  "dv_await f = dv_bind (dv_ask f) (\<lambda>r. dv_lift (case r of None \<Rightarrow> Inl RequestTimedOut | Some r \<Rightarrow> r))"

definition tracker_bearer_header :: "'u tracker_codec \<Rightarrow> header_value \<Rightarrow> bool" where
  "tracker_bearer_header T hv \<longleftrightarrow>
     hv_sensitive hv \<and>
     (case tc_hv_to_str T hv of None \<Rightarrow> False
      | Some value \<Rightarrow> take 7 value = ''Bearer '' \<and> length ''Bearer '' < length value)"

definition response_is_json :: "'u tracker_codec \<Rightarrow> 'u http_response \<Rightarrow> bool" where
  "response_is_json T response =
     (case get_all ''content-type'' (hs_headers response) of
        [] \<Rightarrow> False
      | v # _ \<Rightarrow>
          (case tc_hv_to_str T v of None \<Rightarrow> False
           | Some value \<Rightarrow> eq_ignore_ascii_case (trim (hd (split_on (CHR '';'') value))) ''application/json''))"

definition response_is_non_cacheable :: "'u tracker_codec \<Rightarrow> 'u http_response \<Rightarrow> bool" where
  "response_is_non_cacheable T response =
     list_ex (\<lambda>directive. eq_ignore_ascii_case (trim directive) ''no-store'')
       (concat (map (split_on (CHR '',''))
         (List.map_filter (tc_hv_to_str T) (get_all ''cache-control'' (hs_headers response)))))"

fun read_body :: "string \<Rightarrow> string \<Rightarrow> (bool, string) result list \<Rightarrow> string discovery_result" where
  "read_body op bytes [] = Inr bytes"
| "read_body op bytes (Inl _ # _) = Inl TrackerTransport"
| "read_body op bytes (Inr chunk # chunks) =
     (if DDS_MAX_RESPONSE_BYTES < length bytes + length chunk
      then Inl (InvalidTrackerResponse op ''response body is too large'')
      else read_body op (bytes @ chunk) chunks)"

text \<open>What becomes of a response of the expected status.\<close>

definition accept_response :: "'u tracker_codec \<Rightarrow> string \<Rightarrow> nat \<Rightarrow> 'u http_response \<Rightarrow> ('u, string) discovery_act" where
  "accept_response T op expected_status response =
     (if \<not> response_is_non_cacheable T response
      then dv_fail (InvalidTrackerResponse op ''Cache-Control must contain no-store'')
      else if expected_status \<noteq> 204 \<and> \<not> response_is_json T response
      then dv_fail (InvalidTrackerResponse op ''Content-Type must be application/json'')
      else if (case hs_content_length response of None \<Rightarrow> False | Some n \<Rightarrow> DDS_MAX_RESPONSE_BYTES < unat n)
      then dv_fail (InvalidTrackerResponse op ''response body is too large'')
      else dv_bind (dv_ask dw_body_in_time) (\<lambda>in_time.
        if in_time then dv_lift (read_body op [] (hs_chunks response)) else dv_fail RequestTimedOut))"

text \<open>The request is logged together with the status of its answer.\<close>

definition exchange :: "'u tracker_request \<Rightarrow> ('u, 'u http_response) discovery_act" where
  "exchange rq =
     dv_bind (dv_ask (\<lambda>w n. dw_send w n rq)) (\<lambda>answer.
     dv_bind (dv_log (Requested rq (case answer of Some (Inr r) \<Rightarrow> Some (hs_status r) | _ \<Rightarrow> None))) (\<lambda>_.
     dv_lift (case answer of None \<Rightarrow> Inl RequestTimedOut | Some (Inl _) \<Rightarrow> Inl TrackerTransport | Some (Inr r) \<Rightarrow> Inr r)))"

fun tracker_attempts ::
  "'u tracker_codec \<Rightarrow> string \<Rightarrow> tracker_method \<Rightarrow> 'u \<Rightarrow> string option \<Rightarrow> nat \<Rightarrow> nat list \<Rightarrow> ('u, string) discovery_act"
where
  "tracker_attempts T op meth url body expected_status [] =
     dv_fail (DiscoveryPanic ''the bounded authorization retry loop always returns'')"
| "tracker_attempts T op meth url body expected_status (attempt # attempts) =
     dv_bind (dv_await dw_authorization) (\<lambda>authorization.
     if \<not> tracker_bearer_header T (da_header authorization) then dv_fail AuthenticationUnavailable else
     dv_bind (exchange \<lparr>tq_method = meth, tq_url = url, tq_authorization = da_header authorization, tq_body = body\<rparr>) (\<lambda>response.
     if hs_url response \<noteq> url then dv_fail (InvalidTrackerResponse op ''response URL changed'')
     else if hs_status response = 401 \<and> attempt = 0 then
       dv_bind (dv_log (RefreshedAuthorization (da_revision authorization))) (\<lambda>_.
       dv_bind (dv_await (\<lambda>w n. dw_refresh w n (da_revision authorization))) (\<lambda>_.
       tracker_attempts T op meth url body expected_status attempts))
     else if hs_status response \<noteq> expected_status then dv_fail (TrackerStatus op (hs_status response))
     else accept_response T op expected_status response))"

definition tracker_send ::
  "'u tracker_codec \<Rightarrow> string \<Rightarrow> tracker_method \<Rightarrow> 'u \<Rightarrow> string option \<Rightarrow> nat \<Rightarrow> ('u, string) discovery_act"
where
  "tracker_send T op meth url body expected_status = tracker_attempts T op meth url body expected_status [0, 1]"

definition tracker_json :: "(string \<Rightarrow> 'a option) \<Rightarrow> string \<Rightarrow> string \<Rightarrow> 'a discovery_result" where
  "tracker_json parse op bytes = ok_or (InvalidTrackerResponse op ''JSON does not match the tracker contract'') (parse bytes)"

section \<open>Endpoints\<close>

definition tracker_endpoint :: "'u tracker_codec \<Rightarrow> 'u \<Rightarrow> string list \<Rightarrow> 'u discovery_result" where
  "tracker_endpoint T base segments =
     and_then (ok_or InvalidTrackerConfiguration (tc_extend T base segments)) (\<lambda>url.
     if tc_has_query T url \<or> tc_has_fragment T url then Inl InvalidTrackerConfiguration else Inr url)"

definition self_endpoint :: "'u tracker_codec \<Rightarrow> 'u \<Rightarrow> uuid \<Rightarrow> 'u discovery_result" where
  "self_endpoint T base domain =
     tracker_endpoint T base [''api'', ''v1'', ''domains'', tc_uuid_to_string T domain, ''p2p'', ''advertisements'', ''self'']"

definition filter_pairs :: "discovery_filters \<Rightarrow> (string \<times> string) list" where
  "filter_pairs filters = filter (\<lambda>(_, value). value \<noteq> [])
     [(''protocol'', df_protocol filters), (''peer_type'', df_peer_type filters), (''peer_id'', df_peer_id filters),
      (''subject_id'', df_subject_id filters)]"

definition collection_endpoint ::
  "'u tracker_codec \<Rightarrow> 'u \<Rightarrow> uuid \<Rightarrow> discovery_filters \<Rightarrow> string option \<Rightarrow> 'u discovery_result"
where
  "collection_endpoint T base domain filters cursor =
     and_then (tracker_endpoint T base [''api'', ''v1'', ''domains'', tc_uuid_to_string T domain, ''p2p'', ''advertisements'']) (\<lambda>url.
     Inr (tc_append_pairs T ((''limit'', show_dec PAGE_LIMIT) # filter_pairs filters @
       (case cursor of None \<Rightarrow> [] | Some c \<Rightarrow> [(''cursor'', c)])) url))"

section \<open>Publication, withdrawal, lookup\<close>

definition tracker_publish ::
  "'u tracker_codec \<Rightarrow> 'u \<Rightarrow> uuid \<Rightarrow> peer_id \<Rightarrow> multiaddr list \<Rightarrow> string list \<Rightarrow> ('u, discovery_candidate) discovery_act"
where
  "tracker_publish T base domain peer routes protocols =
     dv_bind (dv_lift (tracker_routes (tc_addr T) peer routes ''publish'')) (\<lambda>routes.
     if routes = [] then dv_fail (InvalidTrackerResponse ''publish'' ''advertisement must contain at least one route'') else
     dv_bind (dv_lift (canonicalize_protocols (tc_try_from_owned T) protocols ''publish'')) (\<lambda>protocols.
     dv_bind (dv_lift (ok_or (InvalidTrackerResponse ''publish'' ''request encoding failed'')
       (tc_json_publish T (map (ma_to_string (tc_addr T)) routes) protocols))) (\<lambda>body.
     if DDS_MAX_REQUEST_BYTES < length body
     then dv_fail (InvalidTrackerResponse ''publish'' ''encoded advertisement exceeds the request limit'') else
     dv_bind (dv_lift (self_endpoint T base domain)) (\<lambda>url.
     dv_bind (tracker_send T ''publish'' TrackerPut url (Some body) 200) (\<lambda>raw.
     dv_bind (dv_lift (tracker_json (tc_json_advertisement T) ''publish'' raw)) (\<lambda>wire.
     dv_bind (dv_ask dw_now) (\<lambda>now.
     dv_bind (dv_lift (validate_advertisement T ''publish'' now wire)) (\<lambda>validated.
     dv_bind (dv_lift (ok_or (InvalidTrackerResponse ''publish'' ''DDS returned an expired lease'') validated)) (\<lambda>c.
     if dc_peer_id c \<noteq> peer \<or> dc_routes c \<noteq> routes \<or> dc_served_protocols c \<noteq> protocols
     then dv_fail (InvalidTrackerResponse ''publish'' ''DDS changed the self advertisement identity or values'')
     else dv_return c)))))))))"

definition tracker_withdraw :: "'u tracker_codec \<Rightarrow> 'u \<Rightarrow> uuid \<Rightarrow> ('u, unit) discovery_act" where
  "tracker_withdraw T base domain =
     dv_bind (dv_lift (self_endpoint T base domain)) (\<lambda>url.
     dv_bind (tracker_send T ''withdraw'' TrackerDelete url None 204) (\<lambda>raw.
     if raw \<noteq> [] then dv_fail (InvalidTrackerResponse ''withdraw'' ''204 response must not contain a body'')
     else dv_return ()))"

type_synonym found = "(string, discovery_candidate) btreemap"

definition discover_candidate ::
  "'u tracker_codec \<Rightarrow> peer_id \<Rightarrow> string option \<Rightarrow> auki_peer_identity option \<Rightarrow> found \<Rightarrow> discovery_candidate \<Rightarrow> found discovery_result"
where
  "discover_candidate T local_peer protocol identity found c =
     (if (case identity of None \<Rightarrow> False | Some expected \<Rightarrow> \<not> matches_candidate T expected c)
      then Inl (InvalidTrackerResponse ''resolve'' ''identity-filtered page contains a non-matching candidate'')
      else if dc_peer_id c = local_peer then Inr found
      else if (case protocol of None \<Rightarrow> False | Some expected \<Rightarrow> expected \<notin> set (dc_served_protocols c))
      then Inl (InvalidTrackerResponse ''list'' ''protocol-filtered page contains a non-matching candidate'')
      else let key = peer_to_string (tc_addr T) (dc_peer_id c); inserted = bt_insert key c found
        in if map_of found key \<noteq> None
           then Inl (InvalidTrackerResponse ''list'' ''candidate Peer ID is repeated across pages'')
           else if MAX_CANDIDATES < length inserted
           then Inl (InvalidTrackerResponse ''list'' ''aggregate candidate limit exceeded'')
           else Inr inserted)"

fun discover_advertisements ::
  "'u tracker_codec \<Rightarrow> peer_id \<Rightarrow> string option \<Rightarrow> auki_peer_identity option \<Rightarrow> wire_advertisement list \<Rightarrow> found \<Rightarrow> ('u, found) discovery_act"
where
  "discover_advertisements T local_peer protocol identity [] found = dv_return found"
| "discover_advertisements T local_peer protocol identity (wire # wires) found =
     dv_bind (dv_ask dw_now) (\<lambda>now.
     dv_bind (dv_lift (validate_advertisement T ''list'' now wire)) (\<lambda>validated.
     dv_bind (case validated of None \<Rightarrow> dv_return found
       | Some c \<Rightarrow> dv_lift (discover_candidate T local_peer protocol identity found c)) (\<lambda>found.
     discover_advertisements T local_peer protocol identity wires found)))"

definition discover_page ::
  "'u tracker_codec \<Rightarrow> 'u \<Rightarrow> uuid \<Rightarrow> peer_id \<Rightarrow> string option \<Rightarrow> auki_peer_identity option \<Rightarrow> discovery_filters \<Rightarrow>
    string option \<Rightarrow> found \<Rightarrow> ('u, found \<times> string option) discovery_act"
where
  "discover_page T base domain local_peer protocol identity filters cursor found =
     dv_bind (dv_lift (collection_endpoint T base domain filters cursor)) (\<lambda>url.
     dv_bind (tracker_send T ''list'' TrackerGet url None 200) (\<lambda>raw.
     dv_bind (dv_lift (tracker_json (tc_json_list T) ''list'' raw)) (\<lambda>page.
     if identity \<noteq> None \<and> lr_applied_filters page \<noteq> Some filters
     then dv_fail (InvalidTrackerResponse ''resolve''
       ''DDS did not confirm the exact identity filters; provider support is required'')
     else if PAGE_LIMIT < length (lr_advertisements page)
     then dv_fail (InvalidTrackerResponse ''list'' ''page exceeds the requested candidate limit'')
     else dv_bind (discover_advertisements T local_peer protocol identity (lr_advertisements page) found) (\<lambda>found.
       dv_return (found, lr_next_cursor page)))))"

fun discover_pages ::
  "'u tracker_codec \<Rightarrow> 'u \<Rightarrow> uuid \<Rightarrow> peer_id \<Rightarrow> string option \<Rightarrow> auki_peer_identity option \<Rightarrow> discovery_filters \<Rightarrow>
    nat list \<Rightarrow> string list \<Rightarrow> string option \<Rightarrow> found \<Rightarrow> ('u, discovery_candidate list) discovery_act"
where
  "discover_pages T base domain local_peer protocol identity filters [] cursors cursor found =
     dv_fail (InvalidTrackerResponse ''list'' ''page limit exceeded'')"
| "discover_pages T base domain local_peer protocol identity filters (_ # pages) cursors cursor found =
     dv_bind (discover_page T base domain local_peer protocol identity filters cursor found) (\<lambda>(found, next_cursor).
     case next_cursor of
       None \<Rightarrow> dv_return (map snd found)
     | Some next_cursor \<Rightarrow>
         if next_cursor = [] \<or> MAX_CURSOR_BYTES < length next_cursor \<or> next_cursor \<in> set cursors
         then dv_fail (InvalidTrackerResponse ''list'' ''invalid or repeated page cursor'')
         else discover_pages T base domain local_peer protocol identity filters pages (next_cursor # cursors)
           (Some next_cursor) found)"

definition discover_filtered ::
  "'u tracker_codec \<Rightarrow> 'u \<Rightarrow> uuid \<Rightarrow> peer_id \<Rightarrow> string option \<Rightarrow> auki_peer_identity option \<Rightarrow>
    ('u, discovery_candidate list) discovery_act"
where
  "discover_filtered T base domain local_peer protocol identity =
     dv_bind (dv_lift (case protocol of None \<Rightarrow> Inr None
       | Some p \<Rightarrow> and_then (validate_filter (tc_try_from_owned T) p) (\<lambda>p. Inr (Some p)))) (\<lambda>protocol.
     discover_pages T base domain local_peer protocol identity (discovery_filters_new T protocol identity)
       [0..<MAX_PAGES] [] None [])"

definition tracker_discover ::
  "'u tracker_codec \<Rightarrow> 'u \<Rightarrow> uuid \<Rightarrow> peer_id \<Rightarrow> string option \<Rightarrow> ('u, discovery_candidate list) discovery_act"
where
  "tracker_discover T base domain local_peer protocol = discover_filtered T base domain local_peer protocol None"

section \<open>Exact lookup\<close>

record auki_resolved_peer =
  rp_identity :: auki_peer_identity
  rp_domain_id :: uuid
  rp_protocol_id :: string
  rp_candidate :: discovery_candidate

text \<open>
  How the lookup ends: it is done, or the peer stops or thirty seconds pass after it has taken some of
  its actions.
\<close>

datatype lookup_race = LookupDone | LookupStopped nat | LookupLate nat

fun keep_current :: "discovery_candidate list \<Rightarrow> ('u, discovery_candidate list) discovery_act" where
  "keep_current [] = dv_return []"
| "keep_current (c # cs) =
     dv_bind (dv_ask dw_now) (\<lambda>now.
     dv_bind (keep_current cs) (\<lambda>rest. dv_return (if now < dc_expires_at c then c # rest else rest)))"

definition resolve ::
  "'u tracker_codec \<Rightarrow> 'u \<Rightarrow> uuid \<Rightarrow> peer_id \<Rightarrow> auki_peer_identity \<Rightarrow> string \<Rightarrow> lookup_race \<Rightarrow>
    ('u, auki_resolved_peer list) discovery_act"
where
  "resolve T base domain local_peer identity protocol race = (\<lambda>w (n, log).
     let (r, n', log') = discover_filtered T base domain local_peer (Some protocol) (Some identity) w (n, log)
     in case race of
          LookupStopped k \<Rightarrow> (Inl AuthenticationUnavailable, (n', log @ take k (drop (length log) log')))
        | LookupLate k \<Rightarrow> (Inl RequestTimedOut, (n', log @ take k (drop (length log) log')))
        | LookupDone \<Rightarrow>
            dv_bind (dv_lift r) (\<lambda>candidates.
            dv_bind (keep_current candidates) (\<lambda>current.
            dv_return (map (\<lambda>c. \<lparr>rp_identity = identity, rp_domain_id = domain, rp_protocol_id = protocol, rp_candidate = c\<rparr>)
              current))) w (n', log'))"

section \<open>Keeping an advertisement alive\<close>

definition discovery_retryable :: "discovery_error \<Rightarrow> bool" where
  "discovery_retryable e = (case e of
       AuthenticationUnavailable \<Rightarrow> True | RequestTimedOut \<Rightarrow> True | TrackerTransport \<Rightarrow> True
     | TrackerStatus _ status \<Rightarrow> status = 429 \<or> 500 \<le> status \<and> status \<le> 599
     | _ \<Rightarrow> False)"

text \<open>A failure does not end the sequence; \<open>cancelable\<close>: the sleep can be interrupted.\<close>

definition dv_catch :: "('u, 'a) discovery_act \<Rightarrow> ('u, 'a discovery_result) discovery_act" where
  "dv_catch m = (\<lambda>w s. case m w s of (r, s') \<Rightarrow> (Inr r, s'))"

fun publish_attempts ::
  "'u tracker_codec \<Rightarrow> 'u \<Rightarrow> uuid \<Rightarrow> peer_id \<Rightarrow> multiaddr list \<Rightarrow> string list \<Rightarrow> bool \<Rightarrow> nat \<Rightarrow> nat list \<Rightarrow> ('u, unit) discovery_act"
where
  "publish_attempts T base domain peer routes protocols cancelable delay [] =
     dv_fail (DiscoveryPanic ''the bounded publication retry loop always returns'')"
| "publish_attempts T base domain peer routes protocols cancelable delay (attempt # attempts) =
     dv_bind (dv_catch (tracker_publish T base domain peer routes protocols)) (\<lambda>r.
     case r of
       Inr _ \<Rightarrow> dv_return ()
     | Inl e \<Rightarrow>
         if attempt < 2 \<and> discovery_retryable e then
           dv_bind (if cancelable then dv_ask dw_canceled else dv_return False) (\<lambda>canceled.
           if canceled then dv_fail e
           else dv_bind (dv_log (Slept delay)) (\<lambda>_.
             publish_attempts T base domain peer routes protocols cancelable (delay * 2) attempts))
         else dv_fail e)"

definition publish_with_retry ::
  "'u tracker_codec \<Rightarrow> 'u \<Rightarrow> uuid \<Rightarrow> peer_id \<Rightarrow> multiaddr list \<Rightarrow> string list \<Rightarrow> bool \<Rightarrow> ('u, unit) discovery_act"
where
  "publish_with_retry T base domain peer routes protocols cancelable =
     publish_attempts T base domain peer routes protocols cancelable 1000000000 [0, 1, 2]"

definition native_routes :: "addr_codec \<Rightarrow> route_snapshot catalog_result \<Rightarrow> multiaddr list discovery_result" where
  "native_routes C snapshot =
     and_then (map_err (\<lambda>_. InvalidTrackerResponse ''publish'' ''local route snapshot is invalid'') snapshot) (\<lambda>s.
     Inr (sorted_unique_routes C (rs_direct_routes s @
       concat (map (\<lambda>r. [route_tcp (pr_routes r), route_wss (pr_routes r)]) (rs_relay_routes s)))))"

datatype auth_failure_kind =
    AuthenticationRequired | ConfigurationFailure | AuthorizationDenied | PersistenceFailure | TransientFailure | AuthCancelled | AuthClosed

datatype authority_status =
    AuthorityStarting
  | AuthorityReady u64 instant
  | AuthorityExpired u64 instant
  | AuthorityAuthenticationFailed auth_failure_kind
  | AuthorityStopped

text \<open>What wakes the task of a publisher; \<open>None\<close>: the sender of the watched value is gone.\<close>

datatype publisher_turn =
    CancelTurn
  | RenewalTurn
  | RouteTurn "unit option"
  | ProtocolTurn "unit option"
  | AuthorityTurn "authority_status option"

definition ends_publisher :: "publisher_turn \<Rightarrow> bool" where
  "ends_publisher turn = (case turn of
       CancelTurn \<Rightarrow> True | RenewalTurn \<Rightarrow> False
     | RouteTurn changed \<Rightarrow> changed = None | ProtocolTurn changed \<Rightarrow> changed = None
     | AuthorityTurn None \<Rightarrow> True
     | AuthorityTurn (Some status) \<Rightarrow>
         (case status of AuthorityStopped \<Rightarrow> True | AuthorityAuthenticationFailed _ \<Rightarrow> True | _ \<Rightarrow> False))"

text \<open>\<open>True\<close>: the task is to end, with the withdrawal as its result.\<close>

definition native_update ::
  "'u tracker_codec \<Rightarrow> 'u \<Rightarrow> uuid \<Rightarrow> peer_id \<Rightarrow> ('u, bool) discovery_act"
where
  "native_update T base domain peer =
     dv_bind (dv_ask dw_routes) (\<lambda>snapshot.
     case native_routes (tc_addr T) snapshot of
       Inl _ \<Rightarrow> dv_return False
     | Inr routes \<Rightarrow>
         if routes = [] then dv_bind (dv_catch (tracker_withdraw T base domain)) (\<lambda>_. dv_return False) else
         dv_bind (dv_ask dw_protocols) (\<lambda>protocols.
         dv_bind (dv_catch (publish_with_retry T base domain peer routes protocols True)) (\<lambda>r.
         case r of Inr _ \<Rightarrow> dv_return False | Inl _ \<Rightarrow> dv_ask dw_canceled)))"

fun maintain_native ::
  "'u tracker_codec \<Rightarrow> 'u \<Rightarrow> uuid \<Rightarrow> peer_id \<Rightarrow> publisher_turn list \<Rightarrow> ('u, unit discovery_result option) discovery_act"
where
  "maintain_native T base domain peer [] = dv_return None"
| "maintain_native T base domain peer (turn # turns) =
     dv_bind (if ends_publisher turn then dv_return True else native_update T base domain peer) (\<lambda>ends.
     if ends then dv_bind (dv_catch (tracker_withdraw T base domain)) (\<lambda>r. dv_return (Some r))
     else maintain_native T base domain peer turns)"

definition native_publisher_start :: "'u tracker_codec \<Rightarrow> 'u \<Rightarrow> uuid \<Rightarrow> peer_id \<Rightarrow> ('u, unit) discovery_act" where
  "native_publisher_start T base domain peer =
     dv_bind (dv_ask dw_routes) (\<lambda>snapshot.
     dv_bind (dv_lift (native_routes (tc_addr T) snapshot)) (\<lambda>routes.
     dv_bind (dv_ask dw_protocols) (\<lambda>protocols.
     dv_bind (dv_catch (publish_with_retry T base domain peer routes protocols False)) (\<lambda>r.
     case r of
       Inr _ \<Rightarrow> dv_return ()
     | Inl e \<Rightarrow> dv_bind (dv_catch (tracker_withdraw T base domain)) (\<lambda>_. dv_fail e)))))"

text \<open>The publisher over its life; \<open>Inr None\<close>: it still runs.\<close>

definition native_publisher ::
  "'u tracker_codec \<Rightarrow> 'u \<Rightarrow> uuid \<Rightarrow> peer_id \<Rightarrow> publisher_turn list \<Rightarrow> ('u, unit discovery_result option) discovery_act"
where
  "native_publisher T base domain peer turns =
     dv_bind (native_publisher_start T base domain peer) (\<lambda>_. maintain_native T base domain peer turns)"

datatype browser_turn = BrowserCanceled | BrowserProtocols "unit option" | BrowserRenewal

fun maintain_browser ::
  "'u tracker_codec \<Rightarrow> 'u \<Rightarrow> uuid \<Rightarrow> peer_id \<Rightarrow> multiaddr list \<Rightarrow> browser_turn list \<Rightarrow> ('u, unit discovery_result option) discovery_act"
where
  "maintain_browser T base domain peer routes [] = dv_return None"
| "maintain_browser T base domain peer routes (turn # turns) =
     dv_bind (if turn = BrowserCanceled \<or> turn = BrowserProtocols None then dv_return True
       else dv_bind (dv_ask dw_protocols) (\<lambda>protocols.
         dv_bind (dv_catch (publish_with_retry T base domain peer routes protocols True)) (\<lambda>r.
         case r of Inr _ \<Rightarrow> dv_return False | Inl _ \<Rightarrow> dv_ask dw_canceled))) (\<lambda>ends.
     if ends then dv_bind (dv_catch (tracker_withdraw T base domain)) (\<lambda>r. dv_return (Some r))
     else maintain_browser T base domain peer routes turns)"

text \<open>\<open>owned\<close>: the receiver of the startup barrier still exists.\<close>

definition browser_publisher ::
  "'u tracker_codec \<Rightarrow> 'u \<Rightarrow> uuid \<Rightarrow> peer_id \<Rightarrow> multiaddr list \<Rightarrow> bool \<Rightarrow> browser_turn list \<Rightarrow>
    ('u, unit discovery_result option) discovery_act"
where
  "browser_publisher T base domain peer routes owned turns =
     dv_bind (dv_ask dw_canceled) (\<lambda>canceled.
     if canceled then dv_return (Some (Inl RuntimeStoppedDuringStartup)) else
     dv_bind (dv_ask dw_protocols) (\<lambda>protocols.
     dv_bind (dv_catch (publish_with_retry T base domain peer routes protocols True)) (\<lambda>initial.
     case initial of
       Inl e \<Rightarrow> dv_bind (dv_catch (tracker_withdraw T base domain)) (\<lambda>_. dv_return (Some (Inl e)))
     | Inr _ \<Rightarrow>
         dv_bind (dv_ask dw_canceled) (\<lambda>canceled.
         if canceled then dv_bind (dv_catch (tracker_withdraw T base domain)) (\<lambda>cleanup.
           dv_return (Some (and_then cleanup (\<lambda>_. Inl RuntimeStoppedDuringStartup))))
         else if \<not> owned then dv_bind (dv_catch (tracker_withdraw T base domain)) (\<lambda>r. dv_return (Some r))
         else maintain_browser T base domain peer routes turns))))"

end
