(* ===== verification/Discovery_Safety.thy ===== *)
theory Discovery_Safety
  imports Discovery
begin

text \<open>
  What the tracker client of \<open>Discovery\<close> guarantees: how many requests a call sends and where, which
  candidates a lookup returns, what is published, and how the life of an advertisement ends. A small
  calculus of what a call emits and what its result says carries the proofs.
\<close>

section \<open>What a call does\<close>

named_theorems dv_rules

definition is_request :: "'u tracker_action \<Rightarrow> bool" where
  "is_request a \<longleftrightarrow> (\<exists>rq st. a = Requested rq st)"

lemma is_request_simps [simp]:
  "is_request (Requested rq st)" "\<not> is_request (RefreshedAuthorization v)" "\<not> is_request (Slept d)"
  by (simp_all add: is_request_def)

text \<open>In world \<open>w\<close>, a call extends the log by actions that satisfy \<open>P\<close>, with at most \<open>k\<close> requests.\<close>

definition dv_emits :: "'u discovery_world \<Rightarrow> nat \<Rightarrow> ('u tracker_action \<Rightarrow> bool) \<Rightarrow> ('u, 'a) discovery_act \<Rightarrow> bool" where
  "dv_emits w k P m \<longleftrightarrow> (\<forall>s. \<exists>new. snd (snd (m w s)) = snd s @ new \<and> list_all P new \<and> length (filter is_request new) \<le> k)"

lemma dv_emitsI:
  assumes "\<And>n log. \<exists>new. snd (snd (m w (n, log))) = log @ new \<and> list_all P new \<and> length (filter is_request new) \<le> k"
  shows "dv_emits w k P m"
  using assms by (simp add: dv_emits_def)

lemma dv_emitsE:
  assumes "dv_emits w k P m" "m w (n, log) = (r, n', log')"
  obtains new where "log' = log @ new" "list_all P new" "length (filter is_request new) \<le> k"
proof -
  have "\<exists>new. snd (snd (m w (n, log))) = log @ new \<and> list_all P new \<and> length (filter is_request new) \<le> k"
    using assms(1) unfolding dv_emits_def by (metis snd_conv)
  with assms(2) that show thesis by auto
qed

lemma dv_emits_lift [dv_rules]: "dv_emits w k P (dv_lift r)"
  by (simp add: dv_emits_def dv_lift_def)

lemma dv_emits_ask [dv_rules]: "dv_emits w k P (dv_ask f)"
  by (simp add: dv_emits_def dv_ask_def split: prod.splits)

lemma dv_emits_log: "P a \<Longrightarrow> (is_request a \<Longrightarrow> 0 < k) \<Longrightarrow> dv_emits w k P (dv_log a)"
  by (auto simp: dv_emits_def dv_log_def split: prod.splits)

lemma dv_emits_bind:
  assumes "dv_emits w j P m" "\<And>x. dv_emits w k P (f x)"
  shows "dv_emits w (j + k) P (dv_bind m f)"
proof (rule dv_emitsI)
  fix n log
  obtain r n1 log1 where m: "m w (n, log) = (r, n1, log1)" by (metis prod_cases3)
  from assms(1) m obtain new1 where new1: "log1 = log @ new1" "list_all P new1" "length (filter is_request new1) \<le> j"
    by (rule dv_emitsE)
  show "\<exists>new. snd (snd (dv_bind m f w (n, log))) = log @ new \<and> list_all P new \<and> length (filter is_request new) \<le> j + k"
  proof (cases r)
    case (Inl e)
    with m new1 show ?thesis by (auto simp: dv_bind_def)
  next
    case (Inr x)
    obtain r2 n2 log2 where f: "f x w (n1, log1) = (r2, n2, log2)" by (metis prod_cases3)
    from assms(2) f obtain new2 where "log2 = log1 @ new2" "list_all P new2" "length (filter is_request new2) \<le> k"
      by (rule dv_emitsE)
    with m new1 Inr f show ?thesis by (auto simp: dv_bind_def intro!: exI[of _ "new1 @ new2"])
  qed
qed

text \<open>The first part of a sequence sends nothing, or the second part does not.\<close>

lemma dv_emits_then [dv_rules]:
  assumes "dv_emits w 0 P m" "\<And>x. dv_emits w k P (f x)"
  shows "dv_emits w k P (dv_bind m f)"
  using dv_emits_bind[OF assms] by simp

lemma dv_emits_bind0:
  assumes "dv_emits w k P m" "\<And>x. dv_emits w 0 P (f x)"
  shows "dv_emits w k P (dv_bind m f)"
  using dv_emits_bind[OF assms] by simp

lemma dv_emits_mono: "dv_emits w j P m \<Longrightarrow> j \<le> k \<Longrightarrow> (\<And>a. P a \<Longrightarrow> Q a) \<Longrightarrow> dv_emits w k Q m"
  unfolding dv_emits_def by (meson list.pred_mono_strong order_trans)

lemma dv_emits_catch [dv_rules]: "dv_emits w k P m \<Longrightarrow> dv_emits w k P (dv_catch m)"
  by (simp add: dv_emits_def dv_catch_def case_prod_beta)

lemma dv_emits_If [dv_rules]: "dv_emits w k P a \<Longrightarrow> dv_emits w k P b \<Longrightarrow> dv_emits w k P (if c then a else b)"
  by simp

lemma dv_emits_await [dv_rules]: "dv_emits w k P (dv_await f)"
  unfolding dv_await_def by (intro dv_rules)

text \<open>The result of a sequence.\<close>

lemma dv_bind_Inr: "dv_bind m f w s = (Inr y, s') \<longleftrightarrow> (\<exists>x s1. m w s = (Inr x, s1) \<and> f x w s1 = (Inr y, s'))"
  by (auto simp: dv_bind_def split: prod.splits sum.splits)

lemma dv_bind_InrE:
  assumes "dv_bind m f w s = (Inr y, s')"
  obtains x n1 log1 where "m w s = (Inr x, n1, log1)" "f x w (n1, log1) = (Inr y, s')"
  using assms unfolding dv_bind_Inr by (metis prod.collapse)

lemma dv_lift_eq [simp]: "dv_lift r w s = (r', s') \<longleftrightarrow> r = r' \<and> s = s'"
  by (auto simp: dv_lift_def)

lemma dv_ask_Inr: "dv_ask f w (n, log) = (Inr x, s') \<longleftrightarrow> x = f w n \<and> s' = (n + 1, log)"
  by (auto simp: dv_ask_def)

lemma dv_ask_ex: "dv_ask f w s = (Inr x, s') \<Longrightarrow> \<exists>n. x = f w n \<and> snd s' = snd s"
  by (cases s) (auto simp: dv_ask_def)

lemma dv_catch_Inr: "dv_catch m w s = (Inr r, s') \<longleftrightarrow> m w s = (r, s')"
  by (auto simp: dv_catch_def split: prod.splits)

section \<open>Requests\<close>

definition sends_to :: "'u tracker_codec \<Rightarrow> tracker_method \<Rightarrow> 'u \<Rightarrow> string option \<Rightarrow> 'u tracker_action \<Rightarrow> bool" where
  "sends_to T meth url body a \<longleftrightarrow> (case a of
       Requested rq _ \<Rightarrow> tq_method rq = meth \<and> tq_url rq = url \<and> tq_body rq = body \<and> tracker_bearer_header T (tq_authorization rq)
     | _ \<Rightarrow> True)"

lemma exchange_emits: "(\<And>st. P (Requested rq st)) \<Longrightarrow> dv_emits w (Suc 0) P (exchange rq)"
  unfolding exchange_def by (intro dv_emits_then dv_emits_bind0[of _ "Suc 0"] dv_emits_ask dv_emits_log dv_emits_lift) simp_all

lemma attempts_emit:
  "dv_emits w (length attempts) (sends_to T meth url body) (tracker_attempts T op meth url body expected attempts)"
proof (induction attempts)
  case (Cons attempt attempts)
  have accept: "dv_emits w k P (accept_response T op expected response)" for k P response
    unfolding accept_response_def by (intro dv_rules)
  have ex: "dv_emits w (Suc 0) (sends_to T meth url body)
      (exchange \<lparr>tq_method = meth, tq_url = url, tq_authorization = h, tq_body = body\<rparr>)"
    if "tracker_bearer_header T h" for h
    using that by (intro exchange_emits) (simp add: sends_to_def)
  have log: "dv_emits w 0 (sends_to T meth url body) (dv_log (RefreshedAuthorization v))" for v
    by (rule dv_emits_log) (simp_all add: sends_to_def)
  have rest: "dv_emits w (Suc 0 + length attempts) (sends_to T meth url body)
      (dv_bind (exchange \<lparr>tq_method = meth, tq_url = url, tq_authorization = h, tq_body = body\<rparr>) f)"
    if "tracker_bearer_header T h" "\<And>x. dv_emits w (length attempts) (sends_to T meth url body) (f x)" for h f
    using ex[OF that(1)] that(2) by (rule dv_emits_bind)
  have refresh: "dv_emits w (length attempts) (sends_to T meth url body)
      (if hs_url r \<noteq> url then dv_fail e
       else if hs_status r = 401 \<and> attempt = 0 then
         dv_bind (dv_log (RefreshedAuthorization v)) (\<lambda>_. dv_bind (dv_await g) (\<lambda>_.
         tracker_attempts T op meth url body expected attempts))
       else if hs_status r \<noteq> expected then dv_fail e'
       else accept_response T op expected r)" for r v e e' g
    by (intro dv_emits_If dv_emits_lift accept dv_emits_then[OF log] dv_emits_then[OF dv_emits_await] Cons.IH)
  have outer: "dv_emits w (length (attempt # attempts)) (sends_to T meth url body)
      (if \<not> tracker_bearer_header T h then dv_fail e
       else dv_bind (exchange \<lparr>tq_method = meth, tq_url = url, tq_authorization = h, tq_body = body\<rparr>) f)"
    if "\<And>x. dv_emits w (length attempts) (sends_to T meth url body) (f x)" for h e f
    using rest[OF _ that] by (simp add: dv_emits_lift)
  show ?case
    unfolding tracker_attempts.simps by (rule dv_emits_then[OF dv_emits_await], rule outer, rule refresh)
qed (simp add: dv_emits_lift)

lemma send_emits: "dv_emits w 2 (sends_to T meth url body) (tracker_send T op meth url body expected)"
  using attempts_emit[of w "[0, 1]"] by (simp add: tracker_send_def numeral_2_eq_2)

text \<open>A call that returns a body has read it from an answer with the expected status to its last request.\<close>

lemma exchange_Inr:
  assumes "exchange rq w (n, log) = (Inr r, n', log')"
  shows "log' = log @ [Requested rq (Some (hs_status r))]"
  using assms by (auto simp: exchange_def dv_bind_Inr dv_ask_Inr dv_log_def split: option.splits sum.splits)

lemma accept_Inr:
  assumes "accept_response T op expected r w (n, log) = (Inr raw, n', log')"
  shows "log' = log"
  using assms by (auto simp: accept_response_def dv_bind_Inr dv_ask_Inr split: if_splits option.splits)

lemma await_Inr: "dv_await f w (n, log) = (Inr x, n', log') \<Longrightarrow> log' = log"
  by (auto simp: dv_await_def dv_bind_Inr dv_ask_Inr)

lemma attempts_Inr:
  assumes "tracker_attempts T op meth url body expected attempts w (n, log) = (Inr raw, n', log')"
  shows "\<exists>xs rq. log' = log @ xs @ [Requested rq (Some expected)] \<and> sends_to T meth url body (Requested rq (Some expected))"
  using assms
proof (induction attempts arbitrary: n log)
  case (Cons attempt attempts)
  let ?rq = "\<lambda>a. \<lparr>tq_method = meth, tq_url = url, tq_authorization = da_header a, tq_body = body\<rparr>"
  let ?rest = "\<lambda>a r. if hs_url r \<noteq> url then dv_fail (InvalidTrackerResponse op ''response URL changed'')
     else if hs_status r = 401 \<and> attempt = 0 then
       dv_bind (dv_log (RefreshedAuthorization (da_revision a))) (\<lambda>_.
       dv_bind (dv_await (\<lambda>w n. dw_refresh w n (da_revision a))) (\<lambda>_.
       tracker_attempts T op meth url body expected attempts))
     else if hs_status r \<noteq> expected then dv_fail (TrackerStatus op (hs_status r))
     else accept_response T op expected r"
  from Cons.prems[unfolded tracker_attempts.simps]
  obtain a n1 log1 where 1: "dv_await dw_authorization w (n, log) = (Inr a, n1, log1)" and
    2: "(if \<not> tracker_bearer_header T (da_header a) then dv_fail AuthenticationUnavailable
      else dv_bind (exchange (?rq a)) (?rest a)) w (n1, log1) = (Inr raw, n', log')"
    by (rule dv_bind_InrE)
  have log1: "log1 = log" using 1 by (rule await_Inr)
  have bearer: "\<not> \<not> tracker_bearer_header T (da_header a)"
  proof
    assume "\<not> tracker_bearer_header T (da_header a)"
    from 2[unfolded if_P[OF this]] show False by simp
  qed
  from 2[unfolded if_not_P[OF bearer]]
  obtain r n2 log2 where 3: "exchange (?rq a) w (n1, log1) = (Inr r, n2, log2)"
    and 4: "?rest a r w (n2, log2) = (Inr raw, n', log')"
    by (rule dv_bind_InrE)
  define rq where "rq = ?rq a"
  have a: "rq = ?rq a" "tracker_bearer_header T (da_header a)" using bearer by (simp_all add: rq_def)
  have rest: "?rest a r w (n2, log @ [Requested rq (Some (hs_status r))]) = (Inr raw, n', log')"
    using 4 exchange_Inr[OF 3] log1 by (simp only: rq_def)
  have url: "hs_url r = url" using rest by (auto split: if_splits)
  show ?case
  proof (cases "hs_status r = 401 \<and> attempt = 0")
    case True
    with rest url obtain n3 where "tracker_attempts T op meth url body expected attempts w
        (n3, log @ [Requested rq (Some (hs_status r)), RefreshedAuthorization (da_revision a)]) = (Inr raw, n', log')"
      by (auto simp: dv_bind_Inr dv_log_def dest!: await_Inr)
    from Cons.IH[OF this] show ?thesis by (metis append.assoc)
  next
    case False
    with rest url have "hs_status r = expected" "log' = log @ [Requested rq (Some (hs_status r))]"
      by (auto split: if_splits dest: accept_Inr)
    with a(1,2) show ?thesis
      by (intro exI[of _ "[]"] exI[of _ rq]) (simp add: sends_to_def)
  qed
qed simp

lemma send_Inr:
  assumes "tracker_send T op meth url body expected w (n, log) = (Inr raw, n', log')"
  shows "\<exists>xs rq. log' = log @ xs @ [Requested rq (Some expected)] \<and> sends_to T meth url body (Requested rq (Some expected))"
  using assms unfolding tracker_send_def by (rule attempts_Inr)

section \<open>Lookups\<close>

definition looks_up :: "'u tracker_codec \<Rightarrow> 'u \<Rightarrow> uuid \<Rightarrow> discovery_filters \<Rightarrow> 'u tracker_action \<Rightarrow> bool" where
  "looks_up T base domain filters a \<longleftrightarrow>
     (\<exists>cursor url. collection_endpoint T base domain filters cursor = Inr url \<and> sends_to T TrackerGet url None a)"

lemma dv_emits_lift_bind:
  assumes "\<And>x. r = Inr x \<Longrightarrow> dv_emits w k P (f x)"
  shows "dv_emits w k P (dv_bind (dv_lift r) f)"
proof (rule dv_emitsI)
  fix n log
  show "\<exists>new. snd (snd (dv_bind (dv_lift r) f w (n, log))) = log @ new \<and> list_all P new \<and> length (filter is_request new) \<le> k"
  proof (cases r)
    case (Inr x)
    obtain r2 n2 log2 where "f x w (n, log) = (r2, n2, log2)" by (metis prod_cases3)
    with assms[OF Inr] Inr show ?thesis by (auto simp: dv_bind_def dv_lift_def elim: dv_emitsE)
  qed (simp add: dv_bind_def dv_lift_def)
qed

lemma advertisements_emit: "dv_emits w 0 P (discover_advertisements T local_peer protocol identity wires found)"
  by (induction wires arbitrary: found) (auto intro!: dv_rules split: option.splits)

lemma page_emits:
  "dv_emits w 2 (looks_up T base domain filters) (discover_page T base domain local_peer protocol identity filters cursor found)"
proof -
  have "dv_emits w 2 (looks_up T base domain filters) (tracker_send T ''list'' TrackerGet url None 200)"
    if "collection_endpoint T base domain filters cursor = Inr url" for url
    using that by (intro dv_emits_mono[OF send_emits]) (auto simp: looks_up_def)
  then show ?thesis
    unfolding discover_page_def
    by (intro dv_emits_lift_bind dv_emits_bind0[of _ 2] dv_rules advertisements_emit) auto
qed

lemma pages_emit:
  "dv_emits w (2 * length pages) (looks_up T base domain filters)
     (discover_pages T base domain local_peer protocol identity filters pages cursors cursor found)"
proof (induction pages arbitrary: cursors cursor found)
  case (Cons p pages)
  have "dv_emits w (2 + 2 * length pages) (looks_up T base domain filters)
      (discover_pages T base domain local_peer protocol identity filters (p # pages) cursors cursor found)"
    unfolding discover_pages.simps
    by (rule dv_emits_bind[OF page_emits]) (auto intro!: dv_rules Cons.IH split: option.splits prod.splits)
  then show ?case by simp
qed (simp add: dv_emits_lift)

text \<open>A lookup is bounded, whatever the tracker answers. It sends at most two requests for each of at most
  a hundred pages; each is a GET without a body to the collection of the Domain, with the filters of
  the lookup and perhaps a cursor, and carries a bearer credential that is marked sensitive.\<close>

theorem lookup_requests_bounded:
  assumes "discover_filtered T base domain local_peer protocol identity w (n, log) = (r, n', log')"
  shows "\<exists>new. log' = log @ new \<and> length (filter is_request new) \<le> 2 * MAX_PAGES \<and>
    (\<forall>rq st. Requested rq st \<in> set new \<longrightarrow> tq_method rq = TrackerGet \<and> tq_body rq = None \<and>
      tracker_bearer_header T (tq_authorization rq) \<and>
      (\<exists>cursor. collection_endpoint T base domain (discovery_filters_new T protocol identity) cursor = Inr (tq_url rq)))"
proof -
  let ?F = "discovery_filters_new T protocol identity"
  have "dv_emits w (2 * MAX_PAGES) (looks_up T base domain ?F) (discover_filtered T base domain local_peer protocol identity)"
    unfolding discover_filtered_def
  proof (rule dv_emits_lift_bind)
    fix x
    assume "(case protocol of None \<Rightarrow> Inr None
      | Some p \<Rightarrow> and_then (validate_filter (tc_try_from_owned T) p) (\<lambda>p. Inr (Some p))) = Inr x"
    then have "x = protocol"
      by (auto simp: validate_filter_def and_then_eq_Inr split: option.splits if_splits)
    then show "dv_emits w (2 * MAX_PAGES) (looks_up T base domain ?F)
        (discover_pages T base domain local_peer x identity (discovery_filters_new T x identity) [0..<MAX_PAGES] [] None [])"
      using pages_emit[of w "[0..<MAX_PAGES]"] by simp
  qed
  from this assms obtain new where new: "log' = log @ new" "list_all (looks_up T base domain ?F) new"
    "length (filter is_request new) \<le> 2 * MAX_PAGES"
    by (rule dv_emitsE)
  have "looks_up T base domain ?F (Requested rq st)" if "Requested rq st \<in> set new" for rq st
    using new(2) that by (auto simp: list_all_iff)
  with new(1,3) show ?thesis
    by (intro exI[of _ new]) (fastforce simp: looks_up_def sends_to_def)
qed

section \<open>Candidates\<close>

definition candidate_ok :: "'u tracker_codec \<Rightarrow> discovery_candidate \<Rightarrow> bool" where
  "candidate_ok T c \<longleftrightarrow>
     dc_routes c \<noteq> [] \<and> length (dc_routes c) \<le> MAX_ROUTES \<and> sorted (map (ma_to_string (tc_addr T)) (dc_routes c)) \<and>
     distinct_adj (dc_routes c) \<and>
     (\<forall>r \<in> set (dc_routes c). \<exists>kind. canonical_candidate (dc_peer_id c) \<lparr>cand_route = r, cand_kind = kind\<rparr>) \<and>
     length (dc_served_protocols c) \<le> MAX_PROTOCOLS \<and> sorted (dc_served_protocols c) \<and> distinct (dc_served_protocols c) \<and>
     (\<forall>p \<in> set (dc_served_protocols c). valid_protocol_id (tc_try_from_owned T) p) \<and>
     (\<forall>v. dc_subject_id c = Some v \<longrightarrow> 1 \<le> length v \<and> length v \<le> P2P_TOKEN_MAX_SUBJECT_BYTES) \<and>
     dc_peer_type c \<noteq> Some []"

lemma sorted_map_remdups_adj: "sorted (map f xs) \<Longrightarrow> sorted (map f (remdups_adj xs))"
proof (induction xs rule: remdups_adj.induct)
  case (3 x y xs)
  then show ?case
    by (cases "x = y") (auto simp del: remdups_adj.simps simp: remdups_adj.simps(3))
qed simp_all

lemma sorted_unique_routes_props [simp]:
  "set (sorted_unique_routes C rs) = set rs" "sorted (map (ma_to_string C) (sorted_unique_routes C rs))"
  "distinct_adj (sorted_unique_routes C rs)" "length (sorted_unique_routes C rs) \<le> length rs"
  "sorted_unique_routes C rs = [] \<longleftrightarrow> rs = []"
proof -
  show "length (sorted_unique_routes C rs) \<le> length rs"
    using remdups_adj_length[of "sort_key (ma_to_string C) rs"] by (simp add: sorted_unique_routes_def)
  show "sorted_unique_routes C rs = [] \<longleftrightarrow> rs = []"
    by (metis length_0_conv length_sort remdups_adj_Nil_iff sorted_unique_routes_def)
qed (simp_all add: sorted_unique_routes_def sorted_map_remdups_adj distinct_adj_remdups_adj)

lemma tracker_routes_Inr:
  assumes "tracker_routes C peer routes op = Inr rs"
  shows "length routes \<le> MAX_ROUTES" "length rs \<le> MAX_ROUTES" "sorted (map (ma_to_string C) rs)" "distinct_adj rs"
    "\<And>r. r \<in> set rs \<Longrightarrow> \<exists>x c. x \<in> set routes \<and> canonicalize_candidate_route C x peer = Inr c \<and> cand_route c = r"
    "rs = [] \<longleftrightarrow> routes = []"
proof -
  let ?f = "\<lambda>route. if MAX_ROUTE_BYTES < ma_encoded_len C route then Inl (InvalidTrackerResponse op ''route is too large'')
    else map_err (\<lambda>_. InvalidTrackerResponse op ''route grammar is invalid'')
      (and_then (canonicalize_candidate_route C route peer) (\<lambda>c. Inr (cand_route c)))"
  obtain ys where ys': "rs = sorted_unique_routes C ys" "length routes \<le> MAX_ROUTES" "list_all2 (\<lambda>route r. ?f route = Inr r) routes ys"
    using assms by (auto simp: tracker_routes_def and_then_eq_Inr collect_results_Inr split: if_splits)
  have f: "\<exists>c. canonicalize_candidate_route C route peer = Inr c \<and> cand_route c = r" if "?f route = Inr r" for route r
    using that by (auto simp: and_then_eq_Inr map_err_eq_Inr split: if_splits)
  have "list_all2 (\<lambda>route r. \<exists>c. canonicalize_candidate_route C route peer = Inr c \<and> cand_route c = r) routes ys"
    using ys'(3) by (rule list_all2_mono) (rule f)
  note ys = ys'(1,2) this
  have len: "length ys = length routes" using ys(3) by (simp add: list_all2_lengthD)
  show "length routes \<le> MAX_ROUTES" by (rule ys(2))
  show "length rs \<le> MAX_ROUTES" using ys(1,2) len sorted_unique_routes_props(4)[of C ys] by simp
  show "\<exists>x c. x \<in> set routes \<and> canonicalize_candidate_route C x peer = Inr c \<and> cand_route c = r" if "r \<in> set rs" for r
    using that ys(1,3) by (fastforce simp: list_all2_conv_all_nth in_set_conv_nth)
  show "rs = [] \<longleftrightarrow> routes = []" using ys(1) len by (metis length_0_conv sorted_unique_routes_props(5))
qed (use assms in \<open>auto simp: tracker_routes_def and_then_eq_Inr split: if_splits\<close>)

lemma distinct_remdups_adj_sorted: "sorted xs \<Longrightarrow> distinct (remdups_adj xs)"
  by (induction xs rule: remdups_adj.induct) (auto simp: order.antisym)

lemma distinct_sorted_by:
  assumes "sorted (map f xs)" "distinct_adj xs" "inj_on f (set xs)"
  shows "distinct xs"
proof -
  have "distinct_adj (map f xs)"
    using assms(2,3) by (simp add: distinct_adj_map_iff)
  then have "remdups_adj (map f xs) = map f xs" by (simp add: distinct_adj_altdef)
  then show ?thesis
    using distinct_remdups_adj_sorted[OF assms(1)] by (simp add: distinct_map)
qed

lemma candidate_routes_distinct:
  "candidate_ok T c \<Longrightarrow> inj_on (ma_to_string (tc_addr T)) (set (dc_routes c)) \<Longrightarrow> distinct (dc_routes c)"
  by (rule distinct_sorted_by) (simp_all add: candidate_ok_def)

lemma canonicalize_protocols_Inr:
  assumes "canonicalize_protocols f ps op = Inr qs"
  shows "length qs \<le> MAX_PROTOCOLS" "sorted qs" "distinct qs" "\<And>q. q \<in> set qs \<Longrightarrow> valid_protocol_id f q" "set qs = set ps"
proof -
  have all: "list_all2 (\<lambda>p y. validate_protocol f p op = Inr y) ps ys \<Longrightarrow> ys = ps \<and> list_all (valid_protocol_id f) ps" for ys
    by (induction rule: list_all2_induct) (auto simp: validate_protocol_def split: if_splits)
  with assms have qs: "qs = remdups_adj (sort ps)" "list_all (valid_protocol_id f) ps" "length ps \<le> MAX_PROTOCOLS"
    by (auto simp: canonicalize_protocols_def and_then_eq_Inr collect_results_Inr split: if_splits)
  show "length qs \<le> MAX_PROTOCOLS"
    using remdups_adj_length[of "sort ps"] qs(1,3) by (metis length_sort order_trans)
  show "sorted qs" "distinct qs" "set qs = set ps"
    by (simp_all add: qs(1) sorted_remdups_adj distinct_remdups_adj_sorted)
  show "valid_protocol_id f q" if "q \<in> set qs" for q
    using that qs(1,2) by (simp add: list_all_iff)
qed

lemma validate_advertisement_Inr:
  assumes "validate_advertisement T op now wire = Inr (Some c)" "codec_ok (tc_addr T)"
  shows "candidate_ok T c \<and> now < dc_expires_at c"
proof -
  from assms(1) obtain peer parsed routes protocols where
    r: "tracker_routes (tc_addr T) peer parsed op = Inr routes" "routes \<noteq> []"
    and p: "canonicalize_protocols (tc_try_from_owned T) (wa_protocols wire) op = Inr protocols"
    and now: "now < wa_expires_at wire"
    and subject: "\<And>v. wa_subject_id wire = Some v \<Longrightarrow> v \<noteq> [] \<and> length v \<le> P2P_TOKEN_MAX_SUBJECT_BYTES"
    and c: "c = \<lparr>dc_peer_id = peer, dc_routes = routes, dc_served_protocols = protocols,
       dc_expires_at = wa_expires_at wire, dc_source = DdsTracker, dc_subject_id = wa_subject_id wire,
       dc_peer_type = filter_option (\<lambda>v. v \<noteq> []) (map_option trim (wa_peer_type wire))\<rparr>"
    by (auto simp: validate_advertisement_def and_then_eq_Inr split: if_splits option.splits)
  have "\<exists>kind. canonical_candidate peer \<lparr>cand_route = route, cand_kind = kind\<rparr>" if "route \<in> set routes" for route
  proof -
    from tracker_routes_Inr(5)[OF r(1) that] obtain x k where
      "canonicalize_candidate_route (tc_addr T) x peer = Inr k" "cand_route k = route" by blast
    moreover from this(2) have "k = \<lparr>cand_route = route, cand_kind = cand_kind k\<rparr>" by simp
    ultimately show ?thesis
      using canonicalize_candidate_route_sound[OF assms(2), of x peer k] by metis
  qed
  with tracker_routes_Inr(2-4)[OF r(1)] canonicalize_protocols_Inr[OF p] r(2) now subject show ?thesis
    by (auto simp: c candidate_ok_def Suc_le_eq)
qed

text \<open>What a lookup has found so far.\<close>

definition found_ok ::
  "'u tracker_codec \<Rightarrow> 'u discovery_world \<Rightarrow> peer_id \<Rightarrow> string option \<Rightarrow> auki_peer_identity option \<Rightarrow> found \<Rightarrow> bool"
where
  "found_ok T w local_peer protocol identity found \<longleftrightarrow> bt_ok found \<and> length found \<le> MAX_CANDIDATES \<and>
     (\<forall>(key, c) \<in> set found. key = peer_to_string (tc_addr T) (dc_peer_id c) \<and> candidate_ok T c \<and> dc_peer_id c \<noteq> local_peer \<and>
        (\<exists>n. dw_now w n < dc_expires_at c) \<and>
        (\<forall>p. protocol = Some p \<longrightarrow> p \<in> set (dc_served_protocols c)) \<and>
        (\<forall>i. identity = Some i \<longrightarrow> matches_candidate T i c))"

lemma advertisements_found:
  assumes "discover_advertisements T local_peer protocol identity wires found w s = (Inr found', s')" "codec_ok (tc_addr T)"
    "found_ok T w local_peer protocol identity found"
  shows "found_ok T w local_peer protocol identity found'"
  using assms(1,3)
proof (induction wires arbitrary: found s)
  case (Cons wire wires)
  from Cons.prems(1)[unfolded discover_advertisements.simps] obtain now s1 validated found1 s2 where
    now: "dv_ask dw_now w s = (Inr now, s1)" and v: "validate_advertisement T ''list'' now wire = Inr validated"
    and step: "(case validated of None \<Rightarrow> dv_return found
       | Some c \<Rightarrow> dv_lift (discover_candidate T local_peer protocol identity found c)) w s1 = (Inr found1, s2)"
    and rest: "discover_advertisements T local_peer protocol identity wires found1 w s2 = (Inr found', s')"
    by (auto simp: dv_bind_Inr)
  obtain n where n: "now = dw_now w n" using dv_ask_ex[OF now] by blast
  have "found_ok T w local_peer protocol identity found1"
  proof (cases validated)
    case (Some c)
    note c = validate_advertisement_Inr[OF v[unfolded Some] assms(2)]
    from step Some have "discover_candidate T local_peer protocol identity found c = Inr found1" by simp
    with c n Cons.prems(2) show ?thesis
      by (auto simp: found_ok_def discover_candidate_def Let_def bt_insert_ok bt.mem_ins split: if_splits option.splits)
  qed (use step Cons.prems(2) in simp)
  from Cons.IH[OF rest this] show ?case .
qed simp

lemma pages_found:
  assumes "discover_pages T base domain local_peer protocol identity filters pages cursors cursor found w s = (Inr cs, s')"
    "codec_ok (tc_addr T)" "found_ok T w local_peer protocol identity found"
  shows "\<exists>found. cs = map snd found \<and> found_ok T w local_peer protocol identity found"
  using assms(1,3)
proof (induction pages arbitrary: cursors cursor found s)
  case (Cons p pages)
  from Cons.prems(1)[unfolded discover_pages.simps] obtain found1 nxt s1 where
    page: "discover_page T base domain local_peer protocol identity filters cursor found w s = (Inr (found1, nxt), s1)"
    and rest: "(case nxt of None \<Rightarrow> dv_return (map snd found1)
     | Some next_cursor \<Rightarrow>
         if next_cursor = [] \<or> MAX_CURSOR_BYTES < length next_cursor \<or> next_cursor \<in> set cursors
         then dv_fail (InvalidTrackerResponse ''list'' ''invalid or repeated page cursor'')
         else discover_pages T base domain local_peer protocol identity filters pages (next_cursor # cursors)
           (Some next_cursor) found1) w s1 = (Inr cs, s')"
    by (auto simp: dv_bind_Inr)
  have found1: "found_ok T w local_peer protocol identity found1"
    using page Cons.prems(2) assms(2)
    by (auto simp: discover_page_def dv_bind_Inr split: if_splits intro: advertisements_found)
  show ?case
  proof (cases nxt)
    case None
    with rest found1 show ?thesis by auto
  next
    case (Some next_cursor)
    with rest have "discover_pages T base domain local_peer protocol identity filters pages (next_cursor # cursors)
        (Some next_cursor) found1 w s1 = (Inr cs, s')"
      by (auto split: if_splits)
    from Cons.IH[OF this found1] show ?thesis .
  qed
qed simp

lemma lookup_found_ok:
  assumes "discover_filtered T base domain local_peer protocol identity w s = (Inr cs, s')" "codec_ok (tc_addr T)"
  obtains found where "cs = map snd found" "found_ok T w local_peer protocol identity found"
proof -
  from assms(1) obtain x where x: "(case protocol of None \<Rightarrow> Inr None
      | Some p \<Rightarrow> and_then (validate_filter (tc_try_from_owned T) p) (\<lambda>p. Inr (Some p))) = Inr x"
    and pages: "discover_pages T base domain local_peer x identity (discovery_filters_new T x identity) [0..<MAX_PAGES] [] None [] w s = (Inr cs, s')"
    by (auto simp: discover_filtered_def dv_bind_Inr)
  have "x = protocol"
    using x by (auto simp: validate_filter_def and_then_eq_Inr split: option.splits if_splits)
  with pages_found[OF pages assms(2)] that show thesis
    by (auto simp: found_ok_def bt_ok_def)
qed

text \<open>C10: A lookup returns well-formed candidates only, whatever the tracker answers. There are at most ten
  thousand, in strictly increasing order of the text of their Peer IDs, never the local peer. Each has
  between one and 32 canonical routes to its own Peer ID, in the order of their texts and no two
  neighbours equal, so without repetition if different routes of the candidate have different texts; at
  most 64 valid protocol identifiers, sorted without repetition; a lease that had not run out at a
  reading of the clock; the requested protocol; and the requested identity.\<close>

theorem lookup_candidates_sound:
  assumes "discover_filtered T base domain local_peer protocol identity w s = (Inr cs, s')" "codec_ok (tc_addr T)"
  shows "length cs \<le> MAX_CANDIDATES \<and> sorted_wrt (<) (map (\<lambda>c. peer_to_string (tc_addr T) (dc_peer_id c)) cs) \<and>
    (\<forall>c \<in> set cs. candidate_ok T c \<and> dc_peer_id c \<noteq> local_peer \<and> (\<exists>n. dw_now w n < dc_expires_at c) \<and>
      (inj_on (ma_to_string (tc_addr T)) (set (dc_routes c)) \<longrightarrow> distinct (dc_routes c)) \<and>
      (\<forall>p. protocol = Some p \<longrightarrow> p \<in> set (dc_served_protocols c)) \<and>
      (\<forall>i. identity = Some i \<longrightarrow> matches_candidate T i c))"
proof -
  from assms obtain found where f: "cs = map snd found" "found_ok T w local_peer protocol identity found"
    by (rule lookup_found_ok)
  have keys: "map (\<lambda>c. peer_to_string (tc_addr T) (dc_peer_id c)) cs = map fst found"
    using f by (auto simp: found_ok_def)
  show ?thesis
    unfolding keys using f by (auto simp: found_ok_def bt_ok_def intro!: candidate_routes_distinct)
qed

section \<open>Advertisements\<close>

text \<open>
  The requests of a publisher: withdrawals, and publications of the canonical form of one of the given
  lists of routes, with the canonical form of one of the given lists of protocols.
\<close>

definition advertises ::
  "'u tracker_codec \<Rightarrow> 'u \<Rightarrow> uuid \<Rightarrow> peer_id \<Rightarrow> multiaddr list set \<Rightarrow> string list set \<Rightarrow> 'u tracker_action \<Rightarrow> bool"
where
  "advertises T base domain peer R S a \<longleftrightarrow> (case a of
       Requested rq _ \<Rightarrow> self_endpoint T base domain = Inr (tq_url rq) \<and> tracker_bearer_header T (tq_authorization rq) \<and>
         (tq_method rq = TrackerDelete \<and> tq_body rq = None \<or>
          tq_method rq = TrackerPut \<and> (\<exists>rs \<in> R. \<exists>ps \<in> S. \<exists>routes protocols body.
            tracker_routes (tc_addr T) peer rs ''publish'' = Inr routes \<and> routes \<noteq> [] \<and>
            canonicalize_protocols (tc_try_from_owned T) ps ''publish'' = Inr protocols \<and>
            tc_json_publish T (map (ma_to_string (tc_addr T)) routes) protocols = Some body \<and>
            length body \<le> DDS_MAX_REQUEST_BYTES \<and> tq_body rq = Some body))
     | _ \<Rightarrow> True)"

lemma publish_emits:
  assumes "rs \<in> R" "ps \<in> S"
  shows "dv_emits w 2 (advertises T base domain peer R S) (tracker_publish T base domain peer rs ps)"
proof -
  have send: "dv_emits w 2 (advertises T base domain peer R S) (tracker_send T ''publish'' TrackerPut url (Some body) 200)"
    if "tracker_routes (tc_addr T) peer rs ''publish'' = Inr routes" "routes \<noteq> []"
      "canonicalize_protocols (tc_try_from_owned T) ps ''publish'' = Inr protocols"
      "ok_or e (tc_json_publish T (map (ma_to_string (tc_addr T)) routes) protocols) = Inr body"
      "\<not> DDS_MAX_REQUEST_BYTES < length body" "self_endpoint T base domain = Inr url" for routes protocols body url e
  proof (rule dv_emits_mono[OF send_emits])
    fix a :: "'a tracker_action"
    assume "sends_to T TrackerPut url (Some body) a"
    with that assms show "advertises T base domain peer R S a"
      by (auto simp: advertises_def sends_to_def ok_or_eq_Inr split: tracker_action.splits)
  qed simp
  have guard: "dv_emits w k P (if c then dv_fail e else f)" if "\<not> c \<Longrightarrow> dv_emits w k P f" for k P c e and f :: "('a, discovery_candidate) discovery_act"
    using that by (simp add: dv_emits_lift)
  show ?thesis
    unfolding tracker_publish_def
    by (intro dv_emits_lift_bind guard dv_emits_bind0[of _ 2] send dv_rules) assumption+
qed

lemma withdraw_emits: "dv_emits w 2 (advertises T base domain peer R S) (tracker_withdraw T base domain)"
proof -
  have "dv_emits w 2 (advertises T base domain peer R S) (tracker_send T ''withdraw'' TrackerDelete url None 204)"
    if "self_endpoint T base domain = Inr url" for url
    using that by (intro dv_emits_mono[OF send_emits]) (auto simp: advertises_def sends_to_def split: tracker_action.splits)
  then show ?thesis
    unfolding tracker_withdraw_def by (intro dv_emits_lift_bind dv_emits_bind0[of _ 2] dv_rules)
qed

lemma attempts_publish_emits:
  assumes "rs \<in> R" "ps \<in> S"
  shows "dv_emits w (2 * length attempts) (advertises T base domain peer R S)
    (publish_attempts T base domain peer rs ps cancelable delay attempts)"
proof (induction attempts arbitrary: delay)
  case (Cons attempt attempts)
  have log: "dv_emits w 0 (advertises T base domain peer R S) (dv_log (Slept d))" for d
    by (rule dv_emits_log) (simp_all add: advertises_def)
  have "dv_emits w (2 + 2 * length attempts) (advertises T base domain peer R S)
      (publish_attempts T base domain peer rs ps cancelable delay (attempt # attempts))"
    unfolding publish_attempts.simps
    by (rule dv_emits_bind[OF dv_emits_catch[OF publish_emits[OF assms]]])
      (auto intro!: dv_rules log Cons.IH split: sum.splits)
  then show ?case by simp
qed (simp add: dv_emits_lift)

lemma retry_emits:
  "rs \<in> R \<Longrightarrow> ps \<in> S \<Longrightarrow>
    dv_emits w 6 (advertises T base domain peer R S) (publish_with_retry T base domain peer rs ps cancelable)"
  using attempts_publish_emits[of rs R ps S w "[0, 1, 2]"] by (simp add: publish_with_retry_def)

text \<open>A question whose answer is known.\<close>

lemma dv_emits_ask_bind:
  assumes "\<And>n. dv_emits w k P (f (g w n))"
  shows "dv_emits w k P (dv_bind (dv_ask g) f)"
proof (rule dv_emitsI)
  fix n log
  obtain r n2 log2 where "f (g w n) w (n + 1, log) = (r, n2, log2)" by (metis prod_cases3)
  with assms[of n] show "\<exists>new. snd (snd (dv_bind (dv_ask g) f w (n, log))) = log @ new \<and> list_all P new \<and> length (filter is_request new) \<le> k"
    by (auto simp: dv_bind_def dv_ask_def elim: dv_emitsE)
qed

definition catalog_routes :: "addr_codec \<Rightarrow> 'u discovery_world \<Rightarrow> multiaddr list set" where
  "catalog_routes C w = {rs. \<exists>n. native_routes C (dw_routes w n) = Inr rs}"

lemma native_update_emits:
  "dv_emits w 6 (advertises T base domain peer (catalog_routes (tc_addr T) w) (range (dw_protocols w)))
     (native_update T base domain peer)"
proof -
  have "dv_emits w 6 (advertises T base domain peer (catalog_routes (tc_addr T) w) (range (dw_protocols w)))
      (case native_routes (tc_addr T) (dw_routes w n) of Inl _ \<Rightarrow> dv_return False
       | Inr routes \<Rightarrow>
         if routes = [] then dv_bind (dv_catch (tracker_withdraw T base domain)) (\<lambda>_. dv_return False) else
         dv_bind (dv_ask dw_protocols) (\<lambda>protocols.
         dv_bind (dv_catch (publish_with_retry T base domain peer routes protocols True)) (\<lambda>r.
         case r of Inr _ \<Rightarrow> dv_return False | Inl _ \<Rightarrow> dv_ask dw_canceled)))" for n
  proof (cases "native_routes (tc_addr T) (dw_routes w n)")
    case (Inr routes)
    then have "routes \<in> catalog_routes (tc_addr T) w" by (auto simp: catalog_routes_def)
    then show ?thesis
      unfolding Inr sum.case
      by (intro dv_emits_If dv_emits_ask_bind dv_emits_bind0[of _ 6] dv_emits_catch retry_emits rangeI dv_emits_lift
          dv_emits_mono[OF withdraw_emits, of 6]) (auto intro!: dv_rules split: sum.splits)
  qed (simp add: dv_emits_lift)
  then show ?thesis unfolding native_update_def by (rule dv_emits_ask_bind)
qed

lemma maintain_native_emits:
  "dv_emits w (6 * length turns + 2) (advertises T base domain peer (catalog_routes (tc_addr T) w) (range (dw_protocols w)))
     (maintain_native T base domain peer turns)"
proof (induction turns)
  case (Cons turn turns)
  have "dv_emits w (6 + (6 * length turns + 2)) (advertises T base domain peer (catalog_routes (tc_addr T) w) (range (dw_protocols w)))
      (maintain_native T base domain peer (turn # turns))"
    unfolding maintain_native.simps
    by (intro dv_emits_bind dv_emits_If dv_emits_lift native_update_emits Cons.IH dv_emits_bind0
        dv_emits_catch dv_emits_mono[OF withdraw_emits, of "6 * length turns + 2"]) auto
  then show ?case by simp
qed (simp add: dv_emits_lift)

lemma native_start_emits:
  "dv_emits w 8 (advertises T base domain peer (catalog_routes (tc_addr T) w) (range (dw_protocols w)))
     (native_publisher_start T base domain peer)"
proof -
  let ?P = "advertises T base domain peer (catalog_routes (tc_addr T) w) (range (dw_protocols w))"
  have "dv_emits w (6 + 2) ?P (dv_bind (dv_catch (publish_with_retry T base domain peer rs (dw_protocols w m) False)) (\<lambda>r.
      case r of Inr _ \<Rightarrow> dv_return () | Inl e \<Rightarrow> dv_bind (dv_catch (tracker_withdraw T base domain)) (\<lambda>_. dv_fail e)))"
    if "native_routes (tc_addr T) (dw_routes w n) = Inr rs" for n m rs
    using that
    by (intro dv_emits_bind dv_emits_catch retry_emits)
      (auto simp: catalog_routes_def intro!: dv_emits_lift dv_emits_bind0 dv_emits_catch withdraw_emits split: sum.splits)
  then show ?thesis
    unfolding native_publisher_start_def by (intro dv_emits_ask_bind dv_emits_lift_bind) simp
qed

lemma withdraw_Inr:
  assumes "tracker_withdraw T base domain w (n, log) = (Inr (), n', log')"
  shows "\<exists>xs rq. log' = log @ xs @ [Requested rq (Some 204)] \<and> tq_method rq = TrackerDelete"
proof -
  let ?send = "\<lambda>url. tracker_send T ''withdraw'' TrackerDelete url None 204"
  from assms obtain url where "dv_bind (?send url) (\<lambda>raw.
      if raw \<noteq> [] then dv_fail (InvalidTrackerResponse ''withdraw'' ''204 response must not contain a body'')
      else dv_return ()) w (n, log) = (Inr (), n', log')"
    by (cases "self_endpoint T base domain") (auto simp: tracker_withdraw_def dv_bind_def dv_lift_def)
  then obtain raw where "?send url w (n, log) = (Inr raw, n', log')"
    by (rule dv_bind_InrE) (auto simp: dv_lift_def split: if_splits)
  from send_Inr[OF this] show ?thesis by (auto simp: sends_to_def)
qed

lemma maintain_native_ends:
  assumes "maintain_native T base domain peer turns w (n, log) = (r, n', log')"
  shows "(r = Inr (Some (Inr ())) \<longrightarrow> (\<exists>xs rq. log' = log @ xs @ [Requested rq (Some 204)] \<and> tq_method rq = TrackerDelete)) \<and>
    (list_ex ends_publisher turns \<longrightarrow> r \<noteq> Inr None)"
  using assms
proof (induction turns arbitrary: n log)
  case (Cons turn turns)
  let ?first = "if ends_publisher turn then dv_return True else native_update T base domain peer"
  obtain q n1 log1 where first: "?first w (n, log) = (q, n1, log1)" by (metis prod_cases3)
  have "dv_emits w 6 (advertises T base domain peer (catalog_routes (tc_addr T) w) (range (dw_protocols w))) ?first"
    by (intro dv_emits_If dv_emits_lift native_update_emits)
  from dv_emitsE[OF this first] obtain new1 where log1: "log1 = log @ new1" by metis
  show ?case
  proof (cases q)
    case (Inl e)
    with Cons.prems first show ?thesis by (auto simp: dv_bind_def)
  next
    case (Inr ends)
    show ?thesis
    proof (cases ends)
      case True
      obtain wr n2 log2 where wd: "tracker_withdraw T base domain w (n1, log1) = (wr, n2, log2)" by (metis prod_cases3)
      with Cons.prems first Inr True have "r = Inr (Some wr)" "log' = log2"
        by (auto simp: dv_bind_def dv_catch_def dv_lift_def)
      with withdraw_Inr[of T base domain w n1 log1 n2 log2] wd log1 show ?thesis by fastforce
    next
      case False
      with first Inr have "\<not> ends_publisher turn" by (auto split: if_splits)
      moreover from Cons.prems first Inr False have "maintain_native T base domain peer turns w (n1, log1) = (r, n', log')"
        by (auto simp: dv_bind_def)
      from Cons.IH[OF this] log1 have "(r = Inr (Some (Inr ())) \<longrightarrow> (\<exists>xs rq. log' = log @ xs @ [Requested rq (Some 204)] \<and> tq_method rq = TrackerDelete)) \<and>
        (list_ex ends_publisher turns \<longrightarrow> r \<noteq> Inr None)"
        by (metis append.assoc)
      ultimately show ?thesis by simp
    qed
  qed
qed auto

text \<open>C35: A native publisher sends only requests about its own advertisement, and ends by withdrawing it. Over
  its whole life, whatever the tracker answers, each request goes to the own entry of the Domain with a
  bearer credential that is marked sensitive; it withdraws, or it publishes the canonical form of the
  routes the catalog had at some moment with the protocols served at some moment. At most eight requests
  start the publisher, at most six follow an event, and two end it. A publisher that reports a clean end has
  sent as its last request a DELETE that was answered 204; and an event that ends it does end it.\<close>

theorem native_publisher_honest:
  assumes "native_publisher T base domain peer turns w (n, log) = (r, n', log')"
  shows "\<exists>new. log' = log @ new \<and> length (filter is_request new) \<le> 8 + (6 * length turns + 2) \<and>
    (\<forall>a \<in> set new. advertises T base domain peer
       {rs. \<exists>m. native_routes (tc_addr T) (dw_routes w m) = Inr rs} (range (dw_protocols w)) a) \<and>
    (r = Inr (Some (Inr ())) \<longrightarrow> new \<noteq> [] \<and> (\<exists>rq. last new = Requested rq (Some 204) \<and> tq_method rq = TrackerDelete)) \<and>
    (list_ex ends_publisher turns \<longrightarrow> r \<noteq> Inr None)"
proof -
  let ?P = "advertises T base domain peer {rs. \<exists>m. native_routes (tc_addr T) (dw_routes w m) = Inr rs} (range (dw_protocols w))"
  obtain q n1 log1 where start: "native_publisher_start T base domain peer w (n, log) = (q, n1, log1)" by (metis prod_cases3)
  from dv_emitsE[OF native_start_emits start] obtain new1 where
    new1: "log1 = log @ new1" "list_all ?P new1" "length (filter is_request new1) \<le> 8"
    unfolding catalog_routes_def by metis
  show ?thesis
  proof (cases q)
    case (Inl e)
    with assms start have "r = Inl e" "log' = log1" by (auto simp: native_publisher_def dv_bind_def)
    with new1 show ?thesis by (auto simp: list_all_iff)
  next
    case (Inr u)
    with assms start have rest: "maintain_native T base domain peer turns w (n1, log1) = (r, n', log')"
      by (auto simp: native_publisher_def dv_bind_def)
    from dv_emitsE[OF maintain_native_emits rest] obtain new2 where
      new2: "log' = log1 @ new2" "list_all ?P new2" "length (filter is_request new2) \<le> 6 * length turns + 2"
      unfolding catalog_routes_def by metis
    note ends = maintain_native_ends[OF rest]
    have "new1 @ new2 \<noteq> [] \<and> (\<exists>rq. last (new1 @ new2) = Requested rq (Some 204) \<and> tq_method rq = TrackerDelete)"
      if "r = Inr (Some (Inr ()))"
    proof -
      from ends that new2(1) obtain xs rq where "new2 = xs @ [Requested rq (Some 204)]" "tq_method rq = TrackerDelete" by auto
      then show ?thesis by simp
    qed
    with new1 new2 ends show ?thesis
      by (intro exI[of _ "new1 @ new2"]) (auto simp: list_all_iff)
  qed
qed

section \<open>A concrete tracker\<close>

text \<open>URLs as their segments, query pairs included; one advertisement on one page; every answer in time.\<close>

definition tracker_wire :: wire_advertisement where
  "tracker_wire = \<lparr>wa_peer_id = ''082'', wa_routes = [''/dns4/r.io/tcp/443/p2p/082''], wa_protocols = [''/x/1''],
     wa_expires_at = 100, wa_subject_id = None, wa_peer_type = None\<rparr>"

definition tracker_of :: "wire_advertisement \<Rightarrow> string list tracker_codec" where
  "tracker_of wire = \<lparr>tc_addr = ref_codec, tc_uuid_to_string = (\<lambda>_. ''7''), tc_hv_to_str = (\<lambda>v. Some (hv_bytes v)),
     tc_try_from_owned = slash_protocol, tc_json_publish = (\<lambda>_ _. Some ''put''),
     tc_json_advertisement = (\<lambda>_. Some wire),
     tc_json_list = (\<lambda>_. Some \<lparr>lr_advertisements = [wire], lr_next_cursor = None, lr_applied_filters = None\<rparr>),
     tc_extend = (\<lambda>u segments. Some (u @ segments)), tc_has_query = (\<lambda>_. False), tc_has_fragment = (\<lambda>_. False),
     tc_append_pairs = (\<lambda>pairs u. u @ concat (map (\<lambda>(k, v). [k, v]) pairs))\<rparr>"

abbreviation sample_tracker :: "string list tracker_codec" where
  "sample_tracker \<equiv> tracker_of tracker_wire"

definition tracker_bearer :: header_value where
  "tracker_bearer = \<lparr>hv_bytes = ''Bearer t'', hv_sensitive = True\<rparr>"

definition tracker_world :: "string list discovery_world" where
  "tracker_world =
     \<lparr>dw_authorization = (\<lambda>_. Some (Inr \<lparr>da_header = tracker_bearer, da_revision = 1\<rparr>)),
      dw_send = (\<lambda>_ rq. Some (Inr \<lparr>hs_url = tq_url rq, hs_status = (if tq_method rq = TrackerDelete then 204 else 200),
        hs_headers = [header ''cache-control'' ''no-store'', header ''content-type'' ''application/json''],
        hs_content_length = None, hs_chunks = []\<rparr>)),
      dw_refresh = (\<lambda>_ _. Some (Inr ())), dw_body_in_time = (\<lambda>_. True), dw_now = (\<lambda>_. 10), dw_canceled = (\<lambda>_. False),
      dw_routes = (\<lambda>_. Inr \<lparr>rs_revision = 1, rs_direct_routes = [[Dns4 ''r.io'', Tcp 443]], rs_relay_routes = []\<rparr>),
      dw_protocols = (\<lambda>_. [''/x/1''])\<rparr>"

lemmas tracker_sample_defs = tracker_wire_def tracker_of_def tracker_bearer_def tracker_world_def header_def sample_relay_def

lemma tracker_sample_ascii:
  "trim ''no-store'' = ''no-store''" "trim ''application/json'' = ''application/json''"
  "eq_ignore_ascii_case ''no-store'' ''no-store''" "eq_ignore_ascii_case ''application/json'' ''application/json''"
  by (simp_all add: eq_ignore_ascii_case_def trim_graphic ascii_defs char_eval)

lemma sample_tracker_send:
  assumes "expected = (if meth = TrackerDelete then 204 else 200)"
  shows "tracker_send (tracker_of wire) op meth url body expected tracker_world (n, log) =
    (Inr [], n + 3, log @ [Requested \<lparr>tq_method = meth, tq_url = url, tq_authorization = tracker_bearer, tq_body = body\<rparr> (Some expected)])"
  using assms
  by (auto simp: tracker_send_def dv_bind_def dv_await_def dv_ask_def dv_lift_def dv_log_def exchange_def accept_response_def
      response_is_non_cacheable_def response_is_json_def get_all_def tracker_bearer_header_def tracker_sample_defs
      tracker_sample_ascii List.map_filter_def)

definition tracker_candidate :: discovery_candidate where
  "tracker_candidate = \<lparr>dc_peer_id = sample_relay, dc_routes = [[Dns4 ''r.io'', Tcp 443]], dc_served_protocols = [''/x/1''],
     dc_expires_at = 100, dc_source = DdsTracker, dc_subject_id = None, dc_peer_type = None\<rparr>"

lemma sample_tracker_routes:
  assumes "route = [Dns4 ''r.io'', Tcp 443] \<or> route = [Dns4 ''r.io'', Tcp 443, P2p sample_relay]"
  shows "tracker_routes ref_codec sample_relay [route] op = Inr [[Dns4 ''r.io'', Tcp 443]]"
  using assms
  by (auto simp: tracker_routes_def canonicalize_candidate_route_def canonicalize_direct_route_def direct_parts_def
      canonical_dns_host_def strip_suffix_char_def to_ascii_lowercase_def ascii_lower_def ascii_defs Let_def discovery_limits
      CANDIDATE_ROUTE_MAX_BYTES_def sample_relay_def ref_codec_eval sorted_unique_routes_def and_then_def)

lemma sample_tracker_protocol: "valid_protocol_id slash_protocol ''/x/1''"
  by (simp add: valid_protocol_id_code application_protocol_new_def
      slash_protocol_def discovery_limits APPLICATION_PROTOCOL_MAX_BYTES_def product_application_def is_application_component_def
      is_version_component_def APPLICATION_COMPONENT_MAX_BYTES_def VERSION_COMPONENT_MAX_BYTES_def strip_v_def ascii_defs Let_def)

lemma sample_tracker_protocols: "canonicalize_protocols slash_protocol [''/x/1''] op = Inr [''/x/1'']"
  by (simp add: canonicalize_protocols_def validate_protocol_def sample_tracker_protocol discovery_limits)

lemma sample_tracker_validated:
  "validate_advertisement sample_tracker op 10 tracker_wire = Inr (Some tracker_candidate)"
proof -
  have "peer_from_str ref_codec ''082'' = Some sample_relay"
    "ma_from_str ref_codec ''/dns4/r.io/tcp/443/p2p/082'' = Some [Dns4 ''r.io'', Tcp 443, P2p sample_relay]"
    by (simp_all add: ref_codec_eval sample_relay_def)
  then show ?thesis
    by (simp add: validate_advertisement_def tracker_of_def tracker_wire_def sample_tracker_routes sample_tracker_protocols
        discovery_limits CANDIDATE_ROUTE_MAX_BYTES_def tracker_candidate_def filter_option_def)
qed

lemma lookup_of:
  assumes "validate_advertisement (tracker_of wire) ''list'' 10 wire = Inr (Some c)" "dc_peer_id c = sample_relay"
    "dc_served_protocols c = [''/x/1'']"
  shows "discover_filtered (tracker_of wire) [] 7 sample_target (Some ''/x/1'') None tracker_world (0, []) =
    (Inr [c], 4, [Requested \<lparr>tq_method = TrackerGet,
       tq_url = [''api'', ''v1'', ''domains'', ''7'', ''p2p'', ''advertisements'', ''limit'', ''100'', ''protocol'', ''/x/1''],
       tq_authorization = tracker_bearer, tq_body = None\<rparr> (Some 200)])"
proof -
  have pages: "[0..<MAX_PAGES] = 0 # [1..<MAX_PAGES]" by (simp add: discovery_limits upt_conv_Cons)
  have filter: "validate_filter slash_protocol ''/x/1'' = Inr ''/x/1''"
    by (simp add: validate_filter_def sample_tracker_protocol)
  have endpoint: "collection_endpoint (tracker_of wire) [] 7 (discovery_filters_new (tracker_of wire) (Some ''/x/1'') None) None =
      Inr [''api'', ''v1'', ''domains'', ''7'', ''p2p'', ''advertisements'', ''limit'', ''100'', ''protocol'', ''/x/1'']"
    by (simp add: collection_endpoint_def tracker_endpoint_def filter_pairs_def discovery_filters_new_def tracker_of_def
        PAGE_LIMIT_def dec_eval and_then_def)
  have page: "tracker_json (tc_json_list (tracker_of wire)) ''list'' raw =
      Inr \<lparr>lr_advertisements = [wire], lr_next_cursor = None, lr_applied_filters = None\<rparr>" for raw
    by (simp add: tracker_json_def tracker_of_def)
  have inserted: "discover_candidate (tracker_of wire) sample_target (Some ''/x/1'') None [] c = Inr [(''082'', c)]"
    using assms(2,3) by (simp add: discover_candidate_def tracker_of_def ref_codec_eval sample_relay_def sample_target_def discovery_limits)
  have now: "dw_now tracker_world n = 10" for n by (simp add: tracker_world_def)
  have codec: "tc_try_from_owned (tracker_of wire) = slash_protocol" by (simp add: tracker_of_def)
  show ?thesis
    by (simp add: discover_filtered_def codec filter pages discover_page_def endpoint page sample_tracker_send inserted now
        assms(1) dv_bind_def dv_lift_def dv_ask_def PAGE_LIMIT_def)
qed

lemmas sample_lookup = lookup_of[OF sample_tracker_validated, unfolded tracker_candidate_def,
    simplified, folded tracker_candidate_def]

theorem lookup_requests_bounded_witness:
  "\<exists>new. [Requested \<lparr>tq_method = TrackerGet,
       tq_url = [''api'', ''v1'', ''domains'', ''7'', ''p2p'', ''advertisements'', ''limit'', ''100'', ''protocol'', ''/x/1''],
       tq_authorization = tracker_bearer, tq_body = None\<rparr> (Some 200)] = [] @ new \<and>
    length (filter is_request new) \<le> 2 * MAX_PAGES"
  using lookup_requests_bounded[OF sample_lookup] by auto

theorem lookup_candidates_sound_witness:
  "candidate_ok sample_tracker tracker_candidate \<and> distinct (dc_routes tracker_candidate) \<and>
    dc_peer_id tracker_candidate \<noteq> sample_target \<and> ''/x/1'' \<in> set (dc_served_protocols tracker_candidate)"
proof -
  have "codec_ok (tc_addr sample_tracker)" using ref_codec_ok by (simp add: tracker_of_def)
  from lookup_candidates_sound[OF sample_lookup this] show ?thesis
    by (auto simp: sample_relay_def sample_target_def tracker_candidate_def)
qed

lemma tracker_sample_publish:
  "tracker_publish sample_tracker [] 7 sample_relay [[Dns4 ''r.io'', Tcp 443]] [''/x/1''] tracker_world (n, log) =
    (Inr tracker_candidate, n + 4, log @ [Requested \<lparr>tq_method = TrackerPut,
      tq_url = [''api'', ''v1'', ''domains'', ''7'', ''p2p'', ''advertisements'', ''self''],
      tq_authorization = tracker_bearer, tq_body = Some ''put''\<rparr> (Some 200)])"
proof -
  have codec: "tc_try_from_owned sample_tracker = slash_protocol" "tc_addr sample_tracker = ref_codec"
    "tc_json_publish sample_tracker = (\<lambda>_ _. Some ''put'')" "tc_json_advertisement sample_tracker = (\<lambda>_. Some tracker_wire)"
    by (simp_all add: tracker_of_def)
  have endpoint: "self_endpoint sample_tracker [] 7 = Inr [''api'', ''v1'', ''domains'', ''7'', ''p2p'', ''advertisements'', ''self'']"
    by (simp add: self_endpoint_def tracker_endpoint_def tracker_of_def)
  have now: "dw_now tracker_world n = 10" for n by (simp add: tracker_world_def)
  show ?thesis
    by (simp add: tracker_publish_def codec endpoint now sample_tracker_routes sample_tracker_protocols sample_tracker_send
        sample_tracker_validated tracker_json_def dv_bind_def dv_lift_def dv_ask_def discovery_limits tracker_candidate_def)
qed

lemma tracker_sample_withdraw:
  "tracker_withdraw sample_tracker [] 7 tracker_world (n, log) =
    (Inr (), n + 3, log @ [Requested \<lparr>tq_method = TrackerDelete,
      tq_url = [''api'', ''v1'', ''domains'', ''7'', ''p2p'', ''advertisements'', ''self''],
      tq_authorization = tracker_bearer, tq_body = None\<rparr> (Some 204)])"
proof -
  have "self_endpoint sample_tracker [] 7 = Inr [''api'', ''v1'', ''domains'', ''7'', ''p2p'', ''advertisements'', ''self'']"
    by (simp add: self_endpoint_def tracker_endpoint_def tracker_of_def)
  then show ?thesis by (simp add: tracker_withdraw_def sample_tracker_send dv_bind_def dv_lift_def)
qed

theorem native_publisher_honest_witness:
  "\<exists>n' log'. native_publisher sample_tracker [] 7 sample_relay [RenewalTurn, CancelTurn] tracker_world (0, []) = (Inr (Some (Inr ())), n', log') \<and>
    length (filter is_request log') \<le> 22 \<and> log' \<noteq> [] \<and>
    (\<exists>rq. last log' = Requested rq (Some 204) \<and> tq_method rq = TrackerDelete)"
proof -
  have world: "native_routes (tc_addr sample_tracker) (dw_routes tracker_world n) = Inr [[Dns4 ''r.io'', Tcp 443]]"
    "dw_protocols tracker_world n = [''/x/1'']" "dw_canceled tracker_world n = False" for n
    by (simp_all add: native_routes_def tracker_world_def sorted_unique_routes_def)
  obtain n' log' where run: "native_publisher sample_tracker [] 7 sample_relay [RenewalTurn, CancelTurn] tracker_world (0, []) =
      (Inr (Some (Inr ())), n', log')"
    by (simp add: native_publisher_def native_publisher_start_def native_update_def world publish_with_retry_def
        tracker_sample_publish tracker_sample_withdraw dv_bind_def dv_lift_def dv_ask_def dv_catch_def ends_publisher_def)
  from native_publisher_honest[OF this] run show ?thesis by auto
qed

end
