(* ===== verification/Targeted_Stream.thy ===== *)
theory Targeted_Stream
  imports P2p_Error "HOL-Library.Multiset"
begin

text \<open>
  Streams on a chosen connection (\<open>core/auki-p2p/src/targeted_stream.rs\<close>): the control that numbers and
  queues the requests, the behaviour that matches each answer of a connection with its request, the
  handler of a connection, and the progress record by which a stalled relay connection is retired.

  An answer goes into the one-shot channel of its request, named by a number. A failed debug assertion is
  \<open>None\<close>. A stream of libp2p is known by the connection and the protocol it was negotiated for.
\<close>

section \<open>Progress of a relay connection\<close>

definition COMMAND_CAPACITY :: nat where "COMMAND_CAPACITY = 64"
definition RELAY_TIMEOUT_THRESHOLD :: "8 word" where "RELAY_TIMEOUT_THRESHOLD = 3"
definition RELAY_TIMEOUT_WINDOW :: int where "RELAY_TIMEOUT_WINDOW = 20 * 10 ^ 9"
definition RELAY_TIMEOUT_IDLE_RESET :: int where "RELAY_TIMEOUT_IDLE_RESET = 60 * 10 ^ 9"

lemmas targeted_limits = COMMAND_CAPACITY_def RELAY_TIMEOUT_THRESHOLD_def RELAY_TIMEOUT_WINDOW_def RELAY_TIMEOUT_IDLE_RESET_def

record relay_progress =
  rg_last_success :: "instant option"
  rg_first_timeout :: "instant option"
  rg_last_timeout :: "instant option"
  rg_timeouts :: "8 word"
  rg_closing :: bool

definition relay_progress_default :: relay_progress where
  "relay_progress_default = \<lparr>rg_last_success = None, rg_first_timeout = None, rg_last_timeout = None, rg_timeouts = 0, rg_closing = False\<rparr>"

definition progress_succeeded :: "instant \<Rightarrow> relay_progress \<Rightarrow> relay_progress" where
  "progress_succeeded now p = p\<lparr>rg_last_success := Some now, rg_first_timeout := None, rg_last_timeout := None, rg_timeouts := 0\<rparr>"

text \<open>\<open>Instant::duration_since\<close> is zero for a later argument.\<close>

definition duration_since :: "instant \<Rightarrow> instant \<Rightarrow> int" where
  "duration_since now earlier = max 0 (now - earlier)"

definition saturating_succ :: "'a::len word \<Rightarrow> 'a word" where
  "saturating_succ a = (if a = - 1 then a else a + 1)"

definition progress_timed_out :: "instant \<Rightarrow> instant \<Rightarrow> relay_progress \<Rightarrow> bool \<times> relay_progress" where
  "progress_timed_out started now p =
     (if rg_closing p \<or> (case rg_last_success p of None \<Rightarrow> False | Some success \<Rightarrow> started \<le> success) then (False, p)
      else
        let p1 = (if (case rg_last_timeout p of None \<Rightarrow> False | Some l \<Rightarrow> RELAY_TIMEOUT_IDLE_RESET < duration_since now l)
              then p\<lparr>rg_first_timeout := None, rg_timeouts := 0\<rparr> else p);
            p2 = p1\<lparr>rg_last_timeout := Some now, rg_timeouts := saturating_succ (rg_timeouts p1)\<rparr>;
            first = (case rg_first_timeout p2 of None \<Rightarrow> now | Some t \<Rightarrow> t);
            p3 = p2\<lparr>rg_first_timeout := Some first\<rparr>
        in if RELAY_TIMEOUT_THRESHOLD \<le> rg_timeouts p3 \<and> RELAY_TIMEOUT_WINDOW \<le> duration_since now first
           then (True, p3\<lparr>rg_closing := True\<rparr>) else (False, p3))"

section \<open>Requests and their behaviour\<close>

text \<open>The protocol of \<open>source_admission.rs\<close>.\<close>

definition SOURCE_ADMISSION_PROTOCOL :: string where "SOURCE_ADMISSION_PROTOCOL = ''/auki-p2p/relay-auth/1''"

record ts_stream =
  st_connection :: connection_id
  st_protocol :: string
  st_number :: nat

type_synonym ts_answer = "(targeted_stream_error, ts_stream) result"

record open_command =
  oc_request_id :: u64
  oc_peer_id :: peer_id
  oc_connection_id :: connection_id
  oc_protocol :: string
  oc_response :: nat

record pending_open =
  po_peer_id :: peer_id
  po_connection_id :: connection_id
  po_protocol :: string
  po_response :: nat
  po_started :: instant

record open_request =
  oq_request_id :: u64
  oq_protocol :: string

datatype handler_failure = HandlerTimeout | HandlerUnsupported | HandlerIo string

record handler_event =
  he_request_id :: u64
  he_result :: "(handler_failure, ts_stream) result"

record targeted_stream_behaviour =
  tb_commands :: "open_command list"
  tb_next_request_id :: u64
  tb_connections :: "(connection_id, peer_id) hashmap"
  tb_pending :: "(u64, pending_open) hashmap"
  tb_relay_recovery :: bool
  tb_relay_progress :: "(connection_id, relay_progress) hashmap"
  tb_pending_closes :: "(peer_id \<times> connection_id) list"

definition targeted_stream_new :: targeted_stream_behaviour where
  "targeted_stream_new = \<lparr>tb_commands = [], tb_next_request_id = 1, tb_connections = [], tb_pending = [],
     tb_relay_recovery = False, tb_relay_progress = [], tb_pending_closes = []\<rparr>"

definition with_relay_recovery :: targeted_stream_behaviour where
  "with_relay_recovery = targeted_stream_new\<lparr>tb_relay_recovery := True\<rparr>"

text \<open>The identifiers and the queue of commands, which every control shares.\<close>

definition ts_next_request_id :: "targeted_stream_behaviour \<Rightarrow> (targeted_stream_error, u64) result \<times> targeted_stream_behaviour" where
  "ts_next_request_id b =
     (case checked_add (tb_next_request_id b) 1 of
        None \<Rightarrow> (Inl RequestIdsExhausted, b)
      | Some n \<Rightarrow> (Inr (tb_next_request_id b), b\<lparr>tb_next_request_id := n\<rparr>))"

text \<open>
  The parts of \<open>open_stream\<close>: the command is numbered, it waits for room in the queue, and its answer is
  awaited; a response channel that is dropped without an answer counts as a stopped behaviour.
\<close>

definition open_stream_command ::
  "peer_id \<Rightarrow> connection_id \<Rightarrow> string \<Rightarrow> nat \<Rightarrow> targeted_stream_behaviour \<Rightarrow>
    (targeted_stream_error, open_command) result \<times> targeted_stream_behaviour"
where
  "open_stream_command peer c protocol response b =
     (case ts_next_request_id b of
        (Inl e, b) \<Rightarrow> (Inl e, b)
      | (Inr i, b) \<Rightarrow> (Inr \<lparr>oc_request_id = i, oc_peer_id = peer, oc_connection_id = c, oc_protocol = protocol,
          oc_response = response\<rparr>, b))"

definition send_command :: "open_command \<Rightarrow> targeted_stream_behaviour \<Rightarrow> targeted_stream_behaviour option" where
  "send_command command b =
     (if length (tb_commands b) < COMMAND_CAPACITY then Some (b\<lparr>tb_commands := tb_commands b @ [command]\<rparr>) else None)"

definition open_stream_receive :: "ts_answer option \<Rightarrow> ts_answer" where
  "open_stream_receive answer = (case answer of None \<Rightarrow> Inl BehaviourStopped | Some r \<Rightarrow> r)"

definition connection_closing :: "targeted_stream_behaviour \<Rightarrow> connection_id \<Rightarrow> bool" where
  "connection_closing b c = (case map_of (tb_relay_progress b) c of None \<Rightarrow> False | Some p \<Rightarrow> rg_closing p)"

definition handle_open ::
  "(peer_id \<Rightarrow> string) \<Rightarrow> instant \<Rightarrow> bool \<Rightarrow> open_command \<Rightarrow> targeted_stream_behaviour \<Rightarrow>
    (open_request option \<times> targeted_stream_behaviour \<times> (nat \<times> ts_answer) list) option"
where
  "handle_open show_peer now canceled command b =
     (if canceled then Some (None, b, []) else
      case (if connection_closing b (oc_connection_id command) then None else map_of (tb_connections b) (oc_connection_id command)) of
        None \<Rightarrow> Some (None, b, [(oc_response command,
          Inl (SelectedConnectionClosed (show_peer (oc_peer_id command)) (oc_connection_id command)))])
      | Some actual_peer_id \<Rightarrow>
          if actual_peer_id \<noteq> oc_peer_id command then
            Some (None, b, [(oc_response command, Inl (SelectedConnectionPeerMismatch (show_peer (oc_peer_id command))
              (show_peer actual_peer_id) (oc_connection_id command)))])
          else if hm_contains (tb_pending b) (oc_request_id command) then None
          else Some (Some \<lparr>oq_request_id = oc_request_id command, oq_protocol = oc_protocol command\<rparr>,
            b\<lparr>tb_pending := hm_insert (oc_request_id command) \<lparr>po_peer_id = oc_peer_id command,
              po_connection_id = oc_connection_id command, po_protocol = oc_protocol command,
              po_response = oc_response command, po_started = now\<rparr> (tb_pending b)\<rparr>, []))"

definition ts_connection_established ::
  "peer_id \<Rightarrow> connection_id \<Rightarrow> targeted_stream_behaviour \<Rightarrow> targeted_stream_behaviour option"
where
  "ts_connection_established peer c b =
     (if hm_contains (tb_connections b) c then None else Some (b\<lparr>tb_connections := hm_insert c peer (tb_connections b)\<rparr>))"

definition ts_connection_closed ::
  "(peer_id \<Rightarrow> string) \<Rightarrow> connection_id \<Rightarrow> targeted_stream_behaviour \<Rightarrow> targeted_stream_behaviour \<times> (nat \<times> ts_answer) list"
where
  "ts_connection_closed show_peer c b =
     (let failed = filter (\<lambda>(_, p). po_connection_id p = c) (tb_pending b)
      in (b\<lparr>tb_connections := hm_remove c (tb_connections b), tb_relay_progress := hm_remove c (tb_relay_progress b),
            tb_pending_closes := filter (\<lambda>(_, queued). queued \<noteq> c) (tb_pending_closes b),
            tb_pending := filter (\<lambda>(_, p). po_connection_id p \<noteq> c) (tb_pending b)\<rparr>,
          map (\<lambda>(_, p). (po_response p, Inl (SelectedConnectionClosed (show_peer (po_peer_id p)) c))) failed))"

text \<open>What an event of a handler does to the progress records.\<close>

definition note_progress ::
  "instant \<Rightarrow> peer_id \<Rightarrow> connection_id \<Rightarrow> pending_open \<Rightarrow> (handler_failure, ts_stream) result \<Rightarrow>
    targeted_stream_behaviour \<Rightarrow> targeted_stream_behaviour"
where
  "note_progress now peer c pending result b =
     (let entry = (case map_of (tb_relay_progress b) c of None \<Rightarrow> relay_progress_default | Some p \<Rightarrow> p)
      in if \<not> tb_relay_recovery b then b
         else case result of
           Inr _ \<Rightarrow> b\<lparr>tb_relay_progress := hm_insert c (progress_succeeded now entry) (tb_relay_progress b)\<rparr>
         | Inl failure \<Rightarrow>
             if po_protocol pending = SOURCE_ADMISSION_PROTOCOL \<and> failure = HandlerTimeout then
               let (retire, entry) = progress_timed_out (po_started pending) now entry;
                   b = b\<lparr>tb_relay_progress := hm_insert c entry (tb_relay_progress b)\<rparr>
               in if retire then b\<lparr>tb_pending_closes := tb_pending_closes b @ [(peer, c)]\<rparr> else b
             else b)"

definition ts_on_handler_event ::
  "(peer_id \<Rightarrow> string) \<Rightarrow> instant \<Rightarrow> peer_id \<Rightarrow> connection_id \<Rightarrow> handler_event \<Rightarrow> targeted_stream_behaviour \<Rightarrow>
    targeted_stream_behaviour \<times> (nat \<times> ts_answer) list"
where
  "ts_on_handler_event show_peer now peer c event b =
     (case map_of (tb_pending b) (he_request_id event) of
        None \<Rightarrow> (b, [])
      | Some pending \<Rightarrow>
          let b = b\<lparr>tb_pending := hm_remove (he_request_id event) (tb_pending b)\<rparr>
          in if po_peer_id pending \<noteq> peer \<or> po_connection_id pending \<noteq> c then
               (b, [(po_response pending, Inl (HandlerRouteMismatch (show_peer (po_peer_id pending)) (po_connection_id pending)
                 (show_peer peer) c))])
             else (note_progress now peer c pending (he_result event) b,
               [(po_response pending, case he_result event of
                  Inr stream \<Rightarrow> Inr stream
                | Inl HandlerTimeout \<Rightarrow> Inl (NegotiationTimeout (show_peer peer) c (po_protocol pending))
                | Inl HandlerUnsupported \<Rightarrow> Inl (UnsupportedProtocol (show_peer peer) c (po_protocol pending))
                | Inl (HandlerIo reason) \<Rightarrow> Inl (TargetedIo (show_peer peer) c (po_protocol pending) reason))]))"

datatype ts_to_swarm = CloseOne peer_id connection_id | NotifyOne peer_id connection_id open_request

text \<open>
  The loop of \<open>poll\<close> over the queued commands. \<open>canceled\<close> says of a response channel whether its receiver
  is gone; the outer \<open>None\<close> is a failed assertion, an inner \<open>None\<close> is \<open>Poll::Pending\<close>.
\<close>

fun poll_commands ::
  "(peer_id \<Rightarrow> string) \<Rightarrow> instant \<Rightarrow> (nat \<Rightarrow> bool) \<Rightarrow> open_command list \<Rightarrow> targeted_stream_behaviour \<Rightarrow>
    (ts_to_swarm option \<times> targeted_stream_behaviour \<times> (nat \<times> ts_answer) list) option"
where
  "poll_commands show_peer now canceled [] b = Some (None, b\<lparr>tb_commands := []\<rparr>, [])"
| "poll_commands show_peer now canceled (command # commands) b =
     (case handle_open show_peer now (canceled (oc_response command)) command b of
        None \<Rightarrow> None
      | Some (Some event, b, answers) \<Rightarrow>
          Some (Some (NotifyOne (oc_peer_id command) (oc_connection_id command) event), b\<lparr>tb_commands := commands\<rparr>, answers)
      | Some (None, b, answers) \<Rightarrow>
          map_option (\<lambda>(a, b, more). (a, b, answers @ more)) (poll_commands show_peer now canceled commands b))"

definition ts_poll ::
  "(peer_id \<Rightarrow> string) \<Rightarrow> instant \<Rightarrow> (nat \<Rightarrow> bool) \<Rightarrow> targeted_stream_behaviour \<Rightarrow>
    (ts_to_swarm option \<times> targeted_stream_behaviour \<times> (nat \<times> ts_answer) list) option"
where
  "ts_poll show_peer now canceled b =
     (case tb_pending_closes b of
        (peer, c) # closes \<Rightarrow> Some (Some (CloseOne peer c), b\<lparr>tb_pending_closes := closes\<rparr>, [])
      | [] \<Rightarrow> poll_commands show_peer now canceled (tb_commands b) b)"

section \<open>The handler of a connection\<close>

datatype handler_output = OutboundSubstreamRequest string u64 | NotifyBehaviour handler_event

type_synonym targeted_stream_handler = "handler_output list"

definition on_behaviour_event :: "open_request \<Rightarrow> targeted_stream_handler \<Rightarrow> targeted_stream_handler" where
  "on_behaviour_event event queued = queued @ [OutboundSubstreamRequest (oq_protocol event) (oq_request_id event)]"

datatype stream_upgrade_error = UpgradeTimeout | NegotiationFailed | UpgradeIo string

datatype connection_event =
    FullyNegotiatedOutbound ts_stream u64
  | DialUpgradeError u64 stream_upgrade_error
  | OtherConnectionEvent

definition on_connection_event :: "connection_event \<Rightarrow> targeted_stream_handler \<Rightarrow> targeted_stream_handler" where
  "on_connection_event event queued = (case event of
       FullyNegotiatedOutbound stream info \<Rightarrow> queued @ [NotifyBehaviour \<lparr>he_request_id = info, he_result = Inr stream\<rparr>]
     | DialUpgradeError info e \<Rightarrow> queued @ [NotifyBehaviour \<lparr>he_request_id = info, he_result = Inl (case e of
           UpgradeTimeout \<Rightarrow> HandlerTimeout | NegotiationFailed \<Rightarrow> HandlerUnsupported | UpgradeIo reason \<Rightarrow> HandlerIo reason)\<rparr>]
     | OtherConnectionEvent \<Rightarrow> queued)"

definition handler_poll :: "targeted_stream_handler \<Rightarrow> handler_output option \<times> targeted_stream_handler" where
  "handler_poll queued = (case queued of [] \<Rightarrow> (None, []) | x # xs \<Rightarrow> (Some x, xs))"

section \<open>When a relay connection is retired\<close>

datatype relay_outcome = RelaySuccess instant | RelayTimeout instant instant

definition progress_step :: "relay_outcome \<Rightarrow> relay_progress \<Rightarrow> relay_progress" where
  "progress_step ev p = (case ev of
       RelaySuccess now \<Rightarrow> progress_succeeded now p
     | RelayTimeout started now \<Rightarrow> snd (progress_timed_out started now p))"

definition progress_after :: "relay_outcome list \<Rightarrow> relay_progress" where
  "progress_after evs = fold progress_step evs relay_progress_default"

text \<open>The specification keeps the timeouts of the current streak as a list.\<close>

definition stale_start :: "instant option \<Rightarrow> instant \<Rightarrow> bool" where
  "stale_start success started = (case success of None \<Rightarrow> False | Some s \<Rightarrow> started \<le> s)"

definition streak_step :: "relay_outcome \<Rightarrow> instant option \<times> instant list \<Rightarrow> instant option \<times> instant list" where
  "streak_step ev = (\<lambda>(success, ts). case ev of
       RelaySuccess now \<Rightarrow> (Some now, [])
     | RelayTimeout started now \<Rightarrow>
         if stale_start success started then (success, ts)
         else if ts \<noteq> [] \<and> RELAY_TIMEOUT_IDLE_RESET < now - last ts then (success, [now])
         else (success, ts @ [now]))"

definition streak :: "relay_outcome list \<Rightarrow> instant option \<times> instant list" where
  "streak evs = fold streak_step evs (None, [])"

definition stalled :: "instant list \<Rightarrow> bool" where
  "stalled ts \<longleftrightarrow> 3 \<le> length ts \<and> RELAY_TIMEOUT_WINDOW \<le> last ts - hd ts"

definition timeout_count :: "nat \<Rightarrow> 8 word" where
  "timeout_count n = of_nat (min 255 n)"

definition progress_of :: "instant option \<times> instant list \<Rightarrow> relay_progress" where
  "progress_of st = \<lparr>rg_last_success = fst st, rg_first_timeout = (if snd st = [] then None else Some (hd (snd st))),
     rg_last_timeout = (if snd st = [] then None else Some (last (snd st))),
     rg_timeouts = timeout_count (length (snd st)), rg_closing = False\<rparr>"

lemma unat_count: "unat (timeout_count n) = min 255 n"
  by (simp add: timeout_count_def unat_of_nat take_bit_nat_eq_self)

lemma saturating_count: "saturating_succ (timeout_count n) = timeout_count (Suc n)"
proof -
  have max_word: "unat (- 1 :: 8 word) = 255" by transfer (simp add: take_bit_minus_one_eq_mask mask_eq_exp_minus_1)
  have "timeout_count n = - 1 \<longleftrightarrow> unat (timeout_count n) = unat (- 1 :: 8 word)"
    by (simp only: word_unat_eq_iff)
  also have "\<dots> \<longleftrightarrow> 255 \<le> n" by (simp add: unat_count max_word min_def)
  finally have full: "timeout_count n = - 1 \<longleftrightarrow> 255 \<le> n" .
  show ?thesis
  proof (cases "255 \<le> n")
    case True
    with full show ?thesis by (simp add: saturating_succ_def timeout_count_def)
  next
    case False
    then have "timeout_count (Suc n) = timeout_count n + 1" by (simp add: timeout_count_def min_absorb2)
    with full False show ?thesis by (simp add: saturating_succ_def)
  qed
qed

lemma timeout_count_0: "0 = timeout_count 0"
  by (simp add: timeout_count_def)

lemma count_threshold: "RELAY_TIMEOUT_THRESHOLD \<le> timeout_count n \<longleftrightarrow> 3 \<le> n"
  by (simp add: RELAY_TIMEOUT_THRESHOLD_def word_le_nat_alt unat_count)

lemma progress_of_empty: "relay_progress_default = progress_of (None, [])"
  by (simp add: relay_progress_default_def progress_of_def timeout_count_def)

lemma progress_of_open [simp]: "progress_of st\<lparr>rg_closing := False\<rparr> = progress_of st" "\<not> rg_closing (progress_of st)"
  by (simp_all add: progress_of_def)

lemma succeeded_streak: "progress_succeeded now (progress_of st) = progress_of (streak_step (RelaySuccess now) st)"
  by (cases st) (simp add: progress_succeeded_def progress_of_def streak_step_def timeout_count_def)

lemma timed_out_streak:
  "progress_timed_out started now (progress_of st) =
    (let st' = streak_step (RelayTimeout started now) st; retire = \<not> stale_start (fst st) started \<and> stalled (snd st')
     in (retire, progress_of st'\<lparr>rg_closing := retire\<rparr>))"
proof (cases st)
  case (Pair success ts)
  have first: "saturating_succ 0 = timeout_count (Suc 0)" using saturating_count[of 0] by (simp add: timeout_count_def)
  show ?thesis
    unfolding Pair
    by (cases "ts = []"; cases "stale_start success started"; cases "RELAY_TIMEOUT_IDLE_RESET < now - last ts")
      (auto simp: progress_timed_out_def progress_of_def streak_step_def stale_start_def[symmetric] stalled_def
        saturating_count first count_threshold Let_def duration_since_def RELAY_TIMEOUT_IDLE_RESET_def RELAY_TIMEOUT_WINDOW_def)
qed

lemma streak_snoc: "streak (evs @ [ev]) = streak_step ev (streak evs)"
  by (simp add: streak_def)

lemma progress_snoc: "progress_after (evs @ [ev]) = progress_step ev (progress_after evs)"
  by (simp add: progress_after_def)

lemma step_closing: "rg_closing p \<Longrightarrow> rg_closing (progress_step ev p)"
  by (auto simp: progress_step_def progress_succeeded_def progress_timed_out_def split: relay_outcome.splits)

text \<open>Until it retires the connection, the record is the image of the streak.\<close>

lemma progress_streak:
  "rg_closing (progress_after evs) \<longleftrightarrow> (\<exists>k \<le> length evs. stalled (snd (streak (take k evs))))"
  "\<not> rg_closing (progress_after evs) \<Longrightarrow> progress_after evs = progress_of (streak evs)"
proof (induction evs rule: rev_induct)
  case Nil
  { case 1 then show ?case by (simp add: progress_after_def relay_progress_default_def streak_def stalled_def) }
  { case 2 then show ?case by (simp add: progress_after_def progress_of_empty streak_def) }
next
  case (snoc ev evs)
  have split: "(\<exists>k \<le> length (evs @ [ev]). stalled (snd (streak (take k (evs @ [ev]))))) \<longleftrightarrow>
      (\<exists>k \<le> length evs. stalled (snd (streak (take k evs)))) \<or> stalled (snd (streak (evs @ [ev])))"
    by (auto simp: le_Suc_eq)
  have closing: "rg_closing (progress_after (evs @ [ev])) \<longleftrightarrow> stalled (snd (streak (evs @ [ev])))"
    and image: "\<not> rg_closing (progress_after (evs @ [ev])) \<Longrightarrow> progress_after (evs @ [ev]) = progress_of (streak (evs @ [ev]))"
    if live: "\<not> rg_closing (progress_after evs)"
  proof -
    have p: "progress_after evs = progress_of (streak evs)" using snoc(2) live by blast
    have calm: "\<not> stalled (snd (streak evs))" using snoc(1) live by (metis order_refl take_all)
    show "rg_closing (progress_after (evs @ [ev])) \<longleftrightarrow> stalled (snd (streak (evs @ [ev])))"
    proof (cases ev)
      case (RelaySuccess now)
      then show ?thesis
        by (simp add: progress_snoc streak_snoc p progress_step_def succeeded_streak)
          (simp add: progress_of_def streak_step_def stalled_def split: prod.splits)
    next
      case (RelayTimeout started now)
      with calm show ?thesis
        by (simp add: progress_snoc streak_snoc p progress_step_def timed_out_streak Let_def)
          (auto simp: streak_step_def split: prod.splits)
    qed
    show "progress_after (evs @ [ev]) = progress_of (streak (evs @ [ev]))" if "\<not> rg_closing (progress_after (evs @ [ev]))"
      using that
      by (cases ev) (auto simp: progress_snoc streak_snoc p progress_step_def succeeded_streak timed_out_streak Let_def)
  qed
  { case 1 show ?case
      using snoc(1) closing step_closing[of "progress_after evs" ev] unfolding split progress_snoc by blast }
  { case 2 then show ?case
      using image step_closing[of "progress_after evs" ev] unfolding progress_snoc by blast }
qed

text \<open>What the streak is: timeouts since the last success, of requests that began after it, without a long pause.\<close>

fun relay_timeout_time :: "relay_outcome \<Rightarrow> instant" where
  "relay_timeout_time (RelaySuccess t) = t"
| "relay_timeout_time (RelayTimeout started t) = t"

fun last_success :: "relay_outcome list \<Rightarrow> instant option" where
  "last_success [] = None"
| "last_success (RelaySuccess t # evs) = (case last_success evs of None \<Rightarrow> Some t | Some u \<Rightarrow> Some u)"
| "last_success (RelayTimeout s t # evs) = last_success evs"

definition since_success :: "relay_outcome list \<Rightarrow> relay_outcome list" where
  "since_success evs = rev (takeWhile (\<lambda>ev. case ev of RelayTimeout _ _ \<Rightarrow> True | RelaySuccess _ \<Rightarrow> False) (rev evs))"

definition begun_after :: "instant option \<Rightarrow> relay_outcome \<Rightarrow> bool" where
  "begun_after success ev = (case ev of RelaySuccess _ \<Rightarrow> False | RelayTimeout started _ \<Rightarrow> \<not> stale_start success started)"

lemma last_success_snoc:
  "last_success (evs @ [ev]) = (case ev of RelaySuccess t \<Rightarrow> Some t | RelayTimeout _ _ \<Rightarrow> last_success evs)"
  by (induction evs rule: last_success.induct) (auto split: relay_outcome.splits option.splits)

lemma since_success_snoc:
  "since_success (evs @ [ev]) = (case ev of RelaySuccess t \<Rightarrow> [] | RelayTimeout _ _ \<Rightarrow> since_success evs @ [ev])"
  by (simp add: since_success_def split: relay_outcome.splits)

lemma streak_meaning:
  "fst (streak evs) = last_success evs \<and>
    (\<exists>older. map relay_timeout_time (filter (begun_after (last_success evs)) (since_success evs)) = older @ snd (streak evs)) \<and>
    successively (\<lambda>a b. b - a \<le> RELAY_TIMEOUT_IDLE_RESET) (snd (streak evs))"
proof (induction evs rule: rev_induct)
  case (snoc ev evs)
  obtain success ts where st: "streak evs = (success, ts)" by fastforce
  from snoc st show ?case
    by (cases ev) (auto simp: streak_snoc streak_step_def last_success_snoc since_success_snoc begun_after_def successively_append_iff)
qed (simp add: streak_def since_success_def)

text \<open>C34: A relay connection is retired exactly when its streak of timeouts first stalls it: three timeouts, the
  first and the last at least twenty seconds apart. The streak consists of the latest timeouts after the
  last success, only of requests begun after that success, with no pause of more than a minute between
  two of them. The eight-bit counter of the code never wraps around.\<close>

theorem relay_retired_when_stalled:
  "(rg_closing (progress_after evs) \<longleftrightarrow> (\<exists>k \<le> length evs. stalled (snd (streak (take k evs))))) \<and>
    fst (streak evs) = last_success evs \<and>
    (\<exists>older. map relay_timeout_time (filter (begun_after (last_success evs)) (since_success evs)) = older @ snd (streak evs)) \<and>
    successively (\<lambda>a b. b - a \<le> RELAY_TIMEOUT_IDLE_RESET) (snd (streak evs))"
  using progress_streak(1)[of evs] streak_meaning[of evs] by blast

section \<open>Streams reach the caller from the chosen connection only\<close>

text \<open>
  The behaviour with its controls, the handlers of the open connections, and the swarm between them. The
  last three fields are history: all commands, the peer of each connection ever opened, and the answers.
\<close>

record ts_system =
  sy_behaviour :: targeted_stream_behaviour
  sy_waiting :: "open_command list"
  sy_handlers :: "connection_id \<rightharpoonup> targeted_stream_handler"
  sy_negotiating :: "(connection_id \<times> string \<times> u64) list"
  sy_commands :: "open_command list"
  sy_peers :: "connection_id \<rightharpoonup> peer_id"
  sy_answers :: "(nat \<times> ts_answer) list"

definition ts_start :: "bool \<Rightarrow> ts_system" where
  "ts_start recovery = \<lparr>sy_behaviour = (if recovery then with_relay_recovery else targeted_stream_new), sy_waiting = [],
     sy_handlers = Map.empty, sy_negotiating = [], sy_commands = [], sy_peers = Map.empty, sy_answers = []\<rparr>"

text \<open>
  A response channel is new; libp2p does not reuse the number of a connection, and delivers to the handler
  of the connection it names; a handler speaks for its own connection; a substream is negotiated for the
  protocol that was asked for.
\<close>

inductive ts_step :: "(peer_id \<Rightarrow> string) \<Rightarrow> ts_system \<Rightarrow> ts_system \<Rightarrow> bool" for show_peer where
  number: "open_stream_command peer c protocol (length (sy_commands s)) (sy_behaviour s) = (Inr command, b) \<Longrightarrow>
    ts_step show_peer s (s\<lparr>sy_behaviour := b, sy_waiting := command # sy_waiting s, sy_commands := sy_commands s @ [command]\<rparr>)"
| send: "sy_waiting s = before @ command # behind \<Longrightarrow> send_command command (sy_behaviour s) = Some b \<Longrightarrow>
    ts_step show_peer s (s\<lparr>sy_behaviour := b, sy_waiting := before @ behind\<rparr>)"
| give_up: "sy_waiting s = before @ command # behind \<Longrightarrow> ts_step show_peer s (s\<lparr>sy_waiting := before @ behind\<rparr>)"
| established: "sy_peers s c = None \<Longrightarrow> ts_connection_established peer c (sy_behaviour s) = Some b \<Longrightarrow>
    ts_step show_peer s (s\<lparr>sy_behaviour := b, sy_handlers := (sy_handlers s)(c \<mapsto> []), sy_peers := (sy_peers s)(c \<mapsto> peer)\<rparr>)"
| closed: "ts_connection_closed show_peer c (sy_behaviour s) = (b, answers) \<Longrightarrow>
    ts_step show_peer s (s\<lparr>sy_behaviour := b, sy_handlers := (sy_handlers s)(c := None), sy_answers := sy_answers s @ answers\<rparr>)"
| pending: "ts_poll show_peer now canceled (sy_behaviour s) = Some (None, b, answers) \<Longrightarrow>
    ts_step show_peer s (s\<lparr>sy_behaviour := b, sy_answers := sy_answers s @ answers\<rparr>)"
| close_one: "ts_poll show_peer now canceled (sy_behaviour s) = Some (Some (CloseOne peer c), b, answers) \<Longrightarrow>
    ts_step show_peer s (s\<lparr>sy_behaviour := b, sy_answers := sy_answers s @ answers\<rparr>)"
| notify_one: "ts_poll show_peer now canceled (sy_behaviour s) = Some (Some (NotifyOne peer c request), b, answers) \<Longrightarrow>
    ts_step show_peer s (s\<lparr>sy_behaviour := b,
      sy_handlers := (sy_handlers s)(c := map_option (on_behaviour_event request) (sy_handlers s c)),
      sy_answers := sy_answers s @ answers\<rparr>)"
| substream: "sy_handlers s c = Some h \<Longrightarrow> handler_poll h = (Some (OutboundSubstreamRequest protocol i), h') \<Longrightarrow>
    ts_step show_peer s (s\<lparr>sy_handlers := (sy_handlers s)(c \<mapsto> h'), sy_negotiating := (c, protocol, i) # sy_negotiating s\<rparr>)"
| negotiated: "(c, protocol, i) \<in> set (sy_negotiating s) \<Longrightarrow> sy_handlers s c = Some h \<Longrightarrow>
    event = FullyNegotiatedOutbound \<lparr>st_connection = c, st_protocol = protocol, st_number = n\<rparr> i \<or>
    event = DialUpgradeError i e \<or> event = OtherConnectionEvent \<Longrightarrow>
    ts_step show_peer s (s\<lparr>sy_handlers := (sy_handlers s)(c \<mapsto> on_connection_event event h),
      sy_negotiating := remove1 (c, protocol, i) (sy_negotiating s)\<rparr>)"
| completed: "sy_handlers s c = Some h \<Longrightarrow> handler_poll h = (Some (NotifyBehaviour event), h') \<Longrightarrow> sy_peers s c = Some peer \<Longrightarrow>
    ts_on_handler_event show_peer now peer c event (sy_behaviour s) = (b, answers) \<Longrightarrow>
    ts_step show_peer s (s\<lparr>sy_behaviour := b, sy_handlers := (sy_handlers s)(c \<mapsto> h'), sy_answers := sy_answers s @ answers\<rparr>)"

text \<open>The response channels the behaviour still holds.\<close>

definition slots :: "targeted_stream_behaviour \<Rightarrow> nat list" where
  "slots b = map oc_response (tb_commands b) @ map (\<lambda>(_, p). po_response p) (tb_pending b)"

definition answers_command :: "open_command list \<Rightarrow> (connection_id \<rightharpoonup> peer_id) \<Rightarrow> nat \<times> ts_answer \<Rightarrow> bool" where
  "answers_command H peers = (\<lambda>(response, answer). \<exists>command \<in> set H. oc_response command = response \<and> (case answer of
       Inr st \<Rightarrow> st_connection st = oc_connection_id command \<and> st_protocol st = oc_protocol command \<and>
         peers (oc_connection_id command) = Some (oc_peer_id command)
     | Inl e \<Rightarrow> \<forall>p1 c1 p2 c2. e \<noteq> HandlerRouteMismatch p1 c1 p2 c2))"

definition pending_for :: "open_command list \<Rightarrow> (connection_id \<rightharpoonup> peer_id) \<Rightarrow> u64 \<Rightarrow> pending_open \<Rightarrow> bool" where
  "pending_for H peers i p \<longleftrightarrow> (\<exists>command \<in> set H. oc_request_id command = i \<and> po_peer_id p = oc_peer_id command \<and>
     po_connection_id p = oc_connection_id command \<and> po_protocol p = oc_protocol command \<and> po_response p = oc_response command \<and>
     peers (oc_connection_id command) = Some (oc_peer_id command))"

definition behaviour_ok :: "open_command list \<Rightarrow> (connection_id \<rightharpoonup> peer_id) \<Rightarrow> targeted_stream_behaviour \<Rightarrow> bool" where
  "behaviour_ok H peers b \<longleftrightarrow> hm_ok (tb_pending b) \<and> set (tb_commands b) \<subseteq> set H \<and> map_of (tb_connections b) \<subseteq>\<^sub>m peers \<and>
     (\<forall>(i, p) \<in> set (tb_pending b). pending_for H peers i p)"

definition history_ok :: "open_command list \<Rightarrow> u64 \<Rightarrow> bool" where
  "history_ok H n \<longleftrightarrow> map oc_response H = [0..<length H] \<and> distinct (map oc_request_id H) \<and> (\<forall>command \<in> set H. oc_request_id command < n)"

fun output_for :: "open_command list \<Rightarrow> connection_id \<Rightarrow> handler_output \<Rightarrow> bool" where
  "output_for H c (OutboundSubstreamRequest protocol i) \<longleftrightarrow>
     (\<exists>command \<in> set H. oc_request_id command = i \<and> oc_connection_id command = c \<and> oc_protocol command = protocol)"
| "output_for H c (NotifyBehaviour event) \<longleftrightarrow>
     (\<exists>command \<in> set H. oc_request_id command = he_request_id event \<and> oc_connection_id command = c \<and>
       (\<forall>st. he_result event = Inr st \<longrightarrow> st_connection st = c \<and> st_protocol st = oc_protocol command))"

definition ts_inv :: "ts_system \<Rightarrow> bool" where
  "ts_inv s \<longleftrightarrow> history_ok (sy_commands s) (tb_next_request_id (sy_behaviour s)) \<and>
     behaviour_ok (sy_commands s) (sy_peers s) (sy_behaviour s) \<and> set (sy_waiting s) \<subseteq> set (sy_commands s) \<and>
     distinct (map oc_response (sy_waiting s) @ slots (sy_behaviour s) @ map fst (sy_answers s)) \<and>
     (\<forall>c h. sy_handlers s c = Some h \<longrightarrow> list_all (output_for (sy_commands s) c) h) \<and>
     (\<forall>(c, protocol, i) \<in> set (sy_negotiating s). output_for (sy_commands s) c (OutboundSubstreamRequest protocol i)) \<and>
     list_all (answers_command (sy_commands s) (sy_peers s)) (sy_answers s)"

text \<open>Channels are passed on, never copied.\<close>

lemma distinct_sub_mset:
  assumes "distinct xs" "mset ys \<subseteq># mset xs"
  shows "distinct ys"
  unfolding distinct_count_atmost_1
proof
  fix a
  have "count (mset ys) a \<le> count (mset xs) a" using assms(2) by (rule mset_subset_eq_count)
  also have "\<dots> \<le> 1" using assms(1) by (simp add: distinct_count_atmost_1)
  finally show "count (mset ys) a = (if a \<in> set ys then 1 else 0)"
    by (auto simp: le_Suc_eq)
qed

lemma hm_insert_fresh: "\<not> hm_contains m k \<Longrightarrow> hm_insert k v m = m @ [(k, v)]"
  by (induction m) (auto simp: hm_contains_def hm_insert_def split: if_splits)

lemma handle_open_slots:
  assumes "handle_open show_peer now canceled command b = Some (rq, b', answers)"
  shows "mset (map (\<lambda>(_, p). po_response p) (tb_pending b')) + mset (map fst answers) \<subseteq>#
      add_mset (oc_response command) (mset (map (\<lambda>(_, p). po_response p) (tb_pending b)))"
  using assms by (auto simp: handle_open_def hm_insert_fresh split: if_splits option.splits)

lemma poll_commands_slots:
  "poll_commands show_peer now canceled commands b = Some (a, b', answers) \<Longrightarrow>
    mset (slots b') + mset (map fst answers) \<subseteq>#
      mset (map oc_response commands) + mset (map (\<lambda>(_, p). po_response p) (tb_pending b))"
proof (induction commands arbitrary: b answers)
  case (Cons command commands)
  obtain rq b1 answers1 where step: "handle_open show_peer now (canceled (oc_response command)) command b = Some (rq, b1, answers1)"
    using Cons.prems by (auto split: option.splits)
  note slots1 = handle_open_slots[OF step]
  show ?case
  proof (cases rq)
    case None
    with Cons.prems step obtain more where
      rest: "poll_commands show_peer now canceled commands b1 = Some (a, b', more)" "answers = answers1 @ more" by auto
    from subset_mset.add_mono[OF Cons.IH[OF rest(1)] subset_mset.order_refl[of "mset (map fst answers1)"]]
    have "mset (slots b') + mset (map fst answers) \<subseteq># mset (map oc_response commands) +
        (mset (map (\<lambda>(_, p). po_response p) (tb_pending b1)) + mset (map fst answers1))"
      by (simp add: rest(2) ac_simps)
    also have "\<dots> \<subseteq># mset (map oc_response commands) + add_mset (oc_response command) (mset (map (\<lambda>(_, p). po_response p) (tb_pending b)))"
      using slots1 by (rule subset_mset.add_left_mono)
    finally show ?thesis by simp
  next
    case (Some request)
    with Cons.prems step slots1 show ?thesis by (auto simp: slots_def)
  qed
qed (auto simp: slots_def)

lemma poll_slots:
  assumes "ts_poll show_peer now canceled b = Some (a, b', answers)"
  shows "mset (slots b') + mset (map fst answers) \<subseteq># mset (slots b)"
proof (cases "tb_pending_closes b")
  case Nil
  with assms poll_commands_slots[of show_peer now canceled "tb_commands b" b a b' answers] show ?thesis
    by (simp add: ts_poll_def) (simp add: slots_def)
qed (use assms in \<open>auto simp: ts_poll_def slots_def\<close>)

lemma closed_slots:
  assumes "ts_connection_closed show_peer c b = (b', answers)"
  shows "mset (slots b') + mset (map fst answers) = mset (slots b)"
proof -
  have "mset (map (\<lambda>(_, p). po_response p) (filter (\<lambda>(_, p). po_connection_id p \<noteq> c) m)) +
      mset (map (\<lambda>(_, p). po_response p) (filter (\<lambda>(_, p). po_connection_id p = c) m)) = mset (map (\<lambda>(_, p). po_response p) m)" for m :: "(u64 \<times> pending_open) list"
    by (induction m) auto
  with assms show ?thesis
    by (auto simp: ts_connection_closed_def Let_def slots_def multiset.map_comp comp_def case_prod_unfold)
qed

lemma delete_slot:
  assumes "hm_ok m" "map_of m i = Some p"
  shows "add_mset (po_response p) (mset (map (\<lambda>(_, p). po_response p) (hm_remove i m))) = mset (map (\<lambda>(_, p). po_response p) m)"
  using assms
proof (induction m)
  case (Cons x m)
  then show ?case
    by (cases x) (auto simp: hm_ok_def hm_remove_def dest: map_of_SomeD split: if_splits)
qed simp

lemma handler_event_slots:
  assumes "ts_on_handler_event show_peer now peer c event b = (b', answers)" "hm_ok (tb_pending b)"
  shows "mset (slots b') + mset (map fst answers) = mset (slots b)"
proof (cases "map_of (tb_pending b) (he_request_id event)")
  case None
  with assms show ?thesis by (simp add: ts_on_handler_event_def)
next
  case (Some p)
  have same: "tb_commands (note_progress t q d pe r x) = tb_commands x" "tb_pending (note_progress t q d pe r x) = tb_pending x" for t q d pe r x
    by (auto simp: note_progress_def Let_def split: sum.splits prod.splits)
  from Some assms delete_slot[OF assms(2) Some] show ?thesis
    by (auto simp: ts_on_handler_event_def Let_def slots_def same split: if_splits)
qed

text \<open>Each operation keeps the behaviour in step with the history, and answers commands of the history.\<close>

lemma answers_failed [simp]:
  "answers_command H peers (r, Inl (SelectedConnectionClosed p c)) \<longleftrightarrow> r \<in> oc_response ` set H"
  "answers_command H peers (r, Inl (SelectedConnectionPeerMismatch p q c)) \<longleftrightarrow> r \<in> oc_response ` set H"
  "answers_command H peers (r, Inl (NegotiationTimeout p c pr)) \<longleftrightarrow> r \<in> oc_response ` set H"
  "answers_command H peers (r, Inl (UnsupportedProtocol p c pr)) \<longleftrightarrow> r \<in> oc_response ` set H"
  "answers_command H peers (r, Inl (TargetedIo p c pr m)) \<longleftrightarrow> r \<in> oc_response ` set H"
  by (auto simp: answers_command_def)

lemma handle_open_ok:
  assumes "handle_open show_peer now canceled command b = Some (rq, b', answers)" "behaviour_ok H peers b" "command \<in> set H"
  shows "behaviour_ok H peers b' \<and> list_all (answers_command H peers) answers \<and> tb_next_request_id b' = tb_next_request_id b \<and>
    (\<forall>r. rq = Some r \<longrightarrow> oq_request_id r = oc_request_id command \<and> oq_protocol r = oc_protocol command)"
proof -
  have "pending_for H peers (oc_request_id command) \<lparr>po_peer_id = oc_peer_id command, po_connection_id = oc_connection_id command,
      po_protocol = oc_protocol command, po_response = oc_response command, po_started = now\<rparr>"
    if "map_of (tb_connections b) (oc_connection_id command) = Some (oc_peer_id command)"
    using that assms(2,3) by (auto simp: pending_for_def behaviour_ok_def map_le_def dom_def)
  with assms show ?thesis
    by (auto simp: handle_open_def behaviour_ok_def hm_insert_fresh hm_ok_def hm_contains_def map_of_eq_None_iff
        split: if_splits option.splits)
qed

lemma handle_open_defined:
  assumes "behaviour_ok H peers b" "history_ok H n" "command \<in> set H"
    "oc_response command \<notin> (\<lambda>(_, p). po_response p) ` set (tb_pending b)"
  shows "handle_open show_peer now canceled command b \<noteq> None"
proof -
  have "\<not> hm_contains (tb_pending b) (oc_request_id command)"
  proof
    assume "hm_contains (tb_pending b) (oc_request_id command)"
    then obtain p where p: "(oc_request_id command, p) \<in> set (tb_pending b)"
      by (auto simp: hm_contains_def dest: map_of_SomeD)
    with assms(1) obtain other where "other \<in> set H" "oc_request_id other = oc_request_id command" "po_response p = oc_response other"
      by (auto simp: behaviour_ok_def pending_for_def)
    moreover from this(1,2) assms(2,3) have "other = command"
      by (auto simp: history_ok_def distinct_map inj_on_def)
    ultimately show False using assms(4) p by force
  qed
  then show ?thesis by (auto simp: handle_open_def split: option.splits)
qed

lemma poll_commands_ok:
  assumes "behaviour_ok H peers b" "history_ok H n" "set commands \<subseteq> set H"
    "distinct (map oc_response commands @ map (\<lambda>(_, p). po_response p) (tb_pending b))"
  shows "\<exists>a b' answers. poll_commands show_peer now canceled commands b = Some (a, b', answers) \<and> behaviour_ok H peers b' \<and>
    list_all (answers_command H peers) answers \<and> tb_next_request_id b' = tb_next_request_id b \<and>
    (\<forall>peer c r. a = Some (NotifyOne peer c r) \<longrightarrow> output_for H c (OutboundSubstreamRequest (oq_protocol r) (oq_request_id r)))"
  using assms(1,3,4)
proof (induction commands arbitrary: b)
  case Nil
  then show ?case by (simp add: behaviour_ok_def)
next
  case (Cons command commands)
  from Cons.prems have h: "command \<in> set H" "oc_response command \<notin> (\<lambda>(_, p). po_response p) ` set (tb_pending b)" by auto
  from handle_open_defined[OF Cons.prems(1) assms(2) h] obtain rq b1 answers1 where
    step: "handle_open show_peer now (canceled (oc_response command)) command b = Some (rq, b1, answers1)" by fastforce
  note ok = handle_open_ok[OF step Cons.prems(1) h(1)]
  show ?case
  proof (cases rq)
    case (Some r)
    from ok have "behaviour_ok H peers (b1\<lparr>tb_commands := commands\<rparr>)" using Cons.prems(2) by (simp add: behaviour_ok_def)
    with step Some ok h(1) show ?thesis by auto
  next
    case None
    from handle_open_slots[OF step]
    have "mset (map oc_response commands @ map (\<lambda>(_, p). po_response p) (tb_pending b1)) \<subseteq>#
        mset (map oc_response (command # commands) @ map (\<lambda>(_, p). po_response p) (tb_pending b))"
      by (auto intro: subset_mset.add_left_mono simp: subset_mset.add_increasing2 elim: subset_mset.order_trans[rotated])
    with Cons.prems(3) have "distinct (map oc_response commands @ map (\<lambda>(_, p). po_response p) (tb_pending b1))"
      by (rule distinct_sub_mset)
    with Cons.IH[of b1] ok Cons.prems(2) obtain a b' more where
      "poll_commands show_peer now canceled commands b1 = Some (a, b', more)" "behaviour_ok H peers b'"
      "list_all (answers_command H peers) more" "tb_next_request_id b' = tb_next_request_id b1"
      "\<forall>peer c r. a = Some (NotifyOne peer c r) \<longrightarrow> output_for H c (OutboundSubstreamRequest (oq_protocol r) (oq_request_id r))"
      by auto
    with step None ok show ?thesis by auto
  qed
qed

lemma poll_ok:
  assumes "behaviour_ok H peers b" "history_ok H n" "distinct (slots b)"
  shows "\<exists>a b' answers. ts_poll show_peer now canceled b = Some (a, b', answers) \<and> behaviour_ok H peers b' \<and>
    list_all (answers_command H peers) answers \<and> tb_next_request_id b' = tb_next_request_id b \<and>
    (\<forall>peer c r. a = Some (NotifyOne peer c r) \<longrightarrow> output_for H c (OutboundSubstreamRequest (oq_protocol r) (oq_request_id r)))"
proof (cases "tb_pending_closes b")
  case Nil
  with poll_commands_ok[OF assms(1,2), of "tb_commands b" show_peer now canceled] assms show ?thesis
    by (auto simp: ts_poll_def slots_def behaviour_ok_def)
next
  case (Cons x closes)
  with assms(1) show ?thesis by (cases x) (simp add: ts_poll_def behaviour_ok_def)
qed

lemma closed_ok:
  assumes "ts_connection_closed show_peer c b = (b', answers)" "behaviour_ok H peers b"
  shows "behaviour_ok H peers b' \<and> list_all (answers_command H peers) answers \<and> tb_next_request_id b' = tb_next_request_id b"
proof -
  have "map_of (hm_remove c m) \<subseteq>\<^sub>m peers" if "map_of m \<subseteq>\<^sub>m peers" for m
    using that by (auto simp: hm_remove_def delete_conv' map_le_def)
  moreover have "po_response p \<in> oc_response ` set H" if "(i, p) \<in> set (tb_pending b)" for i p
    using that assms(2) by (fastforce simp: behaviour_ok_def pending_for_def)
  ultimately show ?thesis
    using assms by (auto simp: ts_connection_closed_def Let_def behaviour_ok_def hm_ok_def distinct_map_filter list_all_iff)
qed

lemma note_progress_frame:
  "tb_commands (note_progress t q d pe r x) = tb_commands x" "tb_pending (note_progress t q d pe r x) = tb_pending x"
  "tb_connections (note_progress t q d pe r x) = tb_connections x"
  "tb_next_request_id (note_progress t q d pe r x) = tb_next_request_id x"
  by (auto simp: note_progress_def Let_def split: sum.splits prod.splits)

lemma handler_event_ok:
  assumes "ts_on_handler_event show_peer now peer c event b = (b', answers)" "behaviour_ok H peers b" "history_ok H n"
    "output_for H c (NotifyBehaviour event)" "peers c = Some peer"
  shows "behaviour_ok H peers b' \<and> list_all (answers_command H peers) answers \<and> tb_next_request_id b' = tb_next_request_id b"
proof (cases "map_of (tb_pending b) (he_request_id event)")
  case None
  with assms show ?thesis by (simp add: ts_on_handler_event_def)
next
  case (Some p)
  from Some assms(2) obtain command where command: "command \<in> set H" "oc_request_id command = he_request_id event"
    "po_peer_id p = oc_peer_id command" "po_connection_id p = oc_connection_id command" "po_protocol p = oc_protocol command"
    "po_response p = oc_response command" "peers (oc_connection_id command) = Some (oc_peer_id command)"
    by (fastforce simp: behaviour_ok_def pending_for_def dest: map_of_SomeD)
  from assms(4) obtain other where other: "other \<in> set H" "oc_request_id other = he_request_id event" "oc_connection_id other = c"
    "\<And>st. he_result event = Inr st \<Longrightarrow> st_connection st = c \<and> st_protocol st = oc_protocol other" by auto
  have "other = command"
    using command(1,2) other(1,2) assms(3) by (auto simp: history_ok_def distinct_map inj_on_def)
  with other command assms(5) have match: "po_peer_id p = peer" "po_connection_id p = c" by auto
  have "hm_ok (hm_remove i (tb_pending b))" "set (hm_remove i (tb_pending b)) \<subseteq> set (tb_pending b)" for i
    using assms(2) by (auto simp: behaviour_ok_def hm_ok_def hm_remove_def distinct_delete distinct_map_filter AList.delete_eq)
  with assms(2) have frame: "behaviour_ok H peers (b\<lparr>tb_pending := hm_remove i (tb_pending b)\<rparr>)" for i
    by (fastforce simp: behaviour_ok_def)
  then have ok: "behaviour_ok H peers (note_progress now peer c p r (b\<lparr>tb_pending := hm_remove i (tb_pending b)\<rparr>))" for r i
    unfolding behaviour_ok_def by (simp add: note_progress_frame)
  have "answers_command H peers (po_response p, Inr st)" if "he_result event = Inr st" for st
    using that other(3,4) \<open>other = command\<close> command by (auto simp: answers_command_def)
  with Some assms(1) match ok command(1,6) show ?thesis
    by (auto simp: ts_on_handler_event_def Let_def note_progress_frame split: sum.splits handler_failure.splits)
qed

text \<open>The history only grows.\<close>

lemma history_mono:
  assumes "set H \<subseteq> set H'" "peers \<subseteq>\<^sub>m peers'"
  shows "answers_command H peers a \<Longrightarrow> answers_command H' peers' a"
    and "pending_for H peers i p \<Longrightarrow> pending_for H' peers' i p"
    and "output_for H c x \<Longrightarrow> output_for H' c x"
    and "behaviour_ok H peers b \<Longrightarrow> behaviour_ok H' peers' b"
proof -
  have get: "peers c = Some q \<Longrightarrow> peers' c = Some q" for c q using assms(2) by (force simp: map_le_def)
  show p: "pending_for H peers i p \<Longrightarrow> pending_for H' peers' i p" for i p
    unfolding pending_for_def using assms(1) get by blast
  show "answers_command H peers a \<Longrightarrow> answers_command H' peers' a"
    unfolding answers_command_def case_prod_unfold using assms(1) get by (cases "snd a") (simp; blast)+
  show "output_for H c x \<Longrightarrow> output_for H' c x" using assms(1) by (cases x) auto
  show "behaviour_ok H peers b \<Longrightarrow> behaviour_ok H' peers' b"
    using assms(1) p map_le_trans[OF _ assms(2)] unfolding behaviour_ok_def case_prod_unfold by blast
qed

lemma handler_poll_Some: "handler_poll h = (Some x, h') \<longleftrightarrow> h = x # h'"
  by (auto simp: handler_poll_def split: list.splits)

lemma ts_invD:
  assumes "ts_inv s"
  shows "history_ok (sy_commands s) (tb_next_request_id (sy_behaviour s))"
    and "behaviour_ok (sy_commands s) (sy_peers s) (sy_behaviour s)"
    and "set (sy_waiting s) \<subseteq> set (sy_commands s)"
    and "distinct (map oc_response (sy_waiting s) @ slots (sy_behaviour s) @ map fst (sy_answers s))"
    and "\<And>c h x. sy_handlers s c = Some h \<Longrightarrow> x \<in> set h \<Longrightarrow> output_for (sy_commands s) c x"
    and "\<And>c protocol i. (c, protocol, i) \<in> set (sy_negotiating s) \<Longrightarrow> output_for (sy_commands s) c (OutboundSubstreamRequest protocol i)"
    and "\<And>a. a \<in> set (sy_answers s) \<Longrightarrow> answers_command (sy_commands s) (sy_peers s) a"
  using assms unfolding ts_inv_def list_all_iff by blast+

lemma ts_invI:
  assumes "history_ok (sy_commands s) (tb_next_request_id (sy_behaviour s))"
    and "behaviour_ok (sy_commands s) (sy_peers s) (sy_behaviour s)"
    and "set (sy_waiting s) \<subseteq> set (sy_commands s)"
    and "distinct (map oc_response (sy_waiting s) @ slots (sy_behaviour s) @ map fst (sy_answers s))"
    and "\<And>c h x. sy_handlers s c = Some h \<Longrightarrow> x \<in> set h \<Longrightarrow> output_for (sy_commands s) c x"
    and "\<And>c protocol i. (c, protocol, i) \<in> set (sy_negotiating s) \<Longrightarrow> output_for (sy_commands s) c (OutboundSubstreamRequest protocol i)"
    and "\<And>a. a \<in> set (sy_answers s) \<Longrightarrow> answers_command (sy_commands s) (sy_peers s) a"
  shows "ts_inv s"
  using assms unfolding ts_inv_def list_all_iff by blast

lemma ts_inv_start: "ts_inv (ts_start recovery)"
  by (simp add: ts_inv_def ts_start_def history_ok_def behaviour_ok_def slots_def targeted_stream_new_def with_relay_recovery_def hm_ok_def)

lemma used_responses:
  assumes "ts_inv s" "r \<in> set (map oc_response (sy_waiting s) @ slots (sy_behaviour s) @ map fst (sy_answers s))"
  shows "r < length (sy_commands s)"
proof -
  have "r \<in> oc_response ` set (sy_commands s)"
    using assms(2) ts_invD(2,3,7)[OF assms(1)]
    by (fastforce simp: slots_def behaviour_ok_def pending_for_def answers_command_def)
  then have "r \<in> set (map oc_response (sy_commands s))" by simp
  also have "map oc_response (sy_commands s) = [0..<length (sy_commands s)]"
    using ts_invD(1)[OF assms(1)] by (simp add: history_ok_def)
  finally show ?thesis by simp
qed

lemma ts_inv_number:
  assumes inv: "ts_inv s" and new: "open_stream_command peer c protocol (length (sy_commands s)) (sy_behaviour s) = (Inr command, b)"
  shows "ts_inv (s\<lparr>sy_behaviour := b, sy_waiting := command # sy_waiting s, sy_commands := sy_commands s @ [command]\<rparr>)"
proof -
  from new obtain n where n: "checked_add (tb_next_request_id (sy_behaviour s)) 1 = Some n"
    "b = sy_behaviour s\<lparr>tb_next_request_id := n\<rparr>" "oc_request_id command = tb_next_request_id (sy_behaviour s)"
    "oc_response command = length (sy_commands s)"
    by (auto simp: open_stream_command_def ts_next_request_id_def split: option.splits)
  let ?H = "sy_commands s @ [command]"
  have less: "tb_next_request_id (sy_behaviour s) < n" using checked_add_less[OF n(1)] by simp
  have history: "history_ok ?H n"
    using ts_invD(1)[OF inv] n less by (auto simp: history_ok_def dest: order.strict_trans)
  have "set (sy_commands s) \<subseteq> set ?H" by auto
  note mono = history_mono[OF this map_le_refl]
  have b: "behaviour_ok ?H (sy_peers s) b"
    using mono(4)[OF ts_invD(2)[OF inv]] by (simp add: n(2) behaviour_ok_def)
  have "length (sy_commands s) \<notin> set (map oc_response (sy_waiting s) @ slots (sy_behaviour s) @ map fst (sy_answers s))"
    using used_responses[OF inv] by blast
  with ts_invD(4)[OF inv] have "distinct (map oc_response (command # sy_waiting s) @ slots b @ map fst (sy_answers s))"
    by (simp add: n(2,4) slots_def)
  then show ?thesis
    using history b ts_invD(3,5,6,7)[OF inv] mono(1,3) by (intro ts_invI) (auto simp: n(2) slots_def)
qed

text \<open>Steps that pass channels on and leave the history alone.\<close>

lemma ts_inv_pass:
  assumes "ts_inv s" "behaviour_ok (sy_commands s) (sy_peers s) b" "tb_next_request_id b = tb_next_request_id (sy_behaviour s)"
    "mset (slots b) + mset (map fst answers) \<subseteq># mset (slots (sy_behaviour s))"
    "list_all (answers_command (sy_commands s) (sy_peers s)) answers"
    "\<And>c h x. handlers c = Some h \<Longrightarrow> x \<in> set h \<Longrightarrow> output_for (sy_commands s) c x"
  shows "ts_inv (s\<lparr>sy_behaviour := b, sy_handlers := handlers, sy_answers := sy_answers s @ answers\<rparr>)"
proof (rule ts_invI)
  let ?s = "s\<lparr>sy_behaviour := b, sy_handlers := handlers, sy_answers := sy_answers s @ answers\<rparr>"
  have "mset (slots b) + mset (map fst answers) + (mset (map oc_response (sy_waiting s)) + mset (map fst (sy_answers s))) \<subseteq>#
      mset (slots (sy_behaviour s)) + (mset (map oc_response (sy_waiting s)) + mset (map fst (sy_answers s)))"
    using assms(4) by (rule subset_mset.add_right_mono)
  then have "mset (map oc_response (sy_waiting ?s) @ slots (sy_behaviour ?s) @ map fst (sy_answers ?s)) \<subseteq>#
      mset (map oc_response (sy_waiting s) @ slots (sy_behaviour s) @ map fst (sy_answers s))"
    by (simp add: ac_simps)
  with ts_invD(4)[OF assms(1)] show "distinct (map oc_response (sy_waiting ?s) @ slots (sy_behaviour ?s) @ map fst (sy_answers ?s))"
    by (rule distinct_sub_mset)
qed (use assms ts_invD[OF assms(1)] in \<open>auto simp: list_all_iff\<close>)

lemma ts_inv_poll:
  assumes "ts_inv s" "ts_poll show_peer now canceled (sy_behaviour s) = Some (a, b, answers)"
  shows "behaviour_ok (sy_commands s) (sy_peers s) b" "tb_next_request_id b = tb_next_request_id (sy_behaviour s)"
    "list_all (answers_command (sy_commands s) (sy_peers s)) answers"
    "mset (slots b) + mset (map fst answers) \<subseteq># mset (slots (sy_behaviour s))"
    "a = Some (NotifyOne peer c r) \<Longrightarrow> output_for (sy_commands s) c (OutboundSubstreamRequest (oq_protocol r) (oq_request_id r))"
proof -
  have "distinct (slots (sy_behaviour s))" using ts_invD(4)[OF assms(1)] by simp
  from poll_ok[OF ts_invD(2,1)[OF assms(1)] this, of show_peer now canceled] assms(2)
  show "behaviour_ok (sy_commands s) (sy_peers s) b" "tb_next_request_id b = tb_next_request_id (sy_behaviour s)"
    "list_all (answers_command (sy_commands s) (sy_peers s)) answers"
    "a = Some (NotifyOne peer c r) \<Longrightarrow> output_for (sy_commands s) c (OutboundSubstreamRequest (oq_protocol r) (oq_request_id r))"
    by auto
  show "mset (slots b) + mset (map fst answers) \<subseteq># mset (slots (sy_behaviour s))"
    by (rule poll_slots[OF assms(2)])
qed

lemma ts_inv_step:
  assumes "ts_step show_peer s t" "ts_inv s"
  shows "ts_inv t"
  using assms
proof (cases rule: ts_step.cases)
  case (number peer c protocol command b)
  with ts_inv_number[OF assms(2)] show ?thesis by blast
next
  case (send before command behind b)
  then have b: "b = sy_behaviour s\<lparr>tb_commands := tb_commands (sy_behaviour s) @ [command]\<rparr>"
    by (auto simp: send_command_def split: if_splits)
  have "mset (map oc_response (before @ behind) @ slots b @ map fst (sy_answers s)) =
      mset (map oc_response (sy_waiting s) @ slots (sy_behaviour s) @ map fst (sy_answers s))"
    by (simp add: b slots_def send(2) ac_simps)
  then have "distinct (map oc_response (before @ behind) @ slots b @ map fst (sy_answers s))"
    using ts_invD(4)[OF assms(2)] by (metis mset_eq_imp_distinct_iff)
  with ts_invD[OF assms(2)] send show ?thesis by (intro ts_invI) (auto simp: b behaviour_ok_def)
next
  case (give_up before command behind)
  with ts_invD[OF assms(2)] show ?thesis by (intro ts_invI) auto
next
  case (established c peer b)
  then have b: "b = sy_behaviour s\<lparr>tb_connections := hm_insert c peer (tb_connections (sy_behaviour s))\<rparr>"
    by (auto simp: ts_connection_established_def split: if_splits)
  have "sy_peers s \<subseteq>\<^sub>m (sy_peers s)(c \<mapsto> peer)" using established(2) by (auto simp: map_le_def)
  note mono = history_mono[OF subset_refl this]
  have "behaviour_ok (sy_commands s) ((sy_peers s)(c \<mapsto> peer)) b"
    using mono(4)[OF ts_invD(2)[OF assms(2)]] ts_invD(2)[OF assms(2)]
      map_le_upd[of "map_of (tb_connections (sy_behaviour s))" "sy_peers s" c "Some peer"]
    by (simp add: b behaviour_ok_def hm_insert_def update_conv')
  with ts_invD[OF assms(2)] mono(1) established(1) show ?thesis
    by (intro ts_invI) (auto simp: b slots_def split: if_splits)
next
  case (closed c b answers)
  note ok = closed_ok[OF closed(2) ts_invD(2)[OF assms(2)]]
  have "output_for (sy_commands s) d x" if "((sy_handlers s)(c := None)) d = Some h" "x \<in> set h" for d h x
    using that ts_invD(5)[OF assms(2)] by (simp split: if_splits)
  with ts_inv_pass[OF assms(2), of b answers "(sy_handlers s)(c := None)"] closed_slots[OF closed(2)] ok show ?thesis
    by (simp add: closed(1))
next
  case (pending now canceled b answers)
  note ok = ts_inv_poll[OF assms(2) pending(2)]
  from ts_inv_pass[OF assms(2) ok(1,2,4,3), of "sy_handlers s"] ts_invD(5)[OF assms(2)] show ?thesis
    by (simp add: pending(1))
next
  case (close_one now canceled peer c b answers)
  note ok = ts_inv_poll[OF assms(2) close_one(2)]
  from ts_inv_pass[OF assms(2) ok(1,2,4,3), of "sy_handlers s"] ts_invD(5)[OF assms(2)] show ?thesis
    by (simp add: close_one(1))
next
  case (notify_one now canceled peer c request b answers)
  note ok = ts_inv_poll[OF assms(2) notify_one(2)]
  let ?h = "(sy_handlers s)(c := map_option (on_behaviour_event request) (sy_handlers s c))"
  have "output_for (sy_commands s) d x" if "?h d = Some h" "x \<in> set h" for d h x
    using that ok(5)[OF refl] ts_invD(5)[OF assms(2)]
    by (auto simp: on_behaviour_event_def simp del: output_for.simps split: if_splits)
  from ts_inv_pass[OF assms(2) ok(1,2,4,3), of ?h] this show ?thesis by (simp add: notify_one(1))
next
  case (substream c h protocol i h')
  with ts_invD[OF assms(2)] show ?thesis
    by (intro ts_invI) (auto simp: handler_poll_Some simp del: output_for.simps split: if_splits)
next
  case (negotiated c protocol i h event n e)
  have "output_for (sy_commands s) c x" if "x \<in> set (on_connection_event event h)" for x
    using that negotiated(4) ts_invD(5)[OF assms(2) negotiated(3), of x] ts_invD(6)[OF assms(2) negotiated(2)]
    by (fastforce simp: on_connection_event_def)
  with ts_invD[OF assms(2)] negotiated(1) show ?thesis
    by (intro ts_invI) (auto simp del: output_for.simps split: if_splits dest: subsetD[OF set_remove1_subset])
next
  case (completed c h event h' peer now b answers)
  have out: "output_for (sy_commands s) c (NotifyBehaviour event)"
    using completed(3) by (intro ts_invD(5)[OF assms(2) completed(2)]) (simp add: handler_poll_Some)
  note ok = handler_event_ok[OF completed(5) ts_invD(2,1)[OF assms(2)] out completed(4)]
  have "mset (slots b) + mset (map fst answers) = mset (slots (sy_behaviour s))"
    using ts_invD(2)[OF assms(2)] by (intro handler_event_slots[OF completed(5)]) (simp add: behaviour_ok_def)
  moreover have "output_for (sy_commands s) d x" if "((sy_handlers s)(c \<mapsto> h')) d = Some k" "x \<in> set k" for d k x
    using that completed(2,3) ts_invD(5)[OF assms(2)]
    by (auto simp: handler_poll_Some simp del: output_for.simps split: if_splits)
  ultimately show ?thesis
    using ts_inv_pass[OF assms(2), of b answers "(sy_handlers s)(c \<mapsto> h')"] ok by (simp add: completed(1))
qed

interpretation ts_sys: invariant_system "ts_step show_peer" ts_inv for show_peer
  by unfold_locales (rule ts_inv_step)

text \<open>C7: A stream is delivered only from the connection the caller chose. In every reachable state, a response
  channel has received at most one answer, the answer belongs to a command that was numbered once and for
  all, and a stream among the answers was negotiated on the connection of that command, for its protocol,
  and that connection belongs to its peer. The defensive answer that a handler spoke for another route
  never occurs, and neither assertion of the behaviour fails.\<close>

theorem targeted_streams_exact:
  assumes "(ts_step show_peer)\<^sup>*\<^sup>* (ts_start recovery) s"
  shows "distinct (map fst (sy_answers s)) \<and> distinct (map oc_request_id (sy_commands s)) \<and>
    (\<forall>(response, answer) \<in> set (sy_answers s). \<exists>command \<in> set (sy_commands s). oc_response command = response \<and>
      (case answer of
         Inr st \<Rightarrow> st_connection st = oc_connection_id command \<and> st_protocol st = oc_protocol command \<and>
           sy_peers s (oc_connection_id command) = Some (oc_peer_id command)
       | Inl e \<Rightarrow> \<forall>p1 c1 p2 c2. e \<noteq> HandlerRouteMismatch p1 c1 p2 c2)) \<and>
    (\<forall>now canceled. ts_poll show_peer now canceled (sy_behaviour s) \<noteq> None) \<and>
    (\<forall>peer c. sy_peers s c = None \<longrightarrow> ts_connection_established peer c (sy_behaviour s) \<noteq> None)"
proof -
  have inv: "ts_inv s" using ts_sys.run_inv[OF assms ts_inv_start] .
  have "distinct (slots (sy_behaviour s))" using ts_invD(4)[OF inv] by simp
  note poll = poll_ok[OF ts_invD(2,1)[OF inv] this]
  have "ts_poll show_peer now canceled (sy_behaviour s) \<noteq> None" for now canceled using poll[of show_peer now canceled] by auto
  moreover have "ts_connection_established peer c (sy_behaviour s) \<noteq> None" if "sy_peers s c = None" for peer c
    using that ts_invD(2)[OF inv]
    by (auto simp: ts_connection_established_def hm_contains_def behaviour_ok_def map_le_def dom_def)
  moreover have "distinct (map fst (sy_answers s))" using ts_invD(4)[OF inv] by simp
  moreover have "distinct (map oc_request_id (sy_commands s))" using ts_invD(1)[OF inv] by (simp add: history_ok_def)
  moreover have "\<forall>x \<in> set (sy_answers s). answers_command (sy_commands s) (sy_peers s) x" using ts_invD(7)[OF inv] by blast
  ultimately show ?thesis unfolding answers_command_def case_prod_unfold by blast
qed

section \<open>A concrete run\<close>

definition ts_command :: open_command where
  "ts_command = \<lparr>oc_request_id = 1, oc_peer_id = PeerId ''R'', oc_connection_id = 5, oc_protocol = ''/x/1'', oc_response = 0\<rparr>"

definition ts_opened :: ts_stream where
  "ts_opened = \<lparr>st_connection = 5, st_protocol = ''/x/1'', st_number = 0\<rparr>"

definition ts_final :: ts_system where
  "ts_final = \<lparr>sy_behaviour = targeted_stream_new\<lparr>tb_next_request_id := 2, tb_connections := [(5, PeerId ''R'')]\<rparr>, sy_waiting = [],
     sy_handlers = [5 \<mapsto> []], sy_negotiating = [], sy_commands = [ts_command], sy_peers = [5 \<mapsto> PeerId ''R''],
     sy_answers = [(0, Inr ts_opened)]\<rparr>"

lemma ts_run: "(ts_step show_peer)\<^sup>*\<^sup>* (ts_start False) ts_final"
proof -
  let ?peer = "PeerId ''R''"
  let ?b = "targeted_stream_new\<lparr>tb_next_request_id := 2\<rparr>"
  let ?b1 = "?b\<lparr>tb_connections := [(5, ?peer)]\<rparr>"
  let ?p = "\<lparr>po_peer_id = ?peer, po_connection_id = 5, po_protocol = ''/x/1'', po_response = 0, po_started = 0\<rparr>"
  let ?s1 = "ts_start False\<lparr>sy_behaviour := ?b, sy_waiting := [ts_command], sy_commands := [ts_command]\<rparr>"
  let ?s2 = "?s1\<lparr>sy_behaviour := ?b1, sy_handlers := [5 \<mapsto> []], sy_peers := [5 \<mapsto> ?peer]\<rparr>"
  let ?s3 = "?s2\<lparr>sy_behaviour := ?b1\<lparr>tb_commands := [ts_command]\<rparr>, sy_waiting := []\<rparr>"
  let ?s4 = "?s3\<lparr>sy_behaviour := ?b1\<lparr>tb_pending := [(1, ?p)]\<rparr>, sy_handlers := [5 \<mapsto> [OutboundSubstreamRequest ''/x/1'' 1]]\<rparr>"
  let ?s5 = "?s4\<lparr>sy_handlers := [5 \<mapsto> []], sy_negotiating := [(5, ''/x/1'', 1)]\<rparr>"
  let ?ev = "\<lparr>he_request_id = 1, he_result = Inr ts_opened\<rparr>"
  let ?s6 = "?s5\<lparr>sy_handlers := [5 \<mapsto> [NotifyBehaviour ?ev]], sy_negotiating := []\<rparr>"
  note defs = ts_start_def ts_command_def targeted_stream_new_def
  have "ts_step show_peer (ts_start False) ?s1"
    using ts_step.number[of ?peer 5 "''/x/1''" "ts_start False" ts_command ?b show_peer]
    by (simp add: defs open_stream_command_def ts_next_request_id_def checked_add_def)
  moreover have "ts_step show_peer ?s1 ?s2"
    using ts_step.established[of ?s1 5 ?peer ?b1 show_peer] by (simp add: defs ts_connection_established_def hm_contains_def hm_insert_def)
  moreover have "ts_step show_peer ?s2 ?s3"
    using ts_step.send[of ?s2 "[]" ts_command "[]"] by (simp add: defs send_command_def targeted_limits)
  moreover have "ts_step show_peer ?s3 ?s4"
    using ts_step.notify_one[of show_peer 0 "\<lambda>_. False" ?s3 ?peer 5 "\<lparr>oq_request_id = 1, oq_protocol = ''/x/1''\<rparr>" "?b1\<lparr>tb_pending := [(1, ?p)]\<rparr>" "[]"]
    by (simp add: defs ts_poll_def handle_open_def connection_closing_def hm_contains_def hm_insert_def on_behaviour_event_def)
  moreover have "ts_step show_peer ?s4 ?s5"
    using ts_step.substream[of ?s4 5 "[OutboundSubstreamRequest ''/x/1'' 1]" "''/x/1''" 1 "[]" show_peer]
    by (simp add: defs handler_poll_Some)
  moreover have "ts_step show_peer ?s5 ?s6"
    using ts_step.negotiated[of 5 "''/x/1''" 1 ?s5 "[]" "FullyNegotiatedOutbound ts_opened 1" 0 UpgradeTimeout show_peer]
    by (simp add: defs ts_opened_def on_connection_event_def)
  moreover have "ts_step show_peer ?s6 ts_final"
    using ts_step.completed[of ?s6 5 "[NotifyBehaviour ?ev]" ?ev "[]" ?peer show_peer 0 ?b1 "[(0, Inr ts_opened)]"]
    by (simp add: defs ts_final_def handler_poll_Some ts_on_handler_event_def hm_remove_def note_progress_def)
  ultimately show ?thesis by (meson converse_rtranclp_into_rtranclp rtranclp.rtrancl_refl)
qed

theorem targeted_streams_exact_witness:
  "(0, Inr ts_opened) \<in> set (sy_answers ts_final) \<and> distinct (map fst (sy_answers ts_final)) \<and>
    st_connection ts_opened = oc_connection_id ts_command \<and> sy_peers ts_final (oc_connection_id ts_command) = Some (oc_peer_id ts_command)"
  using targeted_streams_exact[OF ts_run[of "\<lambda>_. []"]] by (simp add: ts_final_def ts_command_def ts_opened_def)

end
