(* ===== verification/Peer_Protocols.thy ===== *)
theory Peer_Protocols
  imports Authentication Application_Protocol Route_Validation Targeted_Stream
begin

text \<open>
  The application protocols of a peer (\<open>core/auki-sdk/src/protocols.rs\<close>, \<open>protocol_contract.rs\<close>,
  \<open>served_protocols.rs\<close> and the lifecycle of \<open>context.rs\<close>): mounting and unmounting a protocol, the
  published list of mounted protocols, shutdown, and opening a protocol on another peer.

  A server of the node is known by a number. The entry that a registration shares with the registry is known
  by its generation, and its server slot is kept in a store. What the node answers when it serves or dials
  is a parameter. Taking a server out of a registration is one step, though the code takes the entry and
  the server under two locks: the entry is out of the registry by then, so nobody else takes the server.
\<close>

section \<open>Contract\<close>

record route_attempt =
  ra_route :: multiaddr
  ra_error :: string
  ra_unsupported_protocol :: bool

datatype protocol_error =
    ProtocolsStopped
  | DuplicateProtocol string
  | ProtocolGenerationExhausted
  | NoRoutes peer_id
  | AllRoutesFailed peer_id string "route_attempt list"
  | InvalidRouteHint peer_id candidate_route_error
  | P2pFailure p2p_error
  | CleanupTimeout

type_synonym 'a protocol_result = "(protocol_error, 'a) result"

record auki_protocol_spec =
  ks_protocol_id :: string
  ks_inner :: application_protocol_spec

definition auki_protocol_spec_new ::
  "(string \<Rightarrow> (string, string) result) \<Rightarrow> string \<Rightarrow> nat \<Rightarrow> u32 \<Rightarrow> auki_protocol_spec protocol_result"
where
  "auki_protocol_spec_new try_from_owned protocol_id max_concurrency max_frame_bytes =
     and_then (map_err P2pFailure (application_protocol_new try_from_owned protocol_id)) (\<lambda>protocol.
     and_then (map_err P2pFailure (application_protocol_spec_new protocol max_concurrency max_frame_bytes)) (\<lambda>inner.
     Inr \<lparr>ks_protocol_id = protocol_id, ks_inner = inner\<rparr>))"

definition all_routes_unsupported_protocol :: "protocol_error \<Rightarrow> bool" where
  "all_routes_unsupported_protocol e = (case e of
       AllRoutesFailed _ _ attempts \<Rightarrow> attempts \<noteq> [] \<and> list_all ra_unsupported_protocol attempts
     | _ \<Rightarrow> False)"

section \<open>The published list\<close>

record served_protocol_snapshot =
  sv_revision :: u64
  sv_protocol_ids :: "string list"

definition served_protocols_new :: served_protocol_snapshot where
  "served_protocols_new = \<lparr>sv_revision = 0, sv_protocol_ids = []\<rparr>"

definition served_replace :: "string list \<Rightarrow> served_protocol_snapshot \<Rightarrow> served_protocol_snapshot" where
  "served_replace protocol_ids served =
     (let ids = remdups_adj (sort protocol_ids)
      in if sv_protocol_ids served = ids then served
         else \<lparr>sv_revision = (if sv_revision served = - 1 then sv_revision served else sv_revision served + 1),
               sv_protocol_ids = ids\<rparr>)"

section \<open>Mounting\<close>

record context_lifecycle =
  lc_running :: bool
  lc_canceled :: bool

definition lifecycle_new :: context_lifecycle where
  "lifecycle_new = \<lparr>lc_running = True, lc_canceled = False\<rparr>"

definition lifecycle_fence :: "context_lifecycle \<Rightarrow> context_lifecycle" where
  "lifecycle_fence l = l\<lparr>lc_running := False, lc_canceled := True\<rparr>"

record protocol_runtime =
  pr_domain_id :: uuid
  pr_routes :: "(peer_id, multiaddr list) hashmap"
  pr_lifecycle :: context_lifecycle
  pr_registrations :: "(string, u64) hashmap"
  pr_servers :: "(u64, nat) hashmap"
  pr_next_generation :: u64
  pr_served_protocols :: served_protocol_snapshot

definition peer_protocols_new :: "uuid \<Rightarrow> (peer_id \<times> multiaddr list) list \<Rightarrow> context_lifecycle \<Rightarrow> protocol_runtime" where
  "peer_protocols_new domain routes lifecycle =
     \<lparr>pr_domain_id = domain, pr_routes = fold (\<lambda>(peer, candidates). hm_insert peer candidates) routes [], pr_lifecycle = lifecycle, pr_registrations = [], pr_servers = [],
      pr_next_generation = 1, pr_served_protocols = served_protocols_new\<rparr>"

record protocol_registration =
  reg_protocol_id :: string
  reg_generation :: u64

text \<open>\<open>serve\<close>: the answer of the node.\<close>

definition protocol_register ::
  "token_env \<Rightarrow> auki_protocol_spec \<Rightarrow> nat p2p_result \<Rightarrow> protocol_runtime \<Rightarrow> protocol_registration protocol_result \<times> protocol_runtime"
where
  "protocol_register E spec serve rt =
     (if \<not> lc_running (pr_lifecycle rt) then (Inl ProtocolsStopped, rt)
      else if hm_contains (pr_registrations rt) (ks_protocol_id spec) then (Inl (DuplicateProtocol (ks_protocol_id spec)), rt)
      else case checked_add (pr_next_generation rt) 1 of
        None \<Rightarrow> (Inl ProtocolGenerationExhausted, rt)
      | Some next \<Rightarrow>
          let generation = pr_next_generation rt; rt = rt\<lparr>pr_next_generation := next\<rparr>
          in case session_requirements_new E (uuid_to_string E (pr_domain_id rt)) of
               Inl e \<Rightarrow> (Inl (P2pFailure e), rt)
             | Inr requirements \<Rightarrow>
                 (case serve of
                    Inl e \<Rightarrow> (Inl (if e = ProtocolAlreadyRegistered then DuplicateProtocol (ks_protocol_id spec) else P2pFailure e), rt)
                  | Inr server \<Rightarrow>
                      let registrations = hm_insert (ks_protocol_id spec) generation (pr_registrations rt)
                      in (Inr \<lparr>reg_protocol_id = ks_protocol_id spec, reg_generation = generation\<rparr>,
                          rt\<lparr>pr_registrations := registrations, pr_servers := hm_insert generation server (pr_servers rt),
                             pr_served_protocols := served_replace (map fst registrations) (pr_served_protocols rt)\<rparr>)))"

text \<open>While the registry exists; a registration that outlives it takes the slot only.\<close>

definition take_server :: "protocol_registration \<Rightarrow> protocol_runtime \<Rightarrow> nat option \<times> protocol_runtime" where
  "take_server reg rt =
     (let rt = (if map_of (pr_registrations rt) (reg_protocol_id reg) = Some (reg_generation reg)
            then let registrations = hm_remove (reg_protocol_id reg) (pr_registrations rt)
              in rt\<lparr>pr_registrations := registrations,
                    pr_served_protocols := served_replace (map fst registrations) (pr_served_protocols rt)\<rparr>
            else rt)
      in (map_of (pr_servers rt) (reg_generation reg), rt\<lparr>pr_servers := hm_remove (reg_generation reg) (pr_servers rt)\<rparr>))"

text \<open>How the shutdown of each server ends; \<open>None\<close>: thirty seconds pass first.\<close>

definition shutdown_servers :: "unit p2p_result list option \<Rightarrow> unit protocol_result" where
  "shutdown_servers outcomes = (case outcomes of
       None \<Rightarrow> Inl CleanupTimeout
     | Some rs \<Rightarrow> (case List.map_filter (\<lambda>r. case r of Inl e \<Rightarrow> Some e | Inr _ \<Rightarrow> None) rs of
         [] \<Rightarrow> Inr () | e # _ \<Rightarrow> Inl (P2pFailure e)))"

definition registration_close ::
  "protocol_registration \<Rightarrow> (nat list \<Rightarrow> unit p2p_result list option) \<Rightarrow> protocol_runtime \<Rightarrow> unit protocol_result \<times> protocol_runtime"
where
  "registration_close reg stop rt =
     (case take_server reg rt of
        (Some server, rt) \<Rightarrow> (shutdown_servers (stop [server]), rt)
      | (None, rt) \<Rightarrow> (Inr (), rt))"

definition registration_drop :: "protocol_registration \<Rightarrow> protocol_runtime \<Rightarrow> protocol_runtime" where
  "registration_drop reg rt = snd (take_server reg rt)"

definition protocols_fence :: "protocol_runtime \<Rightarrow> protocol_runtime" where
  "protocols_fence rt = rt\<lparr>pr_lifecycle := lifecycle_fence (pr_lifecycle rt)\<rparr>"

text \<open>The servers that \<open>shutdown_all\<close> and \<open>abort_all\<close> take out of the registry, in the order of the hash map.\<close>

definition drain_servers :: "protocol_runtime \<Rightarrow> nat list \<times> protocol_runtime" where
  "drain_servers rt =
     (List.map_filter (\<lambda>(_, g). map_of (pr_servers rt) g) (pr_registrations rt),
      rt\<lparr>pr_registrations := [],
         pr_servers := filter (\<lambda>(g, _). g \<notin> snd ` set (pr_registrations rt)) (pr_servers rt),
         pr_served_protocols := served_replace [] (pr_served_protocols rt)\<rparr>)"

definition shutdown_all ::
  "(nat list \<Rightarrow> unit p2p_result list option) \<Rightarrow> protocol_runtime \<Rightarrow> unit protocol_result \<times> protocol_runtime"
where
  "shutdown_all stop rt = (case drain_servers (protocols_fence rt) of (servers, rt) \<Rightarrow> (shutdown_servers (stop servers), rt))"

definition abort_all :: "protocol_runtime \<Rightarrow> protocol_runtime" where
  "abort_all rt = snd (drain_servers (protocols_fence rt))"

section \<open>Opening\<close>

record route_stream =
  rst_remote_peer :: authenticated_peer
  rst_number :: nat

text \<open>
  Entry \<open>n\<close> answers for the \<open>n\<close>-th route that is tried: whether the lifecycle runs, whether it has been
  canceled when the dial would be polled first, and the answer of the node; \<open>None\<close>: the lifecycle is
  canceled while the node dials. \<open>ow_render\<close> is the text of an error.
\<close>

record opening_world =
  ow_running :: "nat \<Rightarrow> bool"
  ow_canceled :: "nat \<Rightarrow> bool"
  ow_open_exact_route :: "nat \<Rightarrow> peer_id \<Rightarrow> multiaddr \<Rightarrow> string \<Rightarrow> session_requirements \<Rightarrow> route_stream p2p_result option"
  ow_now :: "nat \<Rightarrow> instant"
  ow_close_in_time :: "nat \<Rightarrow> bool"
  ow_render :: "p2p_error \<Rightarrow> string"

datatype opening_action = DialedRoute peer_id multiaddr session_requirements | ClosedRejected nat

definition open_validated ::
  "token_env \<Rightarrow> opening_world \<Rightarrow> nat \<Rightarrow> uuid \<Rightarrow> peer_id \<Rightarrow> multiaddr \<Rightarrow> string \<Rightarrow>
    route_stream protocol_result \<times> opening_action list"
where
  "open_validated E w n domain expected_peer route protocol =
     (if \<not> ow_running w n then (Inl ProtocolsStopped, []) else
      case session_requirements_new E (uuid_to_string E domain) of
        Inl e \<Rightarrow> (Inl (P2pFailure e), [])
      | Inr requirements \<Rightarrow>
          let requirements = with_expected_remote_peer_id requirements expected_peer
          in if ow_canceled w n then (Inl ProtocolsStopped, []) else
             (case ow_open_exact_route w n expected_peer route protocol requirements of
                None \<Rightarrow> Inl ProtocolsStopped | Some r \<Rightarrow> map_err P2pFailure r,
              [DialedRoute expected_peer route requirements]))"

definition is_unsupported_protocol :: "p2p_error \<Rightarrow> bool" where
  "is_unsupported_protocol e = (case e of TargetedStream (UnsupportedProtocol _ _ _) \<Rightarrow> True | _ \<Rightarrow> False)"

fun open_routes ::
  "token_env \<Rightarrow> opening_world \<Rightarrow> nat \<Rightarrow> uuid \<Rightarrow> peer_id \<Rightarrow> string \<Rightarrow> string \<Rightarrow> multiaddr list \<Rightarrow> route_attempt list \<Rightarrow>
    route_stream protocol_result \<times> opening_action list"
where
  "open_routes E w n domain expected_peer protocol_id protocol [] attempts =
     (Inl (AllRoutesFailed expected_peer protocol_id attempts), [])"
| "open_routes E w n domain expected_peer protocol_id protocol (route # routes) attempts =
     (case open_validated E w n domain expected_peer route protocol of
        (Inr stream, log) \<Rightarrow> (Inr stream, log)
      | (Inl (P2pFailure e), log) \<Rightarrow>
          (case open_routes E w (n + 1) domain expected_peer protocol_id protocol routes
             (attempts @ [\<lparr>ra_route = route, ra_error = ow_render w e, ra_unsupported_protocol = is_unsupported_protocol e\<rparr>])
           of (r, rest) \<Rightarrow> (r, log @ rest))
      | (Inl e, log) \<Rightarrow> (Inl e, log))"

definition protocol_open ::
  "token_env \<Rightarrow> (string \<Rightarrow> (string, string) result) \<Rightarrow> opening_world \<Rightarrow> protocol_runtime \<Rightarrow> peer_id \<Rightarrow> string \<Rightarrow>
    route_stream protocol_result \<times> opening_action list"
where
  "protocol_open E try_from_owned w rt expected_peer protocol_id =
     (case application_protocol_new try_from_owned protocol_id of
        Inl e \<Rightarrow> (Inl (P2pFailure e), [])
      | Inr protocol \<Rightarrow>
          if \<not> lc_running (pr_lifecycle rt) then (Inl ProtocolsStopped, [])
          else (case map_of (pr_routes rt) expected_peer of
                  None \<Rightarrow> (Inl (NoRoutes expected_peer), [])
                | Some candidates \<Rightarrow>
                    if candidates = [] then (Inl (NoRoutes expected_peer), [])
                    else open_routes E w 0 (pr_domain_id rt) expected_peer protocol_id protocol candidates []))"

definition canonicalize_candidate :: "addr_codec \<Rightarrow> peer_id \<Rightarrow> multiaddr \<Rightarrow> multiaddr protocol_result" where
  "canonicalize_candidate C expected_peer route =
     map_err (InvalidRouteHint expected_peer)
       (and_then (canonicalize_candidate_route C route expected_peer) (\<lambda>candidate. Inr (cand_route candidate)))"

definition open_exact ::
  "token_env \<Rightarrow> (string \<Rightarrow> (string, string) result) \<Rightarrow> opening_world \<Rightarrow> nat \<Rightarrow> uuid \<Rightarrow> peer_id \<Rightarrow> multiaddr \<Rightarrow> string \<Rightarrow>
    route_stream protocol_result \<times> opening_action list"
where
  "open_exact E try_from_owned w n domain expected_peer route protocol_id =
     (case application_protocol_new try_from_owned protocol_id of
        Inl e \<Rightarrow> (Inl (P2pFailure e), [])
      | Inr protocol \<Rightarrow>
          (case canonicalize_candidate (te_codec E) expected_peer route of
             Inl e \<Rightarrow> (Inl e, [])
           | Inr route \<Rightarrow> open_validated E w n domain expected_peer route protocol))"

section \<open>The registry over time\<close>

text \<open>
  The registry with the registrations that are still owned, and, as history, the servers the node has
  handed out and those that were taken out again. A registration is used once, by \<open>close\<close> or \<open>drop\<close>; the
  shutdown and the abort of the peer fence the lifecycle before they drain the registry.
\<close>

record registry_system =
  ry_runtime :: protocol_runtime
  ry_owned :: "protocol_registration list"
  ry_created :: "nat list"
  ry_stopped :: "nat list"

definition registry_start :: "uuid \<Rightarrow> (peer_id \<times> multiaddr list) list \<Rightarrow> registry_system" where
  "registry_start domain routes = \<lparr>ry_runtime = peer_protocols_new domain routes lifecycle_new, ry_owned = [], ry_created = [], ry_stopped = []\<rparr>"

inductive registry_step :: "token_env \<Rightarrow> registry_system \<Rightarrow> registry_system \<Rightarrow> bool" for E where
  mount: "protocol_register E spec (Inr server) (ry_runtime s) = (Inr reg, rt) \<Longrightarrow>
    registry_step E s (s\<lparr>ry_runtime := rt, ry_owned := reg # ry_owned s, ry_created := server # ry_created s\<rparr>)"
| refused: "protocol_register E spec serve (ry_runtime s) = (Inl e, rt) \<Longrightarrow> registry_step E s (s\<lparr>ry_runtime := rt\<rparr>)"
| release: "reg \<in> set (ry_owned s) \<Longrightarrow> take_server reg (ry_runtime s) = (server, rt) \<Longrightarrow>
    registry_step E s (s\<lparr>ry_runtime := rt, ry_owned := remove1 reg (ry_owned s),
      ry_stopped := (case server of None \<Rightarrow> [] | Some v \<Rightarrow> [v]) @ ry_stopped s\<rparr>)"
| fence: "registry_step E s (s\<lparr>ry_runtime := protocols_fence (ry_runtime s)\<rparr>)"
| drain: "\<not> lc_running (pr_lifecycle (ry_runtime s)) \<Longrightarrow> drain_servers (ry_runtime s) = (servers, rt) \<Longrightarrow>
    registry_step E s (s\<lparr>ry_runtime := rt, ry_stopped := servers @ ry_stopped s\<rparr>)"

text \<open>Operations on the registry itself: two maps with the same generations, and the list of the keys.\<close>

definition runtime_ok :: "protocol_runtime \<Rightarrow> bool" where
  "runtime_ok rt \<longleftrightarrow> hm_ok (pr_registrations rt) \<and> hm_ok (pr_servers rt) \<and> distinct (map snd (pr_registrations rt)) \<and>
     mset (map fst (pr_servers rt)) = mset (map snd (pr_registrations rt)) \<and>
     (\<forall>g \<in> fst ` set (pr_servers rt). g < pr_next_generation rt) \<and>
     sv_protocol_ids (pr_served_protocols rt) = sort (map fst (pr_registrations rt))"

definition registry_inv :: "registry_system \<Rightarrow> bool" where
  "registry_inv s \<longleftrightarrow> runtime_ok (ry_runtime s) \<and> distinct (map reg_generation (ry_owned s)) \<and>
     (\<forall>reg \<in> set (ry_owned s). reg_generation reg < pr_next_generation (ry_runtime s)) \<and>
     (\<forall>(i, g) \<in> set (pr_registrations (ry_runtime s)). \<lparr>reg_protocol_id = i, reg_generation = g\<rparr> \<in> set (ry_owned s)) \<and>
     mset (ry_created s) = mset (ry_stopped s) + mset (map snd (pr_servers (ry_runtime s)))"

lemma served_replace_ids: "distinct ids \<Longrightarrow> sv_protocol_ids (served_replace ids served) = sort ids"
  by (simp add: served_replace_def Let_def remdups_adj_distinct)

lemma served_replace_le: "sv_revision served \<le> sv_revision (served_replace ids served)"
proof -
  have "a \<le> a + 1" if "a \<noteq> - 1" for a :: u64
  proof -
    have "1 + a \<noteq> 0" using that by (simp add: add_eq_0_iff)
    then show ?thesis by (simp add: word_le_nat_alt unatSuc add.commute)
  qed
  then show ?thesis by (simp add: served_replace_def Let_def)
qed

lemma register_Inr:
  assumes "protocol_register E spec serve rt = (Inr reg, rt')"
  shows "\<exists>server next. serve = Inr server \<and> checked_add (pr_next_generation rt) 1 = Some next \<and> lc_running (pr_lifecycle rt) \<and>
    \<not> hm_contains (pr_registrations rt) (reg_protocol_id reg) \<and> reg_generation reg = pr_next_generation rt \<and>
    rt' = rt\<lparr>pr_next_generation := next, pr_registrations := pr_registrations rt @ [(reg_protocol_id reg, reg_generation reg)],
      pr_servers := hm_insert (reg_generation reg) server (pr_servers rt),
      pr_served_protocols := served_replace (map fst (pr_registrations rt @ [(reg_protocol_id reg, reg_generation reg)])) (pr_served_protocols rt)\<rparr>"
  using assms by (auto simp: protocol_register_def Let_def hm_insert_fresh split: if_splits option.splits sum.splits)

lemma register_Inl:
  assumes "protocol_register E spec serve rt = (Inl e, rt')"
  shows "rt' = rt \<or> (\<exists>next. checked_add (pr_next_generation rt) 1 = Some next \<and> rt' = rt\<lparr>pr_next_generation := next\<rparr>)"
  using assms by (auto simp: protocol_register_def Let_def split: if_splits option.splits sum.splits)

lemma fresh_generation: "runtime_ok rt \<Longrightarrow> \<not> hm_contains (pr_servers rt) (pr_next_generation rt)"
  by (fastforce simp: runtime_ok_def hm_contains_def dest: map_of_SomeD)

lemma runtime_ok_gens: "runtime_ok rt \<Longrightarrow> fst ` set (pr_servers rt) = snd ` set (pr_registrations rt)"
  unfolding runtime_ok_def by (metis mset_eq_setD set_map)

lemma mount_inv:
  assumes "registry_inv s" "protocol_register E spec (Inr server) (ry_runtime s) = (Inr reg, rt)"
  shows "registry_inv (s\<lparr>ry_runtime := rt, ry_owned := reg # ry_owned s, ry_created := server # ry_created s\<rparr>)"
proof -
  let ?rt = "ry_runtime s"
  from register_Inr[OF assms(2)] obtain nxt where
    nxt: "checked_add (pr_next_generation ?rt) 1 = Some nxt" "\<not> hm_contains (pr_registrations ?rt) (reg_protocol_id reg)"
    "reg_generation reg = pr_next_generation ?rt"
    and rt: "rt = ?rt\<lparr>pr_next_generation := nxt, pr_registrations := pr_registrations ?rt @ [(reg_protocol_id reg, reg_generation reg)],
      pr_servers := hm_insert (reg_generation reg) server (pr_servers ?rt),
      pr_served_protocols := served_replace (map fst (pr_registrations ?rt @ [(reg_protocol_id reg, reg_generation reg)])) (pr_served_protocols ?rt)\<rparr>"
    by blast
  have ok: "runtime_ok ?rt" using assms(1) by (simp add: registry_inv_def)
  have less: "pr_next_generation ?rt < nxt" using checked_add_less[OF nxt(1)] by simp
  have servers: "pr_servers rt = pr_servers ?rt @ [(reg_generation reg, server)]"
    using fresh_generation[OF ok] by (simp add: rt nxt(3) hm_insert_fresh)
  have new_id: "reg_protocol_id reg \<notin> fst ` set (pr_registrations ?rt)"
    using nxt(2) by (simp add: hm_contains_def map_of_eq_None_iff)
  have new_gen: "reg_generation reg \<notin> fst ` set (pr_servers ?rt)" "reg_generation reg \<notin> snd ` set (pr_registrations ?rt)"
    using fresh_generation[OF ok] runtime_ok_gens[OF ok] by (simp_all add: nxt(3) hm_contains_def map_of_eq_None_iff)
  have distinct: "distinct (map fst (pr_registrations ?rt @ [(reg_protocol_id reg, reg_generation reg)]))"
    using new_id ok by (auto simp: runtime_ok_def hm_ok_def)
  have "runtime_ok rt"
    using ok new_id new_gen less servers served_replace_ids[OF distinct]
    by (auto simp: runtime_ok_def hm_ok_def nxt(3) rt dest: order.strict_trans)
  moreover have "reg_generation reg \<notin> reg_generation ` set (ry_owned s)"
    using assms(1) by (force simp: registry_inv_def nxt(3))
  moreover have "g < nxt" if "g < pr_next_generation ?rt" for g using that less by (rule order.strict_trans)
  ultimately show ?thesis
    using assms(1) less servers by (auto simp: registry_inv_def nxt(3) rt)
qed

lemma remove_mset:
  assumes "hm_ok m" "map_of m k = Some v"
  shows "mset m = add_mset (k, v) (mset (hm_remove k m))"
  using assms
proof (induction m)
  case (Cons x m)
  then show ?case by (cases x) (auto simp: hm_ok_def hm_remove_def dest: map_of_SomeD split: if_splits)
qed simp

lemma take_ok:
  assumes ok: "runtime_ok rt" and take: "take_server reg rt = (server, rt')"
    and own: "\<And>i. (i, reg_generation reg) \<in> set (pr_registrations rt) \<Longrightarrow> i = reg_protocol_id reg"
  shows "runtime_ok rt' \<and> pr_next_generation rt' = pr_next_generation rt \<and> pr_lifecycle rt' = pr_lifecycle rt \<and>
    set (pr_registrations rt') \<subseteq> {(i, g) \<in> set (pr_registrations rt). g \<noteq> reg_generation reg} \<and>
    mset (map snd (pr_servers rt)) = mset (case server of None \<Rightarrow> [] | Some v \<Rightarrow> [v]) + mset (map snd (pr_servers rt'))"
proof (cases "map_of (pr_registrations rt) (reg_protocol_id reg) = Some (reg_generation reg)")
  case True
  let ?regs = "hm_remove (reg_protocol_id reg) (pr_registrations rt)"
  let ?servers = "hm_remove (reg_generation reg) (pr_servers rt)"
  have hm: "hm_ok (pr_registrations rt)" "hm_ok (pr_servers rt)" using ok by (simp_all add: runtime_ok_def)
  have "(reg_protocol_id reg, reg_generation reg) \<in> set (pr_registrations rt)" using True by (rule map_of_SomeD)
  then have "reg_generation reg \<in> fst ` set (pr_servers rt)"
    unfolding runtime_ok_gens[OF ok] by (metis image_eqI snd_conv)
  then obtain v where slot: "map_of (pr_servers rt) (reg_generation reg) = Some v"
    using hm(2) by (auto simp: hm_ok_def)
  have rt': "rt' = rt\<lparr>pr_registrations := ?regs, pr_served_protocols := served_replace (map fst ?regs) (pr_served_protocols rt),
      pr_servers := ?servers\<rparr>" and server: "server = Some v"
    using take True slot by (simp_all add: take_server_def Let_def)
  note regs = remove_mset[OF hm(1) True] and servers = remove_mset[OF hm(2) slot]
  have snds: "mset (map snd (pr_registrations rt)) = add_mset (reg_generation reg) (mset (map snd ?regs))"
    and fsts: "mset (map fst (pr_servers rt)) = add_mset (reg_generation reg) (mset (map fst ?servers))"
    and vals: "mset (map snd (pr_servers rt)) = add_mset v (mset (map snd ?servers))"
    using regs servers by simp_all
  have hm': "hm_ok ?regs" "hm_ok ?servers" using hm by (simp_all add: hm_ok_def hm_remove_def distinct_delete)
  have dist: "distinct (reg_generation reg # map snd ?regs)"
  proof (rule distinct_sub_mset)
    show "distinct (map snd (pr_registrations rt))" using ok by (simp add: runtime_ok_def)
    show "mset (reg_generation reg # map snd ?regs) \<subseteq># mset (map snd (pr_registrations rt))" unfolding snds by simp
  qed
  have sub: "set ?regs \<subseteq> set (pr_registrations rt)" "set ?servers \<subseteq> set (pr_servers rt)"
    by (auto simp: hm_remove_def AList.delete_eq)
  have gens: "\<forall>g \<in> fst ` set ?servers. g < pr_next_generation rt" using ok sub(2) by (auto simp: runtime_ok_def)
  have "mset (map fst (pr_servers rt)) = mset (map snd (pr_registrations rt))" using ok unfolding runtime_ok_def by blast
  then have same: "mset (map fst ?servers) = mset (map snd ?regs)" unfolding snds fsts by (rule add_mset_add_mset_same_iff[THEN iffD1])
  have "runtime_ok rt'"
    using hm' dist gens same served_replace_ids[of "map fst ?regs"] unfolding runtime_ok_def rt' by (simp add: hm_ok_def)
  moreover have "set ?regs \<subseteq> {(i, g) \<in> set (pr_registrations rt). g \<noteq> reg_generation reg}"
    using sub(1) dist by force
  ultimately show ?thesis using vals by (simp add: rt' server)
next
  case False
  have none: "reg_generation reg \<notin> fst ` set (pr_servers rt)"
    unfolding runtime_ok_gens[OF ok]
  proof
    assume "reg_generation reg \<in> snd ` set (pr_registrations rt)"
    then obtain i where "(i, reg_generation reg) \<in> set (pr_registrations rt)" by force
    moreover from this have "i = reg_protocol_id reg" by (rule own)
    ultimately have "map_of (pr_registrations rt) (reg_protocol_id reg) = Some (reg_generation reg)"
      using ok by (simp add: runtime_ok_def hm_ok_def)
    with False show False ..
  qed
  then have "server = None" "rt' = rt"
    using take False by (auto simp: take_server_def Let_def map_of_eq_None_iff hm_remove_def)
  moreover have "reg_generation reg \<notin> snd ` set (pr_registrations rt)" using none runtime_ok_gens[OF ok] by simp
  ultimately show ?thesis using ok by force
qed

lemma registry_release_inv:
  assumes inv: "registry_inv s" and reg: "reg \<in> set (ry_owned s)" and take: "take_server reg (ry_runtime s) = (server, rt)"
  shows "registry_inv (s\<lparr>ry_runtime := rt, ry_owned := remove1 reg (ry_owned s),
    ry_stopped := (case server of None \<Rightarrow> [] | Some v \<Rightarrow> [v]) @ ry_stopped s\<rparr>)"
proof -
  have own: "i = reg_protocol_id reg" if "(i, reg_generation reg) \<in> set (pr_registrations (ry_runtime s))" for i
  proof -
    from inv that have "\<lparr>reg_protocol_id = i, reg_generation = reg_generation reg\<rparr> \<in> set (ry_owned s)" by (auto simp: registry_inv_def)
    with inv reg have "\<lparr>reg_protocol_id = i, reg_generation = reg_generation reg\<rparr> = reg"
      unfolding registry_inv_def distinct_map by (metis inj_onD protocol_registration.select_convs(2))
    then show ?thesis by (metis protocol_registration.select_convs(1))
  qed
  have "runtime_ok (ry_runtime s)" using inv by (simp add: registry_inv_def)
  note ok = take_ok[OF this take own]
  have "distinct (map reg_generation (remove1 reg (ry_owned s)))"
    using inv by (auto simp: registry_inv_def distinct_map intro: inj_on_subset)
  moreover have "\<lparr>reg_protocol_id = i, reg_generation = g\<rparr> \<in> set (remove1 reg (ry_owned s))" if "(i, g) \<in> set (pr_registrations rt)" for i g
  proof -
    from that ok have "(i, g) \<in> set (pr_registrations (ry_runtime s))" "g \<noteq> reg_generation reg" by blast+
    with inv have "\<lparr>reg_protocol_id = i, reg_generation = g\<rparr> \<in> set (ry_owned s)" "\<lparr>reg_protocol_id = i, reg_generation = g\<rparr> \<noteq> reg"
      by (auto simp: registry_inv_def)
    then show ?thesis by simp
  qed
  moreover have "mset (ry_created s) = mset (ry_stopped s) + mset (map snd (pr_servers (ry_runtime s)))"
    using inv by (simp add: registry_inv_def)
  ultimately show ?thesis
    using ok inv by (auto simp: registry_inv_def dest: subsetD[OF set_remove1_subset])
qed

lemma drain_all:
  assumes "runtime_ok rt" "drain_servers rt = (servers, rt')"
  shows "rt' = rt\<lparr>pr_registrations := [], pr_servers := [], pr_served_protocols := served_replace [] (pr_served_protocols rt)\<rparr>"
    "mset servers = mset (map snd (pr_servers rt))"
proof -
  have none: "filter (\<lambda>(g, _). g \<notin> snd ` set (pr_registrations rt)) (pr_servers rt) = []"
    using runtime_ok_gens[OF assms(1)] by (force simp: filter_empty_conv)
  then show "rt' = rt\<lparr>pr_registrations := [], pr_servers := [], pr_served_protocols := served_replace [] (pr_served_protocols rt)\<rparr>"
    using assms(2) by (auto simp: drain_servers_def)
  have get: "(g, v) \<in> set (pr_servers rt) \<Longrightarrow> map_of (pr_servers rt) g = Some v" for g v
    using assms(1) by (simp add: runtime_ok_def hm_ok_def)
  have "List.map_filter (\<lambda>(_, g). map_of (pr_servers rt) g) regs = map (the \<circ> map_of (pr_servers rt)) (map snd regs)"
    if "snd ` set regs \<subseteq> fst ` set (pr_servers rt)" for regs :: "(string \<times> u64) list"
    using that by (induction regs) (auto simp: List.map_filter_simps get)
  then have "servers = map (the \<circ> map_of (pr_servers rt)) (map snd (pr_registrations rt))"
    using assms(2) runtime_ok_gens[OF assms(1)] by (simp add: drain_servers_def)
  then have "mset servers = image_mset (the \<circ> map_of (pr_servers rt)) (mset (map snd (pr_registrations rt)))"
    by (simp add: multiset.map_comp)
  also have "mset (map snd (pr_registrations rt)) = mset (map fst (pr_servers rt))" using assms(1) by (simp add: runtime_ok_def)
  also have "image_mset (the \<circ> map_of (pr_servers rt)) (mset (map fst (pr_servers rt))) = mset (map (the \<circ> map_of (pr_servers rt)) (map fst (pr_servers rt)))"
    by (simp add: multiset.map_comp)
  also have "map (the \<circ> map_of (pr_servers rt)) (map fst (pr_servers rt)) = map snd (pr_servers rt)"
    using get by (auto simp: comp_def)
  finally show "mset servers = mset (map snd (pr_servers rt))" .
qed

lemma registry_inv_start: "registry_inv (registry_start domain routes)"
  by (simp add: registry_inv_def runtime_ok_def registry_start_def peer_protocols_new_def served_protocols_new_def hm_ok_def)

lemma registry_inv_step:
  assumes "registry_step E s t" "registry_inv s"
  shows "registry_inv t"
  using assms
proof cases
  case (mount spec server reg rt)
  with mount_inv[OF assms(2)] show ?thesis by blast
next
  case (refused spec serve e rt)
  from register_Inl[OF refused(2)] show ?thesis
  proof
    assume "\<exists>next. checked_add (pr_next_generation (ry_runtime s)) 1 = Some next \<and> rt = ry_runtime s\<lparr>pr_next_generation := next\<rparr>"
    then obtain nxt where nxt: "rt = ry_runtime s\<lparr>pr_next_generation := nxt\<rparr>" "pr_next_generation (ry_runtime s) < nxt"
      using checked_add_less by fastforce
    then have "g < nxt" if "g < pr_next_generation (ry_runtime s)" for g using that by simp
    with assms(2) nxt(1) refused(1) show ?thesis by (auto simp: registry_inv_def runtime_ok_def)
  qed (use assms(2) refused(1) in simp)
next
  case (release reg server rt)
  with registry_release_inv[OF assms(2)] show ?thesis by blast
next
  case fence
  with assms(2) show ?thesis by (simp add: registry_inv_def runtime_ok_def protocols_fence_def)
next
  case (drain servers rt)
  have ok: "runtime_ok (ry_runtime s)" using assms(2) by (simp add: registry_inv_def)
  from drain_all[OF ok drain(3)] assms(2) show ?thesis
    by (auto simp: drain(1) registry_inv_def runtime_ok_def hm_ok_def served_replace_ids)
qed

interpretation registry_sys: ranked_system "registry_step E" registry_inv
  "\<lambda>s. sv_revision (pr_served_protocols (ry_runtime s))" for E
proof unfold_locales
  show "registry_inv s \<Longrightarrow> registry_step E s t \<Longrightarrow> registry_inv t" for s t by (rule registry_inv_step)
  show "sv_revision (pr_served_protocols (ry_runtime s)) \<le> sv_revision (pr_served_protocols (ry_runtime t))"
    if "registry_inv s" "registry_step E s t" for s t
    using that(2)
  proof cases
    case (mount spec server reg rt)
    then show ?thesis using served_replace_le by (auto dest!: register_Inr)
  next
    case (refused spec serve e rt)
    then show ?thesis by (auto dest!: register_Inl)
  qed (use served_replace_le in \<open>auto simp: take_server_def drain_servers_def protocols_fence_def Let_def split: if_splits\<close>)
qed

text \<open>Once a fenced registry is drained, it stays empty.\<close>

lemma drained_step:
  assumes "registry_step E s t" "\<not> lc_running (pr_lifecycle (ry_runtime s)) \<and> pr_registrations (ry_runtime s) = [] \<and> pr_servers (ry_runtime s) = []"
  shows "\<not> lc_running (pr_lifecycle (ry_runtime t)) \<and> pr_registrations (ry_runtime t) = [] \<and> pr_servers (ry_runtime t) = []"
  using assms
proof cases
  case (mount spec server reg rt)
  with assms(2) show ?thesis by (auto dest!: register_Inr)
next
  case (refused spec serve e rt)
  with assms(2) show ?thesis by (auto dest!: register_Inl)
qed (use assms(2) in \<open>auto simp: take_server_def drain_servers_def protocols_fence_def lifecycle_fence_def Let_def hm_remove_def\<close>)

interpretation drained_sys: invariant_system "registry_step E"
  "\<lambda>s. \<not> lc_running (pr_lifecycle (ry_runtime s)) \<and> pr_registrations (ry_runtime s) = [] \<and> pr_servers (ry_runtime s) = []" for E
  by unfold_locales (rule drained_step)

text \<open>C36: The published list of protocols is exactly the set of mounted protocols, and no server is lost. In every
  reachable state the list is the sorted list of the registered identifiers, without repetition; each of
  them is owned by a registration of its generation and has a server; every server the node has handed out
  is either still mounted or has been taken out, exactly once. From there, the revision of the list never
  decreases, and a fenced registry that has been drained stays empty for ever.\<close>

theorem mounted_protocols_exact:
  assumes "(registry_step E)\<^sup>*\<^sup>* (registry_start domain routes) s"
  shows "sv_protocol_ids (pr_served_protocols (ry_runtime s)) = sort (map fst (pr_registrations (ry_runtime s))) \<and>
    distinct (map fst (pr_registrations (ry_runtime s))) \<and>
    (\<forall>(i, g) \<in> set (pr_registrations (ry_runtime s)). \<lparr>reg_protocol_id = i, reg_generation = g\<rparr> \<in> set (ry_owned s) \<and>
      map_of (pr_servers (ry_runtime s)) g \<noteq> None) \<and>
    mset (ry_created s) = mset (ry_stopped s) + mset (map snd (pr_servers (ry_runtime s))) \<and>
    (\<forall>t. (registry_step E)\<^sup>*\<^sup>* s t \<longrightarrow>
      sv_revision (pr_served_protocols (ry_runtime s)) \<le> sv_revision (pr_served_protocols (ry_runtime t)) \<and>
      (\<not> lc_running (pr_lifecycle (ry_runtime s)) \<and> pr_registrations (ry_runtime s) = [] \<longrightarrow>
        pr_registrations (ry_runtime t) = [] \<and> pr_servers (ry_runtime t) = []))"
proof -
  have inv: "registry_inv s" using registry_sys.run_inv[OF assms registry_inv_start] .
  then have ok: "runtime_ok (ry_runtime s)" by (simp add: registry_inv_def)
  have "map_of (pr_servers (ry_runtime s)) g \<noteq> None" if "(i, g) \<in> set (pr_registrations (ry_runtime s))" for i g
    unfolding map_of_eq_None_iff runtime_ok_gens[OF ok] using that by force
  with inv have owned: "\<forall>(i, g) \<in> set (pr_registrations (ry_runtime s)). \<lparr>reg_protocol_id = i, reg_generation = g\<rparr> \<in> set (ry_owned s) \<and>
      map_of (pr_servers (ry_runtime s)) g \<noteq> None"
    unfolding registry_inv_def by blast
  have empty: "pr_servers (ry_runtime s) = []" if "pr_registrations (ry_runtime s) = []"
    using that runtime_ok_gens[OF ok] by simp
  have later: "sv_revision (pr_served_protocols (ry_runtime s)) \<le> sv_revision (pr_served_protocols (ry_runtime t)) \<and>
      (\<not> lc_running (pr_lifecycle (ry_runtime s)) \<and> pr_registrations (ry_runtime s) = [] \<longrightarrow>
        pr_registrations (ry_runtime t) = [] \<and> pr_servers (ry_runtime t) = [])" if "(registry_step E)\<^sup>*\<^sup>* s t" for t
    using registry_sys.run_rank[OF that inv] drained_sys.run_inv[OF that] empty by blast
  have "sv_protocol_ids (pr_served_protocols (ry_runtime s)) = sort (map fst (pr_registrations (ry_runtime s)))"
    "distinct (map fst (pr_registrations (ry_runtime s)))"
    using ok by (simp_all add: runtime_ok_def hm_ok_def)
  moreover have "mset (ry_created s) = mset (ry_stopped s) + mset (map snd (pr_servers (ry_runtime s)))"
    using inv unfolding registry_inv_def by blast
  ultimately show ?thesis using owned later by blast
qed

definition mounted_system :: registry_system where
  "mounted_system = (registry_start 7 [])\<lparr>ry_runtime := (peer_protocols_new 7 [] lifecycle_new)\<lparr>pr_registrations := [(''/x/1'', 1)],
     pr_servers := [(1, 9)], pr_next_generation := 2, pr_served_protocols := \<lparr>sv_revision = 1, sv_protocol_ids = [''/x/1'']\<rparr>\<rparr>,
     ry_owned := [\<lparr>reg_protocol_id = ''/x/1'', reg_generation = 1\<rparr>], ry_created := [9]\<rparr>"

lemma mounted_run: "(registry_step sample_env)\<^sup>*\<^sup>* (registry_start 7 []) mounted_system"
proof -
  let ?spec = "\<lparr>ks_protocol_id = ''/x/1'', ks_inner = \<lparr>spec_protocol = ''/x/1'', spec_max_concurrency = 1, spec_max_frame_bytes = 1\<rparr>\<rparr>"
  have "session_requirements_new sample_env (uuid_to_string sample_env 7) = Inr \<lparr>sr_domain_id = 7, sr_expected_remote_peer_id = None\<rparr>"
    by (simp add: session_requirements_new_def sample_env_def dec_eval)
  then have "protocol_register sample_env ?spec (Inr 9) (ry_runtime (registry_start 7 [])) =
      (Inr \<lparr>reg_protocol_id = ''/x/1'', reg_generation = 1\<rparr>, ry_runtime mounted_system)"
    by (simp add: protocol_register_def registry_start_def peer_protocols_new_def lifecycle_new_def hm_contains_def hm_insert_def
        checked_add_def served_replace_def served_protocols_new_def mounted_system_def)
  from registry_step.mount[OF this] show ?thesis
    by (auto simp: mounted_system_def registry_start_def)
qed

theorem mounted_protocols_exact_witness:
  "sv_protocol_ids (pr_served_protocols (ry_runtime mounted_system)) = [''/x/1''] \<and>
    map_of (pr_servers (ry_runtime mounted_system)) 1 \<noteq> None \<and> mset (ry_created mounted_system) = {#9#}"
  using mounted_protocols_exact[OF mounted_run] by (simp add: mounted_system_def registry_start_def)

end
