(* ===== verification/Resolution.thy ===== *)
theory Resolution
  imports Discovery_Safety Peer_Protocols "HOL-Library.Sublist"
begin

text \<open>
  Connecting to a peer that a lookup has found (\<open>core/auki-sdk/src/resolution.rs\<close>), on a native platform:
  the advertised routes are tried in order, and a stream is handed out only after the signed identity of
  the other side has been compared with the one that was asked for. Here the lookup of \<open>Discovery\<close> and the
  opening of \<open>Peer_Protocols\<close> come together.
\<close>

section \<open>Opening a resolved peer\<close>

definition matches_authenticated :: "token_env \<Rightarrow> auki_peer_identity \<Rightarrow> authenticated_peer \<Rightarrow> bool" where
  "matches_authenticated E identity peer =
     (case identity of
        PeerIdentity i \<Rightarrow> ap_peer_id peer = i
      | RobotIdentity i \<Rightarrow> ap_peer_type peer = Some ''robot'' \<and> ap_subject peer = uuid_to_string E i
      | ComputeIdentity i \<Rightarrow> ap_peer_type peer = Some ''compute'' \<and> ap_subject peer = uuid_to_string E i)"

datatype peer_connect_error =
    WrongDomain
  | AdvertisementExpired
  | NoSupportedRoutes
  | ConnectTimedOut
  | ProtocolFailure protocol_error
  | AllResolvedRoutesFailed "route_attempt list"
  | IdentityMismatch bool
  | ConnectPanic string

definition supported_route :: "bool \<Rightarrow> candidate_route_kind \<Rightarrow> bool" where
  "supported_route wasm32 kind = (if wasm32 then kind = RelayWss else kind \<in> {DirectTcp, RelayTcp})"

text \<open>\<open>chars().take(n)\<close> on UTF-8: a byte of the form \<open>10xxxxxx\<close> continues a character.\<close>

fun take_chars :: "nat \<Rightarrow> string \<Rightarrow> string" where
  "take_chars n [] = []"
| "take_chars n (b # bs) =
     (if 128 \<le> byte b \<and> byte b < 192 then b # take_chars n bs
      else case n of 0 \<Rightarrow> [] | Suc m \<Rightarrow> b # take_chars m bs)"

fun open_resolved_from ::
  "token_env \<Rightarrow> (string \<Rightarrow> (string, string) result) \<Rightarrow> opening_world \<Rightarrow> nat \<Rightarrow> uuid \<Rightarrow> auki_resolved_peer \<Rightarrow> multiaddr list \<Rightarrow>
    route_attempt list \<Rightarrow> (peer_connect_error, route_stream) result \<times> opening_action list"
where
  "open_resolved_from E try_from_owned w n domain resolved [] attempts =
     (Inl (if attempts = [] then NoSupportedRoutes else AllResolvedRoutesFailed attempts), [])"
| "open_resolved_from E try_from_owned w n domain resolved (route # routes) attempts =
     (let c = rp_candidate resolved
      in case canonicalize_candidate_route (te_codec E) route (dc_peer_id c) of
           Inl _ \<Rightarrow> (Inl (ConnectPanic ''discovery has already validated each candidate route''), [])
         | Inr canonical \<Rightarrow>
             if \<not> supported_route False (cand_kind canonical)
             then open_resolved_from E try_from_owned w (n + 1) domain resolved routes attempts
             else if dc_expires_at c \<le> ow_now w (n + 1) then (Inl AdvertisementExpired, [])
             else case open_exact E try_from_owned w n domain (dc_peer_id c) route (rp_protocol_id resolved) of
               (Inr stream, log) \<Rightarrow>
                 if ap_peer_id (rst_remote_peer stream) = dc_peer_id c \<and>
                    matches_authenticated E (rp_identity resolved) (rst_remote_peer stream)
                 then (Inr stream, log)
                 else (Inl (IdentityMismatch (\<not> ow_close_in_time w n)), log @ [ClosedRejected (rst_number stream)])
             | (Inl (P2pFailure e), log) \<Rightarrow>
                 (case open_resolved_from E try_from_owned w (n + 1) domain resolved routes
                    (attempts @ [\<lparr>ra_route = route, ra_error = take_chars 1024 (ow_render w e),
                       ra_unsupported_protocol = is_unsupported_protocol e\<rparr>])
                  of (r, rest) \<Rightarrow> (r, log @ rest))
             | (Inl e, log) \<Rightarrow> (Inl (ProtocolFailure e), log))"

definition open_resolved_routes ::
  "token_env \<Rightarrow> (string \<Rightarrow> (string, string) result) \<Rightarrow> opening_world \<Rightarrow> uuid \<Rightarrow> auki_resolved_peer \<Rightarrow>
    (peer_connect_error, route_stream) result \<times> opening_action list"
where
  "open_resolved_routes E try_from_owned w domain resolved =
     (if dc_expires_at (rp_candidate resolved) \<le> ow_now w 0 then (Inl AdvertisementExpired, [])
      else open_resolved_from E try_from_owned w 0 domain resolved (dc_routes (rp_candidate resolved)) [])"

text \<open>\<open>late\<close>: thirty seconds pass after that many actions; the operation is then dropped.\<close>

definition open_resolved ::
  "token_env \<Rightarrow> (string \<Rightarrow> (string, string) result) \<Rightarrow> opening_world \<Rightarrow> uuid \<Rightarrow> nat option \<Rightarrow> auki_resolved_peer \<Rightarrow>
    (peer_connect_error, route_stream) result \<times> opening_action list"
where
  "open_resolved E try_from_owned w domain late resolved =
     (if domain \<noteq> rp_domain_id resolved then (Inl WrongDomain, [])
      else case open_resolved_routes E try_from_owned w domain resolved of (r, log) \<Rightarrow>
        (case late of None \<Rightarrow> (r, log) | Some k \<Rightarrow> (Inl ConnectTimedOut, take k log)))"

section \<open>What is dialed, and what is handed out\<close>

fun dialed_route :: "opening_action \<Rightarrow> multiaddr option" where
  "dialed_route (DialedRoute _ route _) = Some route"
| "dialed_route (ClosedRejected _) = None"

definition dialed :: "opening_action list \<Rightarrow> multiaddr list" where
  "dialed log = List.map_filter dialed_route log"

definition dialable :: "addr_codec \<Rightarrow> peer_id \<Rightarrow> multiaddr list \<Rightarrow> multiaddr list" where
  "dialable C peer routes = List.map_filter (\<lambda>route. case canonicalize_candidate_route C route peer of
     Inr c \<Rightarrow> if supported_route False (cand_kind c) then Some (cand_route c) else None | Inl _ \<Rightarrow> None) routes"

definition dials_for :: "uuid \<Rightarrow> peer_id \<Rightarrow> opening_action \<Rightarrow> bool" where
  "dials_for domain peer a = (case a of
       DialedRoute p _ req \<Rightarrow> p = peer \<and> req = \<lparr>sr_domain_id = domain, sr_expected_remote_peer_id = Some peer\<rparr>
     | ClosedRejected _ \<Rightarrow> True)"

lemma dialed_simps [simp]:
  "dialed [] = []" "dialed (DialedRoute p r q # log) = r # dialed log" "dialed (ClosedRejected i # log) = dialed log"
  "dialed (xs @ ys) = dialed xs @ dialed ys"
  by (simp_all add: dialed_def List.map_filter_def)

lemma session_domain:
  assumes "session_requirements_new E (uuid_to_string E domain) = Inr req" "\<And>u. uuid_parse_str E (uuid_to_string E u) = Some u"
  shows "req = \<lparr>sr_domain_id = domain, sr_expected_remote_peer_id = None\<rparr>"
  using assms by (auto simp: session_requirements_new_def and_then_eq_Inr split: if_splits)

lemma open_exact_dials:
  assumes "open_exact E f w n domain peer route protocol_id = (r, log)" "canonicalize_candidate_route (te_codec E) route peer = Inr c"
    "\<And>u. uuid_parse_str E (uuid_to_string E u) = Some u"
  shows "(log = [] \<or> log = [DialedRoute peer (cand_route c) \<lparr>sr_domain_id = domain, sr_expected_remote_peer_id = Some peer\<rparr>]) \<and>
    (\<forall>stream. r = Inr stream \<longrightarrow> log \<noteq> [])"
  using assms(1,2) session_domain[OF _ assms(3), of domain]
  by (auto simp: open_exact_def canonicalize_candidate_def open_validated_def with_expected_remote_peer_id_def Let_def
      split: sum.splits if_splits option.splits)

lemma dialable_Cons:
  "canonicalize_candidate_route C route peer = Inr c \<Longrightarrow>
    dialable C peer (route # routes) = (if supported_route False (cand_kind c) then [cand_route c] else []) @ dialable C peer routes"
  by (simp add: dialable_def List.map_filter_def)

definition resolved_ok ::
  "token_env \<Rightarrow> opening_world \<Rightarrow> uuid \<Rightarrow> auki_resolved_peer \<Rightarrow> multiaddr list \<Rightarrow>
    (peer_connect_error, route_stream) result \<Rightarrow> opening_action list \<Rightarrow> bool"
where
  "resolved_ok E w domain resolved routes r log \<longleftrightarrow>
     subseq (dialed log) (dialable (te_codec E) (dc_peer_id (rp_candidate resolved)) routes) \<and>
     list_all (dials_for domain (dc_peer_id (rp_candidate resolved))) log \<and>
     (\<forall>stream. r = Inr stream \<longrightarrow> ap_peer_id (rst_remote_peer stream) = dc_peer_id (rp_candidate resolved) \<and>
        matches_authenticated E (rp_identity resolved) (rst_remote_peer stream) \<and>
        (\<exists>m. ow_now w m < dc_expires_at (rp_candidate resolved)) \<and> dialed log \<noteq> []) \<and>
     ((\<exists>i. ClosedRejected i \<in> set log) \<longleftrightarrow> (\<exists>failed. r = Inl (IdentityMismatch failed)))"

lemma resolved_ok_dial:
  assumes "canonicalize_candidate_route (te_codec E) route (dc_peer_id (rp_candidate resolved)) = Inr c" "supported_route False (cand_kind c)"
    "log = [] \<or> log = [DialedRoute (dc_peer_id (rp_candidate resolved)) (cand_route c)
      \<lparr>sr_domain_id = domain, sr_expected_remote_peer_id = Some (dc_peer_id (rp_candidate resolved))\<rparr>]"
    "resolved_ok E w domain resolved routes r rest"
  shows "resolved_ok E w domain resolved (route # routes) r (log @ rest)"
  using assms by (auto simp: resolved_ok_def dialable_Cons dials_for_def)

lemma open_resolved_from_ok:
  assumes "open_resolved_from E f w n domain resolved routes attempts = (r, log)"
    "\<And>u. uuid_parse_str E (uuid_to_string E u) = Some u"
  shows "resolved_ok E w domain resolved routes r log"
  using assms(1)
proof (induction routes arbitrary: n attempts r log)
  case Nil
  then show ?case by (auto simp: resolved_ok_def dialable_def List.map_filter_def split: if_splits)
next
  case (Cons route routes)
  let ?c = "rp_candidate resolved"
  let ?dial = "open_exact E f w n domain (dc_peer_id ?c) route (rp_protocol_id resolved)"
  show ?case
  proof (cases "canonicalize_candidate_route (te_codec E) route (dc_peer_id ?c)")
    case (Inl e)
    with Cons.prems show ?thesis by (auto simp: resolved_ok_def)
  next
    case (Inr canonical)
    have stop: "resolved_ok E w domain resolved (route # routes) (Inl e) []" if "\<And>b. e \<noteq> IdentityMismatch b" for e
      using that by (auto simp: resolved_ok_def)
    obtain dr dlog where dial: "?dial = (dr, dlog)" by fastforce
    note d = open_exact_dials[OF dial Inr assms(2)]
    consider "\<not> supported_route False (cand_kind canonical)" | "supported_route False (cand_kind canonical)" "dc_expires_at ?c \<le> ow_now w (n + 1)"
      | "supported_route False (cand_kind canonical)" "ow_now w (n + 1) < dc_expires_at ?c" by linarith
    then show ?thesis
    proof cases
      case 1
      with Cons.prems Inr have "open_resolved_from E f w (n + 1) domain resolved routes attempts = (r, log)" by simp
      from Cons.IH[OF this] show ?thesis using 1 Inr by (simp add: resolved_ok_def dialable_Cons)
    next
      case 2
      with Cons.prems Inr stop[of AdvertisementExpired] show ?thesis by simp
    next
      case 3
      note step = Cons.prems[unfolded open_resolved_from.simps Let_def Inr sum.case dial] and ext = resolved_ok_dial[OF Inr 3(1)]
      have final: "resolved_ok E w domain resolved routes (Inl e) []" if "\<And>b. e \<noteq> IdentityMismatch b" for e
        using that by (auto simp: resolved_ok_def)
      show ?thesis
      proof (cases dr)
        case (Inr stream)
        with step 3 d show ?thesis
          by (auto simp: resolved_ok_def dialable_Cons[OF \<open>canonicalize_candidate_route _ _ _ = Inr canonical\<close>] dials_for_def split: if_splits)
      next
        case (Inl e)
        show ?thesis
        proof (cases "\<exists>x. e = P2pFailure x")
          case True
          with step Inl 3 obtain a rest where "open_resolved_from E f w (n + 1) domain resolved routes a = (r, rest)" "log = dlog @ rest"
            by (auto split: prod.splits)
          with ext[of dlog] Cons.IH d show ?thesis by blast
        next
          case False
          with step Inl 3 have "r = Inl (ProtocolFailure e)" "log = dlog" by (auto split: protocol_error.splits)
          with ext[of dlog, OF _ final[of "ProtocolFailure e"]] d show ?thesis by auto
        qed
      qed
    qed
  qed
qed

text \<open>C9: A stream to a resolved peer is handed out only after its signed identity has been verified. Whatever
  the network answers, an attempt dials a part of the supported canonical routes of the candidate, in
  their order and each at most once, always requiring the Domain and the Peer ID of the candidate; and if
  it returns a stream, then the Domain is that of the lookup, the authenticated peer has the Peer ID of
  the candidate, its signed subject and type are those of the requested machine, a route was dialed, and
  the advertisement had not expired at a reading of the clock. A stream of another identity is closed.\<close>

theorem resolved_stream_authenticated:
  assumes "open_resolved E try_from_owned w domain late resolved = (r, log)"
    "\<And>u. uuid_parse_str E (uuid_to_string E u) = Some u"
  shows "subseq (dialed log) (dialable (te_codec E) (dc_peer_id (rp_candidate resolved)) (dc_routes (rp_candidate resolved))) \<and>
    list_all (dials_for domain (dc_peer_id (rp_candidate resolved))) log \<and>
    (\<forall>stream. r = Inr stream \<longrightarrow> domain = rp_domain_id resolved \<and>
      ap_peer_id (rst_remote_peer stream) = dc_peer_id (rp_candidate resolved) \<and>
      matches_authenticated E (rp_identity resolved) (rst_remote_peer stream) \<and>
      (\<exists>m. ow_now w m < dc_expires_at (rp_candidate resolved)) \<and> dialed log \<noteq> []) \<and>
    (\<forall>failed. r = Inl (IdentityMismatch failed) \<longrightarrow> (\<exists>i. ClosedRejected i \<in> set log))"
proof (cases "domain = rp_domain_id resolved \<and> \<not> dc_expires_at (rp_candidate resolved) \<le> ow_now w 0")
  case False
  with assms(1) show ?thesis by (auto simp: open_resolved_def open_resolved_routes_def split: if_splits option.splits)
next
  case True
  let ?routes = "dc_routes (rp_candidate resolved)"
  obtain r0 log0 where run: "open_resolved_from E try_from_owned w 0 domain resolved ?routes [] = (r0, log0)" by fastforce
  note ok = open_resolved_from_ok[OF run assms(2)]
  have cut: "subseq (dialed (take k log0)) (dialed log0)" for k
    by (metis append_take_drop_id dialed_simps(4) list_emb_append2 subseq_order.order_refl subseq_rev_drop_many)
  show ?thesis
  proof (cases late)
    case None
    with assms(1) True run have "r = r0" "log = log0" by (auto simp: open_resolved_def open_resolved_routes_def)
    with ok True show ?thesis by (auto simp: resolved_ok_def)
  next
    case (Some k)
    with assms(1) True run have "r = Inl ConnectTimedOut" "log = take k log0" by (auto simp: open_resolved_def open_resolved_routes_def)
    with ok cut[of k] show ?thesis
      by (auto simp: resolved_ok_def list_all_iff dest: in_set_takeD intro: subseq_order.order_trans)
  qed
qed

section \<open>The assertion about validated routes\<close>

lemma open_resolved_panic:
  assumes "open_resolved_from E f w n domain resolved routes attempts = (Inl (ConnectPanic msg), log)"
  shows "\<exists>route e. route \<in> set routes \<and> canonicalize_candidate_route (te_codec E) route (dc_peer_id (rp_candidate resolved)) = Inl e"
  using assms
proof (induction routes arbitrary: n attempts log)
  case (Cons route routes)
  then show ?case
    by (fastforce simp: Let_def split: sum.splits if_splits prod.splits protocol_error.splits)
qed (simp split: if_splits)

text \<open>The assertion that a lookup has validated every route holds for settled routes only: if connecting
  to a candidate of a lookup panics, then the candidate has a direct route whose host still ends with a
  dot. (Routes stay within the size limit.)\<close>

theorem resolved_panic_unsettled:
  assumes "discover_filtered T base domain local_peer protocol identity dw s = (Inr cs, s')" "codec_ok (tc_addr T)"
    "te_codec E = tc_addr T" "rp_candidate resolved \<in> set cs"
    "\<forall>route \<in> set (dc_routes (rp_candidate resolved)). ma_encoded_len (te_codec E) route \<le> CANDIDATE_ROUTE_MAX_BYTES"
    "open_resolved E try_from_owned w own late resolved = (Inl (ConnectPanic msg), log)"
  shows "\<exists>network port. [network, Tcp port] \<in> set (dc_routes (rp_candidate resolved)) \<and> \<not> settled_network network"
proof -
  let ?c = "rp_candidate resolved"
  from assms(1,2) obtain found where "cs = map snd found" "found_ok T dw local_peer protocol identity found" by (rule lookup_found_ok)
  with assms(4) have c: "candidate_ok T ?c" by (auto simp: found_ok_def)
  from assms(6) obtain log0 where "open_resolved_from E try_from_owned w 0 own resolved (dc_routes ?c) [] = (Inl (ConnectPanic msg), log0)"
    by (auto simp: open_resolved_def open_resolved_routes_def split: if_splits option.splits prod.splits)
  from open_resolved_panic[OF this] obtain route e where
    route: "route \<in> set (dc_routes ?c)" "canonicalize_candidate_route (te_codec E) route (dc_peer_id ?c) = Inl e" by blast
  from c route(1) obtain kind where kind: "canonical_candidate (dc_peer_id ?c) \<lparr>cand_route = route, cand_kind = kind\<rparr>"
    by (auto simp: candidate_ok_def)
  with canonical_candidate_fixed[OF assms(2) kind] route assms(3,5) have "kind = DirectTcp" "\<not> settled_network (hd route)" by auto
  with kind route(1) show ?thesis by (fastforce simp: canonical_candidate_def)
qed

section \<open>Concrete connections\<close>

lemma sample_uuid_roundtrip: "uuid_parse_str sample_env (uuid_to_string sample_env u) = Some u"
  using show_dec_digits[of "unat u"] by (auto simp: sample_env_def list_all_iff)

definition sample_stream :: route_stream where
  "sample_stream = \<lparr>rst_remote_peer = \<lparr>ap_peer_id = sample_relay, ap_subject = ''s'', ap_peer_type = None, ap_domain_ids = [7],
     ap_scopes = [], ap_application = None, ap_verified_until = 50\<rparr>, rst_number = 3\<rparr>"

definition opening_sample :: opening_world where
  "opening_sample = \<lparr>ow_running = (\<lambda>_. True), ow_canceled = (\<lambda>_. False), ow_open_exact_route = (\<lambda>_ _ _ _ _. Some (Inr sample_stream)), ow_now = (\<lambda>_. 20),
     ow_close_in_time = (\<lambda>_. True), ow_render = (\<lambda>_. [])\<rparr>"

definition resolved_sample :: "discovery_candidate \<Rightarrow> auki_resolved_peer" where
  "resolved_sample c = \<lparr>rp_identity = PeerIdentity sample_relay, rp_domain_id = 7, rp_protocol_id = ''/x/1'', rp_candidate = c\<rparr>"

lemma sample_direct_route:
  "canonicalize_candidate_route ref_codec [Dns4 ''r.io'', Tcp 443] sample_relay =
    Inr \<lparr>cand_route = [Dns4 ''r.io'', Tcp 443], cand_kind = DirectTcp\<rparr>"
  by (simp add: canonicalize_candidate_route_def canonicalize_direct_route_def direct_parts_def
      canonical_dns_host_def strip_suffix_char_def to_ascii_lowercase_def ascii_lower_def ascii_defs Let_def
      CANDIDATE_ROUTE_MAX_BYTES_def ref_codec_eval)

lemma sample_opened:
  "open_resolved sample_env slash_protocol opening_sample 7 None (resolved_sample tracker_candidate) =
    (Inr sample_stream, [DialedRoute sample_relay [Dns4 ''r.io'', Tcp 443] \<lparr>sr_domain_id = 7, sr_expected_remote_peer_id = Some sample_relay\<rparr>])"
proof -
  have codec: "te_codec sample_env = ref_codec" by (simp add: sample_env_def)
  have protocol: "application_protocol_new slash_protocol ''/x/1'' = Inr ''/x/1''"
    using sample_tracker_protocol
    by (auto simp: valid_protocol_id_def application_protocol_new_def Let_def slash_protocol_def split: if_splits)
  have requirements: "session_requirements_new sample_env (uuid_to_string sample_env 7) = Inr \<lparr>sr_domain_id = 7, sr_expected_remote_peer_id = None\<rparr>"
    by (simp add: session_requirements_new_def sample_uuid_roundtrip)
  show ?thesis
    by (simp add: open_resolved_def open_resolved_routes_def resolved_sample_def tracker_candidate_def opening_sample_def codec
        sample_direct_route supported_route_def open_exact_def protocol canonicalize_candidate_def open_validated_def requirements
        with_expected_remote_peer_id_def matches_authenticated_def sample_stream_def)
qed

theorem resolved_stream_authenticated_witness:
  "ap_peer_id (rst_remote_peer sample_stream) = dc_peer_id tracker_candidate \<and>
    matches_authenticated sample_env (PeerIdentity sample_relay) (rst_remote_peer sample_stream)"
  using resolved_stream_authenticated[OF sample_opened sample_uuid_roundtrip] by (simp add: resolved_sample_def)

definition dotted_wire :: wire_advertisement where
  "dotted_wire = tracker_wire\<lparr>wa_routes := [''/dns4/../tcp/443/p2p/082'']\<rparr>"

definition dotted_candidate :: discovery_candidate where
  "dotted_candidate = tracker_candidate\<lparr>dc_routes := [[Dns4 ''.'', Tcp 443]]\<rparr>"

lemma dotted_validated: "validate_advertisement (tracker_of dotted_wire) ''list'' 10 dotted_wire = Inr (Some dotted_candidate)"
proof -
  have parse: "peer_from_str ref_codec ''082'' = Some sample_relay"
    "ma_from_str ref_codec ''/dns4/../tcp/443/p2p/082'' = Some [Dns4 ''..'', Tcp 443, P2p sample_relay]"
    by (simp_all add: ref_codec_eval sample_relay_def)
  have "tracker_routes ref_codec sample_relay [[Dns4 ''..'', Tcp 443, P2p sample_relay]] ''list'' = Inr [[Dns4 ''.'', Tcp 443]]"
    by (simp add: tracker_routes_def canonicalize_candidate_route_def canonicalize_direct_route_def direct_parts_def
        canonical_dns_host_def strip_suffix_char_def to_ascii_lowercase_def ascii_lower_def ascii_defs Let_def discovery_limits
        CANDIDATE_ROUTE_MAX_BYTES_def sample_relay_def ref_codec_eval sorted_unique_routes_def)
  with parse show ?thesis
    by (simp add: validate_advertisement_def tracker_of_def dotted_wire_def tracker_wire_def sample_tracker_protocols
        discovery_limits CANDIDATE_ROUTE_MAX_BYTES_def tracker_candidate_def dotted_candidate_def filter_option_def)
qed

lemma dotted_lookup: "fst (discover_filtered (tracker_of dotted_wire) [] 7 sample_target (Some ''/x/1'') None tracker_world (0, [])) =
    Inr [dotted_candidate]"
  using lookup_of[OF dotted_validated] by (simp add: dotted_candidate_def tracker_candidate_def)

lemma dotted_panic:
  "open_resolved sample_env slash_protocol opening_sample 7 None (resolved_sample dotted_candidate) =
    (Inl (ConnectPanic ''discovery has already validated each candidate route''), [])"
proof -
  have codec: "te_codec sample_env = ref_codec" by (simp add: sample_env_def)
  have "\<exists>e. canonicalize_candidate_route ref_codec [Dns4 ''.'', Tcp 443] sample_relay = Inl e"
    by (simp add: canonicalize_candidate_route_def canonicalize_direct_route_def direct_parts_def canonicalize_relay_route_def
        canonical_dns_host_def strip_suffix_char_def Let_def CANDIDATE_ROUTE_MAX_BYTES_def ref_codec_eval ma_pop_def)
  then show ?thesis
    by (auto simp: open_resolved_def open_resolved_routes_def resolved_sample_def dotted_candidate_def tracker_candidate_def
        opening_sample_def codec)
qed

theorem resolved_panic_unsettled_witness:
  "\<exists>network port. [network, Tcp port] \<in> set (dc_routes dotted_candidate) \<and> \<not> settled_network network"
proof -
  from dotted_lookup obtain s' where "discover_filtered (tracker_of dotted_wire) [] 7 sample_target (Some ''/x/1'') None tracker_world (0, []) =
      (Inr [dotted_candidate], s')" by (metis prod.collapse)
  from resolved_panic_unsettled[OF this _ _ _ _ dotted_panic] show ?thesis
    using ref_codec_ok
    by (simp add: tracker_of_def sample_env_def resolved_sample_def dotted_candidate_def tracker_candidate_def ref_codec_eval
        CANDIDATE_ROUTE_MAX_BYTES_def)
qed

text \<open>C37: The assertion can fail: a lookup accepts an advertisement with the direct route
  \<open>/dns4/../tcp/443/p2p/<peer>\<close>, keeps the route with the host \<open>.\<close>, and connecting to the candidate panics
  before anything is dialed.\<close>

theorem advertised_route_panics:
  "fst (discover_filtered (tracker_of dotted_wire) [] 7 sample_target (Some ''/x/1'') None tracker_world (0, [])) = Inr [dotted_candidate] \<and>
    open_resolved sample_env slash_protocol opening_sample 7 None (resolved_sample dotted_candidate) =
      (Inl (ConnectPanic ''discovery has already validated each candidate route''), [])"
  using dotted_lookup dotted_panic by blast

end
