(* ===== verification/Node_Authority.thy ===== *)
theory Node_Authority
  imports Local_Authority
begin

text \<open>
  The authority of a native node (\<open>core/auki-p2p/src/authority.rs\<close> and the methods of \<open>Node\<close> in
  \<open>transport.rs\<close> it calls): the node's verifier and credential store behind one update lock, and
  the handle \<open>DomainAuthority\<close> that installs, inspects and clears them. The lock makes each method a
  function of the whole state. \<open>clk i\<close> is a method's \<open>i\<close>-th reading of the clocks.
\<close>

section \<open>State and operations\<close>

record node_authority =
  na_peer_id :: peer_id
  na_verifier :: verification_key_ring
  na_tokens :: token_store

datatype p2p_credential_error =
    InvalidAccessToken p2p_error
  | InvalidCredentialExpiration
  | MissingCredential
  | ExpiredCredential
  | CredentialDomainMismatch

datatype credential_status = CredentialMissing | CredentialExpired | CredentialVerified p2p_access_claims

type_synonym 'a credential_result = "(p2p_credential_error, 'a) result"

definition node_install_verification_keys ::
  "token_env \<Rightarrow> node_authority \<Rightarrow> dds_verification_keys \<Rightarrow> reading \<Rightarrow> unit p2p_result \<times> node_authority" where
  "node_install_verification_keys E n keys r =
     (case replace_keys_at E (na_verifier n) keys (mono_now r) of (res, ring) \<Rightarrow> (res, n\<lparr>na_verifier := ring\<rparr>))"

definition node_store_install ::
  "token_env \<Rightarrow> node_authority \<Rightarrow> signed_p2p_credential \<Rightarrow> u64 option \<Rightarrow> uuid option \<Rightarrow> reading \<Rightarrow>
   p2p_access_claims p2p_result \<times> node_authority" where
  "node_store_install E n credential expected required r =
     (case store_install E (na_verifier n) (na_tokens n) credential (na_peer_id n) expected required r of
        (res, tokens) \<Rightarrow> (res, n\<lparr>na_tokens := tokens\<rparr>))"

definition install_credential ::
  "token_env \<Rightarrow> node_authority \<Rightarrow> signed_p2p_credential \<Rightarrow> reading \<Rightarrow>
   p2p_access_claims credential_result \<times> node_authority" where
  "install_credential E n credential r =
     (case node_store_install E n credential None None r of (res, n') \<Rightarrow> (map_err InvalidAccessToken res, n'))"

definition for_domain_error :: "p2p_error \<Rightarrow> p2p_credential_error" where
  "for_domain_error e =
     (case e of LocalDomainMismatch _ \<Rightarrow> CredentialDomainMismatch | _ \<Rightarrow> InvalidAccessToken e)"

definition install_credential_for_domain ::
  "token_env \<Rightarrow> node_authority \<Rightarrow> signed_p2p_credential \<Rightarrow> uuid \<Rightarrow> reading \<Rightarrow>
   p2p_access_claims credential_result \<times> node_authority" where
  "install_credential_for_domain E n credential domain r =
     (case node_store_install E n credential None (Some domain) r of
        (res, n') \<Rightarrow> (map_err for_domain_error res, n'))"

definition checked_error :: "p2p_error \<Rightarrow> p2p_credential_error" where
  "checked_error e =
     (case e of CredentialExpirationMismatch _ _ \<Rightarrow> InvalidCredentialExpiration | _ \<Rightarrow> InvalidAccessToken e)"

definition install_credential_checked ::
  "token_env \<Rightarrow> node_authority \<Rightarrow> signed_p2p_credential \<Rightarrow> instant \<Rightarrow> (nat \<Rightarrow> reading) \<Rightarrow>
   p2p_access_claims credential_result \<times> node_authority" where
  "install_credential_checked E n credential expires_at clk =
     (if expires_at \<le> wall_now (clk 0) \<or> expires_at mod nanos_per_sec \<noteq> 0 \<or> expires_at div nanos_per_sec < 0
      then (Inl InvalidCredentialExpiration, n)
      else case node_store_install E n credential (Some (word_of_int (expires_at div nanos_per_sec))) None (clk 1) of
        (res, n') \<Rightarrow> (map_err checked_error res, n'))"

definition clear_credential :: "node_authority \<Rightarrow> node_authority" where
  "clear_credential n = n\<lparr>na_tokens := store_clear (na_tokens n)\<rparr>"

definition current_credential_status ::
  "token_env \<Rightarrow> node_authority \<Rightarrow> (nat \<Rightarrow> reading) \<Rightarrow> credential_status p2p_result" where
  "current_credential_status E n clk =
     (case snapshot_with_claims (na_tokens n) of
        None \<Rightarrow> Inr CredentialMissing
      | Some (credential, installed) \<Rightarrow>
          let verified = verify E (na_verifier n) (compact credential) (clk 0) in
          if exp installed \<le> unix_time (wall_now (clk 1)) then Inr CredentialExpired
          else
            and_then verified (\<lambda>c.
            and_then (ensure_token_peer E c (na_peer_id n)) (\<lambda>_.
            if c \<noteq> installed then Inl (InvalidToken ''installed credential claims changed during verification'')
            else Inr (CredentialVerified c))))"

definition require_domain ::
  "token_env \<Rightarrow> node_authority \<Rightarrow> uuid \<Rightarrow> (nat \<Rightarrow> reading) \<Rightarrow> p2p_access_claims credential_result" where
  "require_domain E n domain clk =
     and_then (map_err InvalidAccessToken (current_credential_status E n clk)) (\<lambda>status.
     case status of
       CredentialMissing \<Rightarrow> Inl MissingCredential
     | CredentialExpired \<Rightarrow> Inl ExpiredCredential
     | CredentialVerified c \<Rightarrow> if \<not> has_domain E c domain then Inl CredentialDomainMismatch else Inr c)"

definition current_claims :: "token_env \<Rightarrow> node_authority \<Rightarrow> (nat \<Rightarrow> reading) \<Rightarrow> p2p_access_claims option" where
  "current_claims E n clk =
     (case current_credential_status E n clk of Inr (CredentialVerified c) \<Rightarrow> Some c | _ \<Rightarrow> None)"

section \<open>Facts\<close>

text \<open>Installing keeps the identity; each operation touches only its own half of the state.\<close>

lemma node_install_frame:
  assumes "node_install_verification_keys E n keys r = (res, n')"
  shows "na_peer_id n' = na_peer_id n" "na_tokens n' = na_tokens n"
    "replace_keys_at E (na_verifier n) keys (mono_now r) = (res, na_verifier n')"
  using assms by (auto simp: node_install_verification_keys_def split: prod.splits)

lemma node_credential_frame:
  assumes "install_credential_for_domain E n credential domain r = (res, n')"
  shows "na_peer_id n' = na_peer_id n" "na_verifier n' = na_verifier n"
  using assms by (auto simp: install_credential_for_domain_def node_store_install_def split: prod.splits)

text \<open>A credential is taken only after the whole check, and the store then holds the claims that are returned.\<close>

lemma install_for_domain_ok:
  assumes "install_credential_for_domain E n credential domain r = (Inr c, n')"
  shows "\<exists>x. na_tokens n' = Some x \<and> claims x = c"
    "check_credential E (na_verifier n) credential (na_peer_id n) None (Some domain) r = Inr c"
proof -
  obtain st where s: "store_install E (na_verifier n) (na_tokens n) credential (na_peer_id n) None (Some domain) r = (Inr c, st)"
    and n': "n' = n\<lparr>na_tokens := st\<rparr>"
    using assms by (auto simp: install_credential_for_domain_def node_store_install_def split: prod.splits)
  from s show "\<exists>x. na_tokens n' = Some x \<and> claims x = c"
    by (cases rule: store_install_cases) (auto simp: n')
  from s show "check_credential E (na_verifier n) credential (na_peer_id n) None (Some domain) r = Inr c"
    by (cases rule: store_install_cases) auto
qed

text \<open>\<open>require\<close> answers with the installed claims, and exactly when they are good right now.\<close>

lemma require_domain_exact:
  "require_domain E n domain clk = Inr c \<longleftrightarrow>
     (\<exists>x. na_tokens n = Some x \<and> claims x = c \<and> verify E (na_verifier n) (compact (s_signed x)) (clk 0) = Inr c \<and>
       unix_time (wall_now (clk 1)) < exp c \<and> peer_from_str (te_codec E) (claims_peer_id c) = Some (na_peer_id n) \<and>
       has_domain E c domain)"
  by (cases "na_tokens n"; cases "verify E (na_verifier n) (compact (s_signed (the (na_tokens n)))) (clk 0)")
    (auto simp: require_domain_def current_credential_status_def snapshot_with_claims_def Let_def and_then_eq_Inr
      split: credential_status.splits if_splits)

end
