(* ===== verification/Authority_Supervisor.thy ===== *)
theory Authority_Supervisor
  imports Node_Authority Runtime_Policy Discovery Peer_Protocols
begin

text \<open>
  The authority supervisor of a native peer (\<open>core/auki-sdk/src/authority.rs\<close>, with the public
  handle of \<open>authorization.rs\<close> and the errors of \<open>core/auki-auth/src/error.rs\<close>). It owns the
  credential and the verification keys of one peer in one Domain: complete updates are validated and
  installed in the node under an update lock, each accepted credential gets a new revision, and the
  relay client, the discovery client and the application read the current one. Renewals come from a
  pull driver or from the host.

  The supervisor is shared by threads. Each function below is one critical section, or a part of a
  thread between two points where others can get in; \<open>supervisor_step\<close> interleaves them. A status is
  published after the lock of the state is given back, so a decided publication waits in
  \<open>sy_pending\<close>. \<open>clk i\<close> is the \<open>i\<close>-th reading of the clocks; durations are nanoseconds, and
  \<open>Instant\<close> arithmetic is taken not to overflow.
\<close>

section \<open>Errors\<close>

datatype zitadel_oauth_error =
    InvalidGrant | InvalidClient | UnauthorizedClient | InvalidOAuthRequest | InvalidScope
  | TemporarilyUnavailable | OAuthServerError | OtherOAuth

datatype auth_error =
    SignInRequired
  | SessionClosed
  | SessionOperationPending
  | AdmissionDenied
  | ZitadelOAuth zitadel_oauth_error
  | RefreshOutcomeUnknown
  | PersistenceError
  | InvalidAuthConfiguration string
  | InvalidAuthInput string string
  | AuthOperationCancelled string
  | AuthRequestTimedOut string
  | AuthTransport string
  | AuthHttpStatus string u16
  | AuthResponseTooLarge string nat
  | AuthInvalidResponse string string
  | DomainNotAccessible
  | AccessibleDomainsTruncated u64 nat
  | StaleAuthority
  | AuthKeyGenerationConflict
  | InvalidP2pAuthority p2p_error

fun auth_error_kind :: "auth_error \<Rightarrow> auth_failure_kind" where
  "auth_error_kind SignInRequired = AuthenticationRequired"
| "auth_error_kind RefreshOutcomeUnknown = AuthenticationRequired"
| "auth_error_kind (ZitadelOAuth e) =
     (case e of
        InvalidGrant \<Rightarrow> AuthenticationRequired | OtherOAuth \<Rightarrow> AuthenticationRequired
      | InvalidClient \<Rightarrow> ConfigurationFailure | UnauthorizedClient \<Rightarrow> ConfigurationFailure
      | InvalidOAuthRequest \<Rightarrow> ConfigurationFailure | InvalidScope \<Rightarrow> ConfigurationFailure
      | _ \<Rightarrow> TransientFailure)"
| "auth_error_kind (AuthHttpStatus endpoint status) =
     (if status = 401 then AuthenticationRequired else if status = 403 then AuthorizationDenied else TransientFailure)"
| "auth_error_kind (InvalidAuthConfiguration message) = ConfigurationFailure"
| "auth_error_kind (InvalidAuthInput field reason) = ConfigurationFailure"
| "auth_error_kind AdmissionDenied = AuthorizationDenied"
| "auth_error_kind DomainNotAccessible = AuthorizationDenied"
| "auth_error_kind PersistenceError = PersistenceFailure"
| "auth_error_kind (AuthOperationCancelled endpoint) = AuthCancelled"
| "auth_error_kind SessionClosed = AuthClosed"
| "auth_error_kind _ = TransientFailure"

fun is_terminal :: "auth_failure_kind \<Rightarrow> bool" where
  "is_terminal AuthenticationRequired = True"
| "is_terminal ConfigurationFailure = True"
| "is_terminal AuthorizationDenied = True"
| "is_terminal AuthClosed = True"
| "is_terminal _ = False"

datatype authority_installer_error =
    InstallerVerificationKeys p2p_error
  | InstallerCredential p2p_credential_error

datatype authority_supervisor_error =
    InvalidSupervisorConfiguration
  | SupervisorStopped
  | UpdateDomainMismatch uuid uuid
  | UpdatePeerMismatch string string
  | SignedPeerMismatch
  | SignedDomainMismatch
  | InvalidExpiration
  | SignedExpirationMismatch
  | InvalidRenewalSchedule
  | NonAdvancingCredential u64 u64
  | AuthorityRevisionExhausted
  | UpdateVerificationKeys p2p_error
  | UpdateCredential p2p_error
  | InstallFailed authority_installer_error
  | PullRenewal auth_error
  | SupervisorAuthenticationFailed auth_failure_kind
  | RefreshTimedOut
  | RefreshUnavailable
  | RejectedRevisionMismatch

type_synonym 'a supervisor_result = "(authority_supervisor_error, 'a) result"

section \<open>State\<close>

record supervisor_config =
  sc_renewal_attempt_timeout :: nat
  sc_early_refresh_timeout :: nat
  sc_retry_initial :: nat
  sc_retry_max :: nat

definition supervisor_config_default :: supervisor_config where
  "supervisor_config_default =
     \<lparr>sc_renewal_attempt_timeout = from_secs 10, sc_early_refresh_timeout = from_secs 10,
      sc_retry_initial = from_secs 1, sc_retry_max = from_secs 30\<rparr>"

definition validate_supervisor_config :: "supervisor_config \<Rightarrow> unit supervisor_result" where
  "validate_supervisor_config c =
     (if sc_renewal_attempt_timeout c = 0 \<or> sc_early_refresh_timeout c = 0 \<or> sc_retry_initial c = 0 \<or>
         sc_retry_max c = 0 \<or> sc_retry_initial c > sc_retry_max c
      then Inl InvalidSupervisorConfiguration else Inr ())"

datatype authority_install_outcome = Replaced u64 | Unchanged u64

fun outcome_advanced :: "authority_install_outcome \<Rightarrow> bool" where
  "outcome_advanced (Replaced r) = True"
| "outcome_advanced (Unchanged r) = False"

record external_authority_update =
  eu_domain_id :: uuid
  eu_peer_id :: peer_id
  eu_verification_keys :: dds_verification_keys
  eu_credential :: signed_p2p_credential
  eu_credential_expires_at :: instant

text \<open>Of a renewed authority's Domain descriptor the supervisor reads the identifier.\<close>

record renewed_authority =
  ra_domain_id :: uuid
  ra_peer_id :: peer_id
  ra_credential :: signed_p2p_credential
  ra_verification_keys :: dds_verification_keys
  ra_credential_expires_at :: instant
  ra_renew_at :: instant

record authority_update =
  au_domain_id :: uuid
  au_peer_id :: peer_id
  au_verification_keys :: dds_verification_keys
  au_credential :: signed_p2p_credential
  au_credential_expires_at :: instant
  au_renew_at :: "instant option"

definition update_from_external :: "external_authority_update \<Rightarrow> authority_update" where
  "update_from_external u =
     \<lparr>au_domain_id = eu_domain_id u, au_peer_id = eu_peer_id u, au_verification_keys = eu_verification_keys u,
      au_credential = eu_credential u, au_credential_expires_at = eu_credential_expires_at u, au_renew_at = None\<rparr>"

definition update_from_renewed :: "renewed_authority \<Rightarrow> authority_update" where
  "update_from_renewed u =
     \<lparr>au_domain_id = ra_domain_id u, au_peer_id = ra_peer_id u, au_verification_keys = ra_verification_keys u,
      au_credential = ra_credential u, au_credential_expires_at = ra_credential_expires_at u,
      au_renew_at = Some (ra_renew_at u)\<rparr>"

record validated_update =
  vu_verification_keys :: dds_verification_keys
  vu_credential :: signed_p2p_credential
  vu_claims :: p2p_access_claims
  vu_authorization :: header_value
  vu_credential_expires_at :: instant
  vu_renew_at :: "instant option"
  vu_equivalent_credential :: bool

record current_authority =
  cu_credential_revision :: u64
  cu_claims :: p2p_access_claims
  cu_authorization :: header_value
  cu_credential_expires_at :: instant
  cu_renew_at :: "instant option"
  cu_available :: bool

record external_refresh_request =
  rr_request_id :: u64
  rr_rejected_revision :: u64

text \<open>The value of the watch channel of the mode.\<close>

datatype authority_mode =
    PullAuthority "u64 option"
  | ExternalAuthority "external_refresh_request option"

text \<open>The installer (\<open>FixedDomainAuthority\<close>) is the node's authority with the fixed Domain.\<close>

record supervisor =
  sv_domain_id :: uuid
  sv_node :: node_authority
  sv_config :: supervisor_config
  sv_mode :: authority_mode
  sv_stopped :: bool
  sv_installed_keys :: "dds_verification_keys option"
  sv_current :: "current_authority option"
  sv_status :: authority_status
  sv_cancelled :: bool
  sv_next_refresh_request :: u64

definition supervisor_new :: "uuid \<Rightarrow> node_authority \<Rightarrow> supervisor_config \<Rightarrow> authority_mode \<Rightarrow> bool \<Rightarrow> supervisor" where
  "supervisor_new domain node config mode cancelled =
     \<lparr>sv_domain_id = domain, sv_node = node, sv_config = config, sv_mode = mode, sv_stopped = False,
      sv_installed_keys = None, sv_current = None, sv_status = AuthorityStarting, sv_cancelled = cancelled,
      sv_next_refresh_request = 1\<rparr>"

definition require_running :: "supervisor \<Rightarrow> unit supervisor_result" where
  "require_running sv = (if sv_cancelled sv \<or> sv_stopped sv then Inl SupervisorStopped else Inr ())"

section \<open>Updates\<close>

definition exact_expiration :: "instant \<Rightarrow> instant \<Rightarrow> u64 supervisor_result" where
  "exact_expiration expires_at now =
     (if expires_at \<le> now \<or> expires_at mod nanos_per_sec \<noteq> 0 then Inl InvalidExpiration
      else if expires_at div nanos_per_sec < 0 then Inl InvalidExpiration
      else Inr (word_of_int (expires_at div nanos_per_sec)))"

definition wall_remaining :: "instant \<Rightarrow> instant \<Rightarrow> nat option" where
  "wall_remaining deadline now = (if deadline - now > 0 then Some (nat (deadline - now)) else None)"

definition check_target :: "token_env \<Rightarrow> supervisor \<Rightarrow> authority_update \<Rightarrow> instant \<Rightarrow> u64 supervisor_result" where
  "check_target E sv u now =
     (if au_domain_id u \<noteq> sv_domain_id sv then Inl (UpdateDomainMismatch (sv_domain_id sv) (au_domain_id u))
      else if au_peer_id u \<noteq> na_peer_id (sv_node sv) then
        Inl (UpdatePeerMismatch (peer_to_string (te_codec E) (na_peer_id (sv_node sv)))
          (peer_to_string (te_codec E) (au_peer_id u)))
      else and_then (exact_expiration (au_credential_expires_at u) now) (\<lambda>expected.
        if (case au_renew_at u of None \<Rightarrow> False | Some renew_at \<Rightarrow> renew_at \<ge> au_credential_expires_at u)
        then Inl InvalidRenewalSchedule else Inr expected))"

definition check_signed :: "token_env \<Rightarrow> supervisor \<Rightarrow> authority_update \<Rightarrow> u64 \<Rightarrow> (nat \<Rightarrow> reading) \<Rightarrow> p2p_access_claims supervisor_result" where
  "check_signed E sv u expected clk =
     and_then (case sv_installed_keys sv of None \<Rightarrow> Inr ()
       | Some keys \<Rightarrow> map_err UpdateVerificationKeys (validate_successor E keys (au_verification_keys u))) (\<lambda>_.
     and_then (map_err UpdateVerificationKeys (from_keys E (au_verification_keys u) (mono_now (clk 1)))) (\<lambda>verifier.
     and_then (map_err UpdateCredential (verify E verifier (compact (au_credential u)) (clk 2))) (\<lambda>c.
     if claims_peer_id c \<noteq> peer_to_string (te_codec E) (na_peer_id (sv_node sv)) then Inl SignedPeerMismatch
     else if uuid_to_string E (sv_domain_id sv) \<notin> set (domain_ids c) then Inl SignedDomainMismatch
     else if exp c \<noteq> expected then Inl SignedExpirationMismatch
     else Inr c)))"

definition validate_update :: "token_env \<Rightarrow> supervisor \<Rightarrow> authority_update \<Rightarrow> (nat \<Rightarrow> reading) \<Rightarrow> validated_update supervisor_result" where
  "validate_update E sv u clk =
     and_then (check_target E sv u (wall_now (clk 0))) (\<lambda>expected.
     if sv_stopped sv then Inl SupervisorStopped else
     and_then (check_signed E sv u expected clk) (\<lambda>c.
     and_then (map_err UpdateCredential (to_sensitive_bearer_header E (au_credential u))) (\<lambda>authorization.
     let equivalent = (case sv_current sv of None \<Rightarrow> False | Some cur \<Rightarrow> cu_claims cur = c);
         validated = \<lparr>vu_verification_keys = au_verification_keys u, vu_credential = au_credential u, vu_claims = c,
           vu_authorization = authorization, vu_credential_expires_at = au_credential_expires_at u,
           vu_renew_at = au_renew_at u, vu_equivalent_credential = equivalent\<rparr>
     in case sv_current sv of
          None \<Rightarrow> Inr validated
        | Some cur \<Rightarrow>
            if \<not> equivalent \<and> iat c \<le> iat (cu_claims cur)
            then Inl (NonAdvancingCredential (iat (cu_claims cur)) (iat c))
            else Inr validated)))"

text \<open>How far an update has come. It waits for the node in \<open>KeysDue\<close> and \<open>CredentialDue\<close>.\<close>

datatype update_phase =
    KeysDue validated_update
  | KeysInstalled validated_update
  | CredentialDue validated_update
  | CredentialInstalled validated_update
  | Publishing u64 instant
  | UpdateDone authority_install_outcome

definition begin_update :: "token_env \<Rightarrow> supervisor \<Rightarrow> authority_update \<Rightarrow> (nat \<Rightarrow> reading) \<Rightarrow> update_phase supervisor_result" where
  "begin_update E sv u clk =
     and_then (require_running sv) (\<lambda>_. and_then (validate_update E sv u clk) (\<lambda>v. Inr (KeysDue v)))"

definition record_keys :: "validated_update \<Rightarrow> supervisor \<Rightarrow> update_phase supervisor_result \<times> supervisor" where
  "record_keys v sv =
     (let sv' = sv\<lparr>sv_installed_keys := Some (vu_verification_keys v)\<rparr> in
      (and_then (require_running sv') (\<lambda>_.
         if vu_equivalent_credential v then
           and_then (ok_or RefreshUnavailable (sv_current sv')) (\<lambda>cur. Inr (UpdateDone (Unchanged (cu_credential_revision cur))))
         else Inr (CredentialDue v)), sv'))"

definition commit_update :: "validated_update \<Rightarrow> supervisor \<Rightarrow> update_phase supervisor_result \<times> supervisor" where
  "commit_update v sv =
     (if sv_stopped sv \<or> sv_cancelled sv then (Inl SupervisorStopped, sv)
      else case next_authority_revision (map_option cu_credential_revision (sv_current sv)) of
          None \<Rightarrow> (Inl AuthorityRevisionExhausted, sv)
        | Some rv \<Rightarrow>
            (Inr (Publishing rv (vu_credential_expires_at v)),
             sv\<lparr>sv_current := Some \<lparr>cu_credential_revision = rv, cu_claims = vu_claims v,
               cu_authorization = vu_authorization v, cu_credential_expires_at = vu_credential_expires_at v,
               cu_renew_at = vu_renew_at v, cu_available = True\<rparr>\<rparr>))"

definition clear_requests :: "authority_mode \<Rightarrow> authority_mode" where
  "clear_requests mode = (case mode of ExternalAuthority _ \<Rightarrow> ExternalAuthority None | PullAuthority t \<Rightarrow> PullAuthority t)"

fun update_section :: "token_env \<Rightarrow> (nat \<Rightarrow> reading) \<Rightarrow> update_phase \<Rightarrow> supervisor \<Rightarrow> update_phase supervisor_result \<times> supervisor" where
  "update_section E clk (KeysDue v) sv =
     (case node_install_verification_keys E (sv_node sv) (vu_verification_keys v) (clk 3) of
        (Inl e, node) \<Rightarrow> (Inl (InstallFailed (InstallerVerificationKeys e)), sv\<lparr>sv_node := node\<rparr>)
      | (Inr _, node) \<Rightarrow> (Inr (KeysInstalled v), sv\<lparr>sv_node := node\<rparr>))"
| "update_section E clk (KeysInstalled v) sv = record_keys v sv"
| "update_section E clk (CredentialDue v) sv =
     (case install_credential_for_domain E (sv_node sv) (vu_credential v) (sv_domain_id sv) (clk 4) of
        (Inl e, node) \<Rightarrow> (Inl (InstallFailed (InstallerCredential e)), sv\<lparr>sv_node := node\<rparr>)
      | (Inr _, node) \<Rightarrow> (Inr (CredentialInstalled v), sv\<lparr>sv_node := node\<rparr>))"
| "update_section E clk (CredentialInstalled v) sv = commit_update v sv"
| "update_section E clk (Publishing rv expires_at) sv =
     (Inr (UpdateDone (Replaced rv)),
      sv\<lparr>sv_status := AuthorityReady rv expires_at, sv_mode := clear_requests (sv_mode sv)\<rparr>)"
| "update_section E clk (UpdateDone outcome) sv = (Inr (UpdateDone outcome), sv)"

fun phase_rank :: "update_phase \<Rightarrow> nat" where
  "phase_rank (KeysDue v) = 5"
| "phase_rank (KeysInstalled v) = 4"
| "phase_rank (CredentialDue v) = 3"
| "phase_rank (CredentialInstalled v) = 2"
| "phase_rank (Publishing r e) = 1"
| "phase_rank (UpdateDone outcome) = 0"

lemma update_section_rank:
  "update_section E clk p sv = (Inr q, sv') \<Longrightarrow> phase_rank p \<noteq> 0 \<Longrightarrow> phase_rank q < phase_rank p"
  by (cases p)
    (auto simp: record_keys_def commit_update_def Let_def and_then_eq_Inr split: prod.splits sum.splits option.splits if_splits)

fun finished :: "update_phase \<Rightarrow> authority_install_outcome option" where
  "finished (UpdateDone outcome) = Some outcome"
| "finished _ = None"

lemma finished_rank: "finished p = None \<Longrightarrow> phase_rank p \<noteq> 0"
  by (cases p) auto

text \<open>An update that nobody interrupts.\<close>

function finish_update :: "token_env \<Rightarrow> (nat \<Rightarrow> reading) \<Rightarrow> update_phase \<Rightarrow> supervisor \<Rightarrow> authority_install_outcome supervisor_result \<times> supervisor" where
  "finish_update E clk p sv =
     (case finished p of
        Some outcome \<Rightarrow> (Inr outcome, sv)
      | None \<Rightarrow> (case update_section E clk p sv of
          (Inl e, sv') \<Rightarrow> (Inl e, sv')
        | (Inr q, sv') \<Rightarrow> finish_update E clk q sv'))"
  by pat_completeness auto
termination
  by (relation "measure (\<lambda>(E, clk, p, sv). phase_rank p)") (auto dest!: update_section_rank [OF sym] finished_rank)

declare finish_update.simps [simp del]

definition apply_update :: "token_env \<Rightarrow> supervisor \<Rightarrow> authority_update \<Rightarrow> (nat \<Rightarrow> reading) \<Rightarrow> authority_install_outcome supervisor_result \<times> supervisor" where
  "apply_update E sv u clk =
     (case begin_update E sv u clk of Inl e \<Rightarrow> (Inl e, sv) | Inr p \<Rightarrow> finish_update E clk p sv)"

section \<open>Expiry, stop and failure\<close>

text \<open>
  The critical section of an operation, and the status to be published after it.
\<close>

definition stop_section :: "supervisor \<Rightarrow> authority_status option \<times> supervisor" where
  "stop_section sv =
     (if sv_stopped sv then (None, sv)
      else (Some AuthorityStopped,
        sv\<lparr>sv_stopped := True, sv_current := map_option (\<lambda>cur. cur\<lparr>cu_available := False\<rparr>) (sv_current sv)\<rparr>))"

definition expire_section :: "instant \<Rightarrow> supervisor \<Rightarrow> authority_status option \<times> supervisor" where
  "expire_section now sv =
     (if sv_stopped sv then (None, sv)
      else case sv_current sv of
          None \<Rightarrow> (None, sv)
        | Some cur \<Rightarrow>
            if cu_available cur \<and> cu_credential_expires_at cur \<le> now then
              (Some (AuthorityExpired (cu_credential_revision cur) (cu_credential_expires_at cur)),
               sv\<lparr>sv_current := Some (cur\<lparr>cu_available := False\<rparr>)\<rparr>)
            else (None, sv))"

definition expire_if_due :: "instant \<Rightarrow> supervisor \<Rightarrow> authority_status option \<times> supervisor" where
  "expire_if_due now sv = (if sv_cancelled sv then stop_section sv else expire_section now sv)"

definition fail_authentication :: "auth_failure_kind \<Rightarrow> supervisor \<Rightarrow> supervisor" where
  "fail_authentication kind sv =
     (if sv_stopped sv then sv
      else sv\<lparr>sv_stopped := True, sv_current := map_option (\<lambda>cur. cur\<lparr>cu_available := False\<rparr>) (sv_current sv),
        sv_status := AuthorityAuthenticationFailed kind, sv_cancelled := True\<rparr>)"

text \<open>\<open>stop\<close> when nobody interrupts it.\<close>

definition publish_status :: "authority_status option \<Rightarrow> supervisor \<Rightarrow> supervisor" where
  "publish_status status sv = (case status of None \<Rightarrow> sv | Some s \<Rightarrow> sv\<lparr>sv_status := s\<rparr>)"

definition supervisor_stop :: "supervisor \<Rightarrow> supervisor" where
  "supervisor_stop sv =
     (case stop_section sv of (status, sv') \<Rightarrow> (publish_status status sv')\<lparr>sv_cancelled := True\<rparr>)"

text \<open>
  \<open>start_pull\<close> and \<open>start_external\<close>: the first update, before any task runs. A prepared peer has the
  fields of a renewed authority, and the provider of renewals. The cancellation of the parent token is
  read once, at the creation of the child.
\<close>

definition start_with :: "token_env \<Rightarrow> supervisor \<Rightarrow> authority_update \<Rightarrow> (nat \<Rightarrow> reading) \<Rightarrow> supervisor supervisor_result \<times> supervisor" where
  "start_with E sv u clk =
     (case apply_update E sv u clk of
        (Inl e, sv') \<Rightarrow> (Inl e, supervisor_stop sv')
      | (Inr _, sv') \<Rightarrow> (Inr sv', sv'))"

definition start_pull ::
  "token_env \<Rightarrow> uuid \<Rightarrow> node_authority \<Rightarrow> renewed_authority \<Rightarrow> supervisor_config \<Rightarrow> bool \<Rightarrow> (nat \<Rightarrow> reading) \<Rightarrow> supervisor supervisor_result" where
  "start_pull E domain node prepared config cancelled clk =
     and_then (validate_supervisor_config config) (\<lambda>_.
     fst (start_with E (supervisor_new domain node config (PullAuthority None) cancelled) (update_from_renewed prepared) clk))"

definition start_external ::
  "token_env \<Rightarrow> uuid \<Rightarrow> node_authority \<Rightarrow> external_authority_update \<Rightarrow> supervisor_config \<Rightarrow> bool \<Rightarrow> (nat \<Rightarrow> reading) \<Rightarrow> supervisor supervisor_result" where
  "start_external E domain node initial config cancelled clk =
     and_then (validate_supervisor_config config) (\<lambda>_.
     fst (start_with E (supervisor_new domain node config (ExternalAuthority None) cancelled) (update_from_external initial) clk))"

section \<open>Readers\<close>

text \<open>
  A reader looks twice: it takes what is current, and hands it out only if it still is. Before each
  look it lets a due expiry happen. \<open>s1\<close> and \<open>s2\<close> are the states it sees.
\<close>

definition available_current :: "supervisor \<Rightarrow> current_authority option" where
  "available_current sv = (case sv_current sv of Some cur \<Rightarrow> if cu_available cur then Some cur else None | None \<Rightarrow> None)"

definition authorization_read :: "supervisor \<Rightarrow> (header_value \<times> u64) supervisor_result" where
  "authorization_read sv =
     (if sv_stopped sv then Inl SupervisorStopped
      else and_then (ok_or RefreshUnavailable (available_current sv)) (\<lambda>cur.
        Inr (cu_authorization cur, cu_credential_revision cur)))"

definition still_current :: "supervisor \<Rightarrow> u64 \<Rightarrow> instant \<Rightarrow> bool" where
  "still_current sv rv now =
     (case sv_current sv of None \<Rightarrow> False
      | Some cur \<Rightarrow> cu_available cur \<and> cu_credential_revision cur = rv \<and> cu_credential_expires_at cur > now)"

definition authorization_parts :: "supervisor \<Rightarrow> supervisor \<Rightarrow> instant \<Rightarrow> (header_value \<times> u64) supervisor_result" where
  "authorization_parts s1 s2 now =
     and_then (authorization_read s1) (\<lambda>(bearer, rv).
     if still_current s2 rv now then Inr (bearer, rv) else Inl RefreshUnavailable)"

text \<open>The providers of the relay and the discovery client hold a weak reference; they hide the reason of a failure.\<close>

definition relay_authorization :: "(supervisor \<times> supervisor) option \<Rightarrow> instant \<Rightarrow> (unit, relay_authorization_snapshot) result" where
  "relay_authorization inner now =
     and_then (ok_or () inner) (\<lambda>(s1, s2).
     and_then (map_err (\<lambda>_. ()) (authorization_parts s1 s2 now)) (\<lambda>(bearer, rv). Inr \<lparr>au_header = bearer, au_revision = rv\<rparr>))"

definition dds_authorization :: "(supervisor \<times> supervisor) option \<Rightarrow> instant \<Rightarrow> dds_authorization_snapshot discovery_result" where
  "dds_authorization inner now =
     and_then (ok_or AuthenticationUnavailable inner) (\<lambda>(s1, s2).
     and_then (map_err (\<lambda>_. AuthenticationUnavailable) (authorization_parts s1 s2 now)) (\<lambda>(bearer, rv).
     Inr \<lparr>da_header = bearer, da_revision = rv\<rparr>))"

datatype peer_authorization_error = AuthorizationUnavailable | AuthorizationExpired | AuthorizationStopped

record peer_authorization_snapshot =
  ps_credential_revision :: u64
  ps_expires_at :: instant
  ps_claims :: p2p_access_claims

definition public_read :: "supervisor \<Rightarrow> instant \<Rightarrow> (peer_authorization_error, peer_authorization_snapshot) result" where
  "public_read sv now =
     (if sv_stopped sv then Inl AuthorizationStopped
      else case sv_current sv of
          None \<Rightarrow> Inl AuthorizationUnavailable
        | Some cur \<Rightarrow>
            if \<not> cu_available cur then
              Inl (if cu_credential_expires_at cur \<le> now then AuthorizationExpired else AuthorizationUnavailable)
            else Inr \<lparr>ps_credential_revision = cu_credential_revision cur,
              ps_expires_at = cu_credential_expires_at cur, ps_claims = cu_claims cur\<rparr>)"

definition validate_public_snapshot_fence :: "supervisor \<Rightarrow> u64 \<Rightarrow> instant \<Rightarrow> (peer_authorization_error, unit) result" where
  "validate_public_snapshot_fence sv rv now =
     (if sv_stopped sv then Inl AuthorizationStopped
      else case sv_current sv of
          None \<Rightarrow> Inl AuthorizationUnavailable
        | Some cur \<Rightarrow>
            if cu_credential_revision cur \<noteq> rv then Inl AuthorizationUnavailable
            else if cu_credential_expires_at cur \<le> now then Inl AuthorizationExpired
            else if \<not> cu_available cur then Inl AuthorizationUnavailable
            else Inr ())"

definition public_authorization_snapshot ::
  "supervisor \<Rightarrow> instant \<Rightarrow> supervisor \<Rightarrow> instant \<Rightarrow> (peer_authorization_error, peer_authorization_snapshot) result" where
  "public_authorization_snapshot s1 now1 s2 now2 =
     and_then (public_read s1 now1) (\<lambda>snapshot.
     and_then (validate_public_snapshot_fence s2 (ps_credential_revision snapshot) now2) (\<lambda>_. Inr snapshot))"

text \<open>\<open>AukiPeerAuthorization::current\<close>: the handle of the application, fenced by the lifecycle of its context.\<close>

definition peer_authorization_current ::
  "context_lifecycle \<Rightarrow> (supervisor \<times> instant \<times> supervisor \<times> instant) option \<Rightarrow> instant \<Rightarrow>
   (peer_authorization_error, peer_authorization_snapshot) result" where
  "peer_authorization_current lifecycle inner now =
     (if \<not> lc_running lifecycle then Inl AuthorizationStopped
      else and_then (ok_or AuthorizationStopped inner) (\<lambda>(s1, now1, s2, now2).
        and_then (public_authorization_snapshot s1 now1 s2 now2) (\<lambda>snapshot.
        if ps_expires_at snapshot \<le> now then Inl AuthorizationExpired else Inr snapshot)))"

section \<open>Refreshing a rejected credential\<close>

definition refresh_deadline :: "supervisor \<Rightarrow> u64 \<Rightarrow> reading \<Rightarrow> instant option supervisor_result" where
  "refresh_deadline sv rejected r =
     (if sv_stopped sv then Inl SupervisorStopped
      else and_then (ok_or RefreshUnavailable (available_current sv)) (\<lambda>cur.
        case judge_rejected_revision (cu_credential_revision cur) rejected of
          AlreadyReplaced \<Rightarrow> Inr None
        | StaleRevision \<Rightarrow> Inl RejectedRevisionMismatch
        | CurrentRevision \<Rightarrow>
            and_then (ok_or RefreshTimedOut (wall_remaining (cu_credential_expires_at cur) (wall_now r))) (\<lambda>remaining.
            Inr (Some (mono_now r + int (min remaining (sc_early_refresh_timeout (sv_config sv))))))))"

text \<open>\<open>listening\<close>: the receiver of the watch channel still exists; otherwise \<open>send\<close> changes nothing.\<close>

definition send_refresh :: "supervisor \<Rightarrow> u64 \<Rightarrow> bool \<Rightarrow> unit supervisor_result \<times> supervisor" where
  "send_refresh sv rejected listening =
     (case sv_mode sv of
        PullAuthority _ \<Rightarrow>
          if listening then (Inr (), sv\<lparr>sv_mode := PullAuthority (Some rejected)\<rparr>) else (Inl RefreshUnavailable, sv)
      | ExternalAuthority _ \<Rightarrow>
          (case checked_add (sv_next_refresh_request sv) 1 of
             None \<Rightarrow> (Inl AuthorityRevisionExhausted, sv)
           | Some next \<Rightarrow>
               let sv' = sv\<lparr>sv_next_refresh_request := next\<rparr> in
               if listening then
                 (Inr (), sv'\<lparr>sv_mode := ExternalAuthority (Some \<lparr>rr_request_id = sv_next_refresh_request sv, rr_rejected_revision = rejected\<rparr>)\<rparr>)
               else (Inl RefreshUnavailable, sv')))"

text \<open>A turn of the wait: the status it sees, and what wakes it; \<open>None\<close>: the sender is gone.\<close>

datatype refresh_wake = RefreshShutdown | RefreshDeadline | RefreshChanged "unit option"

fun wait_for_revision :: "u64 \<Rightarrow> (authority_status \<times> refresh_wake) list \<Rightarrow> unit supervisor_result option" where
  "wait_for_revision rejected [] = None"
| "wait_for_revision rejected ((status, wake) # turns) =
     (let waiting = (case wake of
          RefreshShutdown \<Rightarrow> Some (Inl SupervisorStopped)
        | RefreshDeadline \<Rightarrow> Some (Inl RefreshTimedOut)
        | RefreshChanged None \<Rightarrow> Some (Inl SupervisorStopped)
        | RefreshChanged (Some _) \<Rightarrow> wait_for_revision rejected turns)
      in case status of
          AuthorityReady rv _ \<Rightarrow> if rv > rejected then Some (Inr ()) else waiting
        | AuthorityExpired _ _ \<Rightarrow> Some (Inl RefreshTimedOut)
        | AuthorityStopped \<Rightarrow> Some (Inl SupervisorStopped)
        | AuthorityAuthenticationFailed kind \<Rightarrow> Some (Inl (SupervisorAuthenticationFailed kind))
        | AuthorityStarting \<Rightarrow> waiting)"

text \<open>
  What a refresh meets: the states of its three looks at the deadline, whether it gets each lock in
  time, whether somebody listens, and the turns of its wait.
\<close>

record refresh_world =
  fw_state :: "nat \<Rightarrow> supervisor"
  fw_clock :: "nat \<Rightarrow> reading"
  fw_refresh_lock :: bool
  fw_update_lock :: bool
  fw_listening :: bool
  fw_turns :: "(authority_status \<times> refresh_wake) list"

definition with_deadline :: "instant option supervisor_result \<Rightarrow> (instant \<Rightarrow> unit supervisor_result option) \<Rightarrow> unit supervisor_result option" where
  "with_deadline d f = (case d of Inl e \<Rightarrow> Some (Inl e) | Inr None \<Rightarrow> Some (Inr ()) | Inr (Some deadline) \<Rightarrow> f deadline)"

definition refresh_after_unauthorized :: "refresh_world \<Rightarrow> u64 \<Rightarrow> unit supervisor_result option" where
  "refresh_after_unauthorized w rejected =
     with_deadline (refresh_deadline (fw_state w 0) rejected (fw_clock w 0)) (\<lambda>original.
     if \<not> fw_refresh_lock w then Some (Inl RefreshTimedOut) else
     with_deadline (refresh_deadline (fw_state w 1) rejected (fw_clock w 1)) (\<lambda>recomputed.
     if \<not> fw_update_lock w then Some (Inl RefreshTimedOut) else
     with_deadline (refresh_deadline (fw_state w 2) rejected (fw_clock w 2)) (\<lambda>final.
     case fst (send_refresh (fw_state w 2) rejected (fw_listening w)) of
       Inl e \<Rightarrow> Some (Inl e)
     | Inr _ \<Rightarrow> wait_for_revision rejected (fw_turns w))))"

text \<open>The deadline of the wait, where it comes to that.\<close>

definition refresh_wait_until :: "refresh_world \<Rightarrow> u64 \<Rightarrow> instant option" where
  "refresh_wait_until w rejected =
     (case (refresh_deadline (fw_state w 0) rejected (fw_clock w 0),
            refresh_deadline (fw_state w 1) rejected (fw_clock w 1),
            refresh_deadline (fw_state w 2) rejected (fw_clock w 2)) of
        (Inr (Some original), Inr (Some recomputed), Inr (Some final)) \<Rightarrow> Some (min (min original recomputed) final)
      | _ \<Rightarrow> None)"

section \<open>The pull driver\<close>

record pull_schedule =
  sch_credential_revision :: u64
  sch_renew_at :: instant
  sch_expires_at :: instant
  sch_available :: bool

record pull_driver =
  pd_last_revision :: u64
  pd_retry_at :: "instant option"
  pd_retry_delay :: nat

definition pull_schedule_of :: "supervisor \<Rightarrow> pull_schedule option" where
  "pull_schedule_of sv =
     (if sv_stopped sv then None
      else case sv_current sv of
          None \<Rightarrow> None
        | Some cur \<Rightarrow> map_option (\<lambda>renew_at. \<lparr>sch_credential_revision = cu_credential_revision cur, sch_renew_at = renew_at,
            sch_expires_at = cu_credential_expires_at cur, sch_available = cu_available cur\<rparr>) (cu_renew_at cur))"

definition pull_driver_new :: "supervisor_config \<Rightarrow> pull_driver" where
  "pull_driver_new config = \<lparr>pd_last_revision = 0, pd_retry_at = None, pd_retry_delay = sc_retry_initial config\<rparr>"

definition driver_observe :: "supervisor_config \<Rightarrow> pull_schedule \<Rightarrow> reading \<Rightarrow> pull_driver \<Rightarrow> pull_driver" where
  "driver_observe config schedule r d =
     (if sch_credential_revision schedule \<noteq> pd_last_revision d then
        \<lparr>pd_last_revision = sch_credential_revision schedule,
         pd_retry_at = (if pd_last_revision d \<noteq> 0 \<and> sch_available schedule \<and> wall_remaining (sch_renew_at schedule) (wall_now r) = None
           then Some (mono_now r + int (sc_retry_initial config)) else None),
         pd_retry_delay = sc_retry_initial config\<rparr>
      else d)"

definition driver_due_at :: "supervisor_config \<Rightarrow> pull_schedule \<Rightarrow> reading \<Rightarrow> pull_driver \<Rightarrow> instant" where
  "driver_due_at config schedule r d =
     (case pd_retry_at d of
        Some at \<Rightarrow> at
      | None \<Rightarrow>
          if sch_available schedule then
            mono_now r + int (case wall_remaining (sch_renew_at schedule) (wall_now r) of None \<Rightarrow> 0 | Some remaining \<Rightarrow> remaining)
          else mono_now r + int (sc_retry_max config))"

text \<open>\<open>Duration::saturating_mul\<close>.\<close>

definition DURATION_MAX :: nat where
  "DURATION_MAX = (2 ^ 64 - 1) * 1000000000 + 999999999"

definition schedule_retry :: "instant \<Rightarrow> nat \<Rightarrow> reading \<Rightarrow> pull_driver \<Rightarrow> pull_driver" where
  "schedule_retry expires_at retry_max r d =
     (let delay = (case wall_remaining expires_at (wall_now r) of
          Some remaining \<Rightarrow> min (pd_retry_delay d) remaining | None \<Rightarrow> retry_max)
      in d\<lparr>pd_retry_at := Some (mono_now r + int delay),
           pd_retry_delay := min (min (pd_retry_delay d * 2) DURATION_MAX) retry_max\<rparr>)"

datatype pull_wake =
    PullShutdown
  | PullTriggered "u64 option option"
  | PullStatusChanged "unit option"
  | PullDue

datatype pull_decision = PullReturn | PullContinue | PullAttempt

definition pull_decide :: "pull_schedule \<Rightarrow> pull_wake \<Rightarrow> pull_decision" where
  "pull_decide schedule wake =
     (case wake of
        PullShutdown \<Rightarrow> PullReturn
      | PullTriggered None \<Rightarrow> PullReturn
      | PullStatusChanged None \<Rightarrow> PullReturn
      | PullStatusChanged (Some _) \<Rightarrow> PullContinue
      | PullTriggered (Some (Some requested)) \<Rightarrow>
          if requested < sch_credential_revision schedule then PullContinue else PullAttempt
      | PullTriggered (Some None) \<Rightarrow> PullAttempt
      | PullDue \<Rightarrow> PullAttempt)"

text \<open>The race of a renewal: the supervisor's shutdown, the deadline of the attempt, or the provider's answer.\<close>

datatype renewal_race = RenewalStopped | RenewalLate | RenewalAnswered "(auth_error, renewed_authority) result"

definition attempt_budget :: "supervisor_config \<Rightarrow> instant \<Rightarrow> instant \<Rightarrow> nat" where
  "attempt_budget config expires_at now =
     (case wall_remaining expires_at now of
        Some remaining \<Rightarrow> min remaining (sc_renewal_attempt_timeout config)
      | None \<Rightarrow> sc_renewal_attempt_timeout config)"

text \<open>
  \<open>s1\<close> is the state before the renewal, \<open>s2\<close> the state after the provider's answer; \<open>install\<close> is the
  result of the update that the answer leads to.
\<close>

definition renew_once ::
  "supervisor \<Rightarrow> supervisor \<Rightarrow> u64 \<Rightarrow> renewal_race \<Rightarrow> (authority_update \<Rightarrow> authority_install_outcome supervisor_result) \<Rightarrow>
   authority_install_outcome supervisor_result" where
  "renew_once s1 s2 observed race install =
     (if (case sv_current s1 of None \<Rightarrow> False | Some cur \<Rightarrow> cu_credential_revision cur > observed) then Inr (Unchanged observed)
      else case race of
          RenewalStopped \<Rightarrow> Inl SupervisorStopped
        | RenewalLate \<Rightarrow> Inl RefreshTimedOut
        | RenewalAnswered answer \<Rightarrow>
            and_then (map_err PullRenewal answer) (\<lambda>renewed.
            and_then (require_running s2) (\<lambda>_. install (update_from_renewed renewed))))"

datatype pull_next = PullRepeat pull_driver | PullEnd | PullFailed auth_failure_kind

definition driver_settle :: "supervisor_config \<Rightarrow> pull_schedule \<Rightarrow> authority_install_outcome supervisor_result \<Rightarrow> reading \<Rightarrow> pull_driver \<Rightarrow> pull_next" where
  "driver_settle config schedule attempt r d =
     (case attempt of
        Inr outcome \<Rightarrow>
          if outcome_advanced outcome then PullRepeat (d\<lparr>pd_retry_at := None, pd_retry_delay := sc_retry_initial config\<rparr>)
          else PullRepeat (schedule_retry (sch_expires_at schedule) (sc_retry_max config) r d)
      | Inl SupervisorStopped \<Rightarrow> PullEnd
      | Inl e \<Rightarrow>
          (case e of
             PullRenewal error \<Rightarrow>
               if is_terminal (auth_error_kind error) then PullFailed (auth_error_kind error)
               else PullRepeat (schedule_retry (sch_expires_at schedule) (sc_retry_max config) r d)
           | _ \<Rightarrow> PullRepeat (schedule_retry (sch_expires_at schedule) (sc_retry_max config) r d)))"

text \<open>
  One round of the driver's loop: the schedule it sees (\<open>sv\<close>, after a due expiry), what wakes it, and
  the result of the attempt if it makes one. The second component is the time it waits for at most.
\<close>

definition driver_round ::
  "supervisor \<Rightarrow> (nat \<Rightarrow> reading) \<Rightarrow> pull_wake \<Rightarrow> authority_install_outcome supervisor_result \<Rightarrow> pull_driver \<Rightarrow> pull_next \<times> instant option" where
  "driver_round sv clk wake attempt d =
     (if sv_cancelled sv then (PullEnd, None)
      else case pull_schedule_of sv of
          None \<Rightarrow> (PullEnd, None)
        | Some schedule \<Rightarrow>
            let d' = driver_observe (sv_config sv) schedule (clk 0) d
            in (case pull_decide schedule wake of
                  PullReturn \<Rightarrow> PullEnd
                | PullContinue \<Rightarrow> PullRepeat d'
                | PullAttempt \<Rightarrow> driver_settle (sv_config sv) schedule attempt (clk 1) d',
                Some (driver_due_at (sv_config sv) schedule (clk 0) d')))"

text \<open>The expiry driver arms a timer for the current credential; the wait is zero for a time in the past.\<close>

definition expiry_armed :: "supervisor \<Rightarrow> (u64 \<times> instant) option" where
  "expiry_armed sv = map_option (\<lambda>cur. (cu_credential_revision cur, cu_credential_expires_at cur)) (available_current sv)"

definition expiry_delay :: "instant \<Rightarrow> instant \<Rightarrow> nat" where
  "expiry_delay expires_at now = (case wall_remaining expires_at now of None \<Rightarrow> 0 | Some remaining \<Rightarrow> remaining)"

definition expiry_still_armed :: "supervisor \<Rightarrow> u64 \<times> instant \<Rightarrow> bool" where
  "expiry_still_armed sv armed = (expiry_armed sv = Some armed)"

datatype expiry_wake = ExpiryShutdown | ExpiryChanged "unit option" | ExpiryElapsed

datatype expiry_decision = ExpiryStop | ExpiryReturn | ExpiryAgain | ExpireNow

text \<open>
  A round of the expiry driver: \<open>s1\<close> is the state it arms the timer for, after a due expiry, and \<open>s2\<close>
  the state when the timer has run out. Without a timer it waits for the other two.
\<close>

definition expiry_round :: "supervisor \<Rightarrow> expiry_wake \<Rightarrow> supervisor \<Rightarrow> expiry_decision" where
  "expiry_round s1 wake s2 =
     (if sv_cancelled s1 then ExpiryStop
      else case wake of
          ExpiryShutdown \<Rightarrow> ExpiryStop
        | ExpiryChanged None \<Rightarrow> ExpiryReturn
        | ExpiryChanged (Some _) \<Rightarrow> ExpiryAgain
        | ExpiryElapsed \<Rightarrow>
            (case expiry_armed s1 of
               None \<Rightarrow> ExpiryAgain
             | Some armed \<Rightarrow> if expiry_still_armed s2 armed then ExpireNow else ExpiryAgain))"

section \<open>The host's handles\<close>

text \<open>The handle holds a weak reference to the supervisor.\<close>

definition external_replace ::
  "token_env \<Rightarrow> supervisor option \<Rightarrow> external_authority_update \<Rightarrow> (nat \<Rightarrow> reading) \<Rightarrow>
   authority_install_outcome supervisor_result \<times> supervisor option" where
  "external_replace E inner u clk =
     (case inner of
        None \<Rightarrow> (Inl SupervisorStopped, None)
      | Some sv \<Rightarrow> (case apply_update E sv (update_from_external u) clk of (res, sv') \<Rightarrow> (res, Some sv')))"

text \<open>What wakes the receiver of refresh requests; \<open>None\<close>: the sender is gone.\<close>

datatype recv_wake = RecvShutdown | RecvChanged "external_refresh_request option option"

fun refresh_requests_recv :: "recv_wake list \<Rightarrow> external_refresh_request option option" where
  "refresh_requests_recv [] = None"
| "refresh_requests_recv (RecvShutdown # wakes) = Some None"
| "refresh_requests_recv (RecvChanged None # wakes) = Some None"
| "refresh_requests_recv (RecvChanged (Some (Some request)) # wakes) = Some (Some request)"
| "refresh_requests_recv (RecvChanged (Some None) # wakes) = refresh_requests_recv wakes"

definition relay_refresh_after_unauthorized :: "refresh_world option \<Rightarrow> u64 \<Rightarrow> (unit, unit) result option" where
  "relay_refresh_after_unauthorized inner rejected =
     (case inner of None \<Rightarrow> Some (Inl ()) | Some w \<Rightarrow> map_option (map_err (\<lambda>_. ())) (refresh_after_unauthorized w rejected))"

definition dds_refresh_after_unauthorized :: "refresh_world option \<Rightarrow> u64 \<Rightarrow> unit discovery_result option" where
  "dds_refresh_after_unauthorized inner rejected =
     (case inner of None \<Rightarrow> Some (Inl AuthenticationUnavailable)
      | Some w \<Rightarrow> map_option (map_err (\<lambda>_. AuthenticationUnavailable)) (refresh_after_unauthorized w rejected))"

section \<open>Interleavings\<close>

record supervisor_system =
  sy_supervisor :: supervisor
  sy_update :: "update_phase option"
  sy_pending :: "authority_status list"

definition next_phase :: "update_phase supervisor_result \<Rightarrow> update_phase option" where
  "next_phase res = (case res of Inl _ \<Rightarrow> None | Inr (UpdateDone _) \<Rightarrow> None | Inr p \<Rightarrow> Some p)"

fun awaits_node :: "update_phase \<Rightarrow> bool" where
  "awaits_node (KeysDue v) = True"
| "awaits_node (CredentialDue v) = True"
| "awaits_node _ = False"

text \<open>
  The update lock admits one update, and no request for a refresh meanwhile. The future of an update
  can be dropped while it waits for the node. The token can be canceled at any time, by its parent
  or by a stop.
\<close>

inductive supervisor_step :: "token_env \<Rightarrow> supervisor_system \<Rightarrow> supervisor_system \<Rightarrow> bool" for E where
  begin_an_update: "sy_update s = None \<Longrightarrow> begin_update E (sy_supervisor s) u clk = Inr p \<Longrightarrow>
    supervisor_step E s (s\<lparr>sy_update := Some p\<rparr>)"
| continue_update: "sy_update s = Some p \<Longrightarrow> update_section E clk p (sy_supervisor s) = (res, sv) \<Longrightarrow>
    supervisor_step E s (s\<lparr>sy_supervisor := sv, sy_update := next_phase res\<rparr>)"
| drop_update: "sy_update s = Some p \<Longrightarrow> awaits_node p \<Longrightarrow> supervisor_step E s (s\<lparr>sy_update := None\<rparr>)"
| expire: "expire_if_due now (sy_supervisor s) = (status, sv) \<Longrightarrow>
    supervisor_step E s (s\<lparr>sy_supervisor := sv, sy_pending := sy_pending s @ (case status of None \<Rightarrow> [] | Some x \<Rightarrow> [x])\<rparr>)"
| stop: "stop_section (sy_supervisor s) = (status, sv) \<Longrightarrow>
    supervisor_step E s (s\<lparr>sy_supervisor := sv, sy_pending := sy_pending s @ (case status of None \<Rightarrow> [] | Some x \<Rightarrow> [x])\<rparr>)"
| cancel: "supervisor_step E s (s\<lparr>sy_supervisor := (sy_supervisor s)\<lparr>sv_cancelled := True\<rparr>\<rparr>)"
| publish: "sy_pending s = before @ status # after \<Longrightarrow>
    supervisor_step E s (s\<lparr>sy_supervisor := (sy_supervisor s)\<lparr>sv_status := status\<rparr>, sy_pending := before @ after\<rparr>)"
| fail: "supervisor_step E s (s\<lparr>sy_supervisor := fail_authentication kind (sy_supervisor s)\<rparr>)"
| request_refresh: "sy_update s = None \<Longrightarrow> refresh_deadline (sy_supervisor s) rejected r = Inr (Some deadline) \<Longrightarrow>
    send_refresh (sy_supervisor s) rejected listening = (res, sv) \<Longrightarrow>
    supervisor_step E s (s\<lparr>sy_supervisor := sv\<rparr>)"

definition system_start :: "supervisor \<Rightarrow> supervisor_system" where
  "system_start sv = \<lparr>sy_supervisor = sv, sy_update = None, sy_pending = []\<rparr>"

end
