(* ===== verification/Authority_Safety.thy ===== *)
theory Authority_Safety
  imports Authority_Supervisor
begin

text \<open>
  What the authority supervisor guarantees under every interleaving of its threads: the
  invariants of its state and of an update in flight, the order of revisions along runs, what
  readers and refreshes get, the delays of the pull driver, and a run on which the published
  status contradicts the authority.
\<close>

section \<open>Invariants\<close>

text \<open>
  A current authority is genuine: its bearer is the bearer form of a credential that verified under a
  key set, its claims name this peer and this Domain, and its expiration is the signed one.
\<close>

definition authority_genuine :: "token_env \<Rightarrow> uuid \<Rightarrow> peer_id \<Rightarrow> p2p_access_claims \<Rightarrow> header_value \<Rightarrow> instant \<Rightarrow> bool" where
  "authority_genuine E domain peer c bearer expires_at \<longleftrightarrow>
     (\<exists>credential keys now r ring. from_keys E keys now = Inr ring \<and> verify E ring (compact credential) r = Inr c \<and>
        to_sensitive_bearer_header E credential = Inr bearer) \<and>
     claims_peer_id c = peer_to_string (te_codec E) peer \<and> uuid_to_string E domain \<in> set (domain_ids c) \<and>
     exp c = word_of_int (expires_at div nanos_per_sec) \<and> expires_at mod nanos_per_sec = 0"

text \<open>What is published of the current authority, whether or not it is available.\<close>

definition authority_core :: "supervisor \<Rightarrow> current_authority option" where
  "authority_core sv = map_option (\<lambda>cur. cur\<lparr>cu_available := False\<rparr>) (sv_current sv)"

definition update_ok :: "token_env \<Rightarrow> supervisor \<Rightarrow> validated_update \<Rightarrow> bool" where
  "update_ok E sv v \<longleftrightarrow>
     authority_genuine E (sv_domain_id sv) (na_peer_id (sv_node sv)) (vu_claims v) (vu_authorization v) (vu_credential_expires_at v) \<and>
     (\<exists>now r ring. from_keys E (vu_verification_keys v) now = Inr ring \<and> verify E ring (compact (vu_credential v)) r = Inr (vu_claims v)) \<and>
     (case authority_core sv of
        None \<Rightarrow> \<not> vu_equivalent_credential v
      | Some cur \<Rightarrow> if vu_equivalent_credential v then cu_claims cur = vu_claims v else iat (cu_claims cur) < iat (vu_claims v))"

definition ring_holds :: "token_env \<Rightarrow> supervisor \<Rightarrow> validated_update \<Rightarrow> bool" where
  "ring_holds E sv v \<longleftrightarrow>
     parse_key_set E (vu_verification_keys v) = Inr (current (na_verifier (sv_node sv)), previous (na_verifier (sv_node sv)))"

definition node_holds :: "supervisor \<Rightarrow> p2p_access_claims \<Rightarrow> bool" where
  "node_holds sv c \<longleftrightarrow> (\<exists>x. na_tokens (sv_node sv) = Some x \<and> claims x = c)"

fun phase_ok :: "token_env \<Rightarrow> supervisor \<Rightarrow> update_phase \<Rightarrow> bool" where
  "phase_ok E sv (KeysDue v) \<longleftrightarrow> update_ok E sv v"
| "phase_ok E sv (KeysInstalled v) \<longleftrightarrow> update_ok E sv v \<and> ring_holds E sv v"
| "phase_ok E sv (CredentialDue v) \<longleftrightarrow> update_ok E sv v \<and> ring_holds E sv v \<and> \<not> vu_equivalent_credential v"
| "phase_ok E sv (CredentialInstalled v) \<longleftrightarrow> update_ok E sv v \<and> \<not> vu_equivalent_credential v \<and> node_holds sv (vu_claims v)"
| "phase_ok E sv (Publishing rv e) \<longleftrightarrow> (\<exists>cur. authority_core sv = Some cur \<and> rv \<le> cu_credential_revision cur)"
| "phase_ok E sv (UpdateDone outcome) \<longleftrightarrow> True"

fun between_stores :: "update_phase option \<Rightarrow> bool" where
  "between_stores (Some (CredentialInstalled v)) = True"
| "between_stores _ = False"

text \<open>While the supervisor runs, the node authenticates with the claims that are current.\<close>

definition node_follows :: "supervisor \<Rightarrow> bool" where
  "node_follows sv \<longleftrightarrow>
     (\<forall>cur. authority_core sv = Some cur \<longrightarrow> \<not> sv_stopped sv \<longrightarrow> \<not> sv_cancelled sv \<longrightarrow> cu_credential_revision cur \<noteq> - 1 \<longrightarrow>
        node_holds sv (cu_claims cur))"

fun status_ok :: "current_authority option \<Rightarrow> authority_status \<Rightarrow> bool" where
  "status_ok cur (AuthorityReady rv e) \<longleftrightarrow> (\<exists>c. cur = Some c \<and> rv \<le> cu_credential_revision c)"
| "status_ok cur (AuthorityExpired rv e) \<longleftrightarrow> (\<exists>c. cur = Some c \<and> rv \<le> cu_credential_revision c)"
| "status_ok cur _ \<longleftrightarrow> True"

definition base_inv :: "token_env \<Rightarrow> supervisor \<Rightarrow> bool" where
  "base_inv E sv \<longleftrightarrow>
     ring_ok E (na_verifier (sv_node sv)) \<and> (sv_stopped sv \<longrightarrow> available_current sv = None) \<and>
     (\<forall>cur. authority_core sv = Some cur \<longrightarrow>
        authority_genuine E (sv_domain_id sv) (na_peer_id (sv_node sv)) (cu_claims cur) (cu_authorization cur) (cu_credential_expires_at cur)) \<and>
     status_ok (authority_core sv) (sv_status sv)"

definition supervisor_inv :: "token_env \<Rightarrow> supervisor_system \<Rightarrow> bool" where
  "supervisor_inv E s \<longleftrightarrow>
     base_inv E (sy_supervisor s) \<and> (\<forall>p. sy_update s = Some p \<longrightarrow> phase_ok E (sy_supervisor s) p) \<and>
     (\<not> between_stores (sy_update s) \<longrightarrow> node_follows (sy_supervisor s)) \<and>
     (\<forall>status \<in> set (sy_pending s). status_ok (authority_core (sy_supervisor s)) status)"

subsection \<open>Sections that leave the authority as it is\<close>

definition quiet :: "supervisor \<Rightarrow> supervisor \<Rightarrow> bool" where
  "quiet sv sv' \<longleftrightarrow>
     authority_core sv' = authority_core sv \<and> sv_node sv' = sv_node sv \<and> sv_domain_id sv' = sv_domain_id sv \<and>
     (sv_stopped sv \<longrightarrow> sv_stopped sv') \<and> (sv_cancelled sv \<longrightarrow> sv_cancelled sv') \<and>
     (sv_stopped sv' \<longrightarrow> \<not> sv_stopped sv \<longrightarrow> available_current sv' = None) \<and>
     (sv_stopped sv' \<longrightarrow> sv_stopped sv \<longrightarrow> sv_current sv' = sv_current sv)"

lemmas section_defs = stop_section_def expire_section_def expire_if_due_def fail_authentication_def send_refresh_def

lemma map_option_flag: "map_option ((\<lambda>cur. cur\<lparr>cu_available := False\<rparr>) \<circ> (\<lambda>cur. cur\<lparr>cu_available := False\<rparr>)) x =
    map_option (\<lambda>cur. cur\<lparr>cu_available := False\<rparr>) x"
  by (cases x) auto

lemma available_unavailable [simp]: "available_current (sv\<lparr>sv_current := map_option (\<lambda>cur. cur\<lparr>cu_available := False\<rparr>) x\<rparr>) = None"
  by (cases x) (auto simp: available_current_def)

lemma stop_section_quiet: "stop_section sv = (status, sv') \<Longrightarrow> quiet sv sv' \<and> sv_status sv' = sv_status sv \<and> status \<in> {None, Some AuthorityStopped}"
  by (cases "sv_current sv") (auto simp: stop_section_def quiet_def authority_core_def available_current_def split: if_splits)

lemma expire_if_due_quiet:
  "expire_if_due now sv = (status, sv') \<Longrightarrow> quiet sv sv' \<and> sv_status sv' = sv_status sv \<and>
     (\<forall>x. status = Some x \<longrightarrow> status_ok (authority_core sv) x)"
  by (cases "sv_cancelled sv"; cases "sv_current sv")
    (auto simp: expire_if_due_def expire_section_def quiet_def authority_core_def available_current_def
      stop_section_def split: if_splits)

lemma fail_quiet: "quiet sv (fail_authentication kind sv) \<and> status_ok c (sv_status (fail_authentication kind sv)) = 
    (if sv_stopped sv then status_ok c (sv_status sv) else True)"
  by (cases "sv_current sv") (auto simp: fail_authentication_def quiet_def authority_core_def available_current_def)

lemma send_refresh_quiet: "send_refresh sv rejected listening = (res, sv') \<Longrightarrow> quiet sv sv' \<and> sv_status sv' = sv_status sv"
  by (auto simp: send_refresh_def quiet_def authority_core_def Let_def split: authority_mode.splits option.splits if_splits)

lemma phase_ok_quiet:
  assumes "quiet sv sv'"
  shows "phase_ok E sv' p = phase_ok E sv p"
  using assms by (cases p) (simp_all add: quiet_def update_ok_def ring_holds_def node_holds_def)

lemma supervisor_inv_quiet:
  assumes "supervisor_inv E s" "quiet (sy_supervisor s) sv" "status_ok (authority_core (sy_supervisor s)) (sv_status sv)"
    and "\<forall>status \<in> set pending. status_ok (authority_core (sy_supervisor s)) status"
  shows "supervisor_inv E (s\<lparr>sy_supervisor := sv, sy_pending := pending\<rparr>)"
proof -
  have "base_inv E sv"
    using assms by (auto simp: supervisor_inv_def base_inv_def quiet_def available_current_def)
  moreover have "node_follows sv" if "node_follows (sy_supervisor s)"
    using that assms(2) by (auto simp: node_follows_def quiet_def node_holds_def)
  ultimately show ?thesis
    using assms phase_ok_quiet [OF assms(2)] by (auto simp: supervisor_inv_def quiet_def)
qed

subsection \<open>The sections of an update\<close>

lemma exact_expiration_ok:
  "exact_expiration e now = Inr x \<longleftrightarrow>
     now < e \<and> e mod nanos_per_sec = 0 \<and> 0 \<le> e div nanos_per_sec \<and> x = word_of_int (e div nanos_per_sec)"
  by (auto simp: exact_expiration_def)

lemma check_target_ok:
  "check_target E sv u now = Inr x \<Longrightarrow>
     au_credential_expires_at u mod nanos_per_sec = 0 \<and> x = word_of_int (au_credential_expires_at u div nanos_per_sec) \<and>
     now < au_credential_expires_at u"
  by (auto simp: check_target_def guard_ok and_then_eq_Inr exact_expiration_ok)

lemma check_signed_ok:
  assumes "check_signed E sv u expected clk = Inr c"
  shows "\<exists>ring. from_keys E (au_verification_keys u) (mono_now (clk 1)) = Inr ring \<and>
      verify E ring (compact (au_credential u)) (clk 2) = Inr c"
    "claims_peer_id c = peer_to_string (te_codec E) (na_peer_id (sv_node sv))"
    "uuid_to_string E (sv_domain_id sv) \<in> set (domain_ids c)" "exp c = expected"
  using assms by (auto simp: check_signed_def and_then_eq_Inr guard_ok)

lemma validate_update_ok:
  assumes "validate_update E sv u clk = Inr v"
  shows "update_ok E sv v"
proof -
  obtain expected c bearer where t: "check_target E sv u (wall_now (clk 0)) = Inr expected"
    and c: "check_signed E sv u expected clk = Inr c"
    and h: "to_sensitive_bearer_header E (au_credential u) = Inr bearer"
    and v: "vu_verification_keys v = au_verification_keys u" "vu_credential v = au_credential u" "vu_claims v = c"
      "vu_authorization v = bearer" "vu_credential_expires_at v = au_credential_expires_at u"
      "vu_equivalent_credential v = (case sv_current sv of None \<Rightarrow> False | Some cur \<Rightarrow> cu_claims cur = c)"
    and a: "\<forall>cur. sv_current sv = Some cur \<longrightarrow> cu_claims cur \<noteq> c \<longrightarrow> iat (cu_claims cur) < iat c"
    using assms by (cases "sv_current sv") (auto simp: validate_update_def and_then_eq_Inr guard_ok Let_def not_le)
  obtain ring where "from_keys E (au_verification_keys u) (mono_now (clk 1)) = Inr ring" "verify E ring (compact (au_credential u)) (clk 2) = Inr c"
    using check_signed_ok(1) [OF c] by blast
  with h have "\<exists>credential keys now r ring. from_keys E keys now = Inr ring \<and> verify E ring (compact credential) r = Inr c \<and>
      to_sensitive_bearer_header E credential = Inr bearer" by blast
  then have "authority_genuine E (sv_domain_id sv) (na_peer_id (sv_node sv)) (vu_claims v) (vu_authorization v) (vu_credential_expires_at v)"
    unfolding authority_genuine_def v using check_signed_ok(2-4) [OF c] check_target_ok [OF t] by auto
  moreover have "\<exists>now r ring. from_keys E (vu_verification_keys v) now = Inr ring \<and> verify E ring (compact (vu_credential v)) r = Inr (vu_claims v)"
    using check_signed_ok(1) [OF c] v by auto
  moreover have "case authority_core sv of None \<Rightarrow> \<not> vu_equivalent_credential v
      | Some cur \<Rightarrow> if vu_equivalent_credential v then cu_claims cur = vu_claims v else iat (cu_claims cur) < iat (vu_claims v)"
    using v a by (cases "sv_current sv") (auto simp: authority_core_def)
  ultimately show ?thesis by (simp add: update_ok_def)
qed

lemma begin_update_ok:
  assumes "begin_update E sv u clk = Inr p"
  obtains v where "p = KeysDue v" "update_ok E sv v" "validate_update E sv u clk = Inr v"
  using assms validate_update_ok by (auto simp: begin_update_def and_then_eq_Inr)

lemma verify_same_keys:
  assumes "current a = current b" "previous a = previous b" "verify E a token r = Inr c" "verify E b token r' = Inr c'"
  shows "c = c'"
proof -
  have "decode_with_ring E a token = decode_with_ring E b token" unfolding decode_with_ring_def assms(1,2) ..
  then show ?thesis using assms(3,4) by (auto simp: verify_def verify_at_def guard_ok and_then_eq_Inr)
qed

lemma next_revision:
  "next_authority_revision (Some r) = Some r' \<Longrightarrow> r < r'"
  "next_authority_revision (Some r) = None \<Longrightarrow> r = - 1"
proof -
  show "next_authority_revision (Some r) = Some r' \<Longrightarrow> r < r'"
    by (simp add: next_authority_revision_def checked_add_less)
  assume "next_authority_revision (Some r) = None"
  then have "unat r = 2 ^ 64 - 1"
    using unsigned_less [of r, where ?'a = nat] by (auto simp: next_authority_revision_def checked_add_def split: if_splits)
  then have "unat r = unat (- 1 :: u64)" by (simp add: unsigned_minus_1_eq_mask mask_eq_exp_minus_1)
  then show "r = - 1" by (simp only: word_unat_eq_iff)
qed

text \<open>The core after a section: unchanged, or a later credential with a later revision.\<close>

definition advances :: "current_authority option \<Rightarrow> current_authority option \<Rightarrow> bool" where
  "advances a b \<longleftrightarrow> (\<exists>new. b = Some new \<and>
     (\<forall>old. a = Some old \<longrightarrow> cu_credential_revision old < cu_credential_revision new \<and> iat (cu_claims old) < iat (cu_claims new)))"

lemma status_ok_advances: "advances a b \<Longrightarrow> status_ok a status \<Longrightarrow> status_ok b status"
  by (cases status) (auto simp: advances_def)

lemma keys_section:
  assumes "update_section E clk (KeysDue v) sv = (res, sv')" "base_inv E sv" "phase_ok E sv (KeysDue v)"
  shows "base_inv E sv'" "authority_core sv' = authority_core sv" "node_follows sv' = node_follows sv"
    "\<forall>p. res = Inr p \<longrightarrow> p = KeysInstalled v \<and> phase_ok E sv' p" "sv_stopped sv' = sv_stopped sv" "sv_status sv' = sv_status sv"
proof -
  obtain kr node where n: "node_install_verification_keys E (sv_node sv) (vu_verification_keys v) (clk 3) = (kr, node)"
    by fastforce
  note f = node_install_frame [OF n]
  have sv': "sv' = sv\<lparr>sv_node := node\<rparr>" using assms(1) n by (auto split: sum.splits)
  have ring: "ring_ok E (na_verifier node)"
    using assms(2) replace_keys_at_ok(1) [OF _ f(3)] by (simp add: base_inv_def)
  show "base_inv E sv'" "authority_core sv' = authority_core sv" "node_follows sv' = node_follows sv"
    "sv_stopped sv' = sv_stopped sv" "sv_status sv' = sv_status sv"
    using assms(2) ring f by (simp_all add: sv' base_inv_def authority_core_def available_current_def node_follows_def node_holds_def)
  have "ring_holds E sv' v" if "kr = Inr ()"
    using replace_keys_at_installed(1) [of E "na_verifier (sv_node sv)"] f(3) that assms(2)
    by (simp add: ring_holds_def sv' base_inv_def)
  moreover have "update_ok E sv' v"
    using assms(3) f by (simp add: update_ok_def sv' authority_core_def)
  ultimately show "\<forall>p. res = Inr p \<longrightarrow> p = KeysInstalled v \<and> phase_ok E sv' p"
    using assms(1) n by (auto split: sum.splits)
qed

lemma record_section:
  assumes "update_section E clk (KeysInstalled v) sv = (res, sv')" "base_inv E sv" "phase_ok E sv (KeysInstalled v)"
  shows "base_inv E sv'" "authority_core sv' = authority_core sv" "node_follows sv' = node_follows sv"
    "\<forall>p. res = Inr p \<longrightarrow> (p = CredentialDue v \<or> (\<exists>o'. p = UpdateDone o')) \<and> phase_ok E sv' p"
    "sv_stopped sv' = sv_stopped sv" "sv_status sv' = sv_status sv"
proof -
  have sv': "sv' = sv\<lparr>sv_installed_keys := Some (vu_verification_keys v)\<rparr>"
    using assms(1) by (auto simp: record_keys_def Let_def)
  have ok: "update_ok E sv' v = update_ok E sv v" "ring_holds E sv' v = ring_holds E sv v"
    by (simp_all add: sv' update_ok_def ring_holds_def authority_core_def)
  show "base_inv E sv'" "authority_core sv' = authority_core sv" "node_follows sv' = node_follows sv"
    "sv_stopped sv' = sv_stopped sv" "sv_status sv' = sv_status sv"
    using assms(2) by (simp_all add: sv' base_inv_def authority_core_def available_current_def node_follows_def node_holds_def)
  show "\<forall>p. res = Inr p \<longrightarrow> (p = CredentialDue v \<or> (\<exists>o'. p = UpdateDone o')) \<and> phase_ok E sv' p"
    using assms(1,3) ok by (auto simp: record_keys_def Let_def and_then_eq_Inr split: if_splits)
qed

lemma credential_section:
  assumes "update_section E clk (CredentialDue v) sv = (res, sv')" "base_inv E sv" "phase_ok E sv (CredentialDue v)"
  shows "base_inv E sv'" "authority_core sv' = authority_core sv"
    "\<forall>e. res = Inl e \<longrightarrow> node_follows sv' = node_follows sv"
    "\<forall>p. res = Inr p \<longrightarrow> p = CredentialInstalled v \<and> phase_ok E sv' p"
    "sv_stopped sv' = sv_stopped sv" "sv_status sv' = sv_status sv"
proof -
  obtain cr node where n: "install_credential_for_domain E (sv_node sv) (vu_credential v) (sv_domain_id sv) (clk 4) = (cr, node)"
    by fastforce
  note f = node_credential_frame [OF n]
  have sv': "sv' = sv\<lparr>sv_node := node\<rparr>" using assms(1) n by (auto split: sum.splits)
  show "base_inv E sv'" "authority_core sv' = authority_core sv" "sv_stopped sv' = sv_stopped sv" "sv_status sv' = sv_status sv"
    using assms(2) f by (simp_all add: sv' base_inv_def authority_core_def available_current_def)
  have "node = sv_node sv" if "cr = Inl e" for e
    using n that by (auto simp: install_credential_for_domain_def node_store_install_def map_err_def elim!: store_install_cases
        split: prod.splits sum.splits)
  then show "\<forall>e. res = Inl e \<longrightarrow> node_follows sv' = node_follows sv"
    using assms(1) n by (auto split: sum.splits)
  have "node_holds sv' (vu_claims v)" if c: "cr = Inr c" for c
  proof -
    note ok = install_for_domain_ok [OF n [unfolded c]]
    obtain now r ring where "from_keys E (vu_verification_keys v) now = Inr ring" "verify E ring (compact (vu_credential v)) r = Inr (vu_claims v)"
      using assms(3) by (auto simp: update_ok_def)
    moreover have "verify E (na_verifier (sv_node sv)) (compact (vu_credential v)) (clk 4) = Inr c"
      using ok(2) by (simp add: check_credential_Inr)
    moreover have "current ring = current (na_verifier (sv_node sv))" "previous ring = previous (na_verifier (sv_node sv))"
      if "from_keys E (vu_verification_keys v) now = Inr ring" for ring now
      using assms(3) that by (auto simp: from_keys_def and_then_eq_Inr ring_holds_def)
    ultimately have "c = vu_claims v" by (metis verify_same_keys)
    with ok(1) show ?thesis by (simp add: node_holds_def sv')
  qed
  moreover have "update_ok E sv' v"
    using assms(3) f by (simp add: update_ok_def sv' authority_core_def)
  ultimately show "\<forall>p. res = Inr p \<longrightarrow> p = CredentialInstalled v \<and> phase_ok E sv' p"
    using assms(1,3) n by (auto split: sum.splits)
qed

lemma commit_section:
  assumes "update_section E clk (CredentialInstalled v) sv = (res, sv')" "base_inv E sv" "phase_ok E sv (CredentialInstalled v)"
  shows "base_inv E sv' \<and> (authority_core sv' = authority_core sv \<or> advances (authority_core sv) (authority_core sv')) \<and>
    node_follows sv' \<and> (\<forall>p. res = Inr p \<longrightarrow> (\<exists>rv e. p = Publishing rv e) \<and> phase_ok E sv' p) \<and>
    sv_stopped sv' = sv_stopped sv"
proof (cases res)
  case (Inl e)
  then have sv': "sv' = sv" and e: "sv_stopped sv \<or> sv_cancelled sv \<or> next_authority_revision (map_option cu_credential_revision (sv_current sv)) = None"
    using assms(1) by (auto simp: commit_update_def split: if_splits option.splits)
  have "cu_credential_revision cur = - 1" if "\<not> sv_stopped sv" "\<not> sv_cancelled sv" "authority_core sv = Some cur" for cur
    using e that by (auto simp: authority_core_def dest: next_revision(2))
  then have "node_follows sv'" by (auto simp: node_follows_def sv')
  with assms(2) Inl show ?thesis by (simp add: sv')
next
  case (Inr p)
  then obtain rv where go: "\<not> sv_stopped sv" "\<not> sv_cancelled sv"
      "next_authority_revision (map_option cu_credential_revision (sv_current sv)) = Some rv" and p: "p = Publishing rv (vu_credential_expires_at v)"
    and sv': "sv' = sv\<lparr>sv_current := Some \<lparr>cu_credential_revision = rv, cu_claims = vu_claims v,
      cu_authorization = vu_authorization v, cu_credential_expires_at = vu_credential_expires_at v,
      cu_renew_at = vu_renew_at v, cu_available = True\<rparr>\<rparr>"
    using assms(1) by (auto simp: commit_update_def split: if_splits option.splits)
  have adv: "advances (authority_core sv) (authority_core sv')"
    using assms(3) go(3) by (auto simp: advances_def authority_core_def sv' update_ok_def dest: next_revision(1))
  have "base_inv E sv'"
    using assms(2,3) go status_ok_advances [OF adv] by (auto simp: base_inv_def sv' authority_core_def update_ok_def)
  moreover have "node_follows sv'"
    using assms(3) by (auto simp: node_follows_def sv' authority_core_def node_holds_def)
  moreover have "phase_ok E sv' p" by (simp add: p sv' authority_core_def)
  ultimately show ?thesis using Inr p adv by (simp add: sv')
qed

lemma publish_section:
  assumes "update_section E clk (Publishing rv e) sv = (res, sv')" "base_inv E sv" "phase_ok E sv (Publishing rv e)"
  shows "base_inv E sv'" "authority_core sv' = authority_core sv" "node_follows sv' = node_follows sv"
    "res = Inr (UpdateDone (Replaced rv))" "sv_stopped sv' = sv_stopped sv"
  using assms by (auto simp: base_inv_def authority_core_def available_current_def node_follows_def node_holds_def)

lemma update_section_frame:
  "update_section E clk p sv = (res, sv') \<Longrightarrow>
     sv_domain_id sv' = sv_domain_id sv \<and> na_peer_id (sv_node sv') = na_peer_id (sv_node sv) \<and> sv_stopped sv' = sv_stopped sv"
  by (cases p) (auto simp: record_keys_def commit_update_def Let_def split: prod.splits sum.splits option.splits if_splits
      dest!: node_install_frame(1) node_credential_frame(1))

lemma update_section_inv:
  assumes "update_section E clk p sv = (res, sv')" "base_inv E sv" "phase_ok E sv p" "\<not> between_stores (Some p) \<longrightarrow> node_follows sv"
  shows "base_inv E sv' \<and> (authority_core sv' = authority_core sv \<or> advances (authority_core sv) (authority_core sv')) \<and>
    (\<forall>q. next_phase res = Some q \<longrightarrow> phase_ok E sv' q) \<and> (\<not> between_stores (next_phase res) \<longrightarrow> node_follows sv')"
proof (cases p)
  case (KeysDue v)
  from keys_section [OF assms(1-3) [unfolded KeysDue]] assms(4) KeysDue show ?thesis
    by (cases res) (auto simp: next_phase_def)
next
  case (KeysInstalled v)
  from record_section [OF assms(1-3) [unfolded KeysInstalled]] assms(4) KeysInstalled show ?thesis
    by (cases res) (auto simp: next_phase_def)
next
  case (CredentialDue v)
  from credential_section [OF assms(1-3) [unfolded CredentialDue]] assms(4) CredentialDue show ?thesis
    by (cases res) (auto simp: next_phase_def)
next
  case (CredentialInstalled v)
  from commit_section [OF assms(1-3) [unfolded CredentialInstalled]] show ?thesis
    by (cases res) (auto simp: next_phase_def)
next
  case (Publishing rv e)
  from publish_section [OF assms(1-3) [unfolded Publishing]] assms(4) Publishing show ?thesis
    by (auto simp: next_phase_def)
next
  case (UpdateDone outcome)
  with assms show ?thesis by (auto simp: next_phase_def)
qed

lemma finish_update_inv:
  "finish_update E clk p sv = (res, sv') \<Longrightarrow> base_inv E sv \<Longrightarrow> phase_ok E sv p \<Longrightarrow> \<not> between_stores (Some p) \<longrightarrow> node_follows sv \<Longrightarrow>
     base_inv E sv' \<and> node_follows sv' \<and> sv_domain_id sv' = sv_domain_id sv \<and> na_peer_id (sv_node sv') = na_peer_id (sv_node sv)"
proof (induction E clk p sv rule: finish_update.induct)
  case (1 E clk p sv)
  show ?case
  proof (cases "finished p")
    case (Some outcome)
    then have "p = UpdateDone outcome" by (cases p) auto
    with "1.prems" show ?thesis by (auto simp: finish_update.simps)
  next
    case None
    obtain r sv1 where u: "update_section E clk p sv = (r, sv1)" by fastforce
    note inv = update_section_inv [OF u "1.prems"(2-4)] and frame = update_section_frame [OF u]
    have fin: "finish_update E clk p sv = (case r of Inl e \<Rightarrow> (Inl e, sv1) | Inr q \<Rightarrow> finish_update E clk q sv1)"
      by (subst finish_update.simps) (simp add: None u)
    show ?thesis
    proof (cases r)
      case (Inl e)
      with fin "1.prems"(1) inv frame show ?thesis by (simp add: next_phase_def)
    next
      case (Inr q)
      have "phase_ok E sv1 q \<and> (\<not> between_stores (Some q) \<longrightarrow> node_follows sv1)"
        using inv Inr by (cases q) (simp_all add: next_phase_def)
      with "1.IH" [OF None u [symmetric] Inr] fin "1.prems"(1) inv frame Inr show ?thesis by simp
    qed
  qed
qed

lemma supervisor_new_inv:
  assumes "ring_ok E (na_verifier node)"
  shows "base_inv E (supervisor_new domain node config mode cancelled)" "node_follows (supervisor_new domain node config mode cancelled)"
  using assms by (simp_all add: supervisor_new_def base_inv_def node_follows_def authority_core_def available_current_def)

lemma start_with_inv:
  assumes "ring_ok E (na_verifier node)" "fst (start_with E (supervisor_new domain node config mode cancelled) u clk) = Inr sv"
  shows "supervisor_inv E (system_start sv) \<and> sv_domain_id sv = domain \<and> na_peer_id (sv_node sv) = na_peer_id node"
proof -
  let ?new = "supervisor_new domain node config mode cancelled"
  obtain p outcome where p: "begin_update E ?new u clk = Inr p" and f: "finish_update E clk p ?new = (Inr outcome, sv)"
    using assms(2) by (auto simp: start_with_def apply_update_def split: prod.splits sum.splits)
  obtain v where "p = KeysDue v" "update_ok E ?new v" using begin_update_ok [OF p] .
  then have "base_inv E sv \<and> node_follows sv \<and> sv_domain_id sv = sv_domain_id ?new \<and> na_peer_id (sv_node sv) = na_peer_id (sv_node ?new)"
    using finish_update_inv [OF f] supervisor_new_inv [OF assms(1)] by simp
  then show ?thesis by (simp add: supervisor_inv_def system_start_def supervisor_new_def)
qed

lemma start_inv:
  assumes "ring_ok E (na_verifier node)"
    and "start_pull E domain node prepared config cancelled clk = Inr sv \<or> start_external E domain node initial config cancelled clk = Inr sv"
  shows "supervisor_inv E (system_start sv) \<and> sv_domain_id sv = domain \<and> na_peer_id (sv_node sv) = na_peer_id node"
  using assms(2) start_with_inv [OF assms(1)] by (auto simp: start_pull_def start_external_def and_then_eq_Inr)

subsection \<open>Runs\<close>

text \<open>What a step does to the published authority, and what it keeps.\<close>

lemma quiet_self: "quiet sv (sv\<lparr>sv_status := status\<rparr>)" "quiet sv (sv\<lparr>sv_cancelled := True\<rparr>)"
  by (simp_all add: quiet_def authority_core_def)

lemma supervisor_step_inv:
  assumes "supervisor_step E s t" "supervisor_inv E s"
  shows "supervisor_inv E t \<and>
    (authority_core (sy_supervisor t) = authority_core (sy_supervisor s) \<or> advances (authority_core (sy_supervisor s)) (authority_core (sy_supervisor t))) \<and>
    sv_domain_id (sy_supervisor t) = sv_domain_id (sy_supervisor s) \<and>
    na_peer_id (sv_node (sy_supervisor t)) = na_peer_id (sv_node (sy_supervisor s)) \<and>
    (sv_stopped (sy_supervisor s) \<longrightarrow> sv_stopped (sy_supervisor t))"
proof -
  have keep: ?thesis if "t = s\<lparr>sy_supervisor := sv, sy_pending := pending\<rparr>" "quiet (sy_supervisor s) sv"
      "status_ok (authority_core (sy_supervisor s)) (sv_status sv)"
      "\<forall>status \<in> set pending. status_ok (authority_core (sy_supervisor s)) status" for sv pending
    using supervisor_inv_quiet [OF assms(2) that(2-4)] that(1,2) by (simp add: quiet_def)
  have now: "status_ok (authority_core (sy_supervisor s)) (sv_status (sy_supervisor s))"
      "\<forall>status \<in> set (sy_pending s). status_ok (authority_core (sy_supervisor s)) status"
    using assms(2) by (auto simp: supervisor_inv_def base_inv_def)
  from assms(1) show ?thesis
  proof (cases rule: supervisor_step.cases)
    case (begin_an_update u clk p)
    obtain v where "p = KeysDue v" "update_ok E (sy_supervisor s) v" using begin_update_ok [OF begin_an_update(3)] .
    with begin_an_update assms(2) show ?thesis by (auto simp: supervisor_inv_def)
  next
    case (continue_update p clk res sv)
    have u: "base_inv E sv \<and> (authority_core sv = authority_core (sy_supervisor s) \<or> advances (authority_core (sy_supervisor s)) (authority_core sv)) \<and>
      (\<forall>q. next_phase res = Some q \<longrightarrow> phase_ok E sv q) \<and> (\<not> between_stores (next_phase res) \<longrightarrow> node_follows sv)"
      by (rule update_section_inv [OF continue_update(3)]) (use assms(2) continue_update(2) in \<open>auto simp: supervisor_inv_def\<close>)
    moreover have "status_ok (authority_core sv) status" if "status \<in> set (sy_pending s)" for status
      using u now(2) that by (auto intro: status_ok_advances)
    ultimately show ?thesis
      using update_section_frame [OF continue_update(3)] continue_update(1) by (simp add: supervisor_inv_def)
  next
    case (drop_update p)
    have "\<not> between_stores (Some p)" using drop_update(3) by (cases p) auto
    with drop_update assms(2) show ?thesis by (auto simp: supervisor_inv_def)
  next
    case (expire now status sv)
    show ?thesis
      by (rule keep [OF expire(1)]) (use expire_if_due_quiet [OF expire(2)] now in \<open>auto split: option.splits\<close>)
  next
    case (stop status sv)
    show ?thesis
      by (rule keep [OF stop(1)]) (use stop_section_quiet [OF stop(2)] now in \<open>auto split: option.splits\<close>)
  next
    case cancel
    show ?thesis
      by (rule keep [where sv = "(sy_supervisor s)\<lparr>sv_cancelled := True\<rparr>" and pending = "sy_pending s"]) (use cancel now quiet_self in auto)
  next
    case (publish before status after)
    show ?thesis by (rule keep [OF publish(1)]) (use publish now quiet_self in auto)
  next
    case (fail kind)
    show ?thesis
      by (rule keep [where sv = "fail_authentication kind (sy_supervisor s)" and pending = "sy_pending s"])
        (use fail now fail_quiet [of "sy_supervisor s" kind "authority_core (sy_supervisor s)"] in auto)
  next
    case (request_refresh rejected r deadline listening res sv)
    show ?thesis
      by (rule keep [where sv = sv and pending = "sy_pending s"]) (use request_refresh(1) send_refresh_quiet [OF request_refresh(4)] now in auto)
  qed
qed

definition authority_rank :: "supervisor_system \<Rightarrow> nat" where
  "authority_rank s = (case authority_core (sy_supervisor s) of None \<Rightarrow> 0 | Some cur \<Rightarrow> Suc (unat (cu_credential_revision cur)))"

definition issue_rank :: "supervisor_system \<Rightarrow> nat" where
  "issue_rank s = (case authority_core (sy_supervisor s) of None \<Rightarrow> 0 | Some cur \<Rightarrow> Suc (unat (iat (cu_claims cur))))"

lemma advances_ranks:
  assumes "advances (authority_core (sy_supervisor s)) (authority_core (sy_supervisor t))"
  shows "authority_rank s < authority_rank t" "issue_rank s < issue_rank t"
  using assms by (auto simp: advances_def authority_rank_def issue_rank_def word_less_nat_alt split: option.splits)

interpretation supervisor_sys: versioned_system "supervisor_step E"
    "\<lambda>s. supervisor_inv E s \<and> sv_domain_id (sy_supervisor s) = domain \<and> na_peer_id (sv_node (sy_supervisor s)) = peer"
    authority_rank "\<lambda>s. authority_core (sy_supervisor s)" for E domain peer
proof (unfold_locales, goal_cases)
  case (1 s t)
  then show ?case using supervisor_step_inv by metis
next
  case (2 s t)
  then show ?case using supervisor_step_inv [of E s t] advances_ranks [of s t] by (auto simp: authority_rank_def)
next
  case (3 s t)
  then show ?case using supervisor_step_inv [of E s t] advances_ranks [of s t] by auto
qed

text \<open>The order of revisions is the order of issue times.\<close>

lemma run_issue_order:
  assumes "(supervisor_step E)\<^sup>*\<^sup>* s t" "supervisor_inv E s"
  shows "authority_rank s = authority_rank t \<or> (authority_rank s < authority_rank t \<and> issue_rank s < issue_rank t)"
    "sv_stopped (sy_supervisor s) \<longrightarrow> sv_stopped (sy_supervisor t)" "supervisor_inv E t"
proof -
  have "supervisor_inv E t \<and> (sv_stopped (sy_supervisor s) \<longrightarrow> sv_stopped (sy_supervisor t)) \<and>
    ((authority_rank s = authority_rank t \<and> issue_rank s = issue_rank t) \<or> (authority_rank s < authority_rank t \<and> issue_rank s < issue_rank t))"
    using assms
  proof (induction rule: rtranclp_induct)
    case (step y z)
    then show ?case using supervisor_step_inv [of E y z] advances_ranks [of y z] by (auto simp: authority_rank_def issue_rank_def)
  qed simp
  then show "authority_rank s = authority_rank t \<or> (authority_rank s < authority_rank t \<and> issue_rank s < issue_rank t)"
    "sv_stopped (sy_supervisor s) \<longrightarrow> sv_stopped (sy_supervisor t)" "supervisor_inv E t" by auto
qed

section \<open>Readers and refreshes\<close>

lemma available_current_Some: "available_current sv = Some cur \<longleftrightarrow> sv_current sv = Some cur \<and> cu_available cur"
  by (auto simp: available_current_def split: option.splits)

lemma authorization_parts_ok:
  assumes "authorization_parts s1 s2 now = Inr (bearer, rv)"
  shows "\<exists>old cur. sv_current s1 = Some old \<and> sv_current s2 = Some cur \<and> cu_available cur \<and> now < cu_credential_expires_at cur \<and>
    cu_authorization old = bearer \<and> cu_credential_revision old = rv \<and> cu_credential_revision cur = rv"
  using assms
  by (auto simp: authorization_parts_def authorization_read_def still_current_def and_then_eq_Inr available_current_Some split: if_splits option.splits)

lemma public_snapshot_ok:
  assumes "public_authorization_snapshot s1 now1 s2 now2 = Inr snapshot"
  shows "\<exists>old cur. sv_current s1 = Some old \<and> sv_current s2 = Some cur \<and> cu_available cur \<and> now2 < cu_credential_expires_at cur \<and>
    ps_claims snapshot = cu_claims old \<and> ps_expires_at snapshot = cu_credential_expires_at old \<and> \<not> sv_stopped s2 \<and>
    ps_credential_revision snapshot = cu_credential_revision old \<and> cu_credential_revision cur = cu_credential_revision old"
  using assms
  by (auto simp: public_authorization_snapshot_def public_read_def validate_public_snapshot_fence_def and_then_eq_Inr
      split: if_splits option.splits)

text \<open>Two looks of one reader that see the same revision see the same authority.\<close>

lemma same_revision_same_core:
  assumes inv: "supervisor_inv E a" and run: "(supervisor_step E)\<^sup>*\<^sup>* a b"
    and "sv_current (sy_supervisor a) = Some old" "sv_current (sy_supervisor b) = Some cur"
    and "cu_credential_revision cur = cu_credential_revision old"
  shows "cu_claims cur = cu_claims old" "cu_authorization cur = cu_authorization old"
    "cu_credential_expires_at cur = cu_credential_expires_at old"
proof -
  have "authority_rank b = authority_rank a" using assms(3-5) by (simp add: authority_rank_def authority_core_def)
  then have "authority_core (sy_supervisor b) = authority_core (sy_supervisor a)"
    using supervisor_sys.run_view [OF run, of "sv_domain_id (sy_supervisor a)" "na_peer_id (sv_node (sy_supervisor a))"] inv by simp
  then have "cur\<lparr>cu_available := False\<rparr> = old\<lparr>cu_available := False\<rparr>" using assms(3,4) by (simp add: authority_core_def)
  then show "cu_claims cur = cu_claims old" "cu_authorization cur = cu_authorization old"
    "cu_credential_expires_at cur = cu_credential_expires_at old"
    by (cases cur; cases old; simp)+
qed

lemma started_run:
  assumes "ring_ok E (na_verifier node)"
    and "start_pull E domain node prepared config cancelled clk = Inr sv \<or> start_external E domain node initial config cancelled clk = Inr sv"
    and "(supervisor_step E)\<^sup>*\<^sup>* (system_start sv) s"
  shows "supervisor_inv E s \<and> sv_domain_id (sy_supervisor s) = domain \<and> na_peer_id (sv_node (sy_supervisor s)) = na_peer_id node"
  using supervisor_sys.run_inv [OF assms(3), where domain = domain and peer = "na_peer_id node"] start_inv [OF assms(1,2)]
  by (simp add: system_start_def)

lemma reachable_current:
  assumes "supervisor_inv E s" "sv_current (sy_supervisor s) = Some cur"
  shows "authority_genuine E (sv_domain_id (sy_supervisor s)) (na_peer_id (sv_node (sy_supervisor s))) (cu_claims cur)
      (cu_authorization cur) (cu_credential_expires_at cur)"
    "cu_available cur \<Longrightarrow> \<not> sv_stopped (sy_supervisor s)"
  using assms by (auto simp: supervisor_inv_def base_inv_def authority_core_def available_current_def)

lemma wait_for_revision_ok:
  "wait_for_revision rejected turns = Some (Inr ()) \<Longrightarrow> \<exists>rv e wake. (AuthorityReady rv e, wake) \<in> set turns \<and> rejected < rv"
proof (induction rejected turns rule: wait_for_revision.induct)
  case (2 rejected status wake turns)
  show ?case
  proof (cases "\<exists>rv e. status = AuthorityReady rv e \<and> rejected < rv")
    case True
    then show ?thesis by auto
  next
    case False
    then have "wait_for_revision rejected turns = Some (Inr ())" "\<exists>u. wake = RefreshChanged (Some u)"
      using "2.prems" by (auto simp: Let_def split: authority_status.splits refresh_wake.splits option.splits if_splits)
    then show ?thesis using "2.IH" by auto
  qed
qed simp

lemma refresh_deadline_ok:
  assumes "refresh_deadline sv rejected r = Inr d"
  shows "\<exists>cur. sv_current sv = Some cur \<and> cu_available cur \<and>
    (d = None \<and> rejected < cu_credential_revision cur \<or>
     (\<exists>deadline. d = Some deadline \<and> rejected = cu_credential_revision cur \<and> wall_now r < cu_credential_expires_at cur \<and>
       deadline = mono_now r + min (cu_credential_expires_at cur - wall_now r) (int (sc_early_refresh_timeout (sv_config sv)))))"
  using assms
  by (auto simp: refresh_deadline_def and_then_eq_Inr available_current_Some judge_rejected_revision_def wall_remaining_def
      split: if_splits rejected_authority_revision.splits)

lemma refresh_ok_cases:
  assumes "refresh_after_unauthorized w rejected = Some (Inr ())"
  shows "(\<exists>i < 3. refresh_deadline (fw_state w i) rejected (fw_clock w i) = Inr None) \<or> wait_for_revision rejected (fw_turns w) = Some (Inr ())"
  using assms
  by (auto simp: refresh_after_unauthorized_def with_deadline_def numeral_3_eq_3 less_Suc_eq numeral_2_eq_2 split: sum.splits option.splits if_splits)

lemma ready_status_current:
  assumes "supervisor_inv E s" "sv_status (sy_supervisor s) = AuthorityReady rv e"
  shows "\<exists>cur. sv_current (sy_supervisor s) = Some cur \<and> rv \<le> cu_credential_revision cur"
  using assms by (auto simp: supervisor_inv_def base_inv_def authority_core_def)

lemma run_revision:
  assumes "(supervisor_step E)\<^sup>*\<^sup>* s t" "supervisor_inv E s" "sv_current (sy_supervisor s) = Some cur"
  shows "\<exists>cur'. sv_current (sy_supervisor t) = Some cur' \<and> cu_credential_revision cur \<le> cu_credential_revision cur'"
proof -
  have "authority_rank s \<le> authority_rank t" using run_issue_order(1) [OF assms(1,2)] by auto
  then show ?thesis
    using assms(3) by (auto simp: authority_rank_def authority_core_def word_le_nat_alt split: option.splits)
qed

section \<open>The pull driver's delays\<close>

text \<open>The driver's state after some rounds, as long as it does not end.\<close>

fun driver_rounds ::
  "(supervisor \<times> (nat \<Rightarrow> reading) \<times> pull_wake \<times> authority_install_outcome supervisor_result) list \<Rightarrow> pull_driver \<Rightarrow> pull_next" where
  "driver_rounds [] d = PullRepeat d"
| "driver_rounds ((sv, clk, wake, attempt) # rounds) d =
     (case fst (driver_round sv clk wake attempt d) of PullRepeat d' \<Rightarrow> driver_rounds rounds d' | ended \<Rightarrow> ended)"

definition delay_ok :: "supervisor_config \<Rightarrow> pull_driver \<Rightarrow> bool" where
  "delay_ok config d \<longleftrightarrow> sc_retry_initial config \<le> pd_retry_delay d \<and> pd_retry_delay d \<le> sc_retry_max config"

lemma validate_supervisor_config_ok:
  "validate_supervisor_config c = Inr () \<longleftrightarrow>
     0 < sc_renewal_attempt_timeout c \<and> 0 < sc_early_refresh_timeout c \<and> 0 < sc_retry_initial c \<and> sc_retry_initial c \<le> sc_retry_max c"
  by (auto simp: validate_supervisor_config_def)

lemma driver_round_delay:
  assumes "validate_supervisor_config (sv_config sv) = Inr ()" "sc_retry_max (sv_config sv) \<le> DURATION_MAX"
    and "fst (driver_round sv clk wake attempt d) = PullRepeat d'" "delay_ok (sv_config sv) d"
  shows "delay_ok (sv_config sv) d'"
proof -
  obtain schedule where r: "(case pull_decide schedule wake of PullReturn \<Rightarrow> PullEnd
      | PullContinue \<Rightarrow> PullRepeat (driver_observe (sv_config sv) schedule (clk 0) d)
      | PullAttempt \<Rightarrow> driver_settle (sv_config sv) schedule attempt (clk 1) (driver_observe (sv_config sv) schedule (clk 0) d)) = PullRepeat d'"
    using assms(3) by (auto simp: driver_round_def Let_def split: if_splits option.splits)
  have o: "delay_ok (sv_config sv) (driver_observe (sv_config sv) schedule (clk 0) d)"
    using assms(1,4) by (auto simp: driver_observe_def delay_ok_def validate_supervisor_config_ok)
  have retry: "delay_ok (sv_config sv) (schedule_retry e (sc_retry_max (sv_config sv)) r d)" if "delay_ok (sv_config sv) d" for e r d
    using that assms(1,2) by (auto simp: schedule_retry_def delay_ok_def Let_def validate_supervisor_config_ok)
  have fresh: "delay_ok (sv_config sv) (d\<lparr>pd_retry_at := None, pd_retry_delay := sc_retry_initial (sv_config sv)\<rparr>)" for d
    using assms(1) by (auto simp: delay_ok_def validate_supervisor_config_ok)
  show ?thesis
    using r o retry [OF o] fresh
    by (auto simp: driver_settle_def split: pull_decision.splits sum.splits authority_supervisor_error.splits if_splits)
qed

lemma driver_rounds_delay:
  assumes "\<forall>(sv, _) \<in> set rounds. sv_config sv = config" "validate_supervisor_config config = Inr ()" "sc_retry_max config \<le> DURATION_MAX"
    and "driver_rounds rounds d = PullRepeat d'" "delay_ok config d"
  shows "delay_ok config d'"
  using assms(1,4,5)
proof (induction rounds d rule: driver_rounds.induct)
  case (2 sv clk wake attempt rounds d)
  obtain d1 where d1: "fst (driver_round sv clk wake attempt d) = PullRepeat d1" and rest: "driver_rounds rounds d1 = PullRepeat d'"
    using "2.prems"(2) by (auto split: pull_next.splits)
  have "delay_ok config d1"
    using driver_round_delay [OF _ _ d1] "2.prems"(1,3) assms(2,3) by auto
  then show ?case using "2.IH" [OF d1] rest "2.prems"(1) by auto
qed simp

text \<open>The back-off in closed form.\<close>

lemma schedule_retry_delays:
  assumes "0 < initial" "initial \<le> retry_max" "retry_max \<le> DURATION_MAX" "pd_retry_delay d = min (initial * 2 ^ n) retry_max"
  shows "pd_retry_delay (schedule_retry e retry_max r d) = min (initial * 2 ^ Suc n) retry_max"
  using assms by (auto simp: schedule_retry_def Let_def min_def)

section \<open>The expiry driver and the relay client\<close>

text \<open>
  When the timer of the expiry driver has run out on a credential that is still the armed one, the
  driver's call takes it out of use.
\<close>

lemma expiry_round_expires:
  assumes "expiry_round s1 ExpiryElapsed s2 = ExpireNow" "\<not> sv_stopped s2" "\<not> sv_cancelled s2"
    and "expiry_armed s1 = Some (rv, expires_at)" "expires_at \<le> now"
  shows "fst (expire_if_due now s2) = Some (AuthorityExpired rv expires_at)" "available_current (snd (expire_if_due now s2)) = None"
proof -
  have "expiry_armed s2 = Some (rv, expires_at)"
    using assms(1,4) by (auto simp: expiry_round_def expiry_still_armed_def split: if_splits)
  then obtain cur where "sv_current s2 = Some cur" "cu_available cur" "cu_credential_revision cur = rv" "cu_credential_expires_at cur = expires_at"
    by (auto simp: expiry_armed_def available_current_Some)
  with assms(2,3,5) show "fst (expire_if_due now s2) = Some (AuthorityExpired rv expires_at)" "available_current (snd (expire_if_due now s2)) = None"
    by (simp_all add: expire_if_due_def expire_section_def available_current_def)
qed

text \<open>
  The header that the relay client gets from a running supervisor passes the check the client makes
  before each request.
\<close>

lemma relay_header_accepted:
  assumes bytes: "\<And>b v. header_value_from_bytes E b = Some v \<Longrightarrow> hv_bytes v = b"
    and inv: "supervisor_inv E a"
    and relay: "relay_authorization (Some (sy_supervisor a, sy_supervisor b)) now = Inr snapshot"
  shows "valid_sensitive_bearer_header (au_header snapshot)"
proof -
  have "authorization_parts (sy_supervisor a) (sy_supervisor b) now = Inr (au_header snapshot, au_revision snapshot)"
    using relay by (auto simp: relay_authorization_def and_then_eq_Inr)
  then obtain old where "sv_current (sy_supervisor a) = Some old" "cu_authorization old = au_header snapshot"
    using authorization_parts_ok by blast
  then obtain credential where "to_sensitive_bearer_header E credential = Inr (au_header snapshot)"
    using reachable_current(1) [OF inv] by (auto simp: authority_genuine_def)
  with bytes show ?thesis by (rule bearer_header_accepted)
qed

section \<open>A concrete supervisor\<close>

definition sample_external :: "string \<Rightarrow> external_authority_update" where
  "sample_external token = \<lparr>eu_domain_id = 7, eu_peer_id = sample_relay, eu_verification_keys = sample_keys,
     eu_credential = \<lparr>compact = token\<rparr>, eu_credential_expires_at = (int (length token) + 1800) * 1000000000\<rparr>"

definition sample_validated :: "string \<Rightarrow> validated_update" where
  "sample_validated token = \<lparr>vu_verification_keys = sample_keys, vu_credential = \<lparr>compact = token\<rparr>,
     vu_claims = sample_claims sample_relay (word_of_nat (length token)),
     vu_authorization = \<lparr>hv_bytes = ''Bearer '' @ token, hv_sensitive = True\<rparr>,
     vu_credential_expires_at = (int (length token) + 1800) * 1000000000, vu_renew_at = None, vu_equivalent_credential = False\<rparr>"

definition sample_current :: "string \<Rightarrow> u64 \<Rightarrow> bool \<Rightarrow> current_authority" where
  "sample_current token rv available = \<lparr>cu_credential_revision = rv, cu_claims = sample_claims sample_relay (word_of_nat (length token)),
     cu_authorization = \<lparr>hv_bytes = ''Bearer '' @ token, hv_sensitive = True\<rparr>,
     cu_credential_expires_at = (int (length token) + 1800) * 1000000000, cu_renew_at = None, cu_available = available\<rparr>"

definition sample_node :: "string option \<Rightarrow> node_authority" where
  "sample_node token = \<lparr>na_peer_id = sample_relay, na_verifier = sample_ring,
     na_tokens = map_option (\<lambda>t. \<lparr>s_signed = \<lparr>compact = t\<rparr>, claims = sample_claims sample_relay (word_of_nat (length t))\<rparr>) token\<rparr>"

definition sample_supervisor :: "string \<Rightarrow> current_authority \<Rightarrow> authority_status \<Rightarrow> supervisor" where
  "sample_supervisor token cur status = \<lparr>sv_domain_id = 7, sv_node = sample_node (Some token), sv_config = supervisor_config_default,
     sv_mode = ExternalAuthority None, sv_stopped = False, sv_installed_keys = Some sample_keys, sv_current = Some cur,
     sv_status = status, sv_cancelled = False, sv_next_refresh_request = 1\<rparr>"

lemmas sample_supervisor_defs = sample_external_def sample_validated_def sample_current_def sample_node_def sample_supervisor_def

definition sample_token :: "string \<Rightarrow> bool" where
  "sample_token token \<longleftrightarrow> token = ''AAR'' \<or> token = ''AAAR''"

lemma sample_uuid: "uuid_to_string sample_env 7 = ''7''"
  by (simp add: sample_env_def dec_eval)

lemma sample_bearer: "sample_token token \<Longrightarrow> to_sensitive_bearer_header sample_env \<lparr>compact = token\<rparr> =
    Inr \<lparr>hv_bytes = ''Bearer '' @ token, hv_sensitive = True\<rparr>"
  by (auto simp: sample_token_def to_sensitive_bearer_header_def sample_env_def is_ascii_graphic_def)

text \<open>A reading of the sample clocks at which a token is valid.\<close>

definition valid_at :: "string \<Rightarrow> reading \<Rightarrow> bool" where
  "valid_at token r \<longleftrightarrow> mono_now r = 0 \<and> 0 \<le> wall_now r \<and> wall_now r < (int (length token) + 1800) * 1000000000"

lemma valid_at_seconds:
  assumes "valid_at token r" "sample_token token"
  shows "unat (unix_time (wall_now r)) < length token + 1800"
proof -
  have "wall_now r div 1000000000 < int (length token) + 1800" "0 \<le> wall_now r div 1000000000"
    using assms(1) by (auto simp: valid_at_def)
  moreover have "unat (word_of_int x :: u64) = nat x" if "0 \<le> x" "x < 2000" for x
    using that by (simp add: unsigned_of_int take_bit_int_eq_self)
  ultimately show ?thesis using assms by (auto simp: unix_time_def valid_at_def token_consts sample_token_def)
qed

lemma sample_verified:
  assumes "sample_token token" "valid_at token r"
  shows "verify sample_env sample_ring token r = Inr (sample_claims sample_relay (word_of_nat (length token)))"
    "check_credential sample_env sample_ring \<lparr>compact = token\<rparr> sample_relay None (Some 7) r =
       Inr (sample_claims sample_relay (word_of_nat (length token)))"
proof -
  have t: "token \<noteq> []" "length token < 65536" "take 1 token = ''A''" "PeerId [last token] = sample_relay" "length token \<le> 60"
    using assms(1) by (auto simp: sample_token_def sample_relay_def)
  note r = valid_at_seconds [OF assms(2,1)]
  show "verify sample_env sample_ring token r = Inr (sample_claims sample_relay (word_of_nat (length token)))"
    using sample_verify(1) [OF t(1,2) _ t(3) _ r] t assms(2) by (simp add: valid_at_def)
  show "check_credential sample_env sample_ring \<lparr>compact = token\<rparr> sample_relay None (Some 7) r =
       Inr (sample_claims sample_relay (word_of_nat (length token)))"
    by (rule sample_check_credential) (use t r assms(2) in \<open>auto simp: valid_at_def\<close>)
qed

lemma sample_validate:
  assumes "sample_token token" "valid_at token r" and sv: "sv_domain_id sv = 7" "na_peer_id (sv_node sv) = sample_relay"
      "\<not> sv_stopped sv" "\<not> sv_cancelled sv" "sv_installed_keys sv \<in> {None, Some sample_keys}"
    and cur: "\<forall>cur. sv_current sv = Some cur \<longrightarrow> cu_claims cur \<noteq> sample_claims sample_relay (word_of_nat (length token)) \<and>
      iat (cu_claims cur) < word_of_nat (length token)"
  shows "begin_update sample_env sv (update_from_external (sample_external token)) (\<lambda>_. r) = Inr (KeysDue (sample_validated token))"
proof -
  have "check_target sample_env sv (update_from_external (sample_external token)) (wall_now r) = Inr (word_of_nat (length token) + 1800)"
    using sv(1,2) assms(2)
    by (simp add: check_target_def update_from_external_def sample_external_def exact_expiration_def valid_at_def token_consts)
  moreover have "validate_successor sample_env sample_keys sample_keys = Inr ()"
    by (simp add: validate_successor_def parse_key_set_def sample_parse_key sample_keys_def transpose_opt_def validate_key_successor_def)
  moreover have "check_signed sample_env sv (update_from_external (sample_external token)) (word_of_nat (length token) + 1800) (\<lambda>_. r) =
      Inr (sample_claims sample_relay (word_of_nat (length token)))"
    using sv assms(2) sample_verified(1) [OF assms(1,2)] sample_from_keys sample_uuid calculation(2)
    by (auto simp: check_signed_def update_from_external_def sample_external_def valid_at_def sample_claims_def)
      (simp_all add: sample_env_def ref_codec_def)
  ultimately show ?thesis
    using sv cur sample_bearer [OF assms(1)]
    by (cases "sv_current sv")
      (auto simp: begin_update_def require_running_def validate_update_def Let_def sample_validated_def update_from_external_def sample_external_def
        sample_claims_def)
qed

lemma sample_keys_step:
  assumes "na_verifier (sv_node sv) = sample_ring" "mono_now (clk 3) = 0"
  shows "update_section sample_env clk (KeysDue (sample_validated token)) sv = (Inr (KeysInstalled (sample_validated token)), sv)"
proof -
  have "replace_keys_at sample_env sample_ring sample_keys 0 = (Inr (), sample_ring)"
    by (simp add: replace_keys_at_def parse_key_set_def sample_parse_key sample_keys_def sample_ring_def transpose_opt_def
        validate_key_successor_def sample_key_def)
  with assms show ?thesis by (simp add: node_install_verification_keys_def sample_validated_def)
qed

lemma sample_record_step:
  assumes "\<not> sv_stopped sv" "\<not> sv_cancelled sv"
  shows "update_section sample_env clk (KeysInstalled (sample_validated token)) sv =
    (Inr (CredentialDue (sample_validated token)), sv\<lparr>sv_installed_keys := Some sample_keys\<rparr>)"
  using assms by (simp add: record_keys_def require_running_def sample_validated_def)

lemma sample_credential_step:
  assumes "sample_token token" "valid_at token (clk 4)" "sv_domain_id sv = 7" "sv_node sv = sample_node old"
    and "\<forall>t. old = Some t \<longrightarrow> length t < length token"
  shows "update_section sample_env clk (CredentialDue (sample_validated token)) sv =
    (Inr (CredentialInstalled (sample_validated token)), sv\<lparr>sv_node := sample_node (Some token)\<rparr>)"
proof -
  have "(word_of_nat (length t) :: u64) < word_of_nat (length token)" if "old = Some t" for t
    using assms(1,5) that by (auto simp: sample_token_def word_less_nat_alt unsigned_of_nat take_bit_nat_eq_self)
  then have "store_install sample_env sample_ring (na_tokens (sample_node old)) \<lparr>compact = token\<rparr> sample_relay None (Some 7) (clk 4) =
      (Inr (sample_claims sample_relay (word_of_nat (length token))), na_tokens (sample_node (Some token)))"
    using sample_verified(2) [OF assms(1,2)]
    by (cases old) (auto simp: store_install_def sample_node_def sample_claims_def)
  with assms(3,4) show ?thesis
    by (simp add: install_credential_for_domain_def node_store_install_def sample_validated_def sample_node_def)
qed

lemma sample_commit_step:
  assumes "\<not> sv_stopped sv" "\<not> sv_cancelled sv" "next_authority_revision (map_option cu_credential_revision (sv_current sv)) = Some rv"
  shows "update_section sample_env clk (CredentialInstalled (sample_validated token)) sv =
    (Inr (Publishing rv ((int (length token) + 1800) * 1000000000)), sv\<lparr>sv_current := Some (sample_current token rv True)\<rparr>)"
  using assms by (simp add: commit_update_def sample_validated_def sample_current_def)

definition sample_started :: supervisor where
  "sample_started = sample_supervisor ''AAR'' (sample_current ''AAR'' 1 True) (AuthorityReady 1 1803000000000)"

lemma sample_start_external:
  "start_external sample_env 7 (sample_node None) (sample_external ''AAR'') supervisor_config_default False (\<lambda>_. \<lparr>wall_now = 0, mono_now = 0\<rparr>) =
     Inr sample_started"
proof -
  let ?clk = "\<lambda>_ :: nat. \<lparr>wall_now = 0, mono_now = 0\<rparr>" and ?v = "sample_validated ''AAR''"
    and ?new = "supervisor_new 7 (sample_node None) supervisor_config_default (ExternalAuthority None) False"
  let ?s1 = "?new\<lparr>sv_installed_keys := Some sample_keys\<rparr>"
  let ?s2 = "?s1\<lparr>sv_node := sample_node (Some ''AAR'')\<rparr>"
  let ?s3 = "?s2\<lparr>sv_current := Some (sample_current ''AAR'' 1 True)\<rparr>"
  have v: "sample_token ''AAR''" "valid_at ''AAR'' \<lparr>wall_now = 0, mono_now = 0\<rparr>" by (simp_all add: sample_token_def valid_at_def)
  have "begin_update sample_env ?new (update_from_external (sample_external ''AAR'')) ?clk = Inr (KeysDue ?v)"
    by (rule sample_validate) (use v in \<open>simp_all add: supervisor_new_def sample_node_def\<close>)
  moreover have "update_section sample_env ?clk (KeysDue ?v) ?new = (Inr (KeysInstalled ?v), ?new)"
    by (rule sample_keys_step) (simp_all add: supervisor_new_def sample_node_def)
  moreover have "update_section sample_env ?clk (KeysInstalled ?v) ?new = (Inr (CredentialDue ?v), ?s1)"
    by (rule sample_record_step) (simp_all add: supervisor_new_def)
  moreover have "update_section sample_env ?clk (CredentialDue ?v) ?s1 = (Inr (CredentialInstalled ?v), ?s2)"
    by (rule sample_credential_step [where old = None]) (use v in \<open>simp_all add: supervisor_new_def\<close>)
  moreover have "update_section sample_env ?clk (CredentialInstalled ?v) ?s2 = (Inr (Publishing 1 1803000000000), ?s3)"
    using sample_commit_step [of ?s2 1 ?clk "''AAR''"] by (simp add: supervisor_new_def next_authority_revision_def)
  moreover have "update_section sample_env ?clk (Publishing 1 1803000000000) ?s3 = (Inr (UpdateDone (Replaced 1)), sample_started)"
    by (simp add: sample_started_def sample_supervisor_def supervisor_new_def clear_requests_def)
  ultimately have "apply_update sample_env ?new (update_from_external (sample_external ''AAR'')) ?clk = (Inr (Replaced 1), sample_started)"
    by (simp add: apply_update_def finish_update.simps del: update_section.simps)
  moreover have "validate_supervisor_config supervisor_config_default = Inr ()"
    by (simp add: validate_supervisor_config_def supervisor_config_default_def from_secs_def)
  ultimately show ?thesis by (simp add: start_external_def start_with_def)
qed

text \<open>A late publication: the first authority expires, a second one is accepted, then the expiry is published.\<close>

definition sample_stale :: supervisor_system where
  "sample_stale = \<lparr>sy_supervisor = sample_supervisor ''AAAR'' (sample_current ''AAAR'' 2 True) (AuthorityExpired 1 1803000000000),
     sy_update = None, sy_pending = []\<rparr>"

lemma sample_stale_run: "(supervisor_step sample_env)\<^sup>*\<^sup>* (system_start sample_started) sample_stale"
proof -
  let ?clk = "\<lambda>_ :: nat. \<lparr>wall_now = 1803000000000, mono_now = 0\<rparr>" and ?v = "sample_validated ''AAAR''"
  let ?late = "AuthorityExpired 1 1803000000000"
  let ?sv1 = "sample_supervisor ''AAR'' (sample_current ''AAR'' 1 False) (AuthorityReady 1 1803000000000)"
  let ?sv2 = "?sv1\<lparr>sv_node := sample_node (Some ''AAAR'')\<rparr>"
  let ?sv3 = "?sv2\<lparr>sv_current := Some (sample_current ''AAAR'' 2 True)\<rparr>"
  let ?sv4 = "?sv3\<lparr>sv_status := AuthorityReady 2 1804000000000\<rparr>"
  let ?sys = "\<lambda>sv p. \<lparr>sy_supervisor = sv, sy_update = p, sy_pending = [?late]\<rparr>"
  have v: "sample_token ''AAAR''" "valid_at ''AAAR'' \<lparr>wall_now = 1803000000000, mono_now = 0\<rparr>"
    by (simp_all add: sample_token_def valid_at_def)
  have "supervisor_step sample_env (system_start sample_started) (?sys ?sv1 None)"
    using supervisor_step.expire [of 1803000000000 "system_start sample_started" "Some ?late" ?sv1]
    by (simp add: system_start_def sample_started_def sample_supervisor_def sample_current_def expire_if_due_def expire_section_def)
  moreover have "supervisor_step sample_env (?sys ?sv1 None) (?sys ?sv1 (Some (KeysDue ?v)))"
  proof -
    have "begin_update sample_env ?sv1 (update_from_external (sample_external ''AAAR'')) ?clk = Inr (KeysDue ?v)"
      by (rule sample_validate) (use v in \<open>simp_all add: sample_supervisor_defs sample_claims_def\<close>)
    then show ?thesis using supervisor_step.begin_an_update [of "?sys ?sv1 None"] by simp
  qed
  moreover have step: "supervisor_step sample_env (?sys sv (Some p)) (?sys sv' (next_phase res))"
    if "update_section sample_env ?clk p sv = (res, sv')" for p sv res sv'
    using supervisor_step.continue_update [of "?sys sv (Some p)" p] that by simp
  have "supervisor_step sample_env (?sys ?sv1 (Some (KeysDue ?v))) (?sys ?sv1 (Some (KeysInstalled ?v)))"
    using step [OF sample_keys_step [of ?sv1 ?clk "''AAAR''"]] by (simp add: sample_supervisor_defs next_phase_def)
  moreover have "supervisor_step sample_env (?sys ?sv1 (Some (KeysInstalled ?v))) (?sys ?sv1 (Some (CredentialDue ?v)))"
    using step [OF sample_record_step [of ?sv1 ?clk "''AAAR''"]] by (simp add: sample_supervisor_defs next_phase_def)
  moreover have "supervisor_step sample_env (?sys ?sv1 (Some (CredentialDue ?v))) (?sys ?sv2 (Some (CredentialInstalled ?v)))"
    using step [OF sample_credential_step [of "''AAAR''" ?clk ?sv1 "Some ''AAR''"]] v
    by (simp add: sample_supervisor_def next_phase_def)
  moreover have "supervisor_step sample_env (?sys ?sv2 (Some (CredentialInstalled ?v))) (?sys ?sv3 (Some (Publishing 2 1804000000000)))"
    using step [OF sample_commit_step [of ?sv2 2 ?clk "''AAAR''"]]
    by (simp add: sample_supervisor_def sample_current_def next_phase_def next_authority_revision_def checked_add_def)
  moreover have "supervisor_step sample_env (?sys ?sv3 (Some (Publishing 2 1804000000000))) (?sys ?sv4 None)"
    using step [of "Publishing 2 1804000000000" ?sv3] by (simp add: sample_supervisor_def clear_requests_def next_phase_def)
  moreover have "supervisor_step sample_env (?sys ?sv4 None) sample_stale"
    using supervisor_step.publish [of "?sys ?sv4 None" "[]" ?late "[]"] by (simp add: sample_stale_def sample_supervisor_def)
  ultimately show ?thesis by (meson converse_rtranclp_into_rtranclp rtranclp.rtrancl_refl)
qed

section \<open>Properties\<close>

text \<open>
  C8: What the supervisor hands out is the current, genuine authority. Start it on a node with a sound
  key ring and let updates, expiries, stops, failures and refresh requests interleave in any way. If a
  reader that looks at states \<open>a\<close> and, later, \<open>b\<close> gets a bearer header, then at \<open>b\<close> the supervisor is not
  stopped and this header is the available authority there, unexpired at the clock of the second look;
  the same holds for the claims that the public handle returns. In both cases the authority comes from
  a credential that verified under a key set and names this peer, this Domain and this expiration.
\<close>

theorem authorization_genuine:
  assumes ring: "ring_ok E (na_verifier node)"
    and start: "start_pull E domain node prepared config cancelled clk = Inr sv \<or> start_external E domain node initial config cancelled clk = Inr sv"
    and run: "(supervisor_step E)\<^sup>*\<^sup>* (system_start sv) a" "(supervisor_step E)\<^sup>*\<^sup>* a b"
  shows "(authorization_parts (sy_supervisor a) (sy_supervisor b) now = Inr (bearer, rv) \<longrightarrow>
      (\<exists>cur. sv_current (sy_supervisor b) = Some cur \<and> \<not> sv_stopped (sy_supervisor b) \<and> cu_available cur \<and>
         cu_authorization cur = bearer \<and> cu_credential_revision cur = rv \<and> now < cu_credential_expires_at cur \<and>
         authority_genuine E domain (na_peer_id node) (cu_claims cur) bearer (cu_credential_expires_at cur))) \<and>
    (peer_authorization_current lifecycle (Some (sy_supervisor a, now1, sy_supervisor b, now2)) now = Inr snapshot \<longrightarrow>
      lc_running lifecycle \<and> now < ps_expires_at snapshot \<and>
      (\<exists>cur. sv_current (sy_supervisor b) = Some cur \<and> \<not> sv_stopped (sy_supervisor b) \<and> cu_available cur \<and>
         ps_claims snapshot = cu_claims cur \<and> ps_expires_at snapshot = cu_credential_expires_at cur \<and>
         ps_credential_revision snapshot = cu_credential_revision cur \<and> now2 < cu_credential_expires_at cur \<and>
         authority_genuine E domain (na_peer_id node) (cu_claims cur) (cu_authorization cur) (cu_credential_expires_at cur)))"
proof -
  have a: "supervisor_inv E a" using started_run [OF ring start run(1)] by simp
  have b: "supervisor_inv E b" "sv_domain_id (sy_supervisor b) = domain" "na_peer_id (sv_node (sy_supervisor b)) = na_peer_id node"
    using started_run [OF ring start rtranclp_trans [OF run]] by simp_all
  note same = same_revision_same_core [OF a run(2)] and cur = reachable_current [OF b(1)]
  have "\<exists>cur. sv_current (sy_supervisor b) = Some cur \<and> \<not> sv_stopped (sy_supervisor b) \<and> cu_available cur \<and>
         cu_authorization cur = bearer \<and> cu_credential_revision cur = rv \<and> now < cu_credential_expires_at cur \<and>
         authority_genuine E domain (na_peer_id node) (cu_claims cur) bearer (cu_credential_expires_at cur)"
    if "authorization_parts (sy_supervisor a) (sy_supervisor b) now = Inr (bearer, rv)"
    using authorization_parts_ok [OF that] same cur b(2,3) by metis
  moreover have "lc_running lifecycle \<and> now < ps_expires_at snapshot \<and>
      (\<exists>cur. sv_current (sy_supervisor b) = Some cur \<and> \<not> sv_stopped (sy_supervisor b) \<and> cu_available cur \<and>
         ps_claims snapshot = cu_claims cur \<and> ps_expires_at snapshot = cu_credential_expires_at cur \<and>
         ps_credential_revision snapshot = cu_credential_revision cur \<and> now2 < cu_credential_expires_at cur \<and>
         authority_genuine E domain (na_peer_id node) (cu_claims cur) (cu_authorization cur) (cu_credential_expires_at cur))"
    if r: "peer_authorization_current lifecycle (Some (sy_supervisor a, now1, sy_supervisor b, now2)) now = Inr snapshot"
  proof -
    have p: "public_authorization_snapshot (sy_supervisor a) now1 (sy_supervisor b) now2 = Inr snapshot" "lc_running lifecycle"
        "now < ps_expires_at snapshot"
      using r by (auto simp: peer_authorization_current_def and_then_eq_Inr guard_ok)
    from public_snapshot_ok [OF p(1)] same cur b(2,3) p(2,3) show ?thesis by metis
  qed
  ultimately show ?thesis by blast
qed

text \<open>
  C11: Revisions identify authorities and order them. Along every run of a started supervisor the
  revision never goes down; states with the same revision have the same claims, bearer header and
  expiration; a larger revision belongs to a credential issued strictly later. A stop is for good.
  And while the supervisor runs with a revision that is not the last one, and no update is between the
  node's store and its own, the node authenticates with exactly the claims that are current.
\<close>

theorem authority_revisions_ordered:
  assumes ring: "ring_ok E (na_verifier node)"
    and start: "start_pull E domain node prepared config cancelled clk = Inr sv \<or> start_external E domain node initial config cancelled clk = Inr sv"
    and run: "(supervisor_step E)\<^sup>*\<^sup>* (system_start sv) a" "(supervisor_step E)\<^sup>*\<^sup>* a b"
    and cur: "sv_current (sy_supervisor a) = Some old"
  shows "\<exists>new. sv_current (sy_supervisor b) = Some new \<and> cu_credential_revision old \<le> cu_credential_revision new \<and>
      (cu_credential_revision new = cu_credential_revision old \<longrightarrow> cu_claims new = cu_claims old \<and>
         cu_authorization new = cu_authorization old \<and> cu_credential_expires_at new = cu_credential_expires_at old) \<and>
      (cu_credential_revision old < cu_credential_revision new \<longrightarrow> iat (cu_claims old) < iat (cu_claims new)) \<and>
      (sv_stopped (sy_supervisor a) \<longrightarrow> sv_stopped (sy_supervisor b)) \<and>
      (\<not> sv_stopped (sy_supervisor b) \<longrightarrow> \<not> sv_cancelled (sy_supervisor b) \<longrightarrow> cu_credential_revision new \<noteq> - 1 \<longrightarrow>
         \<not> between_stores (sy_update b) \<longrightarrow> node_holds (sy_supervisor b) (cu_claims new))"
proof -
  have a: "supervisor_inv E a" using started_run [OF ring start run(1)] by simp
  have b: "supervisor_inv E b" using run_issue_order(3) [OF run(2) a] .
  obtain new where new: "sv_current (sy_supervisor b) = Some new" "cu_credential_revision old \<le> cu_credential_revision new"
    using run_revision [OF run(2) a cur] by blast
  have "iat (cu_claims old) < iat (cu_claims new)" if "cu_credential_revision old < cu_credential_revision new"
    using run_issue_order(1) [OF run(2) a] that cur new(1)
    by (auto simp: authority_rank_def issue_rank_def authority_core_def word_less_nat_alt)
  moreover have "node_holds (sy_supervisor b) (cu_claims new)"
    if "\<not> sv_stopped (sy_supervisor b)" "\<not> sv_cancelled (sy_supervisor b)" "cu_credential_revision new \<noteq> - 1" "\<not> between_stores (sy_update b)"
    using b that new(1) by (auto simp: supervisor_inv_def node_follows_def authority_core_def)
  ultimately show ?thesis
    using new same_revision_same_core [OF a run(2) cur new(1)] run_issue_order(2) [OF run(2) a] by blast
qed

text \<open>
  C38: A refresh that reports success has a replacement, and it waits for a bounded time. Let the looks of
  \<open>refresh_after_unauthorized\<close> and the statuses it waits on come from states of one run that ends in \<open>b\<close>.
  If it returns without an error, the revision at \<open>b\<close> is larger than the rejected one. Where it waits, the
  deadline is within the early-refresh timeout of its first look, and within the rest of the life that
  the rejected credential had then.
\<close>

theorem refresh_returns_replacement:
  assumes ring: "ring_ok E (na_verifier node)"
    and start: "start_pull E domain node prepared config cancelled clk = Inr sv \<or> start_external E domain node initial config cancelled clk = Inr sv"
    and looks: "\<forall>i < 3. \<exists>s. (supervisor_step E)\<^sup>*\<^sup>* (system_start sv) s \<and> (supervisor_step E)\<^sup>*\<^sup>* s b \<and> fw_state w i = sy_supervisor s"
    and statuses: "\<forall>(status, wake) \<in> set (fw_turns w). \<exists>s. (supervisor_step E)\<^sup>*\<^sup>* (system_start sv) s \<and> (supervisor_step E)\<^sup>*\<^sup>* s b \<and>
      status = sv_status (sy_supervisor s)"
  shows "(refresh_after_unauthorized w rejected = Some (Inr ()) \<longrightarrow>
      (\<exists>cur. sv_current (sy_supervisor b) = Some cur \<and> rejected < cu_credential_revision cur)) \<and>
    (\<forall>until. refresh_wait_until w rejected = Some until \<longrightarrow>
      until \<le> mono_now (fw_clock w 0) + int (sc_early_refresh_timeout (sv_config (fw_state w 0))) \<and>
      (\<exists>cur. sv_current (fw_state w 0) = Some cur \<and> cu_credential_revision cur = rejected \<and>
         until \<le> mono_now (fw_clock w 0) + (cu_credential_expires_at cur - wall_now (fw_clock w 0))))"
proof -
  have later: "\<exists>cur'. sv_current (sy_supervisor b) = Some cur' \<and> rv \<le> cu_credential_revision cur'"
    if "(supervisor_step E)\<^sup>*\<^sup>* (system_start sv) s" "(supervisor_step E)\<^sup>*\<^sup>* s b" "sv_current (sy_supervisor s) = Some cur" "rv \<le> cu_credential_revision cur"
    for s cur rv
    using run_revision [OF that(2) _ that(3)] started_run [OF ring start that(1)] that(4) by (auto intro: order_trans)
  have "\<exists>cur. sv_current (sy_supervisor b) = Some cur \<and> rejected < cu_credential_revision cur"
    if ok: "refresh_after_unauthorized w rejected = Some (Inr ())"
    using refresh_ok_cases [OF ok]
  proof
    assume "\<exists>i < 3. refresh_deadline (fw_state w i) rejected (fw_clock w i) = Inr None"
    then obtain i where i: "i < 3" "refresh_deadline (fw_state w i) rejected (fw_clock w i) = Inr None" by blast
    from looks i(1) obtain s where s: "(supervisor_step E)\<^sup>*\<^sup>* (system_start sv) s" "(supervisor_step E)\<^sup>*\<^sup>* s b" "fw_state w i = sy_supervisor s"
      by blast
    obtain cur where "sv_current (sy_supervisor s) = Some cur" "rejected < cu_credential_revision cur"
      using refresh_deadline_ok [OF i(2)] s(3) by auto
    with later [OF s(1,2), of cur "cu_credential_revision cur"] show ?thesis by (auto intro: less_le_trans)
  next
    assume "wait_for_revision rejected (fw_turns w) = Some (Inr ())"
    then obtain rv e wake where t: "(AuthorityReady rv e, wake) \<in> set (fw_turns w)" "rejected < rv" using wait_for_revision_ok by blast
    then obtain s where s: "(supervisor_step E)\<^sup>*\<^sup>* (system_start sv) s" "(supervisor_step E)\<^sup>*\<^sup>* s b" "sv_status (sy_supervisor s) = AuthorityReady rv e"
      using statuses by fastforce
    obtain cur where "sv_current (sy_supervisor s) = Some cur" "rv \<le> cu_credential_revision cur"
      using ready_status_current s(3) started_run [OF ring start s(1)] by blast
    with later [OF s(1,2), of cur rv] t(2) show ?thesis by (auto intro: less_le_trans)
  qed
  moreover have "until \<le> mono_now (fw_clock w 0) + int (sc_early_refresh_timeout (sv_config (fw_state w 0))) \<and>
      (\<exists>cur. sv_current (fw_state w 0) = Some cur \<and> cu_credential_revision cur = rejected \<and>
         until \<le> mono_now (fw_clock w 0) + (cu_credential_expires_at cur - wall_now (fw_clock w 0)))"
    if until: "refresh_wait_until w rejected = Some until" for until
  proof -
    obtain original recomputed final where d: "refresh_deadline (fw_state w 0) rejected (fw_clock w 0) = Inr (Some original)"
      "until = min (min original recomputed) final"
      using until by (auto simp: refresh_wait_until_def split: prod.splits sum.splits option.splits)
    then show ?thesis using refresh_deadline_ok [OF d(1)] by auto
  qed
  ultimately show ?thesis by blast
qed

text \<open>
  C40: The published status can contradict the authority. \<open>expire_if_due\<close> and \<open>stop\<close> decide under the lock of
  the state and publish after they have given it back, so an update can be accepted in between. From a
  started supervisor a run leads to a state in which no thread has anything left to do, the
  authority of revision 2 is available and is handed out, and the status says that revision 1 has
  expired.
\<close>

theorem expired_status_overwrites_ready:
  "start_external sample_env 7 (sample_node None) (sample_external ''AAR'') supervisor_config_default False
     (\<lambda>_. \<lparr>wall_now = 0, mono_now = 0\<rparr>) = Inr sample_started \<and>
   (\<exists>b. (supervisor_step sample_env)\<^sup>*\<^sup>* (system_start sample_started) b \<and> sy_update b = None \<and> sy_pending b = [] \<and>
     authorization_parts (sy_supervisor b) (sy_supervisor b) 1803000000000 = Inr (\<lparr>hv_bytes = ''Bearer AAAR'', hv_sensitive = True\<rparr>, 2) \<and>
     sv_status (sy_supervisor b) = AuthorityExpired 1 1803000000000)"
proof -
  have "authorization_parts (sy_supervisor sample_stale) (sy_supervisor sample_stale) 1803000000000 =
      Inr (\<lparr>hv_bytes = ''Bearer AAAR'', hv_sensitive = True\<rparr>, 2)"
    by (simp add: authorization_parts_def authorization_read_def still_current_def available_current_def sample_stale_def sample_supervisor_defs)
  moreover have "sy_update sample_stale = None" "sy_pending sample_stale = []"
      "sv_status (sy_supervisor sample_stale) = AuthorityExpired 1 1803000000000"
    by (simp_all add: sample_stale_def sample_supervisor_def)
  ultimately show ?thesis using sample_start_external sample_stale_run by blast
qed

text \<open>
  C39: The pull driver neither spins nor sleeps through a recovery. After any rounds under a valid
  configuration, an attempt that does not replace the credential, and after which the driver goes on,
  schedules the next one: at most the maximal retry delay later, and at least the initial retry delay
  or the remaining life of the credential later, whichever is less.
\<close>

theorem driver_backs_off:
  assumes config: "validate_supervisor_config config = Inr ()" "sc_retry_max config \<le> DURATION_MAX"
    and rounds: "\<forall>(sv, _) \<in> set rounds. sv_config sv = config" "driver_rounds rounds (pull_driver_new config) = PullRepeat d"
    and round: "sv_config sv = config" "pull_schedule_of sv = Some schedule" "pull_decide schedule wake = PullAttempt"
      "fst (driver_round sv clk wake attempt d) = PullRepeat d'" "\<forall>outcome. attempt = Inr outcome \<longrightarrow> \<not> outcome_advanced outcome"
  shows "\<exists>at. pd_retry_at d' = Some at \<and> at \<le> mono_now (clk 1) + int (sc_retry_max config) \<and>
    mono_now (clk 1) + (case wall_remaining (sch_expires_at schedule) (wall_now (clk 1)) of
      Some remaining \<Rightarrow> int (min (sc_retry_initial config) remaining) | None \<Rightarrow> int (sc_retry_max config)) \<le> at"
proof -
  let ?d = "driver_observe config schedule (clk 0) d"
  have "delay_ok config (pull_driver_new config)"
    using config(1) by (simp add: delay_ok_def pull_driver_new_def validate_supervisor_config_ok)
  then have "delay_ok config d" using driver_rounds_delay [OF rounds(1) config rounds(2)] by simp
  then have ok: "delay_ok config ?d"
    using config(1) by (auto simp: driver_observe_def delay_ok_def validate_supervisor_config_ok)
  have "driver_settle config schedule attempt (clk 1) ?d = PullRepeat d'"
    using round(1-4) by (auto simp: driver_round_def Let_def split: if_splits)
  then have "d' = schedule_retry (sch_expires_at schedule) (sc_retry_max config) (clk 1) ?d"
    using round(5) by (auto simp: driver_settle_def split: sum.splits authority_supervisor_error.splits if_splits)
  then show ?thesis
    using ok by (auto simp: schedule_retry_def Let_def delay_ok_def split: option.splits)
qed

section \<open>Witnesses\<close>

lemma sample_node_ring: "ring_ok sample_env (na_verifier (sample_node None))"
  using from_keys_ok [OF sample_from_keys] by (simp add: sample_node_def)

theorem authorization_genuine_witness:
  "authority_genuine sample_env 7 sample_relay (sample_claims sample_relay 3) \<lparr>hv_bytes = ''Bearer AAR'', hv_sensitive = True\<rparr> 1803000000000"
proof -
  have "authorization_parts (sy_supervisor (system_start sample_started)) (sy_supervisor (system_start sample_started)) 5 =
      Inr (\<lparr>hv_bytes = ''Bearer AAR'', hv_sensitive = True\<rparr>, 1)"
    by (simp add: authorization_parts_def authorization_read_def still_current_def available_current_def sample_supervisor_defs
        sample_started_def system_start_def)
  moreover note authorization_genuine [OF sample_node_ring disjI2 [OF sample_start_external] rtranclp.rtrancl_refl rtranclp.rtrancl_refl,
      of 5 "\<lparr>hv_bytes = ''Bearer AAR'', hv_sensitive = True\<rparr>" 1]
  ultimately show ?thesis
    by (auto simp: sample_supervisor_defs sample_started_def system_start_def)
qed

theorem authority_revisions_ordered_witness:
  "node_holds sample_started (sample_claims sample_relay 3)"
  using authority_revisions_ordered [OF sample_node_ring disjI2 [OF sample_start_external] rtranclp.rtrancl_refl rtranclp.rtrancl_refl,
      of "sample_current ''AAR'' 1 True"]
  by (auto simp: sample_supervisor_defs sample_started_def system_start_def)

definition sample_refresh :: refresh_world where
  "sample_refresh = \<lparr>fw_state = (\<lambda>_. sample_started), fw_clock = (\<lambda>_. \<lparr>wall_now = 5, mono_now = 0\<rparr>), fw_refresh_lock = True,
     fw_update_lock = True, fw_listening = True, fw_turns = []\<rparr>"

theorem refresh_returns_replacement_witness:
  "refresh_after_unauthorized sample_refresh 0 = Some (Inr ()) \<and> refresh_wait_until sample_refresh 1 = Some 10000000000 \<and>
   (\<exists>cur. sv_current sample_started = Some cur \<and> 0 < cu_credential_revision cur) \<and> (10000000000 :: int) \<le> 0 + int (from_secs 10)"
proof -
  have r: "refresh_after_unauthorized sample_refresh 0 = Some (Inr ())"
    by (simp add: refresh_after_unauthorized_def with_deadline_def refresh_deadline_def available_current_def judge_rejected_revision_def
        sample_refresh_def sample_started_def sample_supervisor_defs)
  have w: "refresh_wait_until sample_refresh 1 = Some 10000000000"
    by (simp add: refresh_wait_until_def refresh_deadline_def available_current_def judge_rejected_revision_def wall_remaining_def
        sample_refresh_def sample_started_def sample_supervisor_defs supervisor_config_default_def from_secs_def)
  have looks: "\<forall>i < 3. \<exists>s. (supervisor_step sample_env)\<^sup>*\<^sup>* (system_start sample_started) s \<and>
      (supervisor_step sample_env)\<^sup>*\<^sup>* s (system_start sample_started) \<and> fw_state sample_refresh i = sy_supervisor s"
    by (auto simp: sample_refresh_def intro!: exI [of _ "system_start sample_started"]) (simp add: system_start_def)
  have statuses: "\<forall>(status, wake) \<in> set (fw_turns sample_refresh). \<exists>s. (supervisor_step sample_env)\<^sup>*\<^sup>* (system_start sample_started) s \<and>
      (supervisor_step sample_env)\<^sup>*\<^sup>* s (system_start sample_started) \<and> status = sv_status (sy_supervisor s)"
    by (simp add: sample_refresh_def)
  note p = refresh_returns_replacement [OF sample_node_ring disjI2 [OF sample_start_external] looks statuses]
  from p [of 0] p [of 1] r w show ?thesis
    by (auto simp: system_start_def sample_refresh_def sample_started_def sample_supervisor_defs supervisor_config_default_def)
qed

theorem driver_backs_off_witness:
  "\<exists>d' at. fst (driver_round (sample_started\<lparr>sv_current := Some ((sample_current ''AAR'' 1 True)\<lparr>cu_renew_at := Some 0\<rparr>)\<rparr>) (\<lambda>_. \<lparr>wall_now = 5, mono_now = 0\<rparr>) PullDue
     (Inl RefreshTimedOut) (pull_driver_new supervisor_config_default)) = PullRepeat d' \<and> pd_retry_at d' = Some at \<and> 1000000000 \<le> at \<and> at \<le> 30000000000"
proof -
  let ?sv = "sample_started\<lparr>sv_current := Some ((sample_current ''AAR'' 1 True)\<lparr>cu_renew_at := Some 0\<rparr>)\<rparr>"
  let ?clk = "\<lambda>_ :: nat. \<lparr>wall_now = 5, mono_now = 0\<rparr>"
  let ?schedule = "\<lparr>sch_credential_revision = 1, sch_renew_at = 0, sch_expires_at = 1803000000000, sch_available = True\<rparr>"
  have config: "validate_supervisor_config supervisor_config_default = Inr ()" "sc_retry_max supervisor_config_default \<le> DURATION_MAX"
    by (simp_all add: validate_supervisor_config_def supervisor_config_default_def from_secs_def DURATION_MAX_def)
  have schedule: "pull_schedule_of ?sv = Some ?schedule" "sv_config ?sv = supervisor_config_default" "pull_decide ?schedule PullDue = PullAttempt"
    by (simp_all add: pull_schedule_of_def pull_decide_def sample_started_def sample_supervisor_defs)
  obtain d' where d': "fst (driver_round ?sv ?clk PullDue (Inl RefreshTimedOut) (pull_driver_new supervisor_config_default)) = PullRepeat d'"
    using schedule by (auto simp: driver_round_def driver_settle_def Let_def sample_started_def sample_supervisor_defs)
  from driver_backs_off [OF config, of "[]", OF _ _ schedule(2,1,3) d'] obtain at where
    "pd_retry_at d' = Some at" "1000000000 \<le> at" "at \<le> 30000000000"
    by (auto simp: wall_remaining_def supervisor_config_default_def from_secs_def)
  with d' show ?thesis by blast
qed

end
