(* ===== verification/Spec2Isabelle.thy ===== *)
theory Spec2Isabelle
  imports Relay_Reservation Route_Catalog Circuit_Hop Application_Protocol Source_Admission
    Observation Relay_Worker Relay_Client Resolution Authority_Safety
begin

text \<open>
  A verification of the peer-to-peer core of the Auki SDK (\<open>src/core/auki-p2p/src\<close>), of the relay
  booking above it (\<open>src/core/auki-relay-booking/src\<close>, \<open>src/core/auki-sdk/src/relay\<close>), and of the authority,
  discovery, application protocols and resolution in the SDK (\<open>src/core/auki-sdk/src\<close>). Files without a directory are
  in the first.

  \<^bold>\<open>The program.\<close> A node holds a libp2p identity and a DDS credential for one Domain. It reserves
  slots at relays, publishes the routes under which it can be reached, opens circuits through
  relays to other peers, and exposes a stream to an application only after both sides have
  authenticated each other with their credentials. The relays are booked at a control plane, DMS; a
  coordinator keeps the booking alive, follows its slots and decides which routes are published. A
  peer advertises its routes and protocols at a tracker, DDS, finds other peers there, and connects to a
  peer it has found.
  The parts and the theories that model them:

  \<^item> \<open>Prelude\<close>, \<open>Rust_Str\<close>, \<open>Multiaddr\<close>, \<open>P2p_Error\<close>, \<open>Framing\<close>: results and early returns, checked
    integer arithmetic, \<open>HashMap\<close> and \<open>BTreeMap\<close>, operations of \<open>str\<close>, multiaddrs and Peer IDs, the
    crate's error enum (\<open>error.rs\<close>), byte streams with big-endian length prefixes. The prelude also
    holds the contracts the components share, as locales: \<open>keyed_map\<close> (look-up after insert and
    removal, interpreted for both containers) and the systems of steps \<open>invariant_system\<close>,
    \<open>ranked_system\<close> (a number that never decreases) and \<open>versioned_system\<close> (a view that changes only
    together with that number), which every state machine below interprets, and \<open>event_sourced\<close>
    (the events an operation sends replay its effect).
  \<^item> \<open>Relay_Provider\<close> and \<open>Relay_Reservation\<close> (\<open>relay.rs\<close>): limits, canonical provider bases, the
    provider snapshot, and the reservation node that turns observations of a connection, a
    listener and an acceptance into one publication per generation and tears reservations down.
  \<^item> \<open>Route_Validation\<close> (\<open>routing.rs\<close>, \<open>candidate_route.rs\<close>, \<open>browser_route.rs\<close>): the validators of
    direct, circuit, candidate and browser routes.
  \<^item> \<open>Route_Catalog\<close> (\<open>routing.rs\<close>): the published routes under a revision number, with fenced relay
    routes, expiring authorizations and conditional commits.
  \<^item> \<open>Circuit_Hop\<close> (\<open>circuit_hop.rs\<close> and the exact-circuit request of \<open>browser_transport.rs\<close>): which
    connection serves a circuit hop, who owns it, and the replacement of a hop.
  \<^item> \<open>Application_Protocol\<close> (\<open>application_protocol.rs\<close>, \<open>relay_dial_gate.rs\<close>): protocol identifiers,
    their resource bounds, and the permits of concurrent dials.
  \<^item> \<open>Token\<close> (\<open>token.rs\<close>): the claim profile, the ring of verification keys with its rotation rules,
    verification, and the credential store.
  \<^item> \<open>Local_Authority\<close> (\<open>local_authority.rs\<close>, \<open>authority_update.rs\<close>): complete authority updates
    pinned to one peer and Domain.
  \<^item> \<open>Node_Authority\<close> (\<open>authority.rs\<close>, and the methods of the node it calls): the handle that installs,
    inspects and clears the credential and the keys of a native node.
  \<^item> \<open>Authority_Supervisor\<close> and \<open>Authority_Safety\<close> (\<open>authority.rs\<close> and \<open>authorization.rs\<close> of \<open>auki-sdk\<close>,
    \<open>error.rs\<close> of \<open>auki-auth\<close>): the supervisor that validates and installs authority updates, expires,
    renews and stops an authority and hands it to the clients, with its threads interleaved; and what
    holds on every run.
  \<^item> \<open>Authentication\<close> (\<open>authentication.rs\<close>): the mutual authentication conversation on a stream.
  \<^item> \<open>Source_Admission\<close> (\<open>source_admission.rs\<close>): asking a relay to admit this peer as a source, and
    the cache of granted leases.
  \<^item> \<open>Observation\<close> (\<open>observation.rs\<close>, and \<open>known_peers.rs\<close> of the \<open>auki-sdk\<close> crate): which peers are
    authenticated and connected, the events that report it, expiry, and the view of one Domain.
  \<^item> \<open>Relay_Booking\<close> (\<open>lib.rs\<close> of \<open>auki-relay-booking\<close>): the HTTP client of DMS, from the request and
    its one repetition after a refreshed authorization to the validated snapshot or typed error.
  \<^item> \<open>Runtime_Policy\<close> (\<open>runtime_policy.rs\<close> and the relay policy of \<open>config.rs\<close>, in \<open>auki-sdk\<close>): deadlines
    and delays, and whether an active booking is the requested one.
  \<^item> \<open>Relay_Fence\<close>, \<open>Relay_Coordinator\<close>, \<open>Relay_Coordinator_Safety\<close> and \<open>Relay_Worker\<close>
    (\<open>relay/coordinator.rs\<close> of \<open>auki-sdk\<close>): the fence of one coordinator around the shared catalog; the
    actor that turns booking snapshots, node events and timers into workers, publications and
    retirements; its invariants; and the task that obtains one reservation.
  \<^item> \<open>Relay_Client\<close> (\<open>relay_client.rs\<close>): the wrapper that stamps what the relay client of libp2p reports
    with the reservation it belongs to.
  \<^item> \<open>Targeted_Stream\<close> (\<open>targeted_stream.rs\<close>): streams on a chosen connection, from the control through the
    behaviour to the handler of the connection, and the retirement of a stalled relay connection.
  \<^item> \<open>Discovery\<close> and \<open>Discovery_Safety\<close> (\<open>discovery.rs\<close> of \<open>auki-sdk\<close>): the client of the tracker, from the
    authenticated request to publication, withdrawal and lookup; the tasks that keep an advertisement
    alive; and what they guarantee.
  \<^item> \<open>Peer_Protocols\<close> (\<open>protocols.rs\<close>, \<open>protocol_contract.rs\<close>, \<open>served_protocols.rs\<close>, the lifecycle of
    \<open>context.rs\<close>, in \<open>auki-sdk\<close>): mounting and unmounting protocols, the published list, shutdown, opening.
  \<^item> \<open>Resolution\<close> (\<open>resolution.rs\<close> of \<open>auki-sdk\<close>): connecting to a peer that a lookup has found.

  \<^bold>\<open>How the code is rendered.\<close> Structs are records, enums datatypes, machine integers words.
  \<open>Result\<close> is a sum with the error on the left; every \<open>return Err\<close> and \<open>?\<close> is a branch. A method
  that may fail after it has changed state returns a pair of its result and the state it leaves.
  A lock makes a critical section atomic, so a critical section is one function; where a method
  is several critical sections (the admission cache, the authority supervisor, the sending of observations), its steps are separate and a step relation
  interleaves the calls. Four methods with more than one critical section are one step: the fence of a
  coordinator (one withdrawal in the catalog after the other), the removal of a protocol's server (entry,
  then server), the status of the catalog (sent after its lock is released), and a snapshot of all
  observations, which is read between two operations. Where a method reads a clock, the keys or the credential several times,
  each reading is a separate argument, so nothing is assumed to stand still in between. A bounded
  phase of a conversation can complete, time out or fail with an I/O error, leaving the stream in
  any state. The coordinator, the worker and the client of the tracker are sequential tasks that ask the outside world: clocks,
  random numbers, answers of DMS and of the node, results of awaited tasks, the order in which a hash
  map is iterated. A \<open>world\<close> holds the answer to the \<open>n\<close>-th question of a run, so that a statement about
  every world covers every behaviour of these; \<open>expect\<close> and a task handle awaited twice are panics, values
  of their own, and what a task does to the outside is logged. Texts and byte strings are lists of characters, one per byte. Times are nanoseconds.

  \<^bold>\<open>Third-party code\<close> is a parameter: the text codec of Peer IDs and multiaddrs (\<open>addr_codec\<close>), UUID,
  UTF-8, P-256, JWT, HTTP header and calendar code (\<open>token_env\<close>), JSON and RFC 3339
  (\<open>admission_env\<close>), HTTP, JSON and URLs of the two HTTP clients (\<open>booking_codec\<close>, \<open>url_lib\<close>,
  \<open>tracker_codec\<close>), the relay client of libp2p (\<open>upstream\<close>). What is relied on is named: \<open>codec_ok\<close>, \<open>jwt_key_verdict\<close>,
  \<open>timestamps_exact\<close>; concrete codecs and environments satisfy them and evaluate the witnesses.

  \<^bold>\<open>What is shown.\<close> Authentication: an exposed stream means that the remote token verified at the
  boundary for the Noise peer and the Domain, and that the other side accepted ours. Keys and
  credentials: a rotation never cuts off a token during its life, a generation stands for one
  pair of keys, verification accepts exactly the profile, a credential only moves forward, an
  authority stays bound to its peer and Domain, and exactly which failures leave new keys behind.
  Supervisor: what a reader gets is the current, available and genuine authority of this peer; a revision
  stands for one credential and a later one was issued later; the node authenticates with the current
  claims; a refresh that succeeds has a replacement and waits for a bounded time; retries keep their
  distance; and the published status can contradict the authority, because it is sent outside the lock.
  Admission: granted deadlines are bounded, the frame codec is exact, a cached lease is one the
  relay granted for that key and is fresh by both clocks, with one request in flight per key.
  Reservations: fencing by generation, publication only on complete evidence and once, teardown
  that completes, rejection of wrong limits, independence of reservations, no panic. Catalog: a
  revision identifies the published routes, a commit happens only on current state, bounds and
  visibility. Hops: bounded generations, order-independent restoration, per-owner release.
  Validators: exact characterisations and canonical round trips. Observations: the events replayed
  on what a snapshot showed give the current snapshot; and a subscriber of a Domain that applies the
  events it receives and reads a fresh snapshot after a lag ends with the known peers of that Domain,
  however the snapshot, the sending of events and the receiving interleave. Booking: a
  snapshot is accepted exactly if it is well formed, a call sends at most two requests and only to its
  endpoint, results and errors are what the responses say. Coordinator: a published route is that of a
  current, confirmed reservation and authorized by the booking; no \<open>expect\<close> of a handler fails; a
  coordinator that has ended has fenced every route it owned and changes nothing any more, whatever
  else uses the catalog; a failed cleanup makes its end panic and abort what is left to clean up. Worker: it
  ends, and every reservation it obtained is cancelled or known to the coordinator; a worker that is
  aborted loses one reservation at most. Relay client: a stamp needs a dispatch, and a fenced generation is
  silent but for the failure of a dispatch that was still pending. Targeted streams: one answer per request, and a stream only from the chosen
  connection to the chosen peer; a relay connection is retired exactly after sustained timeouts. Discovery:
  lookups are bounded and return well-formed candidates only, a publisher speaks for itself only and ends
  by withdrawing. Protocols: the published list is the set of mounted protocols, no server is lost.
  Resolution: a stream is handed out only after its signed identity matched; and the one panic that an
  advertisement of another peer can cause. Loops are structural recursion or have a
  measure (the receive loop of a subscription, the phases of an authority update). Two loops retry within a time budget and have fuel:
  the deletion of a booking (\<open>delete_loop\<close>) and the worker (\<open>reservation_worker\<close>). Each repetition waits
  for the shortest delay at least, so one more than the number of shortest delays in the budget is
  enough, which is what their termination theorems show for every delay of a millisecond or more.

  \<^bold>\<open>Not modelled.\<close> The swarm event loops (\<open>transport.rs\<close>, \<open>browser_transport.rs\<close> beyond the
  exact-circuit request, \<open>runtime.rs\<close>) drive libp2p and channels; key files, signing and resolver
  configuration are I/O. Debug and Display renderings are left out, except where a text is part of an
  error. Overflow of \<open>Instant\<close> and \<open>DateTime\<close> additions, far outside any clock, is not modelled. Nor is the
  cancellation of a handler of the coordinator in the middle of an await, by a forced shutdown, or its
  health channel; the abort of a worker is modelled, as a run that stops after any of its actions. Of discovery, the policy for the base URL and the handles that end a publisher are left
  out; of the protocols, the replacement of a circuit and the views handed to applications; resolution is
  that of native platforms. The spawning and joining of the supervisor's tasks is left out, and the
  peer runtimes (\<open>peer_runtime.rs\<close>, \<open>browser_peer_runtime.rs\<close>) start and join tasks around these parts;
  \<open>auki-auth\<close>, the clients of the Domain, DMS and task services, the bindings and the laboratory crates are
  outside this development.
\<close>

end
